(* ===== verification/Prelude.thy ===== *)
theory Prelude
  imports Main "HOL-Library.Word" "HOL-Library.Sublist"
begin

text \<open>
  The shared vocabulary of the development: the model's names for Go's base types, the
  few operations of Go's standard library that several packages use (\<open>slices.Contains\<close>,
  \<open>strings.HasPrefix\<close>, the two lowercase-hex regular expressions), the collections the
  component proofs draw on, and generic lemmas on lists and words.

  A Go \<open>string\<close> and a Go \<open>[]byte\<close> are both sequences of bytes; HOL's \<^typ>\<open>char\<close> is a
  byte, so both are \<^typ>\<open>char list\<close>.
\<close>

type_synonym bytes = "char list"
type_synonym uint64 = "64 word"

named_theorems permit_simps "unfolding rules of the structural permits of a record"
named_theorems frame_simps "fields an operation leaves alone"

section \<open>Bytes and strings\<close>

abbreviation newline :: char where
  "newline \<equiv> CHR 0x0A"

abbreviation nul :: char where
  "nul \<equiv> CHR 0x00"

definition has_prefix :: "bytes \<Rightarrow> bytes \<Rightarrow> bool" where
  "has_prefix s p \<longleftrightarrow> take (length p) s = p"

lemma has_prefix_iff: "has_prefix s p \<longleftrightarrow> (\<exists>t. s = p @ t)"
  unfolding has_prefix_def by (metis append_eq_conv_conj append_take_drop_id)

lemma has_prefix_append [simp]: "has_prefix (p @ t) p"
  by (simp add: has_prefix_def)

definition lower_hex :: "char \<Rightarrow> bool" where
  "lower_hex c \<longleftrightarrow> c \<in> set ''0123456789abcdef''"

definition lower_hex_string :: "nat \<Rightarrow> bytes \<Rightarrow> bool" where
  "lower_hex_string n s \<longleftrightarrow> length s = n \<and> list_all lower_hex s"

lemma lower_hex_string_length: "lower_hex_string n s \<Longrightarrow> length s = n"
  by (simp add: lower_hex_string_def)

text \<open>Lowercase hex of a byte string (\<open>hex.EncodeToString\<close>).\<close>

definition hexDigit :: "nat \<Rightarrow> char" where
  "hexDigit d = ''0123456789abcdef'' ! (d mod 16)"

definition hexBytes :: "bytes \<Rightarrow> bytes" where
  "hexBytes bs = concat (map (\<lambda>c. [hexDigit (of_char c div 16), hexDigit (of_char c)]) bs)"

lemma hexDigit_hex: "lower_hex (hexDigit n)"
proof -
  have "lower_hex (''0123456789abcdef'' ! k)" if "k < 16" for k :: nat
    using that unfolding lower_hex_def by (intro nth_mem) simp
  then show ?thesis by (simp add: hexDigit_def)
qed

lemma hexBytes_hex: "lower_hex_string (2 * length b) (hexBytes b)"
  by (induction b) (auto simp: hexBytes_def lower_hex_string_def hexDigit_hex)

lemma hexDigit_inj: "hexDigit m = hexDigit n \<Longrightarrow> m mod 16 = n mod 16"
  by (simp add: hexDigit_def nth_eq_iff_index_eq)

lemma hexBytes_inj: "hexBytes a = hexBytes b \<Longrightarrow> a = b"
proof (induction a arbitrary: b)
  case Nil
  then show ?case by (cases b) (simp_all add: hexBytes_def)
next
  case (Cons x a)
  then obtain y c where b: "b = y # c" by (cases b) (simp_all add: hexBytes_def)
  from Cons.prems have d: "hexDigit (of_char x div 16) = hexDigit (of_char y div 16)" "hexDigit (of_char x) = hexDigit (of_char y)"
    and t: "hexBytes a = hexBytes c" by (simp_all add: b hexBytes_def)
  have "(of_char x :: nat) div 16 < 16" "(of_char y :: nat) div 16 < 16" by (rule less_mult_imp_div_less, simp)+
  with d [THEN hexDigit_inj] have "(of_char x :: nat) = of_char y" by (metis div_mult_mod_eq mod_less)
  with Cons.IH [OF t] show ?case by (simp add: b)
qed

text \<open>Decimal digits of a non-negative number (\<open>fmt.Sprintf "%d"\<close>).\<close>

fun showDigits :: "nat \<Rightarrow> bytes" where
  "showDigits n = (if n < 10 then [''0123456789'' ! n] else showDigits (n div 10) @ [''0123456789'' ! (n mod 10)])"

definition showInt :: "int \<Rightarrow> bytes" where
  "showInt n = (if n < 0 then CHR ''-'' # showDigits (nat (- n)) else showDigits (nat n))"

section \<open>Lists\<close>

lemma butlast_last_append: "xs \<noteq> [] \<Longrightarrow> butlast xs @ last xs # ys = xs @ ys"
  by (induction xs) auto

lemma takeWhile_neq_Nil_dropWhile:
  "dropWhile (\<lambda>c. c \<noteq> x) xs \<noteq> [] \<Longrightarrow> hd (dropWhile (\<lambda>c. c \<noteq> x) xs) = x"
  using hd_dropWhile [of "\<lambda>c. c \<noteq> x" xs] by simp

lemma takeWhile_dropWhile_line:
  "dropWhile (\<lambda>c. c \<noteq> x) xs = y # ys \<Longrightarrow> xs = takeWhile (\<lambda>c. c \<noteq> x) xs @ x # ys"
  by (metis list.discI list.sel(1) takeWhile_dropWhile_id takeWhile_neq_Nil_dropWhile)

section \<open>Words\<close>

lemma unat_word_add_of_nat:
  fixes b :: uint64
  assumes "unat b + k < 2 ^ 64"
  shows "unat (b + of_nat k) = unat b + k"
proof -
  have "unat (of_nat k :: uint64) = k"
    using assms by (simp add: unat_of_nat)
  with assms show ?thesis
    by (simp add: unat_word_ariths)
qed

section \<open>Splitting and joining\<close>

text \<open>\<open>strings.Split\<close> and \<open>strings.Join\<close> with a separator of one byte.\<close>

fun splitOn :: "char \<Rightarrow> bytes \<Rightarrow> bytes list" where
  "splitOn sep [] = [[]]"
| "splitOn sep (c # cs) =
     (if c = sep then [] # splitOn sep cs
      else (case splitOn sep cs of [] \<Rightarrow> [[c]] | p # ps \<Rightarrow> (c # p) # ps))"

fun joinWith :: "char \<Rightarrow> bytes list \<Rightarrow> bytes" where
  "joinWith sep [] = []"
| "joinWith sep [p] = p"
| "joinWith sep (p # ps) = p @ sep # joinWith sep ps"

lemma splitOn_not_Nil [simp]: "splitOn sep s \<noteq> []"
  by (induction s) (auto split: list.splits)

lemma joinWith_splitOn [simp]: "joinWith sep (splitOn sep s) = s"
proof (induction s)
  case (Cons c cs)
  obtain p ps where p: "splitOn sep cs = p # ps" by (cases "splitOn sep cs") auto
  with Cons show ?case by (cases ps) auto
qed simp

lemma splitOn_parts: "p \<in> set (splitOn sep s) \<Longrightarrow> sep \<notin> set p"
proof (induction s arbitrary: p)
  case (Cons c cs)
  obtain q qs where q: "splitOn sep cs = q # qs" by (cases "splitOn sep cs") auto
  with Cons.IH [of q] Cons.IH [of p] Cons.prems show ?case by (auto split: if_splits)
qed simp

lemma splitOn_plain: "sep \<notin> set p \<Longrightarrow> splitOn sep p = [p]"
  by (induction p) auto

lemma splitOn_part: "sep \<notin> set p \<Longrightarrow> splitOn sep (p @ sep # s) = p # splitOn sep s"
  by (induction p) auto

lemma splitOn_joinWith: "ps \<noteq> [] \<Longrightarrow> \<forall>p \<in> set ps. sep \<notin> set p \<Longrightarrow> splitOn sep (joinWith sep ps) = ps"
  by (induction sep ps rule: joinWith.induct) (simp_all add: splitOn_plain splitOn_part)

lemma set_joinWith: "set (joinWith sep ps) \<subseteq> insert sep (\<Union> (set ` set ps))"
  by (induction sep ps rule: joinWith.induct) auto

lemma set_joinWith_part: "p \<in> set ps \<Longrightarrow> set p \<subseteq> set (joinWith sep ps)"
  by (induction sep ps rule: joinWith.induct) auto

lemma joinWith_snoc: "ps \<noteq> [] \<Longrightarrow> joinWith sep (ps @ [p]) = joinWith sep ps @ sep # p"
  by (induction sep ps rule: joinWith.induct) auto

end
