(* ===== verification/Utf8.thy ===== *)
theory Utf8
  imports Prelude
begin

text \<open>
  The part of Go's \<^verbatim>\<open>unicode/utf8\<close>, \<^verbatim>\<open>unicode\<close> and \<^verbatim>\<open>strings\<close> the doors rely on when they bound
  untrusted text: a string read as runes (an invalid byte is one \<open>RuneError\<close>), runes written back
  as UTF-8, the control and space classes, and \<^verbatim>\<open>strings.Fields\<close>.
\<close>

type_synonym rune = nat
type_synonym runes = "rune list"

definition RuneError :: rune where
  "RuneError = 65533"

definition validRune :: "rune \<Rightarrow> bool" where
  "validRune r \<longleftrightarrow> r < 0xD800 \<or> 0xE000 \<le> r \<and> r \<le> 0x10FFFF"

section \<open>Writing runes\<close>

definition encodeValid :: "rune \<Rightarrow> bytes" where
  "encodeValid r =
     (if r < 0x80 then [char_of r]
      else if r < 0x800 then [char_of (0xC0 + r div 64), char_of (0x80 + r mod 64)]
      else if r < 0x10000
      then [char_of (0xE0 + r div 4096), char_of (0x80 + r div 64 mod 64), char_of (0x80 + r mod 64)]
      else [char_of (0xF0 + r div 262144), char_of (0x80 + r div 4096 mod 64),
            char_of (0x80 + r div 64 mod 64), char_of (0x80 + r mod 64)])"

definition encodeRune :: "rune \<Rightarrow> bytes" where
  "encodeRune r = encodeValid (if validRune r then r else RuneError)"

definition encodeRunes :: "runes \<Rightarrow> bytes" where
  "encodeRunes rs = concat (map encodeRune rs)"

section \<open>Reading runes\<close>

abbreviation ord :: "char \<Rightarrow> nat" where
  "ord \<equiv> of_char"

definition contByte :: "char \<Rightarrow> bool" where
  "contByte c \<longleftrightarrow> 0x80 \<le> ord c \<and> ord c \<le> 0xBF"

text \<open>The range of the second byte after a leading byte of a longer sequence.\<close>

definition secondByte :: "nat \<Rightarrow> char \<Rightarrow> bool" where
  "secondByte b0 c \<longleftrightarrow>
     (if b0 = 0xE0 then 0xA0 else if b0 = 0xF0 then 0x90 else 0x80) \<le> ord c
     \<and> ord c \<le> (if b0 = 0xED then 0x9F else if b0 = 0xF4 then 0x8F else 0xBF)"

text \<open>The first rune of a non-empty string and the number of bytes it takes.\<close>

definition decodeRune :: "char \<Rightarrow> bytes \<Rightarrow> rune \<times> nat" where
  "decodeRune c bs =
     (let b0 = ord c
      in if b0 < 0x80 then (b0, 1)
         else if 0xC2 \<le> b0 \<and> b0 \<le> 0xDF then
           (case bs of
              c1 # _ \<Rightarrow> if contByte c1 then ((b0 - 0xC0) * 64 + (ord c1 - 0x80), 2) else (RuneError, 1)
            | _ \<Rightarrow> (RuneError, 1))
         else if 0xE0 \<le> b0 \<and> b0 \<le> 0xEF then
           (case bs of
              c1 # c2 # _ \<Rightarrow>
                if secondByte b0 c1 \<and> contByte c2
                then ((b0 - 0xE0) * 4096 + (ord c1 - 0x80) * 64 + (ord c2 - 0x80), 3) else (RuneError, 1)
            | _ \<Rightarrow> (RuneError, 1))
         else if 0xF0 \<le> b0 \<and> b0 \<le> 0xF4 then
           (case bs of
              c1 # c2 # c3 # _ \<Rightarrow>
                if secondByte b0 c1 \<and> contByte c2 \<and> contByte c3
                then ((b0 - 0xF0) * 262144 + (ord c1 - 0x80) * 4096 + (ord c2 - 0x80) * 64 + (ord c3 - 0x80), 4)
                else (RuneError, 1)
            | _ \<Rightarrow> (RuneError, 1))
         else (RuneError, 1))"

text \<open>A string cut into its runes, each with the bytes it was read from.\<close>

fun chunks :: "bytes \<Rightarrow> (rune \<times> bytes) list" where
  "chunks [] = []"
| "chunks (c # bs) =
     (case decodeRune c bs of (r, w) \<Rightarrow> (r, c # take (w - 1) bs) # chunks (drop (w - 1) bs))"

definition runesOf :: "bytes \<Rightarrow> runes" where
  "runesOf s = map fst (chunks s)"

section \<open>Classes and fields\<close>

definition isControl :: "rune \<Rightarrow> bool" where
  "isControl r \<longleftrightarrow> r < 0x20 \<or> 0x7F \<le> r \<and> r \<le> 0x9F"

definition isSpace :: "rune \<Rightarrow> bool" where
  "isSpace r \<longleftrightarrow>
     9 \<le> r \<and> r \<le> 13 \<or> r = 0x20 \<or> r = 0x85 \<or> r = 0xA0 \<or> r = 0x1680 \<or> 0x2000 \<le> r \<and> r \<le> 0x200A
     \<or> r = 0x2028 \<or> r = 0x2029 \<or> r = 0x202F \<or> r = 0x205F \<or> r = 0x3000"

text \<open>\<open>cur\<close> is the field being read, as the bytes of the source.\<close>

fun fieldsLoop :: "bytes \<Rightarrow> (rune \<times> bytes) list \<Rightarrow> bytes list" where
  "fieldsLoop cur [] = (if cur = [] then [] else [cur])"
| "fieldsLoop cur ((r, b) # cs) =
     (if isSpace r then (if cur = [] then fieldsLoop [] cs else cur # fieldsLoop [] cs)
      else fieldsLoop (cur @ b) cs)"

definition stringFields :: "bytes \<Rightarrow> bytes list" where
  "stringFields s = fieldsLoop [] (chunks s)"

definition joinSpace :: "bytes list \<Rightarrow> bytes" where
  "joinSpace xs = (case xs of [] \<Rightarrow> [] | y # ys \<Rightarrow> y @ concat (map (\<lambda>z. CHR '' '' # z) ys))"

section \<open>Lemmas\<close>

lemma ord_char: "n < 256 \<Longrightarrow> ord (char_of n) = n"
  by simp

lemma ord_lt: "ord c < 256"
  by (cases c) (simp add: of_char_def)

lemma decodeRune_width: "decodeRune c bs = (r, w) \<Longrightarrow> 1 \<le> w \<and> w \<le> 4 \<and> w - 1 \<le> length bs"
  by (auto simp: decodeRune_def Let_def split: if_splits list.splits)

lemma chunks_concat: "concat (map snd (chunks s)) = s"
  by (induction s rule: chunks.induct) (auto split: prod.splits)

lemma fourByte_bounds:
  fixes a b c d :: nat
  assumes "240 \<le> a" "a \<le> 244" "128 \<le> b" "b \<le> 191" "a = 240 \<Longrightarrow> 144 \<le> b" "a = 244 \<Longrightarrow> b \<le> 143"
    "128 \<le> c" "c \<le> 191" "128 \<le> d" "d \<le> 191"
  shows "0x10000 \<le> (a - 240) * 262144 + (b - 128) * 4096 + (c - 128) * 64 + (d - 128)
    \<and> (a - 240) * 262144 + (b - 128) * 4096 + (c - 128) * 64 + (d - 128) \<le> 0x10FFFF"
proof -
  obtain a' b' c' d' where "a = 240 + a'" "b = 128 + b'" "c = 128 + c'" "d = 128 + d'"
    using assms le_iff_add by metis
  moreover from this assms have "a' = 0 \<or> a' = 1 \<or> a' = 2 \<or> a' = 3 \<or> a' = 4" by linarith
  ultimately show ?thesis using assms by auto
qed

lemma decodeRune_valid:
  assumes "decodeRune c bs = (r, w)"
  shows "validRune r"
proof (cases "0xF0 \<le> ord c \<and> ord c \<le> 0xF4 \<and> w = 4")
  case True
  with assms obtain c1 c2 c3 where "secondByte (ord c) c1" "contByte c2" "contByte c3"
    "r = (ord c - 0xF0) * 262144 + (ord c1 - 0x80) * 4096 + (ord c2 - 0x80) * 64 + (ord c3 - 0x80)"
    unfolding decodeRune_def Let_def by (auto split: if_splits list.splits)
  with True fourByte_bounds [of "ord c" "ord c1" "ord c2" "ord c3"] show ?thesis
    unfolding validRune_def secondByte_def contByte_def by (auto split: if_splits)
next
  case False
  with assms show ?thesis
    by (auto simp: decodeRune_def Let_def validRune_def RuneError_def secondByte_def contByte_def
        split: if_splits list.splits)
qed

lemma runesOf_valid: "list_all validRune (runesOf s)"
  by (induction s rule: chunks.induct) (auto simp: runesOf_def decodeRune_valid split: prod.splits)

text \<open>What is written is read back: \<open>encodeRune\<close> is a left inverse of reading.\<close>

lemma div_digits:
  fixes r :: nat
  shows "64 * (r div 64) + r mod 64 = r" "64 * (r div 4096) + r div 64 mod 64 = r div 64"
    "64 * (r div 262144) + r div 4096 mod 64 = r div 4096"
  using div_mult_mod_eq [of r 64] div_mult_mod_eq [of "r div 64" 64] div_mult_mod_eq [of "r div 4096" 64]
  by (simp_all add: div_mult2_eq [symmetric])

lemma decode_encode2:
  assumes "0x80 \<le> r" "r < 0x800"
  shows "decodeRune (char_of (0xC0 + r div 64)) (char_of (0x80 + r mod 64) # s) = (r, 2)"
proof -
  have "r div 64 < 32" "2 \<le> r div 64" "r mod 64 < 64" using assms by auto
  then show ?thesis by (simp add: decodeRune_def Let_def contByte_def)
qed

lemma decode_encode3:
  assumes "0x800 \<le> r" "r < 0x10000" "validRune r"
  shows "decodeRune (char_of (0xE0 + r div 4096)) (char_of (0x80 + r div 64 mod 64) # char_of (0x80 + r mod 64) # s) = (r, 3)"
proof -
  let ?a = "r div 4096" and ?b = "r div 64 mod 64" and ?c = "r mod 64"
  have b: "?a < 16" "?b < 64" "?c < 64" using assms by auto
  have r: "?a * 4096 + ?b * 64 + ?c = r"
    using div_digits(1,2) [of r] by linarith
  have "?a = 0 \<Longrightarrow> 32 \<le> ?b" "?a = 13 \<Longrightarrow> ?b < 32"
    using r b assms unfolding validRune_def by linarith+
  then show ?thesis using b r by (auto simp: decodeRune_def Let_def contByte_def secondByte_def)
qed

lemma decode4:
  assumes "a < 5" "b < 64" "c < 64" "d < 64" "a = 0 \<Longrightarrow> 16 \<le> b" "a = 4 \<Longrightarrow> b < 16"
  shows "decodeRune (char_of (0xF0 + a)) (char_of (0x80 + b) # char_of (0x80 + c) # char_of (0x80 + d) # s)
    = (a * 262144 + b * 4096 + c * 64 + d, 4)"
  using assms by (auto simp: decodeRune_def Let_def contByte_def secondByte_def)

lemma decode_encode4:
  assumes "0x10000 \<le> r" "r \<le> 0x10FFFF"
  shows "decodeRune (char_of (0xF0 + r div 262144))
    (char_of (0x80 + r div 4096 mod 64) # char_of (0x80 + r div 64 mod 64) # char_of (0x80 + r mod 64) # s) = (r, 4)"
proof -
  let ?a = "r div 262144" and ?b = "r div 4096 mod 64" and ?c = "r div 64 mod 64" and ?d = "r mod 64"
  have b: "?a < 5" "?b < 64" "?c < 64" "?d < 64" using assms by auto
  have r: "?a * 262144 + ?b * 4096 + ?c * 64 + ?d = r" using div_digits [of r] by linarith
  have "?a = 0 \<Longrightarrow> 16 \<le> ?b" "?a = 4 \<Longrightarrow> ?b < 16" using r b assms by linarith+
  from decode4 [OF b this] r show ?thesis by simp
qed

lemma chunks_encode: "validRune r \<Longrightarrow> chunks (encodeValid r @ s) = (r, encodeValid r) # chunks s"
proof -
  assume v: "validRune r"
  consider "r < 0x80" | "0x80 \<le> r" "r < 0x800" | "0x800 \<le> r" "r < 0x10000" | "0x10000 \<le> r" "r \<le> 0x10FFFF"
    using v unfolding validRune_def by linarith
  then show ?thesis
  proof cases
    case 1
    then show ?thesis by (simp add: encodeValid_def decodeRune_def Let_def)
  next
    case 2
    then show ?thesis using decode_encode2 [OF 2] by (simp add: encodeValid_def)
  next
    case 3
    then show ?thesis using decode_encode3 [OF 3 v] by (simp add: encodeValid_def)
  next
    case 4
    then show ?thesis using decode_encode4 [OF 4] by (simp add: encodeValid_def)
  qed
qed

lemma runesOf_encode: "list_all validRune rs \<Longrightarrow> runesOf (encodeRunes rs) = rs"
  by (induction rs) (auto simp: runesOf_def encodeRunes_def encodeRune_def chunks_encode)

end
