(* ===== verification/Interfaces.thy ===== *)
theory Interfaces
  imports Prelude
begin

text \<open>
  The contracts the components rely on, each stated once with the facts its clients need.

  \<^item> \<open>append_log\<close>: a log whose handle stays readable, whose reader returns exactly what was
    appended, and whose refused append changes nothing. The hash chain of
    \<^verbatim>\<open>internal/ledger\<close> provides it; the run log of the engine and the control log are
    written through it.
  \<^item> \<open>step_system\<close>: an initial-state predicate and a step relation with an inductive
    invariant; every reachable state satisfies it.
\<close>

section \<open>Appending a batch\<close>

fun appendAll :: "('h \<Rightarrow> 'r \<Rightarrow> 'h \<times> 'e option) \<Rightarrow> 'h \<Rightarrow> 'r list \<Rightarrow> 'h \<times> 'e option" where
  "appendAll app h [] = (h, None)"
| "appendAll app h (r # rs) =
     (case app h r of
        (h', None) \<Rightarrow> appendAll app h' rs
      | (h', Some e) \<Rightarrow> (h', Some e))"

locale append_log =
  fixes inv :: "'h \<Rightarrow> bool"
    and recs :: "'h \<Rightarrow> 'r list"
    and app :: "'h \<Rightarrow> 'r \<Rightarrow> 'h \<times> 'e option"
    and safe :: "'r \<Rightarrow> bool"
  assumes app_accepts: "inv h \<Longrightarrow> safe r \<Longrightarrow> app h r = (h', None) \<Longrightarrow> inv h' \<and> recs h' = recs h @ [r]"
    and app_refuses: "inv h \<Longrightarrow> app h r = (h', Some e) \<Longrightarrow> h' = h"
begin

lemma batch_prefix:
  assumes "inv h" "list_all safe rs" "appendAll app h rs = (h', e)"
  shows "inv h' \<and> (\<exists>k \<le> length rs. recs h' = recs h @ take k rs \<and> (e = None \<longrightarrow> k = length rs))"
  using assms
proof (induction rs arbitrary: h)
  case (Cons r rs)
  obtain h1 e1 where a: "app h r = (h1, e1)" by fastforce
  show ?case
  proof (cases e1)
    case None
    with a Cons.prems have h1: "inv h1" "recs h1 = recs h @ [r]"
      using app_accepts [of h r h1] by auto
    from Cons.prems a None have "appendAll app h1 rs = (h', e)" by simp
    with Cons.IH [of h1] Cons.prems(2) h1 obtain k where "inv h'" "k \<le> length rs"
      "recs h' = recs h1 @ take k rs" "e = None \<longrightarrow> k = length rs" by fastforce
    with h1 show ?thesis by (auto intro!: exI [of _ "Suc k"])
  next
    case (Some err)
    with a Cons.prems have "h' = h" "e = Some err" using app_refuses [of h r h1 err] by auto
    with Cons.prems show ?thesis by (auto intro!: exI [of _ 0])
  qed
qed auto

lemma batch_complete:
  assumes "inv h" "list_all safe rs" "appendAll app h rs = (h', None)"
  shows "recs h' = recs h @ rs"
  using batch_prefix [OF assms] by auto

end

section \<open>State machines\<close>

inductive reachableFrom :: "('s \<Rightarrow> bool) \<Rightarrow> ('s \<Rightarrow> 's \<Rightarrow> bool) \<Rightarrow> 's \<Rightarrow> bool"
  for init :: "'s \<Rightarrow> bool" and step :: "'s \<Rightarrow> 's \<Rightarrow> bool" where
  reach_init: "init s \<Longrightarrow> reachableFrom init step s"
| reach_step: "reachableFrom init step s \<Longrightarrow> step s t \<Longrightarrow> reachableFrom init step t"

locale step_system =
  fixes init :: "'s \<Rightarrow> bool" and step :: "'s \<Rightarrow> 's \<Rightarrow> bool" and inv :: "'s \<Rightarrow> bool"
  assumes inv_init: "init s \<Longrightarrow> inv s"
    and inv_step: "inv s \<Longrightarrow> step s t \<Longrightarrow> inv t"
begin

lemma reachable_inv: "reachableFrom init step s \<Longrightarrow> inv s"
  by (induction rule: reachableFrom.induct) (auto intro: inv_init inv_step)

end

end
