(* ===== verification/Ledger.thy ===== *)
theory Ledger
  imports Interfaces
begin

text \<open>
  Package \<^verbatim>\<open>internal/ledger\<close>: the raw-byte-verified hash chain both ledgers (the run
  logs and the control log) are written through.

  Two functions of Go's standard library are arguments of the definitions, so that every
  theorem holds for whatever they compute: \<open>unm\<close> is \<^verbatim>\<open>json.Unmarshal\<close> of one line into
  \<open>lineFields\<close> (\<^const>\<open>None\<close> for an error), \<open>H\<close> is \<^verbatim>\<open>hex(sha256(line))\<close>. The file behind a
  handle is its bytes; a write may stop after any prefix; a read may end in a fault other
  than end-of-file.
\<close>

section \<open>Data\<close>

record lineFields =
  lfPrev :: "bytes option"
  lfSeq :: "uint64 option"

datatype parse_error = SyntaxError | MissingPrev

record Start =
  startPrev :: bytes
  startBase :: uint64

datatype LockMode = Unlocked | Locked

record Head =
  headHash :: bytes
  headCount :: nat

datatype ledger_error =
    ErrBadStart
  | ErrLockHeld
  | FlockError
  | IOError
  | ErrExist
  | ReadFault
  | TornError nat
  | ChainBrokenError nat
  | InvalidRecord parse_error
  | RefuseFork bytes bytes
  | SeqMustBe uint64
  | NotInSeqMode

record Chain =
  cFile :: bytes
  cMode :: LockMode
  cBase :: uint64
  cPrev :: bytes
  cCount :: nat
  cSeqEstablished :: bool
  cSeqMode :: bool

section \<open>Starts, locks and the fields of a line\<close>

definition Start_validate :: "Start \<Rightarrow> ledger_error option" where
  "Start_validate s =
     (if (startPrev s = '''') \<noteq> (startBase s = 0) then Some ErrBadStart else None)"

definition zeroStart :: Start where
  "zeroStart = \<lparr>startPrev = '''', startBase = 0\<rparr>"

text \<open>
  One attempt of \<open>flockRetry\<close>: what flock(2) answered, and whether the clock, read after a
  contended attempt, was past the deadline. The loop has no bound of its own on
  interrupted calls, so the run of attempts is an argument and \<^const>\<open>None\<close> means the
  attempts given were used up without an answer.
\<close>

datatype flock_answer = FlockOk | EINTR | EWOULDBLOCK | EAGAIN | FlockOther

fun flockRetry :: "(flock_answer \<times> bool) list \<Rightarrow> ledger_error option option" where
  "flockRetry [] = None"
| "flockRetry ((a, past) # rest) =
     (if a = FlockOk then Some None
      else if a = EINTR then flockRetry rest
      else if a \<noteq> EWOULDBLOCK \<and> a \<noteq> EAGAIN then Some (Some FlockError)
      else if past then Some (Some ErrLockHeld)
      else flockRetry rest)"

definition parseLineFields ::
  "(bytes \<Rightarrow> lineFields option) \<Rightarrow> bytes \<Rightarrow> parse_error + lineFields" where
  "parseLineFields unm line =
     (case unm line of
        None \<Rightarrow> Inl SyntaxError
      | Some p \<Rightarrow> if lfPrev p = None then Inl MissingPrev else Inr p)"

section \<open>Reading a ledger: \<open>loadChain\<close>\<close>

record reader =
  rdBytes :: bytes
  rdFault :: bool

record rawLine =
  raw :: bytes
  terminated :: bool

fun splitLines :: "bytes \<Rightarrow> bytes \<Rightarrow> rawLine list" where
  "splitLines cur [] = (if cur = [] then [] else [\<lparr>raw = cur, terminated = False\<rparr>])"
| "splitLines cur (c # cs) =
     (if c = newline then \<lparr>raw = cur, terminated = True\<rparr> # splitLines [] cs
      else splitLines (cur @ [c]) cs)"

definition readLines :: "reader \<Rightarrow> ledger_error + rawLine list" where
  "readLines r =
     (let ls = splitLines [] (rdBytes r)
      in if rdFault r \<and> (ls = [] \<or> terminated (last ls)) then Inl ReadFault else Inr ls)"

record walk =
  wRecords :: "bytes list"
  wPrev :: bytes
  wCount :: nat
  wOffset :: nat
  wSeqEstablished :: bool
  wSeqMode :: bool

definition advance :: "(bytes \<Rightarrow> bytes) \<Rightarrow> bool \<Rightarrow> bytes \<Rightarrow> walk \<Rightarrow> walk" where
  "advance H mode r w =
     w\<lparr>wSeqEstablished := True, wSeqMode := mode, wPrev := H r, wCount := wCount w + 1,
       wOffset := wOffset w + length r + 1, wRecords := wRecords w @ [r]\<rparr>"

definition loadLine ::
  "(bytes \<Rightarrow> lineFields option) \<Rightarrow> (bytes \<Rightarrow> bytes) \<Rightarrow> uint64 \<Rightarrow> bool \<Rightarrow> nat \<Rightarrow> rawLine \<Rightarrow>
   walk \<Rightarrow> walk \<times> ledger_error option" where
  "loadLine unm H base isFinal i ln w =
     (if isFinal \<and> (\<not> terminated ln \<or> nul \<in> set (raw ln)) then (w, Some (TornError (wOffset w)))
      else case parseLineFields unm (raw ln) of
        Inl _ \<Rightarrow> (w, Some (if isFinal then TornError (wOffset w) else ChainBrokenError (i + 1)))
      | Inr p \<Rightarrow>
          if wSeqEstablished w \<and> wSeqMode w \<noteq> (lfSeq p \<noteq> None)
          then (w, Some (ChainBrokenError (i + 1)))
          else
            let mode = (if wSeqEstablished w then wSeqMode w else lfSeq p \<noteq> None);
                w1 = w\<lparr>wSeqEstablished := True, wSeqMode := mode\<rparr>
            in if mode \<and> lfSeq p \<noteq> Some (base + of_nat (i + 1))
               then (w1, Some (ChainBrokenError (i + 1)))
               else if lfPrev p \<noteq> Some (wPrev w)
               then (w1, Some (ChainBrokenError (i + 1)))
               else (advance H mode (raw ln) w, None))"

fun loadLoop ::
  "(bytes \<Rightarrow> lineFields option) \<Rightarrow> (bytes \<Rightarrow> bytes) \<Rightarrow> uint64 \<Rightarrow> nat \<Rightarrow> rawLine list \<Rightarrow>
   walk \<Rightarrow> walk \<times> ledger_error option" where
  "loadLoop unm H base i [] w = (w, None)"
| "loadLoop unm H base i (ln # lns) w =
     (case loadLine unm H base (lns = []) i ln w of
        (w', Some e) \<Rightarrow> (w', Some e)
      | (w', None) \<Rightarrow> loadLoop unm H base (i + 1) lns w')"

record loaded =
  ldRecords :: "bytes list"
  ldHead :: Head
  ldSeqEstablished :: bool
  ldSeqMode :: bool
  ldErr :: "ledger_error option"

definition startWalk :: "Start \<Rightarrow> walk" where
  "startWalk s =
     \<lparr>wRecords = [], wPrev = startPrev s, wCount = 0, wOffset = 0,
      wSeqEstablished = (startBase s > 0), wSeqMode = (startBase s > 0)\<rparr>"

definition loadChain ::
  "(bytes \<Rightarrow> lineFields option) \<Rightarrow> (bytes \<Rightarrow> bytes) \<Rightarrow> reader \<Rightarrow> Start \<Rightarrow> loaded" where
  "loadChain unm H r s =
     (case readLines r of
        Inl e \<Rightarrow> \<lparr>ldRecords = [], ldHead = \<lparr>headHash = '''', headCount = 0\<rparr>,
                  ldSeqEstablished = False, ldSeqMode = False, ldErr = Some e\<rparr>
      | Inr lines \<Rightarrow>
          if lines = [] then
            \<lparr>ldRecords = [], ldHead = \<lparr>headHash = startPrev s, headCount = 0\<rparr>,
             ldSeqEstablished = (startBase s > 0), ldSeqMode = (startBase s > 0), ldErr = None\<rparr>
          else
            (case loadLoop unm H (startBase s) 0 lines (startWalk s) of (w, e) \<Rightarrow>
              \<lparr>ldRecords = wRecords w, ldHead = \<lparr>headHash = wPrev w, headCount = wCount w\<rparr>,
               ldSeqEstablished = wSeqEstablished w, ldSeqMode = wSeqMode w, ldErr = e\<rparr>))"

section \<open>Opening, creating, reading and appending\<close>

text \<open>
  What the operating system answers while a ledger is opened: whether the directory and
  the file can be made or opened, the attempts at the flock, and whether reading the file
  ends in a fault. The file at the path is \<^typ>\<open>bytes option\<close>: its bytes, or nothing. An
  outer \<^const>\<open>None\<close> is a lock attempt still retrying.
\<close>

record openEnv =
  envMkdirFails :: bool
  envOpenFails :: bool
  envFlock :: "(flock_answer \<times> bool) list"
  envReadFault :: bool

definition chainOf :: "bytes \<Rightarrow> LockMode \<Rightarrow> Start \<Rightarrow> loaded \<Rightarrow> Chain" where
  "chainOf file mode s L =
     \<lparr>cFile = file, cMode = mode, cBase = startBase s,
      cPrev = headHash (ldHead L), cCount = headCount (ldHead L),
      cSeqEstablished = ldSeqEstablished L, cSeqMode = ldSeqMode L\<rparr>"

definition OpenFrom ::
  "(bytes \<Rightarrow> lineFields option) \<Rightarrow> (bytes \<Rightarrow> bytes) \<Rightarrow> openEnv \<Rightarrow> LockMode \<Rightarrow> Start \<Rightarrow>
   bytes option \<Rightarrow> (bytes option \<times> (ledger_error + Chain)) option" where
  "OpenFrom unm H env mode s path =
     (case Start_validate s of
        Some e \<Rightarrow> Some (path, Inl e)
      | None \<Rightarrow>
          if envMkdirFails env \<or> envOpenFails env then Some (path, Inl IOError)
          else
            let file = (case path of None \<Rightarrow> [] | Some b \<Rightarrow> b);
                lock = (if mode = Locked then flockRetry (envFlock env) else Some None)
            in (case lock of
                 None \<Rightarrow> None
               | Some (Some e) \<Rightarrow> Some (Some file, Inl e)
               | Some None \<Rightarrow>
                   let L = loadChain unm H \<lparr>rdBytes = file, rdFault = envReadFault env\<rparr> s
                   in (case ldErr L of
                        Some e \<Rightarrow> Some (Some file, Inl e)
                      | None \<Rightarrow> Some (Some file, Inr (chainOf file mode s L)))))"

definition Open ::
  "(bytes \<Rightarrow> lineFields option) \<Rightarrow> (bytes \<Rightarrow> bytes) \<Rightarrow> openEnv \<Rightarrow> LockMode \<Rightarrow>
   bytes option \<Rightarrow> (bytes option \<times> (ledger_error + Chain)) option" where
  "Open unm H env mode path = OpenFrom unm H env mode zeroStart path"

definition Create ::
  "openEnv \<Rightarrow> LockMode \<Rightarrow> bytes option \<Rightarrow> (bytes option \<times> (ledger_error + Chain)) option" where
  "Create env mode path =
     (if envMkdirFails env then Some (path, Inl IOError)
      else if path \<noteq> None then Some (path, Inl ErrExist)
      else if envOpenFails env then Some (path, Inl IOError)
      else case (if mode = Locked then flockRetry (envFlock env) else Some None) of
             None \<Rightarrow> None
           | Some (Some e) \<Rightarrow> Some (Some [], Inl e)
           | Some None \<Rightarrow>
               Some (Some [],
                 Inr \<lparr>cFile = [], cMode = mode, cBase = 0, cPrev = [], cCount = 0,
                      cSeqEstablished = False, cSeqMode = False\<rparr>))"

datatype write_outcome = WriteOk | WriteFail nat | SyncFail

definition Chain_Append ::
  "(bytes \<Rightarrow> lineFields option) \<Rightarrow> (bytes \<Rightarrow> bytes) \<Rightarrow> write_outcome \<Rightarrow> Chain \<Rightarrow> bytes \<Rightarrow>
   Chain \<times> ledger_error option" where
  "Chain_Append unm H io c line =
     (case parseLineFields unm line of
        Inl e \<Rightarrow> (c, Some (InvalidRecord e))
      | Inr p \<Rightarrow>
          if lfPrev p \<noteq> Some (cPrev c) then (c, Some (RefuseFork (the (lfPrev p)) (cPrev c)))
          else
            let mode = (if cSeqEstablished c then cSeqMode c else lfSeq p \<noteq> None);
                want = cBase c + of_nat (cCount c + 1);
                buf = line @ [newline]
            in if mode \<and> lfSeq p \<noteq> Some want then (c, Some (SeqMustBe want))
               else if \<not> mode \<and> lfSeq p \<noteq> None then (c, Some NotInSeqMode)
               else (case io of
                      WriteFail k \<Rightarrow> (c\<lparr>cFile := cFile c @ take k buf\<rparr>, Some IOError)
                    | SyncFail \<Rightarrow> (c\<lparr>cFile := cFile c @ buf\<rparr>, Some IOError)
                    | WriteOk \<Rightarrow>
                        (c\<lparr>cFile := cFile c @ buf, cPrev := H line, cCount := cCount c + 1,
                           cSeqEstablished := True, cSeqMode := mode\<rparr>, None)))"

type_synonym verified = "bytes list \<times> Head \<times> ledger_error option"

definition noHead :: Head where
  "noHead = \<lparr>headHash = '''', headCount = 0\<rparr>"

definition VerifyReader ::
  "(bytes \<Rightarrow> lineFields option) \<Rightarrow> (bytes \<Rightarrow> bytes) \<Rightarrow> reader \<Rightarrow> Start \<Rightarrow> verified" where
  "VerifyReader unm H r s =
     (case Start_validate s of
        Some e \<Rightarrow> ([], noHead, Some e)
      | None \<Rightarrow> let L = loadChain unm H r s in (ldRecords L, ldHead L, ldErr L))"

definition ReadVerifyFrom ::
  "(bytes \<Rightarrow> lineFields option) \<Rightarrow> (bytes \<Rightarrow> bytes) \<Rightarrow> openEnv \<Rightarrow> LockMode \<Rightarrow> Start \<Rightarrow>
   bytes option \<Rightarrow> verified option" where
  "ReadVerifyFrom unm H env mode s path =
     (case Start_validate s of
        Some e \<Rightarrow> Some ([], noHead, Some e)
      | None \<Rightarrow>
          (case path of
             None \<Rightarrow> Some ([], noHead, Some IOError)
           | Some b \<Rightarrow>
               if envOpenFails env then Some ([], noHead, Some IOError)
               else (case (if mode = Locked then flockRetry (envFlock env) else Some None) of
                      None \<Rightarrow> None
                    | Some (Some e) \<Rightarrow> Some ([], noHead, Some e)
                    | Some None \<Rightarrow>
                        let L = loadChain unm H \<lparr>rdBytes = b, rdFault = envReadFault env\<rparr> s
                        in Some (ldRecords L, ldHead L, ldErr L))))"

definition ReadVerify ::
  "(bytes \<Rightarrow> lineFields option) \<Rightarrow> (bytes \<Rightarrow> bytes) \<Rightarrow> openEnv \<Rightarrow> LockMode \<Rightarrow>
   bytes option \<Rightarrow> verified option" where
  "ReadVerify unm H env mode path = ReadVerifyFrom unm H env mode zeroStart path"

definition Resume ::
  "(bytes \<Rightarrow> lineFields option) \<Rightarrow> (bytes \<Rightarrow> bytes) \<Rightarrow> bytes \<Rightarrow> bool \<Rightarrow> LockMode \<Rightarrow> Start \<Rightarrow>
   Chain option \<times> bytes list \<times> ledger_error option" where
  "Resume unm H file fault mode s =
     (case Start_validate s of
        Some e \<Rightarrow> (None, [], Some e)
      | None \<Rightarrow>
          let L = loadChain unm H \<lparr>rdBytes = file, rdFault = fault\<rparr> s
          in (case ldErr L of
               Some e \<Rightarrow> (None, ldRecords L, Some e)
             | None \<Rightarrow> (Some (chainOf file mode s L), ldRecords L, None)))"

section \<open>What a valid chain is\<close>

text \<open>
  The specification the reader is judged against. \<open>chainFrom\<close> is the chain rule, record by
  record and in either seq mode; \<open>fileBytes\<close> is the file a list of records makes.
\<close>

fun chainFrom ::
  "(bytes \<Rightarrow> lineFields option) \<Rightarrow> (bytes \<Rightarrow> bytes) \<Rightarrow> uint64 \<Rightarrow> bool \<Rightarrow> nat \<Rightarrow> bytes \<Rightarrow>
   bytes list \<Rightarrow> bool" where
  "chainFrom unm H base mode i prev [] = True"
| "chainFrom unm H base mode i prev (r # rs) =
     (unm r = Some \<lparr>lfPrev = Some prev,
                    lfSeq = (if mode then Some (base + of_nat (i + 1)) else None)\<rparr>
      \<and> chainFrom unm H base mode (i + 1) (H r) rs)"

definition fileBytes :: "bytes list \<Rightarrow> bytes" where
  "fileBytes rs = concat (map (\<lambda>r. r @ [newline]) rs)"

fun headFrom :: "(bytes \<Rightarrow> bytes) \<Rightarrow> bytes \<Rightarrow> bytes list \<Rightarrow> bytes" where
  "headFrom H prev [] = prev"
| "headFrom H prev (r # rs) = headFrom H (H r) rs"

definition validChain ::
  "(bytes \<Rightarrow> lineFields option) \<Rightarrow> (bytes \<Rightarrow> bytes) \<Rightarrow> Start \<Rightarrow> bool \<Rightarrow> bytes list \<Rightarrow> bool" where
  "validChain unm H s mode rs \<longleftrightarrow>
     (startBase s > 0 \<longrightarrow> mode)
     \<and> chainFrom unm H (startBase s) mode 0 (startPrev s) rs
     \<and> list_all (\<lambda>r. newline \<notin> set r) rs
     \<and> (rs \<noteq> [] \<longrightarrow> nul \<notin> set (last rs))"

section \<open>Lines and files\<close>

lemma fileBytes_simps [simp]:
  "fileBytes [] = []"
  "fileBytes (r # rs) = r @ newline # fileBytes rs"
  "fileBytes (rs @ rs') = fileBytes rs @ fileBytes rs'"
  by (simp_all add: fileBytes_def)

lemma splitLines_prefix:
  "newline \<notin> set l \<Longrightarrow> splitLines cur (l @ bs) = splitLines (cur @ l) bs"
  by (induction l arbitrary: cur) auto

lemma splitLines_fileBytes:
  "list_all (\<lambda>r. newline \<notin> set r) rs \<Longrightarrow>
   splitLines [] (fileBytes rs @ tail)
     = map (\<lambda>r. \<lparr>raw = r, terminated = True\<rparr>) rs @ splitLines [] tail"
  by (induction rs) (auto simp: splitLines_prefix)

lemma splitLines_tail:
  "newline \<notin> set tail \<Longrightarrow>
   splitLines [] tail = (if tail = [] then [] else [\<lparr>raw = tail, terminated = False\<rparr>])"
  using splitLines_prefix [of tail "[]" "[]"] by simp

text \<open>Every file is its terminated lines followed by a tail that holds no newline.\<close>

lemma file_decompose:
  obtains rs tail where "bs = fileBytes rs @ tail" "newline \<notin> set tail"
    "list_all (\<lambda>r. newline \<notin> set r) rs"
proof -
  have "\<exists>rs tail. bs = fileBytes rs @ tail \<and> newline \<notin> set tail
          \<and> list_all (\<lambda>r. newline \<notin> set r) rs"
  proof (induction bs rule: length_induct)
    case (1 bs)
    show ?case
    proof (cases "newline \<in> set bs")
      case True
      then obtain l rest where bs: "bs = l @ newline # rest" and l: "newline \<notin> set l"
        using split_list_first by metis
      have "length rest < length bs" using bs by simp
      with "1" obtain rs tail where "rest = fileBytes rs @ tail" "newline \<notin> set tail"
        "list_all (\<lambda>r. newline \<notin> set r) rs" by blast
      with bs l have "bs = fileBytes (l # rs) @ tail \<and> newline \<notin> set tail
          \<and> list_all (\<lambda>r. newline \<notin> set r) (l # rs)" by simp
      then show ?thesis by blast
    next
      case False
      then have "bs = fileBytes [] @ bs \<and> newline \<notin> set bs \<and> list_all (\<lambda>r. newline \<notin> set r) []"
        by simp
      then show ?thesis by blast
    qed
  qed
  then show ?thesis using that by blast
qed

lemma splitLines_decompose:
  assumes "newline \<notin> set tail" "list_all (\<lambda>r. newline \<notin> set r) rs"
  shows "splitLines [] (fileBytes rs @ tail) =
     map (\<lambda>r. \<lparr>raw = r, terminated = True\<rparr>) rs @
     (if tail = [] then [] else [\<lparr>raw = tail, terminated = False\<rparr>])"
  using assms by (simp add: splitLines_fileBytes splitLines_tail)

lemma fileBytes_inj:
  assumes "fileBytes rs = fileBytes rs'"
    and "list_all (\<lambda>r. newline \<notin> set r) rs" "list_all (\<lambda>r. newline \<notin> set r) rs'"
  shows "rs = rs'"
proof -
  have "map (\<lambda>r. \<lparr>raw = r, terminated = True\<rparr>) rs = map (\<lambda>r. \<lparr>raw = r, terminated = True\<rparr>) rs'"
    using assms splitLines_fileBytes [of rs "[]"] splitLines_fileBytes [of rs' "[]"] by simp
  then have "map raw (map (\<lambda>r. \<lparr>raw = r, terminated = True\<rparr>) rs)
      = map raw (map (\<lambda>r. \<lparr>raw = r, terminated = True\<rparr>) rs')" by simp
  then show ?thesis by (simp add: comp_def)
qed

section \<open>The reader's loop, against the specification\<close>

lemma headFrom_append [simp]: "headFrom H p (rs @ rs') = headFrom H (headFrom H p rs) rs'"
  by (induction rs arbitrary: p) auto

lemma headFrom_last: "rs \<noteq> [] \<Longrightarrow> headFrom H p rs = H (last rs)"
  by (induction rs arbitrary: p) auto

lemma chainFrom_append:
  "chainFrom unm H base mode i prev (rs @ rs') \<longleftrightarrow>
     chainFrom unm H base mode i prev rs
     \<and> chainFrom unm H base mode (i + length rs) (headFrom H prev rs) rs'"
  by (induction rs arbitrary: i prev) auto

text \<open>One accepted line: the walk moves on exactly when the line continues the chain.\<close>

definition lineOk ::
  "(bytes \<Rightarrow> lineFields option) \<Rightarrow> uint64 \<Rightarrow> bool \<Rightarrow> nat \<Rightarrow> bytes \<Rightarrow> bytes \<Rightarrow> bool" where
  "lineOk unm base mode i prev r \<longleftrightarrow>
     unm r = Some \<lparr>lfPrev = Some prev,
                   lfSeq = (if mode then Some (base + of_nat (i + 1)) else None)\<rparr>"

lemma loadLine_accepts:
  "loadLine unm H base isFinal i ln w = (w', None) \<longleftrightarrow>
     (isFinal \<longrightarrow> terminated ln \<and> nul \<notin> set (raw ln)) \<and>
     (\<exists>mode. (wSeqEstablished w \<longrightarrow> mode = wSeqMode w) \<and>
       lineOk unm base mode i (wPrev w) (raw ln) \<and> w' = advance H mode (raw ln) w)"
proof (cases "unm (raw ln)")
  case None
  then show ?thesis
    by (simp add: loadLine_def parseLineFields_def lineOk_def)
next
  case (Some p)
  obtain pr sq where p: "p = \<lparr>lfPrev = pr, lfSeq = sq\<rparr>" by (cases p)
  show ?thesis
    by (cases pr; cases sq; cases "wSeqEstablished w"; cases "wSeqMode w")
       (auto simp: loadLine_def parseLineFields_def lineOk_def Let_def Some p)
qed

lemma advance_simps [simp]:
  "wSeqEstablished (advance H mode r w)" "wSeqMode (advance H mode r w) = mode"
  "wPrev (advance H mode r w) = H r" "wCount (advance H mode r w) = Suc (wCount w)"
  "wOffset (advance H mode r w) = wOffset w + length r + 1"
  "wRecords (advance H mode r w) = wRecords w @ [r]"
  by (simp_all add: advance_def)

lemma loadLine_error:
  assumes "loadLine unm H base isFinal i ln w = (w', Some e)"
  shows "wRecords w' = wRecords w" "wPrev w' = wPrev w" "wCount w' = wCount w"
    "wOffset w' = wOffset w"
    "e = ChainBrokenError (i + 1) \<or> isFinal \<and> e = TornError (wOffset w)"
  using assms
  by (auto simp: loadLine_def Let_def split: if_splits sum.splits)

text \<open>
  What one run of the loop establishes about the lines it was given: \<open>rs\<close> are the records
  it accepted, the walk's fields describe them, and the verdict says where and why it
  stopped.
\<close>

definition loopResult ::
  "(bytes \<Rightarrow> lineFields option) \<Rightarrow> (bytes \<Rightarrow> bytes) \<Rightarrow> uint64 \<Rightarrow> nat \<Rightarrow> rawLine list \<Rightarrow>
   walk \<Rightarrow> walk \<Rightarrow> ledger_error option \<Rightarrow> bytes list \<Rightarrow> bool \<Rightarrow> bool" where
  "loopResult unm H base i lns w w' e rs mode \<longleftrightarrow>
     prefix rs (map raw lns)
     \<and> (wSeqEstablished w \<longrightarrow> mode = wSeqMode w)
     \<and> (rs \<noteq> [] \<and> e = None \<longrightarrow> wSeqEstablished w' \<and> wSeqMode w' = mode)
     \<and> chainFrom unm H base mode i (wPrev w) rs
     \<and> wRecords w' = wRecords w @ rs
     \<and> wPrev w' = headFrom H (wPrev w) rs
     \<and> wCount w' = wCount w + length rs
     \<and> wOffset w' = wOffset w + length (fileBytes rs)
     \<and> (case e of
          None \<Rightarrow> rs = map raw lns
                  \<and> (lns \<noteq> [] \<longrightarrow> terminated (last lns) \<and> nul \<notin> set (raw (last lns)))
        | Some e \<Rightarrow> e = ChainBrokenError (i + length rs + 1) \<and> length rs < length lns
                  \<or> e = TornError (wOffset w') \<and> length lns = length rs + 1)"

lemma loadLoop_sound:
  "loadLoop unm H base i lns w = (w', e) \<Longrightarrow> \<exists>rs mode. loopResult unm H base i lns w w' e rs mode"
proof (induction lns arbitrary: i w)
  case Nil
  then have "loopResult unm H base i [] w w' e [] (wSeqMode w)"
    by (auto simp: loopResult_def)
  then show ?case by blast
next
  case (Cons ln lns)
  obtain w1 e1 where line: "loadLine unm H base (lns = []) i ln w = (w1, e1)" by fastforce
  show ?case
  proof (cases e1)
    case (Some err)
    with line Cons.prems have "w' = w1" "e = Some err" by auto
    with loadLine_error [OF line [unfolded Some]]
    have "loopResult unm H base i (ln # lns) w w' e [] (wSeqMode w)"
      by (auto simp: loopResult_def)
    then show ?thesis by blast
  next
    case None
    from line [unfolded None] obtain mode where mode: "wSeqEstablished w \<longrightarrow> mode = wSeqMode w"
      and ok: "lineOk unm base mode i (wPrev w) (raw ln)" and w1: "w1 = advance H mode (raw ln) w"
      and fin: "lns = [] \<longrightarrow> terminated ln \<and> nul \<notin> set (raw ln)"
      unfolding loadLine_accepts by blast
    from Cons.prems line None have rest: "loadLoop unm H base (i + 1) lns w1 = (w', e)" by simp
    from Cons.IH [OF this] obtain rs mode' where
      IH: "loopResult unm H base (i + 1) lns w1 w' e rs mode'" by blast
    then have "mode' = mode" by (simp add: loopResult_def w1)
    moreover from rest w1 have "lns = [] \<Longrightarrow> wSeqEstablished w' \<and> wSeqMode w' = mode" by auto
    ultimately have "loopResult unm H base i (ln # lns) w w' e (raw ln # rs) mode"
      using IH mode ok fin
      by (cases "rs = []")
         (auto simp: loopResult_def lineOk_def w1 split: option.splits)
    then show ?thesis by blast
  qed
qed

lemma loadLoop_complete:
  assumes "chainFrom unm H base mode i (wPrev w) (map raw lns)"
    and "wSeqEstablished w \<longrightarrow> mode = wSeqMode w"
    and "lns \<noteq> [] \<longrightarrow> terminated (last lns) \<and> nul \<notin> set (raw (last lns))"
  shows "snd (loadLoop unm H base i lns w) = None"
  using assms
proof (induction lns arbitrary: i w)
  case (Cons ln lns)
  have "loadLine unm H base (lns = []) i ln w = (advance H mode (raw ln) w, None)"
    using Cons.prems by (subst loadLine_accepts) (auto simp: lineOk_def)
  moreover have "snd (loadLoop unm H base (i + 1) lns (advance H mode (raw ln) w)) = None"
    using Cons.prems by (intro Cons.IH) auto
  ultimately show ?case by simp
qed simp

section \<open>The reader, against the specification\<close>

abbreviation clean :: "bytes \<Rightarrow> reader" where
  "clean b \<equiv> \<lparr>rdBytes = b, rdFault = False\<rparr>"

lemma readLines_clean [simp]: "readLines (clean b) = Inr (splitLines [] b)"
  by (simp add: readLines_def Let_def)

lemma startWalk_simps [simp]:
  "wRecords (startWalk s) = []" "wPrev (startWalk s) = startPrev s" "wCount (startWalk s) = 0"
  "wOffset (startWalk s) = 0" "wSeqEstablished (startWalk s) \<longleftrightarrow> startBase s > 0"
  "wSeqMode (startWalk s) \<longleftrightarrow> startBase s > 0"
  by (simp_all add: startWalk_def)

lemma loadChain_clean:
  obtains w e where
    "loadLoop unm H (startBase s) 0 (splitLines [] b) (startWalk s) = (w, e)"
    "loadChain unm H (clean b) s =
       \<lparr>ldRecords = wRecords w, ldHead = \<lparr>headHash = wPrev w, headCount = wCount w\<rparr>,
        ldSeqEstablished = wSeqEstablished w, ldSeqMode = wSeqMode w, ldErr = e\<rparr>"
proof -
  obtain w e where we: "loadLoop unm H (startBase s) 0 (splitLines [] b) (startWalk s) = (w, e)"
    by fastforce
  then have "loadChain unm H (clean b) s =
       \<lparr>ldRecords = wRecords w, ldHead = \<lparr>headHash = wPrev w, headCount = wCount w\<rparr>,
        ldSeqEstablished = wSeqEstablished w, ldSeqMode = wSeqMode w, ldErr = e\<rparr>"
    by (cases "splitLines [] b = []") (auto simp: loadChain_def)
  with we show ?thesis using that by blast
qed

lemma chain_nonempty_mode:
  "chainFrom unm H base m i p rs \<Longrightarrow> chainFrom unm H base m' i p rs \<Longrightarrow> rs \<noteq> [] \<Longrightarrow> m = m'"
  by (cases rs) (auto split: if_splits)

lemma loadChain_validD:
  assumes "ldErr (loadChain unm H (clean b) s) = None"
  obtains mode where
    "b = fileBytes (ldRecords (loadChain unm H (clean b) s))"
    "validChain unm H s mode (ldRecords (loadChain unm H (clean b) s))"
proof -
  obtain w e where we: "loadLoop unm H (startBase s) 0 (splitLines [] b) (startWalk s) = (w, e)"
    and L: "loadChain unm H (clean b) s =
       \<lparr>ldRecords = wRecords w, ldHead = \<lparr>headHash = wPrev w, headCount = wCount w\<rparr>,
        ldSeqEstablished = wSeqEstablished w, ldSeqMode = wSeqMode w, ldErr = e\<rparr>"
    by (rule loadChain_clean)
  obtain rs0 tail where b: "b = fileBytes rs0 @ tail" and nl: "newline \<notin> set tail"
    "list_all (\<lambda>r. newline \<notin> set r) rs0" by (rule file_decompose)
  note lines = splitLines_decompose [OF nl, folded b]
  from loadLoop_sound [OF we] obtain rs mode
    where R: "loopResult unm H (startBase s) 0 (splitLines [] b) (startWalk s) w e rs mode" by blast
  from assms L have e: "e = None" by simp
  from R e lines have "tail = []"
    by (auto simp: loopResult_def split: if_splits)
  moreover from R e lines this have "rs = rs0"
    by (simp add: loopResult_def comp_def)
  ultimately have "b = fileBytes (wRecords w)" "validChain unm H s mode (wRecords w)"
    using R e lines b nl
    by (auto simp: loopResult_def validChain_def last_map)
  with L that show ?thesis by simp
qed

lemma loadChain_validI:
  assumes v: "validChain unm H s mode rs"
  shows "loadChain unm H (clean (fileBytes rs)) s =
    \<lparr>ldRecords = rs,
     ldHead = \<lparr>headHash = headFrom H (startPrev s) rs, headCount = length rs\<rparr>,
     ldSeqEstablished = (startBase s > 0 \<or> rs \<noteq> []),
     ldSeqMode = (if rs = [] then startBase s > 0 else mode), ldErr = None\<rparr>"
proof -
  obtain w e where we: "loadLoop unm H (startBase s) 0 (splitLines [] (fileBytes rs)) (startWalk s) = (w, e)"
    and L: "loadChain unm H (clean (fileBytes rs)) s =
       \<lparr>ldRecords = wRecords w, ldHead = \<lparr>headHash = wPrev w, headCount = wCount w\<rparr>,
        ldSeqEstablished = wSeqEstablished w, ldSeqMode = wSeqMode w, ldErr = e\<rparr>"
    by (rule loadChain_clean)
  from v have nl: "list_all (\<lambda>r. newline \<notin> set r) rs" by (simp add: validChain_def)
  have lines: "splitLines [] (fileBytes rs) = map (\<lambda>r. \<lparr>raw = r, terminated = True\<rparr>) rs"
    using splitLines_fileBytes [OF nl, of "[]"] by simp
  have "snd (loadLoop unm H (startBase s) 0 (splitLines [] (fileBytes rs)) (startWalk s)) = None"
    unfolding lines
    by (rule loadLoop_complete [where mode = mode])
       (use v in \<open>auto simp: validChain_def comp_def last_map\<close>)
  with we have e: "e = None" by simp
  from loadLoop_sound [OF we] obtain rs' mode' where
    R: "loopResult unm H (startBase s) 0 (splitLines [] (fileBytes rs)) (startWalk s) w e rs' mode'" by blast
  with e lines have rs': "rs' = rs" by (simp add: loopResult_def comp_def)
  have "chainFrom unm H (startBase s) mode' 0 (startPrev s) rs"
    using R rs' by (simp add: loopResult_def)
  moreover have "chainFrom unm H (startBase s) mode 0 (startPrev s) rs"
    using v by (simp add: validChain_def)
  ultimately have "mode' = mode" if "rs \<noteq> []"
    using that by (rule chain_nonempty_mode)
  moreover have "w = startWalk s" if "rs = []" using we that lines by simp
  ultimately show ?thesis
    using R rs' e L by (cases "rs = []") (auto simp: loopResult_def)
qed

section \<open>The handle invariant and the append contract\<close>

text \<open>
  A handle is consistent when it is exactly what opening its file again would give.
  \<open>chainInv_iff\<close> spells it out over the records of the file.
\<close>

definition chainInv ::
  "(bytes \<Rightarrow> lineFields option) \<Rightarrow> (bytes \<Rightarrow> bytes) \<Rightarrow> Start \<Rightarrow> Chain \<Rightarrow> bool" where
  "chainInv unm H s c \<longleftrightarrow>
     ldErr (loadChain unm H (clean (cFile c)) s) = None
     \<and> c = chainOf (cFile c) (cMode c) s (loadChain unm H (clean (cFile c)) s)"

definition chainRecords ::
  "(bytes \<Rightarrow> lineFields option) \<Rightarrow> (bytes \<Rightarrow> bytes) \<Rightarrow> Start \<Rightarrow> Chain \<Rightarrow> bytes list" where
  "chainRecords unm H s c = ldRecords (loadChain unm H (clean (cFile c)) s)"

definition lineSafe :: "bytes \<Rightarrow> bool" where
  "lineSafe l \<longleftrightarrow> newline \<notin> set l \<and> nul \<notin> set l"

definition handleFor ::
  "(bytes \<Rightarrow> bytes) \<Rightarrow> Start \<Rightarrow> LockMode \<Rightarrow> bool \<Rightarrow> bytes list \<Rightarrow> Chain" where
  "handleFor H s lk mode rs =
     \<lparr>cFile = fileBytes rs, cMode = lk, cBase = startBase s,
      cPrev = headFrom H (startPrev s) rs, cCount = length rs,
      cSeqEstablished = (startBase s > 0 \<or> rs \<noteq> []),
      cSeqMode = (if rs = [] then startBase s > 0 else mode)\<rparr>"

lemma chainOf_valid:
  "validChain unm H s mode rs \<Longrightarrow>
   chainOf (fileBytes rs) lk s (loadChain unm H (clean (fileBytes rs)) s) = handleFor H s lk mode rs"
  by (simp add: chainOf_def handleFor_def loadChain_validI)

lemma handleFor_inv:
  "validChain unm H s mode rs \<Longrightarrow> chainInv unm H s (handleFor H s lk mode rs)"
  by (simp add: chainInv_def handleFor_def chainOf_def loadChain_validI)

lemma chainInvE:
  assumes "chainInv unm H s c"
  obtains rs mode where "validChain unm H s mode rs" "c = handleFor H s (cMode c) mode rs"
    "chainRecords unm H s c = rs"
proof -
  let ?rs = "ldRecords (loadChain unm H (clean (cFile c)) s)"
  from assms have "ldErr (loadChain unm H (clean (cFile c)) s) = None" by (simp add: chainInv_def)
  then obtain mode where f: "cFile c = fileBytes ?rs" and v: "validChain unm H s mode ?rs"
    by (rule loadChain_validD)
  from assms have "c = chainOf (cFile c) (cMode c) s (loadChain unm H (clean (cFile c)) s)"
    by (simp add: chainInv_def)
  also have "\<dots> = handleFor H s (cMode c) mode ?rs"
    using chainOf_valid [OF v, of "cMode c"] f by simp
  finally have "c = handleFor H s (cMode c) mode ?rs" .
  with v show ?thesis using that by (simp add: chainRecords_def)
qed

lemma chainRecords_handleFor:
  "validChain unm H s mode rs \<Longrightarrow> chainRecords unm H s (handleFor H s lk mode rs) = rs"
  by (simp add: chainRecords_def handleFor_def loadChain_validI)

lemma chainInv_load:
  assumes "chainInv unm H s c"
  shows "loadChain unm H (clean (cFile c)) s =
    \<lparr>ldRecords = chainRecords unm H s c, ldHead = \<lparr>headHash = cPrev c, headCount = cCount c\<rparr>,
     ldSeqEstablished = cSeqEstablished c, ldSeqMode = cSeqMode c, ldErr = None\<rparr>"
proof -
  obtain L where L: "L = loadChain unm H (clean (cFile c)) s" by simp
  from assms have "ldErr L = None" and c: "c = chainOf (cFile c) (cMode c) s L"
    by (simp_all add: chainInv_def L)
  moreover have "cPrev c = headHash (ldHead L)" "cCount c = headCount (ldHead L)"
    "cSeqEstablished c = ldSeqEstablished L" "cSeqMode c = ldSeqMode L"
    by (subst c, simp add: chainOf_def)+
  ultimately show ?thesis
    unfolding chainRecords_def L [symmetric] by simp
qed

lemma validChain_snoc:
  assumes "validChain unm H s mode rs" "lineSafe l" "rs \<noteq> [] \<or> (startBase s > 0 \<longrightarrow> mode')"
    "rs \<noteq> [] \<longrightarrow> mode' = mode"
    "lineOk unm (startBase s) mode' (length rs) (headFrom H (startPrev s) rs) l"
  shows "validChain unm H s mode' (rs @ [l])"
  using assms
  by (cases "rs = []") (auto simp: validChain_def lineSafe_def lineOk_def chainFrom_append)

text \<open>An accepted append extends the records by exactly the line, on the same contract.\<close>

lemma Chain_Append_handle:
  assumes v: "validChain unm H s mode rs" and safe: "lineSafe l"
    and app: "Chain_Append unm H WriteOk (handleFor H s lk mode rs) l = (c', None)"
  obtains mode' where "validChain unm H s mode' (rs @ [l])" "c' = handleFor H s lk mode' (rs @ [l])"
proof -
  let ?c = "handleFor H s lk mode rs"
  from app obtain p where p: "unm l = Some p" "lfPrev p = Some (cPrev ?c)"
    by (auto simp: Chain_Append_def parseLineFields_def Let_def split: option.splits if_splits)
  define mode' where "mode' = (if cSeqEstablished ?c then cSeqMode ?c else lfSeq p \<noteq> None)"
  from app p have seq: "lfSeq p = (if mode' then Some (cBase ?c + of_nat (cCount ?c + 1)) else None)"
    and c': "c' = ?c\<lparr>cFile := cFile ?c @ l @ [newline], cPrev := H l, cCount := cCount ?c + 1,
                   cSeqEstablished := True, cSeqMode := mode'\<rparr>"
    by (auto simp: Chain_Append_def parseLineFields_def Let_def mode'_def split: if_splits)
  have ok: "lineOk unm (startBase s) mode' (length rs) (headFrom H (startPrev s) rs) l"
    using p seq by (cases p) (auto simp: lineOk_def handleFor_def)
  have "validChain unm H s mode' (rs @ [l])"
    by (rule validChain_snoc [OF v safe _ _ ok])
       (use v in \<open>auto simp: mode'_def handleFor_def validChain_def split: if_splits\<close>)
  moreover have "c' = handleFor H s lk mode' (rs @ [l])"
    by (simp add: c' handleFor_def)
  ultimately show ?thesis using that by blast
qed

lemma Chain_Append_rejected:
  assumes "Chain_Append unm H WriteOk c l = (c', Some e)"
  shows "c' = c"
  using assms
  by (auto simp: Chain_Append_def Let_def split: sum.splits if_splits)

text \<open>The hash chain provides the append contract, whatever \<open>unm\<close>, \<open>H\<close> and the start are.\<close>

interpretation chainLog: append_log
  "chainInv unm H s" "chainRecords unm H s" "Chain_Append unm H WriteOk" lineSafe
  for unm :: "bytes \<Rightarrow> lineFields option" and H :: "bytes \<Rightarrow> bytes" and s :: Start
proof unfold_locales
  fix c l c'
  assume "chainInv unm H s c" and safe: "lineSafe l"
    and app: "Chain_Append unm H WriteOk c l = (c', None)"
  then obtain rs mode where v: "validChain unm H s mode rs" and c: "c = handleFor H s (cMode c) mode rs"
    and rs: "chainRecords unm H s c = rs" by (elim chainInvE)
  from app c have "Chain_Append unm H WriteOk (handleFor H s (cMode c) mode rs) l = (c', None)" by simp
  then obtain mode' where v': "validChain unm H s mode' (rs @ [l])"
    and "c' = handleFor H s (cMode c) mode' (rs @ [l])"
    by (rule Chain_Append_handle [OF v safe])
  then show "chainInv unm H s c' \<and> chainRecords unm H s c' = chainRecords unm H s c @ [l]"
    by (simp add: handleFor_inv chainRecords_handleFor rs)
qed (rule Chain_Append_rejected)

section \<open>Damage\<close>

lemma foldl_advance [simp]:
  "wPrev (foldl (\<lambda>w r. advance H mode r w) w rs) = headFrom H (wPrev w) rs"
  "wRecords (foldl (\<lambda>w r. advance H mode r w) w rs) = wRecords w @ rs"
  "wCount (foldl (\<lambda>w r. advance H mode r w) w rs) = wCount w + length rs"
  "wOffset (foldl (\<lambda>w r. advance H mode r w) w rs) = wOffset w + length (fileBytes rs)"
  by (induction rs arbitrary: w) auto

lemma loadLoop_prefix:
  assumes "chainFrom unm H base mode i (wPrev w) (map raw xs)"
    and "wSeqEstablished w \<longrightarrow> mode = wSeqMode w" and "ys \<noteq> []"
  shows "loadLoop unm H base i (xs @ ys) w =
     loadLoop unm H base (i + length xs) ys (foldl (\<lambda>w r. advance H mode r w) w (map raw xs))"
  using assms
proof (induction xs arbitrary: i w)
  case (Cons x xs)
  have "loadLine unm H base (xs @ ys = []) i x w = (advance H mode (raw x) w, None)"
    using Cons.prems by (subst loadLine_accepts) (auto simp: lineOk_def)
  moreover have "loadLoop unm H base (Suc i) (xs @ ys) (advance H mode (raw x) w) =
      loadLoop unm H base (Suc i + length xs) ys
        (foldl (\<lambda>w r. advance H mode r w) (advance H mode (raw x) w) (map raw xs))"
    using Cons.prems by (intro Cons.IH) auto
  ultimately show ?case by simp
qed simp

text \<open>A valid chain followed by an unterminated tail reads as torn exactly where the tail begins.\<close>

lemma loadChain_torn_tail:
  assumes v: "validChain unm H s mode rs" and t: "newline \<notin> set tail" "tail \<noteq> []"
  shows "ldErr (loadChain unm H (clean (fileBytes rs @ tail)) s) = Some (TornError (length (fileBytes rs)))"
    and "ldRecords (loadChain unm H (clean (fileBytes rs @ tail)) s) = rs"
    and "ldHead (loadChain unm H (clean (fileBytes rs @ tail)) s)
           = \<lparr>headHash = headFrom H (startPrev s) rs, headCount = length rs\<rparr>"
proof -
  from v have nl: "list_all (\<lambda>r. newline \<notin> set r) rs" by (simp add: validChain_def)
  let ?xs = "map (\<lambda>r. \<lparr>raw = r, terminated = True\<rparr>) rs"
  let ?y = "\<lparr>raw = tail, terminated = False\<rparr>"
  let ?w = "foldl (\<lambda>w r. advance H mode r w) (startWalk s) rs"
  have "splitLines [] (fileBytes rs @ tail) = ?xs @ [?y]"
    using splitLines_decompose [OF t(1) nl] t by simp
  moreover have "loadLoop unm H (startBase s) 0 (?xs @ [?y]) (startWalk s) =
      loadLoop unm H (startBase s) (0 + length ?xs) [?y]
        (foldl (\<lambda>w r. advance H mode r w) (startWalk s) (map raw ?xs))"
    using v by (intro loadLoop_prefix) (auto simp: validChain_def comp_def)
  then have "loadLoop unm H (startBase s) 0 (?xs @ [?y]) (startWalk s)
      = (?w, Some (TornError (wOffset ?w)))"
    by (simp add: loadLine_def comp_def)
  ultimately have L: "loadChain unm H (clean (fileBytes rs @ tail)) s =
      \<lparr>ldRecords = wRecords ?w, ldHead = \<lparr>headHash = wPrev ?w, headCount = wCount ?w\<rparr>,
       ldSeqEstablished = wSeqEstablished ?w, ldSeqMode = wSeqMode ?w,
       ldErr = Some (TornError (wOffset ?w))\<rparr>"
    by (simp add: loadChain_def)
  show "ldErr (loadChain unm H (clean (fileBytes rs @ tail)) s) = Some (TornError (length (fileBytes rs)))"
    and "ldRecords (loadChain unm H (clean (fileBytes rs @ tail)) s) = rs"
    and "ldHead (loadChain unm H (clean (fileBytes rs @ tail)) s)
           = \<lparr>headHash = headFrom H (startPrev s) rs, headCount = length rs\<rparr>"
    unfolding L by simp_all
qed

text \<open>Two chains of one length with one head are one chain, or exhibit a collision of \<open>H\<close>.\<close>

lemma chain_collision:
  assumes "chainFrom unm H base m i prev rs" "chainFrom unm H base m' i prev rs'"
    and "length rs = length rs'" "headFrom H prev rs = headFrom H prev rs'"
  shows "rs = rs' \<or> (\<exists>x \<in> set rs. \<exists>y \<in> set rs'. x \<noteq> y \<and> H x = H y)"
  using assms
proof (induction rs arbitrary: rs' rule: rev_induct)
  case (snoc x xs)
  then obtain ys y where rs': "rs' = ys @ [y]" by (metis length_0_conv snoc_eq_iff_butlast)
  show ?case
  proof (cases "x = y")
    case True
    with snoc.prems rs' have "headFrom H prev xs = headFrom H prev ys"
      by (auto simp: chainFrom_append)
    with snoc.IH [of ys] snoc.prems rs' have
      "xs = ys \<or> (\<exists>x \<in> set xs. \<exists>y \<in> set ys. x \<noteq> y \<and> H x = H y)" by (auto simp: chainFrom_append)
    with True rs' show ?thesis by auto
  next
    case False
    with snoc.prems(4) rs' show ?thesis by auto
  qed
qed simp

lemma chainFrom_take:
  "chainFrom unm H base m i prev rs \<Longrightarrow> chainFrom unm H base m i prev (take k rs)"
  by (metis append_take_drop_id chainFrom_append)

lemma chainFrom_nth:
  assumes "chainFrom unm H base m i prev rs" "k < length rs"
  shows "lineOk unm base m (i + k) (headFrom H prev (take k rs)) (rs ! k)"
proof -
  have "rs = take k rs @ rs ! k # drop (Suc k) rs" using assms(2) by (simp add: id_take_nth_drop)
  with assms(1) have "chainFrom unm H base m i prev (take k rs @ rs ! k # drop (Suc k) rs)" by simp
  then show ?thesis using assms(2) by (simp add: chainFrom_append lineOk_def)
qed

section \<open>Properties\<close>

text \<open>
  A concrete codec for the witnesses: a line is \<open>prev:payload\<close>, its hash the line with the
  colon replaced. Both are total and computable; nothing but the witnesses uses them.
\<close>

definition demoUnm :: "bytes \<Rightarrow> lineFields option" where
  "demoUnm l = (if CHR '':'' \<in> set l \<and> nul \<notin> set l
                then Some \<lparr>lfPrev = Some (takeWhile (\<lambda>c. c \<noteq> CHR '':'') l), lfSeq = None\<rparr>
                else None)"

definition demoHash :: "bytes \<Rightarrow> bytes" where
  "demoHash l = map (\<lambda>c. if c = CHR '':'' then CHR ''.'' else c) l"

definition demoChain :: Chain where
  "demoChain = \<lparr>cFile = '':a'' @ [newline], cMode = Unlocked, cBase = 0, cPrev = ''.a'', cCount = 1,
                cSeqEstablished = True, cSeqMode = False\<rparr>"

lemmas demo_simps = demoUnm_def demoHash_def demoChain_def

lemma demoChain_inv: "chainInv demoUnm demoHash zeroStart demoChain"
  by code_simp

text \<open>
  C1: \<open>loadChain\<close> accepts a file, with no error, exactly when the file is the newline-terminated
  concatenation of records that form a valid chain from the given start.
\<close>

theorem loadChain_accepts_exactly_valid_chains:
  "ldErr (loadChain unm H (clean b) s) = None \<longleftrightarrow>
     (\<exists>rs mode. b = fileBytes rs \<and> validChain unm H s mode rs)"
  by (metis loadChain_validD loadChain_validI loaded.select_convs(5))

text \<open>
  After any batch of accepted appends on a consistent handle, a fresh read of the file
  verifies, returns the earlier records followed by exactly the appended lines, and its head is
  the handle's.
\<close>

theorem append_then_read:
  assumes "chainInv unm H s c" "list_all lineSafe ls"
    and "appendAll (Chain_Append unm H WriteOk) c ls = (c', None)"
  shows "loadChain unm H (clean (cFile c')) s =
    \<lparr>ldRecords = chainRecords unm H s c @ ls, ldHead = \<lparr>headHash = cPrev c', headCount = cCount c'\<rparr>,
     ldSeqEstablished = cSeqEstablished c', ldSeqMode = cSeqMode c', ldErr = None\<rparr>"
proof -
  have inv: "chainInv unm H s c'" and recs: "chainRecords unm H s c' = chainRecords unm H s c @ ls"
    using chainLog.batch_prefix [OF assms] chainLog.batch_complete [OF assms] by auto
  show ?thesis
    using chainInv_load [OF inv] recs by simp
qed

theorem append_then_read_witness:
  "loadChain demoUnm demoHash (clean (cFile (fst (appendAll
      (Chain_Append demoUnm demoHash WriteOk) demoChain [''.a:b'', ''.a.b:c''])))) zeroStart =
    \<lparr>ldRecords = ['':a'', ''.a:b'', ''.a.b:c''], ldHead = \<lparr>headHash = ''.a.b.c'', headCount = 3\<rparr>,
     ldSeqEstablished = True, ldSeqMode = False, ldErr = None\<rparr>"
proof -
  let ?ls = "[''.a:b'', ''.a.b:c'']"
  let ?r = "appendAll (Chain_Append demoUnm demoHash WriteOk) demoChain ?ls"
  have ls: "list_all lineSafe ?ls" by code_simp
  have r: "?r = (\<lparr>cFile = '':a'' @ [newline] @ ''.a:b'' @ [newline] @ ''.a.b:c'' @ [newline],
      cMode = Unlocked, cBase = 0, cPrev = ''.a.b.c'', cCount = 3,
      cSeqEstablished = True, cSeqMode = False\<rparr>, None)" by code_simp
  have recs: "chainRecords demoUnm demoHash zeroStart demoChain = ['':a'']" by code_simp
  show ?thesis
    unfolding r using append_then_read [OF demoChain_inv ls r] by (simp add: recs)
qed

text \<open>
  An append whose write stops part-way (a crash, a full disk) after at least one byte and
  before the newline is never mistaken for a record: the next read reports a torn tail that
  begins exactly where the file ended before, with every earlier record and the old head intact.
\<close>

theorem partial_append_is_torn:
  assumes inv: "chainInv unm H s c" and safe: "lineSafe l"
    and app: "Chain_Append unm H (WriteFail k) c l = (c', Some IOError)"
    and k: "0 < k" "k \<le> length l"
  shows "ldErr (loadChain unm H (clean (cFile c')) s) = Some (TornError (length (cFile c)))
    \<and> ldRecords (loadChain unm H (clean (cFile c')) s) = chainRecords unm H s c
    \<and> ldHead (loadChain unm H (clean (cFile c')) s) = \<lparr>headHash = cPrev c, headCount = cCount c\<rparr>"
proof -
  from inv obtain rs mode where v: "validChain unm H s mode rs"
    and c: "c = handleFor H s (cMode c) mode rs" and rs: "chainRecords unm H s c = rs"
    by (rule chainInvE)
  have fl: "cFile c = fileBytes rs" "cPrev c = headFrom H (startPrev s) rs" "cCount c = length rs"
    by (subst c, simp add: handleFor_def)+
  have "cFile c' = cFile c @ take k l"
    using app k(2) by (auto simp: Chain_Append_def Let_def split: sum.splits if_splits)
  moreover have "newline \<notin> set (take k l)" "take k l \<noteq> []"
    using safe k by (auto simp: lineSafe_def dest: in_set_takeD)
  ultimately show ?thesis
    using loadChain_torn_tail [OF v] fl rs by simp
qed

theorem partial_append_is_torn_witness:
  "ldErr (loadChain demoUnm demoHash (clean (cFile (fst
     (Chain_Append demoUnm demoHash (WriteFail 2) demoChain ''.a:b'')))) zeroStart) = Some (TornError 3)"
proof -
  let ?r = "Chain_Append demoUnm demoHash (WriteFail 2) demoChain ''.a:b''"
  have r: "?r = (demoChain\<lparr>cFile := '':a'' @ [newline] @ ''.a''\<rparr>, Some IOError)" by code_simp
  have safe: "lineSafe ''.a:b''" by code_simp
  show ?thesis
    unfolding r using partial_append_is_torn [OF demoChain_inv safe r]
    by (simp add: demoChain_def)
qed

text \<open>
  Tamper evidence. Two files that verify from the same start to the same head (hash and count)
  are byte-for-byte the same file, unless two different records of theirs collide under the hash.
\<close>

theorem same_head_same_file:
  assumes "ldErr (loadChain unm H (clean b1) s) = None" "ldErr (loadChain unm H (clean b2) s) = None"
    and "ldHead (loadChain unm H (clean b1) s) = ldHead (loadChain unm H (clean b2) s)"
  shows "b1 = b2 \<or> (\<exists>x \<in> set (ldRecords (loadChain unm H (clean b1) s)).
                    \<exists>y \<in> set (ldRecords (loadChain unm H (clean b2) s)). x \<noteq> y \<and> H x = H y)"
proof -
  let ?r1 = "ldRecords (loadChain unm H (clean b1) s)"
  let ?r2 = "ldRecords (loadChain unm H (clean b2) s)"
  obtain m1 m2 where b: "b1 = fileBytes ?r1" "b2 = fileBytes ?r2"
    and v: "validChain unm H s m1 ?r1" "validChain unm H s m2 ?r2"
    using loadChain_validD [OF assms(1)] loadChain_validD [OF assms(2)] by metis
  have "headFrom H (startPrev s) ?r1 = headFrom H (startPrev s) ?r2" "length ?r1 = length ?r2"
    using assms(3) loadChain_validI [OF v(1), folded b(1)] loadChain_validI [OF v(2), folded b(2)]
    by (metis Head.ext_inject loaded.select_convs(2))+
  then have "?r1 = ?r2 \<or> (\<exists>x \<in> set ?r1. \<exists>y \<in> set ?r2. x \<noteq> y \<and> H x = H y)"
    using v chain_collision [where rs = ?r1 and rs' = ?r2] unfolding validChain_def by blast
  with b show ?thesis by metis
qed

theorem same_head_same_file_witness:
  "\<exists>x \<in> {'':a''}. \<exists>y \<in> {'':b''}. x \<noteq> y \<and> (\<lambda>_. ''h'') x = (\<lambda>_. ''h'') y"
proof -
  let ?H = "\<lambda>_ :: bytes. ''h''"
  let ?L = "\<lambda>b. loadChain demoUnm ?H (clean b) zeroStart"
  have e: "ldErr (?L ('':a'' @ [newline])) = None" "ldErr (?L ('':b'' @ [newline])) = None"
    and hd: "ldHead (?L ('':a'' @ [newline])) = ldHead (?L ('':b'' @ [newline]))"
    and r: "ldRecords (?L ('':a'' @ [newline])) = ['':a'']" "ldRecords (?L ('':b'' @ [newline])) = ['':b'']"
    by code_simp+
  show ?thesis
    using same_head_same_file [OF e hd] unfolding r by simp
qed

text \<open>What the reader returns beside an error: a prefix that verifies on its own.\<close>

lemma accepted_lines_are_a_prefix:
  assumes "prefix rs (map raw (splitLines [] b))" "length rs < length (splitLines [] b)"
  shows "\<exists>tail. b = fileBytes rs @ tail \<and> tail \<noteq> [] \<and> list_all (\<lambda>r. newline \<notin> set r) rs"
proof -
  obtain rs0 tl0 where b: "b = fileBytes rs0 @ tl0" and nl: "newline \<notin> set tl0"
    "list_all (\<lambda>r. newline \<notin> set r) rs0" by (rule file_decompose)
  have "map raw (splitLines [] b) = rs0 @ (if tl0 = [] then [] else [tl0])"
    "length (splitLines [] b) = length rs0 + (if tl0 = [] then 0 else 1)"
    using splitLines_decompose [OF nl, folded b] by (simp_all add: comp_def)
  with assms have "prefix rs rs0 \<and> (tl0 = [] \<longrightarrow> rs \<noteq> rs0)"
    by (auto split: if_splits)
  then obtain rest where "rs0 = rs @ rest" "tl0 = [] \<longrightarrow> rest \<noteq> []"
    by (auto elim: prefixE)
  with b nl have "b = fileBytes rs @ (fileBytes rest @ tl0)" "fileBytes rest @ tl0 \<noteq> []"
    "list_all (\<lambda>r. newline \<notin> set r) rs" by (cases rest; auto)+
  then show ?thesis by blast
qed

lemma chain_without_nul:
  assumes "\<And>l. nul \<in> set l \<Longrightarrow> unm l = None" "chainFrom unm H base mode i prev rs" "r \<in> set rs"
  shows "nul \<notin> set r"
  using assms(2,3)
  by (induction rs arbitrary: i prev) (use assms(1) in force)+

lemma loadChain_error_prefix:
  assumes nulrej: "\<And>l. nul \<in> set l \<Longrightarrow> unm l = None"
    and L: "L = loadChain unm H (clean b) s" and err: "ldErr L = Some e"
  obtains mode tail where "validChain unm H s mode (ldRecords L)"
    "b = fileBytes (ldRecords L) @ tail" "tail \<noteq> []"
    "ldHead L = \<lparr>headHash = headFrom H (startPrev s) (ldRecords L), headCount = length (ldRecords L)\<rparr>"
    "e = TornError (length (fileBytes (ldRecords L)))
       \<and> length (splitLines [] b) = length (ldRecords L) + 1
     \<or> e = ChainBrokenError (length (ldRecords L) + 1)"
proof -
  obtain w e' where we: "loadLoop unm H (startBase s) 0 (splitLines [] b) (startWalk s) = (w, e')"
    and Lw: "loadChain unm H (clean b) s =
       \<lparr>ldRecords = wRecords w, ldHead = \<lparr>headHash = wPrev w, headCount = wCount w\<rparr>,
        ldSeqEstablished = wSeqEstablished w, ldSeqMode = wSeqMode w, ldErr = e'\<rparr>"
    by (rule loadChain_clean)
  with L err have e': "e' = Some e" by simp
  from loadLoop_sound [OF we] obtain rs mode
    where R: "loopResult unm H (startBase s) 0 (splitLines [] b) (startWalk s) w e' rs mode" by blast
  with e' obtain tail where "b = fileBytes rs @ tail" "tail \<noteq> []"
    "list_all (\<lambda>r. newline \<notin> set r) rs"
    using accepted_lines_are_a_prefix [of rs b] by (auto simp: loopResult_def)
  moreover from this R have "validChain unm H s mode rs"
    using chain_without_nul [OF nulrej, where rs = rs] by (auto simp: loopResult_def validChain_def)
  ultimately show ?thesis
    using that [of mode tail] R e' L Lw by (auto simp: loopResult_def)
qed

text \<open>
  The damage report of a torn ledger is what a repair may rely on: cutting the file at the
  reported offset leaves a file that verifies, with the same records and the same head, and the
  offset is strictly inside the file. JSON never parses a line holding a NUL byte, which is the
  one hypothesis.
\<close>

theorem torn_offset_is_safe_cut:
  assumes "\<And>l. nul \<in> set l \<Longrightarrow> unm l = None"
    and "ldErr (loadChain unm H (clean b) s) = Some (TornError off)"
  shows "off < length b
    \<and> ldErr (loadChain unm H (clean (take off b)) s) = None
    \<and> ldRecords (loadChain unm H (clean (take off b)) s) = ldRecords (loadChain unm H (clean b) s)
    \<and> ldHead (loadChain unm H (clean (take off b)) s) = ldHead (loadChain unm H (clean b) s)"
proof -
  define L where "L = loadChain unm H (clean b) s"
  with assms(2) have errL: "ldErr L = Some (TornError off)" by simp
  obtain mode tail where v: "validChain unm H s mode (ldRecords L)"
    and b: "b = fileBytes (ldRecords L) @ tail" "tail \<noteq> []"
    and hd: "ldHead L = \<lparr>headHash = headFrom H (startPrev s) (ldRecords L), headCount = length (ldRecords L)\<rparr>"
    and off: "off = length (fileBytes (ldRecords L))"
    by (rule loadChain_error_prefix [OF assms(1) L_def errL]) auto
  have cut: "take off b = fileBytes (ldRecords L)" and "off < length b"
    using b off by simp_all
  then show ?thesis
    unfolding cut L_def [symmetric] using loadChain_validI [OF v] hd by simp
qed

theorem torn_offset_is_safe_cut_witness:
  "ldRecords (loadChain demoUnm demoHash (clean (take 3 ('':a'' @ [newline] @ ''.a'' ))) zeroStart) = ['':a'']
   \<and> ldErr (loadChain demoUnm demoHash (clean (take 3 ('':a'' @ [newline] @ ''.a''))) zeroStart) = None"
proof -
  have n: "\<And>l. nul \<in> set l \<Longrightarrow> demoUnm l = None" by (simp add: demoUnm_def)
  have t: "ldErr (loadChain demoUnm demoHash (clean ('':a'' @ [newline] @ ''.a'')) zeroStart) = Some (TornError 3)"
    and r: "ldRecords (loadChain demoUnm demoHash (clean ('':a'' @ [newline] @ ''.a'')) zeroStart) = ['':a'']"
    by code_simp+
  show ?thesis
    using torn_offset_is_safe_cut [OF n t] unfolding r by blast
qed

text \<open>
  A ledger's integrity check cannot see whole records removed from its end: the file cut
  after any number of its records still verifies, to the head those records have.
\<close>

theorem truncation_is_invisible:
  assumes "\<And>l. nul \<in> set l \<Longrightarrow> unm l = None"
    and "ldErr (loadChain unm H (clean b) s) = None"
  shows "ldErr (loadChain unm H (clean (fileBytes (take k (ldRecords (loadChain unm H (clean b) s))))) s) = None
    \<and> ldRecords (loadChain unm H (clean (fileBytes (take k (ldRecords (loadChain unm H (clean b) s))))) s)
        = take k (ldRecords (loadChain unm H (clean b) s))"
proof -
  let ?rs = "ldRecords (loadChain unm H (clean b) s)"
  obtain mode where v: "validChain unm H s mode ?rs" by (rule loadChain_validD [OF assms(2)])
  have "nul \<notin> set r" if "r \<in> set (take k ?rs)" for r
    using v chain_without_nul [OF assms(1)] that by (auto simp: validChain_def dest: in_set_takeD)
  with v have "validChain unm H s mode (take k ?rs)"
    by (auto simp: validChain_def list_all_iff dest: in_set_takeD intro: chainFrom_take)
  from loadChain_validI [OF this] show ?thesis by simp
qed

theorem truncation_is_invisible_witness:
  "ldErr (loadChain demoUnm demoHash (clean (fileBytes (take 1 ['':a'', ''.a:b'']))) zeroStart) = None"
proof -
  let ?b = "'':a'' @ [newline] @ ''.a:b'' @ [newline]"
  have n: "\<And>l. nul \<in> set l \<Longrightarrow> demoUnm l = None" by (simp add: demoUnm_def)
  have e: "ldErr (loadChain demoUnm demoHash (clean ?b) zeroStart) = None"
    and r: "ldRecords (loadChain demoUnm demoHash (clean ?b) zeroStart) = ['':a'', ''.a:b'']"
    by code_simp+
  show ?thesis
    using truncation_is_invisible [OF n e, of 1] unfolding r by simp
qed

text \<open>
  The anti-fork guard. A line whose \<open>prev\<close> is not the handle's head is refused before its
  \<open>seq\<close> is looked at, whatever the disk would do, and the handle and its file are untouched.
\<close>

theorem append_refuses_fork:
  assumes "unm l = Some \<lparr>lfPrev = Some p, lfSeq = q\<rparr>" "p \<noteq> cPrev c"
  shows "Chain_Append unm H io c l = (c, Some (RefuseFork p (cPrev c)))"
  using assms by (simp add: Chain_Append_def parseLineFields_def)

theorem append_refuses_fork_witness:
  "Chain_Append demoUnm demoHash SyncFail demoChain ''x:y'' = (demoChain, Some (RefuseFork ''x'' ''.a''))"
proof -
  have u: "demoUnm ''x:y'' = Some \<lparr>lfPrev = Some ''x'', lfSeq = None\<rparr>" by code_simp
  have p: "''x'' \<noteq> cPrev demoChain" by code_simp
  show ?thesis
    using append_refuses_fork [where unm = demoUnm and l = "''x:y''" and c = demoChain, OF u p, of demoHash SyncFail]
    by (simp add: demoChain_def)
qed

text \<open>
  Sequence numbers. In a verified file whose records carry \<open>seq\<close>, and as long as the 64-bit
  counter cannot wrap, the record at position \<open>k\<close> carries exactly base + k + 1.
\<close>

theorem verified_seq_contiguous:
  assumes "ldErr (loadChain unm H (clean b) s) = None" and "ldSeqMode (loadChain unm H (clean b) s)"
    and "k < length (ldRecords (loadChain unm H (clean b) s))"
    and "unat (startBase s) + length (ldRecords (loadChain unm H (clean b) s)) < 2 ^ 64"
  shows "\<exists>p q. unm (ldRecords (loadChain unm H (clean b) s) ! k) = Some p \<and> lfSeq p = Some q
    \<and> unat q = unat (startBase s) + k + 1"
proof -
  define rs where "rs = ldRecords (loadChain unm H (clean b) s)"
  obtain mode where v: "validChain unm H s mode rs" and b: "b = fileBytes rs"
    using loadChain_validD [OF assms(1)] rs_def by metis
  from assms(3) have "rs \<noteq> []" by (auto simp: rs_def)
  with loadChain_validI [OF v, folded b] assms(2) have mode by simp
  with v have "lineOk unm (startBase s) True (0 + k) (headFrom H (startPrev s) (take k rs)) (rs ! k)"
    using assms(3) by (intro chainFrom_nth) (auto simp: validChain_def rs_def)
  moreover have "unat (startBase s + of_nat (k + 1)) = unat (startBase s) + (k + 1)"
    using assms(3,4) by (intro unat_word_add_of_nat) simp
  ultimately show ?thesis unfolding rs_def [symmetric] by (simp add: lineOk_def)
qed

definition demoSeqUnm :: "bytes \<Rightarrow> lineFields option" where
  "demoSeqUnm l = (if l = ''a'' then Some \<lparr>lfPrev = Some '''', lfSeq = Some 1\<rparr>
                   else if l = ''b'' then Some \<lparr>lfPrev = Some ''a'', lfSeq = Some 2\<rparr> else None)"

theorem verified_seq_contiguous_witness:
  "\<exists>p q. demoSeqUnm ''b'' = Some p \<and> lfSeq p = Some q \<and> unat q = 2"
proof -
  let ?L = "loadChain demoSeqUnm (\<lambda>l. l) (clean (''a'' @ [newline] @ ''b'' @ [newline])) zeroStart"
  have e: "ldErr ?L = None" and m: "ldSeqMode ?L" and r: "ldRecords ?L = [''a'', ''b'']" by code_simp+
  have k: "1 < length (ldRecords ?L)" "unat (startBase zeroStart) + length (ldRecords ?L) < 2 ^ 64"
    unfolding r by (simp_all add: zeroStart_def)
  show ?thesis
    using verified_seq_contiguous [OF e m k] unfolding r by (simp add: zeroStart_def numeral_2_eq_2)
qed

text \<open>
  An input/output fault in the middle of a line is not surfaced as a read error: the bytes read
  so far are classified as a torn tail, although the file behind them may be intact.
\<close>

theorem read_fault_inside_a_line_reads_as_torn:
  assumes "validChain unm H s mode rs" "newline \<notin> set part" "part \<noteq> []"
  shows "ldErr (loadChain unm H \<lparr>rdBytes = fileBytes rs @ part, rdFault = True\<rparr> s)
    = Some (TornError (length (fileBytes rs)))"
proof -
  from assms(1) have nl: "list_all (\<lambda>r. newline \<notin> set r) rs" by (simp add: validChain_def)
  have "readLines \<lparr>rdBytes = fileBytes rs @ part, rdFault = True\<rparr> = Inr (splitLines [] (fileBytes rs @ part))"
    using splitLines_decompose [OF assms(2) nl] assms(3) by (simp add: readLines_def Let_def)
  then have "loadChain unm H \<lparr>rdBytes = fileBytes rs @ part, rdFault = True\<rparr> s
      = loadChain unm H (clean (fileBytes rs @ part)) s"
    by (simp add: loadChain_def)
  then show ?thesis using loadChain_torn_tail [OF assms] by simp
qed

theorem read_fault_inside_a_line_reads_as_torn_witness:
  "ldErr (loadChain demoUnm demoHash \<lparr>rdBytes = fileBytes ['':a''] @ ''.a:'', rdFault = True\<rparr> zeroStart)
     = Some (TornError 3)"
proof -
  have v: "validChain demoUnm demoHash zeroStart False ['':a'']" by code_simp
  have n: "newline \<notin> set ''.a:''" and p: "''.a:'' \<noteq> []" by simp_all
  show ?thesis
    using read_fault_inside_a_line_reads_as_torn [OF v n p] by simp
qed

end
