(* ===== verification/Config_Types.thy ===== *)
theory Config_Types
  imports Interfaces Complex_Main
begin

text \<open>
  Package \<^verbatim>\<open>internal/config\<close>, the file \<^verbatim>\<open>types.go\<close>: the configuration's data and the
  decisions its methods make (tool-grant scope, the exec allowlist, the spawn allowlist), and
  the two hand-written YAML decoders. A Go pointer or a nil-able slice is an \<open>option\<close> where the
  code tells nil from empty; a \<^verbatim>\<open>time.Duration\<close> is its number of nanoseconds; a Go map that is
  iterated is an association list in iteration order.

  \<^verbatim>\<open>yaml.v3\<close> is not part of the repository: a parsed node is its kind, value, line and
  contents, and the library's \<^verbatim>\<open>Decode\<close> of a node into a plain struct is an argument.
\<close>

section \<open>Data\<close>

record SpawnTarget =
  stRole :: bytes
  stWorkflow :: bytes

record ToolGrant =
  tgResource :: bytes
  tgTools :: "bytes list"
  tgMode :: bytes

record ExecEntry =
  eeExe :: bytes
  eeArgsPrefix :: "bytes list"

record ExecConfig =
  ecAllow :: "ExecEntry list"
  ecRuntime :: bytes
  ecURL :: bytes
  ecTimeout :: int

record AgentDef =
  adName :: bytes
  adDescription :: bytes
  adEnabled :: "bool option"
  adModel :: bytes
  adInstruction :: bytes
  adTools :: "ToolGrant list"
  adOutput :: bytes
  adExecution :: bytes
  adEndpoint :: bytes
  adExec :: ExecConfig
  adMaySpawn :: "SpawnTarget list"
  adSourceFile :: bytes

record Step =
  spName :: bytes
  spAgent :: bytes
  spOnSuccess :: bytes
  spOnFailure :: bytes
  spMaxBounces :: int

record WorkflowDef =
  wfName :: bytes
  wfDescription :: bytes
  wfSteps :: "Step list"
  wfSourceFile :: bytes

record RoleDef =
  rdName :: bytes
  rdDescription :: bytes
  rdWorkflows :: "bytes list"
  rdAllowedGroups :: "bytes list"
  rdControl :: "bytes list option"
  rdBudgetUSDMonth :: real
  rdSourceFile :: bytes

record ModelRoute =
  mrEndpoint :: bytes
  mrModel :: bytes
  mrAPIKeyEnv :: bytes

record SpawnPolicy =
  polMaxDepth :: int
  polMaxParallel :: int
  polMaxTotalSpawns :: int
  polRejectCycles :: bool

record ToolResource =
  trKind :: bytes
  trURL :: bytes
  trCredentialSource :: bytes
  trTokenEnv :: bytes
  trGrantType :: bytes
  trClientAuth :: bytes
  trIssuer :: bytes
  trTokenEndpoint :: bytes
  trClientIDEnv :: bytes
  trClientSecretEnv :: bytes
  trScope :: bytes
  trAudience :: bytes
  trReadOnlyTools :: "bytes list"
  trRuntime :: bytes

record GatewayConfig =
  gwModels :: "(bytes \<times> ModelRoute) list"
  gwTools :: "(bytes \<times> ToolResource) list"
  gwDefaultModel :: bytes
  gwRefboxSocketDir :: bytes
  gwSpawnSupervisor :: bytes
  gwSpawn :: SpawnPolicy
  gwStepTimeout :: int

record Config =
  cfgAgents :: "AgentDef list"
  cfgWorkflows :: "WorkflowDef list"
  cfgRoles :: "RoleDef list"
  cfgGateway :: GatewayConfig

section \<open>Tool grants\<close>

definition UnixScheme :: bytes where
  "UnixScheme = ''unix://''"

definition second :: int where
  "second = 1000000000"

definition DefaultStepTimeout :: int where
  "DefaultStepTimeout = 5 * 60 * second"

definition AllTools :: "ToolGrant \<Rightarrow> bool" where
  "AllTools g \<longleftrightarrow> tgTools g = [''*'']"

definition ReadOnly :: "ToolGrant \<Rightarrow> bool" where
  "ReadOnly g \<longleftrightarrow> tgMode g = ''read-only''"

definition EveryToolReadWrite :: "ToolGrant \<Rightarrow> bool" where
  "EveryToolReadWrite g \<longleftrightarrow> AllTools g \<and> tgMode g = ''read-write''"

text \<open>The YAML node a grant or an exec block is decoded from.\<close>

datatype yaml_kind = ScalarNode | MappingNode | OtherNode

datatype yaml_node = Node (nodeKind: yaml_kind) (nodeValue: bytes) (nodeLine: int)
  (nodeContent: "yaml_node list")

datatype decode_error =
    GrantEmptyResource int
  | GrantBare int bytes
  | GrantUnknownKey int bytes
  | GrantNeedsToolsAndMode int bytes
  | GrantModeAllRetired int bytes
  | GrantBadMode int bytes bytes
  | GrantNoTools int bytes
  | GrantStarNotAlone int bytes
  | GrantNoMode int bytes
  | GrantNotObject int
  | ExecNotMapping int
  | ExecModeRetired int
  | YamlDecodeError
  | NilDereference

text \<open>
  The key scan of a mapping: the value nodes of \<open>tools\<close> and \<open>mode\<close>, the last occurrence of
  each, or the first key outside the three allowed. A trailing key with no value is not
  visited.
\<close>

fun grantKeys ::
  "yaml_node list \<Rightarrow> yaml_node option \<Rightarrow> yaml_node option \<Rightarrow>
   decode_error + yaml_node option \<times> yaml_node option" where
  "grantKeys (key # val # rest) tools mode =
     (if nodeValue key = ''resource'' then grantKeys rest tools mode
      else if nodeValue key = ''tools'' then grantKeys rest (Some val) mode
      else if nodeValue key = ''mode'' then grantKeys rest tools (Some val)
      else Inl (GrantUnknownKey (nodeLine key) (nodeValue key)))"
| "grantKeys _ tools mode = Inr (tools, mode)"

definition grantShape ::
  "yaml_node \<Rightarrow> yaml_node option \<Rightarrow> yaml_node option \<Rightarrow> ToolGrant \<Rightarrow> decode_error + ToolGrant" where
  "grantShape value toolsNode modeNode g =
     (if tgResource g = '''' then Inl (GrantEmptyResource (nodeLine value))
      else if toolsNode = None \<and> tgMode g = ''''
      then Inl (GrantNeedsToolsAndMode (nodeLine value) (tgResource g))
      else if tgMode g = ''all''
      then (case modeNode of None \<Rightarrow> Inl NilDereference
            | Some m \<Rightarrow> Inl (GrantModeAllRetired (nodeLine m) (tgResource g)))
      else if tgMode g \<notin> {'''', ''read-only'', ''read-write''}
      then (case modeNode of None \<Rightarrow> Inl NilDereference
            | Some m \<Rightarrow> Inl (GrantBadMode (nodeLine m) (tgResource g) (tgMode g)))
      else if tgTools g = []
      then Inl (GrantNoTools (case toolsNode of None \<Rightarrow> nodeLine value | Some t \<Rightarrow> nodeLine t) (tgResource g))
      else if ''*'' \<in> set (tgTools g) \<and> length (tgTools g) \<noteq> 1
      then (case toolsNode of None \<Rightarrow> Inl NilDereference
            | Some t \<Rightarrow> Inl (GrantStarNotAlone (nodeLine t) (tgResource g)))
      else if tgMode g = ''''
      then Inl (GrantNoMode (case modeNode of None \<Rightarrow> nodeLine value | Some m \<Rightarrow> nodeLine m) (tgResource g))
      else Inr g)"

definition ToolGrant_UnmarshalYAML ::
  "(yaml_node \<Rightarrow> ToolGrant option) \<Rightarrow> yaml_node \<Rightarrow> decode_error + ToolGrant" where
  "ToolGrant_UnmarshalYAML decode value =
     (case nodeKind value of
        ScalarNode \<Rightarrow>
          if nodeValue value = '''' then Inl (GrantEmptyResource (nodeLine value))
          else Inl (GrantBare (nodeLine value) (nodeValue value))
      | MappingNode \<Rightarrow>
          (case grantKeys (nodeContent value) None None of
             Inl e \<Rightarrow> Inl e
           | Inr (toolsNode, modeNode) \<Rightarrow>
               (case decode value of
                  None \<Rightarrow> Inl YamlDecodeError
                | Some g \<Rightarrow> grantShape value toolsNode modeNode g))
      | OtherNode \<Rightarrow> Inl (GrantNotObject (nodeLine value)))"

section \<open>Agents\<close>

definition IsEnabled :: "AgentDef \<Rightarrow> bool" where
  "IsEnabled a \<longleftrightarrow> adEnabled a = None \<or> adEnabled a = Some True"

fun maySpawnIn :: "SpawnTarget list \<Rightarrow> bytes \<Rightarrow> bytes \<Rightarrow> bool" where
  "maySpawnIn [] role workflow = False"
| "maySpawnIn (t # ts) role workflow =
     (if stRole t = role \<and> stWorkflow t = workflow then True else maySpawnIn ts role workflow)"

definition MaySpawnTarget :: "AgentDef \<Rightarrow> bytes \<Rightarrow> bytes \<Rightarrow> bool" where
  "MaySpawnTarget a role workflow = maySpawnIn (adMaySpawn a) role workflow"

definition EffectiveExecution :: "AgentDef \<Rightarrow> bytes" where
  "EffectiveExecution a = (if adExecution a = '''' then ''fronted'' else adExecution a)"

section \<open>Exec\<close>

fun hasModeKey :: "yaml_node list \<Rightarrow> int option" where
  "hasModeKey (key # val # rest) =
     (if nodeValue key = ''mode'' then Some (nodeLine key) else hasModeKey rest)"
| "hasModeKey _ = None"

definition ExecConfig_UnmarshalYAML ::
  "(yaml_node \<Rightarrow> ExecConfig option) \<Rightarrow> yaml_node \<Rightarrow> decode_error + ExecConfig" where
  "ExecConfig_UnmarshalYAML decode value =
     (if nodeKind value \<noteq> MappingNode then Inl (ExecNotMapping (nodeLine value))
      else (case hasModeKey (nodeContent value) of
              Some line \<Rightarrow> Inl (ExecModeRetired line)
            | None \<Rightarrow> (case decode value of None \<Rightarrow> Inl YamlDecodeError | Some e \<Rightarrow> Inr e)))"

definition Declared :: "ExecConfig \<Rightarrow> bool" where
  "Declared e \<longleftrightarrow> ecAllow e \<noteq> [] \<or> ecRuntime e \<noteq> '''' \<or> ecURL e \<noteq> '''' \<or> ecTimeout e \<noteq> 0"

fun argsMatch :: "bytes list \<Rightarrow> nat \<Rightarrow> bytes list \<Rightarrow> bool" where
  "argsMatch argv i [] = True"
| "argsMatch argv i (p # ps) = (if argv ! (1 + i) \<noteq> p then False else argsMatch argv (i + 1) ps)"

fun allowsIn :: "ExecEntry list \<Rightarrow> bytes list \<Rightarrow> bool" where
  "allowsIn [] argv = False"
| "allowsIn (entry # rest) argv =
     (if argv ! 0 \<noteq> eeExe entry \<or> length argv < 1 + length (eeArgsPrefix entry) then allowsIn rest argv
      else if argsMatch argv 0 (eeArgsPrefix entry) then True
      else allowsIn rest argv)"

definition Allows :: "ExecConfig \<Rightarrow> bytes list \<Rightarrow> bool" where
  "Allows e argv = (if length argv = 0 then False else allowsIn (ecAllow e) argv)"

section \<open>Gateway\<close>

definition EffectiveStepTimeout :: "GatewayConfig \<Rightarrow> int" where
  "EffectiveStepTimeout g = (if gwStepTimeout g = 0 then DefaultStepTimeout else gwStepTimeout g)"

section \<open>Lemmas\<close>

lemma argsMatch_iff:
  "i + length ps < length argv \<Longrightarrow> argsMatch argv i ps \<longleftrightarrow> take (length ps) (drop (i + 1) argv) = ps"
proof (induction ps arbitrary: i)
  case (Cons p ps)
  then have "drop (i + 1) argv = argv ! (i + 1) # drop (i + 2) argv"
    using Cons_nth_drop_Suc [of "i + 1" argv] by simp
  with Cons show ?case by auto
qed simp

lemma allowsIn_iff:
  "argv \<noteq> [] \<Longrightarrow>
   allowsIn es argv \<longleftrightarrow> (\<exists>e \<in> set es. \<exists>rest. argv = eeExe e # eeArgsPrefix e @ rest)"
proof (induction es)
  case (Cons e es)
  then obtain a as where argv: "argv = a # as" by (cases argv) auto
  have "(argv ! 0 = eeExe e \<and> length argv \<ge> 1 + length (eeArgsPrefix e)
          \<and> argsMatch argv 0 (eeArgsPrefix e))
      \<longleftrightarrow> (\<exists>rest. argv = eeExe e # eeArgsPrefix e @ rest)"
    using argsMatch_iff [of 0 "eeArgsPrefix e" argv]
    by (auto simp: argv) (metis append_take_drop_id)
  with Cons show ?case by auto
qed simp

lemma maySpawnIn_iff:
  "maySpawnIn ts role workflow \<longleftrightarrow> (\<exists>t \<in> set ts. stRole t = role \<and> stWorkflow t = workflow)"
  by (induction ts) auto

text \<open>The shape every accepted grant has; \<open>registry.Validate\<close> checks the same rules.\<close>

definition grantOk :: "ToolGrant \<Rightarrow> bool" where
  "grantOk g \<longleftrightarrow> tgResource g \<noteq> '''' \<and> tgTools g \<noteq> []
     \<and> (''*'' \<in> set (tgTools g) \<longrightarrow> length (tgTools g) = 1)
     \<and> tgMode g \<in> {''read-only'', ''read-write''}"

lemma grantShape_iff:
  "grantShape value toolsNode modeNode g = Inr g' \<longleftrightarrow> g' = g \<and> grantOk g"
  by (auto simp: grantShape_def grantOk_def split: option.splits)

lemma grantKeys_no_nil: "grantKeys ns tools mode \<noteq> Inl NilDereference"
  by (induction ns tools mode rule: grantKeys.induct) auto

section \<open>Properties\<close>

text \<open>
  The exec allowlist admits an argv exactly when it begins with an allowlisted executable
  followed by that entry's required argument prefix; in particular the empty argv is refused.
\<close>

theorem exec_allowlist_exact:
  "Allows e argv \<longleftrightarrow>
     (\<exists>entry \<in> set (ecAllow e). \<exists>rest. argv = eeExe entry # eeArgsPrefix entry @ rest)"
  by (cases "argv = []") (auto simp: Allows_def allowsIn_iff)

text \<open>
  A tool grant read from YAML is accepted exactly when the node is a mapping with only the
  three known keys that the library decodes to a grant with a resource, a non-empty tool list in
  which the star stands alone, and one of the two modes; the accepted grant is the decoded one.
\<close>

theorem grant_decoder_accepts_exactly:
  "ToolGrant_UnmarshalYAML decode value = Inr g \<longleftrightarrow>
     nodeKind value = MappingNode
     \<and> (\<exists>ks. grantKeys (nodeContent value) None None = Inr ks)
     \<and> decode value = Some g \<and> grantOk g"
  by (cases "nodeKind value")
    (auto simp: ToolGrant_UnmarshalYAML_def grantShape_iff split: sum.splits option.splits)

end
