(* ===== verification/Authz.thy ===== *)
theory Authz
  imports Config_Types
begin

text \<open>
  Packages \<^verbatim>\<open>internal/identity\<close> (the invoker) and \<^verbatim>\<open>internal/authz\<close> (the two authorization
  decisions made from a role's groups): the run-time gate \<open>GroupsAllow\<close>, which honours the
  public marker \<^verbatim>\<open>*\<close>, and the control-plane gate \<open>ControlAllows\<close>, which never does. The
  environment variable \<^verbatim>\<open>USER\<close> that \<open>Static\<close> reads is an argument.
\<close>

section \<open>The invoker\<close>

record Invoker =
  invSubject :: bytes
  invIssuer :: bytes
  invMethod :: bytes
  invGroups :: "bytes list"

definition Static :: "bytes \<Rightarrow> bytes \<Rightarrow> Invoker" where
  "Static user as =
     (let subject = as;
          subject = (if subject = '''' then user else subject);
          subject = (if subject = '''' then ''unknown'' else subject)
      in \<lparr>invSubject = subject, invIssuer = ''local'', invMethod = ''asserted'', invGroups = []\<rparr>)"

section \<open>The decisions\<close>

definition ControlOps :: "bytes list" where
  "ControlOps = [''apply'', ''enable'', ''disable'', ''repair'', ''provision'', ''prune'',
                 ''pull'', ''anchor'', ''seal'']"

definition KnownControlOp :: "bytes \<Rightarrow> bool" where
  "KnownControlOp op = List.member ControlOps op"

fun GroupsIntersect :: "bytes list \<Rightarrow> bytes list \<Rightarrow> bool" where
  "GroupsIntersect [] allowedGroups = False"
| "GroupsIntersect (g # gs) allowedGroups =
     (if List.member allowedGroups g then True else GroupsIntersect gs allowedGroups)"

definition GroupsAllow :: "bytes list \<Rightarrow> bytes list \<Rightarrow> bool" where
  "GroupsAllow invokerGroups allowedGroups =
     (List.member allowedGroups ''*'' \<or> GroupsIntersect invokerGroups allowedGroups)"

text \<open>A nil \<open>control\<close> list contains nothing, exactly as an empty one.\<close>

definition controlList :: "RoleDef \<Rightarrow> bytes list" where
  "controlList r = (case rdControl r of None \<Rightarrow> [] | Some ops \<Rightarrow> ops)"

fun memberOf :: "bytes list \<Rightarrow> bytes list \<Rightarrow> bool" where
  "memberOf [] allowedGroups = False"
| "memberOf (g # gs) allowedGroups =
     (if g \<noteq> ''*'' \<and> List.member allowedGroups g then True else memberOf gs allowedGroups)"

fun controlIn :: "RoleDef list \<Rightarrow> bytes list \<Rightarrow> bytes \<Rightarrow> bool" where
  "controlIn [] groups op = False"
| "controlIn (r # rs) groups op =
     (if \<not> List.member (controlList r) op then controlIn rs groups op
      else if memberOf groups (rdAllowedGroups r) then True
      else controlIn rs groups op)"

definition ControlAllows :: "RoleDef list \<Rightarrow> Invoker \<Rightarrow> bytes \<Rightarrow> bool" where
  "ControlAllows roles invk op =
     (if \<not> KnownControlOp op then False else controlIn roles (invGroups invk) op)"

section \<open>What a group gate promises\<close>

text \<open>
  Both decisions are group gates: some group of the invoker carries the decision, or the policy
  admits everyone. What follows for a client is proved once.
\<close>

locale group_gate =
  fixes admits :: "bytes list \<Rightarrow> 'p \<Rightarrow> bool"
    and open_to_all :: "'p \<Rightarrow> bool"
    and carries :: "'p \<Rightarrow> bytes \<Rightarrow> bool"
  assumes admits_iff: "admits gs p \<longleftrightarrow> open_to_all p \<or> (\<exists>g \<in> set gs. carries p g)"
begin

lemma pointwise: "admits gs p \<longleftrightarrow> admits [] p \<or> (\<exists>g \<in> set gs. admits [g] p)"
  by (auto simp: admits_iff)

lemma nobody: "admits [] p \<longleftrightarrow> open_to_all p"
  by (simp add: admits_iff)

end

lemma GroupsIntersect_iff [simp]:
  "GroupsIntersect gs allowed \<longleftrightarrow> (\<exists>g \<in> set gs. g \<in> set allowed)"
  by (induction gs) auto

lemma memberOf_iff [simp]:
  "memberOf gs allowed \<longleftrightarrow> (\<exists>g \<in> set gs. g \<noteq> ''*'' \<and> g \<in> set allowed)"
  by (induction gs) auto

lemma controlIn_iff:
  "controlIn rs gs op \<longleftrightarrow> (\<exists>r \<in> set rs. op \<in> set (controlList r) \<and> memberOf gs (rdAllowedGroups r))"
  by (induction rs) auto

lemma KnownControlOp_iff [simp]: "KnownControlOp op \<longleftrightarrow> op \<in> set ControlOps"
  by (simp add: KnownControlOp_def)

interpretation runGate: group_gate GroupsAllow
  "\<lambda>allowed. ''*'' \<in> set allowed" "\<lambda>allowed g. g \<in> set allowed"
  by unfold_locales (auto simp: GroupsAllow_def)

interpretation controlGate: group_gate
  "\<lambda>gs (roles, op). ControlAllows roles \<lparr>invSubject = s, invIssuer = i, invMethod = m, invGroups = gs\<rparr> op"
  "\<lambda>_. False"
  "\<lambda>(roles, op) g. op \<in> set ControlOps \<and> g \<noteq> ''*''
     \<and> (\<exists>r \<in> set roles. op \<in> set (controlList r) \<and> g \<in> set (rdAllowedGroups r))"
  for s i m
  by unfold_locales (auto simp: ControlAllows_def controlIn_iff)

lemma ControlAllows_iff:
  "ControlAllows roles invk op \<longleftrightarrow> op \<in> set ControlOps
     \<and> (\<exists>r \<in> set roles. op \<in> set (controlList r)
          \<and> (\<exists>g \<in> set (invGroups invk). g \<noteq> ''*'' \<and> g \<in> set (rdAllowedGroups r)))"
  by (auto simp: ControlAllows_def controlIn_iff)

section \<open>Properties\<close>

text \<open>
  The control-plane gate is membership and grant, never the grant alone: an operation is
  allowed exactly when it is one of the fixed operations and one single role both lists it and
  names, literally, a group of the invoker other than the public marker.
\<close>

theorem control_needs_membership_and_grant:
  "ControlAllows roles invk op \<longleftrightarrow> KnownControlOp op
     \<and> (\<exists>r \<in> set roles. op \<in> set (controlList r)
          \<and> GroupsIntersect (filter (\<lambda>g. g \<noteq> ''*'') (invGroups invk)) (rdAllowedGroups r))"
  by (auto simp: ControlAllows_iff)

text \<open>
  The public marker never confers control. Removing every role open only to everyone, and
  the claim of a group spelled like the marker from the invoker, leaves every control decision
  as it was.
\<close>

theorem public_marker_confers_no_control:
  "ControlAllows roles invk op
     = ControlAllows (filter (\<lambda>r. set (rdAllowedGroups r) \<noteq> {''*''}) roles)
         (invk\<lparr>invGroups := filter (\<lambda>g. g \<noteq> ''*'') (invGroups invk)\<rparr>) op"
  by (auto simp: ControlAllows_iff)

text \<open>
  Both gates are default-deny and decide group by group: an invoker with no group runs
  nothing but public roles and controls nothing, and a list of groups is admitted exactly when
  one of its groups alone is. So order and repetition of the groups are irrelevant, and a
  further group never withdraws a permission.
\<close>

theorem group_gates_decide_group_by_group:
  "(GroupsAllow [] allowed \<longleftrightarrow> ''*'' \<in> set allowed)
   \<and> (GroupsAllow gs allowed \<longleftrightarrow> GroupsAllow [] allowed \<or> (\<exists>g \<in> set gs. GroupsAllow [g] allowed))
   \<and> (ControlAllows roles invk op \<longleftrightarrow>
        (\<exists>g \<in> set (invGroups invk). ControlAllows roles (invk\<lparr>invGroups := [g]\<rparr>) op))"
proof -
  have eq: "invk\<lparr>invGroups := gs\<rparr> = \<lparr>invSubject = invSubject invk, invIssuer = invIssuer invk,
                     invMethod = invMethod invk, invGroups = gs\<rparr>" for gs by (cases invk) simp
  have self: "invk\<lparr>invGroups := invGroups invk\<rparr> = invk" by simp
  have ctl: "ControlAllows roles (invk\<lparr>invGroups := gs\<rparr>) op \<longleftrightarrow>
      (\<exists>g \<in> set gs. ControlAllows roles (invk\<lparr>invGroups := [g]\<rparr>) op)" for gs
    unfolding eq
    using controlGate.pointwise [of "invSubject invk" "invIssuer invk" "invMethod invk" gs "(roles, op)"]
      controlGate.nobody [of "invSubject invk" "invIssuer invk" "invMethod invk" "(roles, op)"]
    by simp
  show ?thesis
    using runGate.nobody [of allowed] runGate.pointwise [of gs allowed] ctl [of "invGroups invk"]
    unfolding self by blast
qed

end
