(* ===== verification/Paths.thy ===== *)
theory Paths
  imports Prelude
begin

text \<open>
  The lexical path operations of Go's \<^verbatim>\<open>path/filepath\<close> on Unix that the repository uses
  (\<open>IsAbs\<close>, \<open>Clean\<close>, \<open>Dir\<close>, \<open>Rel\<close>) and \<open>InsideDir\<close> of \<^verbatim>\<open>internal/registry/validate.go\<close>, the
  rule that keeps a trusted runtime's socket out of the directory mounted into an agent's
  compartment. \<open>Rel\<close> works word by word; \<^const>\<open>None\<close> is its error.
\<close>

section \<open>Words of a path\<close>

abbreviation slash :: char where
  "slash \<equiv> CHR ''/''"

fun splitSep :: "bytes \<Rightarrow> bytes \<Rightarrow> bytes list" where
  "splitSep cur [] = [cur]"
| "splitSep cur (c # cs) = (if c = slash then cur # splitSep [] cs else splitSep (cur @ [c]) cs)"

fun joinSep :: "bytes list \<Rightarrow> bytes" where
  "joinSep [] = []"
| "joinSep [w] = w"
| "joinSep (w # ws) = w @ slash # joinSep ws"

definition IsAbs :: "bytes \<Rightarrow> bool" where
  "IsAbs p \<longleftrightarrow> has_prefix p [slash]"

section \<open>\<open>Clean\<close>, \<open>Dir\<close>, \<open>Rel\<close>\<close>

text \<open>The words kept so far are in reverse, so that an inner \<^verbatim>\<open>..\<close> drops the newest.\<close>

fun cleanWords :: "bool \<Rightarrow> bytes list \<Rightarrow> bytes list \<Rightarrow> bytes list" where
  "cleanWords rooted acc [] = rev acc"
| "cleanWords rooted acc (w # ws) =
     (if w = '''' \<or> w = ''.'' then cleanWords rooted acc ws
      else if w = ''..'' then
        (case acc of
           [] \<Rightarrow> cleanWords rooted (if rooted then [] else [w]) ws
         | a # as \<Rightarrow> if a = ''..'' then cleanWords rooted (w # acc) ws else cleanWords rooted as ws)
      else cleanWords rooted (w # acc) ws)"

definition Clean :: "bytes \<Rightarrow> bytes" where
  "Clean p =
     (if p = '''' then ''.''
      else let ws = cleanWords (IsAbs p) [] (splitSep [] p)
           in if IsAbs p then slash # joinSep ws else if ws = [] then ''.'' else joinSep ws)"

definition Dir :: "bytes \<Rightarrow> bytes" where
  "Dir p = Clean (rev (dropWhile (\<lambda>c. c \<noteq> slash) (rev p)))"

definition relWordsOf :: "bytes \<Rightarrow> bytes list" where
  "relWordsOf p = (if p = '''' then [] else if last p = slash then butlast (splitSep [] p) else splitSep [] p)"

fun relWords :: "bytes list \<Rightarrow> bytes list \<Rightarrow> bytes list option" where
  "relWords [] ts = Some ts"
| "relWords (b # bs) [] = Some (map (\<lambda>_. ''..'') (b # bs))"
| "relWords (b # bs) (t # ts) =
     (if t = b then relWords bs ts
      else if b = ''..'' then None
      else Some (map (\<lambda>_. ''..'') (b # bs) @ t # ts))"

definition Rel :: "bytes \<Rightarrow> bytes \<Rightarrow> bytes option" where
  "Rel basepath targpath =
     (let base = Clean basepath; targ = Clean targpath
      in if targ = base then Some ''.''
         else let base = (if base = ''.'' then '''' else base)
              in if IsAbs base \<noteq> IsAbs targ then None
                 else map_option joinSep (relWords (relWordsOf base) (relWordsOf targ)))"

section \<open>\<open>InsideDir\<close>\<close>

definition InsideDir :: "bytes \<Rightarrow> bytes \<Rightarrow> bool" where
  "InsideDir dir parent =
     (case Rel (Clean parent) (Clean dir) of
        None \<Rightarrow> True
      | Some rel \<Rightarrow> rel \<noteq> ''..'' \<and> \<not> has_prefix rel ''../'')"

section \<open>Lemmas\<close>

text \<open>A plain word is one a cleaned absolute path is made of.\<close>

definition plainWord :: "bytes \<Rightarrow> bool" where
  "plainWord w \<longleftrightarrow> w \<notin> {'''', ''.'', ''..''} \<and> slash \<notin> set w"

lemma splitSep_no_sep: "slash \<notin> set w \<Longrightarrow> splitSep cur (w @ ws) = splitSep (cur @ w) ws"
  by (induction w arbitrary: cur) auto

lemma splitSep_words: "slash \<notin> set cur \<Longrightarrow> w \<in> set (splitSep cur p) \<Longrightarrow> slash \<notin> set w"
  by (induction cur p rule: splitSep.induct) (auto split: if_splits)

lemma splitSep_joinSep:
  "ws \<noteq> [] \<Longrightarrow> list_all (\<lambda>w. slash \<notin> set w) ws \<Longrightarrow> splitSep [] (joinSep ws) = ws"
proof (induction ws rule: joinSep.induct)
  case (2 w)
  then show ?case using splitSep_no_sep [of w "[]" "[]"] by simp
next
  case (3 w v ws)
  then show ?case using splitSep_no_sep [of w "[]" "slash # joinSep (v # ws)"] by simp
qed simp

lemma cleanWords_plain:
  "list_all plainWord acc \<Longrightarrow> list_all (\<lambda>w. slash \<notin> set w) ws \<Longrightarrow>
   list_all plainWord (cleanWords True acc ws)"
  by (induction "True" acc ws rule: cleanWords.induct) (auto simp: plainWord_def split: list.splits)

lemma cleanWords_id:
  "list_all plainWord ws \<Longrightarrow> cleanWords rooted acc ws = rev acc @ ws"
  by (induction ws arbitrary: acc) (auto simp: plainWord_def)

text \<open>The words an absolute path names, from the root.\<close>

definition absWords :: "bytes \<Rightarrow> bytes list" where
  "absWords p = cleanWords True [] (splitSep [] p)"

lemma absWords_plain: "list_all plainWord (absWords p)"
  unfolding absWords_def
  using splitSep_words [of "[]" _ p] by (intro cleanWords_plain) (auto simp: list_all_iff)

lemma plain_no_slash: "list_all plainWord ws \<Longrightarrow> list_all (\<lambda>w. slash \<notin> set w) ws"
  by (auto simp: list_all_iff plainWord_def)

lemma Clean_abs: "IsAbs p \<Longrightarrow> Clean p = slash # joinSep (absWords p)"
  by (cases p) (auto simp: Clean_def absWords_def IsAbs_def has_prefix_def)

lemma IsAbs_Cons [simp]: "IsAbs (slash # p)" "\<not> IsAbs ''''" "\<not> IsAbs ''.''"
  by (simp_all add: IsAbs_def has_prefix_def)

lemma cleanWords_words:
  "w \<in> set (cleanWords r acc ws) \<Longrightarrow> \<forall>w \<in> set acc. w \<noteq> [] \<and> slash \<notin> set w \<Longrightarrow>
   \<forall>w \<in> set ws. slash \<notin> set w \<Longrightarrow> w \<noteq> [] \<and> slash \<notin> set w"
  by (induction r acc ws rule: cleanWords.induct) (auto split: if_splits list.splits)

lemma Clean_not_abs:
  assumes "\<not> IsAbs q"
  shows "\<not> IsAbs (Clean q)"
proof -
  let ?ws = "cleanWords False [] (splitSep [] q)"
  have "\<not> IsAbs (joinSep ?ws)"
  proof (cases ?ws)
    case (Cons w ws)
    then have "w \<noteq> [] \<and> slash \<notin> set w"
      using cleanWords_words [of w False "[]" "splitSep [] q"] splitSep_words [of "[]" _ q] by auto
    with Cons show ?thesis by (cases w; cases ws) (auto simp: IsAbs_def has_prefix_def)
  qed simp
  with assms show ?thesis by (auto simp: Clean_def Let_def)
qed

lemma splitSep_Cons_slash [simp]: "splitSep [] (slash # p) = [] # splitSep [] p"
  by simp

lemma absWords_rooted:
  "list_all plainWord ws \<Longrightarrow> absWords (slash # joinSep ws) = ws"
proof (cases "ws = []")
  case False
  assume p: "list_all plainWord ws"
  with False have "splitSep [] (joinSep ws) = ws" by (intro splitSep_joinSep plain_no_slash)
  with p show ?thesis by (simp add: absWords_def cleanWords_id)
qed (simp add: absWords_def)

lemma joinSep_eq_iff:
  assumes "list_all plainWord ws" "list_all plainWord vs"
  shows "joinSep ws = joinSep vs \<longleftrightarrow> ws = vs"
proof
  assume eq: "joinSep ws = joinSep vs"
  show "ws = vs"
    using absWords_rooted [OF assms(1)] absWords_rooted [OF assms(2)] eq by metis
qed simp

lemma joinSep_last:
  "list_all plainWord ws \<Longrightarrow> ws \<noteq> [] \<Longrightarrow> joinSep ws \<noteq> [] \<and> last (joinSep ws) \<noteq> slash"
proof (induction ws rule: joinSep.induct)
  case (2 w)
  then show ?case by (auto simp: plainWord_def dest: last_in_set)
qed auto

lemma relWordsOf_rooted:
  assumes "list_all plainWord ws"
  shows "relWordsOf (slash # joinSep ws) = [] # ws"
proof (cases "ws = []")
  case False
  then show ?thesis
    using joinSep_last [OF assms False] splitSep_joinSep [OF False plain_no_slash [OF assms]]
    by (simp add: relWordsOf_def)
qed (simp add: relWordsOf_def)

lemma joinSep_up:
  assumes "ups \<noteq> []"
  shows "joinSep (map (\<lambda>_. ''..'') ups @ ts) = ''..'' \<or>
         has_prefix (joinSep (map (\<lambda>_. ''..'') ups @ ts)) ''../''"
proof -
  obtain u us where u: "ups = u # us" using assms by (cases ups) auto
  then show ?thesis
    by (cases "map (\<lambda>_. ''..'') us @ ts") (simp_all add: has_prefix_def)
qed

lemma joinSep_down:
  assumes "list_all plainWord ts"
  shows "joinSep ts \<noteq> ''..'' \<and> \<not> has_prefix (joinSep ts) ''../''"
proof (cases ts)
  case (Cons t rest)
  with assms have t: "t \<noteq> ''..''" "slash \<notin> set t" by (auto simp: plainWord_def)
  have "joinSep ts \<noteq> ''../'' @ x" for x
  proof
    assume "joinSep ts = ''../'' @ x"
    moreover have "splitSep [] (joinSep ts) = ts"
      using assms Cons by (intro splitSep_joinSep plain_no_slash) auto
    ultimately show False using t Cons by simp
  qed
  moreover have "joinSep ts \<noteq> ''..''"
  proof
    assume "joinSep ts = ''..''"
    moreover have "splitSep [] (joinSep ts) = ts"
      using assms Cons by (intro splitSep_joinSep plain_no_slash) auto
    ultimately show False using t Cons by simp
  qed
  ultimately show ?thesis by (simp add: has_prefix_iff)
qed (simp add: has_prefix_def)

lemma relWords_cases:
  "list_all plainWord bs \<Longrightarrow>
   (\<exists>ts'. ts = bs @ ts' \<and> relWords bs ts = Some ts')
   \<or> (\<not> prefix bs ts \<and> (\<exists>(ups :: bytes list) ts'. ups \<noteq> [] \<and> relWords bs ts = Some (map (\<lambda>_. ''..'') ups @ ts')))"
proof (induction bs ts rule: relWords.induct)
  case (2 b bs)
  have "\<exists>(ups :: bytes list) ts'. ups \<noteq> [] \<and> relWords (b # bs) [] = Some (map (\<lambda>_. ''..'') ups @ ts')"
    by (rule exI [of _ "b # bs"], rule exI [of _ "[]"]) simp
  then show ?case by (simp del: relWords.simps)
next
  case (3 b bs t ts)
  show ?case
  proof (cases "t = b")
    case True
    with 3 show ?thesis by auto
  next
    case False
    with 3 have "relWords (b # bs) (t # ts) = Some (map (\<lambda>_. ''..'') (b # bs) @ t # ts)"
      by (simp add: plainWord_def)
    then have "(b # bs) \<noteq> [] \<and> relWords (b # bs) (t # ts) = Some (map (\<lambda>_. ''..'') (b # bs) @ t # ts)"
      by simp
    then have "\<exists>(ups :: bytes list) ts'. ups \<noteq> [] \<and> relWords (b # bs) (t # ts) = Some (map (\<lambda>_. ''..'') ups @ ts')"
      by blast
    with False show ?thesis by (simp del: relWords.simps)
  qed
qed simp

lemma InsideDir_iff:
  assumes "IsAbs parent"
  shows "InsideDir dir parent \<longleftrightarrow> \<not> IsAbs dir \<or> prefix (absWords parent) (absWords dir)"
proof -
  let ?b = "slash # joinSep (absWords parent)"
  have b: "Clean parent = ?b" "Clean ?b = ?b"
    using assms absWords_rooted [OF absWords_plain] by (simp_all add: Clean_abs)
  have bne: "?b \<noteq> ''.''" "IsAbs ?b" by simp_all
  show ?thesis
  proof (cases "IsAbs dir")
    case False
    have "\<not> IsAbs (Clean (Clean dir))" using False by (intro Clean_not_abs)
    then have "Rel ?b (Clean dir) = None"
      using bne by (auto simp: Rel_def Let_def b(2))
    with False show ?thesis by (simp add: InsideDir_def b(1))
  next
    case True
    let ?t = "slash # joinSep (absWords dir)"
    have t: "Clean dir = ?t" "Clean ?t = ?t"
      using True absWords_rooted [OF absWords_plain] by (simp_all add: Clean_abs)
    show ?thesis
    proof (cases "absWords dir = absWords parent")
      case True
      then show ?thesis
        using assms by (simp add: InsideDir_def b t Rel_def has_prefix_def)
    next
      case False
      have ne: "?t \<noteq> ?b"
        using joinSep_eq_iff [OF absWords_plain absWords_plain] False by simp
      have rel: "Rel ?b ?t = map_option joinSep (relWords (absWords parent) (absWords dir))"
        using ne by (simp add: Rel_def Let_def b(2) t(2) relWordsOf_rooted absWords_plain)
      have ins: "InsideDir dir parent = (case map_option joinSep (relWords (absWords parent) (absWords dir)) of
          None \<Rightarrow> True | Some rel \<Rightarrow> rel \<noteq> ''..'' \<and> \<not> has_prefix rel ''../'')"
        unfolding InsideDir_def b(1) t(1) rel ..
      show ?thesis
        using relWords_cases [OF absWords_plain [of parent], of "absWords dir"]
      proof (elim disjE exE conjE)
        fix ts' assume "absWords dir = absWords parent @ ts'"
          "relWords (absWords parent) (absWords dir) = Some ts'"
        moreover from this have "list_all plainWord ts'"
          using absWords_plain [of dir] by simp
        ultimately show ?thesis
          using joinSep_down [of ts'] by (simp add: ins)
      next
        fix ups :: "bytes list" and ts' assume "ups \<noteq> []" "\<not> prefix (absWords parent) (absWords dir)"
          "relWords (absWords parent) (absWords dir) = Some (map (\<lambda>_. ''..'') ups @ ts')"
        then show ?thesis
          using joinSep_up [of ups ts'] \<open>IsAbs dir\<close> by (auto simp: ins)
      qed
    qed
  qed
qed

text \<open>
  The containment rule is exact for absolute paths: \<open>InsideDir\<close> answers yes exactly when the
  words of the cleaned parent are a prefix of the words of the cleaned directory, so a sibling
  that merely shares a name prefix is outside and \<^verbatim>\<open>..\<close> cannot escape the check. For a pair of
  which only one is absolute it answers yes, so that the callers reject.
\<close>

theorem InsideDir_exact:
  assumes "IsAbs parent"
  shows "InsideDir dir parent \<longleftrightarrow> \<not> IsAbs dir \<or> prefix (absWords parent) (absWords dir)"
  by (rule InsideDir_iff [OF assms])

theorem InsideDir_exact_witness:
  "InsideDir ''/run/box/../box/a'' ''/run/box/'' \<and> \<not> InsideDir ''/run/boxes'' ''/run/box''"
proof -
  have i: "IsAbs ''/run/box/''" "IsAbs ''/run/box''" by code_simp+
  have p: "prefix (absWords ''/run/box/'') (absWords ''/run/box/../box/a'')"
    "IsAbs ''/run/boxes''" "\<not> prefix (absWords ''/run/box'') (absWords ''/run/boxes'')" by code_simp+
  show ?thesis using InsideDir_exact [OF i(1)] InsideDir_exact [OF i(2)] p by blast
qed

end
