(* ===== verification/Spawn_Graph.thy ===== *)
theory Spawn_Graph
  imports Config_Types "HOL-Library.List_Lexorder" "HOL-Library.Char_ord"
begin

text \<open>
  \<open>spawnCycle\<close> of \<^verbatim>\<open>internal/registry/validate.go\<close>: the depth-first search for a cycle in the
  agent-type spawn graph. The Go maps of agents and workflows are association lists with
  distinct keys; the colour map and the stack the closure shares are the state of the walk. The
  recursion is bounded by fuel; \<open>spawn_search_has_enough_fuel\<close> shows that the fuel
  \<open>spawnCycle\<close> passes is never used up.
\<close>

section \<open>The graph and the walk\<close>

type_synonym agentMap = "(bytes \<times> AgentDef) list"
type_synonym workflowMap = "(bytes \<times> WorkflowDef) list"

fun addSteps :: "Step list \<Rightarrow> bytes list \<Rightarrow> bytes list" where
  "addSteps [] acc = acc"
| "addSteps (s # ss) acc =
     addSteps ss (if List.member acc (spAgent s) then acc else acc @ [spAgent s])"

fun addTargets :: "workflowMap \<Rightarrow> SpawnTarget list \<Rightarrow> bytes list \<Rightarrow> bytes list" where
  "addTargets workflows [] acc = acc"
| "addTargets workflows (t # ts) acc =
     (case map_of workflows (stWorkflow t) of
        None \<Rightarrow> addTargets workflows ts acc
      | Some w \<Rightarrow> addTargets workflows ts (addSteps (wfSteps w) acc))"

definition spawnEdges :: "agentMap \<Rightarrow> workflowMap \<Rightarrow> bytes \<Rightarrow> bytes list" where
  "spawnEdges agents workflows n =
     (case map_of agents n of
        None \<Rightarrow> []
      | Some a \<Rightarrow> sort (addTargets workflows (adMaySpawn a) []))"

datatype colour = White | Grey | Black

record walkState =
  wsColor :: "bytes \<Rightarrow> colour"
  wsStack :: "bytes list"

fun stackFrom :: "bytes list \<Rightarrow> bytes \<Rightarrow> bytes list option" where
  "stackFrom [] m = None"
| "stackFrom (s # ss) m = (if s = m then Some (s # ss) else stackFrom ss m)"

fun spawnWalk ::
  "(bytes \<Rightarrow> bytes list) \<Rightarrow> nat \<Rightarrow> bytes \<Rightarrow> walkState \<Rightarrow> (walkState \<times> bytes list option) option"
and spawnWalkEdges ::
  "(bytes \<Rightarrow> bytes list) \<Rightarrow> nat \<Rightarrow> bytes \<Rightarrow> bytes list \<Rightarrow> walkState \<Rightarrow>
   (walkState \<times> bytes list option) option" where
  "spawnWalk E 0 n st = None"
| "spawnWalk E (Suc k) n st =
     spawnWalkEdges E k n (E n) (st\<lparr>wsColor := (wsColor st)(n := Grey), wsStack := wsStack st @ [n]\<rparr>)"
| "spawnWalkEdges E k n [] st =
     Some (st\<lparr>wsStack := butlast (wsStack st), wsColor := (wsColor st)(n := Black)\<rparr>, None)"
| "spawnWalkEdges E k n (m # ms) st =
     (case wsColor st m of
        Grey \<Rightarrow> (case stackFrom (wsStack st) m of
                   Some c \<Rightarrow> Some (st, Some (c @ [m]))
                 | None \<Rightarrow> spawnWalkEdges E k n ms st)
      | White \<Rightarrow> (case spawnWalk E k m st of
                    None \<Rightarrow> None
                  | Some (st', Some c) \<Rightarrow> Some (st', Some c)
                  | Some (st', None) \<Rightarrow> spawnWalkEdges E k n ms st')
      | Black \<Rightarrow> spawnWalkEdges E k n ms st)"

fun spawnWalkAll ::
  "(bytes \<Rightarrow> bytes list) \<Rightarrow> nat \<Rightarrow> bytes list \<Rightarrow> walkState \<Rightarrow> bytes list option option" where
  "spawnWalkAll E k [] st = Some None"
| "spawnWalkAll E k (n # ns) st =
     (if wsColor st n = White then
        (case spawnWalk E k n st of
           None \<Rightarrow> None
         | Some (st', Some c) \<Rightarrow> Some (Some c)
         | Some (st', None) \<Rightarrow> spawnWalkAll E k ns st')
      else spawnWalkAll E k ns st)"

definition allWhite :: walkState where
  "allWhite = \<lparr>wsColor = (\<lambda>_. White), wsStack = []\<rparr>"

text \<open>Every node the walk can meet: the agents, and the agents some workflow's step names.\<close>

definition spawnNodes :: "agentMap \<Rightarrow> workflowMap \<Rightarrow> bytes list" where
  "spawnNodes agents workflows =
     map fst agents @ concat (map (\<lambda>(_, w). map spAgent (wfSteps w)) workflows)"

definition spawnSearch :: "agentMap \<Rightarrow> workflowMap \<Rightarrow> bytes list option option" where
  "spawnSearch agents workflows =
     spawnWalkAll (spawnEdges agents workflows) (length (spawnNodes agents workflows))
       (sort (map fst agents)) allWhite"

definition spawnCycle :: "agentMap \<Rightarrow> workflowMap \<Rightarrow> bytes list option" where
  "spawnCycle agents workflows =
     (case spawnSearch agents workflows of None \<Rightarrow> None | Some c \<Rightarrow> c)"

section \<open>Searching a graph with finitely many successors\<close>

definition edge :: "(bytes \<Rightarrow> bytes list) \<Rightarrow> bytes rel" where
  "edge E = {(a, b). b \<in> set (E a)}"

definition isCycle :: "(bytes \<Rightarrow> bytes list) \<Rightarrow> bytes list \<Rightarrow> bool" where
  "isCycle E c \<longleftrightarrow> length c \<ge> 2 \<and> hd c = last c \<and> successively (\<lambda>a b. b \<in> set (E a)) c"

definition walkOk :: "(bytes \<Rightarrow> bytes list) \<Rightarrow> walkState \<Rightarrow> bool" where
  "walkOk E st \<longleftrightarrow>
     set (wsStack st) = {x. wsColor st x = Grey} \<and> distinct (wsStack st)
     \<and> successively (\<lambda>a b. b \<in> set (E a)) (wsStack st)
     \<and> (\<forall>b. wsColor st b = Black \<longrightarrow> (\<forall>m \<in> set (E b). wsColor st m = Black))
     \<and> (\<forall>b. wsColor st b = Black \<longrightarrow> (b, b) \<notin> (edge E)\<^sup>+)"

lemma stackFrom_eq: "stackFrom ss m = Some c \<Longrightarrow> \<exists>us. ss = us @ c \<and> c \<noteq> [] \<and> hd c = m"
  by (induction ss) (force split: if_splits)+

lemma stackFrom_None: "stackFrom ss m = None \<Longrightarrow> m \<notin> set ss"
  by (induction ss) (auto split: if_splits)

lemma walkOk_allWhite: "walkOk E allWhite"
  by (simp add: walkOk_def allWhite_def)

lemma closed_trancl:
  assumes "(a, b) \<in> (edge E)\<^sup>+" "P a" "\<And>x y. P x \<Longrightarrow> y \<in> set (E x) \<Longrightarrow> P y"
  shows "P b"
  using assms(1,2) by (induction rule: trancl_induct) (auto simp: edge_def intro: assms(3))

lemma walkOk_push:
  assumes "walkOk E st" "wsColor st n = White" "wsStack st \<noteq> [] \<Longrightarrow> n \<in> set (E (last (wsStack st)))"
  shows "walkOk E (st\<lparr>wsColor := (wsColor st)(n := Grey), wsStack := wsStack st @ [n]\<rparr>)"
proof -
  have black: "(if m = n then Grey else wsColor st m) = Black \<longleftrightarrow> wsColor st m = Black" for m
    using assms(2) by auto
  have "successively (\<lambda>a b. b \<in> set (E a)) (wsStack st @ [n])"
    using assms by (auto simp: walkOk_def successively_append_iff)
  with assms show ?thesis by (auto simp: walkOk_def black)
qed

lemma walkOk_pop:
  assumes ok: "walkOk E st" and n: "wsStack st = s0 @ [n]" and m: "\<forall>m \<in> set (E n). wsColor st m = Black"
  shows "walkOk E (st\<lparr>wsStack := butlast (wsStack st), wsColor := (wsColor st)(n := Black)\<rparr>)"
proof -
  have grey: "wsColor st n = Grey" using ok n by (auto simp: walkOk_def)
  have nc: "(n, n) \<notin> (edge E)\<^sup>+"
  proof
    assume "(n, n) \<in> (edge E)\<^sup>+"
    then obtain y where y: "(n, y) \<in> edge E" "(y, n) \<in> (edge E)\<^sup>*" by (meson tranclD)
    then have "wsColor st y = Black" using m by (auto simp: edge_def)
    with y(2) have "wsColor st n = Black"
      using ok by (induction rule: rtrancl_induct) (auto simp: edge_def walkOk_def)
    with grey show False by simp
  qed
  let ?st = "st\<lparr>wsStack := butlast (wsStack st), wsColor := (wsColor st)(n := Black)\<rparr>"
  have stk: "wsStack ?st = s0" by (simp add: n)
  have colour: "wsColor ?st x = (if x = n then Black else wsColor st x)" for x by simp
  have parts: "set s0 \<union> {n} = {x. wsColor st x = Grey}" "n \<notin> set s0" "distinct s0"
    "successively (\<lambda>a b. b \<in> set (E a)) s0"
    and closed: "\<And>b m. wsColor st b = Black \<Longrightarrow> m \<in> set (E b) \<Longrightarrow> wsColor st m = Black"
    and acyc: "\<And>b. wsColor st b = Black \<Longrightarrow> (b, b) \<notin> (edge E)\<^sup>+"
    using ok n by (auto simp: walkOk_def successively_append_iff)
  have "set s0 = {x. wsColor ?st x = Grey}"
    unfolding colour using parts(1,2) by (auto split: if_splits)
  moreover have "\<forall>b. wsColor ?st b = Black \<longrightarrow> (\<forall>m \<in> set (E b). wsColor ?st m = Black)"
    unfolding colour using closed m by (simp split: if_splits)
  moreover have "\<forall>b. wsColor ?st b = Black \<longrightarrow> (b, b) \<notin> (edge E)\<^sup>+"
    unfolding colour using acyc nc by (simp split: if_splits)
  ultimately show ?thesis unfolding walkOk_def stk using parts(3,4) by blast
qed

definition walkPost ::
  "(bytes \<Rightarrow> bytes list) \<Rightarrow> walkState \<Rightarrow> bytes list \<Rightarrow> bytes \<Rightarrow> walkState \<Rightarrow> bytes list option \<Rightarrow> bool" where
  "walkPost E st s0 n st' r \<longleftrightarrow>
     (case r of
        Some c \<Rightarrow> isCycle E c
      | None \<Rightarrow> walkOk E st' \<and> wsStack st' = s0 \<and> wsColor st' n = Black
          \<and> (\<forall>x. wsColor st x = Black \<longrightarrow> wsColor st' x = Black))"

lemma grey_edge_is_cycle:
  assumes ok: "walkOk E st" and n: "wsStack st = s0 @ [n]" and m: "m \<in> set (E n)"
    and c: "stackFrom (wsStack st) m = Some c"
  shows "isCycle E (c @ [m])"
proof -
  obtain us where us: "wsStack st = us @ c" "c \<noteq> []" "hd c = m" using stackFrom_eq [OF c] by auto
  then have "last c = n" using n by (metis last_appendR last_snoc)
  moreover have "successively (\<lambda>a b. b \<in> set (E a)) c"
    using ok us by (auto simp: walkOk_def successively_append_iff)
  ultimately show ?thesis
    using us m by (auto simp: isCycle_def successively_append_iff Suc_le_eq)
qed

lemma spawnWalk_spec:
  "spawnWalk E k n st = Some (st', r) \<Longrightarrow> walkOk E st \<Longrightarrow> wsColor st n = White \<Longrightarrow>
     (wsStack st \<noteq> [] \<Longrightarrow> n \<in> set (E (last (wsStack st)))) \<Longrightarrow> walkPost E st (wsStack st) n st' r"
  "spawnWalkEdges E k n ms st = Some (st', r) \<Longrightarrow> walkOk E st \<Longrightarrow> wsStack st = s0 @ [n] \<Longrightarrow>
     set ms \<subseteq> set (E n) \<Longrightarrow> \<forall>m \<in> set (E n) - set ms. wsColor st m = Black \<Longrightarrow>
     walkPost E st s0 n st' r"
proof (induction E k n st and E k n ms st arbitrary: st' r and st' r s0 rule: spawnWalk_spawnWalkEdges.induct)
  case (2 E k n st)
  let ?st = "st\<lparr>wsColor := (wsColor st)(n := Grey), wsStack := wsStack st @ [n]\<rparr>"
  have "walkPost E ?st (wsStack st) n st' r"
    using 2(1) [of st' r "wsStack st"] 2(2) walkOk_push [OF 2(3,4,5)] by simp
  moreover have "wsColor ?st x = Black" if "wsColor st x = Black" for x
    using that 2(4) by auto
  ultimately show ?case by (auto simp: walkPost_def split: option.splits)
next
  case (3 E k n st)
  have "walkOk E (st\<lparr>wsStack := butlast (wsStack st), wsColor := (wsColor st)(n := Black)\<rparr>)"
    using 3 by (intro walkOk_pop [of E st s0 n]) auto
  with 3 show ?case by (auto simp: walkPost_def)
next
  case (4 E k n m ms st)
  note ok = 4(6) and stk = 4(7) and sub = 4(8) and finished = 4(9)
  have lift: "walkPost E st s0 n st' r"
    if "walkPost E st1 s0 n st' r" "\<forall>x. wsColor st x = Black \<longrightarrow> wsColor st1 x = Black" for st1
    using that by (simp add: walkPost_def split: option.splits)
  have rest: "\<forall>x \<in> set (E n) - set ms. wsColor st1 x = Black"
    if "wsColor st1 m = Black" "\<forall>x. wsColor st x = Black \<longrightarrow> wsColor st1 x = Black" for st1 :: walkState
  proof
    fix x assume "x \<in> set (E n) - set ms"
    with that finished show "wsColor st1 x = Black" by (cases "x = m") simp_all
  qed
  have subms: "set ms \<subseteq> set (E n)" using sub by simp
  show ?case
  proof (cases "wsColor st m")
    case White
    then obtain st1 r1 where w: "spawnWalk E k m st = Some (st1, r1)"
      using 4(5) by (auto split: option.splits)
    have "walkPost E st (wsStack st) m st1 r1"
      using 4(1) [OF White w ok White] sub stk by simp
    note post = this [unfolded walkPost_def stk]
    show ?thesis
    proof (cases r1)
      case None
      with post have st1: "walkOk E st1" "wsStack st1 = s0 @ [n]" "wsColor st1 m = Black"
        "\<forall>x. wsColor st x = Black \<longrightarrow> wsColor st1 x = Black" by simp_all
      have "spawnWalkEdges E k n ms st1 = Some (st', r)" using 4(5) White w None by simp
      from 4(2) [OF White w refl None this st1(1,2) subms rest [OF st1(3,4)]]
      show ?thesis using st1(4) by (rule lift)
    next
      case (Some c)
      with White w 4(5) have "r = Some c" by simp
      with post Some show ?thesis by (simp add: walkPost_def)
    qed
  next
    case Grey
    then have "stackFrom (wsStack st) m \<noteq> None"
      using stackFrom_None [of "wsStack st" m] ok by (auto simp: walkOk_def)
    then obtain c where c: "stackFrom (wsStack st) m = Some c" by blast
    with Grey 4(5) have "r = Some (c @ [m])" by auto
    with grey_edge_is_cycle [OF ok stk _ c] sub show ?thesis by (simp add: walkPost_def)
  next
    case Black
    then have "spawnWalkEdges E k n ms st = Some (st', r)" using 4(5) by simp
    from 4(4) [OF Black this ok stk subms] show ?thesis using rest [of st] Black by simp
  qed
qed auto

lemma spawnWalk_mono:
  "spawnWalk E k n st = Some (st', r) \<Longrightarrow> wsColor st' x = White \<Longrightarrow> wsColor st x = White \<and> x \<noteq> n"
  "spawnWalkEdges E k n ms st = Some (st', r) \<Longrightarrow> wsColor st' x = White \<Longrightarrow> wsColor st x = White"
proof (induction E k n st and E k n ms st arbitrary: st' r and st' r rule: spawnWalk_spawnWalkEdges.induct)
  case (2 E k n st)
  from 2(1) [of st' r] 2(2,3) show ?case by (simp split: if_splits)
next
  case (3 E k n st)
  then show ?case by (auto split: if_splits)
next
  case (4 E k n m ms st)
  show ?case
  proof (cases "wsColor st m")
    case White
    then obtain st1 r1 where w: "spawnWalk E k m st = Some (st1, r1)"
      using 4(5) by (auto split: option.splits)
    show ?thesis
    proof (cases r1)
      case None
      have "spawnWalkEdges E k n ms st1 = Some (st', r)" using 4(5) White w None by simp
      then have "wsColor st1 x = White" using 4(2) [OF White w refl None] 4(6) by blast
      then show ?thesis using 4(1) [OF White w] by blast
    next
      case (Some c)
      with White w 4(5,6) have "wsColor st1 x = White" by simp
      then show ?thesis using 4(1) [OF White w] by blast
    qed
  next
    case Grey
    with 4 show ?thesis by (auto split: option.splits)
  next
    case Black
    with 4 show ?thesis by auto
  qed
qed auto

text \<open>
  The graph the walk is promised: finitely many nodes, closed under successors. Under that
  contract the walk never runs out of fuel.
\<close>

locale successor_graph =
  fixes E :: "bytes \<Rightarrow> bytes list" and U :: "bytes set"
  assumes finite_nodes: "finite U"
    and successors: "m \<in> set (E n) \<Longrightarrow> m \<in> U"
begin

definition whites :: "walkState \<Rightarrow> nat" where
  "whites st = card {x \<in> U. wsColor st x = White}"

lemma whites_mono:
  assumes "\<And>x. wsColor st' x = White \<Longrightarrow> wsColor st x = White"
  shows "whites st' \<le> whites st"
  unfolding whites_def by (rule card_mono) (auto simp: finite_nodes assms)

lemma whites_push:
  assumes "n \<in> U" "wsColor st n = White"
  shows "whites (st\<lparr>wsColor := (wsColor st)(n := Grey), wsStack := ss\<rparr>) < whites st"
proof -
  have "{x \<in> U. (if x = n then Grey else wsColor st x) = White} \<subset> {x \<in> U. wsColor st x = White}"
    using assms by (auto split: if_splits)
  then show ?thesis unfolding whites_def using finite_nodes by (simp add: psubset_card_mono)
qed

lemma walk_returns:
  "F = E \<Longrightarrow> n \<in> U \<Longrightarrow> wsColor st n = White \<Longrightarrow> whites st \<le> k \<Longrightarrow> spawnWalk F k n st \<noteq> None"
  "F = E \<Longrightarrow> set ms \<subseteq> U \<Longrightarrow> whites st \<le> k \<Longrightarrow> spawnWalkEdges F k n ms st \<noteq> None"
proof (induction F k n st and F k n ms st rule: spawnWalk_spawnWalkEdges.induct)
  case (1 E' n st)
  then have "{x \<in> U. wsColor st x = White} = {}" using finite_nodes by (simp add: whites_def)
  with 1 show ?case by blast
next
  case (2 E' k n st)
  then show ?case using whites_push [of n st "wsStack st @ [n]"] successors [of _ n] by auto
next
  case (4 E' k n m ms st)
  show ?case
  proof (cases "wsColor st m")
    case White
    then obtain st1 r1 where w: "spawnWalk E' k m st = Some (st1, r1)"
      using 4(1) [OF White] 4(5,6,7) by fastforce
    have "whites st1 \<le> k"
      using whites_mono [of st1 st] spawnWalk_mono(1) [OF w] 4(7) by fastforce
    with 4(2) [OF White w refl] 4(5,6) White w show ?thesis by (cases r1) auto
  next
    case Grey
    with 4(3) 4(5,6,7) show ?thesis by (auto split: option.splits)
  next
    case Black
    with 4(4) 4(5,6,7) show ?thesis by auto
  qed
qed simp

lemma walkAll_returns:
  "set ns \<subseteq> U \<Longrightarrow> whites st \<le> k \<Longrightarrow> spawnWalkAll E k ns st \<noteq> None"
proof (induction ns arbitrary: st)
  case (Cons n ns)
  show ?case
  proof (cases "wsColor st n = White")
    case True
    then obtain st1 r1 where w: "spawnWalk E k n st = Some (st1, r1)"
      using walk_returns(1) [OF refl, of n st k] Cons.prems by fastforce
    have "whites st1 \<le> k"
      using whites_mono [of st1 st] spawnWalk_mono(1) [OF w] Cons.prems by fastforce
    with True w Cons show ?thesis by (cases r1) auto
  next
    case False
    with Cons show ?thesis by auto
  qed
qed simp

end

lemma spawnWalkAll_spec:
  "spawnWalkAll E k ns st = Some r \<Longrightarrow> walkOk E st \<Longrightarrow> wsStack st = [] \<Longrightarrow>
   case r of Some c \<Rightarrow> isCycle E c
   | None \<Rightarrow> (\<forall>x. x \<in> set ns \<or> wsColor st x = Black \<longrightarrow> (x, x) \<notin> (edge E)\<^sup>+)"
proof (induction ns arbitrary: st)
  case Nil
  then show ?case by (auto simp: walkOk_def)
next
  case (Cons n ns)
  show ?case
  proof (cases "wsColor st n = White")
    case True
    with Cons.prems obtain st1 r1 where w: "spawnWalk E k n st = Some (st1, r1)"
      by (auto split: option.splits)
    have post: "walkPost E st [] n st1 r1"
      using spawnWalk_spec(1) [OF w Cons.prems(2) True] Cons.prems(3) by simp
    show ?thesis
    proof (cases r1)
      case None
      with Cons.prems True w have "spawnWalkAll E k ns st1 = Some r" by simp
      from Cons.IH [OF this] post None show ?thesis
        by (cases r) (auto simp: walkPost_def)
    next
      case (Some c)
      with Cons.prems True w have "r = Some c" by simp
      with post Some show ?thesis by (simp add: walkPost_def)
    qed
  next
    case False
    then have "wsColor st n = Black"
      using Cons.prems(2,3) by (cases "wsColor st n") (auto simp: walkOk_def)
    with False Cons.prems Cons.IH [of st] show ?thesis by (cases r) auto
  qed
qed

section \<open>The spawn graph\<close>

lemma set_addSteps [simp]: "set (addSteps ss acc) = set acc \<union> spAgent ` set ss"
  by (induction ss arbitrary: acc) auto

lemma set_addTargets:
  "y \<in> set (addTargets workflows ts acc) \<longleftrightarrow>
     y \<in> set acc \<or> (\<exists>t \<in> set ts. \<exists>w. map_of workflows (stWorkflow t) = Some w \<and> y \<in> spAgent ` set (wfSteps w))"
  by (induction ts arbitrary: acc) (auto split: option.splits)

text \<open>The relation the check is about: an agent may cause a run in which another one acts.\<close>

definition maySpawnRel :: "agentMap \<Rightarrow> workflowMap \<Rightarrow> bytes rel" where
  "maySpawnRel agents workflows =
     {(x, y). \<exists>a t w s. map_of agents x = Some a \<and> t \<in> set (adMaySpawn a)
        \<and> map_of workflows (stWorkflow t) = Some w \<and> s \<in> set (wfSteps w) \<and> y = spAgent s}"

lemma spawnEdges_iff: "y \<in> set (spawnEdges agents workflows x) \<longleftrightarrow> (x, y) \<in> maySpawnRel agents workflows"
proof (cases "map_of agents x")
  case (Some a)
  then show ?thesis
    unfolding maySpawnRel_def spawnEdges_def by (simp add: set_addTargets image_iff) blast
qed (simp add: maySpawnRel_def spawnEdges_def)

lemma edge_spawnEdges: "edge (spawnEdges agents workflows) = maySpawnRel agents workflows"
  by (auto simp: edge_def spawnEdges_iff)

interpretation spawnGraph: successor_graph "spawnEdges agents workflows" "set (spawnNodes agents workflows)"
  for agents workflows
proof
  fix m n assume "m \<in> set (spawnEdges agents workflows n)"
  then have "(n, m) \<in> maySpawnRel agents workflows" by (simp add: edge_spawnEdges [symmetric] edge_def)
  then show "m \<in> set (spawnNodes agents workflows)"
    by (force simp: maySpawnRel_def spawnNodes_def dest!: map_of_SomeD)
qed simp

lemma spawnSearch_returns: "spawnSearch agents workflows = Some (spawnCycle agents workflows)"
proof -
  have "card {x \<in> set (spawnNodes agents workflows). wsColor allWhite x = White}
      \<le> length (spawnNodes agents workflows)"
    by (simp add: allWhite_def card_length)
  then have "spawnGraph.whites agents workflows allWhite \<le> length (spawnNodes agents workflows)"
    unfolding spawnGraph.whites_def .
  then have "spawnSearch agents workflows \<noteq> None"
    unfolding spawnSearch_def by (intro spawnGraph.walkAll_returns) (auto simp: spawnNodes_def)
  then show ?thesis by (auto simp: spawnCycle_def)
qed

lemma spawnCycle_spec:
  "case spawnCycle agents workflows of
     Some c \<Rightarrow> isCycle (spawnEdges agents workflows) c
   | None \<Rightarrow> \<forall>x \<in> fst ` set agents. (x, x) \<notin> (maySpawnRel agents workflows)\<^sup>+"
  using spawnWalkAll_spec [OF spawnSearch_returns [of agents workflows, unfolded spawnSearch_def] walkOk_allWhite]
  by (simp add: allWhite_def edge_spawnEdges split: option.splits)

lemma maySpawn_source:
  "(x, y) \<in> (maySpawnRel agents workflows)\<^sup>+ \<Longrightarrow> x \<in> fst ` set agents"
  by (auto dest!: tranclD map_of_SomeD simp: maySpawnRel_def) force

section \<open>Properties\<close>

text \<open>
  The cycle search always answers: on every set of agents and workflows, dangling
  references included, the walk ends within as many nested calls as there are nodes.
\<close>

theorem spawn_search_has_enough_fuel:
  "\<exists>r. spawnSearch agents workflows = Some r"
  using spawnSearch_returns by blast

text \<open>
  C24: the static check is sound and complete. A path is reported exactly when the spawn relation
  (an agent may start a workflow one of whose steps another agent runs) has a cycle, and what is
  reported is one: a closed walk along spawn edges.
\<close>

theorem spawnCycle_exact:
  "(spawnCycle agents workflows = None \<longleftrightarrow> acyclic (maySpawnRel agents workflows))
   \<and> list_all (isCycle (spawnEdges agents workflows)) (case spawnCycle agents workflows of None \<Rightarrow> [] | Some c \<Rightarrow> [c])"
proof -
  have cyc: "\<not> acyclic (maySpawnRel agents workflows)" if "isCycle (spawnEdges agents workflows) c" for c
  proof -
    have walk: "(hd c, last c) \<in> (edge E)\<^sup>+" if "successively (\<lambda>a b. b \<in> set (E a)) c" "length c \<ge> 2"
      for E c using that
    proof (induction c rule: induct_list012)
      case (3 x y zs)
      then show ?case by (cases zs) (auto simp: edge_def intro: trancl_into_trancl2)
    qed auto
    show ?thesis
      using walk [of "spawnEdges agents workflows" c] that
      by (auto simp: acyclic_def isCycle_def edge_spawnEdges)
  qed
  show ?thesis
  proof (cases "spawnCycle agents workflows")
    case None
    then show ?thesis using spawnCycle_spec [of agents workflows] by (auto simp: acyclic_def dest: maySpawn_source)
  next
    case (Some c)
    then show ?thesis using spawnCycle_spec [of agents workflows] cyc [of c] by simp
  qed
qed

end
