(* ===== verification/Registry.thy ===== *)
theory Registry
  imports Authz Paths Spawn_Graph
begin

text \<open>
  Package \<^verbatim>\<open>internal/registry\<close>: \<open>Validate\<close> (\<^verbatim>\<open>validate.go\<close>), which decides whether a
  configuration may be applied, and \<open>Build\<close> with the lookups of \<^verbatim>\<open>registry.go\<close>, the view the
  engine runs from. Of an error's message the values put into it are kept and the fixed text is
  not. A Go map is an association list with distinct keys; the gateway's map of tool resources is
  the list in the order the range statement visits it. \<^verbatim>\<open>url.Parse\<close> is an argument that returns
  the scheme and the host name, or \<^const>\<open>None\<close> for its error.
\<close>

section \<open>Errors and endpoints\<close>

record ValidationError =
  veFile :: bytes
  veEntity :: bytes
  veCode :: bytes
  veArgs :: "bytes list"

definition verr :: "bytes \<Rightarrow> bytes \<Rightarrow> bytes \<Rightarrow> bytes list \<Rightarrow> ValidationError list" where
  "verr srcFile entity code args =
     [\<lparr>veFile = srcFile, veEntity = entity, veCode = code, veArgs = args\<rparr>]"

definition vif :: "bool \<Rightarrow> ValidationError list \<Rightarrow> ValidationError list" where
  "vif b es = (if b then es else [])"

type_synonym url_parser = "bytes \<Rightarrow> (bytes \<times> bytes) option"

definition validSecureEndpoint :: "url_parser \<Rightarrow> bytes \<Rightarrow> bool" where
  "validSecureEndpoint urlParse s =
     (if s = '''' then False
      else case urlParse s of
             None \<Rightarrow> False
           | Some (scheme, host) \<Rightarrow>
               if scheme = ''https'' then True
               else if scheme = ''http'' then host = ''localhost'' \<or> host = ''127.0.0.1'' \<or> host = ''::1''
               else False)"

definition validSecureOrUnixEndpoint :: "url_parser \<Rightarrow> bytes \<Rightarrow> bool" where
  "validSecureOrUnixEndpoint urlParse s =
     (if has_prefix s UnixScheme then IsAbs (drop (length UnixScheme) s)
      else validSecureEndpoint urlParse s)"

definition trimUnixScheme :: "bytes \<Rightarrow> bytes" where
  "trimUnixScheme s = (if has_prefix s UnixScheme then drop (length UnixScheme) s else s)"

section \<open>Agents\<close>

definition tierErrors :: "url_parser \<Rightarrow> AgentDef \<Rightarrow> ValidationError list" where
  "tierErrors urlParse a =
     (let bad = verr (adSourceFile a) (adName a)
      in (if adExecution a = ''contained'' then bad ''bad-execution'' []
          else if adExecution a \<noteq> '''' \<and> adExecution a \<noteq> ''fronted''
          then bad ''bad-execution'' [adExecution a] else [])
         @ (if adEndpoint a = '''' then bad ''fronted-needs-endpoint'' []
            else if \<not> validSecureOrUnixEndpoint urlParse (adEndpoint a) then bad ''bad-endpoint'' []
            else []))"

text \<open>
  The shape checks of one grant, each of which ends the loop body; \<^const>\<open>None\<close> when the grant
  passes them all.
\<close>

definition grantShapeError :: "AgentDef \<Rightarrow> ToolGrant \<Rightarrow> ValidationError list option" where
  "grantShapeError a g =
     (let bad = (\<lambda>args. Some (verr (adSourceFile a) (adName a) ''bad-tool-grant'' args))
      in if tgResource g = '''' then bad []
         else if tgTools g = [] \<and> tgMode g = '''' then bad [tgResource g]
         else if tgMode g = ''all'' then bad [tgResource g]
         else if tgMode g \<notin> {'''', ''read-only'', ''read-write''} then bad [tgResource g, tgMode g]
         else if tgTools g = [] then bad [tgResource g]
         else if ''*'' \<in> set (tgTools g) \<and> length (tgTools g) \<noteq> 1 then bad [tgResource g]
         else if tgMode g = '''' then bad [tgResource g]
         else None)"

record granted =
  grantedAll :: "bytes list"
  grantedLimited :: "bytes list"

definition grantRestErrors ::
  "GatewayConfig \<Rightarrow> AgentDef \<Rightarrow> granted \<Rightarrow> ToolGrant \<Rightarrow> ValidationError list" where
  "grantRestErrors gw a seen g =
     (let bad = verr (adSourceFile a) (adName a) ''bad-tool-grant'';
          res = map_of (gwTools gw) (tgResource g)
      in vif (res = None) (verr (adSourceFile a) (adName a) ''unknown-tool'' [tgResource g])
         @ vif (\<not> AllTools g) (concat (map (\<lambda>name. vif (name = '''') (bad [tgResource g])) (tgTools g)))
         @ (case res of
              None \<Rightarrow> []
            | Some r \<Rightarrow>
                if \<not> ReadOnly g then []
                else if trReadOnlyTools r = [] then bad [tgResource g]
                else if \<not> AllTools g
                then concat (map (\<lambda>name. vif (name \<noteq> '''' \<and> \<not> List.member (trReadOnlyTools r) name)
                                     (bad [tgResource g, name])) (tgTools g))
                else [])
         @ vif ((List.member (grantedAll seen) (tgResource g) \<or> List.member (grantedLimited seen) (tgResource g))
               \<and> (\<not> EveryToolReadWrite g \<or> List.member (grantedLimited seen) (tgResource g)))
             (bad [tgResource g]))"

definition recordGrant :: "granted \<Rightarrow> ToolGrant \<Rightarrow> granted" where
  "recordGrant seen g =
     (if EveryToolReadWrite g then seen\<lparr>grantedAll := tgResource g # grantedAll seen\<rparr>
      else seen\<lparr>grantedLimited := tgResource g # grantedLimited seen\<rparr>)"

fun grantErrors :: "GatewayConfig \<Rightarrow> AgentDef \<Rightarrow> granted \<Rightarrow> ToolGrant list \<Rightarrow> ValidationError list" where
  "grantErrors gw a seen [] = []"
| "grantErrors gw a seen (g # gs) =
     (case grantShapeError a g of
        Some es \<Rightarrow> es @ grantErrors gw a seen gs
      | None \<Rightarrow> grantRestErrors gw a seen g @ grantErrors gw a (recordGrant seen g) gs)"

definition execErrors :: "url_parser \<Rightarrow> GatewayConfig \<Rightarrow> AgentDef \<Rightarrow> ValidationError list" where
  "execErrors urlParse gw a =
     (let e = adExec a;
          bad = verr (adSourceFile a) (adName a) ''bad-exec-config''
      in vif (Declared e)
          (vif (EffectiveExecution a \<noteq> ''fronted'') (bad [])
           @ (if ecRuntime e = ''refexec'' then []
              else if ecRuntime e = '''' then bad []
              else bad [ecRuntime e])
           @ vif (\<not> has_prefix (ecURL e) UnixScheme \<or> \<not> validSecureOrUnixEndpoint urlParse (ecURL e)) (bad [])
           @ vif (ecTimeout e < second) (bad [])
           @ vif (gwRefboxSocketDir gw \<noteq> '''' \<and> has_prefix (ecURL e) UnixScheme
                  \<and> InsideDir (Dir (trimUnixScheme (ecURL e))) (gwRefboxSocketDir gw)) (bad [])
           @ vif (ecAllow e = []) (bad [])
           @ concat (map (\<lambda>x. vif (eeExe x = '''') (bad [])) (ecAllow e))))"

definition agentErrors :: "url_parser \<Rightarrow> GatewayConfig \<Rightarrow> AgentDef \<Rightarrow> ValidationError list" where
  "agentErrors urlParse gw a =
     tierErrors urlParse a
     @ grantErrors gw a \<lparr>grantedAll = [], grantedLimited = []\<rparr> (adTools a)
     @ execErrors urlParse gw a"

fun validateAgents ::
  "url_parser \<Rightarrow> GatewayConfig \<Rightarrow> agentMap \<Rightarrow> AgentDef list \<Rightarrow> agentMap \<times> ValidationError list" where
  "validateAgents urlParse gw agents [] = (agents, [])"
| "validateAgents urlParse gw agents (a # as) =
     (let (agents', es) =
        (if adName a = '''' then (agents, verr (adSourceFile a) ''(agent)'' ''missing-name'' [])
         else if map_of agents (adName a) \<noteq> None
         then (agents, verr (adSourceFile a) (adName a) ''duplicate-name'' [])
         else (agents @ [(adName a, a)], agentErrors urlParse gw a));
          (agents'', es') = validateAgents urlParse gw agents' as
      in (agents'', es @ es'))"

section \<open>Gateway tool resources\<close>

fun readOnlyListBad :: "bytes list \<Rightarrow> bytes list \<Rightarrow> bool" where
  "readOnlyListBad seen [] = False"
| "readOnlyListBad seen (name # names) =
     (if name = '''' \<or> List.member seen name then True else readOnlyListBad (name # seen) names)"

definition grantTypeErrors :: "url_parser \<Rightarrow> bytes \<Rightarrow> ToolResource \<Rightarrow> ValidationError list" where
  "grantTypeErrors urlParse rid r =
     (let bad = verr ''gateway.yaml'' rid ''bad-tool-resource''
      in if trGrantType r = '''' then vif (trTokenEnv r = '''') (bad [rid])
         else if trGrantType r = ''client_credentials'' then
           vif (trClientAuth r \<noteq> ''client_secret_basic'') (bad [rid, trClientAuth r])
           @ vif (trIssuer r = '''') (bad [rid])
           @ vif (trClientIDEnv r = '''') (bad [rid])
           @ vif (trClientSecretEnv r = '''') (bad [rid])
           @ vif (\<not> validSecureEndpoint urlParse (trTokenEndpoint r)) (bad [rid])
         else if trGrantType r = ''token_exchange'' then
           vif (trClientAuth r \<noteq> ''client_secret_basic'') (bad [rid, trClientAuth r])
           @ vif (trAudience r = '''') (bad [rid])
           @ vif (trClientIDEnv r = '''') (bad [rid])
           @ vif (trClientSecretEnv r = '''') (bad [rid])
           @ vif (\<not> validSecureEndpoint urlParse (trTokenEndpoint r)) (bad [rid])
           @ vif (trTokenEnv r \<noteq> '''') (bad [rid])
           @ vif (trIssuer r \<noteq> '''') (bad [rid])
         else bad [rid, trGrantType r])"

definition toolErrors :: "url_parser \<Rightarrow> bytes \<times> ToolResource \<Rightarrow> ValidationError list" where
  "toolErrors urlParse = (\<lambda>(rid, r).
     (let bad = verr ''gateway.yaml'' rid ''bad-tool-resource''
      in vif (trKind r \<noteq> ''mcp'') (bad [rid])
         @ vif (\<not> validSecureOrUnixEndpoint urlParse (trURL r)) (bad [rid])
         @ (if trRuntime r = '''' then []
            else if trRuntime r = ''refbridge'' then vif (\<not> has_prefix (trURL r) UnixScheme) (bad [rid])
            else bad [rid, trRuntime r])
         @ vif (trCredentialSource r \<noteq> ''static_env'') (bad [rid, trCredentialSource r])
         @ grantTypeErrors urlParse rid r
         @ vif (trGrantType r \<noteq> ''token_exchange'' \<and> trAudience r \<noteq> '''') (bad [rid])
         @ vif (readOnlyListBad [] (trReadOnlyTools r)) (bad [rid])))"

section \<open>Workflows\<close>

text \<open>The index of a step name: a repeated name keeps the position of its last step.\<close>

fun indexSteps :: "nat \<Rightarrow> Step list \<Rightarrow> (bytes \<rightharpoonup> nat) \<Rightarrow> (bytes \<rightharpoonup> nat)" where
  "indexSteps i [] index = index"
| "indexSteps i (s # ss) index = indexSteps (i + 1) ss (index(spName s \<mapsto> i))"

definition stepErrors ::
  "agentMap \<Rightarrow> WorkflowDef \<Rightarrow> (bytes \<rightharpoonup> nat) \<Rightarrow> nat \<Rightarrow> Step \<Rightarrow> ValidationError list" where
  "stepErrors agents w index i s =
     (let add = verr (wfSourceFile w) (wfName w)
      in (case map_of agents (spAgent s) of
            None \<Rightarrow> add ''dangling-agent-ref'' [spName s, spAgent s]
          | Some a \<Rightarrow> vif (\<not> IsEnabled a) (add ''disabled-agent-ref'' [wfName w, spAgent s]))
         @ vif (spMaxBounces s < 0 \<or> spMaxBounces s > 10) (add ''bad-bounces'' [spName s])
         @ vif (spOnSuccess s \<noteq> '''' \<and> (i \<noteq> length (wfSteps w) - 1 \<or> spOnSuccess s \<noteq> ''finish'')
                \<and> index (spOnSuccess s) \<noteq> Some (i + 1)) (add ''bad-graph'' [spName s])
         @ vif (spOnFailure s \<noteq> ''''
                \<and> (case index (spOnFailure s) of None \<Rightarrow> True | Some j \<Rightarrow> j \<ge> i)) (add ''bad-graph'' [spName s]))"

fun stepsErrors ::
  "agentMap \<Rightarrow> WorkflowDef \<Rightarrow> (bytes \<rightharpoonup> nat) \<Rightarrow> nat \<Rightarrow> Step list \<Rightarrow> ValidationError list" where
  "stepsErrors agents w index i [] = []"
| "stepsErrors agents w index i (s # ss) =
     stepErrors agents w index i s @ stepsErrors agents w index (i + 1) ss"

definition workflowErrors :: "agentMap \<Rightarrow> WorkflowDef \<Rightarrow> ValidationError list" where
  "workflowErrors agents w =
     (if wfSteps w = [] then verr (wfSourceFile w) (wfName w) ''no-steps'' []
      else stepsErrors agents w (indexSteps 0 (wfSteps w) Map.empty) 0 (wfSteps w))"

fun validateWorkflows ::
  "agentMap \<Rightarrow> workflowMap \<Rightarrow> WorkflowDef list \<Rightarrow> workflowMap \<times> ValidationError list" where
  "validateWorkflows agents workflows [] = (workflows, [])"
| "validateWorkflows agents workflows (w # ws) =
     (let (workflows', es) =
        (if wfName w = '''' then (workflows, verr (wfSourceFile w) ''(workflow)'' ''missing-name'' [])
         else if map_of workflows (wfName w) \<noteq> None
         then (workflows, verr (wfSourceFile w) (wfName w) ''duplicate-name'' [])
         else (workflows @ [(wfName w, w)], workflowErrors agents w));
          (workflows'', es') = validateWorkflows agents workflows' ws
      in (workflows'', es @ es'))"

section \<open>Roles\<close>

type_synonym roleMap = "(bytes \<times> RoleDef) list"

definition roleErrors :: "workflowMap \<Rightarrow> RoleDef \<Rightarrow> ValidationError list" where
  "roleErrors workflows r =
     (let add = verr (rdSourceFile r) (rdName r)
      in vif (rdWorkflows r = [] \<and> controlList r = []) (add ''no-capability'' [])
         @ vif (rdControl r \<noteq> None \<and> controlList r = []) (add ''control-empty'' [])
         @ concat (map (\<lambda>op. vif (\<not> KnownControlOp op) (add ''control-bad-op'' [op])) (controlList r))
         @ vif (controlList r \<noteq> [] \<and> List.member (rdAllowedGroups r) ''*'') (add ''public-control-role'' [])
         @ vif (rdAllowedGroups r = []) (add ''no-access-floor'' [])
         @ concat (map (\<lambda>w. vif (map_of workflows w = None) (add ''dangling-workflow-ref'' [w])) (rdWorkflows r)))"

fun validateRoles :: "workflowMap \<Rightarrow> roleMap \<Rightarrow> RoleDef list \<Rightarrow> roleMap \<times> ValidationError list" where
  "validateRoles workflows roles [] = (roles, [])"
| "validateRoles workflows roles (r # rs) =
     (let (roles', es) =
        (if rdName r = '''' then (roles, verr (rdSourceFile r) ''(role)'' ''missing-name'' [])
         else if map_of roles (rdName r) \<noteq> None
         then (roles, verr (rdSourceFile r) (rdName r) ''duplicate-name'' [])
         else (roles @ [(rdName r, r)], roleErrors workflows r));
          (roles'', es') = validateRoles workflows roles' rs
      in (roles'', es @ es'))"

section \<open>Spawning and the gateway's own settings\<close>

fun spawnTargetErrors ::
  "workflowMap \<Rightarrow> roleMap \<Rightarrow> AgentDef \<Rightarrow> SpawnTarget list \<Rightarrow> SpawnTarget list \<Rightarrow> ValidationError list" where
  "spawnTargetErrors workflows roles a seen [] = []"
| "spawnTargetErrors workflows roles a seen (t # ts) =
     (let bad = verr (adSourceFile a) (adName a) ''bad-spawn-target''
      in if stRole t = '''' \<or> stWorkflow t = '''' then bad [] @ spawnTargetErrors workflows roles a seen ts
         else if List.member seen t
         then bad [stRole t, stWorkflow t] @ spawnTargetErrors workflows roles a seen ts
         else
           (case map_of roles (stRole t) of
              None \<Rightarrow> bad [stRole t]
            | Some ro \<Rightarrow>
                if map_of workflows (stWorkflow t) = None then bad [stWorkflow t]
                else vif (\<not> List.member (rdWorkflows ro) (stWorkflow t)) (bad [stRole t, stWorkflow t]))
           @ spawnTargetErrors workflows roles a (t # seen) ts)"

definition spawnDeclared :: "AgentDef list \<Rightarrow> bool" where
  "spawnDeclared as = list_ex (\<lambda>a. adName a \<noteq> '''' \<and> adMaySpawn a \<noteq> []) as"

definition spawnErrors :: "workflowMap \<Rightarrow> roleMap \<Rightarrow> AgentDef list \<Rightarrow> ValidationError list" where
  "spawnErrors workflows roles as =
     concat (map (\<lambda>a. vif (adName a \<noteq> '''') (spawnTargetErrors workflows roles a [] (adMaySpawn a))) as)"

definition capErrors :: "bool \<Rightarrow> bytes \<times> int \<Rightarrow> ValidationError list" where
  "capErrors declared = (\<lambda>(key, val).
     if val < 0 then verr ''gateway.yaml'' ''spawn'' ''bad-spawn-policy'' [key]
     else vif (val = 0 \<and> declared) (verr ''gateway.yaml'' ''spawn'' ''spawn-policy-required'' [key]))"

definition supervisorErrors :: "url_parser \<Rightarrow> GatewayConfig \<Rightarrow> bool \<Rightarrow> ValidationError list" where
  "supervisorErrors urlParse gw declared =
     (let sup = gwSpawnSupervisor gw;
          add = verr ''gateway.yaml'' ''spawn_supervisor''
      in if sup = '''' \<and> declared then add ''spawn-supervisor-required'' []
         else if sup \<noteq> '''' \<and> (\<not> has_prefix sup UnixScheme \<or> \<not> validSecureOrUnixEndpoint urlParse sup)
         then add ''bad-spawn-supervisor'' []
         else vif (sup \<noteq> '''' \<and> gwRefboxSocketDir gw \<noteq> ''''
                   \<and> InsideDir (Dir (trimUnixScheme sup)) (gwRefboxSocketDir gw)) (add ''bad-spawn-supervisor'' []))"

definition gatewayErrors ::
  "url_parser \<Rightarrow> GatewayConfig \<Rightarrow> bool \<Rightarrow> agentMap \<Rightarrow> workflowMap \<Rightarrow> ValidationError list" where
  "gatewayErrors urlParse gw declared agents workflows =
     concat (map (capErrors declared)
       [(''max_depth'', polMaxDepth (gwSpawn gw)), (''max_parallel'', polMaxParallel (gwSpawn gw)),
        (''max_total_spawns'', polMaxTotalSpawns (gwSpawn gw))])
     @ vif (gwRefboxSocketDir gw \<noteq> '''' \<and> \<not> IsAbs (gwRefboxSocketDir gw))
         (verr ''gateway.yaml'' ''refbox_socket_dir'' ''bad-refbox-socket-dir'' [])
     @ supervisorErrors urlParse gw declared
     @ vif (gwStepTimeout gw \<noteq> 0 \<and> gwStepTimeout gw < second)
         (verr ''gateway.yaml'' ''step_timeout'' ''bad-step-timeout'' [])
     @ vif (polRejectCycles (gwSpawn gw))
         (case spawnCycle agents workflows of
            None \<Rightarrow> []
          | Some cycle \<Rightarrow> verr ''gateway.yaml'' ''spawn'' ''spawn-cycle'' cycle)"

section \<open>\<open>Validate\<close> and \<open>Build\<close>\<close>

definition Validate :: "url_parser \<Rightarrow> Config \<Rightarrow> ValidationError list" where
  "Validate urlParse cfg =
     (let gw = cfgGateway cfg;
          (agents, agentErrs) = validateAgents urlParse gw [] (cfgAgents cfg);
          toolErrs = concat (map (toolErrors urlParse) (gwTools gw));
          (workflows, workflowErrs) = validateWorkflows agents [] (cfgWorkflows cfg);
          (roles, roleErrs) = validateRoles workflows [] (cfgRoles cfg)
      in agentErrs @ toolErrs @ workflowErrs @ roleErrs
         @ spawnErrors workflows roles (cfgAgents cfg)
         @ gatewayErrors urlParse gw (spawnDeclared (cfgAgents cfg)) agents workflows)"

record Registry =
  regAgents :: "bytes \<rightharpoonup> AgentDef"
  regWorkflows :: "bytes \<rightharpoonup> WorkflowDef"
  regRoles :: "bytes \<rightharpoonup> RoleDef"

fun putAll :: "('a \<Rightarrow> bytes) \<Rightarrow> 'a list \<Rightarrow> (bytes \<rightharpoonup> 'a) \<Rightarrow> (bytes \<rightharpoonup> 'a)" where
  "putAll nameOf [] m = m"
| "putAll nameOf (x # xs) m = putAll nameOf xs (m(nameOf x \<mapsto> x))"

definition Build :: "url_parser \<Rightarrow> Config \<Rightarrow> ValidationError list + Registry" where
  "Build urlParse cfg =
     (let errs = Validate urlParse cfg
      in if errs \<noteq> [] then Inl errs
         else Inr \<lparr>regAgents = putAll adName (cfgAgents cfg) Map.empty,
                   regWorkflows = putAll wfName (cfgWorkflows cfg) Map.empty,
                   regRoles = putAll rdName (cfgRoles cfg) Map.empty\<rparr>)"

definition RoleOwnsWorkflow :: "Registry \<Rightarrow> bytes \<Rightarrow> bytes \<Rightarrow> bool" where
  "RoleOwnsWorkflow r role w =
     (case regRoles r role of None \<Rightarrow> False | Some ro \<Rightarrow> List.member (rdWorkflows ro) w)"

section \<open>What an accepted configuration satisfies\<close>

lemma verr_not_Nil [simp]: "verr f e c args \<noteq> []"
  by (simp add: verr_def)

lemma vif_Nil [simp]: "vif b es = [] \<longleftrightarrow> (b \<longrightarrow> es = [])"
  by (simp add: vif_def)

lemma validateAgents_ok:
  "validateAgents urlParse gw agents as = (m, []) \<Longrightarrow> distinct (map fst agents) \<Longrightarrow>
   m = agents @ map (\<lambda>a. (adName a, a)) as \<and> distinct (map fst m)
   \<and> (\<forall>a \<in> set as. adName a \<noteq> '''' \<and> agentErrors urlParse gw a = [])"
proof (induction as arbitrary: agents)
  case (Cons a as)
  from Cons.prems have new: "adName a \<noteq> ''''" "map_of agents (adName a) = None" "agentErrors urlParse gw a = []"
    and rest: "validateAgents urlParse gw (agents @ [(adName a, a)]) as = (m, [])"
    by (auto simp: Let_def map_of_eq_None_iff image_iff split: prod.splits if_splits)
  from new(2) Cons.prems(2) have "distinct (map fst (agents @ [(adName a, a)]))"
    by (auto simp: map_of_eq_None_iff)
  note ih = Cons.IH [OF rest this]
  then have "m = agents @ map (\<lambda>a. (adName a, a)) (a # as)" by simp
  with ih new show ?case by (metis set_ConsD)
qed simp

lemma validateWorkflows_ok:
  "validateWorkflows agents workflows ws = (m, []) \<Longrightarrow> distinct (map fst workflows) \<Longrightarrow>
   m = workflows @ map (\<lambda>w. (wfName w, w)) ws \<and> distinct (map fst m)
   \<and> (\<forall>w \<in> set ws. wfName w \<noteq> '''' \<and> workflowErrors agents w = [])"
proof (induction ws arbitrary: workflows)
  case (Cons w ws)
  from Cons.prems have new: "wfName w \<noteq> ''''" "map_of workflows (wfName w) = None" "workflowErrors agents w = []"
    and rest: "validateWorkflows agents (workflows @ [(wfName w, w)]) ws = (m, [])"
    by (auto simp: Let_def map_of_eq_None_iff image_iff split: prod.splits if_splits)
  from new(2) Cons.prems(2) have "distinct (map fst (workflows @ [(wfName w, w)]))"
    by (auto simp: map_of_eq_None_iff)
  note ih = Cons.IH [OF rest this]
  then have "m = workflows @ map (\<lambda>w. (wfName w, w)) (w # ws)" by simp
  with ih new show ?case by (metis set_ConsD)
qed simp

lemma validateRoles_ok:
  "validateRoles workflows roles rs = (m, []) \<Longrightarrow> distinct (map fst roles) \<Longrightarrow>
   m = roles @ map (\<lambda>r. (rdName r, r)) rs \<and> distinct (map fst m)
   \<and> (\<forall>r \<in> set rs. rdName r \<noteq> '''' \<and> roleErrors workflows r = [])"
proof (induction rs arbitrary: roles)
  case (Cons r rs)
  from Cons.prems have new: "rdName r \<noteq> ''''" "map_of roles (rdName r) = None" "roleErrors workflows r = []"
    and rest: "validateRoles workflows (roles @ [(rdName r, r)]) rs = (m, [])"
    by (auto simp: Let_def map_of_eq_None_iff image_iff split: prod.splits if_splits)
  from new(2) Cons.prems(2) have "distinct (map fst (roles @ [(rdName r, r)]))"
    by (auto simp: map_of_eq_None_iff)
  note ih = Cons.IH [OF rest this]
  then have "m = roles @ map (\<lambda>r. (rdName r, r)) (r # rs)" by simp
  with ih new show ?case by (metis set_ConsD)
qed simp

lemma putAll_map_of:
  "distinct (map nameOf xs) \<Longrightarrow> putAll nameOf xs m = m ++ map_of (map (\<lambda>x. (nameOf x, x)) xs)"
proof (induction xs arbitrary: m)
  case (Cons x xs)
  then have "nameOf x \<notin> dom (map_of (map (\<lambda>x. (nameOf x, x)) xs))"
    by (auto simp: dom_map_of_conv_image_fst)
  with Cons show ?case by (auto simp: map_add_def fun_eq_iff domIff split: option.splits)
qed simp

definition byName :: "('a \<Rightarrow> bytes) \<Rightarrow> 'a list \<Rightarrow> (bytes \<times> 'a) list" where
  "byName nameOf xs = map (\<lambda>x. (nameOf x, x)) xs"

lemma map_of_byName: "map_of (byName nameOf xs) n = Some x \<Longrightarrow> x \<in> set xs \<and> nameOf x = n"
  by (auto simp: byName_def dest: map_of_SomeD)

lemma Build_accepted:
  assumes "Build urlParse cfg = Inr r"
  shows "r = \<lparr>regAgents = map_of (byName adName (cfgAgents cfg)),
              regWorkflows = map_of (byName wfName (cfgWorkflows cfg)),
              regRoles = map_of (byName rdName (cfgRoles cfg))\<rparr>"
    and "\<And>a. a \<in> set (cfgAgents cfg) \<Longrightarrow> adName a \<noteq> '''' \<and> agentErrors urlParse (cfgGateway cfg) a = []"
    and "\<And>w. w \<in> set (cfgWorkflows cfg) \<Longrightarrow> wfName w \<noteq> ''''
           \<and> workflowErrors (byName adName (cfgAgents cfg)) w = []"
    and "\<And>ro. ro \<in> set (cfgRoles cfg) \<Longrightarrow> rdName ro \<noteq> ''''
           \<and> roleErrors (byName wfName (cfgWorkflows cfg)) ro = []"
    and "spawnErrors (byName wfName (cfgWorkflows cfg)) (byName rdName (cfgRoles cfg)) (cfgAgents cfg) = []"
    and "gatewayErrors urlParse (cfgGateway cfg) (spawnDeclared (cfgAgents cfg))
           (byName adName (cfgAgents cfg)) (byName wfName (cfgWorkflows cfg)) = []"
    and "\<And>t. t \<in> set (gwTools (cfgGateway cfg)) \<Longrightarrow> toolErrors urlParse t = []"
proof -
  obtain agents ae where A: "validateAgents urlParse (cfgGateway cfg) [] (cfgAgents cfg) = (agents, ae)" by fastforce
  obtain workflows we where W: "validateWorkflows agents [] (cfgWorkflows cfg) = (workflows, we)" by fastforce
  obtain roles re where R: "validateRoles workflows [] (cfgRoles cfg) = (roles, re)" by fastforce
  have V: "Validate urlParse cfg = []" and r: "r = \<lparr>regAgents = putAll adName (cfgAgents cfg) Map.empty,
                   regWorkflows = putAll wfName (cfgWorkflows cfg) Map.empty,
                   regRoles = putAll rdName (cfgRoles cfg) Map.empty\<rparr>"
    using assms by (auto simp: Build_def Let_def split: if_splits)
  from V have e: "ae = []" "we = []" "re = []"
    "concat (map (toolErrors urlParse) (gwTools (cfgGateway cfg))) = []"
    and s: "spawnErrors workflows roles (cfgAgents cfg) = []"
      "gatewayErrors urlParse (cfgGateway cfg) (spawnDeclared (cfgAgents cfg)) agents workflows = []"
    by (simp_all add: Validate_def Let_def A W R)
  note a = validateAgents_ok [OF A [unfolded e], simplified]
    and w = validateWorkflows_ok [OF W [unfolded e], simplified]
    and ro = validateRoles_ok [OF R [unfolded e], simplified]
  have eqs: "agents = byName adName (cfgAgents cfg)" "workflows = byName wfName (cfgWorkflows cfg)"
    "roles = byName rdName (cfgRoles cfg)"
    using a w ro by (simp_all add: byName_def)
  have d: "distinct (map adName (cfgAgents cfg))" "distinct (map wfName (cfgWorkflows cfg))"
    "distinct (map rdName (cfgRoles cfg))"
    using a w ro by (auto simp: comp_def)
  show "r = \<lparr>regAgents = map_of (byName adName (cfgAgents cfg)),
              regWorkflows = map_of (byName wfName (cfgWorkflows cfg)),
              regRoles = map_of (byName rdName (cfgRoles cfg))\<rparr>"
    unfolding r byName_def using d by (simp add: putAll_map_of)
  show "\<And>a. a \<in> set (cfgAgents cfg) \<Longrightarrow> adName a \<noteq> '''' \<and> agentErrors urlParse (cfgGateway cfg) a = []"
    using a by blast
  show "\<And>w. w \<in> set (cfgWorkflows cfg) \<Longrightarrow> wfName w \<noteq> ''''
           \<and> workflowErrors (byName adName (cfgAgents cfg)) w = []"
    using w eqs by blast
  show "\<And>ro. ro \<in> set (cfgRoles cfg) \<Longrightarrow> rdName ro \<noteq> ''''
           \<and> roleErrors (byName wfName (cfgWorkflows cfg)) ro = []"
    using ro eqs by blast
  show "spawnErrors (byName wfName (cfgWorkflows cfg)) (byName rdName (cfgRoles cfg)) (cfgAgents cfg) = []"
    using s eqs by simp
  show "gatewayErrors urlParse (cfgGateway cfg) (spawnDeclared (cfgAgents cfg))
           (byName adName (cfgAgents cfg)) (byName wfName (cfgWorkflows cfg)) = []"
    using s eqs by simp
  show "\<And>t. t \<in> set (gwTools (cfgGateway cfg)) \<Longrightarrow> toolErrors urlParse t = []"
    using e(4) by simp
qed

lemma indexSteps_Some:
  "indexSteps i ss m k = Some j \<Longrightarrow>
   m k = Some j \<or> (i \<le> j \<and> j < i + length ss \<and> spName (ss ! (j - i)) = k)"
proof (induction ss arbitrary: i m)
  case (Cons s ss)
  from Cons.prems have "indexSteps (i + 1) ss (m(spName s \<mapsto> i)) k = Some j" by simp
  from Cons.IH [OF this]
  consider "(m(spName s \<mapsto> i)) k = Some j" | "i + 1 \<le> j" "j < i + 1 + length ss" "spName (ss ! (j - (i + 1))) = k"
    by blast
  then show ?case
    by cases (auto split: if_splits simp: nth_Cons')
qed simp

text \<open>What a step of an accepted workflow satisfies, over the lookups of a registry.\<close>

definition stepOk :: "(bytes \<rightharpoonup> AgentDef) \<Rightarrow> Step list \<Rightarrow> nat \<Rightarrow> bool" where
  "stepOk agent ss i \<longleftrightarrow>
     (\<exists>a. agent (spAgent (ss ! i)) = Some a \<and> IsEnabled a)
     \<and> 0 \<le> spMaxBounces (ss ! i) \<and> spMaxBounces (ss ! i) \<le> 10
     \<and> (spOnFailure (ss ! i) = '''' \<or> (\<exists>j < i. spName (ss ! j) = spOnFailure (ss ! i)))
     \<and> (spOnSuccess (ss ! i) = '''' \<or> spOnSuccess (ss ! i) = ''finish'' \<and> i = length ss - 1
        \<or> i + 1 < length ss \<and> spName (ss ! (i + 1)) = spOnSuccess (ss ! i))"

lemma stepErrors_ok:
  assumes "stepErrors agents w (indexSteps 0 (wfSteps w) Map.empty) i (wfSteps w ! i) = []"
  shows "stepOk (map_of agents) (wfSteps w) i"
proof -
  let ?ix = "indexSteps 0 (wfSteps w) Map.empty" and ?s = "wfSteps w ! i"
  have ix: "j < length (wfSteps w) \<and> spName (wfSteps w ! j) = k" if "?ix k = Some j" for k j
    using indexSteps_Some [OF that] by auto
  from assms have agent: "\<exists>a. map_of agents (spAgent ?s) = Some a \<and> IsEnabled a"
    and bounces: "0 \<le> spMaxBounces ?s" "spMaxBounces ?s \<le> 10"
    and succ: "spOnSuccess ?s \<noteq> '''' \<Longrightarrow> i \<noteq> length (wfSteps w) - 1 \<or> spOnSuccess ?s \<noteq> ''finish'' \<Longrightarrow>
        ?ix (spOnSuccess ?s) = Some (i + 1)"
    and fl: "spOnFailure ?s \<noteq> '''' \<Longrightarrow> \<exists>j. ?ix (spOnFailure ?s) = Some j \<and> j < i"
    by (auto simp: stepErrors_def Let_def split: option.splits)
  have "spOnFailure ?s = '''' \<or> (\<exists>j < i. spName (wfSteps w ! j) = spOnFailure ?s)"
    using fl ix by blast
  moreover have "spOnSuccess ?s = '''' \<or> spOnSuccess ?s = ''finish'' \<and> i = length (wfSteps w) - 1
        \<or> i + 1 < length (wfSteps w) \<and> spName (wfSteps w ! (i + 1)) = spOnSuccess ?s"
    using succ ix by blast
  ultimately show ?thesis unfolding stepOk_def using agent bounces by blast
qed

lemma stepsErrors_nth:
  "stepsErrors agents w index i ss = [] \<Longrightarrow> k < length ss \<Longrightarrow> stepErrors agents w index (i + k) (ss ! k) = []"
proof (induction ss arbitrary: i k)
  case (Cons s ss)
  show ?case
  proof (cases k)
    case (Suc k')
    with Cons.IH [of "i + 1" k'] Cons.prems show ?thesis by simp
  qed (use Cons.prems in simp)
qed simp

lemma workflowErrors_ok:
  "workflowErrors agents w = [] \<Longrightarrow> wfSteps w \<noteq> [] \<and> (\<forall>i < length (wfSteps w). stepOk (map_of agents) (wfSteps w) i)"
  using stepsErrors_nth [of agents w _ 0 "wfSteps w"]
  by (auto simp: workflowErrors_def intro: stepErrors_ok split: if_splits)

lemma spawnTargetErrors_ok:
  "spawnTargetErrors workflows roles a seen ts = [] \<Longrightarrow> t \<in> set ts \<Longrightarrow>
   \<exists>ro w. map_of roles (stRole t) = Some ro \<and> map_of workflows (stWorkflow t) = Some w
          \<and> stWorkflow t \<in> set (rdWorkflows ro)"
  by (induction ts arbitrary: seen) (auto simp: Let_def split: if_splits option.splits)

section \<open>The registry as the engine sees it\<close>

text \<open>
  What a registry promises its clients, over its three lookups. \<open>registryOf\<close> is the registry a
  caller of \<open>Build\<close> holds: the built one, or an empty one when the configuration was refused.
\<close>

locale registry_view =
  fixes agent :: "bytes \<rightharpoonup> AgentDef"
    and workflow :: "bytes \<rightharpoonup> WorkflowDef"
    and role :: "bytes \<rightharpoonup> RoleDef"
  assumes workflow_steps: "workflow n = Some w \<Longrightarrow> wfSteps w \<noteq> [] \<and> (\<forall>i < length (wfSteps w). stepOk agent (wfSteps w) i)"
    and role_workflows: "role n = Some r \<Longrightarrow> v \<in> set (rdWorkflows r) \<Longrightarrow> \<exists>w. workflow v = Some w"
    and role_floor: "role n = Some r \<Longrightarrow> rdAllowedGroups r \<noteq> []"
    and role_control: "role n = Some r \<Longrightarrow> controlList r \<noteq> [] \<Longrightarrow> ''*'' \<notin> set (rdAllowedGroups r)"
    and spawn_targets: "agent n = Some a \<Longrightarrow> t \<in> set (adMaySpawn a) \<Longrightarrow>
        \<exists>r. role (stRole t) = Some r \<and> stWorkflow t \<in> set (rdWorkflows r)"
begin

lemma step_agent:
  assumes "workflow n = Some w" "s \<in> set (wfSteps w)"
  shows "\<exists>a. agent (spAgent s) = Some a \<and> IsEnabled a"
  using workflow_steps [OF assms(1)] assms(2) by (auto simp: stepOk_def in_set_conv_nth)

lemma spawned_workflow_runs:
  assumes "agent n = Some a" "t \<in> set (adMaySpawn a)"
  shows "\<exists>w. workflow (stWorkflow t) = Some w \<and> wfSteps w \<noteq> []"
  using spawn_targets [OF assms] role_workflows workflow_steps by blast

lemma bounce_target_is_earlier:
  assumes "workflow n = Some w" "i < length (wfSteps w)" "spOnFailure (wfSteps w ! i) \<noteq> ''''"
  shows "\<exists>j < i. spName (wfSteps w ! j) = spOnFailure (wfSteps w ! i)"
  using workflow_steps [OF assms(1)] assms(2,3) by (auto simp: stepOk_def)

end

definition registryOf :: "url_parser \<Rightarrow> Config \<Rightarrow> Registry" where
  "registryOf urlParse cfg =
     (case Build urlParse cfg of
        Inl _ \<Rightarrow> \<lparr>regAgents = Map.empty, regWorkflows = Map.empty, regRoles = Map.empty\<rparr>
      | Inr r \<Rightarrow> r)"

interpretation builtRegistry: registry_view
  "regAgents (registryOf urlParse cfg)" "regWorkflows (registryOf urlParse cfg)"
  "regRoles (registryOf urlParse cfg)" for urlParse cfg
proof (cases "Build urlParse cfg")
  case (Inl es)
  then show "registry_view (regAgents (registryOf urlParse cfg)) (regWorkflows (registryOf urlParse cfg))
      (regRoles (registryOf urlParse cfg))"
    by unfold_locales (simp_all add: registryOf_def)
next
  case (Inr r)
  note acc = Build_accepted [OF Inr]
  have reg: "registryOf urlParse cfg = r" by (simp add: registryOf_def Inr)
  show "registry_view (regAgents (registryOf urlParse cfg)) (regWorkflows (registryOf urlParse cfg))
      (regRoles (registryOf urlParse cfg))"
    unfolding reg
  proof
    fix n w assume "regWorkflows r n = Some w"
    then have "w \<in> set (cfgWorkflows cfg)" using acc(1) map_of_byName [of wfName "cfgWorkflows cfg" n w] by simp
    from acc(3) [OF this] workflowErrors_ok [of "byName adName (cfgAgents cfg)" w] acc(1)
    show "wfSteps w \<noteq> [] \<and> (\<forall>i < length (wfSteps w). stepOk (regAgents r) (wfSteps w) i)" by simp
  next
    fix n ro assume "regRoles r n = Some ro"
    then have "ro \<in> set (cfgRoles cfg)" using acc(1) map_of_byName [of rdName "cfgRoles cfg" n ro] by simp
    from acc(4) [OF this] have ro: "roleErrors (byName wfName (cfgWorkflows cfg)) ro = []" by simp
    then show "rdAllowedGroups ro \<noteq> []" by (simp add: roleErrors_def Let_def)
    from ro show "''*'' \<notin> set (rdAllowedGroups ro)" if "controlList ro \<noteq> []"
      using that by (simp add: roleErrors_def Let_def)
    from ro show "\<exists>w. regWorkflows r v = Some w" if "v \<in> set (rdWorkflows ro)" for v
      using that acc(1) by (auto simp: roleErrors_def Let_def)
  next
    fix n a t assume "regAgents r n = Some a" "t \<in> set (adMaySpawn a)"
    then have "a \<in> set (cfgAgents cfg)" using acc(1) map_of_byName [of adName "cfgAgents cfg" n a] by simp
    with acc(5) acc(2) have "spawnTargetErrors (byName wfName (cfgWorkflows cfg)) (byName rdName (cfgRoles cfg))
        a [] (adMaySpawn a) = []" by (auto simp: spawnErrors_def)
    from spawnTargetErrors_ok [OF this \<open>t \<in> set (adMaySpawn a)\<close>]
    show "\<exists>ro. regRoles r (stRole t) = Some ro \<and> stWorkflow t \<in> set (rdWorkflows ro)"
      using acc(1) by auto
  qed
qed

section \<open>Tool grants of an accepted agent\<close>

lemma grantShapeError_None: "grantShapeError a g = None \<longleftrightarrow> grantOk g"
  by (auto simp: grantShapeError_def grantOk_def Let_def)

lemma grantErrors_Cons_Nil:
  "grantErrors gw a seen (g # gs) = [] \<Longrightarrow>
   grantOk g \<and> grantRestErrors gw a seen g = [] \<and> grantErrors gw a (recordGrant seen g) gs = []"
proof (cases "grantShapeError a g")
  case (Some es)
  then have "es \<noteq> []" by (auto simp: grantShapeError_def Let_def split: if_splits)
  with Some show "grantErrors gw a seen (g # gs) = [] \<Longrightarrow> ?thesis" by simp
qed (auto dest: grantShapeError_None [THEN iffD1])

definition grantFits :: "GatewayConfig \<Rightarrow> ToolGrant \<Rightarrow> bool" where
  "grantFits gw g \<longleftrightarrow> grantOk g
     \<and> (\<exists>r. map_of (gwTools gw) (tgResource g) = Some r
          \<and> (ReadOnly g \<longrightarrow> trReadOnlyTools r \<noteq> [] \<and> (AllTools g \<or> set (tgTools g) \<subseteq> set (trReadOnlyTools r))))"

lemma grantErrors_fit: "grantErrors gw a seen gs = [] \<Longrightarrow> list_all (grantFits gw) gs"
proof (induction gs arbitrary: seen)
  case (Cons g gs)
  from grantErrors_Cons_Nil [OF Cons.prems] have g: "grantOk g" "grantRestErrors gw a seen g = []"
    and rest: "list_all (grantFits gw) gs" using Cons.IH by auto
  from g(2) obtain r where r: "map_of (gwTools gw) (tgResource g) = Some r"
    by (auto simp: grantRestErrors_def Let_def)
  with g(2) have "ReadOnly g \<longrightarrow> trReadOnlyTools r \<noteq> [] \<and> (AllTools g \<or> set (tgTools g) \<subseteq> set (trReadOnlyTools r))"
    by (auto simp: grantRestErrors_def Let_def split: if_splits)
  with r g(1) have "grantFits gw g" by (simp add: grantFits_def)
  with rest show ?case by simp
qed simp

definition seenBefore :: "granted \<Rightarrow> bytes \<Rightarrow> bool" where
  "seenBefore seen res \<longleftrightarrow> res \<in> set (grantedAll seen) \<or> res \<in> set (grantedLimited seen)"

lemma recordGrant_grows:
  "seenBefore seen res \<Longrightarrow> seenBefore (recordGrant seen g) res"
  "res \<in> set (grantedLimited seen) \<Longrightarrow> res \<in> set (grantedLimited (recordGrant seen g))"
  "seenBefore (recordGrant seen g) (tgResource g)"
  "\<not> EveryToolReadWrite g \<Longrightarrow> tgResource g \<in> set (grantedLimited (recordGrant seen g))"
  by (auto simp: recordGrant_def seenBefore_def)

lemma grantErrors_repeat:
  "grantErrors gw a seen gs = [] \<Longrightarrow> g \<in> set gs \<Longrightarrow> seenBefore seen (tgResource g) \<Longrightarrow>
   EveryToolReadWrite g \<and> tgResource g \<notin> set (grantedLimited seen)"
proof (induction gs arbitrary: seen)
  case (Cons h gs)
  note h = grantErrors_Cons_Nil [OF Cons.prems(1)]
  show ?case
  proof (cases "g = h")
    case True
    with h Cons.prems(3) show ?thesis by (auto simp: grantRestErrors_def Let_def seenBefore_def)
  next
    case False
    with Cons.IH [of "recordGrant seen h"] h Cons.prems(2,3) recordGrant_grows [where seen = seen and g = h]
    show ?thesis by auto
  qed
qed simp

lemma grantErrors_no_mixed_repeat:
  "grantErrors gw a seen gs = [] \<Longrightarrow>
   sorted_wrt (\<lambda>g h. tgResource g = tgResource h \<longrightarrow> EveryToolReadWrite g \<and> EveryToolReadWrite h) gs"
proof (induction gs arbitrary: seen)
  case (Cons g gs)
  note g = grantErrors_Cons_Nil [OF Cons.prems]
  have "EveryToolReadWrite g \<and> EveryToolReadWrite h" if "h \<in> set gs" "tgResource g = tgResource h" for h
    using grantErrors_repeat [of gw a "recordGrant seen g" gs h] g that
      recordGrant_grows(3,4) [where seen = seen and g = g] by auto
  with Cons.IH g show ?case by auto
qed simp

section \<open>Properties\<close>

lemma registryOf_Build: "Build urlParse cfg = Inr r \<Longrightarrow> registryOf urlParse cfg = r"
  by (simp add: registryOf_def)

lemma Build_Validate: "Validate urlParse cfg = [] \<Longrightarrow> Build urlParse cfg = Inr (registryOf urlParse cfg)"
  by (simp add: registryOf_def Build_def)

lemma registry_agent:
  assumes "Build urlParse cfg = Inr r" "regAgents r n = Some a"
  shows "a \<in> set (cfgAgents cfg) \<and> adName a = n"
  using Build_accepted(1) [OF assms(1)] assms(2) map_of_byName [of adName "cfgAgents cfg" n a] by simp

text \<open>A small accepted configuration, on which the properties below are evaluated.\<close>

definition demoURL :: url_parser where
  "demoURL s = (if has_prefix s ''https://'' then Some (''https'', drop 8 s) else None)"

definition noExec :: ExecConfig where
  "noExec = \<lparr>ecAllow = [], ecRuntime = '''', ecURL = '''', ecTimeout = 0\<rparr>"

definition demoCoder :: AgentDef where
  "demoCoder = \<lparr>adName = ''coder'', adDescription = '''', adEnabled = None, adModel = '''', adInstruction = '''',
     adTools = [\<lparr>tgResource = ''git'', tgTools = [''log''], tgMode = ''read-only''\<rparr>], adOutput = '''', adExecution = '''',
     adEndpoint = ''https://coder'',
     adExec = \<lparr>ecAllow = [\<lparr>eeExe = ''go'', eeArgsPrefix = [''test'']\<rparr>], ecRuntime = ''refexec'',
               ecURL = ''unix:///run/exec/s'', ecTimeout = second\<rparr>,
     adMaySpawn = [\<lparr>stRole = ''dev'', stWorkflow = ''review''\<rparr>], adSourceFile = ''c.yaml''\<rparr>"

definition demoReviewer :: AgentDef where
  "demoReviewer = \<lparr>adName = ''reviewer'', adDescription = '''', adEnabled = Some True, adModel = '''', adInstruction = '''',
     adTools = [], adOutput = '''', adExecution = ''fronted'', adEndpoint = ''https://reviewer'', adExec = noExec,
     adMaySpawn = [], adSourceFile = ''r.yaml''\<rparr>"

definition demoStep :: "bytes \<Rightarrow> bytes \<Rightarrow> bytes \<Rightarrow> Step" where
  "demoStep n a f = \<lparr>spName = n, spAgent = a, spOnSuccess = '''', spOnFailure = f, spMaxBounces = 1\<rparr>"

definition demoFeature :: WorkflowDef where
  "demoFeature = \<lparr>wfName = ''feature'', wfDescription = '''',
     wfSteps = [demoStep ''code'' ''coder'' '''', demoStep ''check'' ''reviewer'' ''code''], wfSourceFile = ''f.yaml''\<rparr>"

definition demoReview :: WorkflowDef where
  "demoReview = \<lparr>wfName = ''review'', wfDescription = '''', wfSteps = [demoStep ''check'' ''reviewer'' ''''],
     wfSourceFile = ''v.yaml''\<rparr>"

definition demoDev :: RoleDef where
  "demoDev = \<lparr>rdName = ''dev'', rdDescription = '''', rdWorkflows = [''feature'', ''review''], rdAllowedGroups = [''eng''],
     rdControl = None, rdBudgetUSDMonth = 0, rdSourceFile = ''d.yaml''\<rparr>"

definition demoTool :: ToolResource where
  "demoTool = \<lparr>trKind = ''mcp'', trURL = ''https://git'', trCredentialSource = ''static_env'', trTokenEnv = ''T'',
     trGrantType = '''', trClientAuth = '''', trIssuer = '''', trTokenEndpoint = '''', trClientIDEnv = '''',
     trClientSecretEnv = '''', trScope = '''', trAudience = '''', trReadOnlyTools = [''log''], trRuntime = ''''\<rparr>"

definition demoCfg :: Config where
  "demoCfg = \<lparr>cfgAgents = [demoCoder, demoReviewer], cfgWorkflows = [demoFeature, demoReview], cfgRoles = [demoDev],
     cfgGateway = \<lparr>gwModels = [], gwTools = [(''git'', demoTool)], gwDefaultModel = '''',
       gwRefboxSocketDir = ''/run/box'', gwSpawnSupervisor = ''unix:///run/sup/s'',
       gwSpawn = \<lparr>polMaxDepth = 1, polMaxParallel = 1, polMaxTotalSpawns = 1, polRejectCycles = True\<rparr>,
       gwStepTimeout = 0\<rparr>\<rparr>"

lemma demoCfg_accepted: "Build demoURL demoCfg = Inr (registryOf demoURL demoCfg)"
  by (rule Build_Validate) code_simp

text \<open>
  A workflow of a built registry can be run: it has at least one step, every step names an
  agent that exists and is enabled, its bounce bound is between 0 and 10, its failure edge goes
  to an earlier step and its success edge to the next step (or to the end).
\<close>

theorem built_workflow_is_runnable:
  assumes "Build urlParse cfg = Inr r" and "regWorkflows r n = Some w"
  shows "wfSteps w \<noteq> [] \<and> (\<forall>i < length (wfSteps w). stepOk (regAgents r) (wfSteps w) i)"
  using builtRegistry.workflow_steps [of urlParse cfg n w] assms by (simp add: registryOf_Build)

theorem built_workflow_is_runnable_witness:
  "stepOk (regAgents (registryOf demoURL demoCfg)) (wfSteps demoFeature) 1"
proof -
  have w: "regWorkflows (registryOf demoURL demoCfg) ''feature'' = Some demoFeature" by code_simp
  have "(1::nat) < length (wfSteps demoFeature)" by code_simp
  then show ?thesis using built_workflow_is_runnable [OF demoCfg_accepted w] by blast
qed

text \<open>
  Delegation never escapes the configuration: whatever an agent of a built registry may
  spawn is a workflow that exists, is owned by the role it names and has steps to run; the three
  spawn caps are at least one and a supervisor socket is configured.
\<close>

theorem built_spawn_targets_resolve:
  assumes "Build urlParse cfg = Inr r" and "regAgents r n = Some a" and "t \<in> set (adMaySpawn a)"
  shows "RoleOwnsWorkflow r (stRole t) (stWorkflow t)
    \<and> (\<exists>w. regWorkflows r (stWorkflow t) = Some w \<and> wfSteps w \<noteq> [])
    \<and> polMaxDepth (gwSpawn (cfgGateway cfg)) \<ge> 1 \<and> polMaxParallel (gwSpawn (cfgGateway cfg)) \<ge> 1
    \<and> polMaxTotalSpawns (gwSpawn (cfgGateway cfg)) \<ge> 1
    \<and> has_prefix (gwSpawnSupervisor (cfgGateway cfg)) UnixScheme"
proof -
  note reg = registryOf_Build [OF assms(1)]
  have a: "a \<in> set (cfgAgents cfg)" "adName a \<noteq> ''''"
    using registry_agent [OF assms(1,2)] Build_accepted(2) [OF assms(1)] by auto
  with assms(3) have "spawnDeclared (cfgAgents cfg)" by (auto simp: spawnDeclared_def list_ex_iff)
  with Build_accepted(6) [OF assms(1)] show ?thesis
    using builtRegistry.spawn_targets [of urlParse cfg n a t]
      builtRegistry.spawned_workflow_runs [of urlParse cfg n a t] assms(2,3)
    by (auto simp: reg RoleOwnsWorkflow_def gatewayErrors_def capErrors_def supervisorErrors_def Let_def
        split: if_splits)
qed

theorem built_spawn_targets_resolve_witness:
  "RoleOwnsWorkflow (registryOf demoURL demoCfg) ''dev'' ''review''"
proof -
  have a: "regAgents (registryOf demoURL demoCfg) ''coder'' = Some demoCoder" by code_simp
  have t: "\<lparr>stRole = ''dev'', stWorkflow = ''review''\<rparr> \<in> set (adMaySpawn demoCoder)" by code_simp
  show ?thesis using built_spawn_targets_resolve [OF demoCfg_accepted a t] by simp
qed

text \<open>
  With \<open>reject_cycles\<close> set, the spawn relation over a built registry is acyclic, so a chain of
  runs each spawned by an agent of the one before never returns to an agent type.
\<close>

theorem built_spawn_relation_acyclic:
  assumes "Build urlParse cfg = Inr r" and "polRejectCycles (gwSpawn (cfgGateway cfg))"
  shows "acyclic {(x, y). \<exists>a t w s. regAgents r x = Some a \<and> t \<in> set (adMaySpawn a)
    \<and> regWorkflows r (stWorkflow t) = Some w \<and> s \<in> set (wfSteps w) \<and> y = spAgent s}"
proof -
  have "spawnCycle (byName adName (cfgAgents cfg)) (byName wfName (cfgWorkflows cfg)) = None"
    using Build_accepted(6) [OF assms(1)] assms(2) by (auto simp: gatewayErrors_def split: option.splits)
  moreover note spawnCycle_spec [of "byName adName (cfgAgents cfg)" "byName wfName (cfgWorkflows cfg)"]
  ultimately have nocyc: "(x, x) \<notin> (maySpawnRel (byName adName (cfgAgents cfg)) (byName wfName (cfgWorkflows cfg)))\<^sup>+"
    for x
    using maySpawn_source [of x x "byName adName (cfgAgents cfg)" "byName wfName (cfgWorkflows cfg)"] by auto
  have r: "regAgents r = map_of (byName adName (cfgAgents cfg))"
    "regWorkflows r = map_of (byName wfName (cfgWorkflows cfg))"
    using Build_accepted(1) [OF assms(1)] by simp_all
  show ?thesis using nocyc unfolding acyclic_def r maySpawnRel_def by blast
qed

theorem built_spawn_relation_acyclic_witness:
  "acyclic {(x, y). \<exists>a t w s. regAgents (registryOf demoURL demoCfg) x = Some a \<and> t \<in> set (adMaySpawn a)
    \<and> regWorkflows (registryOf demoURL demoCfg) (stWorkflow t) = Some w \<and> s \<in> set (wfSteps w) \<and> y = spAgent s}"
  by (rule built_spawn_relation_acyclic [OF demoCfg_accepted]) code_simp

text \<open>
  An agent's compartment never sees the runtime that executes commands for it: in a built
  registry an agent with an exec block names the one implemented runtime on an absolute
  \<^verbatim>\<open>unix://\<close> path with a deadline of at least a second and a non-empty allowlist, and the
  directory of that socket is outside the directory mounted into compartments.
\<close>

theorem built_exec_socket_is_outside_compartments:
  assumes "Build urlParse cfg = Inr r" and "regAgents r n = Some a" and "Declared (adExec a)"
    and "gwRefboxSocketDir (cfgGateway cfg) \<noteq> ''''"
  shows "\<exists>p. ecURL (adExec a) = UnixScheme @ p \<and> IsAbs p
    \<and> \<not> prefix (absWords (gwRefboxSocketDir (cfgGateway cfg))) (absWords (Dir p))
    \<and> ecRuntime (adExec a) = ''refexec'' \<and> ecTimeout (adExec a) \<ge> second \<and> ecAllow (adExec a) \<noteq> []"
proof -
  have "execErrors urlParse (cfgGateway cfg) a = []"
    using registry_agent [OF assms(1,2)] Build_accepted(2) [OF assms(1)] by (auto simp: agentErrors_def)
  with assms(3,4) have e: "ecRuntime (adExec a) = ''refexec''" "has_prefix (ecURL (adExec a)) UnixScheme"
    "validSecureOrUnixEndpoint urlParse (ecURL (adExec a))" "ecTimeout (adExec a) \<ge> second" "ecAllow (adExec a) \<noteq> []"
    "\<not> InsideDir (Dir (trimUnixScheme (ecURL (adExec a)))) (gwRefboxSocketDir (cfgGateway cfg))"
    by (auto simp: execErrors_def Let_def split: if_splits)
  obtain p where p: "ecURL (adExec a) = UnixScheme @ p" using e(2) by (auto simp: has_prefix_iff)
  have "IsAbs (gwRefboxSocketDir (cfgGateway cfg))"
    using Build_accepted(6) [OF assms(1)] assms(4) by (auto simp: gatewayErrors_def)
  from InsideDir_iff [OF this] e(6) have "\<not> prefix (absWords (gwRefboxSocketDir (cfgGateway cfg))) (absWords (Dir p))"
    by (simp add: p trimUnixScheme_def)
  with p e show ?thesis by (simp add: validSecureOrUnixEndpoint_def)
qed

theorem built_exec_socket_is_outside_compartments_witness:
  "\<not> prefix (absWords ''/run/box'') (absWords (Dir ''/run/exec/s''))"
proof -
  have a: "regAgents (registryOf demoURL demoCfg) ''coder'' = Some demoCoder"
    and d: "Declared (adExec demoCoder)" and g: "gwRefboxSocketDir (cfgGateway demoCfg) \<noteq> ''''"
    by code_simp+
  have u: "ecURL (adExec demoCoder) = UnixScheme @ ''/run/exec/s''"
    and b: "gwRefboxSocketDir (cfgGateway demoCfg) = ''/run/box''" by code_simp+
  show ?thesis
    using built_exec_socket_is_outside_compartments [OF demoCfg_accepted a d g] unfolding u b by simp
qed

text \<open>
  The tool grants of an agent of a built registry say what they mean: each is well shaped
  and names a declared resource, a read-only grant of named tools stays inside that resource's
  read-only list, and a resource granted twice is granted every tool read-write both times, so
  no second grant widens a limited one.
\<close>

theorem built_tool_grants_do_not_widen:
  assumes "Build urlParse cfg = Inr r" and "regAgents r n = Some a"
  shows "list_all (grantFits (cfgGateway cfg)) (adTools a)
    \<and> sorted_wrt (\<lambda>g h. tgResource g = tgResource h \<longrightarrow> EveryToolReadWrite g \<and> EveryToolReadWrite h) (adTools a)"
proof -
  have "grantErrors (cfgGateway cfg) a \<lparr>grantedAll = [], grantedLimited = []\<rparr> (adTools a) = []"
    using registry_agent [OF assms] Build_accepted(2) [OF assms(1)] by (auto simp: agentErrors_def)
  from grantErrors_fit [OF this] grantErrors_no_mixed_repeat [OF this] show ?thesis by blast
qed

theorem built_tool_grants_do_not_widen_witness:
  "list_all (grantFits (cfgGateway demoCfg)) (adTools demoCoder)"
proof -
  have a: "regAgents (registryOf demoURL demoCfg) ''coder'' = Some demoCoder" by code_simp
  show ?thesis using built_tool_grants_do_not_widen [OF demoCfg_accepted a] by blast
qed

end
