(* ===== verification/Origin.thy ===== *)
theory Origin
  imports Utf8
begin

text \<open>
  Package \<^verbatim>\<open>internal/origin\<close>: where a request arrived from, and the one rule that cleans an
  untrusted string. A string is here the sequence of runes Go's range statement yields (an
  invalid byte yields \<open>RuneError\<close>), and \<^verbatim>\<open>unicode.IsPrint\<close> is an argument.
\<close>

record Origin =
  orVia :: runes
  orRemoteAddr :: runes
  orForwardedFor :: runes
  orUserAgent :: runes
  orServerHost :: runes

definition fieldMax :: nat where
  "fieldMax = 200"

text \<open>The loop of \<open>Clean\<close>: \<open>n\<close> is the number of runes written, \<open>b\<close> the builder.\<close>

fun cleanLoop :: "(rune \<Rightarrow> bool) \<Rightarrow> nat \<Rightarrow> runes \<Rightarrow> runes \<Rightarrow> runes" where
  "cleanLoop isPrint n b [] = b"
| "cleanLoop isPrint n b (r # rs) =
     (if r = RuneError \<or> \<not> isPrint r then cleanLoop isPrint n b rs
      else if n = fieldMax then b
      else cleanLoop isPrint (n + 1) (b @ [r]) rs)"

definition cleanRunes :: "(rune \<Rightarrow> bool) \<Rightarrow> runes \<Rightarrow> runes" where
  "cleanRunes isPrint s = cleanLoop isPrint 0 [] s"

definition Sanitized :: "(rune \<Rightarrow> bool) \<Rightarrow> Origin option \<Rightarrow> Origin option" where
  "Sanitized isPrint og =
     (case og of
        None \<Rightarrow> None
      | Some c \<Rightarrow> Some \<lparr>orVia = cleanRunes isPrint (orVia c), orRemoteAddr = cleanRunes isPrint (orRemoteAddr c),
                       orForwardedFor = cleanRunes isPrint (orForwardedFor c),
                       orUserAgent = cleanRunes isPrint (orUserAgent c),
                       orServerHost = cleanRunes isPrint (orServerHost c)\<rparr>)"

lemma cleanLoop_eq:
  "n \<le> fieldMax \<Longrightarrow>
   cleanLoop isPrint n b rs = b @ take (fieldMax - n) (filter (\<lambda>r. r \<noteq> RuneError \<and> isPrint r) rs)"
proof (induction rs arbitrary: n b)
  case (Cons r rs)
  then show ?case by (auto simp: take_Cons')
qed simp

lemma cleanRunes_eq:
  "cleanRunes isPrint s = take fieldMax (filter (\<lambda>r. r \<noteq> RuneError \<and> isPrint r) s)"
  by (simp add: cleanRunes_def cleanLoop_eq)

lemma filter_take_filter: "filter P (take k (filter P xs)) = take k (filter P xs)"
  by (auto simp: filter_id_conv dest: in_set_takeD)

lemma cleanRunes_idem: "cleanRunes isPrint (cleanRunes isPrint s) = cleanRunes isPrint s"
  unfolding cleanRunes_eq filter_take_filter by simp

text \<open>
  A cleaned string is safe to print and bounded: the printable runes of the input, in order,
  cut to 200, so nothing unprintable and no replacement rune survives, a string already clean and
  short is unchanged, and cleaning an \<open>Origin\<close> twice is cleaning it once.
\<close>

theorem cleaning_is_exact_and_idempotent:
  "cleanRunes isPrint s = take fieldMax (filter (\<lambda>r. r \<noteq> RuneError \<and> isPrint r) s)
   \<and> Sanitized isPrint (Sanitized isPrint og) = Sanitized isPrint og"
  by (simp add: cleanRunes_eq [symmetric] Sanitized_def cleanRunes_idem split: option.splits)

end
