(* ===== verification/Artifact.thy ===== *)
theory Artifact
  imports Origin
begin

text \<open>
  Package \<^verbatim>\<open>internal/artifact\<close>: the content-addressed store of artifact bodies. The directory is
  a list of entries in the order \<^verbatim>\<open>os.ReadDir\<close> gives them. \<open>H\<close> is hex(sha256) of a body; a write
  may stop part-way, and a removal or a stat may fail.
\<close>

section \<open>The store\<close>

record dirEntry =
  deName :: bytes
  deIsDir :: bool
  deBody :: bytes
  deModTime :: int

type_synonym artifactDir = "dirEntry list"

fun lookupEntry :: "artifactDir \<Rightarrow> bytes \<Rightarrow> dirEntry option" where
  "lookupEntry [] n = None"
| "lookupEntry (e # es) n = (if deName e = n then Some e else lookupEntry es n)"

text \<open>The words of the body joined by single spaces, at most 200 runes of them.\<close>

definition previewOf :: "bytes \<Rightarrow> bytes" where
  "previewOf body =
     (let preview = joinSpace (stringFields (map (\<lambda>c. if c = newline then CHR '' '' else c) body)); r = runesOf preview
      in if length r > 200 then encodeRunes (take 200 r) else preview)"

text \<open>
  \<open>os.WriteFile\<close>: the body is written; the file is made and the write stops after some bytes; or the
  file cannot be made at all. \<open>Stat\<close> is taken to find the file exactly when it is there.
\<close>

datatype put_outcome = Written | WriteStopped nat | NotCreated

definition Put ::
  "(bytes \<Rightarrow> bytes) \<Rightarrow> int \<Rightarrow> put_outcome \<Rightarrow> artifactDir \<Rightarrow> bytes \<Rightarrow> artifactDir \<times> (bytes \<times> bytes) option" where
  "Put H now io dir body =
     (let sha = H body; preview = previewOf body
      in if lookupEntry dir sha \<noteq> None then (dir, Some (sha, preview))
         else (case io of
                 Written \<Rightarrow> (dir @ [\<lparr>deName = sha, deIsDir = False, deBody = body, deModTime = now\<rparr>], Some (sha, preview))
               | WriteStopped k \<Rightarrow>
                   (dir @ [\<lparr>deName = sha, deIsDir = False, deBody = take k body, deModTime = now\<rparr>], None)
               | NotCreated \<Rightarrow> (dir, None)))"

definition Get :: "artifactDir \<Rightarrow> bytes \<Rightarrow> bytes option" where
  "Get dir sha =
     (case lookupEntry dir sha of None \<Rightarrow> None | Some e \<Rightarrow> if deIsDir e then None else Some (deBody e))"

definition isArtifactName :: "bytes \<Rightarrow> bool" where
  "isArtifactName name = (if length name \<noteq> 64 then False else list_all lower_hex name)"

text \<open>One entry of the sweep: \<open>infoFails\<close> and \<open>removeFails\<close> are the host's answers for it.\<close>

definition sweeps :: "int \<Rightarrow> (bytes \<Rightarrow> bool) \<Rightarrow> (bytes \<Rightarrow> bool) \<Rightarrow> dirEntry \<Rightarrow> bool" where
  "sweeps cutoff infoFails removeFails e \<longleftrightarrow>
     \<not> (deIsDir e \<or> \<not> isArtifactName (deName e)) \<and> \<not> infoFails (deName e)
     \<and> deModTime e < cutoff \<and> \<not> removeFails (deName e)"

fun pruneLoop ::
  "int \<Rightarrow> (bytes \<Rightarrow> bool) \<Rightarrow> (bytes \<Rightarrow> bool) \<Rightarrow> artifactDir \<Rightarrow> artifactDir \<Rightarrow> nat \<Rightarrow> artifactDir \<times> nat" where
  "pruneLoop cutoff infoFails removeFails [] kept n = (kept, n)"
| "pruneLoop cutoff infoFails removeFails (e # es) kept n =
     (if sweeps cutoff infoFails removeFails e then pruneLoop cutoff infoFails removeFails es kept (n + 1)
      else pruneLoop cutoff infoFails removeFails es (kept @ [e]) n)"

definition Prune ::
  "int \<Rightarrow> int \<Rightarrow> (bytes \<Rightarrow> bool) \<Rightarrow> (bytes \<Rightarrow> bool) \<Rightarrow> artifactDir \<Rightarrow> artifactDir \<times> nat" where
  "Prune now olderThan infoFails removeFails dir = pruneLoop (now - olderThan) infoFails removeFails dir [] 0"

section \<open>Lemmas\<close>

definition storeOk :: "(bytes \<Rightarrow> bytes) \<Rightarrow> artifactDir \<Rightarrow> bool" where
  "storeOk H dir \<longleftrightarrow> list_all (\<lambda>e. \<not> deIsDir e \<and> isArtifactName (deName e) \<longrightarrow> H (deBody e) = deName e) dir"

lemma lookupEntry_append:
  "lookupEntry (xs @ ys) n = (case lookupEntry xs n of None \<Rightarrow> lookupEntry ys n | Some e \<Rightarrow> Some e)"
  by (induction xs) auto

lemma lookupEntry_Some: "lookupEntry dir n = Some e \<Longrightarrow> e \<in> set dir \<and> deName e = n"
  by (induction dir) (auto split: if_splits)

lemma pruneLoop_eq:
  "pruneLoop cutoff infoFails removeFails es kept n =
     (kept @ filter (\<lambda>e. \<not> sweeps cutoff infoFails removeFails e) es,
      n + length (filter (sweeps cutoff infoFails removeFails) es))"
  by (induction es arbitrary: kept n) auto

section \<open>Properties\<close>

text \<open>
  As long as no write stops part-way, the store is content-addressed: a stored body is read
  back under the name \<open>Put\<close> returned, under a hash without collisions it is the body that was put,
  and the store stays sound.
\<close>

theorem put_then_get:
  assumes "storeOk H dir" and "isArtifactName (H body)" and "list_all (\<lambda>e. deName e = H body \<longrightarrow> \<not> deIsDir e) dir"
    and "\<And>b. H b = H body \<Longrightarrow> b = body"
  shows "case Put H now Written dir body of (dir', r) \<Rightarrow>
    r = Some (H body, previewOf body) \<and> Get dir' (H body) = Some body \<and> storeOk H dir'"
proof (cases "lookupEntry dir (H body)")
  case None
  with assms(1) show ?thesis
    by (simp add: Put_def Let_def Get_def lookupEntry_append storeOk_def)
next
  case (Some e)
  note e = lookupEntry_Some [OF Some]
  with assms(1-3) have "\<not> deIsDir e" "H (deBody e) = H body"
    by (auto simp: storeOk_def list_all_iff)
  with Some assms(1) assms(4) [of "deBody e"] show ?thesis by (simp add: Put_def Let_def Get_def)
qed

definition hexOf :: "bytes \<Rightarrow> bytes" where
  "hexOf body = (if body = ''w'' then replicate 64 CHR ''a'' else replicate 64 CHR ''b'')"

theorem put_then_get_witness:
  "Get (fst (Put hexOf 0 Written [] ''w'')) (replicate 64 CHR ''a'') = Some ''w''"
proof -
  have s: "storeOk hexOf []" and n: "isArtifactName (hexOf ''w'')"
    and d: "list_all (\<lambda>e. deName e = hexOf ''w'' \<longrightarrow> \<not> deIsDir e) []" by code_simp+
  have c: "\<And>b. hexOf b = hexOf ''w'' \<Longrightarrow> b = ''w''" by (simp add: hexOf_def split: if_splits)
  have h: "hexOf ''w'' = replicate 64 CHR ''a''" by code_simp
  show ?thesis
    using put_then_get [OF s n d c, of 0] unfolding h by (auto split: prod.splits)
qed

text \<open>
  C27: a body whose write stopped part-way stays under the name of the whole body: the failed
  \<open>Put\<close> reports its error, but putting the same body again reports success without writing, and
  the store returns the truncated body under the full body's hash.
\<close>

theorem stopped_put_poisons_the_name:
  assumes "lookupEntry dir (H body) = None" and "k < length body"
  shows "case Put H now (WriteStopped k) dir body of (dir', r) \<Rightarrow>
    r = None \<and> Put H now' io dir' body = (dir', Some (H body, previewOf body))
    \<and> Get dir' (H body) = Some (take k body) \<and> take k body \<noteq> body"
proof -
  have "take k body \<noteq> body" using assms(2) by (metis length_take min.strict_order_iff nless_le min.absorb2)
  with assms show ?thesis by (simp add: Put_def Let_def Get_def lookupEntry_append)
qed

theorem stopped_put_poisons_the_name_witness:
  "Get (fst (Put hexOf 0 (WriteStopped 1) [] ''xy'')) (hexOf ''xy'') = Some ''x''"
proof -
  have l: "lookupEntry [] (hexOf ''xy'') = None" and k: "(1::nat) < length ''xy''" by simp_all
  show ?thesis
    using stopped_put_poisons_the_name [where H = hexOf and body = "''xy''" and now = 0
        and now' = 0 and io = Written, OF l k] by (auto split: prod.splits)
qed

text \<open>What a sweep must never touch: directories, other names, young files.\<close>

definition untouchable :: "int \<Rightarrow> dirEntry \<Rightarrow> bool" where
  "untouchable cutoff e \<longleftrightarrow> deIsDir e \<or> \<not> lower_hex_string 64 (deName e) \<or> deModTime e \<ge> cutoff"

text \<open>
  Pruning removes nothing but artifacts that are old: what is left is the directory without
  exactly the swept entries, in order, every entry that is a directory, is not named by a
  lowercase-hex sha256 or is young is still there, and the count is the number removed.
\<close>

theorem prune_removes_only_old_artifacts:
  "Prune now olderThan infoFails removeFails dir =
     (filter (\<lambda>e. \<not> sweeps (now - olderThan) infoFails removeFails e) dir,
      length dir - length (fst (Prune now olderThan infoFails removeFails dir)))
   \<and> filter (untouchable (now - olderThan))
       (fst (Prune now olderThan infoFails removeFails dir))
     = filter (untouchable (now - olderThan)) dir"
proof -
  let ?sw = "sweeps (now - olderThan) infoFails removeFails"
  let ?keep = "untouchable (now - olderThan)"
  have P: "Prune now olderThan infoFails removeFails dir = (filter (\<lambda>e. \<not> ?sw e) dir, length (filter ?sw dir))"
    by (simp add: Prune_def pruneLoop_eq)
  have "length (filter ?sw dir) = length dir - length (filter (\<lambda>e. \<not> ?sw e) dir)"
    using sum_length_filter_compl [of ?sw dir] by simp
  moreover have "\<not> ?sw e" if "?keep e" for e
    using that by (auto simp: untouchable_def sweeps_def isArtifactName_def lower_hex_string_def)
  then have "filter ?keep (filter (\<lambda>e. \<not> ?sw e) dir) = filter ?keep dir"
    unfolding filter_filter by (intro filter_cong refl) blast
  ultimately show ?thesis unfolding P by simp
qed

end
