(* ===== verification/Engine.thy ===== *)
theory Engine
  imports Registry Origin
begin

text \<open>
  Package \<^verbatim>\<open>internal/engine\<close>: the run's events and binding (\<^verbatim>\<open>events.go\<close>), the admission gate
  (\<^verbatim>\<open>admit.go\<close>), refusals (\<^verbatim>\<open>refuse.go\<close>) and the run itself (\<^verbatim>\<open>engine.go\<close>), a loop over the
  workflow's steps with fail-back edges.

  What the run asks of the world is an \<open>engineEnv\<close>, indexed by the iteration of the loop: whether
  the run's context is over, whether the gateway starts, the door events it appends and the count
  its \<open>Stop\<close> returns, the executor's answer, the artifact store's answer, and the clock. The log is
  any handle with an append operation, given the number of the attempt so that an attempt may
  fail; the theory \<open>Run_Log\<close> instantiates it with the hash chain. Diagnostics (\<^verbatim>\<open>slog\<close>) are left out.
  \<^verbatim>\<open>strconv.Quote\<close> is an argument.
\<close>

section \<open>Events and bindings\<close>

record Binding =
  bdInvoker :: Invoker
  bdRole :: bytes
  bdWorkflow :: bytes
  bdRunID :: bytes
  bdParentRunID :: bytes
  bdDepth :: int

definition linkedTo :: "Binding \<Rightarrow> Binding option \<Rightarrow> Binding" where
  "linkedTo b parent =
     (case parent of
        None \<Rightarrow> b
      | Some p \<Rightarrow> b\<lparr>bdParentRunID := bdRunID p, bdDepth := bdDepth p + 1\<rparr>)"

record RuntimeAttestation =
  raRuntime :: bytes
  raSession :: bytes
  raCommand :: "bytes list"
  raPID :: int
  raSpawn :: int
  raCredentialEnv :: bytes
  raEnvNames :: "bytes list"
  raMaterialization :: bytes
  raConfiner :: bytes
  raConfinerOpts :: "bytes list"

definition DoorAccountingAdmission :: bytes where
  "DoorAccountingAdmission = ''admission''"

record Event =
  evTime :: nat
  evType :: bytes
  evStep :: bytes
  evAgent :: bytes
  evStatus :: bytes
  evReason :: bytes
  evArtifact :: bytes
  evArtifactSHA :: bytes
  evExecution :: bytes
  evConfigHash :: bytes
  evAuthMode :: bytes
  evResourcesTouched :: "bytes list"
  evTool :: bytes
  evArgsSHA :: bytes
  evCommand :: "bytes list"
  evExitCode :: "int option"
  evOutputSHA :: bytes
  evMode :: bytes
  evModel :: bytes
  evPromptTokens :: "int option"
  evCompletionTokens :: "int option"
  evChildRunID :: bytes
  evChildRole :: bytes
  evChildWorkflow :: bytes
  evDepth :: int
  evChildConfiner :: bytes
  evChildConfinerOpts :: "bytes list"
  evDoorCalls :: "int option"
  evDoorAccounting :: bytes
  evRuntimeAttestation :: "RuntimeAttestation option"
  evActor :: bytes
  evPrincipal :: bytes
  evOrigin :: "Origin option"
  evBinding :: Binding
  evPrev :: bytes

definition noInvoker :: Invoker where
  "noInvoker = \<lparr>invSubject = '''', invIssuer = '''', invMethod = '''', invGroups = []\<rparr>"

definition noBinding :: Binding where
  "noBinding = \<lparr>bdInvoker = noInvoker, bdRole = '''', bdWorkflow = '''', bdRunID = '''', bdParentRunID = '''', bdDepth = 0\<rparr>"

text \<open>The zero value of the struct, and one with its type set.\<close>

definition event :: "bytes \<Rightarrow> Event" where
  "event ty = \<lparr>evTime = 0, evType = ty, evStep = '''', evAgent = '''', evStatus = '''', evReason = '''',
     evArtifact = '''', evArtifactSHA = '''', evExecution = '''', evConfigHash = '''', evAuthMode = '''',
     evResourcesTouched = [], evTool = '''', evArgsSHA = '''', evCommand = [], evExitCode = None, evOutputSHA = '''',
     evMode = '''', evModel = '''', evPromptTokens = None, evCompletionTokens = None, evChildRunID = '''',
     evChildRole = '''', evChildWorkflow = '''', evDepth = 0, evChildConfiner = '''', evChildConfinerOpts = [],
     evDoorCalls = None, evDoorAccounting = '''', evRuntimeAttestation = None, evActor = '''', evPrincipal = '''',
     evOrigin = None, evBinding = noBinding, evPrev = ''''\<rparr>"

text \<open>A run id: the two characters and sixteen hex digits of the eight bytes the host drew.\<close>

definition NewRunID :: "bytes \<Rightarrow> bytes" where
  "NewRunID drawn = ''r-'' @ hexBytes drawn"

section \<open>Admission\<close>

definition joinComma :: "bytes list \<Rightarrow> bytes" where
  "joinComma xs = (case xs of [] \<Rightarrow> [] | y # ys \<Rightarrow> y @ concat (map (\<lambda>z. '', '' @ z) ys))"

text \<open>\<^const>\<open>None\<close> admits; otherwise the reason to record.\<close>

definition Admit :: "(bytes \<Rightarrow> bytes) \<Rightarrow> Registry \<Rightarrow> bytes \<Rightarrow> bytes \<Rightarrow> Invoker \<Rightarrow> bytes option" where
  "Admit q reg role workflow invk =
     (case regRoles reg role of
        None \<Rightarrow> Some (''role '' @ q role @ '' is not in the registry'')
      | Some ro \<Rightarrow>
          if regWorkflows reg workflow = None
          then Some (''workflow '' @ q workflow @ '' is not in the registry'')
          else if \<not> RoleOwnsWorkflow reg role workflow
          then Some (''role '' @ q role @ '' does not own workflow '' @ q workflow)
          else if \<not> GroupsAllow (invGroups invk) (rdAllowedGroups ro)
          then Some (''role '' @ q role @ '' requires membership in one of its allowed groups (''
                     @ joinComma (rdAllowedGroups ro) @ ''); the invoker's groups don't qualify'')
          else None)"

section \<open>The state of a run\<close>

record StepResult =
  srArtifact :: bytes
  srSuccess :: bool
  srReason :: bytes

record RunResult =
  rrRunID :: bytes
  rrStatus :: bytes
  rrOutputSHA :: bytes
  rrOutputPreview :: bytes

datatype run_error = RefusalError bytes | ErrLedgerWrite | StoreError bytes | OpenError

text \<open>An executor's error: its text and whether it wraps \<open>ErrStepConfig\<close>.\<close>

record ExecError =
  exText :: bytes
  exConfig :: bool

record engineEnv =
  envOver :: "nat \<Rightarrow> bool"
  envOverAfterFailure :: "nat \<Rightarrow> bool"
  envGatewayStarts :: "nat \<Rightarrow> bool"
  envDoors :: "nat \<Rightarrow> Event list"
  envStop :: "nat \<Rightarrow> int"
  envExecute :: "nat \<Rightarrow> AgentDef \<Rightarrow> bytes \<Rightarrow> (bytes \<rightharpoonup> bytes) \<Rightarrow> StepResult \<times> ExecError option"
  envPut :: "nat \<Rightarrow> bytes \<Rightarrow> bytes + bytes \<times> bytes"
  envNow :: "nat \<Rightarrow> nat"

record 'h runCtx =
  rxReg :: Registry
  rxSteps :: "Step list"
  rxInput :: bytes
  rxBind :: Binding
  rxGateway :: bool
  rxEnv :: engineEnv
  rxAppend :: "nat \<Rightarrow> 'h \<Rightarrow> Event \<Rightarrow> 'h \<times> bool"
  rxQuote :: "bytes \<Rightarrow> bytes"

record 'h runState =
  rsLog :: 'h
  rsLogErr :: bool
  rsAttempts :: nat
  rsIter :: nat
  rsI :: nat
  rsArtifacts :: "bytes \<rightharpoonup> bytes"
  rsBounces :: "bytes \<Rightarrow> int"
  rsLastSHA :: bytes
  rsLastPreview :: bytes

section \<open>Emitting\<close>

definition stamp :: "'h runCtx \<Rightarrow> 'h runState \<Rightarrow> Event \<Rightarrow> Event" where
  "stamp x st e = e\<lparr>evTime := envNow (rxEnv x) (rsAttempts st), evBinding := rxBind x\<rparr>"

definition emit :: "'h runCtx \<Rightarrow> Event \<Rightarrow> 'h runState \<Rightarrow> 'h runState" where
  "emit x e st =
     (if rsLogErr st then st
      else case rxAppend x (rsAttempts st) (rsLog st) (stamp x st e) of
             (h, ok) \<Rightarrow> st\<lparr>rsLog := h, rsLogErr := \<not> ok, rsAttempts := rsAttempts st + 1\<rparr>)"

text \<open>The gateway's appender: its error is dropped and the engine's flag is not touched.\<close>

definition appendEvent :: "'h runCtx \<Rightarrow> Event \<Rightarrow> 'h runState \<Rightarrow> 'h runState" where
  "appendEvent x e st =
     (case rxAppend x (rsAttempts st) (rsLog st) (stamp x st e) of
        (h, ok) \<Rightarrow> st\<lparr>rsLog := h, rsAttempts := rsAttempts st + 1\<rparr>)"

definition finishStep :: "'h runCtx \<Rightarrow> bool \<Rightarrow> Event \<Rightarrow> int \<Rightarrow> 'h runState \<Rightarrow> 'h runState" where
  "finishStep x ok e doorCalls st =
     emit x (e\<lparr>evType := if ok then ''step_succeeded'' else ''step_failed'', evDoorCalls := Some doorCalls\<rparr>) st"

section \<open>One iteration of the step loop\<close>

definition defaultMaxBounces :: int where
  "defaultMaxBounces = 2"

definition reasonArtifactStoreWriteFailed :: bytes where
  "reasonArtifactStoreWriteFailed = ''artifact store write failed''"

definition zeroAgent :: AgentDef where
  "zeroAgent = \<lparr>adName = '''', adDescription = '''', adEnabled = None, adModel = '''', adInstruction = '''',
     adTools = [], adOutput = '''', adExecution = '''', adEndpoint = '''',
     adExec = \<lparr>ecAllow = [], ecRuntime = '''', ecURL = '''', ecTimeout = 0\<rparr>, adMaySpawn = [], adSourceFile = ''''\<rparr>"

datatype 'h outcome = Next "'h runState" | Stop "'h runState" RunResult "run_error list"

definition resultOf :: "'h runCtx \<Rightarrow> bytes \<Rightarrow> RunResult" where
  "resultOf x status = \<lparr>rrRunID = bdRunID (rxBind x), rrStatus = status, rrOutputSHA = '''', rrOutputPreview = ''''\<rparr>"

text \<open>An exit: \<open>ledgerFailed\<close> when an append has failed, otherwise the given result.\<close>

definition leave :: "'h runCtx \<Rightarrow> bytes \<Rightarrow> 'h runState \<Rightarrow> 'h outcome" where
  "leave x status st =
     (if rsLogErr st then Stop st (resultOf x ''failed'') [ErrLedgerWrite] else Stop st (resultOf x status) [])"

definition finished :: "bytes \<Rightarrow> bytes \<Rightarrow> Event" where
  "finished status reason = (event ''workflow_finished'')\<lparr>evStatus := status, evReason := reason\<rparr>"

fun stepNamed :: "bytes \<Rightarrow> nat \<Rightarrow> Step list \<Rightarrow> nat option" where
  "stepNamed target j [] = None"
| "stepNamed target j (s # ss) = (if spName s = target then Some j else stepNamed target (j + 1) ss)"

definition bounceCap :: "Step \<Rightarrow> int" where
  "bounceCap s = (if spMaxBounces s = 0 then defaultMaxBounces else spMaxBounces s)"

definition failBackTarget :: "Step list \<Rightarrow> nat \<Rightarrow> bytes" where
  "failBackTarget steps i =
     (if spOnFailure (steps ! i) = '''' \<and> i > 0 then spName (steps ! (i - 1)) else spOnFailure (steps ! i))"

definition failBack :: "'h runCtx \<Rightarrow> Step \<Rightarrow> bytes \<Rightarrow> 'h runState \<Rightarrow> 'h outcome" where
  "failBack x step reason st =
     (let target = failBackTarget (rxSteps x) (rsI st);
          cap = bounceCap step;
          n = rsBounces st (spName step) + 1;
          st = st\<lparr>rsBounces := (rsBounces st)(spName step := n)\<rparr>
      in if target = '''' \<or> n > cap then
           leave x ''failed''
             (emit x (finished ''failed''
                (if target \<noteq> '''' then ''step '' @ rxQuote x (spName step) @ '' exhausted its '' @ showInt cap
                                   @ '' bounce(s): '' @ reason
                 else reason)) st)
         else
           let st = emit x ((event ''bounced_back'')\<lparr>evStep := spName step, evStatus := target, evReason := reason\<rparr>) st
           in Next (case stepNamed target 0 (rxSteps x) of None \<Rightarrow> st | Some j \<Rightarrow> st\<lparr>rsI := j\<rparr>))"

definition stepEvent :: "Step \<Rightarrow> AgentDef \<Rightarrow> Event" where
  "stepEvent step agent =
     (event '''')\<lparr>evStep := spName step, evAgent := adName agent, evExecution := EffectiveExecution agent\<rparr>"

definition cancelRun :: "'h runCtx \<Rightarrow> 'h runState \<Rightarrow> 'h outcome" where
  "cancelRun x st = leave x ''cancelled'' (emit x (finished ''cancelled'' ''run cancelled'') st)"

definition stepFailed :: "'h runCtx \<Rightarrow> nat \<Rightarrow> Step \<Rightarrow> AgentDef \<Rightarrow> bytes \<Rightarrow> int \<Rightarrow> 'h runState \<Rightarrow> 'h outcome" where
  "stepFailed x k step agent reason doorCalls st =
     (let st = finishStep x False ((stepEvent step agent)\<lparr>evReason := reason\<rparr>) doorCalls st
      in if envOverAfterFailure (rxEnv x) k
         then cancelRun x st
         else failBack x step reason st)"

definition stepSucceeded ::
  "'h runCtx \<Rightarrow> nat \<Rightarrow> Step \<Rightarrow> AgentDef \<Rightarrow> bytes \<Rightarrow> int \<Rightarrow> 'h runState \<Rightarrow> 'h outcome" where
  "stepSucceeded x k step agent art doorCalls st =
     (case (if art \<noteq> '''' then envPut (rxEnv x) k art else Inr ('''', '''')) of
        Inl perr \<Rightarrow>
          let st = finishStep x False ((stepEvent step agent)\<lparr>evReason := reasonArtifactStoreWriteFailed\<rparr>) doorCalls st;
              st = emit x (finished ''failed'' (''artifact store: '' @ perr)) st
          in if rsLogErr st then Stop st (resultOf x ''failed'') [StoreError perr, ErrLedgerWrite]
             else Stop st (resultOf x ''failed'') [StoreError perr]
      | Inr (sha, preview) \<Rightarrow>
          let st = (if adOutput agent \<noteq> '''' then st\<lparr>rsArtifacts := (rsArtifacts st)(adOutput agent \<mapsto> art)\<rparr> else st);
              st = st\<lparr>rsLastSHA := sha, rsLastPreview := preview\<rparr>;
              st = finishStep x True ((stepEvent step agent)\<lparr>evArtifact := preview, evArtifactSHA := sha\<rparr>) doorCalls st
          in Next (st\<lparr>rsI := rsI st + 1\<rparr>))"

text \<open>The step at hand, its agent (the zero value when the registry has none) and its tier.\<close>

definition stepOf :: "'h runCtx \<Rightarrow> 'h runState \<Rightarrow> Step" where
  "stepOf x st = rxSteps x ! rsI st"

definition agentOf :: "'h runCtx \<Rightarrow> 'h runState \<Rightarrow> AgentDef" where
  "agentOf x st = (case regAgents (rxReg x) (spAgent (stepOf x st)) of None \<Rightarrow> zeroAgent | Some a \<Rightarrow> a)"

definition fronted :: "'h runCtx \<Rightarrow> 'h runState \<Rightarrow> bool" where
  "fronted x st \<longleftrightarrow> rxGateway x \<and> EffectiveExecution (agentOf x st) = ''fronted''"

definition beginStep :: "'h runCtx \<Rightarrow> 'h runState \<Rightarrow> 'h runState" where
  "beginStep x st = emit x ((stepEvent (stepOf x st) (agentOf x st))\<lparr>evType := ''step_started''\<rparr>) st"

text \<open>The step's window while the agent works: the doors the gateway served, and their count.\<close>

definition serveDoors :: "'h runCtx \<Rightarrow> nat \<Rightarrow> 'h runState \<Rightarrow> 'h runState" where
  "serveDoors x k st = (if fronted x st then fold (appendEvent x) (envDoors (rxEnv x) k) st else st)"

definition doorCallsOf :: "'h runCtx \<Rightarrow> nat \<Rightarrow> 'h runState \<Rightarrow> int" where
  "doorCallsOf x k st = (if fronted x st then envStop (rxEnv x) k else 0)"

definition failRun :: "'h runCtx \<Rightarrow> bytes \<Rightarrow> int \<Rightarrow> 'h runState \<Rightarrow> 'h outcome" where
  "failRun x reason doorCalls st =
     leave x ''failed''
       (emit x (finished ''failed'' reason)
         (finishStep x False ((stepEvent (stepOf x st) (agentOf x st))\<lparr>evReason := reason\<rparr>) doorCalls st))"

definition concludeStep :: "'h runCtx \<Rightarrow> nat \<Rightarrow> int \<Rightarrow> 'h runState \<Rightarrow> 'h outcome" where
  "concludeStep x k n st =
     (case envExecute (rxEnv x) k (agentOf x st) (rxInput x) (rsArtifacts st) of
        (res, Some err) \<Rightarrow>
          if exConfig err then failRun x (exText err) n st
          else stepFailed x k (stepOf x st) (agentOf x st) (exText err) n st
      | (res, None) \<Rightarrow>
          if srSuccess res then stepSucceeded x k (stepOf x st) (agentOf x st) (srArtifact res) n st
          else stepFailed x k (stepOf x st) (agentOf x st) (srReason res) n st)"

definition runStep :: "'h runCtx \<Rightarrow> 'h runState \<Rightarrow> 'h outcome" where
  "runStep x st =
     (let k = rsIter st;
          st = st\<lparr>rsIter := k + 1\<rparr>
      in if rsLogErr st then leave x ''failed'' st
         else if envOver (rxEnv x) k then cancelRun x st
         else
           let st = beginStep x st
           in if fronted x st \<and> \<not> envGatewayStarts (rxEnv x) k then failRun x ''tool proxy start failed'' 0 st
              else concludeStep x k (doorCallsOf x k st) (serveDoors x k st))"

section \<open>The step loop ends\<close>

lemma emit_frame [frame_simps]:
  "rsIter (emit x e st) = rsIter st" "rsI (emit x e st) = rsI st" "rsArtifacts (emit x e st) = rsArtifacts st"
  "rsBounces (emit x e st) = rsBounces st" "rsLastSHA (emit x e st) = rsLastSHA st"
  "rsLastPreview (emit x e st) = rsLastPreview st"
  by (simp_all add: emit_def split: prod.splits)

lemma finishStep_frame [frame_simps]:
  "rsIter (finishStep x ok e n st) = rsIter st" "rsI (finishStep x ok e n st) = rsI st"
  "rsArtifacts (finishStep x ok e n st) = rsArtifacts st" "rsBounces (finishStep x ok e n st) = rsBounces st"
  "rsLastSHA (finishStep x ok e n st) = rsLastSHA st" "rsLastPreview (finishStep x ok e n st) = rsLastPreview st"
  by (simp_all add: finishStep_def frame_simps)

lemma appendEvent_frame [frame_simps]:
  "rsIter (appendEvent x e st) = rsIter st" "rsI (appendEvent x e st) = rsI st"
  "rsArtifacts (appendEvent x e st) = rsArtifacts st" "rsBounces (appendEvent x e st) = rsBounces st"
  "rsLogErr (appendEvent x e st) = rsLogErr st" "rsLastSHA (appendEvent x e st) = rsLastSHA st"
  "rsLastPreview (appendEvent x e st) = rsLastPreview st"
  by (simp_all add: appendEvent_def split: prod.splits)

lemma doors_frame [frame_simps]:
  "rsIter (fold (appendEvent x) es st) = rsIter st" "rsI (fold (appendEvent x) es st) = rsI st"
  "rsArtifacts (fold (appendEvent x) es st) = rsArtifacts st" "rsBounces (fold (appendEvent x) es st) = rsBounces st"
  "rsLogErr (fold (appendEvent x) es st) = rsLogErr st" "rsLastSHA (fold (appendEvent x) es st) = rsLastSHA st"
  "rsLastPreview (fold (appendEvent x) es st) = rsLastPreview st"
  by (induction es arbitrary: st) (simp_all add: frame_simps)

text \<open>
  A continuing iteration either went on to the next step with the bounce counts as they were, or
  bounced: the count of the step's name went up by one and was below the step's cap.
\<close>

definition advanced :: "'h runState \<Rightarrow> 'h runState \<Rightarrow> bool" where
  "advanced st st' \<longleftrightarrow> rsI st' = rsI st + 1 \<and> rsBounces st' = rsBounces st"

definition bounced :: "'h runCtx \<Rightarrow> 'h runState \<Rightarrow> 'h runState \<Rightarrow> bool" where
  "bounced x st st' \<longleftrightarrow>
     (let s = rxSteps x ! rsI st
      in rsBounces st (spName s) < bounceCap s \<and> failBackTarget (rxSteps x) (rsI st) \<noteq> ''''
         \<and> rsBounces st' = (rsBounces st)(spName s := rsBounces st (spName s) + 1)
         \<and> rsI st' = (case stepNamed (failBackTarget (rxSteps x) (rsI st)) 0 (rxSteps x) of
                        None \<Rightarrow> rsI st | Some j \<Rightarrow> j))"

lemma bounced_cong:
  "rsI st2 = rsI st \<Longrightarrow> rsBounces st2 = rsBounces st \<Longrightarrow> bounced x st2 st' = bounced x st st'"
  by (simp add: bounced_def cong: option.case_cong)

lemma leave_not_Next [simp]: "leave x s st \<noteq> Next st'" "Next st' \<noteq> leave x s st"
  by (simp_all add: leave_def)

lemma failBack_Next:
  assumes "failBack x (rxSteps x ! rsI st) reason st = Next st'"
  shows "rsIter st' = rsIter st \<and> bounced x st st'"
  using assms
  by (auto simp: failBack_def bounced_def Let_def frame_simps split: if_splits option.splits)

lemma stepFailed_Next:
  assumes "stepFailed x k (rxSteps x ! rsI st) agent reason n st = Next st'"
  shows "rsIter st' = rsIter st \<and> bounced x st st'"
proof -
  let ?st = "finishStep x False ((stepEvent (rxSteps x ! rsI st) agent)\<lparr>evReason := reason\<rparr>) n st"
  have "failBack x (rxSteps x ! rsI ?st) reason ?st = Next st'"
    using assms by (auto simp: stepFailed_def cancelRun_def Let_def frame_simps split: if_splits)
  from failBack_Next [OF this] show ?thesis
    using bounced_cong [of ?st st x st'] by (simp add: frame_simps)
qed

lemma stepSucceeded_Next:
  "stepSucceeded x k step agent art n st = Next st' \<Longrightarrow> rsIter st' = rsIter st \<and> advanced st st'"
  by (auto simp: stepSucceeded_def advanced_def Let_def frame_simps split: sum.splits if_splits)

lemma stepOf_cong: "rsI st2 = rsI st \<Longrightarrow> stepOf x st2 = stepOf x st"
  by (simp add: stepOf_def)

lemma agentOf_cong: "rsI st2 = rsI st \<Longrightarrow> agentOf x st2 = agentOf x st"
  by (simp add: agentOf_def stepOf_def)

lemma beginStep_frame [frame_simps]:
  "rsIter (beginStep x st) = rsIter st" "rsI (beginStep x st) = rsI st" "rsArtifacts (beginStep x st) = rsArtifacts st"
  "rsBounces (beginStep x st) = rsBounces st" "rsLastSHA (beginStep x st) = rsLastSHA st"
  "rsLastPreview (beginStep x st) = rsLastPreview st"
  by (simp_all add: beginStep_def frame_simps)

lemma serveDoors_frame [frame_simps]:
  "rsIter (serveDoors x k st) = rsIter st" "rsI (serveDoors x k st) = rsI st"
  "rsArtifacts (serveDoors x k st) = rsArtifacts st" "rsBounces (serveDoors x k st) = rsBounces st"
  "rsLogErr (serveDoors x k st) = rsLogErr st" "rsLastSHA (serveDoors x k st) = rsLastSHA st"
  "rsLastPreview (serveDoors x k st) = rsLastPreview st"
  by (simp_all add: serveDoors_def frame_simps)

text \<open>The states inside an iteration: the window just opened, and the doors served in it.\<close>

definition opened :: "'h runCtx \<Rightarrow> 'h runState \<Rightarrow> 'h runState" where
  "opened x st = beginStep x (st\<lparr>rsIter := rsIter st + 1\<rparr>)"

definition served :: "'h runCtx \<Rightarrow> 'h runState \<Rightarrow> 'h runState" where
  "served x st = serveDoors x (rsIter st) (opened x st)"

lemma opened_frame [frame_simps]:
  "rsIter (opened x st) = rsIter st + 1" "rsI (opened x st) = rsI st" "rsBounces (opened x st) = rsBounces st"
  by (simp_all add: opened_def frame_simps)

lemma served_frame [frame_simps]:
  "rsIter (served x st) = rsIter st + 1" "rsI (served x st) = rsI st" "rsBounces (served x st) = rsBounces st"
  by (simp_all add: served_def frame_simps)

text \<open>Every way through an iteration, once.\<close>

lemma runStep_cases:
  obtains (ledger) "rsLogErr st" "runStep x st = leave x ''failed'' (st\<lparr>rsIter := rsIter st + 1\<rparr>)"
  | (over) "\<not> rsLogErr st" "runStep x st = cancelRun x (st\<lparr>rsIter := rsIter st + 1\<rparr>)"
  | (noGateway) "\<not> rsLogErr st" "runStep x st = failRun x ''tool proxy start failed'' 0 (opened x st)"
  | (config) n reason where "\<not> rsLogErr st" "n = doorCallsOf x (rsIter st) (opened x st)"
      "runStep x st = failRun x reason n (served x st)"
  | (failure) n reason where "\<not> rsLogErr st" "n = doorCallsOf x (rsIter st) (opened x st)"
      "runStep x st = stepFailed x (rsIter st) (stepOf x (served x st)) (agentOf x (served x st)) reason n (served x st)"
  | (success) n art where "\<not> rsLogErr st" "n = doorCallsOf x (rsIter st) (opened x st)"
      "runStep x st = stepSucceeded x (rsIter st) (stepOf x (served x st)) (agentOf x (served x st)) art n (served x st)"
proof -
  show thesis
  proof (cases "rsLogErr st")
    case True
    then show thesis by (intro ledger) (simp_all add: runStep_def)
  next
    case ok: False
    show thesis
    proof (cases "envOver (rxEnv x) (rsIter st)")
      case True
      with ok show thesis by (intro over) (simp_all add: runStep_def)
    next
      case notOver: False
      show thesis
      proof (cases "fronted x (opened x st) \<and> \<not> envGatewayStarts (rxEnv x) (rsIter st)")
        case True
        with ok notOver show thesis by (intro noGateway) (simp_all add: runStep_def opened_def)
      next
        case False
        let ?n = "doorCallsOf x (rsIter st) (opened x st)"
        have r: "runStep x st = concludeStep x (rsIter st) ?n (served x st)"
          using ok notOver False by (auto simp: runStep_def opened_def served_def Let_def)
        obtain res err where "envExecute (rxEnv x) (rsIter st) (agentOf x (served x st)) (rxInput x)
            (rsArtifacts (served x st)) = (res, err)" by fastforce
        then show thesis
          using ok r config [of ?n] failure [of ?n] success [of ?n]
          by (cases err) (auto simp: concludeStep_def split: if_splits)
      qed
    qed
  qed
qed

lemma runStep_Next:
  assumes "runStep x st = Next st'"
  shows "rsIter st' = rsIter st + 1 \<and> (advanced st st' \<or> bounced x st st')"
proof (cases rule: runStep_cases [of st x])
  case (failure n reason)
  then have "stepFailed x (rsIter st) (rxSteps x ! rsI (served x st)) (agentOf x (served x st)) reason n (served x st) = Next st'"
    using assms by (simp add: stepOf_def)
  from stepFailed_Next [OF this] show ?thesis
    using bounced_cong [of "served x st" st x st'] by (simp add: frame_simps)
next
  case (success n art)
  then have "stepSucceeded x (rsIter st) (stepOf x (served x st)) (agentOf x (served x st)) art n (served x st) = Next st'"
    using assms by simp
  from stepSucceeded_Next [OF this] show ?thesis by (simp add: advanced_def frame_simps)
qed (use assms in \<open>simp_all add: failRun_def cancelRun_def\<close>)

text \<open>The bounces the steps still have, over all steps.\<close>

definition budget :: "Step list \<Rightarrow> (bytes \<Rightarrow> int) \<Rightarrow> nat" where
  "budget steps b = sum_list (map (\<lambda>s. nat (bounceCap s - b (spName s))) steps)"

lemma budget_bounced:
  assumes "s \<in> set steps" "b (spName s) < bounceCap s"
  shows "budget steps (b(spName s := b (spName s) + 1)) < budget steps b"
proof -
  let ?f = "\<lambda>b s. nat (bounceCap s - b (spName s))"
  let ?b = "b(spName s := b (spName s) + 1)"
  obtain xs ys where split: "steps = xs @ s # ys" using assms(1) by (meson split_list)
  have le: "?f ?b t \<le> ?f b t" for t by (simp add: nat_mono)
  have "sum_list (map (?f ?b) xs) \<le> sum_list (map (?f b) xs)"
    "sum_list (map (?f ?b) ys) \<le> sum_list (map (?f b) ys)"
    by (rule sum_list_mono, rule le)+
  moreover have "?f ?b s < ?f b s" using assms(2) by simp
  ultimately show ?thesis by (simp add: budget_def split)
qed

function runLoop :: "'h runCtx \<Rightarrow> 'h runState \<Rightarrow> 'h runState \<times> RunResult \<times> run_error list" where
  "runLoop x st =
     (if rsI st < length (rxSteps x) then
        (case runStep x st of
           Next st' \<Rightarrow> runLoop x st'
         | Stop st' r es \<Rightarrow> (st', r, es))
      else
        (let st = emit x (finished ''succeeded'' '''') st
         in if rsLogErr st then (st, resultOf x ''failed'', [ErrLedgerWrite])
            else (st, (resultOf x ''succeeded'')\<lparr>rrOutputSHA := rsLastSHA st, rrOutputPreview := rsLastPreview st\<rparr>, [])))"
  by pat_completeness auto
termination
proof (relation "measures [\<lambda>(x, st). budget (rxSteps x) (rsBounces st), \<lambda>(x, st). length (rxSteps x) - rsI st]")
  fix x :: "'h runCtx" and st st'
  assume lt: "rsI st < length (rxSteps x)" and "runStep x st = Next st'"
  from runStep_Next [OF this(2)] have "advanced st st' \<or> bounced x st st'" by simp
  moreover have "budget (rxSteps x) (rsBounces st') < budget (rxSteps x) (rsBounces st)" if "bounced x st st'"
    using budget_bounced [of "rxSteps x ! rsI st" "rxSteps x" "rsBounces st"] that lt
    by (simp add: bounced_def Let_def)
  ultimately show "((x, st'), (x, st)) \<in> measures [\<lambda>(x, st). budget (rxSteps x) (rsBounces st),
      \<lambda>(x, st). length (rxSteps x) - rsI st]"
    using lt by (auto simp: advanced_def)
qed simp

declare runLoop.simps [simp del]

end
