(* ===== verification/Engine_Run.thy ===== *)
theory Engine_Run
  imports Engine
begin

text \<open>
  A whole run: \<open>Run\<close> of \<^verbatim>\<open>internal/engine/engine.go\<close>, \<open>RecordRefused\<close> and \<open>Refuse\<close> of
  \<^verbatim>\<open>refuse.go\<close>, over any log handle, and what holds of every run whatever the environment
  answers: how often an agent can be called, that a run that was not admitted calls none, that
  every event carries the run's binding, and that success is never reported over a ledger that
  could not be written.
\<close>

section \<open>\<open>Run\<close>\<close>

record Options =
  opLogDir :: bytes
  opStepTimeout :: int
  opArtifactDir :: bytes
  opConfigHash :: bytes
  opGateway :: bool
  opParent :: "Binding option"
  opRunID :: bytes
  opOrigin :: "Origin option"

definition withDefaults :: "(rune \<Rightarrow> bool) \<Rightarrow> Options \<Rightarrow> Options" where
  "withDefaults isPrint opts =
     opts\<lparr>opLogDir := if opLogDir opts = '''' then ''.agenthof/runs'' else opLogDir opts,
          opStepTimeout := if opStepTimeout opts = 0 then 5 * 60 * second else opStepTimeout opts,
          opArtifactDir := if opArtifactDir opts = '''' then ''.agenthof/artifacts'' else opArtifactDir opts,
          opOrigin := Sanitized isPrint (opOrigin opts)\<rparr>"

definition runIDOf :: "bytes \<Rightarrow> Options \<Rightarrow> bytes" where
  "runIDOf drawn opts = (if opRunID opts = '''' then NewRunID drawn else opRunID opts)"

definition bindingOf :: "bytes \<Rightarrow> Options \<Rightarrow> Invoker \<Rightarrow> bytes \<Rightarrow> bytes \<Rightarrow> Binding" where
  "bindingOf drawn opts invk role workflow =
     linkedTo \<lparr>bdInvoker = invk, bdRole = role, bdWorkflow = workflow, bdRunID = runIDOf drawn opts,
               bdParentRunID = '''', bdDepth = 0\<rparr> (opParent opts)"

definition startState :: "'h \<Rightarrow> 'h runState" where
  "startState h = \<lparr>rsLog = h, rsLogErr = False, rsAttempts = 0, rsIter = 0, rsI = 0,
     rsArtifacts = Map.empty, rsBounces = (\<lambda>_. 0), rsLastSHA = '''', rsLastPreview = ''''\<rparr>"

definition refusedEvent :: "bytes \<Rightarrow> Origin option \<Rightarrow> Event" where
  "refusedEvent reason og = (event ''run_refused'')\<lparr>evReason := reason, evOrigin := og\<rparr>"

definition startedEvent :: "Options \<Rightarrow> Event" where
  "startedEvent opts = (event ''workflow_started'')\<lparr>evConfigHash := opConfigHash opts, evOrigin := opOrigin opts,
     evDoorAccounting := DoorAccountingAdmission\<rparr>"

text \<open>
  The host's answers before the loop: the bytes drawn for an id, whether the log opened (and the
  fresh handle), whether the artifact directory could be made.
\<close>

record 'h hostEnv =
  hoDrawn :: bytes
  hoOpenLog :: "'h option"
  hoStoreOpens :: bool
  hoAppend :: "nat \<Rightarrow> 'h \<Rightarrow> Event \<Rightarrow> 'h \<times> bool"
  hoIsPrint :: "rune \<Rightarrow> bool"
  hoQuote :: "bytes \<Rightarrow> bytes"

definition runContext ::
  "'h hostEnv \<Rightarrow> engineEnv \<Rightarrow> Registry \<Rightarrow> bytes \<Rightarrow> bytes \<Rightarrow> bytes \<Rightarrow> Invoker \<Rightarrow> Options \<Rightarrow> 'h runCtx" where
  "runContext host env reg role workflow input invk opts =
     \<lparr>rxReg = reg,
      rxSteps = (case regWorkflows reg workflow of None \<Rightarrow> [] | Some w \<Rightarrow> wfSteps w),
      rxInput = input, rxBind = bindingOf (hoDrawn host) opts invk role workflow,
      rxGateway = opGateway opts, rxEnv = env, rxAppend = hoAppend host, rxQuote = hoQuote host\<rparr>"

definition Run ::
  "'h hostEnv \<Rightarrow> engineEnv \<Rightarrow> Registry \<Rightarrow> bytes \<Rightarrow> bytes \<Rightarrow> bytes \<Rightarrow> Invoker \<Rightarrow> Options \<Rightarrow>
   'h runState option \<times> RunResult \<times> run_error list" where
  "Run host env reg role workflow input invk opts =
     (let opts = withDefaults (hoIsPrint host) opts;
          x = runContext host env reg role workflow input invk opts
      in (case hoOpenLog host of
            None \<Rightarrow> (None, resultOf x ''failed'', [OpenError])
          | Some h \<Rightarrow>
              let st = startState h
              in if \<not> hoStoreOpens host then (Some st, resultOf x ''failed'', [OpenError])
                 else (case Admit (hoQuote host) reg role workflow invk of
                         Some reason \<Rightarrow>
                           let st = emit x (refusedEvent reason (opOrigin opts)) st
                           in (Some st, resultOf x ''refused'',
                               if rsLogErr st then [RefusalError reason, ErrLedgerWrite] else [RefusalError reason])
                       | None \<Rightarrow>
                           (case runLoop x (emit x (startedEvent opts) st) of
                              (st, r, es) \<Rightarrow> (Some st, r, es)))))"

text \<open>\<^const>\<open>None\<close> in the first component is a log that did not open; the flag is the append's error.\<close>

definition RecordRefused ::
  "'h hostEnv \<Rightarrow> engineEnv \<Rightarrow> Options \<Rightarrow> Invoker \<Rightarrow> bytes \<Rightarrow> bytes \<Rightarrow> bytes \<Rightarrow> 'h option \<times> bytes \<times> bool" where
  "RecordRefused host env opts invk role workflow reason =
     (let runID = runIDOf (hoDrawn host) opts
      in (case hoOpenLog host of
            None \<Rightarrow> (None, runID, False)
          | Some h \<Rightarrow>
              let e = (refusedEvent reason (Sanitized (hoIsPrint host) (opOrigin opts)))
                        \<lparr>evTime := envNow env 0, evBinding := bindingOf (hoDrawn host) opts invk role workflow\<rparr>
              in (case hoAppend host 0 h e of (h', ok) \<Rightarrow> (Some h', runID, ok))))"

definition noOptions :: Options where
  "noOptions = \<lparr>opLogDir = '''', opStepTimeout = 0, opArtifactDir = '''', opConfigHash = '''', opGateway = False,
     opParent = None, opRunID = '''', opOrigin = None\<rparr>"

definition Refuse ::
  "'h hostEnv \<Rightarrow> engineEnv \<Rightarrow> bytes \<Rightarrow> bytes \<Rightarrow> bytes \<Rightarrow> Invoker \<Rightarrow> bytes \<Rightarrow> Binding option \<Rightarrow>
   'h option \<times> bytes \<times> bool" where
  "Refuse host env logDir role workflow invk reason parent =
     RecordRefused host env (noOptions\<lparr>opLogDir := logDir, opParent := parent\<rparr>) invk role workflow reason"

section \<open>How often an agent is called\<close>

text \<open>
  The iterations already made, plus what the bounce budget and the steps ahead still allow, never
  grows.
\<close>

definition potential :: "'h runCtx \<Rightarrow> 'h runState \<Rightarrow> nat" where
  "potential x st =
     rsIter st + budget (rxSteps x) (rsBounces st) * length (rxSteps x) + (length (rxSteps x) - rsI st)"

lemma potential_step:
  assumes "runStep x st = Next st'" "rsI st < length (rxSteps x)"
  shows "potential x st' \<le> potential x st"
proof -
  from runStep_Next [OF assms(1)] have it: "rsIter st' = rsIter st + 1" by simp
  from runStep_Next [OF assms(1)] consider "advanced st st'" | "bounced x st st'" by blast
  then show ?thesis
  proof cases
    case 1
    with it assms(2) show ?thesis by (simp add: potential_def advanced_def)
  next
    case 2
    let ?B = "budget (rxSteps x) (rsBounces st)" and ?B' = "budget (rxSteps x) (rsBounces st')"
      and ?n = "length (rxSteps x)"
    have "?B' < ?B"
      using budget_bounced [of "rxSteps x ! rsI st" "rxSteps x" "rsBounces st"] 2 assms(2)
      by (simp add: bounced_def Let_def)
    then have "Suc ?B' * ?n \<le> ?B * ?n" by (intro mult_right_mono) auto
    with it assms(2) show ?thesis by (simp add: potential_def)
  qed
qed

text \<open>Where an exit leaves the state, and what it answers.\<close>

definition exitOk :: "'h runState \<Rightarrow> RunResult \<Rightarrow> run_error list \<Rightarrow> bool" where
  "exitOk st r es \<longleftrightarrow>
     (rrStatus r = ''failed'' \<or> rrStatus r = ''cancelled'') \<and> (rsLogErr st \<longleftrightarrow> ErrLedgerWrite \<in> set es)
     \<and> (rsLogErr st \<longrightarrow> rrStatus r = ''failed'')"

lemma leave_Stop:
  "leave x s st = Stop st' r es \<Longrightarrow> s = ''failed'' \<or> s = ''cancelled'' \<Longrightarrow> st' = st \<and> exitOk st' r es"
  by (auto simp: leave_def exitOk_def resultOf_def split: if_splits)

lemma failRun_Stop: "failRun x reason n st = Stop st' r es \<Longrightarrow> rsIter st' = rsIter st \<and> exitOk st' r es"
  unfolding failRun_def by (drule leave_Stop) (auto simp: frame_simps)

lemma cancelRun_Stop: "cancelRun x st = Stop st' r es \<Longrightarrow> rsIter st' = rsIter st \<and> exitOk st' r es"
  unfolding cancelRun_def by (drule leave_Stop) (auto simp: frame_simps)

lemma stepFailed_Stop:
  "stepFailed x k step agent reason n st = Stop st' r es \<Longrightarrow> rsIter st' = rsIter st \<and> exitOk st' r es"
  by (auto simp: stepFailed_def failBack_def Let_def frame_simps split: if_splits
      dest!: cancelRun_Stop leave_Stop)

lemma stepSucceeded_Stop:
  "stepSucceeded x k step agent art n st = Stop st' r es \<Longrightarrow> rsIter st' = rsIter st \<and> exitOk st' r es"
  by (auto simp: stepSucceeded_def exitOk_def resultOf_def Let_def frame_simps split: if_splits sum.splits prod.splits)

lemma runStep_Stop: "runStep x st = Stop st' r es \<Longrightarrow> rsIter st' = rsIter st + 1 \<and> exitOk st' r es"
proof (cases rule: runStep_cases [of st x])
  case ledger
  then show "runStep x st = Stop st' r es \<Longrightarrow> ?thesis" by (auto dest: leave_Stop)
qed (auto dest: failRun_Stop cancelRun_Stop stepFailed_Stop stepSucceeded_Stop simp: frame_simps)

lemma runLoop_iter: "rsIter (fst (runLoop x st)) \<le> potential x st"
proof (induction x st rule: runLoop.induct)
  case (1 x st)
  show ?case
  proof (cases "rsI st < length (rxSteps x)")
    case True
    then show ?thesis
      using 1 potential_step [of x st] runStep_Stop [of x st]
      by (subst runLoop.simps) (fastforce simp: potential_def split: outcome.splits)
  next
    case False
    then show ?thesis by (subst runLoop.simps) (simp add: Let_def frame_simps potential_def)
  qed
qed

section \<open>What every run keeps\<close>

text \<open>
  A property of the log that every append of an event stamped with the run's binding keeps is
  kept by the whole run.
\<close>

locale run_log_invariant =
  fixes x :: "'h runCtx" and P :: "'h \<Rightarrow> bool"
  assumes append_keeps: "P h \<Longrightarrow> evBinding e = rxBind x \<Longrightarrow> P (fst (rxAppend x n h e))"
begin

lemma emit_keeps: "P (rsLog st) \<Longrightarrow> P (rsLog (emit x e st))"
  using append_keeps [of "rsLog st" "stamp x st e" "rsAttempts st"]
  by (auto simp: emit_def stamp_def split: prod.splits)

lemma door_keeps: "P (rsLog st) \<Longrightarrow> P (rsLog (fold (appendEvent x) es st))"
proof (induction es arbitrary: st)
  case (Cons e es)
  have "P (rsLog (appendEvent x e st))"
    using append_keeps [of "rsLog st" "stamp x st e" "rsAttempts st"] Cons.prems
    by (auto simp: appendEvent_def stamp_def split: prod.splits)
  with Cons.IH show ?case by simp
qed simp

lemma window_keeps: "P (rsLog st) \<Longrightarrow> P (rsLog (opened x st))" "P (rsLog st) \<Longrightarrow> P (rsLog (served x st))"
  using door_keeps [of "opened x st"]
  by (simp_all add: opened_def served_def beginStep_def serveDoors_def emit_keeps)

lemma leave_keeps: "P (rsLog st) \<Longrightarrow> leave x s st = Stop st' r es \<Longrightarrow> P (rsLog st')"
  by (auto simp: leave_def split: if_splits)

lemma exits_keep:
  "P (rsLog st) \<Longrightarrow> failRun x reason n st = Stop st' r es \<Longrightarrow> P (rsLog st')"
  "P (rsLog st) \<Longrightarrow> cancelRun x st = Stop st' r es \<Longrightarrow> P (rsLog st')"
  by (auto simp: failRun_def cancelRun_def finishStep_def intro: emit_keeps elim!: leave_keeps [rotated])

lemma stepFailed_keeps:
  assumes "P (rsLog st)"
  shows "case stepFailed x k step agent reason n st of Next st' \<Rightarrow> P (rsLog st') | Stop st' r es \<Rightarrow> P (rsLog st')"
proof -
  let ?st = "finishStep x False ((stepEvent step agent)\<lparr>evReason := reason\<rparr>) n st"
  have st: "P (rsLog ?st)" using assms by (simp add: finishStep_def emit_keeps)
  have "case failBack x step reason ?st of Next st' \<Rightarrow> P (rsLog st') | Stop st' r es \<Rightarrow> P (rsLog st')"
    using st by (auto simp: failBack_def Let_def leave_def emit_keeps split: option.splits)
  with st show ?thesis
    by (auto simp: stepFailed_def Let_def cancelRun_def leave_def emit_keeps)
qed

lemma stepSucceeded_keeps:
  "P (rsLog st) \<Longrightarrow>
   case stepSucceeded x k step agent art n st of Next st' \<Rightarrow> P (rsLog st') | Stop st' r es \<Rightarrow> P (rsLog st')"
  by (auto simp: stepSucceeded_def Let_def finishStep_def emit_keeps split: sum.splits prod.splits)

lemma runStep_keeps:
  assumes "P (rsLog st)"
  shows "case runStep x st of Next st' \<Rightarrow> P (rsLog st') | Stop st' r es \<Rightarrow> P (rsLog st')"
proof (cases rule: runStep_cases [of st x])
  case (failure n reason)
  then show ?thesis using stepFailed_keeps window_keeps(2) [OF assms] by simp
next
  case (success n art)
  then show ?thesis using stepSucceeded_keeps window_keeps(2) [OF assms] by simp
qed (use assms window_keeps [OF assms] in \<open>simp_all add: failRun_def cancelRun_def leave_def finishStep_def emit_keeps\<close>)

lemma runLoop_keeps:
  "y = x \<Longrightarrow> P (rsLog st) \<Longrightarrow> P (rsLog (fst (runLoop y st)))"
proof (induction y st rule: runLoop.induct)
  case (1 y st)
  show ?case
    using 1 runStep_keeps [of st]
    by (subst runLoop.simps) (auto simp: Let_def emit_keeps split: outcome.splits)
qed

lemma run_keeps:
  assumes "Run host env reg role workflow input invk opts = (Some st, r, es)"
    and "x = runContext host env reg role workflow input invk (withDefaults (hoIsPrint host) opts)"
    and "\<And>h. hoOpenLog host = Some h \<Longrightarrow> P h"
  shows "P (rsLog st)"
proof -
  from assms(1) obtain h where h: "hoOpenLog host = Some h" by (auto simp: Run_def Let_def split: option.splits)
  have "P (rsLog (startState h))" using assms(3) [OF h] by (simp add: startState_def)
  then show ?thesis
    using assms(1) h runLoop_keeps [OF refl emit_keeps, of "startState h"]
    unfolding Run_def Let_def assms(2) [symmetric]
    by (auto simp: emit_keeps split: if_splits option.splits prod.splits) (metis fst_conv)
qed

end

text \<open>The abstract log: the events appended so far, an attempt failing where \<open>ok\<close> says so.\<close>

definition listAppend :: "(nat \<Rightarrow> bool) \<Rightarrow> nat \<Rightarrow> Event list \<Rightarrow> Event \<Rightarrow> Event list \<times> bool" where
  "listAppend ok n h e = (if ok n then (h @ [e], True) else (h, False))"

definition withListLog :: "(nat \<Rightarrow> bool) \<Rightarrow> 'h runCtx \<Rightarrow> Event list runCtx" where
  "withListLog ok x = \<lparr>rxReg = rxReg x, rxSteps = rxSteps x, rxInput = rxInput x, rxBind = rxBind x,
     rxGateway = rxGateway x, rxEnv = rxEnv x, rxAppend = listAppend ok, rxQuote = rxQuote x\<rparr>"

interpretation listRun: run_log_invariant "withListLog ok x" "list_all (\<lambda>e. evBinding e = rxBind x)" for ok x
  by unfold_locales (auto simp: withListLog_def listAppend_def)

definition resultOk :: "'h runState \<times> RunResult \<times> run_error list \<Rightarrow> bool" where
  "resultOk = (\<lambda>(st, r, es). (rsLogErr st \<longleftrightarrow> ErrLedgerWrite \<in> set es) \<and> (rsLogErr st \<longrightarrow> rrStatus r = ''failed'')
     \<and> rrStatus r \<in> {''succeeded'', ''failed'', ''cancelled''} \<and> (rrStatus r = ''succeeded'' \<longrightarrow> es = []))"

lemma exitOk_resultOk: "exitOk st r es \<Longrightarrow> resultOk (st, r, es)"
  by (auto simp: exitOk_def resultOk_def)

lemma runLoop_result: "resultOk (runLoop x st)"
proof (induction x st rule: runLoop.induct)
  case (1 x st)
  show ?case
  proof (cases "rsI st < length (rxSteps x)")
    case True
    show ?thesis
    proof (cases "runStep x st")
      case (Next st')
      with 1 [OF True Next] True show ?thesis by (simp add: runLoop.simps [of x st])
    next
      case (Stop st' r es)
      with True runStep_Stop [OF Stop] show ?thesis by (simp add: runLoop.simps [of x st] exitOk_resultOk)
    qed
  next
    case False
    then show ?thesis by (simp add: runLoop.simps [of x st] Let_def resultOk_def resultOf_def)
  qed
qed

lemma Admit_None_iff:
  "Admit q reg role workflow invk = None \<longleftrightarrow>
     (\<exists>ro w. regRoles reg role = Some ro \<and> regWorkflows reg workflow = Some w
        \<and> workflow \<in> set (rdWorkflows ro) \<and> GroupsAllow (invGroups invk) (rdAllowedGroups ro))"
  by (auto simp: Admit_def RoleOwnsWorkflow_def split: option.splits)

lemma Run_admitted:
  assumes "Run host env reg role workflow input invk opts = (Some st, r, es)"
    and "Admit (hoQuote host) reg role workflow invk = None" and "hoStoreOpens host"
  obtains h where "hoOpenLog host = Some h"
    "runLoop (runContext host env reg role workflow input invk (withDefaults (hoIsPrint host) opts))
       (emit (runContext host env reg role workflow input invk (withDefaults (hoIsPrint host) opts))
         (startedEvent (withDefaults (hoIsPrint host) opts)) (startState h)) = (st, r, es)"
  using assms by (auto simp: Run_def Let_def split: option.splits prod.splits)

lemma budget_validated:
  assumes "\<forall>s \<in> set steps. 0 \<le> spMaxBounces s \<and> spMaxBounces s \<le> 10"
  shows "budget steps (\<lambda>_. 0) \<le> 10 * length steps"
proof -
  have "nat (bounceCap s - 0) \<le> 10" if "s \<in> set steps" for s
    using assms that by (auto simp: bounceCap_def defaultMaxBounces_def)
  then have "sum_list (map (\<lambda>s. nat (bounceCap s - 0)) steps) \<le> sum_list (map (\<lambda>_. 10) steps)"
    by (intro sum_list_mono) simp
  then show ?thesis by (simp add: budget_def sum_list_triv)
qed

lemma stepNamed_Some: "stepNamed target j0 ss = Some j \<Longrightarrow> k < length ss \<Longrightarrow> spName (ss ! k) = target \<Longrightarrow> j \<le> j0 + k"
proof (induction ss arbitrary: j0 k)
  case (Cons s ss)
  show ?case
  proof (cases k)
    case (Suc k')
    with Cons.IH [of "j0 + 1" k'] Cons.prems show ?thesis by (auto split: if_splits)
  qed (use Cons.prems in \<open>auto split: if_splits\<close>)
qed simp

lemma stepNamed_found: "k < length ss \<Longrightarrow> spName (ss ! k) = target \<Longrightarrow> stepNamed target j0 ss \<noteq> None"
proof (induction ss arbitrary: j0 k)
  case (Cons s ss)
  then show ?case by (cases k) auto
qed simp

lemma bounce_goes_back:
  assumes "bounced x st st'" "stepOk agent (rxSteps x) (rsI st)" "rsI st < length (rxSteps x)"
  shows "rsI st' < rsI st"
proof -
  let ?t = "failBackTarget (rxSteps x) (rsI st)"
  have ne: "?t \<noteq> ''''" using assms(1) by (simp add: bounced_def Let_def)
  have "\<exists>k < rsI st. spName (rxSteps x ! k) = ?t"
    using assms(2) ne by (cases "rsI st") (auto simp: stepOk_def failBackTarget_def)
  then obtain k where k: "k < rsI st" "spName (rxSteps x ! k) = ?t" by blast
  with assms(3) obtain j where j: "stepNamed ?t 0 (rxSteps x) = Some j"
    using stepNamed_found [of k "rxSteps x" ?t 0] by auto
  from stepNamed_Some [OF j] k assms(3) have "j \<le> k" by simp
  with j k assms(1) show ?thesis by (simp add: bounced_def Let_def)
qed

section \<open>Properties\<close>

text \<open>An environment in which the reviewer's first answer is a failure.\<close>

definition demoEnv :: engineEnv where
  "demoEnv = \<lparr>envOver = (\<lambda>_. False), envOverAfterFailure = (\<lambda>_. False), envGatewayStarts = (\<lambda>_. True),
     envDoors = (\<lambda>k. if k = 0 then [event ''tool_call''] else []), envStop = (\<lambda>k. if k = 0 then 1 else 0),
     envExecute = (\<lambda>k a input arts. (\<lparr>srArtifact = ''out'', srSuccess = (k \<noteq> 1), srReason = ''no''\<rparr>, None)),
     envPut = (\<lambda>k body. Inr (''sha'', ''out'')), envNow = (\<lambda>n. n)\<rparr>"

definition demoHost :: "Event list hostEnv" where
  "demoHost = \<lparr>hoDrawn = ''12345678'', hoOpenLog = Some [], hoStoreOpens = True, hoAppend = listAppend (\<lambda>_. True),
     hoIsPrint = (\<lambda>r. 32 \<le> r), hoQuote = (\<lambda>s. s)\<rparr>"

definition demoInvoker :: Invoker where
  "demoInvoker = \<lparr>invSubject = ''ann'', invIssuer = ''i'', invMethod = ''oidc'', invGroups = [''eng'']\<rparr>"

definition demoOptions :: Options where
  "demoOptions = noOptions\<lparr>opGateway := True\<rparr>"

definition demoReg :: Registry where
  "demoReg = registryOf demoURL demoCfg"

definition demoRun :: "Event list runState option \<times> RunResult \<times> run_error list" where
  "demoRun = Run demoHost demoEnv demoReg ''dev'' ''feature'' ''do it'' demoInvoker demoOptions"

lemma demoRun_types:
  "map evType (rsLog (the (fst demoRun))) =
     [''workflow_started'', ''step_started'', ''tool_call'', ''step_succeeded'', ''step_started'', ''step_failed'',
      ''bounced_back'', ''step_started'', ''step_succeeded'', ''step_started'', ''step_succeeded'', ''workflow_finished'']"
  by code_simp

lemma demoReg_built: "Build demoURL demoCfg = Inr demoReg"
  unfolding demoReg_def by (rule demoCfg_accepted)

lemma demoRun_eq:
  "Run demoHost demoEnv demoReg ''dev'' ''feature'' ''do it'' demoInvoker demoOptions
     = (Some (the (fst demoRun)), fst (snd demoRun), snd (snd demoRun))"
proof -
  have "fst demoRun \<noteq> None" by code_simp
  then show ?thesis unfolding demoRun_def [symmetric] by (cases demoRun) auto
qed

text \<open>
  C22: a run always ends, and calls agents a bounded number of times: over a built registry, for a
  workflow of n steps, at most (10n + 1)n times, whatever the agents, the gateway, the ledger and
  the clock do. Every failed step either ends the run or spends one of the bounces of its name.
\<close>

theorem agent_calls_are_bounded:
  assumes "Build urlParse cfg = Inr reg" and "regWorkflows reg workflow = Some w"
    and "Run host env reg role workflow input invk opts = (Some st, r, es)"
  shows "rsIter st \<le> (10 * length (wfSteps w) + 1) * length (wfSteps w)"
proof (cases "Admit (hoQuote host) reg role workflow invk = None \<and> hoStoreOpens host")
  case True
  have caps: "\<forall>s \<in> set (wfSteps w). 0 \<le> spMaxBounces s \<and> spMaxBounces s \<le> 10"
    using builtRegistry.workflow_steps [of urlParse cfg workflow w] assms(1,2)
    by (auto simp: registryOf_Build stepOk_def in_set_conv_nth)
  let ?x = "runContext host env reg role workflow input invk (withDefaults (hoIsPrint host) opts)"
  obtain h where "runLoop ?x (emit ?x (startedEvent (withDefaults (hoIsPrint host) opts)) (startState h)) = (st, r, es)"
    using Run_admitted [OF assms(3)] True by metis
  with runLoop_iter [of ?x "emit ?x (startedEvent (withDefaults (hoIsPrint host) opts)) (startState h)"]
  have "rsIter st \<le> potential ?x (emit ?x (startedEvent (withDefaults (hoIsPrint host) opts)) (startState h))" by simp
  also have "\<dots> = budget (wfSteps w) (\<lambda>_. 0) * length (wfSteps w) + length (wfSteps w)"
    using assms(2) by (simp add: potential_def frame_simps startState_def runContext_def)
  also have "\<dots> \<le> 10 * length (wfSteps w) * length (wfSteps w) + length (wfSteps w)"
    using budget_validated [OF caps] by (simp add: mult_right_mono)
  finally show ?thesis by simp
next
  case False
  with assms(3) have "rsIter st = 0"
    by (auto simp: Run_def Let_def frame_simps startState_def split: if_splits option.splits)
  then show ?thesis by simp
qed

theorem agent_calls_are_bounded_witness: "rsIter (the (fst demoRun)) \<le> 42"
proof -
  have w: "regWorkflows demoReg ''feature'' = Some demoFeature" by code_simp
  have l: "length (wfSteps demoFeature) = 2" by code_simp
  show ?thesis using agent_calls_are_bounded [OF demoReg_built w demoRun_eq] unfolding l by simp
qed

text \<open>
  A run that is not admitted calls no agent: the loop is never entered, the status is refused,
  the reason is in the error, and exactly one event is appended, the one \<open>RecordRefused\<close> appends
  for the same invoker, role, workflow and reason, to the same effect on the log.
\<close>

theorem unadmitted_run_records_exactly_the_refusal:
  assumes "hoOpenLog host = Some h" and "hoStoreOpens host"
    and "Admit (hoQuote host) reg role workflow invk = Some reason"
  shows "\<exists>st r es ok. Run host env reg role workflow input invk opts = (Some st, r, es)
    \<and> RecordRefused host env opts invk role workflow reason = (Some (rsLog st), rrRunID r, ok)
    \<and> rsIter st = 0 \<and> rsAttempts st = 1 \<and> rrStatus r = ''refused'' \<and> RefusalError reason \<in> set es
    \<and> (ok \<longleftrightarrow> ErrLedgerWrite \<notin> set es)"
proof -
  let ?b = "bindingOf (hoDrawn host) opts invk role workflow"
  let ?e = "(refusedEvent reason (Sanitized (hoIsPrint host) (opOrigin opts)))\<lparr>evTime := envNow env 0, evBinding := ?b\<rparr>"
  obtain h' ok where a: "hoAppend host 0 h ?e = (h', ok)" by fastforce
  have b: "bindingOf (hoDrawn host) (withDefaults (hoIsPrint host) opts) invk role workflow = ?b"
    by (simp add: bindingOf_def runIDOf_def withDefaults_def)
  have id: "bdRunID ?b = runIDOf (hoDrawn host) opts"
    by (simp add: bindingOf_def linkedTo_def split: option.splits)
  show ?thesis
    using assms a id
    by (simp add: Run_def RecordRefused_def Let_def emit_def stamp_def startState_def runContext_def b
        resultOf_def) (simp add: withDefaults_def)
qed

theorem unadmitted_run_records_exactly_the_refusal_witness:
  "\<exists>st r es ok. Run demoHost demoEnv demoReg ''ops'' ''feature'' ''do it'' demoInvoker demoOptions = (Some st, r, es)
    \<and> rrStatus r = ''refused'' \<and> rsIter st = 0"
proof -
  have o: "hoOpenLog demoHost = Some []" and s: "hoStoreOpens demoHost"
    and a: "Admit (hoQuote demoHost) demoReg ''ops'' ''feature'' demoInvoker = Some ''role ops is not in the registry''"
    by code_simp+
  show ?thesis
    using unadmitted_run_records_exactly_the_refusal [OF o s a, of demoEnv "''do it''" demoOptions] by blast
qed

text \<open>
  Attribution. Every event a run leaves in its log, the gateway's door events included, carries
  the run's own binding: the invoker, the role, the workflow, the run id and the link to the
  parent run, whichever appends fail.
\<close>

theorem every_event_carries_the_binding:
  assumes "Run host env reg role workflow input invk opts = (Some st, r, es)"
    and "hoAppend host = listAppend ok" and "hoOpenLog host = Some []"
  shows "list_all (\<lambda>e. evBinding e = bindingOf (hoDrawn host) opts invk role workflow) (rsLog st)"
proof -
  let ?x = "runContext host env reg role workflow input invk (withDefaults (hoIsPrint host) opts)"
  have x: "withListLog ok ?x = ?x" using assms(2) by (simp add: withListLog_def runContext_def)
  have b: "rxBind ?x = bindingOf (hoDrawn host) opts invk role workflow"
    by (simp add: runContext_def bindingOf_def runIDOf_def withDefaults_def)
  show ?thesis
    using listRun.run_keeps [of host env reg role workflow input invk opts st r es ok ?x] assms unfolding x b by simp
qed

theorem every_event_carries_the_binding_witness:
  "list_all (\<lambda>e. bdInvoker (evBinding e) = demoInvoker) (rsLog (the (fst demoRun)))"
proof -
  have a: "hoAppend demoHost = listAppend (\<lambda>_. True)" "hoOpenLog demoHost = Some []"
    by (simp_all add: demoHost_def)
  have b: "bdInvoker (bindingOf (hoDrawn demoHost) demoOptions demoInvoker ''dev'' ''feature'') = demoInvoker"
    by code_simp
  show ?thesis
    using every_event_carries_the_binding [OF demoRun_eq a] b by (simp add: list_all_iff)
qed

text \<open>
  Success is never reported over a ledger that could not be written: the error of a run tells
  of a failed append exactly when one of the engine's own appends failed, a run with such an error
  is never reported as succeeded or cancelled, and a succeeded run has no error at all.
\<close>

theorem ledger_failure_is_never_success:
  assumes "Run host env reg role workflow input invk opts = (Some st, r, es)"
  shows "(rsLogErr st \<longleftrightarrow> ErrLedgerWrite \<in> set es)
    \<and> (rsLogErr st \<longrightarrow> rrStatus r \<in> {''failed'', ''refused''})
    \<and> (rrStatus r = ''succeeded'' \<longrightarrow> es = [] \<and> \<not> rsLogErr st)"
proof (cases "Admit (hoQuote host) reg role workflow invk = None \<and> hoStoreOpens host")
  case True
  then obtain x st0 where "runLoop x st0 = (st, r, es)" using Run_admitted [OF assms] by metis
  with runLoop_result [of x st0] show ?thesis by (auto simp: resultOk_def)
next
  case False
  with assms show ?thesis
    by (auto simp: Run_def Let_def resultOf_def startState_def split: if_splits option.splits)
qed

theorem ledger_failure_is_never_success_witness:
  "rrStatus (fst (snd demoRun)) = ''succeeded'' \<and> snd (snd demoRun) = [] \<and> \<not> rsLogErr (the (fst demoRun))"
proof -
  have "rrStatus (fst (snd demoRun)) = ''succeeded''" by code_simp
  then show ?thesis using ledger_failure_is_never_success [OF demoRun_eq] by simp
qed

text \<open>
  An admitted run of a built registry only ever calls agents that exist and are enabled, and
  its role owns the workflow and admits the invoker; when a step fails back, the run goes on at a
  strictly earlier step.
\<close>

theorem admitted_run_calls_enabled_agents:
  assumes "Build urlParse cfg = Inr reg" and "Admit (hoQuote host) reg role workflow invk = None"
    and "x = runContext host env reg role workflow input invk opts" and "rsI st < length (rxSteps x)"
  shows "regAgents reg (spAgent (stepOf x st)) = Some (agentOf x st) \<and> IsEnabled (agentOf x st)
    \<and> RoleOwnsWorkflow reg role workflow
    \<and> (\<forall>st'. runStep x st = Next st' \<longrightarrow> rsI st' = rsI st + 1 \<or> rsI st' < rsI st)"
proof -
  from assms(2) obtain ro w where w: "regRoles reg role = Some ro" "regWorkflows reg workflow = Some w"
    "workflow \<in> set (rdWorkflows ro)" by (auto simp: Admit_None_iff)
  have x: "rxReg x = reg" "rxSteps x = wfSteps w" using assms(3) w by (simp_all add: runContext_def)
  have step: "stepOk (regAgents reg) (wfSteps w) (rsI st)"
    using builtRegistry.workflow_steps [of urlParse cfg workflow w] assms(1,4) w x by (simp add: registryOf_Build)
  have earlier: "rsI st' < rsI st" if "bounced x st st'" "\<not> rsI st' = rsI st + 1" for st'
    using bounce_goes_back [OF that(1)] step assms(4) x by simp
  show ?thesis
    using step w earlier runStep_Next [of x st]
    by (auto simp: stepOk_def agentOf_def stepOf_def x RoleOwnsWorkflow_def advanced_def)
qed

theorem admitted_run_calls_enabled_agents_witness:
  "IsEnabled (agentOf (runContext demoHost demoEnv demoReg ''dev'' ''feature'' ''do it'' demoInvoker demoOptions)
     (startState []))"
proof -
  let ?x = "runContext demoHost demoEnv demoReg ''dev'' ''feature'' ''do it'' demoInvoker demoOptions"
  have a: "Admit (hoQuote demoHost) demoReg ''dev'' ''feature'' demoInvoker = None"
    and i: "rsI (startState ([] :: Event list)) < length (rxSteps ?x)" by code_simp+
  show ?thesis using admitted_run_calls_enabled_agents [OF demoReg_built a refl i] by blast
qed

end
