(* ===== verification/Completeness.thy ===== *)
theory Completeness
  imports Engine
begin

text \<open>
  Package \<^verbatim>\<open>internal/completeness\<close>: whether a verified run ledger accounts for itself
  (\<open>Check\<close>, \<^verbatim>\<open>completeness.go\<close>) and the verdict over a delegation tree (\<open>VerifyTree\<close>,
  \<^verbatim>\<open>tree.go\<close>). The text of a gap's detail is a constructor with the values put into it. What the
  tree check reads from the log directory is an argument: the events and error \<open>engine.ReadLog\<close>
  gives for a run id, and the map of \<open>Parents\<close> or its error.
\<close>

section \<open>One ledger\<close>

datatype verdict = NotJudged | Complete | Gap | Unterminated | NoClaim

datatype gap_detail =
    NoDetail
  | RefusedNotAlone
  | BadFirstEvent bytes
  | CallsWithoutMarker
  | DoorOutsideWindow bytes
  | NoTerminalBeforeStart bytes
  | TerminalWithoutStart bytes bytes
  | TerminalLacksCalls bytes
  | CallsMismatch bytes int int
  | BounceInsideWindow bytes
  | BounceNotAfterFailure
  | FinishNotLast
  | NoTerminalBeforeFinish bytes
  | FinishInconsistent bytes bytes
  | UnknownInsideWindow bytes bytes
  | UnknownOutsideWindow bytes
  | ChildMissing bytes
  | ChildNamesOtherParent bytes bytes
  | ChildAtOtherDepth bytes int int
  | DirectoryNotScanned
  | ChildNotNamed bytes

record Report =
  rpVerdict :: verdict
  rpDetail :: gap_detail
  rpDoorCalls :: int

definition gap :: "gap_detail \<Rightarrow> Report" where
  "gap detail = \<lparr>rpVerdict = Gap, rpDetail = detail, rpDoorCalls = 0\<rparr>"

definition verdictOnly :: "verdict \<Rightarrow> Report" where
  "verdictOnly v = \<lparr>rpVerdict = v, rpDetail = NoDetail, rpDoorCalls = 0\<rparr>"

definition doorTypes :: "bytes list" where
  "doorTypes = [''tool_call'', ''model_call'', ''exec'', ''spawn'']"

definition stepTerminal :: "bytes \<Rightarrow> bool" where
  "stepTerminal ty \<longleftrightarrow> ty = ''step_succeeded'' \<or> ty = ''step_failed''"

definition terminalConsistent :: "bytes \<Rightarrow> bytes \<Rightarrow> bool" where
  "terminalConsistent status prev =
     (if status = ''succeeded'' then prev = ''step_succeeded''
      else if status = ''failed'' then prev = ''step_failed''
      else if status = ''cancelled''
      then prev = ''workflow_started'' \<or> prev = ''step_succeeded'' \<or> prev = ''step_failed'' \<or> prev = ''bounced_back''
      else False)"

text \<open>
  The scan over the events after the first: \<open>scWin\<close> is the open step window with the doors
  counted in it, \<open>scPrev\<close> the type of the last lifecycle event, \<open>scTotal\<close> the doors of all
  windows. One event either shows a gap or moves the scan on.
\<close>

record scan =
  scWin :: "(bytes \<times> int) option"
  scPrev :: bytes
  scTotal :: int

definition checkDoor :: "Event \<Rightarrow> scan \<Rightarrow> gap_detail + scan" where
  "checkDoor e s =
     (case scWin s of
        None \<Rightarrow> Inl (DoorOutsideWindow (evType e))
      | Some (step, doors) \<Rightarrow> Inr (s\<lparr>scWin := Some (step, doors + 1), scTotal := scTotal s + 1\<rparr>))"

definition checkStart :: "Event \<Rightarrow> scan \<Rightarrow> gap_detail + scan" where
  "checkStart e s =
     (case scWin s of
        Some (step, doors) \<Rightarrow> Inl (NoTerminalBeforeStart step)
      | None \<Rightarrow> Inr (s\<lparr>scWin := Some (evStep e, 0), scPrev := evType e\<rparr>))"

definition checkTerminal :: "Event \<Rightarrow> scan \<Rightarrow> gap_detail + scan" where
  "checkTerminal e s =
     (case scWin s of
        None \<Rightarrow> Inl (TerminalWithoutStart (evType e) (evStep e))
      | Some (step, doors) \<Rightarrow>
          if step \<noteq> evStep e then Inl (TerminalWithoutStart (evType e) (evStep e))
          else (case evDoorCalls e of
                  None \<Rightarrow> Inl (TerminalLacksCalls (evStep e))
                | Some n \<Rightarrow>
                    if n \<noteq> doors then Inl (CallsMismatch (evStep e) n doors)
                    else Inr (s\<lparr>scWin := None, scPrev := evType e\<rparr>)))"

definition checkBounce :: "Event \<Rightarrow> scan \<Rightarrow> gap_detail + scan" where
  "checkBounce e s =
     (case scWin s of
        Some (step, doors) \<Rightarrow> Inl (BounceInsideWindow step)
      | None \<Rightarrow> if scPrev s \<noteq> ''step_failed'' then Inl BounceNotAfterFailure
                else Inr (s\<lparr>scPrev := evType e\<rparr>))"

definition checkFinish :: "bool \<Rightarrow> Event \<Rightarrow> scan \<Rightarrow> gap_detail + scan" where
  "checkFinish isLast e s =
     (if \<not> isLast then Inl FinishNotLast
      else (case scWin s of
              Some (step, doors) \<Rightarrow> Inl (NoTerminalBeforeFinish step)
            | None \<Rightarrow> if \<not> terminalConsistent (evStatus e) (scPrev s)
                      then Inl (FinishInconsistent (evStatus e) (scPrev s))
                      else Inr (s\<lparr>scPrev := evType e\<rparr>)))"

definition checkEvent :: "bool \<Rightarrow> Event \<Rightarrow> scan \<Rightarrow> gap_detail + scan" where
  "checkEvent isLast e s =
     (if List.member doorTypes (evType e) then checkDoor e s
      else if evType e = ''step_started'' then checkStart e s
      else if stepTerminal (evType e) then checkTerminal e s
      else if evType e = ''bounced_back'' then checkBounce e s
      else if evType e = ''workflow_finished'' then checkFinish isLast e s
      else (case scWin s of
              Some (step, doors) \<Rightarrow> Inl (UnknownInsideWindow (evType e) step)
            | None \<Rightarrow> Inl (UnknownOutsideWindow (evType e))))"

fun checkLoop :: "scan \<Rightarrow> Event list \<Rightarrow> Report" where
  "checkLoop s [] = \<lparr>rpVerdict = Complete, rpDetail = NoDetail, rpDoorCalls = scTotal s\<rparr>"
| "checkLoop s (e # es) =
     (case checkEvent (es = []) e s of
        Inl detail \<Rightarrow> gap detail
      | Inr s' \<Rightarrow> checkLoop s' es)"

definition Check :: "Event list \<Rightarrow> Report" where
  "Check events =
     (case events of
        [] \<Rightarrow> verdictOnly Unterminated
      | first # rest \<Rightarrow>
          if evType first = ''run_refused'' then
            (if rest = [] then verdictOnly Complete else gap RefusedNotAlone)
          else if evType first \<noteq> ''workflow_started'' then gap (BadFirstEvent (evType first))
          else if evType (last events) \<noteq> ''workflow_finished'' then verdictOnly Unterminated
          else if evDoorAccounting first = '''' then
            (if list_ex (\<lambda>e. stepTerminal (evType e) \<and> evDoorCalls e \<noteq> None) events
             then gap CallsWithoutMarker else verdictOnly NoClaim)
          else checkLoop \<lparr>scWin = None, scPrev = evType first, scTotal = 0\<rparr> rest)"

section \<open>A delegation tree\<close>

record TreeNode =
  ndRunID :: bytes
  ndIntegrity :: bytes
  ndReport :: Report

record Tree =
  trRoot :: TreeNode
  trChildren :: "TreeNode list"

text \<open>What \<open>engine.ReadLog\<close> may answer for an error; \<open>LogNotExist\<close> is \<^verbatim>\<open>fs.ErrNotExist\<close>.\<close>

datatype read_error = LogTorn | LogBroken | LogNotExist | LogOther

definition IntegrityWord :: "read_error option \<Rightarrow> bytes" where
  "IntegrityWord readErr =
     (case readErr of None \<Rightarrow> ''verified'' | Some LogTorn \<Rightarrow> ''torn'' | Some LogBroken \<Rightarrow> ''broken'' | Some _ \<Rightarrow> ''error'')"

definition downgrade :: "gap_detail \<Rightarrow> Report \<Rightarrow> Report" where
  "downgrade detail rep = (if rpVerdict rep \<noteq> Gap then gap detail else rep)"

type_synonym log_reader = "bytes \<Rightarrow> Event list \<times> read_error option"

text \<open>
  The reverse check of \<open>link\<close>: \<open>parents\<close> is the association list of the map, its ids visited in
  sorted order, and \<open>named\<close> the children the run's spawn events name.
\<close>

definition reverseCheck :: "bytes \<Rightarrow> (bytes \<times> bytes) list option \<Rightarrow> bytes list \<Rightarrow> Report \<Rightarrow> Report" where
  "reverseCheck runID parents named rep =
     (if rpVerdict rep = Unterminated then rep
      else case parents of
             None \<Rightarrow> downgrade DirectoryNotScanned rep
           | Some ps \<Rightarrow>
               fold (\<lambda>i rep. if map_of ps i = Some runID \<and> \<not> List.member named i
                              then downgrade (ChildNotNamed i) rep else rep)
                 (sort (map fst ps)) rep)"

text \<open>What a child's first event must say: its parent is this run, at the depth the spawn names.\<close>

definition linkage :: "bytes \<Rightarrow> bytes \<Rightarrow> int \<Rightarrow> Event list \<Rightarrow> Report \<Rightarrow> Report" where
  "linkage runID child depth cev rep =
     (case cev of
        [] \<Rightarrow> rep
      | c # _ \<Rightarrow>
          let b = evBinding c
          in if bdParentRunID b \<noteq> runID then downgrade (ChildNamesOtherParent child (bdParentRunID b)) rep
             else if bdDepth b \<noteq> depth then downgrade (ChildAtOtherDepth child (bdDepth b) depth) rep
             else rep)"

record linkState =
  lkReport :: Report
  lkNamed :: "bytes list"
  lkSeen :: "bytes list"
  lkChildren :: "TreeNode list"

text \<open>
  The body of \<open>link\<close>'s loop up to the recursive call: either the event is done with, or the
  child's ledger verified and makes a claim, and the walk goes into it.
\<close>

datatype visit = Skip linkState | Descend linkState bytes "Event list"

definition childNode :: "bytes \<Rightarrow> read_error option \<Rightarrow> Report \<Rightarrow> TreeNode" where
  "childNode child cerr rep = \<lparr>ndRunID = child, ndIntegrity = IntegrityWord cerr, ndReport = rep\<rparr>"

definition visitChild :: "log_reader \<Rightarrow> bytes \<Rightarrow> bytes \<Rightarrow> int \<Rightarrow> linkState \<Rightarrow> visit" where
  "visitChild readLog runID child depth s =
     (case readLog child of (cev, cerr) \<Rightarrow>
        let s = s\<lparr>lkSeen := child # lkSeen s\<rparr>
        in if cerr = Some LogNotExist then Skip (s\<lparr>lkReport := downgrade (ChildMissing child) (lkReport s)\<rparr>)
           else
             let s = s\<lparr>lkReport := linkage runID child depth cev (lkReport s)\<rparr>
             in if cerr \<noteq> None
                then Skip (s\<lparr>lkChildren := lkChildren s @ [childNode child cerr (verdictOnly NotJudged)]\<rparr>)
                else if rpVerdict (Check cev) = NoClaim
                then Skip (s\<lparr>lkChildren := lkChildren s @ [childNode child cerr (Check cev)]\<rparr>)
                else Descend s child cev)"

definition visitEvent :: "log_reader \<Rightarrow> bytes \<Rightarrow> Event \<Rightarrow> linkState \<Rightarrow> visit" where
  "visitEvent readLog runID e s =
     (if evType e \<noteq> ''spawn'' \<or> evChildRunID e = '''' then Skip s
      else
        let s = s\<lparr>lkNamed := evChildRunID e # lkNamed s\<rparr>
        in if List.member (lkSeen s) (evChildRunID e) then Skip s
           else visitChild readLog runID (evChildRunID e) (evDepth e) s)"

text \<open>
  \<open>link\<close> and its loop over the events. The recursion goes into a child not seen before, so the
  fuel bounds the depth of the walk; \<^const>\<open>None\<close> is fuel used up.
\<close>

fun linkRun ::
  "log_reader \<Rightarrow> (bytes \<times> bytes) list option \<Rightarrow> nat \<Rightarrow> bytes \<Rightarrow> Event list \<Rightarrow> Report \<Rightarrow> bytes list \<Rightarrow>
   TreeNode list \<Rightarrow> (Report \<times> bytes list \<times> TreeNode list) option"
and linkEvents ::
  "log_reader \<Rightarrow> (bytes \<times> bytes) list option \<Rightarrow> nat \<Rightarrow> bytes \<Rightarrow> Event list \<Rightarrow> linkState \<Rightarrow> linkState option" where
  "linkRun readLog parents 0 runID events rep seen children = None"
| "linkRun readLog parents (Suc k) runID events rep seen children =
     (case linkEvents readLog parents k runID events
             \<lparr>lkReport = rep, lkNamed = [], lkSeen = seen, lkChildren = children\<rparr> of
        None \<Rightarrow> None
      | Some s \<Rightarrow> Some (reverseCheck runID parents (lkNamed s) (lkReport s), lkSeen s, lkChildren s))"
| "linkEvents readLog parents k runID [] s = Some s"
| "linkEvents readLog parents k runID (e # es) s =
     (case visitEvent readLog runID e s of
        Skip s' \<Rightarrow> linkEvents readLog parents k runID es s'
      | Descend s' child cev \<Rightarrow>
          (case linkRun readLog parents k child cev (Check cev) (lkSeen s') (lkChildren s') of
             None \<Rightarrow> None
           | Some (rep, seen, children) \<Rightarrow>
               linkEvents readLog parents k runID es
                 (s'\<lparr>lkSeen := seen, lkChildren := children @ [childNode child None rep]\<rparr>)))"

definition VerifyTree ::
  "log_reader \<Rightarrow> (bytes \<times> bytes) list option \<Rightarrow> nat \<Rightarrow> bytes \<Rightarrow> Event list \<Rightarrow> read_error option \<Rightarrow> Tree option" where
  "VerifyTree readLog parents fuel runID events readErr =
     (let root = \<lparr>ndRunID = runID, ndIntegrity = IntegrityWord readErr, ndReport = verdictOnly NotJudged\<rparr>
      in if readErr \<noteq> None then Some \<lparr>trRoot = root, trChildren = []\<rparr>
         else if rpVerdict (Check events) = NoClaim
         then Some \<lparr>trRoot = root\<lparr>ndReport := Check events\<rparr>, trChildren = []\<rparr>
         else (case linkRun readLog parents fuel runID events (Check events) [runID] [] of
                 None \<Rightarrow> None
               | Some (rep, seen, children) \<Rightarrow>
                   Some \<lparr>trRoot = root\<lparr>ndReport := rep\<rparr>, trChildren = children\<rparr>))"

fun ChildIntegrityFailure :: "TreeNode list \<Rightarrow> bytes" where
  "ChildIntegrityFailure [] = ''''"
| "ChildIntegrityFailure (c # cs) =
     (if ndIntegrity c \<noteq> ''verified'' then ndIntegrity c else ChildIntegrityFailure cs)"

fun ChildCompletenessWorst :: "verdict \<Rightarrow> TreeNode list \<Rightarrow> verdict" where
  "ChildCompletenessWorst worst [] = worst"
| "ChildCompletenessWorst worst (c # cs) =
     (if rpVerdict (ndReport c) = Gap then Gap
      else ChildCompletenessWorst (if rpVerdict (ndReport c) = Unterminated then Unterminated else worst) cs)"

definition ExitCode :: "Tree \<Rightarrow> nat" where
  "ExitCode t =
     (let all = trRoot t # trChildren t
      in if ndIntegrity (trRoot t) \<noteq> ''verified'' \<or> ChildIntegrityFailure (trChildren t) \<noteq> '''' then 1
         else if list_ex (\<lambda>n. rpVerdict (ndReport n) = Gap) all then 11
         else if list_ex (\<lambda>n. rpVerdict (ndReport n) = Unterminated) all then 12
         else 0)"

end
