(* ===== verification/Run_Complete.thy ===== *)
theory Run_Complete
  imports Engine_Run Completeness
begin

text \<open>
  The engine and the completeness check meet here: a run whose ledger loses nothing and whose
  gateway counts what it records leaves a ledger that \<open>Check\<close> judges complete, with a final event
  that says what the run reported.
\<close>

section \<open>Scanning a ledger as it grows\<close>

fun scanEvents :: "scan \<Rightarrow> Event list \<Rightarrow> scan option" where
  "scanEvents s [] = Some s"
| "scanEvents s (e # es) = (case checkEvent False e s of Inl _ \<Rightarrow> None | Inr s' \<Rightarrow> scanEvents s' es)"

definition scanStart :: scan where
  "scanStart = \<lparr>scWin = None, scPrev = ''workflow_started'', scTotal = 0\<rparr>"

lemma scanEvents_snoc:
  "scanEvents s es = Some s' \<Longrightarrow> checkEvent False e s' = Inr s'' \<Longrightarrow> scanEvents s (es @ [e]) = Some s''"
  by (induction s es rule: scanEvents.induct) (auto split: sum.splits)

lemma checkLoop_scan:
  "scanEvents s es = Some s' \<Longrightarrow> checkLoop s (es @ [e]) = checkLoop s' [e]"
  by (induction s es rule: scanEvents.induct) (auto split: sum.splits)

text \<open>The check reads neither the time nor the binding nor the link of an event.\<close>

lemma checkEvent_stamp:
  "checkEvent l (e\<lparr>evTime := t, evBinding := b, evPrev := p\<rparr>) s = checkEvent l e s"
  by (simp add: checkEvent_def checkDoor_def checkStart_def checkTerminal_def checkBounce_def checkFinish_def
      split: option.splits)

lemma Check_finished:
  assumes "evType e0 = ''workflow_started''" "evDoorAccounting e0 \<noteq> ''''" "scanEvents scanStart es = Some s"
    "scWin s = None" "evType e = ''workflow_finished''" "terminalConsistent (evStatus e) (scPrev s)"
  shows "rpVerdict (Check (e0 # es @ [e])) = Complete \<and> rpDoorCalls (Check (e0 # es @ [e])) = scTotal s"
proof -
  have "checkEvent True e s = Inr (s\<lparr>scPrev := ''workflow_finished''\<rparr>)"
    using assms(4-6) by (simp add: checkEvent_def checkFinish_def doorTypes_def stepTerminal_def)
  then show ?thesis
    using assms checkLoop_scan [OF assms(3), of e] by (simp add: Check_def scanStart_def)
qed

section \<open>A run over a log that loses nothing\<close>

locale lossless_run =
  fixes x :: "'h runCtx" and good :: "'h \<Rightarrow> bool" and recs :: "'h \<Rightarrow> Event list"
  assumes lossless: "good h \<Longrightarrow>
      \<exists>h' p. rxAppend x n h e = (h', True) \<and> good h' \<and> recs h' = recs h @ [e\<lparr>evPrev := p\<rparr>]"
    and doors_counted: "envStop (rxEnv x) k = int (length (envDoors (rxEnv x) k))"
    and doors_typed: "list_all (\<lambda>e. evType e \<in> set doorTypes) (envDoors (rxEnv x) k)"
    and has_steps: "rxSteps x \<noteq> []"
begin

definition tracked :: "'h runState \<Rightarrow> scan \<Rightarrow> bool" where
  "tracked st s \<longleftrightarrow> \<not> rsLogErr st \<and> good (rsLog st)
     \<and> (\<exists>e0 es. recs (rsLog st) = e0 # es \<and> evType e0 = ''workflow_started'' \<and> evDoorAccounting e0 \<noteq> ''''
          \<and> scanEvents scanStart es = Some s)"

lemma stamp_prev: "(stamp x st e)\<lparr>evPrev := p\<rparr> = e\<lparr>evTime := envNow (rxEnv x) (rsAttempts st), evBinding := rxBind x, evPrev := p\<rparr>"
  by (simp add: stamp_def)

lemma emit_tracked:
  assumes "tracked st s" "checkEvent False e s = Inr s'"
  shows "tracked (emit x e st) s'"
proof -
  from assms(1) obtain e0 es where t: "\<not> rsLogErr st" "good (rsLog st)" "recs (rsLog st) = e0 # es"
    "evType e0 = ''workflow_started''" "evDoorAccounting e0 \<noteq> ''''" "scanEvents scanStart es = Some s"
    by (auto simp: tracked_def)
  obtain h' p where a: "rxAppend x (rsAttempts st) (rsLog st) (stamp x st e) = (h', True)" "good h'"
    "recs h' = recs (rsLog st) @ [(stamp x st e)\<lparr>evPrev := p\<rparr>]" using lossless [OF t(2)] by blast
  have "scanEvents scanStart (es @ [(stamp x st e)\<lparr>evPrev := p\<rparr>]) = Some s'"
    using scanEvents_snoc [OF t(6)] assms(2) by (simp add: stamp_prev checkEvent_stamp)
  with t a show ?thesis by (auto simp: tracked_def emit_def)
qed

lemma doors_tracked:
  "tracked st s \<Longrightarrow> scWin s = Some (step, d) \<Longrightarrow> list_all (\<lambda>e. evType e \<in> set doorTypes) es \<Longrightarrow>
   tracked (fold (appendEvent x) es st)
     (s\<lparr>scWin := Some (step, d + int (length es)), scTotal := scTotal s + int (length es)\<rparr>)"
proof (induction es arbitrary: st s d)
  case Nil
  then show ?case by (cases s) simp
next
  case (Cons e es)
  let ?s = "s\<lparr>scWin := Some (step, d + 1), scTotal := scTotal s + 1\<rparr>"
  have "checkEvent False e s = Inr ?s"
    using Cons.prems by (simp add: checkEvent_def checkDoor_def)
  from emit_tracked [OF Cons.prems(1) this] have "tracked (emit x e st) ?s" .
  moreover have "emit x e st = appendEvent x e st" if "\<not> rsLogErr (emit x e st)"
    using that Cons.prems(1) by (auto simp: emit_def appendEvent_def tracked_def split: prod.splits if_splits)
  ultimately have "tracked (appendEvent x e st) ?s" by (auto simp: tracked_def)
  from Cons.IH [OF this, of "d + 1"] Cons.prems show ?case by (simp add: algebra_simps)
qed

lemma served_tracked:
  assumes "tracked st s" "scWin s = None" "n = doorCallsOf x (rsIter st) (opened x st)"
  shows "tracked (served x st)
      \<lparr>scWin = Some (spName (stepOf x (served x st)), n), scPrev = ''step_started'', scTotal = scTotal s + n\<rparr>"
    and "tracked (opened x st)
      \<lparr>scWin = Some (spName (stepOf x (opened x st)), 0), scPrev = ''step_started'', scTotal = scTotal s\<rparr>"
proof -
  let ?name = "spName (stepOf x st)"
  let ?o = "\<lparr>scWin = Some (?name, 0), scPrev = ''step_started'', scTotal = scTotal s\<rparr>"
  have same: "stepOf x (served x st) = stepOf x st" "stepOf x (opened x st) = stepOf x st"
    by (simp_all add: stepOf_def frame_simps)
  have "tracked (st\<lparr>rsIter := rsIter st + 1\<rparr>) s" using assms(1) by (simp add: tracked_def)
  moreover have "checkEvent False ((stepEvent (stepOf x (st\<lparr>rsIter := rsIter st + 1\<rparr>)) a)\<lparr>evType := ''step_started''\<rparr>) s = Inr ?o" for a
    using assms(2) by (simp add: checkEvent_def checkStart_def stepEvent_def doorTypes_def event_def stepOf_def)
  ultimately have o: "tracked (opened x st) ?o"
    unfolding opened_def beginStep_def by (rule emit_tracked)
  then show "tracked (opened x st) \<lparr>scWin = Some (spName (stepOf x (opened x st)), 0), scPrev = ''step_started'', scTotal = scTotal s\<rparr>"
    unfolding same .
  show "tracked (served x st)
      \<lparr>scWin = Some (spName (stepOf x (served x st)), n), scPrev = ''step_started'', scTotal = scTotal s + n\<rparr>"
  proof (cases "fronted x (opened x st)")
    case True
    with assms(3) have n: "n = int (length (envDoors (rxEnv x) (rsIter st)))"
      by (simp add: doorCallsOf_def doors_counted)
    from True doors_tracked [OF o _ doors_typed, of _ 0 "rsIter st"] show ?thesis
      unfolding same by (simp add: served_def serveDoors_def n)
  next
    case False
    with assms(3) o show ?thesis unfolding same by (simp add: served_def serveDoors_def doorCallsOf_def)
  qed
qed

lemma terminal_tracked:
  assumes "tracked st s" "scWin s = Some (evStep e, n)"
  shows "tracked (finishStep x ok e n st)
    \<lparr>scWin = None, scPrev = (if ok then ''step_succeeded'' else ''step_failed''), scTotal = scTotal s\<rparr>"
  unfolding finishStep_def
  by (rule emit_tracked [OF assms(1)])
    (use assms(2) in \<open>simp add: checkEvent_def checkTerminal_def stepTerminal_def doorTypes_def\<close>)

definition closed :: "'h runState \<Rightarrow> bytes \<Rightarrow> bool" where
  "closed st status \<longleftrightarrow> \<not> rsLogErr st \<and> good (rsLog st) \<and> rpVerdict (Check (recs (rsLog st))) = Complete
     \<and> evType (last (recs (rsLog st))) = ''workflow_finished'' \<and> evStatus (last (recs (rsLog st))) = status"

lemma finish_closed:
  assumes "tracked st s" "scWin s = None" "terminalConsistent status (scPrev s)"
  shows "closed (emit x (finished status reason) st) status"
proof -
  from assms(1) obtain e0 es where t: "\<not> rsLogErr st" "good (rsLog st)" "recs (rsLog st) = e0 # es"
    "evType e0 = ''workflow_started''" "evDoorAccounting e0 \<noteq> ''''" "scanEvents scanStart es = Some s"
    by (auto simp: tracked_def)
  let ?e = "stamp x st (finished status reason)"
  obtain h' p where a: "rxAppend x (rsAttempts st) (rsLog st) ?e = (h', True)" "good h'"
    "recs h' = recs (rsLog st) @ [?e\<lparr>evPrev := p\<rparr>]" using lossless [OF t(2)] by blast
  have f: "evType (?e\<lparr>evPrev := p\<rparr>) = ''workflow_finished''" "evStatus (?e\<lparr>evPrev := p\<rparr>) = status"
    by (simp_all add: stamp_def finished_def event_def)
  have "rpVerdict (Check (e0 # es @ [?e\<lparr>evPrev := p\<rparr>])) = Complete"
    using Check_finished [OF t(4,5,6) assms(2) f(1)] assms(3) f(2) by simp
  with t a f show ?thesis by (simp add: closed_def emit_def)
qed

text \<open>Between iterations: no window is open, and past the last step the last event is a success.\<close>

definition between :: "'h runState \<Rightarrow> scan \<Rightarrow> bool" where
  "between st s \<longleftrightarrow> tracked st s \<and> scWin s = None
     \<and> scPrev s \<in> {''workflow_started'', ''step_succeeded'', ''bounced_back''}
     \<and> (rsI st < length (rxSteps x) \<or> scPrev s = ''step_succeeded'')"

lemma leave_closed: "closed st status \<Longrightarrow> leave x status st = Stop st (resultOf x status) []"
  by (simp add: leave_def closed_def)

lemma failRun_closed:
  assumes "tracked st s" "scWin s = Some (spName (stepOf x st), n)"
  shows "\<exists>st' r es. failRun x reason n st = Stop st' r es \<and> closed st' (rrStatus r)"
proof -
  let ?e = "(stepEvent (stepOf x st) (agentOf x st))\<lparr>evReason := reason\<rparr>"
  have "closed (emit x (finished ''failed'' reason) (finishStep x False ?e n st)) ''failed''"
    by (rule finish_closed [OF terminal_tracked [OF assms(1)]])
      (use assms(2) in \<open>simp_all add: stepEvent_def event_def terminalConsistent_def\<close>)
  then show ?thesis unfolding failRun_def by (simp add: leave_closed resultOf_def)
qed

lemma cancelRun_closed:
  assumes "tracked st s" "scWin s = None" "terminalConsistent ''cancelled'' (scPrev s)"
  shows "\<exists>st' r es. cancelRun x st = Stop st' r es \<and> closed st' (rrStatus r)"
  using finish_closed [OF assms, of "''run cancelled''"] unfolding cancelRun_def
  by (simp add: leave_closed resultOf_def)

lemma stepNamed_bound: "stepNamed target j0 ss = Some j \<Longrightarrow> j < j0 + length ss"
  by (induction ss arbitrary: j0) (fastforce split: if_splits)+

lemma stepFailed_traced:
  assumes "tracked st s" "scWin s = Some (spName step, n)" "rsI st < length (rxSteps x)"
  shows "case stepFailed x k step agent reason n st of
      Next st' \<Rightarrow> \<exists>s'. between st' s' | Stop st' r es \<Rightarrow> closed st' (rrStatus r)"
proof -
  let ?st = "finishStep x False ((stepEvent step agent)\<lparr>evReason := reason\<rparr>) n st"
  let ?s = "\<lparr>scWin = None, scPrev = ''step_failed'', scTotal = scTotal s\<rparr>"
  have t: "tracked ?st ?s"
    using terminal_tracked [OF assms(1), of "(stepEvent step agent)\<lparr>evReason := reason\<rparr>" n False] assms(2)
    by (simp add: stepEvent_def event_def)
  have c: "\<exists>st' r es. cancelRun x ?st = Stop st' r es \<and> closed st' (rrStatus r)"
    using cancelRun_closed [OF t] by (simp add: terminalConsistent_def)
  let ?b = "?st\<lparr>rsBounces := (rsBounces ?st)(spName step := rsBounces ?st (spName step) + 1)\<rparr>"
  have tb: "tracked ?b ?s" using t by (simp add: tracked_def)
  have f: "closed (emit x (finished ''failed'' why) ?b) ''failed''" for why
    by (rule finish_closed [OF tb]) (simp_all add: terminalConsistent_def)
  have "checkEvent False ((event ''bounced_back'')\<lparr>evStep := a, evStatus := b, evReason := c\<rparr>) ?s
      = Inr (?s\<lparr>scPrev := ''bounced_back''\<rparr>)" for a b c
    by (simp add: checkEvent_def checkBounce_def doorTypes_def stepTerminal_def event_def)
  from emit_tracked [OF tb this]
  have g: "tracked (emit x ((event ''bounced_back'')\<lparr>evStep := a, evStatus := b, evReason := c\<rparr>) ?b)
      (?s\<lparr>scPrev := ''bounced_back''\<rparr>)" for a b c .
  have "between st' (?s\<lparr>scPrev := ''bounced_back''\<rparr>)" if "failBack x step reason ?st = Next st'" for st'
    using that g assms(3) stepNamed_bound [of _ 0 "rxSteps x"]
    by (auto simp: failBack_def Let_def between_def tracked_def frame_simps split: if_splits option.splits)
  moreover have "closed st' (rrStatus r)" if "failBack x step reason ?st = Stop st' r es" for st' r es
    using that f by (auto simp: failBack_def Let_def leave_closed resultOf_def split: if_splits)
  ultimately show ?thesis
    using c by (auto simp: stepFailed_def Let_def split: outcome.splits)
qed

lemma stepSucceeded_traced:
  assumes "tracked st s" "scWin s = Some (spName step, n)"
  shows "case stepSucceeded x k step agent art n st of
      Next st' \<Rightarrow> \<exists>s'. between st' s' | Stop st' r es \<Rightarrow> closed st' (rrStatus r)"
proof (cases "if art \<noteq> '''' then envPut (rxEnv x) k art else Inr ('''', '''')")
  case (Inl perr)
  let ?e = "(stepEvent step agent)\<lparr>evReason := reasonArtifactStoreWriteFailed\<rparr>"
  have "closed (emit x (finished ''failed'' (''artifact store: '' @ perr)) (finishStep x False ?e n st)) ''failed''"
    by (rule finish_closed [OF terminal_tracked [OF assms(1)]])
      (use assms(2) in \<open>simp_all add: stepEvent_def event_def terminalConsistent_def\<close>)
  moreover from this have "\<not> rsLogErr (emit x (finished ''failed'' (''artifact store: '' @ perr)) (finishStep x False ?e n st))"
    by (simp add: closed_def)
  ultimately show ?thesis unfolding stepSucceeded_def Inl by (simp add: Let_def resultOf_def)
next
  case (Inr pair)
  obtain sha preview where p: "pair = (sha, preview)" by fastforce
  let ?e = "(stepEvent step agent)\<lparr>evArtifact := preview, evArtifactSHA := sha\<rparr>"
  let ?st = "(if adOutput agent \<noteq> '''' then st\<lparr>rsArtifacts := (rsArtifacts st)(adOutput agent \<mapsto> art)\<rparr> else st)
      \<lparr>rsLastSHA := sha, rsLastPreview := preview\<rparr>"
  let ?s = "\<lparr>scWin = None, scPrev = ''step_succeeded'', scTotal = scTotal s\<rparr>"
  have "tracked ?st s" using assms(1) by (simp add: tracked_def)
  from terminal_tracked [OF this, of ?e n True] assms(2) have "tracked (finishStep x True ?e n ?st) ?s"
    by (simp add: stepEvent_def event_def)
  then have "between ((finishStep x True ?e n ?st)\<lparr>rsI := rsI (finishStep x True ?e n ?st) + 1\<rparr>) ?s"
    by (simp add: between_def tracked_def)
  then show ?thesis unfolding stepSucceeded_def Inr p by (auto simp: Let_def)
qed

lemma runStep_traced:
  assumes b: "between st s" and lt: "rsI st < length (rxSteps x)"
  shows "case runStep x st of Next st' \<Rightarrow> \<exists>s'. between st' s' | Stop st' r es \<Rightarrow> closed st' (rrStatus r)"
proof -
  from b have t: "tracked st s" "scWin s = None" and nerr: "\<not> rsLogErr st" by (simp_all add: between_def tracked_def)
  show ?thesis
  proof (cases rule: runStep_cases [of st x])
    case ledger
    with nerr show ?thesis by simp
  next
    case over
    have "tracked (st\<lparr>rsIter := rsIter st + 1\<rparr>) s" using t by (simp add: tracked_def)
    from cancelRun_closed [OF this t(2)] b over show ?thesis
      by (auto simp: between_def terminalConsistent_def)
  next
    case noGateway
    from failRun_closed [OF served_tracked(2) [OF t refl], of 0 "''tool proxy start failed''"] noGateway
    show ?thesis by auto
  next
    case (config n reason)
    from failRun_closed [OF served_tracked(1) [OF t config(2)], of n reason] config show ?thesis by auto
  next
    case (failure n reason)
    from stepFailed_traced [OF served_tracked(1) [OF t failure(2)]] failure lt show ?thesis by (simp add: frame_simps)
  next
    case (success n art)
    from stepSucceeded_traced [OF served_tracked(1) [OF t success(2)]] success show ?thesis by simp
  qed
qed

lemma runLoop_traced:
  "y = x \<Longrightarrow> between st s \<Longrightarrow> case runLoop y st of (st', r, es) \<Rightarrow> closed st' (rrStatus r)"
proof (induction y st arbitrary: s rule: runLoop.induct)
  case (1 y st)
  show ?case
  proof (cases "rsI st < length (rxSteps x)")
    case True
    note step = runStep_traced [OF 1(3) True]
    show ?thesis
    proof (cases "runStep x st")
      case (Next st')
      with step obtain s' where "between st' s'" by auto
      with 1(1) [of st' s'] 1(2) True Next show ?thesis by (simp add: runLoop.simps [of x st])
    next
      case (Stop st' r es)
      with step 1(2) True show ?thesis by (simp add: runLoop.simps [of x st])
    qed
  next
    case False
    with 1(3) have t: "tracked st s" "scWin s = None" "scPrev s = ''step_succeeded''" by (auto simp: between_def)
    from finish_closed [OF t(1,2), of "''succeeded''" "''''"] t(3)
    have "closed (emit x (finished ''succeeded'' '''') st) ''succeeded''" by (simp add: terminalConsistent_def)
    with False 1(2) show ?thesis by (simp add: runLoop.simps [of x st] Let_def closed_def resultOf_def)
  qed
qed

lemma run_closed:
  assumes "good (rsLog st)" "recs (rsLog st) = []" "\<not> rsLogErr st" "rsI st = 0"
    and "runLoop x (emit x e st) = (st', r, es)"
    and "evType e = ''workflow_started''" "evDoorAccounting e \<noteq> ''''"
  shows "closed st' (rrStatus r)"
proof -
  obtain h' p where a: "rxAppend x (rsAttempts st) (rsLog st) (stamp x st e) = (h', True)" "good h'"
    "recs h' = recs (rsLog st) @ [(stamp x st e)\<lparr>evPrev := p\<rparr>]" using lossless [OF assms(1)] by blast
  have "between (emit x e st) scanStart"
    using assms a has_steps by (simp add: between_def tracked_def emit_def stamp_def scanStart_def)
  from runLoop_traced [OF refl this] assms(5) show ?thesis by simp
qed

end

section \<open>The abstract log\<close>

text \<open>
  What a gateway promises of \<open>Stop\<close>: it returns once every admitted door call has appended its
  event, and answers how many there were; door events are of the four door types.
\<close>

definition doorsAccounted :: "engineEnv \<Rightarrow> bool" where
  "doorsAccounted env \<longleftrightarrow> (\<forall>k. envStop env k = int (length (envDoors env k))
     \<and> list_all (\<lambda>e. evType e \<in> set doorTypes) (envDoors env k))"

definition accounted :: "'h runCtx \<Rightarrow> 'h runCtx" where
  "accounted x =
     (if doorsAccounted (rxEnv x) \<and> rxSteps x \<noteq> [] then x
      else x\<lparr>rxEnv := (rxEnv x)\<lparr>envDoors := (\<lambda>_. []), envStop := (\<lambda>_. 0)\<rparr>, rxSteps := [demoStep '''' '''' '''']\<rparr>)"

interpretation listRun: lossless_run "accounted (withListLog (\<lambda>_. True) x)" "\<lambda>_. True" "\<lambda>es. es" for x
proof
  fix h :: "Event list" and e :: Event and n :: nat
  have "\<exists>p. e = e\<lparr>evPrev := p\<rparr>" by (rule exI [of _ "evPrev e"]) simp
  then show "\<exists>h' p. rxAppend (accounted (withListLog (\<lambda>_. True) x)) n h e = (h', True) \<and> True \<and> h' = h @ [e\<lparr>evPrev := p\<rparr>]"
    by (simp add: accounted_def withListLog_def listAppend_def)
qed (auto simp: accounted_def doorsAccounted_def withListLog_def)

text \<open>
  A run whose ledger loses no append and whose gateway counts what it records leaves a ledger that
  accounts for itself, on every path of the engine. The theory \<open>Gateway_Run\<close> discharges the
  hypothesis on the gateway.
\<close>

lemma accounted_run_is_complete:
  assumes "Run host env reg role workflow input invk opts = (Some st, r, es)"
    and "Admit (hoQuote host) reg role workflow invk = None" and "hoStoreOpens host"
    and "hoAppend host = listAppend (\<lambda>_. True)" and "hoOpenLog host = Some []"
    and "doorsAccounted env" and "regWorkflows reg workflow = Some w" and "wfSteps w \<noteq> []"
  shows "rpVerdict (Check (rsLog st)) = Complete
    \<and> evType (last (rsLog st)) = ''workflow_finished'' \<and> evStatus (last (rsLog st)) = rrStatus r"
proof -
  let ?o = "withDefaults (hoIsPrint host) opts"
  let ?x = "runContext host env reg role workflow input invk ?o"
  have x: "accounted (withListLog (\<lambda>_. True) ?x) = ?x"
    using assms(4,6,7,8) by (simp add: accounted_def withListLog_def runContext_def)
  obtain h where h: "hoOpenLog host = Some h"
    and r: "runLoop ?x (emit ?x (startedEvent ?o) (startState h)) = (st, r, es)"
    using Run_admitted [OF assms(1,2,3)] by blast
  have "listRun.closed st (rrStatus r)"
    using listRun.run_closed [of "startState []" ?x "startedEvent ?o" st r es] r h assms(5) unfolding x
    by (simp add: startState_def startedEvent_def event_def DoorAccountingAdmission_def)
  then show ?thesis by (simp add: listRun.closed_def)
qed

section \<open>Properties\<close>

lemma lost_door_in_window:
  "scWin s = Some (step, c) \<Longrightarrow> es \<noteq> [] \<Longrightarrow> evType (last es) = ''workflow_finished'' \<Longrightarrow>
   rpVerdict (checkLoop (s\<lparr>scWin := Some (step, c + 1), scTotal := t\<rparr>) es) = Complete \<Longrightarrow>
   rpVerdict (checkLoop s es) = Gap"
proof (induction es arbitrary: s c t)
  case (Cons e es)
  show ?case
  proof (cases "List.member doorTypes (evType e)")
    case True
    then have "evType e \<noteq> ''workflow_finished''" by (auto simp: doorTypes_def)
    with Cons.prems(3) have es: "es \<noteq> []" "evType (last es) = ''workflow_finished''" by (auto split: if_splits)
    let ?s = "s\<lparr>scWin := Some (step, c + 1), scTotal := scTotal s + 1\<rparr>"
    have "rpVerdict (checkLoop (?s\<lparr>scWin := Some (step, c + 1 + 1), scTotal := t + 1\<rparr>) es) = Complete"
      using Cons.prems(4) True by (simp add: checkEvent_def checkDoor_def)
    from Cons.IH [OF _ es this] True Cons.prems(1) show ?thesis
      by (simp add: checkEvent_def checkDoor_def)
  next
    case False
    with Cons.prems(1,4) show ?thesis
      by (auto simp: checkEvent_def checkStart_def checkTerminal_def checkBounce_def checkFinish_def gap_def
          split: if_splits option.splits)
  qed
qed simp

lemma checkLoop_Complete_scan:
  "rpVerdict (checkLoop s (es @ rest)) = Complete \<Longrightarrow> rest \<noteq> [] \<Longrightarrow>
   \<exists>s'. scanEvents s es = Some s' \<and> checkLoop s (es @ rest) = checkLoop s' rest"
  by (induction s es rule: scanEvents.induct) (auto simp: gap_def split: sum.splits)

lemma checkLoop_scan_rest:
  "scanEvents s es = Some s' \<Longrightarrow> rest \<noteq> [] \<Longrightarrow> checkLoop s (es @ rest) = checkLoop s' rest"
  by (induction s es rule: scanEvents.induct) (auto split: sum.splits)

text \<open>
  C23: a lost door event does not go unnoticed: take any ledger judged complete and remove one of
  its door events, wherever it is; what is left is judged to have a gap.
\<close>

theorem lost_door_event_is_a_gap:
  assumes "rpVerdict (Check (e0 # es @ d # rest)) = Complete" and "evType d \<in> set doorTypes"
  shows "rpVerdict (Check (e0 # es @ rest)) = Gap"
proof -
  let ?s0 = "\<lparr>scWin = None, scPrev = evType e0, scTotal = 0\<rparr>"
  have fin: "d \<noteq> x" if "evType x = ''workflow_finished''" for x using assms(2) that by (auto simp: doorTypes_def)
  from assms(1) have first: "evType e0 = ''workflow_started''" "evDoorAccounting e0 \<noteq> ''''"
    and lst: "evType (last (d # rest)) = ''workflow_finished''"
    and loop: "rpVerdict (checkLoop ?s0 (es @ d # rest)) = Complete"
    by (auto simp: Check_def gap_def verdictOnly_def split: if_splits)
  from lst fin [of d] have rest: "rest \<noteq> []" "evType (last rest) = ''workflow_finished''" by (auto split: if_splits)
  from checkLoop_Complete_scan [OF loop] obtain s where s: "scanEvents ?s0 es = Some s"
    "rpVerdict (checkLoop s (d # rest)) = Complete" using loop by auto
  from s(2) assms(2) obtain step c where win: "scWin s = Some (step, c)"
    and c1: "rpVerdict (checkLoop (s\<lparr>scWin := Some (step, c + 1), scTotal := scTotal s + 1\<rparr>) rest) = Complete"
    by (auto simp: checkEvent_def checkDoor_def gap_def split: option.splits)
  from lost_door_in_window [OF win rest c1] have "rpVerdict (checkLoop ?s0 (es @ rest)) = Gap"
    using checkLoop_scan_rest [OF s(1) rest(1)] by simp
  with first rest show ?thesis by (simp add: Check_def)
qed

theorem lost_door_event_is_a_gap_witness:
  "rpVerdict (Check [(event ''workflow_started'')\<lparr>evDoorAccounting := ''admission''\<rparr>, event ''step_started'',
     (event ''step_succeeded'')\<lparr>evDoorCalls := Some 1\<rparr>, finished ''succeeded'' '''']) = Gap"
proof -
  let ?e0 = "(event ''workflow_started'')\<lparr>evDoorAccounting := ''admission''\<rparr>"
  let ?rest = "[(event ''step_succeeded'')\<lparr>evDoorCalls := Some 1\<rparr>, finished ''succeeded'' '''']"
  have c: "rpVerdict (Check (?e0 # [event ''step_started''] @ event ''exec'' # ?rest)) = Complete" by code_simp
  have d: "evType (event ''exec'') \<in> set doorTypes" by code_simp
  show ?thesis using lost_door_event_is_a_gap [OF c d] by simp
qed

end
