(* ===== verification/Run_Tree.thy ===== *)
theory Run_Tree
  imports Completeness
begin

text \<open>
  The delegation-tree check of \<^verbatim>\<open>internal/completeness/tree.go\<close>: it ends on every finite log
  directory, whatever the ledgers name as children; what its exit code means; and where the
  forward check does not look.
\<close>

section \<open>The walk ends\<close>

lemma visit_Descend:
  "visitEvent readLog runID e s = Descend s' child cev \<Longrightarrow>
   child \<notin> set (lkSeen s) \<and> set (lkSeen s') = insert child (set (lkSeen s)) \<and> readLog child = (cev, None)"
  by (auto simp: visitEvent_def visitChild_def Let_def split: if_splits prod.splits)

lemma visit_Skip: "visitEvent readLog runID e s = Skip s' \<Longrightarrow> set (lkSeen s) \<subseteq> set (lkSeen s')"
  by (auto simp: visitEvent_def visitChild_def Let_def split: if_splits prod.splits)

lemma link_seen_grows:
  "linkRun readLog parents k runID events rep seen children = Some (rep', seen', children') \<Longrightarrow> set seen \<subseteq> set seen'"
  "linkEvents readLog parents k runID events s = Some s' \<Longrightarrow> set (lkSeen s) \<subseteq> set (lkSeen s')"
proof (induction readLog parents k runID events rep seen children and readLog parents k runID events s
    arbitrary: rep' seen' children' and s' rule: linkRun_linkEvents.induct)
  case (2 readLog parents k runID events rep seen children)
  then show ?case by (fastforce split: option.splits)
next
  case (4 readLog parents k runID e es s)
  show ?case
  proof (cases "visitEvent readLog runID e s")
    case (Skip s1)
    with 4(1) [OF Skip, of s'] 4(4) visit_Skip [OF Skip] show ?thesis by auto
  next
    case (Descend s1 child cev)
    with 4(4) obtain rep1 seen1 children1
      where r: "linkRun readLog parents k child cev (Check cev) (lkSeen s1) (lkChildren s1) = Some (rep1, seen1, children1)"
      by (auto split: option.splits)
    with 4(4) Descend have rest: "linkEvents readLog parents k runID es
        (s1\<lparr>lkSeen := seen1, lkChildren := children1 @ [childNode child None rep1]\<rparr>) = Some s'" by simp
    from 4(2) [OF Descend r] 4(3) [OF Descend r refl refl rest] visit_Descend [OF Descend]
    show ?thesis by auto
  qed
qed auto

text \<open>A log directory: finitely many runs, outside of which nothing is read.\<close>

locale log_directory =
  fixes readLog :: log_reader and D :: "bytes set"
  assumes finite_runs: "finite D"
    and no_other_run: "readLog c = (cev, None) \<Longrightarrow> c \<in> D"
begin

definition unseen :: "bytes list \<Rightarrow> nat" where
  "unseen seen = card (D - set seen)"

lemma unseen_mono: "set seen \<subseteq> set seen' \<Longrightarrow> unseen seen' \<le> unseen seen"
  unfolding unseen_def by (rule card_mono) (auto simp: finite_runs)

lemma unseen_new:
  assumes "c \<in> D" "c \<notin> set seen" "set seen' = insert c (set seen)"
  shows "unseen seen' < unseen seen"
  unfolding unseen_def by (rule psubset_card_mono) (use assms finite_runs in auto)

lemma link_returns:
  "rl = readLog \<Longrightarrow> unseen seen < k \<Longrightarrow> linkRun rl parents k runID events rep seen children \<noteq> None"
  "rl = readLog \<Longrightarrow> unseen (lkSeen s) \<le> k \<Longrightarrow> linkEvents rl parents k runID events s \<noteq> None"
proof (induction rl parents k runID events rep seen children and rl parents k runID events s
    rule: linkRun_linkEvents.induct)
  case (2 rl parents k runID events rep seen children)
  then show ?case by (auto split: option.splits)
next
  case (4 rl parents k runID e es s)
  show ?case
  proof (cases "visitEvent rl runID e s")
    case (Skip s1)
    with 4(1) [OF Skip] 4(4,5) unseen_mono [OF visit_Skip [OF Skip]] show ?thesis by auto
  next
    case (Descend s1 child cev)
    note d = visit_Descend [OF Descend]
    have "unseen (lkSeen s1) < unseen (lkSeen s)"
      using unseen_new [of child "lkSeen s" "lkSeen s1"] no_other_run d 4(4) by auto
    with 4(2) [OF Descend] 4(4,5) obtain rep1 seen1 children1
      where r: "linkRun rl parents k child cev (Check cev) (lkSeen s1) (lkChildren s1) = Some (rep1, seen1, children1)"
      by fastforce
    have "unseen seen1 \<le> k"
      using unseen_mono [OF link_seen_grows(1) [OF r]] \<open>unseen (lkSeen s1) < unseen (lkSeen s)\<close> 4(5) by simp
    with 4(3) [OF Descend r refl refl] 4(4) Descend r show ?thesis by simp
  qed
qed auto

lemma tree_returns: "card D < fuel \<Longrightarrow> VerifyTree readLog parents fuel runID events readErr \<noteq> None"
  using link_returns(1) [OF refl, of "[runID]" fuel parents runID events "Check events" "[]"]
    card_mono [of D "D - {runID}"] finite_runs
  by (auto simp: VerifyTree_def Let_def unseen_def split: option.splits)

end

text \<open>The reader of a directory given as the list of its ledgers.\<close>

definition readDir :: "(bytes \<times> Event list \<times> read_error option) list \<Rightarrow> log_reader" where
  "readDir dir c = (case map_of dir c of None \<Rightarrow> ([], Some LogNotExist) | Some l \<Rightarrow> l)"

interpretation dirLogs: log_directory "readDir dir" "fst ` set dir" for dir
  by unfold_locales (force simp: readDir_def dest: map_of_SomeD split: option.splits)+

section \<open>Exit codes\<close>

lemma ChildIntegrityFailure_iff:
  "list_all (\<lambda>c. ndIntegrity c \<noteq> '''') cs \<Longrightarrow>
   ChildIntegrityFailure cs = '''' \<longleftrightarrow> list_all (\<lambda>c. ndIntegrity c = ''verified'') cs"
  by (induction cs) auto

definition nodeClean :: "TreeNode \<Rightarrow> bool" where
  "nodeClean n \<longleftrightarrow> ndIntegrity n = ''verified'' \<and> rpVerdict (ndReport n) \<notin> {Gap, Unterminated}"

lemma link_words:
  "linkRun readLog parents k runID events rep seen children = Some (rep', seen', children') \<Longrightarrow>
     list_all (\<lambda>c. ndIntegrity c \<noteq> '''') children \<Longrightarrow> list_all (\<lambda>c. ndIntegrity c \<noteq> '''') children'"
  "linkEvents readLog parents k runID events s = Some s' \<Longrightarrow>
     list_all (\<lambda>c. ndIntegrity c \<noteq> '''') (lkChildren s) \<Longrightarrow> list_all (\<lambda>c. ndIntegrity c \<noteq> '''') (lkChildren s')"
proof (induction readLog parents k runID events rep seen children and readLog parents k runID events s
    arbitrary: rep' seen' children' and s' rule: linkRun_linkEvents.induct)
  case (2 readLog parents k runID events rep seen children)
  then show ?case by (fastforce split: option.splits)
next
  case (4 readLog parents k runID e es s)
  have word: "IntegrityWord cerr \<noteq> ''''" for cerr
    by (simp add: IntegrityWord_def split: option.splits read_error.splits)
  show ?case
  proof (cases "visitEvent readLog runID e s")
    case (Skip s1)
    then have "list_all (\<lambda>c. ndIntegrity c \<noteq> '''') (lkChildren s1)"
      using 4(5) by (auto simp: visitEvent_def visitChild_def childNode_def Let_def word split: if_splits prod.splits)
    with 4(1) [OF Skip, of s'] 4(4) Skip show ?thesis by auto
  next
    case (Descend s1 child cev)
    then have s1: "lkChildren s1 = lkChildren s"
      by (auto simp: visitEvent_def visitChild_def Let_def split: if_splits prod.splits)
    from 4(4) Descend obtain rep1 seen1 children1
      where r: "linkRun readLog parents k child cev (Check cev) (lkSeen s1) (lkChildren s1) = Some (rep1, seen1, children1)"
      by (auto split: option.splits)
    with 4(4) Descend have rest: "linkEvents readLog parents k runID es
        (s1\<lparr>lkSeen := seen1, lkChildren := children1 @ [childNode child None rep1]\<rparr>) = Some s'" by simp
    from 4(2) [OF Descend r] 4(5) s1 have "list_all (\<lambda>c. ndIntegrity c \<noteq> '''') children1" by simp
    with 4(3) [OF Descend r refl refl rest] show ?thesis by (simp add: childNode_def word)
  qed
qed auto

section \<open>Properties\<close>

text \<open>
  The tree check always ends: on a log directory of n ledgers it needs at most n + 1 nested
  calls, even when the recorded children form a loop.
\<close>

theorem tree_check_ends:
  assumes "fuel > card (fst ` set dir)"
  shows "\<exists>t. VerifyTree (readDir dir) parents fuel runID events readErr = Some t"
  using dirLogs.tree_returns [OF assms] by blast

theorem tree_check_ends_witness:
  "\<exists>t. VerifyTree (readDir [(''a'', [(event ''spawn'')\<lparr>evChildRunID := ''a''\<rparr>], None)]) None 2 ''a'' [] None = Some t"
  by (rule tree_check_ends) simp

text \<open>
  Exit code 0 is a clean bill for the whole tree: it is given exactly when the root and every
  descendant the walk reached verified and none of them has a gap or is unterminated.
\<close>

theorem exit_code_zero_means_all_clean:
  assumes "VerifyTree readLog parents fuel runID events readErr = Some t"
  shows "ExitCode t = 0 \<longleftrightarrow> list_all nodeClean (trRoot t # trChildren t)"
proof -
  have "list_all (\<lambda>c. ndIntegrity c \<noteq> '''') (trChildren t)"
    using assms link_words(1) [of readLog parents fuel runID events "Check events" "[runID]" "[]"]
    by (auto simp: VerifyTree_def Let_def split: if_splits option.splits)
  from ChildIntegrityFailure_iff [OF this] show ?thesis
    by (auto simp: ExitCode_def nodeClean_def Let_def list_all_iff list_ex_iff)
qed

text \<open>A parent that names the child x twice, the second time at a depth its ledger does not have.\<close>

definition twiceNamed :: "Event list" where
  "twiceNamed =
     [(event ''workflow_started'')\<lparr>evDoorAccounting := ''admission''\<rparr>, event ''step_started'',
      (event ''spawn'')\<lparr>evChildRunID := ''x'', evDepth := 1\<rparr>,
      (event ''spawn'')\<lparr>evChildRunID := ''x'', evDepth := 7\<rparr>,
      (event ''step_succeeded'')\<lparr>evDoorCalls := Some 2\<rparr>, finished ''succeeded'' '''']"

definition namedChild :: "Event list" where
  "namedChild =
     [(event ''run_refused'')\<lparr>evBinding := noBinding\<lparr>bdRunID := ''x'', bdParentRunID := ''r'', bdDepth := 1\<rparr>\<rparr>]"

theorem exit_code_zero_means_all_clean_witness:
  "\<exists>t. VerifyTree (readDir [(''x'', namedChild, None)]) (Some [(''x'', ''r'')]) 2 ''r'' (take 3 twiceNamed) None = Some t
     \<and> (ExitCode t = 0 \<longleftrightarrow> list_all nodeClean (trRoot t # trChildren t))"
proof -
  have "card (fst ` set [(''x'', namedChild, None :: read_error option)]) < 2" by simp
  from dirLogs.tree_returns [OF this, of "Some [(''x'', ''r'')]" "''r''" "take 3 twiceNamed" None]
  obtain t where "VerifyTree (readDir [(''x'', namedChild, None)]) (Some [(''x'', ''r'')]) 2 ''r'' (take 3 twiceNamed) None = Some t"
    by blast
  then show ?thesis using exit_code_zero_means_all_clean by blast
qed

text \<open>
  The forward check looks at a child once. A spawn event naming a child already walked is not
  checked against the child's own record: here a run names the child x twice, the second time at
  depth 7 while x's first event says depth 1, and the tree is judged complete with exit code 0.
\<close>

theorem repeated_spawn_is_not_checked:
  "\<exists>t e. VerifyTree (readDir [(''x'', namedChild, None)]) (Some [(''x'', ''r'')]) 2 ''r'' twiceNamed None = Some t
     \<and> ExitCode t = 0 \<and> rpVerdict (ndReport (trRoot t)) = Complete
     \<and> e \<in> set twiceNamed \<and> evType e = ''spawn'' \<and> evChildRunID e = ''x''
     \<and> evDepth e \<noteq> bdDepth (evBinding (hd namedChild))"
proof -
  let ?e = "(event ''spawn'')\<lparr>evChildRunID := ''x'', evDepth := 7\<rparr>"
  let ?t = "\<lparr>trRoot = \<lparr>ndRunID = ''r'', ndIntegrity = ''verified'',
        ndReport = \<lparr>rpVerdict = Complete, rpDetail = NoDetail, rpDoorCalls = 2\<rparr>\<rparr>,
      trChildren = [\<lparr>ndRunID = ''x'', ndIntegrity = ''verified'', ndReport = verdictOnly Complete\<rparr>]\<rparr>"
  have "VerifyTree (readDir [(''x'', namedChild, None)]) (Some [(''x'', ''r'')]) 2 ''r'' twiceNamed None = Some ?t"
    and "ExitCode ?t = 0" by code_simp+
  moreover have "?e \<in> set twiceNamed" by (simp add: twiceNamed_def)
  moreover have "evType ?e = ''spawn''" "evDepth ?e \<noteq> bdDepth (evBinding (hd namedChild))"
    by (simp_all add: event_def namedChild_def)
  ultimately show ?thesis by (intro exI [of _ ?t] exI [of _ ?e]) simp
qed

end
