(* ===== verification/Run_Log.thy ===== *)
theory Run_Log
  imports Engine_Run Ledger
begin

text \<open>
  The run log of \<^verbatim>\<open>internal/engine/events.go\<close>: \<open>OpenLog\<close>, \<open>Log.Append\<close> and \<open>ReadLog\<close> over the
  hash chain of \<^verbatim>\<open>internal/ledger\<close>. \<^verbatim>\<open>json.Marshal\<close> of an event and \<^verbatim>\<open>json.Unmarshal\<close> into one
  are arguments (\<open>marshal\<close>, \<open>dec\<close>), as are the ledger's own (\<open>unm\<close>, \<open>H\<close>).
\<close>

section \<open>The log\<close>

datatype log_error = ErrRunExists bytes | LedgerError ledger_error | MarshalError

definition OpenLog ::
  "openEnv \<Rightarrow> bytes \<Rightarrow> bytes option \<Rightarrow> (bytes option \<times> (log_error + Chain)) option" where
  "OpenLog env runID path =
     (case Create env Unlocked path of
        None \<Rightarrow> None
      | Some (path', Inl e) \<Rightarrow> Some (path', Inl (if e = ErrExist then ErrRunExists runID else LedgerError e))
      | Some (path', Inr c) \<Rightarrow> Some (path', Inr c))"

definition Log_Append ::
  "(Event \<Rightarrow> bytes option) \<Rightarrow> (bytes \<Rightarrow> lineFields option) \<Rightarrow> (bytes \<Rightarrow> bytes) \<Rightarrow> write_outcome \<Rightarrow> Chain \<Rightarrow>
   Event \<Rightarrow> Chain \<times> log_error option" where
  "Log_Append marshal unm H io c e =
     (case marshal (e\<lparr>evPrev := cPrev c\<rparr>) of
        None \<Rightarrow> (c, Some MarshalError)
      | Some data \<Rightarrow> (case Chain_Append unm H io c data of (c', err) \<Rightarrow> (c', map_option LedgerError err)))"

definition isTornOrBroken :: "ledger_error \<Rightarrow> bool" where
  "isTornOrBroken e = (case e of TornError _ \<Rightarrow> True | ChainBrokenError _ \<Rightarrow> True | _ \<Rightarrow> False)"

fun decodeEvents ::
  "(bytes \<Rightarrow> Event option) \<Rightarrow> nat \<Rightarrow> bytes list \<Rightarrow> Event list \<Rightarrow> Event list \<times> ledger_error option" where
  "decodeEvents dec i [] out = (out, None)"
| "decodeEvents dec i (r # rs) out =
     (case dec r of
        None \<Rightarrow> (out, Some (ChainBrokenError (i + 1)))
      | Some e \<Rightarrow> decodeEvents dec (i + 1) rs (out @ [e]))"

definition ReadLog ::
  "(bytes \<Rightarrow> Event option) \<Rightarrow> (bytes \<Rightarrow> lineFields option) \<Rightarrow> (bytes \<Rightarrow> bytes) \<Rightarrow> openEnv \<Rightarrow> bytes option \<Rightarrow>
   (Event list \<times> Head \<times> ledger_error option) option" where
  "ReadLog dec unm H env path =
     (case ReadVerify unm H env Unlocked path of
        None \<Rightarrow> None
      | Some (recs, hd0, rderr) \<Rightarrow>
          if recs = [] \<and> rderr \<noteq> None \<and> \<not> isTornOrBroken (the rderr) then Some ([], noHead, rderr)
          else (case decodeEvents dec 0 recs [] of
                  (out, Some e) \<Rightarrow> Some (out, \<lparr>headHash = '''', headCount = length out\<rparr>, Some e)
                | (out, None) \<Rightarrow> Some (out, hd0, rderr)))"

section \<open>Lemmas\<close>

lemma decodeEvents_all:
  "list_all2 (\<lambda>r e. dec r = Some e) rs es \<Longrightarrow> decodeEvents dec i rs out = (out @ es, None)"
  by (induction rs es arbitrary: i out rule: list_all2_induct) auto

text \<open>A host on which the file opens and reads to its end.\<close>

definition quietEnv :: openEnv where
  "quietEnv = \<lparr>envMkdirFails = False, envOpenFails = False, envFlock = [], envReadFault = False\<rparr>"

lemma ReadVerify_quiet:
  "ReadVerify unm H quietEnv Unlocked (Some b) =
     Some (ldRecords (loadChain unm H (clean b) zeroStart), ldHead (loadChain unm H (clean b) zeroStart),
           ldErr (loadChain unm H (clean b) zeroStart))"
  by (simp add: ReadVerify_def ReadVerifyFrom_def quietEnv_def Start_validate_def zeroStart_def Let_def)

lemma ReadLog_chain:
  assumes "chainInv unm H zeroStart c" "list_all2 (\<lambda>r e. dec r = Some e) (chainRecords unm H zeroStart c) es"
  shows "ReadLog dec unm H quietEnv (Some (cFile c))
    = Some (es, \<lparr>headHash = cPrev c, headCount = cCount c\<rparr>, None)"
  using decodeEvents_all [OF assms(2), of 0 "[]"] chainInv_load [OF assms(1)]
  by (simp add: ReadLog_def ReadVerify_quiet)

lemma loadChain_unreadable_last:
  assumes v: "validChain unm H s mode rs" and l: "newline \<notin> set l" "unm l = None"
  shows "ldErr (loadChain unm H (clean (fileBytes rs @ l @ [newline])) s) = Some (TornError (length (fileBytes rs)))"
    and "ldRecords (loadChain unm H (clean (fileBytes rs @ l @ [newline])) s) = rs"
proof -
  from v have nl: "list_all (\<lambda>r. newline \<notin> set r) rs" by (simp add: validChain_def)
  let ?xs = "map (\<lambda>r. \<lparr>raw = r, terminated = True\<rparr>) rs"
  let ?y = "\<lparr>raw = l, terminated = True\<rparr>"
  let ?w = "foldl (\<lambda>w r. advance H mode r w) (startWalk s) rs"
  have "splitLines [] (fileBytes rs @ l @ [newline]) = ?xs @ [?y]"
    using splitLines_fileBytes [OF nl, of "l @ [newline]"] splitLines_fileBytes [of "[l]" "[]"] l(1)
    by (simp add: fileBytes_def)
  moreover have "loadLoop unm H (startBase s) 0 (?xs @ [?y]) (startWalk s) =
      loadLoop unm H (startBase s) (0 + length ?xs) [?y]
        (foldl (\<lambda>w r. advance H mode r w) (startWalk s) (map raw ?xs))"
    using v by (intro loadLoop_prefix) (auto simp: validChain_def comp_def)
  then have "loadLoop unm H (startBase s) 0 (?xs @ [?y]) (startWalk s) = (?w, Some (TornError (wOffset ?w)))"
    using l(2) by (simp add: loadLine_def parseLineFields_def comp_def)
  ultimately have L: "loadChain unm H (clean (fileBytes rs @ l @ [newline])) s =
      \<lparr>ldRecords = wRecords ?w, ldHead = \<lparr>headHash = wPrev ?w, headCount = wCount ?w\<rparr>,
       ldSeqEstablished = wSeqEstablished ?w, ldSeqMode = wSeqMode ?w, ldErr = Some (TornError (wOffset ?w))\<rparr>"
    by (simp add: loadChain_def)
  show "ldErr (loadChain unm H (clean (fileBytes rs @ l @ [newline])) s) = Some (TornError (length (fileBytes rs)))"
    and "ldRecords (loadChain unm H (clean (fileBytes rs @ l @ [newline])) s) = rs"
    unfolding L by simp_all
qed

section \<open>Properties\<close>

text \<open>
  What is appended is what is read. An event the log accepted is, on the next \<open>ReadLog\<close>, the
  last event of a verified ledger, after every event that was there and with its link set to the
  chain's former head. The codec need only decode what it encoded for this event, into a line
  without line breaks.
\<close>

theorem appended_event_is_read_back:
  assumes "chainInv unm H zeroStart c" and "list_all2 (\<lambda>r e. dec r = Some e) (chainRecords unm H zeroStart c) es"
    and "marshal (e\<lparr>evPrev := cPrev c\<rparr>) = Some l" and "dec l = Some (e\<lparr>evPrev := cPrev c\<rparr>)" and "lineSafe l"
    and "Log_Append marshal unm H WriteOk c e = (c', None)"
  shows "ReadLog dec unm H quietEnv (Some (cFile c'))
    = Some (es @ [e\<lparr>evPrev := cPrev c\<rparr>], \<lparr>headHash = cPrev c', headCount = cCount c'\<rparr>, None)"
proof -
  have "Chain_Append unm H WriteOk c l = (c', None)"
    using assms(3,6) by (auto simp: Log_Append_def split: prod.splits)
  with chainLog.app_accepts [OF assms(1,5)]
  have "chainInv unm H zeroStart c'" "chainRecords unm H zeroStart c' = chainRecords unm H zeroStart c @ [l]" by auto
  with ReadLog_chain [of unm H c' dec] assms(2,4) show ?thesis by (simp add: list_all2_appendI)
qed

definition demoLine :: "Event \<Rightarrow> bytes option" where
  "demoLine e = Some (evPrev e @ '':'' @ evType e)"

definition demoEvent :: "bytes \<Rightarrow> Event option" where
  "demoEvent l = (case dropWhile (\<lambda>c. c \<noteq> CHR '':'') l of
     [] \<Rightarrow> None | _ # ty \<Rightarrow> Some ((event ty)\<lparr>evPrev := takeWhile (\<lambda>c. c \<noteq> CHR '':'') l\<rparr>))"

theorem appended_event_is_read_back_witness:
  "map_option (map evType \<circ> fst) (ReadLog demoEvent demoUnm demoHash quietEnv
     (Some (cFile (fst (Log_Append demoLine demoUnm demoHash WriteOk demoChain (event ''exec'')))))) = Some [''a'', ''exec'']"
proof -
  let ?r = "Log_Append demoLine demoUnm demoHash WriteOk demoChain (event ''exec'')"
  let ?e = "(event ''exec'')\<lparr>evPrev := cPrev demoChain\<rparr>"
  have recs: "list_all2 (\<lambda>r e. demoEvent r = Some e) (chainRecords demoUnm demoHash zeroStart demoChain) [event ''a'']"
    and m: "demoLine ?e = Some ''.a:exec''" and d: "demoEvent ''.a:exec'' = Some ?e" and s: "lineSafe ''.a:exec''"
    by code_simp+
  have "snd ?r = None" by code_simp
  then have r: "?r = (fst ?r, None)" by (metis prod.collapse)
  show ?thesis
    unfolding appended_event_is_read_back [OF demoChain_inv recs m d s r] by (simp add: event_def)
qed

text \<open>What a handle accepts does not depend on the bytes of its file.\<close>

lemma Chain_Append_other_file:
  assumes "snd (Chain_Append unm H WriteOk c l) = None"
  obtains c2 where "Chain_Append unm H WriteOk (c\<lparr>cFile := f\<rparr>) l = (c2, None)"
    "cFile c2 = cFile (c\<lparr>cFile := f\<rparr>) @ l @ [newline]"
proof -
  obtain p where p: "parseLineFields unm l = Inr p"
    using assms by (cases "parseLineFields unm l") (simp_all add: Chain_Append_def)
  have prev: "lfPrev p = Some (cPrev c)"
    using assms by (cases "lfPrev p = Some (cPrev c)") (simp_all add: Chain_Append_def p)
  define mode where "mode = (if cSeqEstablished c then cSeqMode c else lfSeq p \<noteq> None)"
  define want where "want = cBase c + of_nat (cCount c + 1)"
  have a: "Chain_Append unm H WriteOk (c\<lparr>cFile := g\<rparr>) l =
      (if mode \<and> lfSeq p \<noteq> Some want then (c\<lparr>cFile := g\<rparr>, Some (SeqMustBe want))
       else if \<not> mode \<and> lfSeq p \<noteq> None then (c\<lparr>cFile := g\<rparr>, Some NotInSeqMode)
       else (c\<lparr>cFile := g @ l @ [newline], cPrev := H l, cCount := cCount c + 1, cSeqEstablished := True, cSeqMode := mode\<rparr>, None))" for g
    using prev by (cases "lfSeq p") (simp_all add: Chain_Append_def p Let_def mode_def want_def)
  have "c\<lparr>cFile := cFile c\<rparr> = c" by simp
  with a [of "cFile c"] assms have "mode \<longrightarrow> lfSeq p = Some want" "\<not> mode \<longrightarrow> lfSeq p = None" by (auto split: if_splits)
  then have "Chain_Append unm H WriteOk (c\<lparr>cFile := f\<rparr>) l =
      (c\<lparr>cFile := f @ l @ [newline], cPrev := H l, cCount := cCount c + 1, cSeqEstablished := True, cSeqMode := mode\<rparr>, None)"
    unfolding a by (cases mode) simp_all
  then show ?thesis by (rule that) simp
qed

text \<open>
  C26: a handle does not remember that a write stopped part-way. If an append fails after some
  bytes of its line reached the file and the handle is used again, the next append of a line that the
  handle would have taken before the failure reports success, although its record is not in the ledger:
  it is glued to the torn line, a reader finds a torn tail there and returns only the records before
  both. The engine's gateway appender ignores the first error and goes on appending.
\<close>

theorem append_after_partial_write_is_lost:
  assumes "chainInv unm H s c" and "lineSafe l1" and "lineSafe l2" and "0 < k" and "k \<le> length l1"
    and "Chain_Append unm H (WriteFail k) c l1 = (c1, Some IOError)"
    and "snd (Chain_Append unm H WriteOk c l2) = None" and "unm (take k l1 @ l2) = None"
  shows "\<exists>c2. Chain_Append unm H WriteOk c1 l2 = (c2, None)
    \<and> ldErr (loadChain unm H (clean (cFile c2)) s) = Some (TornError (length (cFile c)))
    \<and> ldRecords (loadChain unm H (clean (cFile c2)) s) = chainRecords unm H s c"
proof -
  from assms(1) obtain rs mode where v: "validChain unm H s mode rs"
    and c: "c = handleFor H s (cMode c) mode rs" and rs: "chainRecords unm H s c = rs"
    by (rule chainInvE)
  have fl: "cFile c = fileBytes rs" by (subst c) (simp add: handleFor_def)
  have c1: "c1 = c\<lparr>cFile := cFile c @ take k l1\<rparr>"
    using assms(5,6) by (auto simp: Chain_Append_def Let_def split: sum.splits if_splits)
  obtain c2 where c2: "Chain_Append unm H WriteOk c1 l2 = (c2, None)" and "cFile c2 = cFile c1 @ l2 @ [newline]"
    unfolding c1 by (rule Chain_Append_other_file [OF assms(7)])
  then have f2: "cFile c2 = fileBytes rs @ (take k l1 @ l2) @ [newline]" using fl c1 by simp
  have "newline \<notin> set (take k l1 @ l2)"
    using assms(2,3) by (auto simp: lineSafe_def dest: in_set_takeD)
  from loadChain_unreadable_last [OF v this assms(8)]
  have "ldErr (loadChain unm H (clean (cFile c2)) s) = Some (TornError (length (cFile c)))
    \<and> ldRecords (loadChain unm H (clean (cFile c2)) s) = chainRecords unm H s c" unfolding f2 fl rs by simp
  with c2 show ?thesis by blast
qed

definition strictUnm :: "bytes \<Rightarrow> lineFields option" where
  "strictUnm l = (if length (filter (\<lambda>c. c = CHR '':'') l) = 1 then demoUnm l else None)"

theorem append_after_partial_write_is_lost_witness:
  "ldRecords (loadChain strictUnm demoHash (clean (cFile (fst (Chain_Append strictUnm demoHash WriteOk
     (fst (Chain_Append strictUnm demoHash (WriteFail 3) demoChain ''.a:b'')) ''.a:c'')))) zeroStart) = ['':a'']"
proof -
  let ?r1 = "Chain_Append strictUnm demoHash (WriteFail 3) demoChain ''.a:b''"
  have i: "chainInv strictUnm demoHash zeroStart demoChain" and s: "lineSafe ''.a:b''" "lineSafe ''.a:c''"
    and k: "0 < (3::nat)" "3 \<le> length ''.a:b''" and u: "strictUnm (take 3 ''.a:b'' @ ''.a:c'') = None"
    and recs: "chainRecords strictUnm demoHash zeroStart demoChain = ['':a'']" by code_simp+
  have "snd ?r1 = Some IOError" and ok: "snd (Chain_Append strictUnm demoHash WriteOk demoChain ''.a:c'') = None" by code_simp+
  then have r: "?r1 = (fst ?r1, Some IOError)" by (metis prod.collapse)
  show ?thesis using append_after_partial_write_is_lost [OF i s k r ok u] unfolding recs by (metis fst_conv)
qed

end
