(* ===== verification/Control_Event.thy ===== *)
theory Control_Event
  imports Ledger Origin Authz
begin

text \<open>
  Package \<^verbatim>\<open>internal/control\<close>, the record: the control/1 event and its payloads
  (\<^verbatim>\<open>event.go\<close>), the structural permits \<open>Append\<close> holds an event to before it opens anything
  (\<open>checkAnchorShape\<close> in \<^verbatim>\<open>log.go\<close>, \<open>checkSealShape\<close> in \<^verbatim>\<open>seal.go\<close>, \<open>checkSealSink\<close> in
  \<^verbatim>\<open>sink.go\<close>, \<open>checkRestoreShape\<close> in \<^verbatim>\<open>restore.go\<close>), and the readers that decide something from
  the records alone (\<^verbatim>\<open>installing.go\<close>, \<^verbatim>\<open>anchors.go\<close>, \<open>GenesisLogID\<close>).

  A Go \<open>int\<close> is a HOL \<^typ>\<open>int\<close>; \<open>goInt\<close> wraps a result to 64 bits where the code computes
  one. An instant is the number of nanoseconds since Go's zero time, so \<open>IsZero\<close> is equality
  with 0 and \<open>After\<close> is the order. A permit's refusal is the fixed part of its message. What
  \<^verbatim>\<open>encoding/json\<close>, \<^verbatim>\<open>crypto/sha256\<close> and \<^verbatim>\<open>net/url\<close> compute are arguments.
\<close>

section \<open>Data\<close>

definition goInt :: "int \<Rightarrow> int" where
  "goInt x = sint (word_of_int x :: 64 word)"

record Reason =
  rsnCode :: bytes
  rsnMessage :: bytes

record Witness =
  wtOSUser :: bytes
  wtHostname :: bytes

record SealSink =
  ssKind :: bytes
  ssURL :: bytes
  ssKey :: bytes
  ssMode :: bytes
  ssRetainUntil :: int

record Seal =
  slSegment :: int
  slFirstSeq :: int
  slHeadSeq :: int
  slHeadHash :: bytes
  slContentSHA256 :: bytes
  slSink :: "SealSink option"

record Anchor =
  anRunID :: bytes
  anSeq :: int
  anHash :: bytes
  anKind :: bytes
  anBackendKind :: bytes
  anBackend :: bytes
  anRef :: bytes
  anProof :: bytes
  anBackendKeyID :: bytes

record ControlEvent =
  ceAction :: bytes
  ceAgent :: bytes
  ceOutcome :: bytes
  ceReason :: "Reason option"
  ceInvoker :: Invoker
  ceAssertedAs :: bytes
  ceWitness :: Witness
  ceConfigHash :: bytes
  ceBootstrap :: bool
  ceFragmentLen :: int
  ceFragmentSHA :: bytes
  ceOrigin :: "Origin option"
  ceDetail :: runes
  ceAnchor :: "Anchor option"
  ceSeal :: "Seal option"

record controlRecord =
  crV :: bytes
  crSeq :: int
  crTime :: int
  crAction :: bytes
  crAgent :: bytes
  crOutcome :: bytes
  crReason :: "Reason option"
  crInvoker :: Invoker
  crAssertedAs :: bytes
  crWitness :: Witness
  crConfigHash :: bytes
  crBootstrap :: bool
  crFragmentLen :: int
  crFragmentSHA :: bytes
  crOrigin :: "Origin option"
  crDetail :: runes
  crAnchor :: "Anchor option"
  crSeal :: "Seal option"
  crPrev :: bytes
  crLogID :: bytes

definition NotAuthorized :: "bytes \<Rightarrow> Reason" where
  "NotAuthorized op =
     \<lparr>rsnCode = ''not_authorized'',
      rsnMessage = ''not authorized: no role grants '' @ op @ '' to the invoker''\<rparr>"

text \<open>
  The local witness: the environment's \<^verbatim>\<open>USER\<close>, or else the current user's name when the
  operating system knows one.
\<close>

definition CaptureWitness :: "bytes \<Rightarrow> bytes option \<Rightarrow> bytes \<Rightarrow> Witness" where
  "CaptureWitness userEnv current host =
     \<lparr>wtOSUser = (if userEnv = '''' then (case current of Some u \<Rightarrow> u | None \<Rightarrow> '''') else userEnv),
      wtHostname = host\<rparr>"

section \<open>Permits\<close>

definition anchorHashOK :: "bytes \<Rightarrow> bool" where
  "anchorHashOK s = lower_hex_string 64 s"

definition runIDOK :: "bytes \<Rightarrow> bool" where
  "runIDOK s = (has_prefix s ''r-'' \<and> lower_hex_string 16 (drop 2 s))"

definition anchorLengths :: "Anchor \<Rightarrow> (bytes \<times> nat) list" where
  "anchorLengths a =
     [(anRef a, 256), (anBackend a, 2048), (anBackendKind a, 64), (anBackendKeyID a, 128)]"

definition anchorComplete :: "Anchor \<Rightarrow> bytes option" where
  "anchorComplete a =
     (if anKind a = '''' then Some ''successful anchor record is incomplete (kind)''
      else if anKind a \<noteq> ''tlog'' \<and> anKind a \<noteq> ''signed'' then Some ''anchor kind is not tlog or signed''
      else if anBackendKind a = '''' then Some ''successful anchor record is incomplete (backend_kind)''
      else if anBackend a = '''' then Some ''successful anchor record is incomplete (backend)''
      else if anRef a = '''' then Some ''successful anchor record is incomplete (ref)''
      else if anProof a = '''' \<and> anRunID a = '''' then Some ''successful anchor record is incomplete (proof)''
      else None)"

definition checkAnchorShape :: "ControlEvent \<Rightarrow> bytes option" where
  "checkAnchorShape e =
     (if ceAnchor e \<noteq> None \<and> ceAction e \<noteq> ''anchor'' then Some ''anchor payload on another record''
      else if ceAction e \<noteq> ''anchor'' then None
      else if ceOutcome e = ''success'' \<and> ceAnchor e = None
      then Some ''a successful anchor must say what it covers''
      else if ceOutcome e = ''refused'' \<and> ceAnchor e \<noteq> None
      then Some ''a refused anchor tried nothing and covers nothing''
      else if ceConfigHash e \<noteq> '''' then Some ''an anchor installs nothing and carries no config_hash''
      else (case ceAnchor e of
             None \<Rightarrow> None
           | Some a \<Rightarrow>
               if \<not> anchorHashOK (anHash a) then Some ''anchor hash is not a lowercase hex sha256''
               else if anRunID a \<noteq> '''' \<and> \<not> runIDOK (anRunID a) then Some ''anchor run_id is not a run id''
               else if length (anProof a) > 8192 then Some ''anchor proof is over the cap''
               else if list_ex (\<lambda>(v, cap). length v > cap) (anchorLengths a)
               then Some ''anchor field is over the cap''
               else if ceOutcome e \<noteq> ''success'' then None
               else anchorComplete a))"

definition checkAnchorCoverage :: "Anchor option \<Rightarrow> int \<Rightarrow> bytes option" where
  "checkAnchorCoverage an count =
     (case an of
        None \<Rightarrow> None
      | Some a \<Rightarrow>
          if anRunID a = '''' \<and> (anSeq a < 1 \<or> anSeq a > count)
          then Some ''anchor covers a seq the chain does not have'' else None)"

text \<open>\<open>strings.Split(s, "/")\<close> and \<open>strings.Trim(s, "/")\<close>.\<close>

fun splitSlash :: "bytes \<Rightarrow> bytes list" where
  "splitSlash [] = [[]]"
| "splitSlash (c # cs) =
     (if c = CHR ''/'' then [] # splitSlash cs
      else (case splitSlash cs of [] \<Rightarrow> [[c]] | p # ps \<Rightarrow> (c # p) # ps))"

definition trimSlashes :: "bytes \<Rightarrow> bytes" where
  "trimSlashes s = rev (dropWhile (\<lambda>c. c = CHR ''/'') (rev (dropWhile (\<lambda>c. c = CHR ''/'') s)))"

record parsedURL =
  puScheme :: bytes
  puHost :: bytes
  puUser :: bool
  puRawQuery :: bytes
  puForceQuery :: bool
  puFragment :: bytes
  puPath :: bytes

definition sinkURLOK :: "(bytes \<Rightarrow> parsedURL option) \<Rightarrow> bytes \<Rightarrow> bool" where
  "sinkURLOK parse s =
     (case parse s of
        None \<Rightarrow> False
      | Some u \<Rightarrow>
          if (puScheme u \<noteq> ''http'' \<and> puScheme u \<noteq> ''https'') \<or> puHost u = '''' \<or> puUser u
             \<or> puRawQuery u \<noteq> '''' \<or> puForceQuery u \<or> puFragment u \<noteq> ''''
          then False else trimSlashes (puPath u) \<noteq> '''')"

definition checkSealSink :: "(bytes \<Rightarrow> parsedURL option) \<Rightarrow> SealSink option \<Rightarrow> bytes option" where
  "checkSealSink parse sink =
     (case sink of
        None \<Rightarrow> None
      | Some s \<Rightarrow>
          if ssKind s = '''' then Some ''seal sink kind is empty''
          else if \<not> sinkURLOK parse (ssURL s) \<or> length (ssURL s) > 2048
          then Some ''seal sink url is not an absolute http(s) URL with a bucket path''
          else if ssKey s = '''' \<or> has_prefix (ssKey s) ''/'' \<or> length (ssKey s) > 1024
                  \<or> ''..'' \<in> set (splitSlash (ssKey s))
          then Some ''seal sink key must be relative with no .. segment''
          else if ssMode s \<noteq> ''compliance'' then Some ''seal sink mode is not compliance''
          else if ssRetainUntil s = 0 then Some ''seal sink retain_until is unset''
          else None)"

definition checkSealShape :: "(bytes \<Rightarrow> parsedURL option) \<Rightarrow> ControlEvent \<Rightarrow> bytes option" where
  "checkSealShape parse e =
     (if ceSeal e \<noteq> None \<and> ceAction e \<noteq> ''seal'' then Some ''seal payload on another record''
      else if ceAction e \<noteq> ''seal'' then None
      else if ceOutcome e = ''success'' \<and> ceSeal e = None
      then Some ''a successful seal must say what it closes''
      else if ceOutcome e \<noteq> ''success'' \<and> ceSeal e \<noteq> None
      then Some ''a refused seal closed nothing and carries no payload''
      else if ceConfigHash e \<noteq> '''' \<or> ceAnchor e \<noteq> None \<or> ceDetail e \<noteq> []
      then Some ''a seal installs nothing and carries no config_hash, anchor or detail''
      else (case ceSeal e of
             None \<Rightarrow> None
           | Some s \<Rightarrow>
               if \<not> anchorHashOK (slHeadHash s) \<or> \<not> anchorHashOK (slContentSHA256 s)
               then Some ''seal head_hash and content_sha256 must be lowercase hex sha256''
               else if slSegment s < 1 \<or> slFirstSeq s < 1 \<or> slHeadSeq s < slFirstSeq s
               then Some ''seal payload is malformed''
               else checkSealSink parse (slSink s)))"

definition checkRestoreShape :: "ControlEvent \<Rightarrow> bytes option" where
  "checkRestoreShape e =
     (if ceAction e \<noteq> ''restore'' then None
      else if ceOutcome e \<noteq> ''success'' then Some ''a restore that did not restore records nothing''
      else if ceConfigHash e \<noteq> '''' \<or> ceAnchor e \<noteq> None \<or> ceSeal e \<noteq> None
              \<or> ceFragmentLen e \<noteq> 0 \<or> ceFragmentSHA e \<noteq> ''''
      then Some ''a restore installs nothing and carries no config_hash, anchor, seal or fragment''
      else if ceDetail e = [] then Some ''a restore must say what it restored''
      else None)"

text \<open>The permits \<open>Append\<close> applies before it opens the ledger, in its order.\<close>

definition appendPermit :: "(bytes \<Rightarrow> parsedURL option) \<Rightarrow> ControlEvent \<Rightarrow> bytes option" where
  "appendPermit parse e =
     (case checkAnchorShape e of
        Some m \<Rightarrow> Some m
      | None \<Rightarrow>
          (case checkSealShape parse e of
             Some m \<Rightarrow> Some m
           | None \<Rightarrow>
               (case checkRestoreShape e of
                  Some m \<Rightarrow> Some m
                | None \<Rightarrow>
                    if ceOutcome e \<noteq> ''success'' \<and> ceReason e = None
                    then Some ''outcome requires a reason'' else None)))"

section \<open>What the records say\<close>

record DecodedEvent =
  deV :: bytes
  deSeq :: int
  deTime :: int
  deAction :: bytes
  deAgent :: bytes
  deOutcome :: bytes
  deReason :: "Reason option"
  deInvoker :: Invoker
  deAssertedAs :: bytes
  deWitness :: Witness
  deConfigHash :: bytes
  deBootstrap :: bool
  deFragmentLen :: int
  deFragmentSHA :: bytes
  deOrigin :: "Origin option"
  deDetail :: runes
  deAnchor :: "Anchor option"
  deSeal :: "Seal option"

definition Installing :: "DecodedEvent \<Rightarrow> bool" where
  "Installing e \<longleftrightarrow>
     deOutcome e = ''success'' \<and> deConfigHash e \<noteq> ''''
     \<and> (deAction e = ''apply'' \<or> deAction e = ''vouch''
        \<or> (deAction e = ''enable'' \<or> deAction e = ''disable'') \<and> \<not> deBootstrap e)"

text \<open>\<open>decode\<close> is \<open>Decode\<close>: \<^verbatim>\<open>json.Unmarshal\<close> into a \<open>DecodedEvent\<close>.\<close>

fun lastInstallingFrom ::
  "(bytes \<Rightarrow> DecodedEvent option) \<Rightarrow> DecodedEvent option \<Rightarrow> bytes list \<Rightarrow> DecodedEvent option" where
  "lastInstallingFrom decode acc [] = acc"
| "lastInstallingFrom decode acc (r # rs) =
     (case decode r of
        None \<Rightarrow> lastInstallingFrom decode acc rs
      | Some d \<Rightarrow> lastInstallingFrom decode (if Installing d then Some d else acc) rs)"

definition LastInstalling :: "(bytes \<Rightarrow> DecodedEvent option) \<Rightarrow> bytes list \<Rightarrow> DecodedEvent option" where
  "LastInstalling decode records = lastInstallingFrom decode None records"

record AnchorCheck =
  acRecordSeq :: int
  acAnchor :: "Anchor option"
  acMismatch :: bytes

definition anchorMismatch :: "(bytes \<Rightarrow> bytes) \<Rightarrow> bytes list \<Rightarrow> controlRecord \<Rightarrow> bytes" where
  "anchorMismatch H records r =
     (case crAnchor r of
        None \<Rightarrow> ''anchor record without coverage''
      | Some a \<Rightarrow>
          if \<not> anchorHashOK (anHash a) then ''anchor hash is not a lowercase hex sha256''
          else if anSeq a < 1 \<or> anSeq a \<ge> crSeq r \<or> anSeq a > int (length records)
          then ''anchor covers seq '' @ showInt (anSeq a) @ '', which is not before the record (seq ''
               @ showInt (crSeq r) @ '')''
          else let got = H (records ! nat (anSeq a - 1))
               in if got \<noteq> anHash a
                  then ''the chain does not reproduce the recorded head at seq '' @ showInt (anSeq a)
                       @ '' (chain '' @ got @ '', recorded '' @ anHash a @ '')''
                  else '''')"

definition checkAnchor ::
  "(bytes \<Rightarrow> controlRecord option) \<Rightarrow> (bytes \<Rightarrow> bytes) \<Rightarrow> bytes list \<Rightarrow> bytes \<Rightarrow> AnchorCheck option" where
  "checkAnchor dec H records line =
     (case dec line of
        None \<Rightarrow> None
      | Some r \<Rightarrow>
          if crAction r \<noteq> ''anchor'' \<or> crOutcome r \<noteq> ''success'' then None
          else if (case crAnchor r of Some a \<Rightarrow> anRunID a \<noteq> '''' | None \<Rightarrow> False) then None
          else Some \<lparr>acRecordSeq = crSeq r, acAnchor = crAnchor r, acMismatch = anchorMismatch H records r\<rparr>)"

definition CheckAnchors ::
  "(bytes \<Rightarrow> controlRecord option) \<Rightarrow> (bytes \<Rightarrow> bytes) \<Rightarrow> bytes list \<Rightarrow> AnchorCheck list" where
  "CheckAnchors dec H records = List.map_filter (checkAnchor dec H records) records"

section \<open>The ledger's identity\<close>

definition IsLogID :: "bytes \<Rightarrow> bool" where
  "IsLogID s = lower_hex_string 32 s"

text \<open>The identity is the hex of what the system's random source gave: sixteen bytes, or an error.\<close>

definition newLogID :: "bytes option \<Rightarrow> bytes option" where
  "newLogID drawn = map_option hexBytes drawn"

definition GenesisLogID :: "(bytes \<Rightarrow> bytes option) \<Rightarrow> bytes list \<Rightarrow> bytes option" where
  "GenesisLogID logIDOf records =
     (case records of
        [] \<Rightarrow> None
      | r # _ \<Rightarrow> (case logIDOf r of
                    None \<Rightarrow> None
                  | Some i \<Rightarrow> if IsLogID i then Some i else None))"

definition sealChainFieldsAgree :: "Seal option \<Rightarrow> Seal \<Rightarrow> bool" where
  "sealChainFieldsAgree got want =
     (case got of
        None \<Rightarrow> False
      | Some g \<Rightarrow> slSegment g = slSegment want \<and> slFirstSeq g = slFirstSeq want
                  \<and> slHeadSeq g = slHeadSeq want \<and> slHeadHash g = slHeadHash want
                  \<and> slContentSHA256 g = slContentSHA256 want)"

section \<open>Facts\<close>

lemma goInt_id: "- (2 ^ 63) \<le> x \<Longrightarrow> x < 2 ^ 63 \<Longrightarrow> goInt x = x"
  by (simp add: goInt_def sint_sbintrunc' signed_take_bit_int_eq_self)

lemma word_of_goInt [simp]: "(word_of_int (goInt x) :: 64 word) = word_of_int x"
  by (simp add: goInt_def)

lemma lastInstallingFrom_eq:
  "lastInstallingFrom decode acc rs =
     (let ds = filter Installing (List.map_filter decode rs) in if ds = [] then acc else Some (last ds))"
  by (induction rs arbitrary: acc) (auto simp: Let_def split: option.splits)

lemma LastInstalling_snoc:
  "LastInstalling decode (rs @ [r]) =
     (case decode r of
        Some d \<Rightarrow> if Installing d then Some d else LastInstalling decode rs
      | None \<Rightarrow> LastInstalling decode rs)"
  by (auto simp: LastInstalling_def lastInstallingFrom_eq Let_def map_filter_def split: option.splits)

lemma set_map_filter_iff: "y \<in> set (List.map_filter f xs) \<longleftrightarrow> (\<exists>x \<in> set xs. f x = Some y)"
  by (induction xs) (auto split: option.splits)

lemma checkAnchor_SomeE:
  assumes "checkAnchor dec H rs l = Some c"
  obtains r where "dec l = Some r"
    "c = \<lparr>acRecordSeq = crSeq r, acAnchor = crAnchor r, acMismatch = anchorMismatch H rs r\<rparr>"
proof (cases "dec l")
  case (Some r)
  with assms that show ?thesis by (simp add: checkAnchor_def split: if_split_asm)
qed (use assms in \<open>simp add: checkAnchor_def\<close>)

lemma CheckAnchors_clean:
  assumes "c \<in> set (CheckAnchors dec H rs)" "acMismatch c = ''''" "acAnchor c = Some a"
  shows "1 \<le> anSeq a" "anSeq a \<le> int (length rs)" "H (rs ! nat (anSeq a - 1)) = anHash a"
proof -
  from assms(1) obtain l r where l: "l \<in> set rs" "dec l = Some r"
    "c = \<lparr>acRecordSeq = crSeq r, acAnchor = crAnchor r, acMismatch = anchorMismatch H rs r\<rparr>"
    by (auto simp: CheckAnchors_def set_map_filter_iff elim: checkAnchor_SomeE)
  with assms have "crAnchor r = Some a" "anchorMismatch H rs r = ''''" by simp_all
  then show "1 \<le> anSeq a" "anSeq a \<le> int (length rs)" "H (rs ! nat (anSeq a - 1)) = anHash a"
    by (auto simp: anchorMismatch_def Let_def split: if_splits)
qed

lemma headFrom_take:
  "0 < k \<Longrightarrow> k \<le> length rs \<Longrightarrow> headFrom H p (take k rs) = H (rs ! (k - 1))"
  by (cases k) (auto simp: take_Suc_conv_app_nth)

section \<open>Properties\<close>

text \<open>
  Concrete instances for the witnesses: a hash with the shape of a digest (the hex of the line,
  padded to 64), and a decoder that reads an anchor of record 1 from any line ending in \<^verbatim>\<open>b\<close>.
\<close>

definition hash64 :: "bytes \<Rightarrow> bytes" where
  "hash64 l = take 64 (hexBytes l @ replicate 64 CHR ''0'')"

definition blankRecord :: controlRecord where
  "blankRecord = \<lparr>crV = ''control/1'', crSeq = 0, crTime = 0, crAction = '''', crAgent = '''',
     crOutcome = ''success'', crReason = None,
     crInvoker = \<lparr>invSubject = '''', invIssuer = '''', invMethod = '''', invGroups = []\<rparr>,
     crAssertedAs = '''', crWitness = \<lparr>wtOSUser = '''', wtHostname = ''''\<rparr>, crConfigHash = '''',
     crBootstrap = False, crFragmentLen = 0, crFragmentSHA = '''', crOrigin = None, crDetail = [],
     crAnchor = None, crSeal = None, crPrev = '''', crLogID = ''''\<rparr>"

definition demoAnchor :: Anchor where
  "demoAnchor = \<lparr>anRunID = '''', anSeq = 1, anHash = hash64 '':a'', anKind = ''tlog'',
     anBackendKind = ''transparency-log'', anBackend = ''log'', anRef = ''1'', anProof = ''p'',
     anBackendKeyID = ''''\<rparr>"

definition demoAnchorDec :: "bytes \<Rightarrow> controlRecord option" where
  "demoAnchorDec l =
     Some (if last l = CHR ''b''
           then blankRecord\<lparr>crSeq := 2, crAction := ''anchor'', crAnchor := Some demoAnchor\<rparr>
           else blankRecord)"

text \<open>
  C25: an anchor pins the past. When the structural check finds nothing wrong with one anchor in two
  ledgers that both verify, the two ledgers hold the same records up to the covered seq, unless a
  record of one collides with a different record of the other under the hash: whoever rewrites the
  covered part is found out.
\<close>

theorem anchored_prefix_is_pinned:
  assumes "ldErr (loadChain unm H (clean b1) s) = None" "ldErr (loadChain unm H (clean b2) s) = None"
    and "c1 \<in> set (CheckAnchors dec H (ldRecords (loadChain unm H (clean b1) s)))"
    and "c2 \<in> set (CheckAnchors dec H (ldRecords (loadChain unm H (clean b2) s)))"
    and "acMismatch c1 = ''''" "acMismatch c2 = ''''" "acAnchor c1 = Some a" "acAnchor c2 = Some a"
  shows "take (nat (anSeq a)) (ldRecords (loadChain unm H (clean b1) s))
         = take (nat (anSeq a)) (ldRecords (loadChain unm H (clean b2) s))
       \<or> (\<exists>x \<in> set (ldRecords (loadChain unm H (clean b1) s)).
            \<exists>y \<in> set (ldRecords (loadChain unm H (clean b2) s)). x \<noteq> y \<and> H x = H y)"
proof -
  let ?r1 = "ldRecords (loadChain unm H (clean b1) s)"
  let ?r2 = "ldRecords (loadChain unm H (clean b2) s)"
  let ?k = "nat (anSeq a)"
  obtain m1 m2 where v: "validChain unm H s m1 ?r1" "validChain unm H s m2 ?r2"
    using loadChain_validD [OF assms(1)] loadChain_validD [OF assms(2)] by metis
  note cl = CheckAnchors_clean [OF assms(3,5,7)] CheckAnchors_clean [OF assms(4,6,8)]
  have k: "0 < ?k" "?k \<le> length ?r1" "?k \<le> length ?r2" "nat (anSeq a - 1) = ?k - 1"
    using cl(1,2,5) by linarith+
  have "headFrom H (startPrev s) (take ?k ?r1) = headFrom H (startPrev s) (take ?k ?r2)"
    using headFrom_take [OF k(1,2)] headFrom_take [OF k(1,3)] cl(3,6) unfolding k(4) by simp
  moreover have "length (take ?k ?r1) = length (take ?k ?r2)" using k by simp
  ultimately have "take ?k ?r1 = take ?k ?r2 \<or> (\<exists>x \<in> set (take ?k ?r1). \<exists>y \<in> set (take ?k ?r2). x \<noteq> y \<and> H x = H y)"
    using v chain_collision [OF chainFrom_take [where rs = ?r1] chainFrom_take [where rs = ?r2]]
    unfolding validChain_def by blast
  then show ?thesis by (meson in_set_takeD)
qed

theorem anchored_prefix_is_pinned_witness:
  "take 1 ['':a'', hash64 '':a'' @ '':b''] = take 1 ['':a'', hash64 '':a'' @ '':cb'']
   \<or> (\<exists>x \<in> {'':a'', hash64 '':a'' @ '':b''}. \<exists>y \<in> {'':a'', hash64 '':a'' @ '':cb''}. x \<noteq> y \<and> hash64 x = hash64 y)"
proof -
  let ?b1 = "fileBytes ['':a'', hash64 '':a'' @ '':b'']"
  let ?b2 = "fileBytes ['':a'', hash64 '':a'' @ '':cb'']"
  let ?c = "\<lparr>acRecordSeq = 2, acAnchor = Some demoAnchor, acMismatch = ''''\<rparr>"
  have e: "ldErr (loadChain demoUnm hash64 (clean ?b1) zeroStart) = None"
    "ldErr (loadChain demoUnm hash64 (clean ?b2) zeroStart) = None"
    and r: "ldRecords (loadChain demoUnm hash64 (clean ?b1) zeroStart) = ['':a'', hash64 '':a'' @ '':b'']"
    "ldRecords (loadChain demoUnm hash64 (clean ?b2) zeroStart) = ['':a'', hash64 '':a'' @ '':cb'']"
    and a: "nat (anSeq demoAnchor) = 1"
    by code_simp+
  have "CheckAnchors demoAnchorDec hash64 ['':a'', hash64 '':a'' @ '':b''] = [?c]"
    "CheckAnchors demoAnchorDec hash64 ['':a'', hash64 '':a'' @ '':cb''] = [?c]"
    by code_simp+
  then show ?thesis
    using anchored_prefix_is_pinned [OF e, unfolded r, of ?c demoAnchorDec ?c demoAnchor]
    by (simp only: a list.set insert_iff AnchorCheck.select_convs simp_thms)
qed

text \<open>
  What the ledger says is installed is decided by the last decodable record that installs
  something, and by nothing else: undecodable records, failed actions, bootstrap flips, anchors,
  seals, repairs and restores in between or after it are passed over.
\<close>

theorem last_installing_is_the_last_install:
  "LastInstalling decode rs =
     (let ds = filter Installing (List.map_filter decode rs) in if ds = [] then None else Some (last ds))"
  by (simp add: LastInstalling_def lastInstallingFrom_eq)

end
