(* ===== verification/Control_Set.thy ===== *)
theory Control_Set
  imports Control_Event "HOL-Library.List_Lexorder" "HOL-Library.Char_ord"
begin

text \<open>
  Package \<^verbatim>\<open>internal/control\<close>, the segment set (\<^verbatim>\<open>segments.go\<close>, \<^verbatim>\<open>manifest.go\<close>, \<^verbatim>\<open>faults.go\<close>):
  the control ledger is a set of sealed segments listed by a manifest, and one active segment,
  read as one logical chain.

  The files live in one directory: names map to inodes, inodes to bytes, so that the hard link
  of a rotation and the check that two names are one file are what they are on disk. A path is
  its base name in that directory; a symbolic link has been resolved. \<open>codec\<close> collects what
  \<^verbatim>\<open>encoding/json\<close>, \<^verbatim>\<open>crypto/sha256\<close> and \<^verbatim>\<open>net/url\<close> compute; \<open>setIO\<close> collects the answers of
  the operating system that are not determined by the directory.
\<close>

section \<open>Data\<close>

record ManifestEntry =
  meN :: int
  meFile :: bytes
  meFirstSeq :: int
  meHeadSeq :: int
  meHeadHash :: bytes
  meSHA256 :: bytes
  meBytes :: int
  meSealedAt :: int

record Manifest =
  mfV :: bytes
  mfLogID :: bytes
  mfSegments :: "ManifestEntry list"

datatype Fault =
    FaultTorn
  | FaultBroken
  | FaultBoundary
  | FaultMissingSegment
  | FaultActiveMissing
  | FaultUnexpectedSegment
  | FaultManifest
  | FaultSealNotLast

datatype set_cause = NoCause | LedgerCause ledger_error | TextCause bytes

text \<open>The unexported \<open>want\<close> of a \<open>SetError\<close> is text of its message only and left out.\<close>

record SetError =
  seFault :: Fault
  seSegment :: int
  sePath :: bytes
  seSeq :: int
  seErr :: set_cause
  seNoManifest :: bool
  seOlderBinary :: bool

datatype SealStep =
    SealStepPreflight | SealStepLink | SealStepRecord | SealStepSink | SealStepManifest | SealStepSwap

datatype control_error =
    Refused bytes
  | SetFault SetError
  | LedgerFault ledger_error
  | NotExist
  | IOFault
  | ErrSealed
  | ErrNothingToSeal
  | ErrNothingToComplete
  | ErrUnsealable
  | ErrNoHardLinks
  | SealErr SealStep control_error
  | StoppedByTestHook
  | SinkFault bytes
  | RotatedTwice

datatype State = StateOpen | StateSealedNotRotated | StateRotatedNotSwapped

record Segment =
  sgN :: nat
  sgPath :: bytes
  sgFirstSeq :: int
  sgHeadSeq :: int
  sgHeadHash :: bytes
  sgSHA256 :: bytes
  sgBytes :: int
  sgRecords :: nat
  sgSealedAt :: int
  sgSink :: "SealSink option"

text \<open>The head of a View is logical: its count is the last seq of the whole chain.\<close>

record LogicalHead =
  lhHash :: bytes
  lhCount :: int

record View =
  vRecords :: "bytes list"
  vHead :: LogicalHead
  vFirstSeq :: int
  vSealed :: "Segment list"
  vActive :: Segment
  vState :: State
  vLogID :: bytes

record directory =
  dirNames :: "(bytes \<times> nat) list"
  dirNode :: "nat \<Rightarrow> bytes"
  dirNext :: nat

record codec =
  kUnm :: "bytes \<Rightarrow> lineFields option"
  kHash :: "bytes \<Rightarrow> bytes"
  kMarshal :: "controlRecord \<Rightarrow> bytes option"
  kDec :: "bytes \<Rightarrow> controlRecord option"
  kLogIDOf :: "bytes \<Rightarrow> bytes option"
  kFirst :: "bytes \<Rightarrow> (bytes \<times> bytes) option"
  kManifest :: "Manifest \<Rightarrow> bytes option"
  kParse :: "bytes \<Rightarrow> (Manifest \<times> bool) option"
  kURL :: "bytes \<Rightarrow> parsedURL option"

record setIO =
  ioStatFails :: bool
  ioListFails :: bool
  ioManifestFails :: bool
  ioOpenFails :: bool
  ioLock :: "ledger_error option"
  ioReadFault :: bool
  ioSegmentFails :: "nat \<Rightarrow> bool"
  ioSegmentFault :: "nat \<Rightarrow> bool"

definition setError :: "Fault \<Rightarrow> int \<Rightarrow> bytes \<Rightarrow> int \<Rightarrow> set_cause \<Rightarrow> control_error" where
  "setError f k path seq cause =
     SetFault \<lparr>seFault = f, seSegment = k, sePath = path, seSeq = seq, seErr = cause,
               seNoManifest = False, seOlderBinary = False\<rparr>"

definition Unwrap :: "SetError \<Rightarrow> set_cause" where
  "Unwrap e = (if (seFault e = FaultTorn \<or> seFault e = FaultBroken) \<and> seSegment e = 0 then seErr e else NoCause)"

definition noSegment :: Segment where
  "noSegment = \<lparr>sgN = 0, sgPath = '''', sgFirstSeq = 0, sgHeadSeq = 0, sgHeadHash = '''', sgSHA256 = '''',
                sgBytes = 0, sgRecords = 0, sgSealedAt = 0, sgSink = None\<rparr>"

definition noView :: View where
  "noView = \<lparr>vRecords = [], vHead = \<lparr>lhHash = '''', lhCount = 0\<rparr>, vFirstSeq = 0, vSealed = [],
             vActive = noSegment, vState = StateOpen, vLogID = ''''\<rparr>"

definition RotatingSegment :: "View \<Rightarrow> nat" where
  "RotatingSegment v =
     (if vState v = StateSealedNotRotated then length (vSealed v) + 1 else length (vSealed v))"

section \<open>The directory\<close>

definition inodeOf :: "directory \<Rightarrow> bytes \<Rightarrow> nat option" where
  "inodeOf d name = map_of (dirNames d) name"

definition contents :: "directory \<Rightarrow> bytes \<Rightarrow> bytes option" where
  "contents d name = map_option (dirNode d) (inodeOf d name)"

text \<open>\<open>os.SameFile\<close> of a name and an open handle, whose file is the inode.\<close>

definition sameFile :: "directory \<Rightarrow> bytes \<Rightarrow> nat \<Rightarrow> bool" where
  "sameFile d path ino = (inodeOf d path = Some ino)"

definition ReadDir :: "directory \<Rightarrow> bytes list" where
  "ReadDir d = sort (map fst (dirNames d))"

text \<open>A second name for an inode, a fresh file under a name, new bytes in an inode, and no name.\<close>

definition linkName :: "bytes \<Rightarrow> nat \<Rightarrow> directory \<Rightarrow> directory" where
  "linkName name ino d =
     d\<lparr>dirNames := (name, ino) # filter (\<lambda>e. fst e \<noteq> name) (dirNames d)\<rparr>"

definition freshFile :: "bytes \<Rightarrow> bytes \<Rightarrow> directory \<Rightarrow> directory" where
  "freshFile name data d =
     (linkName name (dirNext d) d)\<lparr>dirNode := (dirNode d)(dirNext d := data), dirNext := dirNext d + 1\<rparr>"

definition writeNode :: "nat \<Rightarrow> bytes \<Rightarrow> directory \<Rightarrow> directory" where
  "writeNode ino data d = d\<lparr>dirNode := (dirNode d)(ino := data)\<rparr>"

definition removeNames :: "(bytes \<Rightarrow> bool) \<Rightarrow> directory \<Rightarrow> directory" where
  "removeNames P d = d\<lparr>dirNames := filter (\<lambda>e. \<not> P (fst e)) (dirNames d)\<rparr>"

section \<open>Names\<close>

definition pad6 :: "nat \<Rightarrow> bytes" where
  "pad6 n = (let ds = showDigits n in replicate (6 - length ds) CHR ''0'' @ ds)"

definition SegmentPath :: "bytes \<Rightarrow> nat \<Rightarrow> bytes" where
  "SegmentPath resolved n = resolved @ ''.seg-'' @ pad6 n"

definition ManifestPath :: "bytes \<Rightarrow> bytes" where
  "ManifestPath resolved = resolved @ ''.segments''"

definition isDigit :: "char \<Rightarrow> bool" where
  "isDigit c \<longleftrightarrow> c \<in> set ''0123456789''"

definition digitValue :: "char \<Rightarrow> nat" where
  "digitValue c = of_char c - 48"

definition Atoi :: "bytes \<Rightarrow> nat" where
  "Atoi ds = foldl (\<lambda>n c. 10 * n + digitValue c) 0 ds"

text \<open>\<open>segmentNameRE\<close>: exactly six digits after the infix.\<close>

definition segmentOrdinal :: "bytes \<Rightarrow> nat option" where
  "segmentOrdinal sfx =
     (if has_prefix sfx ''.seg-'' \<and> length sfx = 11 \<and> list_all isDigit (drop 5 sfx)
      then Some (Atoi (drop 5 sfx)) else None)"

definition siblingNames :: "setIO \<Rightarrow> directory \<Rightarrow> bytes \<Rightarrow> control_error + bytes list" where
  "siblingNames io d resolved =
     (if ioListFails io then Inl IOFault
      else Inr (filter (\<lambda>n. has_prefix n (resolved @ ''.seg-'')) (ReadDir d)))"

fun ordinalsOf :: "bytes \<Rightarrow> bytes list \<Rightarrow> control_error + (nat \<times> bytes) list" where
  "ordinalsOf resolved [] = Inr []"
| "ordinalsOf resolved (p # ps) =
     (case segmentOrdinal (drop (length resolved) p) of
        None \<Rightarrow> Inl (setError FaultUnexpectedSegment 0 p 0 NoCause)
      | Some n \<Rightarrow>
          (case ordinalsOf resolved ps of Inl e \<Rightarrow> Inl e | Inr m \<Rightarrow> Inr ((n, p) # m)))"

definition listSiblings :: "setIO \<Rightarrow> directory \<Rightarrow> bytes \<Rightarrow> control_error + (nat \<times> bytes) list" where
  "listSiblings io d resolved =
     (case siblingNames io d resolved of Inl e \<Rightarrow> Inl e | Inr names \<Rightarrow> ordinalsOf resolved names)"

definition sortedOrdinals :: "(nat \<times> bytes) list \<Rightarrow> nat list" where
  "sortedOrdinals siblings = sort (remdups (map fst siblings))"

definition hasHistory :: "setIO \<Rightarrow> directory \<Rightarrow> bytes \<Rightarrow> control_error + bool" where
  "hasHistory io d resolved =
     (if inodeOf d (ManifestPath resolved) \<noteq> None then Inr True
      else case siblingNames io d resolved of Inl e \<Rightarrow> Inl e | Inr names \<Rightarrow> Inr (names \<noteq> []))"

section \<open>The manifest\<close>

definition entryFault :: "bytes \<Rightarrow> nat \<Rightarrow> int \<Rightarrow> ManifestEntry \<Rightarrow> bytes option" where
  "entryFault resolved n prevHead e =
     (if meN e \<noteq> int n then Some ''n''
      else if meFile e \<noteq> SegmentPath resolved n then Some ''file''
      else if meFirstSeq e \<noteq> goInt (prevHead + 1) then Some ''first_seq''
      else if meHeadSeq e < meFirstSeq e then Some ''head_seq''
      else if \<not> anchorHashOK (meHeadHash e) then Some ''head_hash''
      else if \<not> anchorHashOK (meSHA256 e) then Some ''sha256''
      else if meBytes e \<le> 0 then Some ''bytes''
      else None)"

fun entriesFault :: "bytes \<Rightarrow> nat \<Rightarrow> int \<Rightarrow> ManifestEntry list \<Rightarrow> bytes option" where
  "entriesFault resolved i prevHead [] = None"
| "entriesFault resolved i prevHead (e # es) =
     (case entryFault resolved (i + 1) prevHead e of
        Some f \<Rightarrow> Some f
      | None \<Rightarrow> entriesFault resolved (i + 1) (meHeadSeq e) es)"

definition ParseManifest :: "codec \<Rightarrow> bytes \<Rightarrow> bytes \<Rightarrow> bytes + Manifest" where
  "ParseManifest K data resolved =
     (case kParse K data of
        None \<Rightarrow> Inl ''decode''
      | Some (m, trailing) \<Rightarrow>
          if trailing then Inl ''trailing data after the object''
          else if mfV m \<noteq> ''segments/1'' then Inl ''v''
          else if \<not> IsLogID (mfLogID m) then Inl ''log_id''
          else if mfSegments m = [] then Inl ''segments is empty''
          else (case entriesFault resolved 0 0 (mfSegments m) of
                 Some f \<Rightarrow> Inl f
               | None \<Rightarrow> Inr m))"

definition manifestEntry :: "bytes \<Rightarrow> Segment \<Rightarrow> ManifestEntry" where
  "manifestEntry resolved s =
     \<lparr>meN = int (sgN s), meFile = SegmentPath resolved (sgN s), meFirstSeq = sgFirstSeq s,
      meHeadSeq = sgHeadSeq s, meHeadHash = sgHeadHash s, meSHA256 = sgSHA256 s, meBytes = sgBytes s,
      meSealedAt = sgSealedAt s\<rparr>"

definition loadManifest :: "codec \<Rightarrow> setIO \<Rightarrow> directory \<Rightarrow> bytes \<Rightarrow> control_error + Manifest option" where
  "loadManifest K io d resolved =
     (let path = ManifestPath resolved
      in case contents d path of
           None \<Rightarrow> Inr None
         | Some data \<Rightarrow>
             if ioManifestFails io then Inl (setError FaultManifest 0 path 0 (TextCause ''read''))
             else (case ParseManifest K data resolved of
                    Inl f \<Rightarrow> Inl (setError FaultManifest 0 path 0 (TextCause f))
                  | Inr m \<Rightarrow> Inr (Some m)))"

definition segmentBytes :: "bytes list \<Rightarrow> bytes" where
  "segmentBytes records = foldl (\<lambda>out r. out @ r @ [newline]) [] records"

definition segmentDigests :: "codec \<Rightarrow> bytes list \<Rightarrow> bytes \<times> int" where
  "segmentDigests K records =
     (kHash K (concat (map (\<lambda>r. r @ [newline]) records)),
      foldl (\<lambda>sz r. sz + int (length r) + 1) 0 records)"

definition sealContentDigest :: "codec \<Rightarrow> bytes list \<Rightarrow> bytes" where
  "sealContentDigest K preSeal = fst (segmentDigests K preSeal)"

definition manifestEqual :: "Manifest option \<Rightarrow> Manifest option \<Rightarrow> bool" where
  "manifestEqual a b =
     (case (a, b) of
        (None, None) \<Rightarrow> True
      | (Some x, Some y) \<Rightarrow>
          length (mfSegments x) = length (mfSegments y)
          \<and> meHeadHash (last (mfSegments x)) = meHeadHash (last (mfSegments y))
      | _ \<Rightarrow> False)"

section \<open>Sealed segments\<close>

text \<open>A record that decodes as a successful seal; every walker looks for these.\<close>

definition successfulSeal :: "codec \<Rightarrow> bytes \<Rightarrow> controlRecord option" where
  "successfulSeal K r =
     (case kDec K r of
        None \<Rightarrow> None
      | Some rc \<Rightarrow> if crAction rc = ''seal'' \<and> crOutcome rc = ''success'' then Some rc else None)"

text \<open>
  What is wrong with a successful seal that is the last record of segment \<open>k\<close>, whose first seq is
  \<open>first\<close> and whose earlier records are \<open>pre\<close>.
\<close>

definition sealFault :: "codec \<Rightarrow> nat \<Rightarrow> int \<Rightarrow> bytes list \<Rightarrow> controlRecord \<Rightarrow> bytes option" where
  "sealFault K k first pre rc =
     (let want = \<lparr>slSegment = int k, slFirstSeq = first, slHeadSeq = goInt (crSeq rc - 1),
                  slHeadHash = crPrev rc, slContentSHA256 = sealContentDigest K pre, slSink = None\<rparr>
      in if \<not> sealChainFieldsAgree (crSeal rc) want then Some ''seal''
         else (case crSeal rc of
                Some s \<Rightarrow>
                  (case slSink s of
                     Some b \<Rightarrow> if \<not> ssRetainUntil b > crTime rc then Some ''sink.retain_until'' else None
                   | None \<Rightarrow> None)
              | None \<Rightarrow> None))"

text \<open>The loop of \<open>verifySealed\<close>: \<open>pre\<close> is the part already walked, \<open>found\<close> the seal's time and sink.\<close>

fun sealedLoop ::
  "codec \<Rightarrow> nat \<Rightarrow> int \<Rightarrow> bytes \<Rightarrow> bytes list \<Rightarrow> bytes list \<Rightarrow> int \<times> SealSink option \<Rightarrow>
   control_error + int \<times> SealSink option" where
  "sealedLoop K k first path pre [] found = Inr found"
| "sealedLoop K k first path pre (r # rs) found =
     (case successfulSeal K r of
        None \<Rightarrow> sealedLoop K k first path (pre @ [r]) rs found
      | Some rc \<Rightarrow>
          if rs \<noteq> [] then Inl (setError FaultSealNotLast (int k) path (goInt (crSeq rc + 1)) NoCause)
          else (case sealFault K k first pre rc of
                 Some f \<Rightarrow> Inl (setError FaultManifest (int k) path 0 (TextCause f))
               | None \<Rightarrow>
                   sealedLoop K k first path (pre @ [r]) rs
                     (crTime rc, (case crSeal rc of Some s \<Rightarrow> slSink s | None \<Rightarrow> None))))"

definition disagreement :: "int \<Rightarrow> int \<Rightarrow> bytes \<Rightarrow> bytes \<Rightarrow> int \<Rightarrow> int \<Rightarrow> ManifestEntry \<Rightarrow> bytes option" where
  "disagreement first headSeq hash whole sz fsize e =
     (if meFirstSeq e \<noteq> first then Some ''first_seq''
      else if meHeadSeq e \<noteq> headSeq then Some ''head_seq''
      else if meHeadHash e \<noteq> hash then Some ''head_hash''
      else if meSHA256 e \<noteq> whole then Some ''sha256''
      else if meBytes e \<noteq> fsize \<or> sz \<noteq> fsize then Some ''bytes''
      else None)"

definition sealedFault :: "nat \<Rightarrow> bytes \<Rightarrow> Start \<Rightarrow> bytes list \<Rightarrow> ledger_error \<Rightarrow> control_error" where
  "sealedFault k path s recs e =
     (case e of
        TornError _ \<Rightarrow>
          setError FaultTorn (int k) path (goInt (uint (startBase s) + int (length recs) + 1)) (LedgerCause e)
      | ChainBrokenError l \<Rightarrow>
          if l = 1 \<and> k > 1
          then setError FaultBoundary (int k) path (goInt (uint (startBase s) + 1)) (LedgerCause e)
          else setError FaultBroken (int k) path (goInt (uint (startBase s) + int l)) (LedgerCause e)
      | _ \<Rightarrow> LedgerFault e)"

definition verifySealed ::
  "codec \<Rightarrow> setIO \<Rightarrow> directory \<Rightarrow> bytes \<Rightarrow> nat \<Rightarrow> Start \<Rightarrow> ManifestEntry \<Rightarrow>
   bytes list \<times> (control_error + Segment)" where
  "verifySealed K io d resolved k s e =
     (let path = SegmentPath resolved k
      in case contents d path of
           None \<Rightarrow> ([], Inl (setError FaultMissingSegment (int k) path 0 NoCause))
         | Some file \<Rightarrow>
             if ioSegmentFails io k then ([], Inl IOFault)
             else
               let (recs, head, verr) = VerifyReader (kUnm K) (kHash K) \<lparr>rdBytes = file, rdFault = ioSegmentFault io k\<rparr> s;
                   first = goInt (uint (startBase s) + 1);
                   headSeq = goInt (uint (startBase s) + int (headCount head));
                   (whole, sz) = segmentDigests K recs;
                   fsize = int (length file)
               in (case verr of
                    Some err \<Rightarrow> (recs, Inl (sealedFault k path s recs err))
                  | None \<Rightarrow>
                      (case sealedLoop K k first path [] recs (0, None) of
                         Inl err \<Rightarrow> (recs, Inl err)
                       | Inr (sealedAt, sink) \<Rightarrow>
                           if sealedAt = 0
                           then (recs, Inl (setError FaultManifest (int k) path 0 (TextCause ''seal'')))
                           else (case disagreement first headSeq (headHash head) whole sz fsize e of
                                  Some f \<Rightarrow> (recs, Inl (setError FaultManifest (int k) path 0 (TextCause f)))
                                | None \<Rightarrow>
                                    (recs, Inr \<lparr>sgN = k, sgPath = path, sgFirstSeq = first, sgHeadSeq = headSeq,
                                                sgHeadHash = headHash head, sgSHA256 = whole, sgBytes = fsize,
                                                sgRecords = headCount head, sgSealedAt = sealedAt,
                                                sgSink = sink\<rparr>)))))"

record sealedWalk =
  swM :: "Manifest option"
  swV :: View
  swStart :: Start

fun walkLoop ::
  "codec \<Rightarrow> setIO \<Rightarrow> directory \<Rightarrow> bytes \<Rightarrow> nat \<Rightarrow> ManifestEntry list \<Rightarrow> sealedWalk \<Rightarrow>
   sealedWalk \<times> control_error option" where
  "walkLoop K io d resolved i [] w = (w, None)"
| "walkLoop K io d resolved i (e # es) w =
     (let (recs, res) = verifySealed K io d resolved (i + 1) (swStart w) e;
          v = (swV w)\<lparr>vRecords := vRecords (swV w) @ recs\<rparr>
      in case res of
           Inl err \<Rightarrow>
             (w\<lparr>swV := v\<lparr>vHead :=
                 (if recs = [] then \<lparr>lhHash = startPrev (swStart w), lhCount = goInt (uint (startBase (swStart w)))\<rparr>
                  else \<lparr>lhHash = kHash K (last recs),
                        lhCount = goInt (uint (startBase (swStart w)) + int (length recs))\<rparr>)\<rparr>\<rparr>,
              Some err)
         | Inr seg \<Rightarrow>
             walkLoop K io d resolved (i + 1) es
               (w\<lparr>swV := v\<lparr>vSealed := vSealed v @ [seg]\<rparr>,
                  swStart := \<lparr>startPrev = sgHeadHash seg, startBase = word_of_int (sgHeadSeq seg)\<rparr>\<rparr>))"

definition emptyWalk :: sealedWalk where
  "emptyWalk = \<lparr>swM = None, swV = noView\<lparr>vFirstSeq := 1\<rparr>, swStart = zeroStart\<rparr>"

definition walkSealed ::
  "codec \<Rightarrow> setIO \<Rightarrow> directory \<Rightarrow> bytes \<Rightarrow> sealedWalk \<times> control_error option" where
  "walkSealed K io d resolved =
     (case loadManifest K io d resolved of
        Inl e \<Rightarrow> (emptyWalk, Some e)
      | Inr None \<Rightarrow> (emptyWalk, None)
      | Inr (Some m) \<Rightarrow>
          walkLoop K io d resolved 0 (mfSegments m)
            (emptyWalk\<lparr>swM := Some m, swV := (swV emptyWalk)\<lparr>vLogID := mfLogID m\<rparr>\<rparr>))"

section \<open>The active segment\<close>

definition maxGenesisLine :: nat where
  "maxGenesisLine = 8192"

definition firstLineIsFreshGenesis :: "codec \<Rightarrow> bytes \<Rightarrow> bool" where
  "firstLineIsFreshGenesis K file =
     (let buf = take maxGenesisLine file;
          line = takeWhile (\<lambda>c. c \<noteq> newline) buf
                 @ (if newline \<in> set buf then [newline] else [])
      in case kFirst K line of
           None \<Rightarrow> False
         | Some (prev, logID) \<Rightarrow> prev = '''' \<and> IsLogID logID)"

definition mapActiveFault ::
  "codec \<Rightarrow> bytes \<Rightarrow> bytes \<Rightarrow> Start \<Rightarrow> bytes list \<Rightarrow> ledger_error \<Rightarrow> control_error" where
  "mapActiveFault K resolved file s pre e =
     (case e of
        TornError _ \<Rightarrow>
          setError FaultTorn 0 resolved (goInt (uint (startBase s) + int (length pre) + 1)) (LedgerCause e)
      | ChainBrokenError l \<Rightarrow>
          if l = 1 \<and> startBase s > 0
          then SetFault \<lparr>seFault = FaultBoundary, seSegment = 0, sePath = resolved,
                         seSeq = goInt (uint (startBase s) + 1), seErr = LedgerCause e,
                         seNoManifest = False, seOlderBinary = firstLineIsFreshGenesis K file\<rparr>
          else setError FaultBroken 0 resolved (goInt (uint (startBase s) + int l)) (LedgerCause e)
      | _ \<Rightarrow> LedgerFault e)"

definition activeRecords :: "View \<Rightarrow> bytes list" where
  "activeRecords v = drop (length (vRecords v) - sgRecords (vActive v)) (vRecords v)"

text \<open>The seal-terminal check: \<open>pre\<close> is the part of the active already walked.\<close>

fun finishLoop ::
  "codec \<Rightarrow> nat \<Rightarrow> bytes list \<Rightarrow> bytes list \<Rightarrow> View \<Rightarrow> View \<times> control_error option" where
  "finishLoop K sealedCount pre [] v = (v, None)"
| "finishLoop K sealedCount pre (r # rs) v =
     (case successfulSeal K r of
        None \<Rightarrow> finishLoop K sealedCount (pre @ [r]) rs v
      | Some rc \<Rightarrow>
          if rs \<noteq> [] then
            (v, Some (setError FaultSealNotLast 0 (sgPath (vActive v)) (goInt (crSeq rc + 1)) NoCause))
          else (case sealFault K (sealedCount + 1) (sgFirstSeq (vActive v)) pre rc of
                 Some f \<Rightarrow>
                   (v, Some (setError FaultManifest (int (sealedCount + 1)) (sgPath (vActive v)) (crSeq rc)
                               (TextCause f)))
               | None \<Rightarrow> finishLoop K sealedCount (pre @ [r]) rs (v\<lparr>vState := StateSealedNotRotated\<rparr>)))"

definition finishActive :: "codec \<Rightarrow> View \<Rightarrow> nat \<Rightarrow> View \<times> control_error option" where
  "finishActive K v sealedCount = finishLoop K sealedCount [] (activeRecords v) v"

definition identityCheck :: "codec \<Rightarrow> View \<Rightarrow> Manifest \<Rightarrow> View \<times> control_error option" where
  "identityCheck K v m =
     (if GenesisLogID (kLogIDOf K) (vRecords v) = Some (mfLogID m) then (v, None)
      else (v, Some (setError FaultManifest 0 (ManifestPath (sgPath (vActive v))) 0 (TextCause ''log_id''))))"

text \<open>The first sibling, in ordinal order, that the manifest and the in-progress link do not explain.\<close>

definition unexplained :: "directory \<Rightarrow> nat \<Rightarrow> nat \<Rightarrow> (nat \<times> bytes) list \<Rightarrow> bytes option" where
  "unexplained d n ino siblings =
     map_option (\<lambda>ord. the (map_of siblings ord))
       (find (\<lambda>ord. \<not> (1 \<le> ord \<and> ord \<le> n)
                    \<and> \<not> (ord = n + 1 \<and> sameFile d (the (map_of siblings ord)) ino))
         (sortedOrdinals siblings))"

definition activeSegment :: "bytes \<Rightarrow> Start \<Rightarrow> Head \<Rightarrow> nat \<Rightarrow> Segment" where
  "activeSegment resolved s head n =
     \<lparr>sgN = 0, sgPath = resolved, sgFirstSeq = goInt (uint (startBase s) + 1),
      sgHeadSeq = goInt (uint (startBase s) + int (headCount head)), sgHeadHash = headHash head,
      sgSHA256 = '''', sgBytes = int n, sgRecords = headCount head, sgSealedAt = 0, sgSink = None\<rparr>"

definition readSingle ::
  "codec \<Rightarrow> directory \<Rightarrow> bytes \<Rightarrow> nat \<Rightarrow> (nat \<times> bytes) list \<Rightarrow> View \<Rightarrow> (Start \<Rightarrow> verified) \<Rightarrow>
   View \<times> control_error option" where
  "readSingle K d resolved ino siblings v verify =
     (case unexplained d 0 ino siblings of
        Some p \<Rightarrow>
          (v, Some (SetFault \<lparr>seFault = FaultUnexpectedSegment, seSegment = 0, sePath = p, seSeq = 0,
                              seErr = NoCause, seNoManifest = True, seOlderBinary = False\<rparr>))
      | None \<Rightarrow>
          let (recs, head, verr) = verify zeroStart;
              v = v\<lparr>vRecords := recs, vHead := \<lparr>lhHash = headHash head, lhCount = int (headCount head)\<rparr>,
                    vActive := activeSegment resolved zeroStart head (length (dirNode d ino))\<rparr>
          in (case verr of
               Some e \<Rightarrow> (v, Some (mapActiveFault K resolved (dirNode d ino) zeroStart recs e))
             | None \<Rightarrow> finishActive K v 0))"

definition readMulti ::
  "codec \<Rightarrow> directory \<Rightarrow> bytes \<Rightarrow> nat \<Rightarrow> (nat \<times> bytes) list \<Rightarrow> View \<Rightarrow> Manifest \<Rightarrow> Start \<Rightarrow>
   (Start \<Rightarrow> verified) \<Rightarrow> View \<times> control_error option" where
  "readMulti K d resolved ino siblings v m s verify =
     (let n = length (mfSegments m)
      in case unexplained d n ino siblings of
           Some p \<Rightarrow> (v, Some (setError FaultUnexpectedSegment 0 p 0 NoCause))
         | None \<Rightarrow>
             let v = v\<lparr>vHead := \<lparr>lhHash = startPrev s, lhCount = goInt (uint (startBase s))\<rparr>\<rparr>
             in if sameFile d (SegmentPath resolved n) ino then
                  identityCheck K
                    (v\<lparr>vState := StateRotatedNotSwapped,
                       vActive := noSegment\<lparr>sgPath := resolved, sgFirstSeq := goInt (uint (startBase s) + 1),
                                             sgHeadSeq := goInt (uint (startBase s)),
                                             sgHeadHash := startPrev s\<rparr>\<rparr>) m
                else
                  (let (recs, head, verr) = verify s;
                       v = v\<lparr>vRecords := vRecords v @ recs,
                             vActive := activeSegment resolved s head (length (dirNode d ino))\<rparr>;
                       v = (if headCount head > 0
                            then v\<lparr>vHead := \<lparr>lhHash = headHash head,
                                              lhCount = goInt (uint (startBase s) + int (headCount head))\<rparr>\<rparr>
                            else v)
                   in (case verr of
                        Some e \<Rightarrow> (v, Some (mapActiveFault K resolved (dirNode d ino) s recs e))
                      | None \<Rightarrow>
                          (case finishActive K v n of
                             (v', Some e) \<Rightarrow> (v', Some e)
                           | (v', None) \<Rightarrow> identityCheck K v' m))))"

definition readActive ::
  "codec \<Rightarrow> setIO \<Rightarrow> directory \<Rightarrow> bytes \<Rightarrow> nat \<Rightarrow> sealedWalk \<Rightarrow> (Start \<Rightarrow> verified) \<Rightarrow>
   View \<times> control_error option" where
  "readActive K io d resolved ino w verify =
     (case listSiblings io d resolved of
        Inl e \<Rightarrow> (swV w, Some e)
      | Inr siblings \<Rightarrow>
          (case swM w of
             None \<Rightarrow> readSingle K d resolved ino siblings (swV w) verify
           | Some m \<Rightarrow> readMulti K d resolved ino siblings (swV w) m (swStart w) verify))"

section \<open>Reading the whole set\<close>

definition activeMissing :: "bytes \<Rightarrow> control_error" where
  "activeMissing resolved = setError FaultActiveMissing 0 resolved 0 NoCause"

text \<open>
  \<open>race\<close> is what other processes do to the directory between the open and the lock of an
  attempt; once the lock is held nothing changes under it.
\<close>

fun openByName ::
  "setIO \<Rightarrow> LockMode \<Rightarrow> (nat \<Rightarrow> directory \<Rightarrow> directory) \<Rightarrow> nat \<Rightarrow> directory \<Rightarrow> bytes \<Rightarrow>
   directory \<times> (control_error + nat)" where
  "openByName io mode race 0 d resolved = (d, Inl RotatedTwice)"
| "openByName io mode race (Suc k) d resolved =
     (case inodeOf d resolved of
        None \<Rightarrow> (d, Inl NotExist)
      | Some ino \<Rightarrow>
          if ioOpenFails io then (d, Inl IOFault)
          else
            let d' = race k d
            in (case (if mode = Locked then ioLock io else None) of
                 Some e \<Rightarrow> (d', Inl (LedgerFault e))
               | None \<Rightarrow>
                   if sameFile d' resolved ino then (d', Inr ino)
                   else openByName io mode race k d' resolved))"

definition readerVerify :: "codec \<Rightarrow> setIO \<Rightarrow> bytes \<Rightarrow> Start \<Rightarrow> verified" where
  "readerVerify K io file s =
     VerifyReader (kUnm K) (kHash K) \<lparr>rdBytes = file, rdFault = ioReadFault io\<rparr> s"

definition Read ::
  "codec \<Rightarrow> setIO \<Rightarrow> LockMode \<Rightarrow> (nat \<Rightarrow> directory \<Rightarrow> directory) \<Rightarrow> directory \<Rightarrow> bytes \<Rightarrow>
   directory \<times> View \<times> control_error option" where
  "Read K io mode race d resolved =
     (case openByName io mode race 2 d resolved of
        (d', Inl e) \<Rightarrow>
          (if e = NotExist then
             (case hasHistory io d' resolved of
                Inl he \<Rightarrow> (d', noView, Some he)
              | Inr hist \<Rightarrow> (d', noView, Some (if hist then activeMissing resolved else e)))
           else (d', noView, Some e))
      | (d', Inr ino) \<Rightarrow>
          (case walkSealed K io d' resolved of
             (w, Some e) \<Rightarrow> (d', swV w, Some e)
           | (w, None) \<Rightarrow>
               (case readActive K io d' resolved ino w (readerVerify K io (dirNode d' ino)) of
                  (v, e) \<Rightarrow> (d', v, e))))"

end
