(* ===== verification/Control_Write.thy ===== *)
theory Control_Write
  imports Control_Set
begin

text \<open>
  Package \<^verbatim>\<open>internal/control\<close>, the writers: opening the active under its exclusive lock
  (\<open>lockActive\<close>, \<open>openActive\<close>, \<open>Writable\<close> in \<^verbatim>\<open>segments.go\<close>), \<open>Append\<close> and \<open>Repair\<close>
  (\<^verbatim>\<open>log.go\<close>), the seal and its rotation (\<open>SealActive\<close>, \<open>CompleteSeal\<close>, \<open>rotate\<close> in
  \<^verbatim>\<open>seal.go\<close>).

  \<open>race\<close> and \<open>race'\<close> are what other processes do to the directory between the walk and the open,
  and between the open and the lock (the two test hooks of the code mark the same places); the
  exclusive lock keeps the directory still after that. \<open>clock\<close> collects what a writer draws from
  the system: the time, random bytes, the printable runes, and the answers of its write, link,
  replace, create and truncate calls. \<open>crash\<close> is the value of the crash variable: the step it
  names is never taken, which is the state a crash there leaves behind.
\<close>

section \<open>Opening for a write\<close>

fun lockAttempts ::
  "codec \<Rightarrow> setIO \<Rightarrow> (nat \<Rightarrow> directory \<Rightarrow> directory) \<Rightarrow> (nat \<Rightarrow> directory \<Rightarrow> directory) \<Rightarrow> bool \<Rightarrow>
   (bytes \<Rightarrow> Start \<Rightarrow> verified) \<Rightarrow> nat \<Rightarrow> directory \<Rightarrow> bytes \<Rightarrow>
   directory \<times> View \<times> (control_error + nat \<times> Start)" where
  "lockAttempts K io race race' create verify 0 d resolved = (d, noView, Inl RotatedTwice)"
| "lockAttempts K io race race' create verify (Suc k) d resolved =
     (let absent = (inodeOf d resolved = None)
      in if ioStatFails io then (d, noView, Inl IOFault)
         else
           (case (if absent then hasHistory io d resolved else Inr False) of
              Inl e \<Rightarrow> (d, noView, Inl e)
            | Inr True \<Rightarrow> (d, noView, Inl (activeMissing resolved))
            | Inr False \<Rightarrow>
                (case walkSealed K io d resolved of
                   (w, Some e) \<Rightarrow> (d, swV w, Inl e)
                 | (w, None) \<Rightarrow>
                     let d = race k d
                     in if ioOpenFails io then (d, noView, Inl IOFault)
                        else if inodeOf d resolved = None \<and> \<not> (absent \<and> create) then (d, noView, Inl NotExist)
                        else
                          let d = (if inodeOf d resolved = None then freshFile resolved [] d else d);
                              ino = the (inodeOf d resolved);
                              d = race' k d
                          in (case ioLock io of
                               Some e \<Rightarrow> (d, noView, Inl (LedgerFault e))
                             | None \<Rightarrow>
                                 if \<not> sameFile d resolved ino
                                 then lockAttempts K io race race' create verify k d resolved
                                 else
                                   (case loadManifest K io d resolved of
                                      Inl e \<Rightarrow> (d, noView, Inl e)
                                    | Inr m2 \<Rightarrow>
                                        if \<not> manifestEqual (swM w) m2
                                        then lockAttempts K io race race' create verify k d resolved
                                        else
                                          (case readActive K io d resolved ino w (verify (dirNode d ino)) of
                                             (v, Some e) \<Rightarrow> (d, v, Inl e)
                                           | (v, None) \<Rightarrow> (d, v, Inr (ino, swStart w))))))))"

definition lockActive ::
  "codec \<Rightarrow> setIO \<Rightarrow> (nat \<Rightarrow> directory \<Rightarrow> directory) \<Rightarrow> (nat \<Rightarrow> directory \<Rightarrow> directory) \<Rightarrow> bool \<Rightarrow>
   (bytes \<Rightarrow> Start \<Rightarrow> verified) \<Rightarrow> directory \<Rightarrow> bytes \<Rightarrow>
   directory \<times> View \<times> (control_error + nat \<times> Start)" where
  "lockActive K io race race' create verify d resolved =
     lockAttempts K io race race' create verify 2 d resolved"

text \<open>The writer's one read of the active: \<open>ledger.Resume\<close>, with the head recomputed from its records.\<close>

definition writerVerify :: "codec \<Rightarrow> setIO \<Rightarrow> bytes \<Rightarrow> Start \<Rightarrow> verified" where
  "writerVerify K io file s =
     (case Resume (kUnm K) (kHash K) file (ioReadFault io) Locked s of
        (c, recs, e) \<Rightarrow>
          (recs,
           if recs = [] then \<lparr>headHash = startPrev s, headCount = 0\<rparr>
           else \<lparr>headHash = kHash K (last recs), headCount = length recs\<rparr>, e))"

record openActiveResult =
  oaChain :: Chain
  oaInode :: nat

definition openActive ::
  "codec \<Rightarrow> setIO \<Rightarrow> (nat \<Rightarrow> directory \<Rightarrow> directory) \<Rightarrow> (nat \<Rightarrow> directory \<Rightarrow> directory) \<Rightarrow>
   directory \<Rightarrow> bytes \<Rightarrow> directory \<times> View \<times> (control_error + openActiveResult)" where
  "openActive K io race race' d resolved =
     (case lockActive K io race race' True (writerVerify K io) d resolved of
        (d', v, Inl e) \<Rightarrow> (d', v, Inl e)
      | (d', v, Inr (ino, s)) \<Rightarrow>
          if vState v \<noteq> StateOpen then (d', v, Inl ErrSealed)
          else (case Resume (kUnm K) (kHash K) (dirNode d' ino) (ioReadFault io) Locked s of
                 (Some c, _) \<Rightarrow> (d', v, Inr \<lparr>oaChain = c, oaInode = ino\<rparr>)
               | (None, _) \<Rightarrow> (d', v, Inl IOFault)))"

definition Writable ::
  "codec \<Rightarrow> setIO \<Rightarrow> (nat \<Rightarrow> directory \<Rightarrow> directory) \<Rightarrow> (nat \<Rightarrow> directory \<Rightarrow> directory) \<Rightarrow>
   directory \<Rightarrow> bytes \<Rightarrow> control_error option" where
  "Writable K io race race' d resolved =
     (case openActive K io race race' d resolved of
        (_, _, Inl e) \<Rightarrow> Some e
      | (_, _, Inr _) \<Rightarrow> None)"

section \<open>Appending\<close>

datatype link_answer = LinkOk | LinkUnsupported | LinkFails

text \<open>A truncation and its sync: done, the file left as it was, or cut with the sync failing.\<close>

datatype truncate_answer = TruncateOk | TruncateFails | TruncateUnsynced

record clock =
  ckNow :: int
  ckLocatorNow :: int
  ckUnix :: nat
  ckRandom :: "bytes option"
  ckPrint :: "rune \<Rightarrow> bool"
  ckWrite :: write_outcome
  ckLink :: link_answer
  ckManifestFails :: bool
  ckSwapFails :: bool
  ckCreateFails :: bool
  ckFragmentWrite :: write_outcome
  ckTruncate :: truncate_answer

definition manifestLogID :: "codec \<Rightarrow> View \<Rightarrow> control_error + bytes" where
  "manifestLogID K v =
     (if vLogID v \<noteq> '''' then Inr (vLogID v)
      else case GenesisLogID (kLogIDOf K) (vRecords v) of
             None \<Rightarrow> Inl ErrUnsealable
           | Some i \<Rightarrow> Inr i)"

definition checkSealPlacement :: "codec \<Rightarrow> Chain \<Rightarrow> View \<Rightarrow> ControlEvent \<Rightarrow> control_error option" where
  "checkSealPlacement K c v e =
     (if ceAction e \<noteq> ''seal'' then None
      else (case ceSeal e of
             None \<Rightarrow> None
           | Some s \<Rightarrow>
               if cCount c < 1 then Some ErrNothingToSeal
               else (case manifestLogID K v of
                      Inl err \<Rightarrow> Some err
                    | Inr _ \<Rightarrow>
                        if slSegment s \<noteq> int (length (vSealed v) + 1) then Some (Refused ''seal names another segment'')
                        else if slFirstSeq s \<noteq> goInt (uint (cBase c) + 1) then Some (Refused ''seal first_seq'')
                        else if slHeadSeq s \<noteq> goInt (uint (cBase c) + int (cCount c)) then Some (Refused ''seal head_seq'')
                        else if slHeadHash s \<noteq> cPrev c then Some (Refused ''seal head_hash'')
                        else if slContentSHA256 s \<noteq> sealContentDigest K (activeRecords v)
                        then Some (Refused ''seal content_sha256'')
                        else None)))"

definition recordOf :: "clock \<Rightarrow> Chain \<Rightarrow> ControlEvent \<Rightarrow> bytes \<Rightarrow> controlRecord" where
  "recordOf ck c e logID =
     \<lparr>crV = ''control/1'', crSeq = goInt (uint (cBase c) + int (cCount c) + 1), crTime = ckNow ck,
      crAction = ceAction e, crAgent = ceAgent e, crOutcome = ceOutcome e, crReason = ceReason e,
      crInvoker = ceInvoker e, crAssertedAs = ceAssertedAs e, crWitness = ceWitness e,
      crConfigHash = ceConfigHash e, crBootstrap = ceBootstrap e, crFragmentLen = ceFragmentLen e,
      crFragmentSHA = ceFragmentSHA e, crOrigin = Sanitized (ckPrint ck) (ceOrigin e),
      crDetail = cleanRunes (ckPrint ck) (ceDetail e), crAnchor = ceAnchor e, crSeal = ceSeal e,
      crPrev = cPrev c, crLogID = logID\<rparr>"

definition appendOn ::
  "codec \<Rightarrow> clock \<Rightarrow> Chain \<Rightarrow> View \<Rightarrow> ControlEvent \<Rightarrow> Chain \<times> (control_error + LogicalHead \<times> bytes)" where
  "appendOn K ck c v e =
     (let logical = goInt (uint (cBase c) + int (cCount c))
      in case checkAnchorCoverage (ceAnchor e) logical of
           Some m \<Rightarrow> (c, Inl (Refused m))
         | None \<Rightarrow>
             (case checkSealPlacement K c v e of
                Some err \<Rightarrow> (c, Inl err)
              | None \<Rightarrow>
                  (case (if cBase c = 0 \<and> cCount c = 0 then newLogID (ckRandom ck) else Some '''') of
                     None \<Rightarrow> (c, Inl IOFault)
                   | Some logID \<Rightarrow>
                       (case kMarshal K (recordOf ck c e logID) of
                          None \<Rightarrow> (c, Inl IOFault)
                        | Some line \<Rightarrow>
                            (case Chain_Append (kUnm K) (kHash K) (ckWrite ck) c line of
                               (c', Some err) \<Rightarrow> (c', Inl (LedgerFault err))
                             | (c', None) \<Rightarrow>
                                 (c', Inr (\<lparr>lhHash = cPrev c',
                                            lhCount = goInt (uint (cBase c') + int (cCount c'))\<rparr>, line)))))))"

definition Append ::
  "codec \<Rightarrow> setIO \<Rightarrow> (nat \<Rightarrow> directory \<Rightarrow> directory) \<Rightarrow> (nat \<Rightarrow> directory \<Rightarrow> directory) \<Rightarrow> clock \<Rightarrow>
   directory \<Rightarrow> bytes \<Rightarrow> ControlEvent \<Rightarrow> directory \<times> (control_error + LogicalHead)" where
  "Append K io race race' ck d resolved e =
     (case appendPermit (kURL K) e of
        Some m \<Rightarrow> (d, Inl (Refused m))
      | None \<Rightarrow>
          (case openActive K io race race' d resolved of
             (d', v, Inl err) \<Rightarrow> (d', Inl err)
           | (d', v, Inr oa) \<Rightarrow>
               (case appendOn K ck (oaChain oa) v e of
                  (c', res) \<Rightarrow>
                    (writeNode (oaInode oa) (cFile c') d',
                     (case res of Inl err \<Rightarrow> Inl err | Inr (head, line) \<Rightarrow> Inr head)))))"

section \<open>Sealing and rotating\<close>

record PutReceipt =
  prVersionID :: bytes
  prRetainUntil :: int
  prExisted :: bool

text \<open>The interface a sink implements: an argument of the seal.\<close>

record SinkWriter =
  swKind :: bytes
  swURL :: bytes
  swPrepare :: "SealSink \<Rightarrow> bytes option"
  swLocator :: "bytes \<Rightarrow> nat \<Rightarrow> int \<Rightarrow> SealSink"
  swPut :: "SealSink \<Rightarrow> bytes \<Rightarrow> bytes \<Rightarrow> bytes + PutReceipt"

record SealResult =
  srSegment :: nat
  srFirstSeq :: int
  srHeadSeq :: int
  srHeadHash :: bytes
  srSHA256 :: bytes
  srPath :: bytes
  srCompleted :: bool
  srSink :: "SealSink option"
  srReceipt :: PutReceipt

record confirmedCopy =
  ccBlock :: SealSink
  ccWhole :: bytes
  ccReceipt :: PutReceipt

definition noReceipt :: PutReceipt where
  "noReceipt = \<lparr>prVersionID = '''', prRetainUntil = 0, prExisted = False\<rparr>"

definition tempName :: "bytes \<Rightarrow> bytes \<Rightarrow> bool" where
  "tempName resolved name \<longleftrightarrow>
     has_prefix name (resolved @ ''.segments-'') \<or> has_prefix name (''.'' @ resolved @ ''.next-'')
     \<or> has_prefix name (''.'' @ resolved @ ''.restore-'')"

definition sweepTemps :: "setIO \<Rightarrow> bytes \<Rightarrow> directory \<Rightarrow> directory" where
  "sweepTemps io resolved d = (if ioListFails io then d else removeNames (tempName resolved) d)"

definition linkSegment :: "clock \<Rightarrow> bytes \<Rightarrow> nat \<Rightarrow> directory \<Rightarrow> directory \<times> control_error option" where
  "linkSegment ck resolved n d =
     (let seg = SegmentPath resolved n
      in case inodeOf d resolved of
           None \<Rightarrow> (d, Some NotExist)
         | Some ino \<Rightarrow>
             (case inodeOf d seg of
                Some ino' \<Rightarrow>
                  if ino' = ino then (d, None) else (d, Some (setError FaultUnexpectedSegment 0 seg 0 NoCause))
              | None \<Rightarrow>
                  (case ckLink ck of
                     LinkOk \<Rightarrow> (linkName seg ino d, None)
                   | LinkUnsupported \<Rightarrow> (d, Some ErrNoHardLinks)
                   | LinkFails \<Rightarrow> (d, Some IOFault))))"

text \<open>
  \<open>atomicfile.Replace\<close>: the new file is under the name whole, or no name the ledger reads changed. A failure
  on the way removes the temporary file again; one that could not be removed stays under a name only
  \<open>sweepTemps\<close> looks at, and is left out here.
\<close>

definition Replace :: "bool \<Rightarrow> bytes \<Rightarrow> bytes \<Rightarrow> directory \<Rightarrow> directory \<times> control_error option" where
  "Replace fails dest data d = (if fails then (d, Some IOFault) else (freshFile dest data d, None))"

definition writeManifest ::
  "codec \<Rightarrow> clock \<Rightarrow> bytes \<Rightarrow> Manifest \<Rightarrow> directory \<Rightarrow> directory \<times> control_error option" where
  "writeManifest K ck resolved m d =
     (case kManifest K m of
        None \<Rightarrow> (d, Some IOFault)
      | Some data \<Rightarrow>
          (case ParseManifest K data resolved of
             Inl f \<Rightarrow> (d, Some (Refused f))
           | Inr _ \<Rightarrow> Replace (ckManifestFails ck) (ManifestPath resolved) data d))"

definition swapActive :: "clock \<Rightarrow> bytes \<Rightarrow> directory \<Rightarrow> directory \<times> control_error option" where
  "swapActive ck resolved d = Replace (ckSwapFails ck) resolved [] d"

text \<open>
  The protected copy of a segment: nothing on the floor, else the sink must be the one the record
  names, at the key it derives, and either the copy confirmed before or a fresh \<open>Put\<close>.
\<close>

definition confirms :: "confirmedCopy option \<Rightarrow> SealSink \<Rightarrow> bytes \<Rightarrow> bool" where
  "confirms pre b whole =
     (case pre of
        None \<Rightarrow> False
      | Some p \<Rightarrow> ssKind (ccBlock p) = ssKind b \<and> ssURL (ccBlock p) = ssURL b \<and> ccWhole p = whole)"

definition protectedCopy ::
  "codec \<Rightarrow> bytes \<Rightarrow> SinkWriter option \<Rightarrow> confirmedCopy option \<Rightarrow> bytes \<Rightarrow> nat \<Rightarrow> int \<Rightarrow> bytes list \<Rightarrow>
   SealSink option \<Rightarrow> control_error + SealSink option \<times> PutReceipt" where
  "protectedCopy K crash sink pre logID n sealTime active block =
     (case block of
        None \<Rightarrow> Inr (None, noReceipt)
      | Some b \<Rightarrow>
          (case sink of
             None \<Rightarrow> Inl (SealErr SealStepSink (Refused ''posture''))
           | Some w \<Rightarrow>
               if swKind w \<noteq> ssKind b \<or> swURL w \<noteq> ssURL b then Inl (SealErr SealStepSink (Refused ''posture''))
               else if ssKey b \<noteq> ssKey (swLocator w logID n sealTime)
               then Inl (SealErr SealStepSink (Refused ''key''))
               else
                 let whole = fst (segmentDigests K active)
                 in if confirms pre b whole then Inr (Some b, ccReceipt (the pre))
                    else if crash = ''after_seal_before_sink'' then Inl (SealErr SealStepSink StoppedByTestHook)
                    else (case swPut w b (segmentBytes active) whole of
                           Inl f \<Rightarrow> Inl (SealErr SealStepSink (SinkFault f))
                         | Inr r \<Rightarrow>
                             if crash = ''after_sink_before_manifest''
                             then Inl (SealErr SealStepManifest StoppedByTestHook) else Inr (Some b, r))))"

definition swapStep ::
  "clock \<Rightarrow> bytes \<Rightarrow> bytes \<Rightarrow> directory \<Rightarrow> nat \<Rightarrow> Segment \<Rightarrow> SealSink option \<Rightarrow> PutReceipt \<Rightarrow>
   directory \<times> (control_error + SealResult)" where
  "swapStep ck crash resolved d n seg sunk rcpt =
     (if crash = ''after_manifest_before_swap'' then (d, Inl (SealErr SealStepSwap StoppedByTestHook))
      else (case swapActive ck resolved d of
             (d', Some err) \<Rightarrow> (d', Inl (SealErr SealStepSwap err))
           | (d', None) \<Rightarrow>
               (d', Inr \<lparr>srSegment = n, srFirstSeq = sgFirstSeq seg, srHeadSeq = sgHeadSeq seg,
                         srHeadHash = sgHeadHash seg, srSHA256 = sgSHA256 seg, srPath = sgPath seg,
                         srCompleted = False, srSink = sunk, srReceipt = rcpt\<rparr>)))"

definition newSegment :: "codec \<Rightarrow> bytes \<Rightarrow> View \<Rightarrow> controlRecord \<Rightarrow> Segment" where
  "newSegment K resolved v rc =
     (let n = length (vSealed v) + 1; active = activeRecords v; (whole, sz) = segmentDigests K active
      in \<lparr>sgN = n, sgPath = SegmentPath resolved n, sgFirstSeq = sgFirstSeq (vActive v),
          sgHeadSeq = lhCount (vHead v), sgHeadHash = lhHash (vHead v), sgSHA256 = whole, sgBytes = sz,
          sgRecords = length active, sgSealedAt = crTime rc,
          sgSink = (case crSeal rc of Some s \<Rightarrow> slSink s | None \<Rightarrow> None)\<rparr>)"

definition rotate ::
  "codec \<Rightarrow> clock \<Rightarrow> bytes \<Rightarrow> SinkWriter option \<Rightarrow> confirmedCopy option \<Rightarrow> bytes \<Rightarrow> View \<Rightarrow> directory \<Rightarrow>
   directory \<times> (control_error + SealResult)" where
  "rotate K ck crash sink pre resolved v d =
     (if vState v = StateRotatedNotSwapped then
        swapStep ck crash resolved d (length (vSealed v)) (last (vSealed v)) None noReceipt
      else
        let n = length (vSealed v) + 1; active = activeRecords v
        in (case linkSegment ck resolved n d of
             (d, Some err) \<Rightarrow> (d, Inl (SealErr SealStepLink err))
           | (d, None) \<Rightarrow>
               (case kDec K (last active) of
                  None \<Rightarrow> (d, Inl (SealErr SealStepManifest (Refused ''the last record is not a seal'')))
                | Some rc \<Rightarrow>
                    if crSeal rc = None
                    then (d, Inl (SealErr SealStepManifest (Refused ''the last record is not a seal'')))
                    else
                      let seg = newSegment K resolved v rc
                      in (case manifestLogID K v of
                           Inl err \<Rightarrow> (d, Inl (SealErr SealStepManifest err))
                         | Inr logID \<Rightarrow>
                             (case protectedCopy K crash sink pre logID n (crTime rc) active (sgSink seg) of
                                Inl err \<Rightarrow> (d, Inl err)
                              | Inr (sunk, rcpt) \<Rightarrow>
                                  (case writeManifest K ck resolved
                                          \<lparr>mfV = ''segments/1'', mfLogID = logID,
                                           mfSegments = map (manifestEntry resolved) (vSealed v @ [seg])\<rparr> d of
                                     (d, Some err) \<Rightarrow> (d, Inl (SealErr SealStepManifest err))
                                   | (d, None) \<Rightarrow> swapStep ck crash resolved d n seg sunk rcpt))))))"

definition sealPayload :: "codec \<Rightarrow> Chain \<Rightarrow> View \<Rightarrow> SealSink option \<Rightarrow> Seal" where
  "sealPayload K c v loc =
     \<lparr>slSegment = int (length (vSealed v) + 1), slFirstSeq = goInt (uint (cBase c) + 1),
      slHeadSeq = goInt (uint (cBase c) + int (cCount c)), slHeadHash = cPrev c,
      slContentSHA256 = sealContentDigest K (activeRecords v), slSink = loc\<rparr>"

text \<open>The View after the seal line is on the chain, without a second read.\<close>

definition sealedView :: "View \<Rightarrow> LogicalHead \<Rightarrow> bytes \<Rightarrow> View" where
  "sealedView v head line =
     v\<lparr>vRecords := vRecords v @ [line],
       vActive := (vActive v)\<lparr>sgRecords := sgRecords (vActive v) + 1, sgHeadSeq := lhCount head,
                               sgHeadHash := lhHash head\<rparr>,
       vHead := head\<rparr>"

definition preflight ::
  "codec \<Rightarrow> clock \<Rightarrow> SinkWriter option \<Rightarrow> bytes \<Rightarrow> nat \<Rightarrow> control_error + SealSink option" where
  "preflight K ck sink logID n =
     (case sink of
        None \<Rightarrow> Inr None
      | Some w \<Rightarrow>
          let l = swLocator w logID n (ckLocatorNow ck)
          in (case swPrepare w l of
               Some f \<Rightarrow> Inl (SealErr SealStepPreflight (SinkFault f))
             | None \<Rightarrow> Inr (Some l)))"

definition sealRecordStep ::
  "codec \<Rightarrow> clock \<Rightarrow> bytes \<Rightarrow> SinkWriter option \<Rightarrow> bytes \<Rightarrow> openActiveResult \<Rightarrow> View \<Rightarrow> ControlEvent \<Rightarrow>
   SealSink option \<Rightarrow> directory \<Rightarrow> directory \<times> (control_error + SealResult)" where
  "sealRecordStep K ck crash sink resolved oa v e loc d =
     (let e = e\<lparr>ceSeal := Some (sealPayload K (oaChain oa) v loc)\<rparr>
      in case checkSealShape (kURL K) e of
           Some m \<Rightarrow> (d, Inl (SealErr SealStepRecord (Refused m)))
         | None \<Rightarrow>
             (case appendOn K ck (oaChain oa) v e of
                (c', Inl err) \<Rightarrow> (writeNode (oaInode oa) (cFile c') d, Inl (SealErr SealStepRecord err))
              | (c', Inr (head, line)) \<Rightarrow>
                  let d = writeNode (oaInode oa) (cFile c') d
                  in if crash = ''after_seal_before_manifest''
                     then (d, Inl (SealErr SealStepManifest StoppedByTestHook))
                     else rotate K ck crash sink None resolved (sealedView v head line) d))"

definition SealActive ::
  "codec \<Rightarrow> setIO \<Rightarrow> (nat \<Rightarrow> directory \<Rightarrow> directory) \<Rightarrow> (nat \<Rightarrow> directory \<Rightarrow> directory) \<Rightarrow> clock \<Rightarrow> bytes \<Rightarrow>
   SinkWriter option \<Rightarrow> directory \<Rightarrow> bytes \<Rightarrow> ControlEvent \<Rightarrow> directory \<times> (control_error + SealResult)" where
  "SealActive K io race race' ck crash sink d resolved e =
     (if ceAction e \<noteq> ''seal'' \<or> ceOutcome e \<noteq> ''success'' \<or> ceSeal e \<noteq> None
      then (d, Inl (Refused ''SealActive takes a success seal event without a payload''))
      else
        (case openActive K io race race' d resolved of
           (d, v, Inl err) \<Rightarrow> (d, Inl err)
         | (d, v, Inr oa) \<Rightarrow>
             let d = sweepTemps io resolved d; n = length (vSealed v) + 1
             in if cCount (oaChain oa) = 0 then (d, Inl ErrNothingToSeal)
                else
                  (case manifestLogID K v of
                     Inl err \<Rightarrow> (d, Inl err)
                   | Inr logID \<Rightarrow>
                       (case preflight K ck sink logID n of
                          Inl err \<Rightarrow> (d, Inl err)
                        | Inr loc \<Rightarrow>
                            (case linkSegment ck resolved n d of
                               (d, Some err) \<Rightarrow> (d, Inl (SealErr SealStepLink err))
                             | (d, None) \<Rightarrow>
                                 if crash = ''after_link_before_seal''
                                 then (d, Inl (SealErr SealStepRecord StoppedByTestHook))
                                 else sealRecordStep K ck crash sink resolved oa v e loc d)))))"

definition completeSealWith ::
  "codec \<Rightarrow> setIO \<Rightarrow> (nat \<Rightarrow> directory \<Rightarrow> directory) \<Rightarrow> (nat \<Rightarrow> directory \<Rightarrow> directory) \<Rightarrow> clock \<Rightarrow> bytes \<Rightarrow>
   SinkWriter option \<Rightarrow> confirmedCopy option \<Rightarrow> directory \<Rightarrow> bytes \<Rightarrow>
   directory \<times> (control_error + SealResult)" where
  "completeSealWith K io race race' ck crash sink pre d resolved =
     (case lockActive K io race race' False (readerVerify K io) d resolved of
        (d, v, Inl err) \<Rightarrow> (d, Inl err)
      | (d, v, Inr _) \<Rightarrow>
          if vState v = StateOpen then (d, Inl ErrNothingToComplete)
          else (case rotate K ck crash sink pre resolved v (sweepTemps io resolved d) of
                 (d, Inl err) \<Rightarrow> (d, Inl err)
               | (d, Inr r) \<Rightarrow> (d, Inr (r\<lparr>srCompleted := True\<rparr>))))"

definition CompleteSeal ::
  "codec \<Rightarrow> setIO \<Rightarrow> (nat \<Rightarrow> directory \<Rightarrow> directory) \<Rightarrow> (nat \<Rightarrow> directory \<Rightarrow> directory) \<Rightarrow> clock \<Rightarrow> bytes \<Rightarrow>
   SinkWriter option \<Rightarrow> directory \<Rightarrow> bytes \<Rightarrow> directory \<times> (control_error + SealResult)" where
  "CompleteSeal K io race race' ck crash sink d resolved =
     completeSealWith K io race race' ck crash sink None d resolved"

section \<open>Repairing\<close>

record RepairResult =
  rrFragmentLen :: int
  rrFragmentSHA :: bytes
  rrCompletedSegment :: int

definition noRepair :: RepairResult where
  "noRepair = \<lparr>rrFragmentLen = 0, rrFragmentSHA = '''', rrCompletedSegment = 0\<rparr>"

definition maxTornFragmentAttempts :: nat where
  "maxTornFragmentAttempts = 1000"

definition tornName :: "bytes \<Rightarrow> nat \<Rightarrow> nat \<Rightarrow> bytes" where
  "tornName resolved unix attempt =
     resolved @ ''.torn-'' @ showDigits unix @ (if attempt > 0 then CHR ''-'' # showDigits (attempt + 1) else [])"

definition storedBytes :: "write_outcome \<Rightarrow> bytes \<Rightarrow> bytes" where
  "storedBytes io data = (case io of WriteFail k \<Rightarrow> take k data | _ \<Rightarrow> data)"

text \<open>\<open>left\<close> counts the attempts that remain, so the attempt made next is \<open>1000 - left\<close>.\<close>

fun tornLoop ::
  "clock \<Rightarrow> bytes \<Rightarrow> bytes \<Rightarrow> nat \<Rightarrow> directory \<Rightarrow> directory \<times> control_error option" where
  "tornLoop ck resolved fragment 0 d = (d, Some (Refused ''could not create a fresh torn-fragment file''))"
| "tornLoop ck resolved fragment (Suc left) d =
     (let candidate = tornName resolved (ckUnix ck) (maxTornFragmentAttempts - Suc left)
      in if inodeOf d candidate \<noteq> None then tornLoop ck resolved fragment left d
         else if ckCreateFails ck then (d, Some IOFault)
         else (freshFile candidate (storedBytes (ckFragmentWrite ck) fragment) d,
               if ckFragmentWrite ck = WriteOk then None else Some IOFault))"

definition writeTornFragment ::
  "clock \<Rightarrow> bytes \<Rightarrow> bytes \<Rightarrow> directory \<Rightarrow> directory \<times> control_error option" where
  "writeTornFragment ck resolved fragment d = tornLoop ck resolved fragment maxTornFragmentAttempts d"

definition hasSuffix :: "bytes \<Rightarrow> bytes \<Rightarrow> bool" where
  "hasSuffix s t \<longleftrightarrow> length t \<le> length s \<and> drop (length s - length t) s = t"

definition moveTailAside ::
  "codec \<Rightarrow> setIO \<Rightarrow> (nat \<Rightarrow> directory \<Rightarrow> directory) \<Rightarrow> clock \<Rightarrow> bytes \<Rightarrow> int \<Rightarrow> bytes list \<Rightarrow> directory \<Rightarrow>
   directory \<times> (control_error + RepairResult)" where
  "moveTailAside K io race ck resolved offset pre d =
     (case inodeOf d resolved of
        None \<Rightarrow> (d, Inl NotExist)
      | Some ino \<Rightarrow>
          if ioOpenFails io then (d, Inl IOFault)
          else
            let d = race 0 d
            in (case ioLock io of
                 Some e \<Rightarrow> (d, Inl (LedgerFault e))
               | None \<Rightarrow>
                   if \<not> sameFile d resolved ino then (d, Inl (Refused ''rotated while it was being repaired''))
                   else if ioReadFault io then (d, Inl IOFault)
                   else
                     let raw = dirNode d ino
                     in if offset < 0 \<or> offset > int (length raw) then (d, Inl (Refused ''torn offset out of range''))
                        else if pre \<noteq> [] \<and> \<not> hasSuffix (take (nat offset) raw) (last pre @ [newline])
                        then (d, Inl (Refused ''changed while it was being repaired''))
                        else
                          let fragment = drop (nat offset) raw;
                              res = \<lparr>rrFragmentLen = int (length fragment), rrFragmentSHA = kHash K fragment,
                                     rrCompletedSegment = 0\<rparr>
                          in (case writeTornFragment ck resolved fragment d of
                               (d, Some e) \<Rightarrow> (d, Inl e)
                             | (d, None) \<Rightarrow>
                                 (case ckTruncate ck of
                                    TruncateFails \<Rightarrow> (d, Inl IOFault)
                                  | TruncateUnsynced \<Rightarrow> (writeNode ino (take (nat offset) raw) d, Inl IOFault)
                                  | TruncateOk \<Rightarrow> (writeNode ino (take (nat offset) raw) d, Inr res)))))"

definition repairEvent :: "RepairResult \<Rightarrow> Invoker \<Rightarrow> bytes \<Rightarrow> Witness \<Rightarrow> ControlEvent" where
  "repairEvent res op assertedAs witness =
     \<lparr>ceAction = ''repair'', ceAgent = '''', ceOutcome = ''success'', ceReason = None, ceInvoker = op,
      ceAssertedAs = assertedAs, ceWitness = witness, ceConfigHash = '''', ceBootstrap = False,
      ceFragmentLen = rrFragmentLen res, ceFragmentSHA = rrFragmentSHA res, ceOrigin = None, ceDetail = [],
      ceAnchor = None, ceSeal = None\<rparr>"

definition appendRepair ::
  "codec \<Rightarrow> setIO \<Rightarrow> (nat \<Rightarrow> directory \<Rightarrow> directory) \<Rightarrow> (nat \<Rightarrow> directory \<Rightarrow> directory) \<Rightarrow> clock \<Rightarrow> bytes \<Rightarrow>
   RepairResult \<Rightarrow> Invoker \<Rightarrow> bytes \<Rightarrow> Witness \<Rightarrow> directory \<Rightarrow> directory \<times> (control_error + RepairResult)" where
  "appendRepair K io race race' ck resolved res op assertedAs witness d =
     (case Append K io race race' ck d resolved (repairEvent res op assertedAs witness) of
        (d, Inl e) \<Rightarrow> (d, Inl e)
      | (d, Inr _) \<Rightarrow> (d, Inr res))"

text \<open>The View the seal at position \<open>i\<close> of the active is judged in: everything through its line.\<close>

definition throughView :: "codec \<Rightarrow> View \<Rightarrow> bytes list \<Rightarrow> nat \<Rightarrow> controlRecord \<Rightarrow> View" where
  "throughView K v active i rc =
     v\<lparr>vRecords := take (length (vRecords v) - length active + i + 1) (vRecords v),
       vActive := (vActive v)\<lparr>sgRecords := i + 1\<rparr>,
       vHead := \<lparr>lhHash = kHash K (active ! i), lhCount = crSeq rc\<rparr>\<rparr>"

fun sealFrom :: "codec \<Rightarrow> View \<Rightarrow> bytes list \<Rightarrow> nat \<Rightarrow> bytes list \<Rightarrow> control_error + nat option" where
  "sealFrom K v active i [] = Inr None"
| "sealFrom K v active i (r # rs) =
     (case successfulSeal K r of
        None \<Rightarrow> sealFrom K v active (i + 1) rs
      | Some rc \<Rightarrow>
          let through = throughView K v active i rc
          in (case finishActive K through (length (vSealed v)) of
               (_, Some e) \<Rightarrow> Inl e
             | (_, None) \<Rightarrow>
                 (case manifestLogID K through of Inl e \<Rightarrow> Inl e | Inr _ \<Rightarrow> Inr (Some i))))"

definition sealToComplete :: "codec \<Rightarrow> View \<Rightarrow> bytes list \<Rightarrow> control_error + nat option" where
  "sealToComplete K v active = sealFrom K v active 0 active"

text \<open>The protected copy of a seal about to be completed, confirmed before anything local changes.\<close>

definition confirmCopy ::
  "codec \<Rightarrow> SinkWriter option \<Rightarrow> View \<Rightarrow> bytes list \<Rightarrow> controlRecord \<Rightarrow> control_error + confirmedCopy option" where
  "confirmCopy K sink v sealed rc =
     (case (case crSeal rc of Some s \<Rightarrow> slSink s | None \<Rightarrow> None) of
        None \<Rightarrow> Inr None
      | Some b \<Rightarrow>
          (case sink of
             None \<Rightarrow> Inl (Refused ''posture'')
           | Some w \<Rightarrow>
               if swKind w \<noteq> ssKind b \<or> swURL w \<noteq> ssURL b then Inl (Refused ''posture'')
               else
                 (case manifestLogID K v of
                    Inl e \<Rightarrow> Inl e
                  | Inr logID \<Rightarrow>
                      if ssKey b \<noteq> ssKey (swLocator w logID (length (vSealed v) + 1) (crTime rc))
                      then Inl (Refused ''key'')
                      else
                        let whole = fst (segmentDigests K sealed)
                        in (case swPut w b (segmentBytes sealed) whole of
                             Inl f \<Rightarrow> Inl (SinkFault f)
                           | Inr r \<Rightarrow> Inr (Some \<lparr>ccBlock = b, ccWhole = whole, ccReceipt = r\<rparr>)))))"

definition repairAfterSeal ::
  "codec \<Rightarrow> setIO \<Rightarrow> (nat \<Rightarrow> directory \<Rightarrow> directory) \<Rightarrow> (nat \<Rightarrow> directory \<Rightarrow> directory) \<Rightarrow> clock \<Rightarrow> bytes \<Rightarrow>
   SinkWriter option \<Rightarrow> bytes \<Rightarrow> View \<Rightarrow> bytes list \<Rightarrow> Invoker \<Rightarrow> bytes \<Rightarrow> Witness \<Rightarrow> directory \<Rightarrow>
   directory \<times> (control_error + RepairResult)" where
  "repairAfterSeal K io race race' ck crash sink resolved v sealed op assertedAs witness d =
     (case kDec K (last sealed) of
        None \<Rightarrow> (d, Inl (Refused ''the seal to complete does not decode as a seal''))
      | Some rc \<Rightarrow>
          if crSeal rc = None then (d, Inl (Refused ''the seal to complete does not decode as a seal''))
          else
            (case confirmCopy K sink v sealed rc of
               Inl e \<Rightarrow> (d, Inl e)
             | Inr pre \<Rightarrow>
                 (case moveTailAside K io race ck resolved
                         (sum_list (map (\<lambda>r. int (length r) + 1) sealed)) sealed d of
                    (d, Inl e) \<Rightarrow> (d, Inl e)
                  | (d, Inr res) \<Rightarrow>
                      if crash = ''repair_after_truncate_before_rotate'' then (d, Inl StoppedByTestHook)
                      else
                        (case completeSealWith K io race race' ck crash sink pre d resolved of
                           (d, Inl e) \<Rightarrow> (d, Inl e)
                         | (d, Inr sr) \<Rightarrow>
                             if crash = ''repair_after_rotate_before_append'' then (d, Inl StoppedByTestHook)
                             else appendRepair K io race race' ck resolved
                                    (res\<lparr>rrCompletedSegment := int (srSegment sr)\<rparr>) op assertedAs witness d))))"

definition Repair ::
  "codec \<Rightarrow> setIO \<Rightarrow> (nat \<Rightarrow> directory \<Rightarrow> directory) \<Rightarrow> (nat \<Rightarrow> directory \<Rightarrow> directory) \<Rightarrow> clock \<Rightarrow> bytes \<Rightarrow>
   SinkWriter option \<Rightarrow> directory \<Rightarrow> bytes \<Rightarrow> Invoker \<Rightarrow> bytes \<Rightarrow> Witness \<Rightarrow>
   directory \<times> (control_error + RepairResult)" where
  "Repair K io race race' ck crash sink d resolved op assertedAs witness =
     (case Read K io Locked race d resolved of
        (d, v, None) \<Rightarrow>
          (d, Inl (Refused (if vState v \<noteq> StateOpen then ''sealed and not yet rotated; run audit seal''
                            else ''not torn; nothing to repair'')))
      | (d, v, Some verr) \<Rightarrow>
          (case verr of
             SetFault se \<Rightarrow>
               if seSegment se \<noteq> 0 then (d, Inl verr)
               else if seFault se = FaultBroken then (d, Inl (Refused ''chain break is not auto-repairable''))
               else if seFault se \<noteq> FaultTorn \<and> seFault se \<noteq> FaultSealNotLast then (d, Inl verr)
               else
                 let active = activeRecords v
                 in (case sealToComplete K v active of
                      Inl e \<Rightarrow> (d, Inl e)
                    | Inr None \<Rightarrow>
                        (case seErr se of
                           LedgerCause (TornError off) \<Rightarrow>
                             (case moveTailAside K io race ck resolved (int off) active d of
                                (d, Inl e) \<Rightarrow> (d, Inl e)
                              | (d, Inr res) \<Rightarrow> appendRepair K io race race' ck resolved res op assertedAs witness d)
                         | _ \<Rightarrow> (d, Inl (Refused ''records after a seal were reported and no seal was found'')))
                    | Inr (Some i) \<Rightarrow>
                        repairAfterSeal K io race race' ck crash sink resolved v (take (i + 1) active)
                          op assertedAs witness d)
           | _ \<Rightarrow> (d, Inl verr)))"

end
