(* ===== verification/Control_Names.thy ===== *)
theory Control_Names
  imports Control_Write
begin

text \<open>
  The directory of a control ledger: what the primitive changes do to its names and files, that
  the names a root uses never collide, and what \<open>listSiblings\<close> finds.
\<close>

section \<open>Directories\<close>

definition wfDir :: "directory \<Rightarrow> bool" where
  "wfDir d \<longleftrightarrow> list_all (\<lambda>e. snd e < dirNext d) (dirNames d)"

lemma map_of_filter_fst: "map_of (filter (\<lambda>e. P (fst e)) xs) n = (if P n then map_of xs n else None)"
  by (induction xs) auto

lemma inodeOf_simps [simp]:
  "inodeOf (linkName name ino d) n = (if n = name then Some ino else inodeOf d n)"
  "inodeOf (freshFile name data d) n = (if n = name then Some (dirNext d) else inodeOf d n)"
  "inodeOf (writeNode i b d) n = inodeOf d n"
  "inodeOf (removeNames P d) n = (if P n then None else inodeOf d n)"
  by (simp_all add: inodeOf_def linkName_def freshFile_def writeNode_def removeNames_def
        map_of_filter_fst [where P = "\<lambda>m. m \<noteq> name"] map_of_filter_fst [where P = "\<lambda>m. \<not> P m"])

lemma dirNode_simps [simp]:
  "dirNode (linkName name ino d) = dirNode d"
  "dirNode (freshFile name data d) = (dirNode d)(dirNext d := data)"
  "dirNode (writeNode i b d) = (dirNode d)(i := b)"
  "dirNode (removeNames P d) = dirNode d"
  by (auto simp: linkName_def freshFile_def writeNode_def removeNames_def)

lemma dirNext_simps [simp]:
  "dirNext (linkName name ino d) = dirNext d"
  "dirNext (freshFile name data d) = dirNext d + 1"
  "dirNext (writeNode i b d) = dirNext d"
  "dirNext (removeNames P d) = dirNext d"
  by (auto simp: linkName_def freshFile_def writeNode_def removeNames_def)

lemma wfDir_inode: "wfDir d \<Longrightarrow> inodeOf d n = Some i \<Longrightarrow> i < dirNext d"
  by (auto simp: wfDir_def list_all_iff inodeOf_def dest!: map_of_SomeD)

lemma wfDir_link [intro]: "wfDir d \<Longrightarrow> inodeOf d m = Some ino \<Longrightarrow> wfDir (linkName name ino d)"
  using wfDir_inode [of d m ino] by (simp add: wfDir_def list_all_iff linkName_def)

lemma wfDir_fresh [intro]: "wfDir d \<Longrightarrow> wfDir (freshFile name data d)"
  by (simp add: wfDir_def list_all_iff linkName_def freshFile_def less_Suc_eq)

lemma wfDir_write [intro]: "wfDir d \<Longrightarrow> wfDir (writeNode i b d)"
  by (simp add: wfDir_def writeNode_def)

lemma wfDir_remove [intro]: "wfDir d \<Longrightarrow> wfDir (removeNames P d)"
  by (simp add: wfDir_def removeNames_def list_all_iff)

lemma contents_simps:
  "contents (linkName name ino d) n = (if n = name then Some (dirNode d ino) else contents d n)"
  "contents (removeNames P d) n = (if P n then None else contents d n)"
  by (auto simp: contents_def)

lemma contents_freshFile:
  "wfDir d \<Longrightarrow> contents (freshFile name data d) n = (if n = name then Some data else contents d n)"
  by (cases "inodeOf d n") (auto simp: contents_def dest: wfDir_inode)

lemma set_ReadDir: "set (ReadDir d) = {n. inodeOf d n \<noteq> None}"
  by (auto simp: ReadDir_def inodeOf_def map_of_eq_None_iff)

section \<open>Names\<close>

declare showDigits.simps [simp del]

lemma showDigits_digits: "list_all isDigit (showDigits n)"
proof (induction n rule: showDigits.induct)
  case (1 n)
  have "isDigit (''0123456789'' ! k)" if "k < 10" for k :: nat
    using that by (auto simp: isDigit_def nth_Cons' less_Suc_eq numeral_eq_Suc)
  with 1 show ?case by (subst showDigits.simps) (auto simp: Let_def)
qed

lemma digitValue_nth: "k < 10 \<Longrightarrow> digitValue (''0123456789'' ! k) = k"
  by (auto simp: digitValue_def less_Suc_eq numeral_eq_Suc)

lemma Atoi_snoc: "Atoi (ds @ [c]) = 10 * Atoi ds + digitValue c"
  by (simp add: Atoi_def)

lemma Atoi_showDigits: "Atoi (showDigits n) = n"
proof (induction n rule: showDigits.induct)
  case (1 n)
  show ?case
  proof (cases "n < 10")
    case True
    then have "showDigits n = [] @ [''0123456789'' ! n]" by (simp add: showDigits.simps [of n])
    then show ?thesis using True by (simp only: Atoi_snoc digitValue_nth) (simp add: Atoi_def)
  next
    case False
    then have "showDigits n = showDigits (n div 10) @ [''0123456789'' ! (n mod 10)]"
      by (subst showDigits.simps) simp
    then show ?thesis using False 1 by (simp only: Atoi_snoc digitValue_nth) simp
  qed
qed

lemma Atoi_zeros: "Atoi (replicate j CHR ''0'' @ ds) = Atoi ds"
  by (induction j) (auto simp: Atoi_def digitValue_def)

lemma length_showDigits: "n < 10 ^ k \<Longrightarrow> 0 < k \<Longrightarrow> length (showDigits n) \<le> k"
proof (induction n arbitrary: k rule: showDigits.induct)
  case (1 n)
  show ?case
  proof (cases "n < 10")
    case True
    with 1 show ?thesis by (subst showDigits.simps) simp
  next
    case False
    with "1.prems" obtain j where k: "k = Suc j" "0 < j"
      by (metis gr0_conv_Suc power_one_right not_gr_zero One_nat_def)
    with "1.prems" have "n div 10 < 10 ^ j" by (simp add: div_less_iff_less_mult mult.commute)
    with 1 k False show ?thesis by (subst showDigits.simps) simp
  qed
qed

definition ordinalMax :: nat where
  "ordinalMax = 999999"

lemma pad6_length: "n \<le> ordinalMax \<Longrightarrow> length (pad6 n) = 6"
  using length_showDigits [of n 6] by (simp add: pad6_def Let_def ordinalMax_def)

lemma pad6_digits: "list_all isDigit (pad6 n)"
proof -
  have "isDigit CHR ''0''" by (simp add: isDigit_def)
  then show ?thesis
    unfolding pad6_def Let_def list_all_append
    using showDigits_digits by (simp add: list_all_length)
qed

lemma Atoi_pad6: "Atoi (pad6 n) = n"
  by (simp add: pad6_def Let_def Atoi_zeros Atoi_showDigits)

lemma segmentOrdinal_pad6: "n \<le> ordinalMax \<Longrightarrow> segmentOrdinal (''.seg-'' @ pad6 n) = Some n"
proof -
  assume "n \<le> ordinalMax"
  then have "length (''.seg-'' @ pad6 n) = 11" by (simp add: pad6_length)
  moreover have "drop 5 (''.seg-'' @ pad6 n) = pad6 n" by simp
  ultimately show ?thesis
    unfolding segmentOrdinal_def using pad6_digits [of n] by (simp only: has_prefix_append simp_thms if_True Atoi_pad6)
qed

lemma SegmentPath_inj [simp]: "SegmentPath a m = SegmentPath a n \<longleftrightarrow> m = n"
  by (metis Atoi_pad6 SegmentPath_def same_append_eq)

lemma name_neqs [simp]:
  "SegmentPath a n \<noteq> a" "a \<noteq> SegmentPath a n" "ManifestPath a \<noteq> a" "a \<noteq> ManifestPath a"
  "SegmentPath a n \<noteq> ManifestPath a" "ManifestPath a \<noteq> SegmentPath a n"
  by (auto simp: SegmentPath_def ManifestPath_def)

lemma has_prefix_SegmentPath [simp]: "has_prefix (SegmentPath a k) (a @ ''.seg-'')"
  unfolding SegmentPath_def append_assoc [symmetric] by (rule has_prefix_append)

lemma has_prefix_lengthD: "has_prefix s p \<Longrightarrow> length p \<le> length s"
  by (auto simp: has_prefix_iff)

lemma no_seg_prefix [simp]: "\<not> has_prefix a (a @ ''.seg-'')" "\<not> has_prefix (ManifestPath a) (a @ ''.seg-'')"
  by (auto dest: has_prefix_lengthD simp: ManifestPath_def has_prefix_iff)

text \<open>A root's own names are no temporaries: a sweep never removes them.\<close>

lemma has_prefix_nth: "has_prefix s p \<Longrightarrow> i < length p \<Longrightarrow> s ! i = p ! i"
  by (auto simp: has_prefix_iff nth_append)

lemma no_dot_temp:
  assumes "length x > 1" "b ! 0 \<noteq> x ! 0" "b \<noteq> []"
  shows "\<not> has_prefix (a @ CHR ''.'' # b) (CHR ''.'' # a @ x)"
proof
  assume "has_prefix (a @ CHR ''.'' # b) (CHR ''.'' # a @ x)"
  from has_prefix_nth [OF this, of "length a + 1"] assms show False
    by (cases x; cases b) (auto simp: nth_append)
qed

lemma root_names_are_no_temps [simp]:
  "\<not> tempName a a" "\<not> tempName a (ManifestPath a)" "\<not> tempName a (SegmentPath a k)"
proof -
  have "\<not> has_prefix (a @ ''.segments'') (CHR ''.'' # a @ ''.next-'')"
    "\<not> has_prefix (a @ ''.segments'') (CHR ''.'' # a @ ''.restore-'')"
    "\<not> has_prefix (a @ ''.seg-'' @ pad6 k) (CHR ''.'' # a @ ''.next-'')"
    "\<not> has_prefix (a @ ''.seg-'' @ pad6 k) (CHR ''.'' # a @ ''.restore-'')"
    using no_dot_temp [of "''.next-''" "''segments''" a] no_dot_temp [of "''.restore-''" "''segments''" a]
      no_dot_temp [of "''.next-''" "''seg-'' @ pad6 k" a] no_dot_temp [of "''.restore-''" "''seg-'' @ pad6 k" a]
    by simp_all
  moreover have "\<not> has_prefix (a @ ''.seg-'' @ pad6 k) (a @ ''.segments-'')"
    using has_prefix_nth [of "a @ ''.seg-'' @ pad6 k" "a @ ''.segments-''" "length a + 4"] by (auto simp: nth_append)
  ultimately show "\<not> tempName a a" "\<not> tempName a (ManifestPath a)" "\<not> tempName a (SegmentPath a k)"
    by (auto simp: tempName_def ManifestPath_def SegmentPath_def dest: has_prefix_lengthD)
qed

section \<open>Siblings\<close>

definition siblingSet :: "directory \<Rightarrow> bytes \<Rightarrow> nat \<Rightarrow> bool" where
  "siblingSet d a m \<longleftrightarrow>
     (\<forall>n. has_prefix n (a @ ''.seg-'') \<longrightarrow>
          (inodeOf d n \<noteq> None \<longleftrightarrow> (\<exists>k. 1 \<le> k \<and> k \<le> m \<and> n = SegmentPath a k)))"

lemma segmentOrdinal_path:
  assumes "k \<le> ordinalMax"
  shows "segmentOrdinal (drop (length a) (SegmentPath a k)) = Some k"
proof -
  have "drop (length a) (SegmentPath a k) = ''.seg-'' @ pad6 k" by (simp add: SegmentPath_def)
  then show ?thesis by (simp only: segmentOrdinal_pad6 [OF assms])
qed

lemma ordinalsOf_paths:
  "list_all (\<lambda>k. k \<le> ordinalMax) ks \<Longrightarrow>
   ordinalsOf a (map (SegmentPath a) ks) = Inr (map (\<lambda>k. (k, SegmentPath a k)) ks)"
  by (induction ks) (simp_all add: segmentOrdinal_path)

lemma listSiblings_set:
  assumes "siblingSet d a m" "m \<le> ordinalMax" "\<not> ioListFails io"
  obtains ks where "listSiblings io d a = Inr (map (\<lambda>k. (k, SegmentPath a k)) ks)" "set ks = {1..m}"
proof -
  define ns where "ns = filter (\<lambda>n. has_prefix n (a @ ''.seg-'')) (ReadDir d)"
  have ns: "n \<in> set ns \<longleftrightarrow> (\<exists>k. 1 \<le> k \<and> k \<le> m \<and> n = SegmentPath a k)" for n
  proof -
    have "n \<in> set ns \<longleftrightarrow> has_prefix n (a @ ''.seg-'') \<and> inodeOf d n \<noteq> None"
      by (simp only: ns_def set_filter set_ReadDir mem_Collect_eq conj_commute)
    then show ?thesis using assms(1) has_prefix_SegmentPath unfolding siblingSet_def by metis
  qed
  then have "\<forall>n \<in> set ns. \<exists>k. n = SegmentPath a k" by blast
  then obtain ks where ks: "ns = map (SegmentPath a) ks" using ex_map_conv by metis
  have mem: "k \<in> set ks \<longleftrightarrow> 1 \<le> k \<and> k \<le> m" for k
  proof -
    have "k \<in> set ks \<longleftrightarrow> SegmentPath a k \<in> set ns" by (simp add: ks image_iff)
    then show ?thesis by (simp add: ns)
  qed
  then have "list_all (\<lambda>k. k \<le> ordinalMax) ks" using assms(2) by (auto simp: list_all_iff)
  then have "ordinalsOf a ns = Inr (map (\<lambda>k. (k, SegmentPath a k)) ks)"
    unfolding ks by (rule ordinalsOf_paths)
  moreover have "siblingNames io d a = Inr ns" using assms(3) by (simp add: siblingNames_def ns_def)
  moreover have "set ks = {1..m}" using mem by (simp add: set_eq_iff)
  ultimately show ?thesis using that [of ks] by (simp add: listSiblings_def)
qed

lemma unexplained_None:
  assumes "set ks = {1..m}"
  shows "unexplained d n ino (map (\<lambda>k. (k, SegmentPath a k)) ks) = None \<longleftrightarrow>
    (\<forall>k \<in> {1..m}. k \<le> n \<or> k = n + 1 \<and> sameFile d (SegmentPath a k) ino)"
proof -
  have "the (map_of (map (\<lambda>k. (k, SegmentPath a k)) ks) k) = SegmentPath a k" if "k \<in> {1..m}" for k
    using that assms by (simp add: map_of_map_restrict)
  then show ?thesis
    using assms
    by (auto simp: unexplained_def find_None_iff sortedOrdinals_def comp_def)
qed

lemma siblingSet_names:
  "siblingSet d a m \<Longrightarrow> inodeOf d (SegmentPath a k) \<noteq> None \<longleftrightarrow> 1 \<le> k \<and> k \<le> m"
  unfolding siblingSet_def by (metis SegmentPath_inj has_prefix_SegmentPath)

lemma siblingSet_cong:
  assumes "siblingSet d a m" "\<And>n. has_prefix n (a @ ''.seg-'') \<Longrightarrow> (inodeOf d' n = None) = (inodeOf d n = None)"
  shows "siblingSet d' a m"
  using assms unfolding siblingSet_def by metis

lemma siblingSet_link:
  assumes "siblingSet d a m"
  shows "siblingSet (linkName (SegmentPath a (Suc m)) ino d) a (Suc m)"
  unfolding siblingSet_def
proof (intro allI impI)
  fix n
  assume "has_prefix n (a @ ''.seg-'')"
  with assms show "inodeOf (linkName (SegmentPath a (Suc m)) ino d) n \<noteq> None
      \<longleftrightarrow> (\<exists>k\<ge>1. k \<le> Suc m \<and> n = SegmentPath a k)"
    unfolding siblingSet_def by (auto simp: le_Suc_eq)
qed

end
