(* ===== verification/Control_Rep.thy ===== *)
theory Control_Rep
  imports Control_Names
begin

text \<open>
  The abstract root of a control ledger and its representation on disk. An abstract root is the
  list of its sealed segments, the records of the active segment, the rotation state and the
  ledger's identity; \<open>setRep\<close> says when a directory represents one. The main fact is that \<open>Read\<close>
  and the writers' lock see exactly the abstract root.
\<close>

section \<open>Sequence numbers in range\<close>

definition seqMax :: nat where
  "seqMax = 2 ^ 63 - 1"

lemma uint_of_nat: "n \<le> seqMax \<Longrightarrow> uint (of_nat n :: 64 word) = int n"
  by (simp add: unsigned_of_nat take_bit_nat_eq_self seqMax_def)

lemma goInt_nat: "n \<le> seqMax \<Longrightarrow> goInt (int n) = int n"
  by (rule goInt_id) (simp_all add: seqMax_def)

lemma of_nat_pos: "0 < n \<Longrightarrow> n \<le> seqMax \<Longrightarrow> (of_nat n :: 64 word) > 0"
  using uint_of_nat [of n] by (metis of_nat_0_less_iff uint_0_eq word_gt_0 less_irrefl)

section \<open>Segments\<close>

definition startAt :: "codec \<Rightarrow> bytes list \<Rightarrow> Start" where
  "startAt K ps = \<lparr>startPrev = headFrom (kHash K) '''' ps, startBase = of_nat (length ps)\<rparr>"

definition hashShaped :: "codec \<Rightarrow> bool" where
  "hashShaped K \<longleftrightarrow> (\<forall>x. anchorHashOK (kHash K x))"

abbreviation chainAt :: "codec \<Rightarrow> bytes list \<Rightarrow> bytes list \<Rightarrow> bool" where
  "chainAt K ps rs \<equiv> validChain (kUnm K) (kHash K) (startAt K ps) True rs"

definition noSeal :: "codec \<Rightarrow> bytes list \<Rightarrow> bool" where
  "noSeal K rs \<longleftrightarrow> list_all (\<lambda>r. successfulSeal K r = None) rs"

text \<open>The seal line \<open>l\<close> closes segment \<open>k\<close>, whose earlier records are \<open>rs\<close>, after the records \<open>ps\<close>.\<close>

definition sealsAt :: "codec \<Rightarrow> nat \<Rightarrow> bytes list \<Rightarrow> bytes list \<Rightarrow> bytes \<Rightarrow> bool" where
  "sealsAt K k ps rs l \<longleftrightarrow>
     (case successfulSeal K l of
        None \<Rightarrow> False
      | Some rc \<Rightarrow> sealFault K k (int (length ps) + 1) rs rc = None \<and> crTime rc \<noteq> 0)"

definition segmentOK :: "codec \<Rightarrow> nat \<Rightarrow> bytes list \<Rightarrow> bytes list \<Rightarrow> bool" where
  "segmentOK K k ps seg \<longleftrightarrow>
     seg \<noteq> [] \<and> chainAt K ps seg \<and> noSeal K (butlast seg) \<and> sealsAt K k ps (butlast seg) (last seg)"

fun segmentsOK :: "codec \<Rightarrow> bytes list \<Rightarrow> nat \<Rightarrow> bytes list list \<Rightarrow> bool" where
  "segmentsOK K ps k [] = True"
| "segmentsOK K ps k (seg # segs) = (segmentOK K (k + 1) ps seg \<and> segmentsOK K (ps @ seg) (k + 1) segs)"

definition segView :: "codec \<Rightarrow> bytes \<Rightarrow> nat \<Rightarrow> bytes list \<Rightarrow> bytes list \<Rightarrow> Segment" where
  "segView K a k ps seg =
     (let rc = the (successfulSeal K (last seg))
      in \<lparr>sgN = k, sgPath = SegmentPath a k, sgFirstSeq = int (length ps) + 1,
          sgHeadSeq = int (length (ps @ seg)), sgHeadHash = headFrom (kHash K) '''' (ps @ seg),
          sgSHA256 = kHash K (fileBytes seg), sgBytes = int (length (fileBytes seg)), sgRecords = length seg,
          sgSealedAt = crTime rc, sgSink = (case crSeal rc of Some s \<Rightarrow> slSink s | None \<Rightarrow> None)\<rparr>)"

fun segViews :: "codec \<Rightarrow> bytes \<Rightarrow> bytes list \<Rightarrow> nat \<Rightarrow> bytes list list \<Rightarrow> Segment list" where
  "segViews K a ps k [] = []"
| "segViews K a ps k (seg # segs) = segView K a (k + 1) ps seg # segViews K a (ps @ seg) (k + 1) segs"

definition entryMatches :: "ManifestEntry \<Rightarrow> Segment \<Rightarrow> bool" where
  "entryMatches e s \<longleftrightarrow>
     meFirstSeq e = sgFirstSeq s \<and> meHeadSeq e = sgHeadSeq s \<and> meHeadHash e = sgHeadHash s
     \<and> meSHA256 e = sgSHA256 s \<and> meBytes e = sgBytes s"

lemma startAt_simps [simp]:
  "startPrev (startAt K ps) = headFrom (kHash K) '''' ps" "startBase (startAt K ps) = of_nat (length ps)"
  "startAt K [] = zeroStart"
  by (simp_all add: startAt_def zeroStart_def)

lemma hash_nonempty: "hashShaped K \<Longrightarrow> kHash K x \<noteq> ''''"
  by (metis anchorHashOK_def hashShaped_def list.size(3) lower_hex_string_length zero_neq_numeral)

lemma startAt_valid:
  assumes "hashShaped K" "length ps \<le> seqMax"
  shows "Start_validate (startAt K ps) = None"
proof (cases "ps = []")
  case False
  then have "headFrom (kHash K) '''' ps \<noteq> ''''" using hash_nonempty [OF assms(1)] by (simp add: headFrom_last)
  moreover have "(of_nat (length ps) :: 64 word) \<noteq> 0"
    using of_nat_pos [of "length ps"] False assms(2) by auto
  ultimately show ?thesis by (simp add: Start_validate_def)
qed (simp add: Start_validate_def zeroStart_def)

lemma segmentDigests_eq: "segmentDigests K rs = (kHash K (fileBytes rs), int (length (fileBytes rs)))"
proof -
  have "foldl (\<lambda>sz r. sz + int (length r) + 1) z rs = z + int (length (fileBytes rs))" for z
    by (induction rs arbitrary: z) auto
  then show ?thesis by (simp add: segmentDigests_def fileBytes_def)
qed

lemma segmentBytes_eq: "segmentBytes rs = fileBytes rs"
proof -
  have "foldl (\<lambda>out r. out @ r @ [newline]) z rs = z @ fileBytes rs" for z
    by (induction rs arbitrary: z) auto
  then show ?thesis by (simp add: segmentBytes_def)
qed

lemma segViews_length [simp]: "length (segViews K a ps k segs) = length segs"
  by (induction segs arbitrary: ps k) auto

lemma segViews_snoc:
  "segViews K a ps k (segs @ [seg]) = segViews K a ps k segs @ [segView K a (k + length segs + 1) (ps @ concat segs) seg]"
  by (induction segs arbitrary: ps k) auto

lemma segmentsOK_snoc:
  "segmentsOK K ps k (segs @ [seg]) \<longleftrightarrow>
   segmentsOK K ps k segs \<and> segmentOK K (k + length segs + 1) (ps @ concat segs) seg"
  by (induction segs arbitrary: ps k) auto

section \<open>Verifying what a root represents\<close>

definition quietIO :: setIO where
  "quietIO = \<lparr>ioStatFails = False, ioListFails = False, ioManifestFails = False, ioOpenFails = False,
              ioLock = None, ioReadFault = False, ioSegmentFails = (\<lambda>_. False), ioSegmentFault = (\<lambda>_. False)\<rparr>"

definition idle :: "nat \<Rightarrow> directory \<Rightarrow> directory" where
  "idle k d = d"

lemma quietIO_simps [simp]:
  "\<not> ioStatFails quietIO" "\<not> ioListFails quietIO" "\<not> ioManifestFails quietIO" "\<not> ioOpenFails quietIO"
  "ioLock quietIO = None" "\<not> ioReadFault quietIO" "\<not> ioSegmentFails quietIO k" "\<not> ioSegmentFault quietIO k"
  by (simp_all add: quietIO_def)

lemma idle_simp [simp]: "idle k d = d"
  by (simp add: idle_def)

lemma VerifyReader_chain:
  assumes "hashShaped K" "length ps \<le> seqMax" "chainAt K ps rs"
  shows "VerifyReader (kUnm K) (kHash K) (clean (fileBytes rs)) (startAt K ps)
    = (rs, \<lparr>headHash = headFrom (kHash K) '''' (ps @ rs), headCount = length rs\<rparr>, None)"
  using startAt_valid [OF assms(1,2)] loadChain_validI [OF assms(3)]
  by (simp add: VerifyReader_def Let_def)

lemma sealedLoop_noSeal:
  "noSeal K rs \<Longrightarrow> sealedLoop K k first path pre (rs @ ls) found = sealedLoop K k first path (pre @ rs) ls found"
  by (induction rs arbitrary: pre) (auto simp: noSeal_def)

lemma finishLoop_noSeal:
  "noSeal K rs \<Longrightarrow> finishLoop K n pre (rs @ ls) v = finishLoop K n (pre @ rs) ls v"
  by (induction rs arbitrary: pre) (auto simp: noSeal_def)

lemma segmentOKE:
  assumes "segmentOK K k ps seg"
  obtains rs l rc where "seg = rs @ [l]" "noSeal K rs" "chainAt K ps (rs @ [l])" "successfulSeal K l = Some rc"
    "sealFault K k (int (length ps) + 1) rs rc = None" "crTime rc \<noteq> 0"
proof -
  from assms obtain rs l where "seg = rs @ [l]" by (metis append_butlast_last_id segmentOK_def)
  with assms that show ?thesis
    by (auto simp: segmentOK_def sealsAt_def split: option.splits)
qed

lemma sealedLoop_segment:
  assumes "segmentOK K k ps seg"
  shows "sealedLoop K k (int (length ps) + 1) path [] seg found =
    Inr (sgSealedAt (segView K a k ps seg), sgSink (segView K a k ps seg))"
  using assms
  by (elim segmentOKE) (simp add: sealedLoop_noSeal segView_def)

lemma segmentOK_sealedAt: "segmentOK K k ps seg \<Longrightarrow> sgSealedAt (segView K a k ps seg) \<noteq> 0"
  by (elim segmentOKE) (simp add: segView_def)

lemma verifySealed_segment:
  assumes K: "hashShaped K" and len: "length (ps @ seg) \<le> seqMax"
    and f: "contents d (SegmentPath a k) = Some (fileBytes seg)"
    and ok: "segmentOK K k ps seg" and e: "entryMatches e (segView K a k ps seg)"
  shows "verifySealed K quietIO d a k (startAt K ps) e = (seg, Inr (segView K a k ps seg))"
proof -
  have ch: "chainAt K ps seg" using ok by (simp add: segmentOK_def)
  have l: "length ps \<le> seqMax" using len by simp
  have V: "VerifyReader (kUnm K) (kHash K) (clean (fileBytes seg)) (startAt K ps)
      = (seg, \<lparr>headHash = headFrom (kHash K) '''' (ps @ seg), headCount = length seg\<rparr>, None)"
    by (rule VerifyReader_chain [OF K l ch])
  have first: "goInt (uint (of_nat (length ps) :: 64 word) + 1) = int (length ps) + 1"
    using goInt_nat [of "length ps + 1"] uint_of_nat [OF l] len ok
    by (cases seg) (simp_all add: segmentOK_def add.commute)
  have hd: "goInt (uint (of_nat (length ps) :: 64 word) + int (length seg)) = int (length (ps @ seg))"
    using goInt_nat [OF len] uint_of_nat [OF l] by simp
  have dis: "disagreement (int (length ps) + 1) (int (length (ps @ seg))) (headFrom (kHash K) '''' (ps @ seg))
      (kHash K (fileBytes seg)) (int (length (fileBytes seg))) (int (length (fileBytes seg))) e = None"
    using e by (simp add: disagreement_def entryMatches_def segView_def Let_def)
  show ?thesis
    using V f segmentOK_sealedAt [OF ok, of a]
    unfolding verifySealed_def Let_def
    by (simp only: option.simps quietIO_simps if_False prod.case startAt_simps first hd Head.select_convs
          segmentDigests_eq sealedLoop_segment [OF ok, of _ _ a] sum.case dis)
       (simp add: segView_def Let_def)
qed

definition walkAfter :: "codec \<Rightarrow> bytes \<Rightarrow> bytes list \<Rightarrow> nat \<Rightarrow> bytes list list \<Rightarrow> sealedWalk \<Rightarrow> sealedWalk" where
  "walkAfter K a ps k segs w =
     w\<lparr>swV := (swV w)\<lparr>vRecords := vRecords (swV w) @ concat segs,
                       vSealed := vSealed (swV w) @ segViews K a ps k segs\<rparr>,
       swStart := startAt K (ps @ concat segs)\<rparr>"

lemma startAt_segment:
  "\<lparr>startPrev = sgHeadHash (segView K a k ps seg), startBase = word_of_int (sgHeadSeq (segView K a k ps seg))\<rparr>
   = startAt K (ps @ seg)"
  by (simp add: segView_def startAt_def Let_def)

lemma walkLoop_segments:
  assumes "hashShaped K" "length (ps @ concat segs) \<le> seqMax" "segmentsOK K ps k segs"
    and "\<And>i. i < length segs \<Longrightarrow> contents d (SegmentPath a (k + i + 1)) = Some (fileBytes (segs ! i))"
    and "list_all2 entryMatches es (segViews K a ps k segs)" "swStart w = startAt K ps"
  shows "walkLoop K quietIO d a k es w = (walkAfter K a ps k segs w, None)"
  using assms(2-6)
proof (induction segs arbitrary: ps k es w)
  case Nil
  then show ?case by (simp add: walkAfter_def)
next
  case (Cons seg segs)
  then obtain e es' where es: "es = e # es'" and e: "entryMatches e (segView K a (k + 1) ps seg)"
    and es': "list_all2 entryMatches es' (segViews K a (ps @ seg) (k + 1) segs)"
    by (cases es) auto
  have f: "contents d (SegmentPath a (k + 1)) = Some (fileBytes seg)"
    using Cons.prems(3) [of 0] by simp
  have V: "verifySealed K quietIO d a (k + 1) (swStart w) e = (seg, Inr (segView K a (k + 1) ps seg))"
    unfolding Cons.prems(5)
    by (rule verifySealed_segment [OF assms(1) _ f _ e]) (use Cons.prems in auto)
  let ?w = "w\<lparr>swV := (swV w)\<lparr>vRecords := vRecords (swV w) @ seg,
                              vSealed := vSealed (swV w) @ [segView K a (k + 1) ps seg]\<rparr>,
             swStart := startAt K (ps @ seg)\<rparr>"
  have "walkLoop K quietIO d a k es w = walkLoop K quietIO d a (k + 1) es' ?w"
    unfolding es by (simp only: walkLoop.simps V Let_def prod.case sum.case startAt_segment) simp
  also have "\<dots> = (walkAfter K a (ps @ seg) (k + 1) segs ?w, None)"
    by (rule Cons.IH) (use Cons.prems(1,2) Cons.prems(3) [of "Suc _"] es' in auto)
  also have "walkAfter K a (ps @ seg) (k + 1) segs ?w = walkAfter K a ps k (seg # segs) w"
    by (simp add: walkAfter_def)
  finally show ?case .
qed

section \<open>The representation\<close>

definition manifestRep :: "codec \<Rightarrow> bytes \<Rightarrow> directory \<Rightarrow> bytes \<Rightarrow> bytes list list \<Rightarrow> bool" where
  "manifestRep K a d logID segs \<longleftrightarrow>
     (if segs = [] then inodeOf d (ManifestPath a) = None
      else \<exists>b m. contents d (ManifestPath a) = Some b \<and> ParseManifest K b a = Inr m \<and> mfLogID m = logID
                 \<and> list_all2 entryMatches (mfSegments m) (segViews K a [] 0 segs))"

definition filesRep :: "bytes \<Rightarrow> directory \<Rightarrow> bytes list list \<Rightarrow> bool" where
  "filesRep a d segs \<longleftrightarrow>
     (\<forall>i < length segs. contents d (SegmentPath a (i + 1)) = Some (fileBytes (segs ! i)))"

definition historyRep :: "codec \<Rightarrow> bytes \<Rightarrow> directory \<Rightarrow> bytes \<Rightarrow> bytes list list \<Rightarrow> bool" where
  "historyRep K a d logID segs \<longleftrightarrow>
     wfDir d \<and> filesRep a d segs \<and> manifestRep K a d logID segs \<and> segmentsOK K [] 0 segs"

text \<open>The active file: its own inode, its records, and the link a seal in progress may have made.\<close>

definition activeRep :: "codec \<Rightarrow> bytes \<Rightarrow> directory \<Rightarrow> bytes list list \<Rightarrow> bytes list \<Rightarrow> bool \<Rightarrow> nat \<Rightarrow> bool" where
  "activeRep K a d segs act link ia \<longleftrightarrow>
     inodeOf d a = Some ia \<and> dirNode d ia = fileBytes act \<and> chainAt K (concat segs) act
     \<and> inodeOf d (ManifestPath a) \<noteq> Some ia
     \<and> (\<forall>i < length segs. inodeOf d (SegmentPath a (i + 1)) \<noteq> Some ia)
     \<and> siblingSet d a (length segs + (if link then 1 else 0))
     \<and> (link \<longrightarrow> inodeOf d (SegmentPath a (length segs + 1)) = Some ia)"

definition identityRep :: "codec \<Rightarrow> bytes \<Rightarrow> bytes list \<Rightarrow> bool" where
  "identityRep K logID rs \<longleftrightarrow> (rs \<noteq> [] \<longrightarrow> GenesisLogID (kLogIDOf K) rs = Some logID)"

definition setRep ::
  "codec \<Rightarrow> bytes \<Rightarrow> directory \<Rightarrow> bytes \<Rightarrow> bytes list list \<Rightarrow> bytes list \<Rightarrow> bool \<Rightarrow> State \<Rightarrow> nat \<Rightarrow> bool" where
  "setRep K a d logID segs act link st ia \<longleftrightarrow>
     historyRep K a d logID segs \<and> identityRep K logID (concat segs @ act)
     \<and> length (concat segs @ act) < seqMax \<and> length segs < ordinalMax
     \<and> (case st of
          StateOpen \<Rightarrow> activeRep K a d segs act link ia \<and> noSeal K act
        | StateSealedNotRotated \<Rightarrow>
            activeRep K a d segs act link ia \<and> segmentOK K (length segs + 1) (concat segs) act
        | StateRotatedNotSwapped \<Rightarrow>
            segs \<noteq> [] \<and> act = [] \<and> \<not> link \<and> inodeOf d a = Some ia
            \<and> inodeOf d (SegmentPath a (length segs)) = Some ia \<and> siblingSet d a (length segs))"

definition rootView :: "codec \<Rightarrow> bytes \<Rightarrow> bytes \<Rightarrow> bytes list list \<Rightarrow> bytes list \<Rightarrow> State \<Rightarrow> View" where
  "rootView K a logID segs act st =
     \<lparr>vRecords = concat segs @ act,
      vHead = \<lparr>lhHash = headFrom (kHash K) '''' (concat segs @ act), lhCount = int (length (concat segs @ act))\<rparr>,
      vFirstSeq = 1, vSealed = segViews K a [] 0 segs,
      vActive = \<lparr>sgN = 0, sgPath = a, sgFirstSeq = int (length (concat segs)) + 1,
                 sgHeadSeq = int (length (concat segs @ act)),
                 sgHeadHash = headFrom (kHash K) '''' (concat segs @ act), sgSHA256 = '''',
                 sgBytes = int (length (fileBytes act)), sgRecords = length act, sgSealedAt = 0, sgSink = None\<rparr>,
      vState = st, vLogID = (if segs = [] then '''' else logID)\<rparr>"

lemma rootView_active [simp]: "activeRecords (rootView K a logID segs act st) = act"
  by (simp add: activeRecords_def rootView_def)

definition walkRep :: "codec \<Rightarrow> bytes \<Rightarrow> bytes \<Rightarrow> bytes list list \<Rightarrow> sealedWalk \<Rightarrow> bool" where
  "walkRep K a logID segs w \<longleftrightarrow>
     swV w = noView\<lparr>vFirstSeq := 1, vRecords := concat segs, vSealed := segViews K a [] 0 segs,
                    vLogID := (if segs = [] then '''' else logID)\<rparr>
     \<and> swStart w = startAt K (concat segs)
     \<and> (case swM w of
          None \<Rightarrow> segs = []
        | Some m \<Rightarrow> segs \<noteq> [] \<and> mfLogID m = logID \<and> length (mfSegments m) = length segs)"

lemma walkSealed_rep:
  assumes K: "hashShaped K" and h: "historyRep K a d logID segs" and len: "length (concat segs) \<le> seqMax"
  obtains w where "walkSealed K quietIO d a = (w, None)" "walkRep K a logID segs w"
    "loadManifest K quietIO d a = Inr (swM w)"
proof (cases "segs = []")
  case True
  with h have L: "loadManifest K quietIO d a = Inr None"
    by (simp add: historyRep_def manifestRep_def loadManifest_def Let_def contents_def)
  then have "walkSealed K quietIO d a = (emptyWalk, None)" by (simp add: walkSealed_def)
  moreover have "walkRep K a logID segs emptyWalk"
    using True by (simp add: walkRep_def emptyWalk_def noView_def)
  ultimately show ?thesis using that L by (simp add: emptyWalk_def)
next
  case False
  with h obtain b m where m: "contents d (ManifestPath a) = Some b" "ParseManifest K b a = Inr m"
    "mfLogID m = logID" and es: "list_all2 entryMatches (mfSegments m) (segViews K a [] 0 segs)"
    by (auto simp: historyRep_def manifestRep_def)
  from m have L: "loadManifest K quietIO d a = Inr (Some m)" by (simp add: loadManifest_def Let_def)
  let ?w = "emptyWalk\<lparr>swM := Some m, swV := (swV emptyWalk)\<lparr>vLogID := mfLogID m\<rparr>\<rparr>"
  have "walkLoop K quietIO d a 0 (mfSegments m) ?w = (walkAfter K a [] 0 segs ?w, None)"
    by (rule walkLoop_segments [OF K _ _ _ es])
       (use h len in \<open>auto simp: historyRep_def filesRep_def emptyWalk_def\<close>)
  then have "walkSealed K quietIO d a = (walkAfter K a [] 0 segs ?w, None)" by (simp add: walkSealed_def L)
  moreover have "walkRep K a logID segs (walkAfter K a [] 0 segs ?w)"
    using False m list_all2_lengthD [OF es] by (simp add: walkRep_def walkAfter_def emptyWalk_def noView_def)
  moreover have "swM (walkAfter K a [] 0 segs ?w) = Some m" by (simp add: walkAfter_def)
  ultimately show ?thesis using that L by metis
qed

text \<open>The terminal check finds no seal in an open active, and the right one at the end of a sealed one.\<close>

lemma finishActive_open:
  "activeRecords v = act \<Longrightarrow> noSeal K act \<Longrightarrow> finishActive K v n = (v, None)"
  using finishLoop_noSeal [of K act n "[]" "[]" v] by (simp add: finishActive_def)

lemma finishActive_sealed:
  assumes "activeRecords v = act" "segmentOK K (n + 1) ps act" "sgFirstSeq (vActive v) = int (length ps) + 1"
  shows "finishActive K v n = (v\<lparr>vState := StateSealedNotRotated\<rparr>, None)"
  using assms(2)
proof (rule segmentOKE)
  fix rs l rc
  assume "act = rs @ [l]" "noSeal K rs" "successfulSeal K l = Some rc"
    "sealFault K (n + 1) (int (length ps) + 1) rs rc = None"
  with assms show ?thesis
    by (simp add: finishActive_def finishLoop_noSeal)
qed

definition verifies :: "codec \<Rightarrow> bytes list \<Rightarrow> bytes list \<Rightarrow> (Start \<Rightarrow> verified) \<Rightarrow> bool" where
  "verifies K ps act verify \<longleftrightarrow>
     verify (startAt K ps) = (act, \<lparr>headHash = headFrom (kHash K) '''' (ps @ act), headCount = length act\<rparr>, None)"

lemma readerVerify_verifies:
  "hashShaped K \<Longrightarrow> length ps \<le> seqMax \<Longrightarrow> chainAt K ps act \<Longrightarrow>
   verifies K ps act (readerVerify K quietIO (fileBytes act))"
  by (simp add: verifies_def readerVerify_def VerifyReader_chain)

lemma Resume_chain:
  assumes "hashShaped K" "length ps \<le> seqMax" "chainAt K ps act"
  shows "Resume (kUnm K) (kHash K) (fileBytes act) False Locked (startAt K ps)
    = (Some (handleFor (kHash K) (startAt K ps) Locked True act), act, None)"
  using startAt_valid [OF assms(1,2)] chainOf_valid [OF assms(3)] loadChain_validI [OF assms(3)]
  by (simp add: Resume_def Let_def)

lemma writerVerify_verifies:
  assumes "hashShaped K" "length ps \<le> seqMax" "chainAt K ps act"
  shows "verifies K ps act (writerVerify K quietIO (fileBytes act))"
  using Resume_chain [OF assms] by (simp add: verifies_def writerVerify_def headFrom_last)

lemma activeSegment_root:
  assumes "length (ps @ act) < seqMax"
  shows "activeSegment a (startAt K ps) \<lparr>headHash = h, headCount = length act\<rparr> n =
    \<lparr>sgN = 0, sgPath = a, sgFirstSeq = int (length ps) + 1, sgHeadSeq = int (length (ps @ act)),
     sgHeadHash = h, sgSHA256 = '''', sgBytes = int n, sgRecords = length act, sgSealedAt = 0, sgSink = None\<rparr>"
  using assms goInt_nat [of "length ps + 1"] goInt_nat [of "length (ps @ act)"] uint_of_nat [of "length ps"]
  by (simp add: activeSegment_def add.commute)

lemma siblings_explained:
  assumes "siblingSet d a (length segs + (if link then 1 else 0))" "length segs < ordinalMax"
    and "link \<longrightarrow> inodeOf d (SegmentPath a (length segs + 1)) = Some ia"
  obtains sibs where "listSiblings quietIO d a = Inr sibs" "unexplained d (length segs) ia sibs = None"
proof -
  let ?m = "length segs + (if link then 1 else 0)"
  obtain ks where "listSiblings quietIO d a = Inr (map (\<lambda>k. (k, SegmentPath a k)) ks)" "set ks = {1..?m}"
    by (rule listSiblings_set [OF assms(1)]) (use assms(2) in auto)
  moreover from this(2) assms(3)
  have "unexplained d (length segs) ia (map (\<lambda>k. (k, SegmentPath a k)) ks) = None"
    by (subst unexplained_None [of _ ?m]) (auto simp: sameFile_def le_Suc_eq split: if_splits)
  ultimately show ?thesis using that by blast
qed

lemma setRep_activeD:
  assumes "setRep K a d logID segs act link st ia" "st \<noteq> StateRotatedNotSwapped"
  shows "activeRep K a d segs act link ia"
  using assms by (cases st) (auto simp: setRep_def)

lemma setRep_boundsD:
  assumes "setRep K a d logID segs act link st ia"
  shows "historyRep K a d logID segs" "identityRep K logID (concat segs @ act)"
    "length (concat segs @ act) < seqMax" "length segs < ordinalMax" "length (concat segs) \<le> seqMax"
    "inodeOf d a = Some ia"
  using assms by (auto simp: setRep_def activeRep_def split: State.splits)

lemma segments_nonempty: "segmentsOK K ps k segs \<Longrightarrow> segs \<noteq> [] \<Longrightarrow> concat segs \<noteq> []"
  by (cases segs) (auto simp: segmentOK_def)

lemma identityCheck_root:
  assumes "setRep K a d logID segs act link st ia" "segs \<noteq> []" "mfLogID m = logID"
    "vRecords v = concat segs @ act"
  shows "identityCheck K v m = (v, None)"
proof -
  have "concat segs \<noteq> []"
    using segments_nonempty assms(1,2) by (auto simp: setRep_def historyRep_def)
  then show ?thesis
    using assms by (simp add: identityCheck_def setRep_def identityRep_def)
qed

lemma rootView_first:
  "sgFirstSeq (vActive (rootView K a logID segs act st)) = int (length (concat segs)) + 1"
  by (simp add: rootView_def)

lemma finishActive_root:
  assumes "setRep K a d logID segs act link st ia" "st \<noteq> StateRotatedNotSwapped"
  shows "finishActive K (rootView K a logID segs act StateOpen) (length segs)
    = (rootView K a logID segs act st, None)"
proof (cases st)
  case StateOpen
  with assms show ?thesis by (simp add: finishActive_open setRep_def)
next
  case StateSealedNotRotated
  with assms have "segmentOK K (length segs + 1) (concat segs) act" by (simp add: setRep_def)
  then have "finishActive K (rootView K a logID segs act StateOpen) (length segs)
      = ((rootView K a logID segs act StateOpen)\<lparr>vState := StateSealedNotRotated\<rparr>, None)"
    by (intro finishActive_sealed [where ps = "concat segs" and act = act]) (simp_all add: rootView_first)
  with StateSealedNotRotated show ?thesis by (simp add: rootView_def)
qed (use assms in simp)

lemma readSingle_root:
  assumes R: "setRep K a d logID [] act link st ia" and st: "st \<noteq> StateRotatedNotSwapped"
    and ver: "verifies K [] act verify" and w: "walkRep K a logID [] w"
    and sibs: "unexplained d 0 ia sibs = None"
  shows "readSingle K d a ia sibs (swV w) verify = (rootView K a logID [] act st, None)"
proof -
  have len: "length ([] @ act) < seqMax" using R by (simp add: setRep_def)
  have n: "dirNode d ia = fileBytes act" using setRep_activeD [OF R st] by (simp add: activeRep_def)
  have "(swV w)\<lparr>vRecords := act, vHead := \<lparr>lhHash = headFrom (kHash K) '''' act, lhCount = int (length act)\<rparr>,
      vActive := activeSegment a (startAt K []) \<lparr>headHash = headFrom (kHash K) '''' act, headCount = length act\<rparr>
                   (length (fileBytes act))\<rparr> = rootView K a logID [] act StateOpen"
    unfolding activeSegment_root [OF len] using w by (simp add: walkRep_def rootView_def noView_def)
  then show ?thesis
    using ver finishActive_root [OF R st] unfolding readSingle_def Let_def sibs n verifies_def
    by simp
qed

lemma readMulti_root:
  assumes R: "setRep K a d logID segs act link st ia" and st: "st \<noteq> StateRotatedNotSwapped"
    and ver: "verifies K (concat segs) act verify" and w: "walkRep K a logID segs w" "swM w = Some m"
    and sibs: "unexplained d (length segs) ia sibs = None"
  shows "readMulti K d a ia sibs (swV w) m (swStart w) verify = (rootView K a logID segs act st, None)"
proof -
  have A: "activeRep K a d segs act link ia" by (rule setRep_activeD [OF R st])
  from w have segs: "segs \<noteq> []" and m: "mfLogID m = logID" "length (mfSegments m) = length segs"
    and s: "swStart w = startAt K (concat segs)" by (auto simp: walkRep_def)
  have nC: "\<not> sameFile d (SegmentPath a (length segs)) ia"
    using A segs by (cases "length segs") (auto simp: activeRep_def sameFile_def)
  have len: "length (concat segs @ act) < seqMax" using R by (simp add: setRep_def)
  have lc: "goInt (uint (of_nat (length (concat segs)) :: 64 word)) = int (length (concat segs))"
    "goInt (uint (of_nat (length (concat segs)) :: 64 word) + int (length act)) = int (length (concat segs @ act))"
    using len uint_of_nat [of "length (concat segs)"] goInt_nat [of "length (concat segs)"]
      goInt_nat [of "length (concat segs @ act)"] by auto
  let ?h = "\<lparr>headHash = headFrom (kHash K) '''' (concat segs @ act), headCount = length act\<rparr>"
  let ?v = "(swV w)\<lparr>vHead := \<lparr>lhHash = startPrev (startAt K (concat segs)), lhCount = goInt (uint (startBase (startAt K (concat segs))))\<rparr>,
      vRecords := vRecords (swV w) @ act,
      vActive := activeSegment a (startAt K (concat segs)) ?h (length (fileBytes act))\<rparr>"
  have V: "(if length act > 0 then ?v\<lparr>vHead := \<lparr>lhHash = headFrom (kHash K) '''' (concat segs @ act),
             lhCount = goInt (uint (startBase (startAt K (concat segs))) + int (length act))\<rparr>\<rparr> else ?v)
      = rootView K a logID segs act StateOpen"
    unfolding activeSegment_root [OF len] using w lc segs
    by (cases act) (simp_all add: walkRep_def rootView_def noView_def)
  have n: "dirNode d ia = fileBytes act" using A by (simp add: activeRep_def)
  have V0: "vRecords ((swV w)\<lparr>vHead := h\<rparr>) = vRecords (swV w)" for h by simp
  have idc: "identityCheck K (rootView K a logID segs act st) m = (rootView K a logID segs act st, None)"
    by (rule identityCheck_root [OF R segs m(1)]) (simp add: rootView_def)
  show ?thesis
    unfolding readMulti_def Let_def m(2) sibs s n
    by (simp only: ver [unfolded verifies_def] prod.case option.case nC if_False Head.select_convs V0 V
          finishActive_root [OF R st] idc)
qed

lemma readMulti_rotated:
  assumes R: "setRep K a d logID segs act link StateRotatedNotSwapped ia"
    and w: "walkRep K a logID segs w" "swM w = Some m" and sibs: "unexplained d (length segs) ia sibs = None"
  shows "readMulti K d a ia sibs (swV w) m (swStart w) verify
    = (rootView K a logID segs act StateRotatedNotSwapped, None)"
proof -
  from w have segs: "segs \<noteq> []" and m: "mfLogID m = logID" "length (mfSegments m) = length segs"
    and s: "swStart w = startAt K (concat segs)" by (auto simp: walkRep_def)
  from R have act: "act = []" and C: "sameFile d (SegmentPath a (length segs)) ia"
    and len: "length (concat segs) < seqMax" by (auto simp: setRep_def sameFile_def)
  have lc: "goInt (uint (of_nat (length (concat segs)) :: 64 word)) = int (length (concat segs))"
    "goInt (uint (of_nat (length (concat segs)) :: 64 word) + 1) = int (length (concat segs)) + 1"
    using len uint_of_nat [of "length (concat segs)"] goInt_nat [of "length (concat segs)"]
      goInt_nat [of "length (concat segs) + 1"] by (auto simp: add.commute)
  let ?v = "rootView K a logID segs act StateRotatedNotSwapped"
  have "((swV w)\<lparr>vHead := \<lparr>lhHash = startPrev (swStart w), lhCount = goInt (uint (startBase (swStart w)))\<rparr>,
      vState := StateRotatedNotSwapped,
      vActive := noSegment\<lparr>sgPath := a, sgFirstSeq := goInt (uint (startBase (swStart w)) + 1),
                           sgHeadSeq := goInt (uint (startBase (swStart w))), sgHeadHash := startPrev (swStart w)\<rparr>\<rparr>)
      = ?v"
    unfolding s using w lc segs act by (simp add: walkRep_def rootView_def noView_def noSegment_def)
  moreover have "identityCheck K ?v m = (?v, None)"
    by (rule identityCheck_root [OF R segs m(1)]) (simp add: rootView_def)
  ultimately show ?thesis
    using C unfolding readMulti_def Let_def m(2) sibs by simp
qed

section \<open>Reading and locking a root\<close>

definition sees :: "codec \<Rightarrow> bytes list list \<Rightarrow> bytes list \<Rightarrow> State \<Rightarrow> (Start \<Rightarrow> verified) \<Rightarrow> bool" where
  "sees K segs act st verify \<longleftrightarrow> (st \<noteq> StateRotatedNotSwapped \<longrightarrow> verifies K (concat segs) act verify)"

lemma readActive_root:
  assumes R: "setRep K a d logID segs act link st ia" and w: "walkRep K a logID segs w"
    and ver: "sees K segs act st verify"
  shows "readActive K quietIO d a ia w verify = (rootView K a logID segs act st, None)"
proof -
  have sib: "siblingSet d a (length segs + (if link then 1 else 0))"
    "link \<longrightarrow> inodeOf d (SegmentPath a (length segs + 1)) = Some ia" "length segs < ordinalMax"
    using R by (cases st; auto simp: setRep_def activeRep_def)+
  obtain sibs where L: "listSiblings quietIO d a = Inr sibs" and U: "unexplained d (length segs) ia sibs = None"
    by (rule siblings_explained [OF sib(1,3,2)])
  show ?thesis
  proof (cases "swM w")
    case None
    with w have segs: "segs = []" by (simp add: walkRep_def)
    with R have st: "st \<noteq> StateRotatedNotSwapped" by (auto simp: setRep_def)
    have "readSingle K d a ia sibs (swV w) verify = (rootView K a logID [] act st, None)"
      by (rule readSingle_root [where link = link])
         (use R w U ver st segs in \<open>auto simp: sees_def\<close>)
    with L None segs show ?thesis by (simp add: readActive_def)
  next
    case (Some m)
    have "readMulti K d a ia sibs (swV w) m (swStart w) verify = (rootView K a logID segs act st, None)"
    proof (cases "st = StateRotatedNotSwapped")
      case True
      with R have "setRep K a d logID segs act link StateRotatedNotSwapped ia" by simp
      from readMulti_rotated [OF this w Some U] True show ?thesis by simp
    next
      case False
      with ver show ?thesis by (intro readMulti_root [OF R False _ w Some U]) (simp add: sees_def)
    qed
    with L Some show ?thesis by (simp add: readActive_def)
  qed
qed

lemma root_chainD:
  assumes "setRep K a d logID segs act link st ia" "st \<noteq> StateRotatedNotSwapped"
  shows "chainAt K (concat segs) act" "dirNode d ia = fileBytes act"
  using setRep_activeD [OF assms] by (auto simp: activeRep_def)

lemma readerVerify_sees:
  assumes "hashShaped K" "setRep K a d logID segs act link st ia"
  shows "sees K segs act st (readerVerify K quietIO (dirNode d ia))"
  using readerVerify_verifies [OF assms(1)] root_chainD [OF assms(2)] setRep_boundsD(5) [OF assms(2)]
  by (simp add: sees_def)

lemma writerVerify_sees:
  assumes "hashShaped K" "setRep K a d logID segs act link st ia"
  shows "sees K segs act st (writerVerify K quietIO (dirNode d ia))"
  using writerVerify_verifies [OF assms(1)] root_chainD [OF assms(2)] setRep_boundsD(5) [OF assms(2)]
  by (simp add: sees_def)

lemma Read_root:
  assumes "hashShaped K" "setRep K a d logID segs act link st ia"
  shows "Read K quietIO mode idle d a = (d, rootView K a logID segs act st, None)"
proof -
  note b = setRep_boundsD [OF assms(2)]
  obtain w where W: "walkSealed K quietIO d a = (w, None)" "walkRep K a logID segs w"
    by (rule walkSealed_rep [OF assms(1) b(1,5)])
  have "openByName quietIO mode idle 2 d a = (d, Inr ia)"
    using b(6) by (simp add: numeral_2_eq_2 sameFile_def)
  then show ?thesis
    using W readActive_root [OF assms(2) W(2) readerVerify_sees [OF assms]] by (simp add: Read_def)
qed

lemma manifestEqual_refl [simp]: "manifestEqual m m"
  by (simp add: manifestEqual_def split: option.split)

lemma lockActive_root:
  assumes "hashShaped K" "setRep K a d logID segs act link st ia"
    and "sees K segs act st (verify (dirNode d ia))"
  shows "lockActive K quietIO idle idle create verify d a
    = (d, rootView K a logID segs act st, Inr (ia, startAt K (concat segs)))"
proof -
  note b = setRep_boundsD [OF assms(2)]
  obtain w where W: "walkSealed K quietIO d a = (w, None)" "walkRep K a logID segs w"
    "loadManifest K quietIO d a = Inr (swM w)"
    by (rule walkSealed_rep [OF assms(1) b(1,5)])
  have "swStart w = startAt K (concat segs)" using W(2) by (simp add: walkRep_def)
  then show ?thesis
    using W b(6) readActive_root [OF assms(2) W(2) assms(3)]
    by (simp add: lockActive_def numeral_2_eq_2 Let_def sameFile_def)
qed

lemma openActive_root:
  assumes "hashShaped K" "setRep K a d logID segs act link st ia"
  shows "openActive K quietIO idle idle d a
    = (d, rootView K a logID segs act st,
       if st = StateOpen
       then Inr \<lparr>oaChain = handleFor (kHash K) (startAt K (concat segs)) Locked True act, oaInode = ia\<rparr>
       else Inl ErrSealed)"
proof (cases "st = StateOpen")
  case True
  then have "Resume (kUnm K) (kHash K) (dirNode d ia) False Locked (startAt K (concat segs))
      = (Some (handleFor (kHash K) (startAt K (concat segs)) Locked True act), act, None)"
    using Resume_chain [OF assms(1)] root_chainD [OF assms(2)] setRep_boundsD(5) [OF assms(2)] by simp
  with True show ?thesis
    using lockActive_root [OF assms, where verify = "writerVerify K quietIO", OF writerVerify_sees [OF assms]]
    by (simp add: openActive_def rootView_def)
next
  case False
  then show ?thesis
    using lockActive_root [OF assms, where verify = "writerVerify K quietIO", OF writerVerify_sees [OF assms]]
    by (simp add: openActive_def rootView_def)
qed

end
