(* ===== verification/Control_Append.thy ===== *)
theory Control_Append
  imports Control_Rep
begin

text \<open>
  What an append does to the root: an event the permits admit becomes the next record of the
  logical chain, and nothing else on disk changes. \<open>goodCodec\<close> states what the development relies
  on of the JSON codec and the hash, field by field and only for strings that are plain ASCII on
  the wire: a digest is 64 hex characters, a NUL never parses, a marshalled record is one line
  that reads back with its chain fields, and a marshalled manifest reads back with its figures.
\<close>

section \<open>The codec\<close>

definition wireSafe :: "controlRecord \<Rightarrow> bool" where
  "wireSafe r \<longleftrightarrow>
     (crPrev r = '''' \<or> anchorHashOK (crPrev r)) \<and> (crLogID r = '''' \<or> IsLogID (crLogID r))
     \<and> 1 \<le> crSeq r \<and> crSeq r \<le> int seqMax
     \<and> (case crSeal r of None \<Rightarrow> True | Some s \<Rightarrow> anchorHashOK (slHeadHash s) \<and> anchorHashOK (slContentSHA256 s))"

definition sealCore :: "Seal \<Rightarrow> int \<times> int \<times> int \<times> bytes \<times> bytes \<times> int option" where
  "sealCore s = (slSegment s, slFirstSeq s, slHeadSeq s, slHeadHash s, slContentSHA256 s,
                 map_option ssRetainUntil (slSink s))"

definition sameCore :: "controlRecord \<Rightarrow> controlRecord \<Rightarrow> bool" where
  "sameCore r r' \<longleftrightarrow>
     (crAction r' = ''seal'' \<longleftrightarrow> crAction r = ''seal'') \<and> (crOutcome r' = ''success'' \<longleftrightarrow> crOutcome r = ''success'')
     \<and> crSeq r' = crSeq r \<and> crPrev r' = crPrev r \<and> crTime r' = crTime r
     \<and> map_option sealCore (crSeal r') = map_option sealCore (crSeal r)"

definition marshalLaw :: "codec \<Rightarrow> bool" where
  "marshalLaw K \<longleftrightarrow>
     (\<forall>r l. wireSafe r \<longrightarrow> kMarshal K r = Some l \<longrightarrow>
        lineSafe l \<and> kLogIDOf K l = Some (crLogID r)
        \<and> kUnm K l = Some \<lparr>lfPrev = Some (crPrev r), lfSeq = Some (word_of_int (crSeq r))\<rparr>
        \<and> (\<exists>r'. kDec K l = Some r' \<and> sameCore r r'))"

definition entryPlain :: "ManifestEntry \<Rightarrow> bool" where
  "entryPlain e \<longleftrightarrow> anchorHashOK (meHeadHash e) \<and> anchorHashOK (meSHA256 e)"

definition sameFigures :: "ManifestEntry \<Rightarrow> ManifestEntry \<Rightarrow> bool" where
  "sameFigures e e' \<longleftrightarrow>
     meN e = meN e' \<and> meFirstSeq e = meFirstSeq e' \<and> meHeadSeq e = meHeadSeq e' \<and> meHeadHash e = meHeadHash e'
     \<and> meSHA256 e = meSHA256 e' \<and> meBytes e = meBytes e'"

definition manifestLaw :: "codec \<Rightarrow> bool" where
  "manifestLaw K \<longleftrightarrow>
     (\<forall>m b. IsLogID (mfLogID m) \<longrightarrow> list_all entryPlain (mfSegments m) \<longrightarrow> kManifest K m = Some b \<longrightarrow>
        (\<exists>m'. kParse K b = Some (m', False) \<and> mfLogID m' = mfLogID m
              \<and> list_all2 sameFigures (mfSegments m') (mfSegments m)))"

definition goodCodec :: "codec \<Rightarrow> bool" where
  "goodCodec K \<longleftrightarrow>
     hashShaped K \<and> (\<forall>l. nul \<in> set l \<longrightarrow> kUnm K l = None) \<and> marshalLaw K \<and> manifestLaw K"

lemma goodCodec_hash: "goodCodec K \<Longrightarrow> hashShaped K"
  by (simp add: goodCodec_def)

lemma marshalD:
  assumes "goodCodec K" "wireSafe r" "kMarshal K r = Some l"
  obtains r' where "lineSafe l" "kLogIDOf K l = Some (crLogID r)" "kDec K l = Some r'" "sameCore r r'"
    "kUnm K l = Some \<lparr>lfPrev = Some (crPrev r), lfSeq = Some (word_of_int (crSeq r))\<rparr>"
  using assms unfolding goodCodec_def marshalLaw_def by blast

section \<open>The next record\<close>

definition goodClock :: "clock \<Rightarrow> bool" where
  "goodClock ck \<longleftrightarrow>
     ckNow ck \<noteq> 0 \<and> (case ckRandom ck of None \<Rightarrow> True | Some b \<Rightarrow> length b = 16)"

lemma newLogID_shape:
  assumes "goodClock ck" "newLogID (ckRandom ck) = Some i"
  shows "IsLogID i"
  using assms hexBytes_hex by (auto simp: goodClock_def newLogID_def IsLogID_def split: option.splits)
     (metis mult_2 numeral_Bit0)

lemma zeroStart_simps [simp]: "startPrev zeroStart = ''''" "startBase zeroStart = 0"
  by (simp_all add: zeroStart_def)

abbreviation handleAt :: "codec \<Rightarrow> bytes list \<Rightarrow> bytes list \<Rightarrow> Chain" where
  "handleAt K ps act \<equiv> handleFor (kHash K) (startAt K ps) Locked True act"

lemma handleAt_position:
  assumes "length (ps @ act) < seqMax"
  shows "goInt (uint (cBase (handleAt K ps act)) + int (cCount (handleAt K ps act))) = int (length (ps @ act))"
    "goInt (uint (cBase (handleAt K ps act)) + int (cCount (handleAt K ps act)) + 1) = int (length (ps @ act)) + 1"
    "goInt (uint (cBase (handleAt K ps act)) + 1) = int (length ps) + 1"
    "cPrev (handleAt K ps act) = headFrom (kHash K) '''' (ps @ act)"
    "cFile (handleAt K ps act) = fileBytes act" "cCount (handleAt K ps act) = length act"
  using assms uint_of_nat [of "length ps"] goInt_nat [of "length (ps @ act)"]
    goInt_nat [of "length (ps @ act) + 1"] goInt_nat [of "length ps + 1"]
  by (simp_all add: handleFor_def add.commute add.left_commute)

lemma handleAt_genesis:
  "length (ps @ act) < seqMax \<Longrightarrow> cBase (handleAt K ps act) = 0 \<and> cCount (handleAt K ps act) = 0 \<longleftrightarrow> ps @ act = []"
  using of_nat_pos [of "length ps"] by (cases ps) (auto simp: handleFor_def)

text \<open>
  The handle after an accepted line, by how the write ends: the line is in and counted, or the write fails
  and the first bytes of the line or all of it are in the file while the handle does not count it.
\<close>

definition appended :: "codec \<Rightarrow> write_outcome \<Rightarrow> bytes list \<Rightarrow> bytes list \<Rightarrow> bytes \<Rightarrow> Chain \<times> ledger_error option" where
  "appended K io ps act l =
     (case io of
        WriteOk \<Rightarrow> (handleAt K ps (act @ [l]), None)
      | WriteFail k \<Rightarrow> ((handleAt K ps act)\<lparr>cFile := fileBytes act @ take k (l @ [newline])\<rparr>, Some IOError)
      | SyncFail \<Rightarrow> ((handleAt K ps act)\<lparr>cFile := fileBytes act @ l @ [newline]\<rparr>, Some IOError))"

lemma Chain_Append_next:
  assumes "length (ps @ act) < seqMax"
    and u: "kUnm K l = Some \<lparr>lfPrev = Some (headFrom (kHash K) '''' (ps @ act)),
                             lfSeq = Some (word_of_int (int (length (ps @ act)) + 1))\<rparr>"
  shows "Chain_Append (kUnm K) (kHash K) io (handleAt K ps act) l = appended K io ps act l"
proof -
  have "(of_nat (length ps) :: 64 word) > 0" if "ps \<noteq> []" using that of_nat_pos [of "length ps"] assms(1) by simp
  then show ?thesis
    using u
    by (cases "ps = []"; cases io)
       (auto simp: appended_def Chain_Append_def parseLineFields_def handleFor_def Let_def add_ac)
qed

lemma appended_failed:
  assumes "io \<noteq> WriteOk" "newline \<notin> set l"
  obtains b where "b = l @ [newline] \<or> newline \<notin> set b"
    "appended K io ps act l = ((handleAt K ps act)\<lparr>cFile := fileBytes act @ b\<rparr>, Some IOError)"
proof (cases io)
  case (WriteFail k)
  have "take k (l @ [newline]) = l @ [newline] \<or> newline \<notin> set (take k (l @ [newline]))"
    using assms(2) by (cases "k \<le> length l") (auto dest: in_set_takeD)
  then show ?thesis by (rule that) (simp add: appended_def WriteFail)
qed (use assms that [of "l @ [newline]"] in \<open>simp_all add: appended_def\<close>)

lemma chainAt_snoc:
  assumes "chainAt K ps act" "lineSafe l"
    and u: "kUnm K l = Some \<lparr>lfPrev = Some (headFrom (kHash K) '''' (ps @ act)),
                             lfSeq = Some (word_of_int (int (length (ps @ act)) + 1))\<rparr>"
  shows "chainAt K ps (act @ [l])"
  by (rule validChain_snoc [OF assms(1,2)]) (use u in \<open>auto simp: lineOk_def add_ac\<close>)

text \<open>
  What the line of an accepted event is: the marshalled record of the event at the position after
  \<open>rs\<close>, which decodes to a record with the event's core.
\<close>

definition decodesTo :: "codec \<Rightarrow> clock \<Rightarrow> bytes list \<Rightarrow> ControlEvent \<Rightarrow> bytes \<Rightarrow> bool" where
  "decodesTo K ck rs e l \<longleftrightarrow>
     (\<exists>i. kMarshal K (recordOf ck (handleAt K [] rs) e i) = Some l)
     \<and> (\<exists>r. kDec K l = Some r \<and> (crAction r = ''seal'' \<longleftrightarrow> ceAction e = ''seal'')
          \<and> (crOutcome r = ''success'' \<longleftrightarrow> ceOutcome e = ''success'') \<and> crSeq r = int (length rs) + 1
          \<and> crPrev r = headFrom (kHash K) '''' rs \<and> crTime r = ckNow ck
          \<and> map_option sealCore (crSeal r) = map_option sealCore (ceSeal e))"

definition nextLine :: "codec \<Rightarrow> clock \<Rightarrow> bytes list \<Rightarrow> bytes list \<Rightarrow> ControlEvent \<Rightarrow> bytes \<Rightarrow> bool" where
  "nextLine K ck ps act e l \<longleftrightarrow>
     decodesTo K ck (ps @ act) e l \<and> chainAt K ps (act @ [l])
     \<and> (ps @ act = [] \<longrightarrow> (\<exists>i. IsLogID i \<and> kLogIDOf K l = Some i))"

definition sealHexed :: "ControlEvent \<Rightarrow> bool" where
  "sealHexed e \<longleftrightarrow>
     (case ceSeal e of None \<Rightarrow> True | Some s \<Rightarrow> anchorHashOK (slHeadHash s) \<and> anchorHashOK (slContentSHA256 s))"

lemma headFrom_shape: "hashShaped K \<Longrightarrow> headFrom (kHash K) '''' rs = '''' \<or> anchorHashOK (headFrom (kHash K) '''' rs)"
  by (cases rs rule: rev_cases) (simp_all add: hashShaped_def)

lemma recordOf_simps [simp]:
  "crLogID (recordOf ck c e i) = i" "crTime (recordOf ck c e i) = ckNow ck" "crSeal (recordOf ck c e i) = ceSeal e"
  "crAction (recordOf ck c e i) = ceAction e" "crOutcome (recordOf ck c e i) = ceOutcome e"
  by (simp_all add: recordOf_def)

lemma recordOf_core:
  assumes "length (ps @ act) < seqMax"
  shows "crSeq (recordOf ck (handleAt K ps act) e i) = int (length (ps @ act)) + 1"
    "crPrev (recordOf ck (handleAt K ps act) e i) = headFrom (kHash K) '''' (ps @ act)"
  using handleAt_position [OF assms, of K] by (simp_all add: recordOf_def)

lemma recordOf_position:
  assumes "length (ps @ act) < seqMax"
  shows "recordOf ck (handleAt K [] (ps @ act)) e i = recordOf ck (handleAt K ps act) e i"
  using handleAt_position [OF assms, of K] handleAt_position [of "[]" "ps @ act" K] assms
  by (simp add: recordOf_def)

lemma appendOn_line:
  assumes K: "goodCodec K" and ck: "goodClock ck" and len: "length (ps @ act) < seqMax" and ch: "chainAt K ps act"
    and e: "sealHexed e" and i: "i = '''' \<or> IsLogID i" and g: "ps @ act = [] \<longrightarrow> IsLogID i"
    and m: "kMarshal K (recordOf ck (handleAt K ps act) e i) = Some l"
  shows "Chain_Append (kUnm K) (kHash K) io (handleAt K ps act) l = appended K io ps act l"
    and "nextLine K ck ps act e l"
proof -
  let ?r = "recordOf ck (handleAt K ps act) e i"
  note core = recordOf_core [OF len, of ck K e i]
  have "wireSafe ?r"
    using headFrom_shape [OF goodCodec_hash [OF K], of "ps @ act"] e i len
    unfolding wireSafe_def core sealHexed_def recordOf_simps by auto
  then obtain r' where l: "lineSafe l" "kLogIDOf K l = Some (crLogID ?r)" "kDec K l = Some r'" "sameCore ?r r'"
    "kUnm K l = Some \<lparr>lfPrev = Some (crPrev ?r), lfSeq = Some (word_of_int (crSeq ?r))\<rparr>"
    by (rule marshalD [OF K _ m])
  note u = l(5) [unfolded core]
  show "Chain_Append (kUnm K) (kHash K) io (handleAt K ps act) l = appended K io ps act l"
    by (rule Chain_Append_next [OF len u])
  have "decodesTo K ck (ps @ act) e l"
    using l(3,4) m recordOf_position [OF len] by (auto simp: decodesTo_def sameCore_def core)
  then show "nextLine K ck ps act e l"
    using chainAt_snoc [OF ch l(1) u] l(2) g by (auto simp: nextLine_def)
qed

lemma appendOn_cases:
  assumes K: "goodCodec K" and ck: "goodClock ck" and len: "length (ps @ act) < seqMax" and ch: "chainAt K ps act"
    and e: "sealHexed e"
  obtains (refused) err where "appendOn K ck (handleAt K ps act) v e = (handleAt K ps act, Inl err)"
  | (recorded) l where "nextLine K ck ps act e l" "checkSealPlacement K (handleAt K ps act) v e = None"
      "appendOn K ck (handleAt K ps act) v e = (handleAt K ps (act @ [l]),
         Inr (\<lparr>lhHash = headFrom (kHash K) '''' (ps @ act @ [l]), lhCount = int (length (ps @ act @ [l]))\<rparr>, l))"
  | (failed) l b where "nextLine K ck ps act e l" "checkSealPlacement K (handleAt K ps act) v e = None"
      "ckWrite ck \<noteq> WriteOk" "b = l @ [newline] \<or> newline \<notin> set b"
      "appendOn K ck (handleAt K ps act) v e = ((handleAt K ps act)\<lparr>cFile := fileBytes act @ b\<rparr>, Inl (LedgerFault IOError))"
proof -
  let ?c = "handleAt K ps act"
  let ?ids = "if cBase ?c = 0 \<and> cCount ?c = 0 then newLogID (ckRandom ck) else Some ''''"
  consider (cov) m where "checkAnchorCoverage (ceAnchor e) (goInt (uint (cBase ?c) + int (cCount ?c))) = Some m"
    | (place) err where "checkAnchorCoverage (ceAnchor e) (goInt (uint (cBase ?c) + int (cCount ?c))) = None"
        "checkSealPlacement K ?c v e = Some err"
    | (io) "checkAnchorCoverage (ceAnchor e) (goInt (uint (cBase ?c) + int (cCount ?c))) = None"
        "checkSealPlacement K ?c v e = None" "?ids = None \<or> (\<exists>i. ?ids = Some i \<and> kMarshal K (recordOf ck ?c e i) = None)"
    | (ok) i l where "checkAnchorCoverage (ceAnchor e) (goInt (uint (cBase ?c) + int (cCount ?c))) = None"
        "checkSealPlacement K ?c v e = None" "?ids = Some i" "kMarshal K (recordOf ck ?c e i) = Some l"
    by (metis option.exhaust)
  then show ?thesis
  proof cases
    case cov
    then show ?thesis using refused by (simp add: appendOn_def Let_def)
  next
    case place
    then show ?thesis using refused by (simp add: appendOn_def Let_def)
  next
    case io
    then show ?thesis using refused by (auto simp: appendOn_def Let_def)
  next
    case ok
    have i: "i = '''' \<or> IsLogID i" "ps @ act = [] \<longrightarrow> IsLogID i"
      using ok(3) newLogID_shape [OF ck] handleAt_genesis [OF len, of K] by (auto split: if_splits)
    note app = appendOn_line [OF K ck len ch e i ok(4)]
    show ?thesis
    proof (cases "ckWrite ck = WriteOk")
      case False
      have nl: "newline \<notin> set l" using app(2) by (simp add: nextLine_def validChain_def)
      obtain b where b: "b = l @ [newline] \<or> newline \<notin> set b"
        "appended K (ckWrite ck) ps act l = (?c\<lparr>cFile := fileBytes act @ b\<rparr>, Some IOError)"
        by (rule appended_failed [OF False nl])
      then show ?thesis
        using failed [OF app(2) ok(2) False b(1)] ok(1-4) app(1) [of "ckWrite ck"] by (simp add: appendOn_def Let_def)
    next
      case True
    have "length (ps @ act @ [l]) \<le> seqMax" using len by simp
    then have "goInt (uint (cBase (handleAt K ps (act @ [l]))) + int (cCount (handleAt K ps (act @ [l]))))
        = int (length (ps @ act @ [l]))"
      using uint_of_nat [of "length ps"] goInt_nat [of "length (ps @ act @ [l])"]
      by (simp add: handleFor_def add_ac)
    moreover have "cPrev (handleAt K ps (act @ [l])) = headFrom (kHash K) '''' (ps @ act @ [l])"
      by (simp add: handleFor_def)
    ultimately show ?thesis
      using recorded [OF app(2) ok(2)] ok app(1) [of WriteOk] True by (simp add: appendOn_def Let_def appended_def)
    qed
  qed
qed

section \<open>Appending to a root\<close>

definition sealing :: "ControlEvent \<Rightarrow> bool" where
  "sealing e \<longleftrightarrow> ceAction e = ''seal'' \<and> ceOutcome e = ''success''"

text \<open>The one figure of a seal no writer checks: its retention date lies after the record's own time.\<close>

definition retains :: "clock \<Rightarrow> ControlEvent \<Rightarrow> bool" where
  "retains ck e \<longleftrightarrow>
     (case ceSeal e of
        None \<Rightarrow> True
      | Some s \<Rightarrow> (case slSink s of None \<Rightarrow> True | Some b \<Rightarrow> ssRetainUntil b > ckNow ck))"

lemma decodesTo_plain: "decodesTo K ck rs e l \<Longrightarrow> \<not> sealing e \<Longrightarrow> successfulSeal K l = None"
  by (auto simp: decodesTo_def successfulSeal_def sealing_def)

lemma decodesTo_seal:
  assumes d: "decodesTo K ck (concat segs @ act) e l" and e: "sealing e" "ceSeal e \<noteq> None" "retains ck e"
    and ck: "goodClock ck" and len: "length (concat segs @ act) < seqMax"
    and pl: "checkSealPlacement K (handleAt K (concat segs) act) (rootView K a logID segs act StateOpen) e = None"
  shows "sealsAt K (length segs + 1) (concat segs) act l"
proof -
  from e(2) obtain s where s: "ceSeal e = Some s" by auto
  from d e(1) obtain r where r: "successfulSeal K l = Some r" "crSeq r = int (length (concat segs @ act)) + 1"
    "crPrev r = headFrom (kHash K) '''' (concat segs @ act)" "crTime r = ckNow ck"
    "map_option sealCore (crSeal r) = Some (sealCore s)"
    by (auto simp: decodesTo_def successfulSeal_def sealing_def s)
  then obtain s' where s': "crSeal r = Some s'" "sealCore s' = sealCore s" by auto
  have "slSegment s = int (length segs + 1)" "slFirstSeq s = int (length (concat segs)) + 1"
    "slHeadSeq s = int (length (concat segs @ act))" "slHeadHash s = headFrom (kHash K) '''' (concat segs @ act)"
    "slContentSHA256 s = sealContentDigest K act"
    using pl e(1) s handleAt_position [OF len, of K]
    by (auto simp: checkSealPlacement_def sealing_def rootView_def[of K a logID segs act] activeRecords_def
             split: if_splits sum.splits)
  moreover have "goInt (crSeq r - 1) = int (length (concat segs @ act))"
    using goInt_nat [of "length (concat segs @ act)"] len r(2) by simp
  ultimately have "sealFault K (length segs + 1) (int (length (concat segs)) + 1) act r = None"
    using s' r(3,4) e(3) s
    by (auto simp: sealFault_def sealChainFieldsAgree_def sealCore_def retains_def Let_def split: option.splits)
  with r ck show ?thesis by (simp add: sealsAt_def goodClock_def)
qed

lemma identityRep_snoc:
  assumes "identityRep K logID rs" "rs = [] \<longrightarrow> (\<exists>i. IsLogID i \<and> kLogIDOf K l = Some i)"
  obtains logID' where "identityRep K logID' (rs @ [l])" "rs \<noteq> [] \<longrightarrow> logID' = logID"
proof (cases rs)
  case Nil
  with assms(2) obtain i where "IsLogID i" "kLogIDOf K l = Some i" by auto
  with Nil show ?thesis using that [of i] by (simp add: identityRep_def GenesisLogID_def)
next
  case (Cons x xs)
  with assms(1) show ?thesis using that [of logID] by (simp add: identityRep_def GenesisLogID_def)
qed

lemma contents_writeNode:
  "inodeOf d n \<noteq> Some i \<Longrightarrow> contents (writeNode i b d) n = contents d n"
  by (cases "inodeOf d n") (auto simp: contents_def)

lemma historyRep_write:
  assumes "historyRep K a d logID segs" "activeRep K a d segs act link ia"
  shows "historyRep K a (writeNode ia b d) logID segs"
proof -
  have "contents (writeNode ia b d) (ManifestPath a) = contents d (ManifestPath a)"
    "\<And>i. i < length segs \<Longrightarrow> contents (writeNode ia b d) (SegmentPath a (i + 1)) = contents d (SegmentPath a (i + 1))"
    using assms(2) by (auto intro!: contents_writeNode simp: activeRep_def)
  with assms(1) show ?thesis
    by (auto simp: historyRep_def filesRep_def manifestRep_def)
qed

lemma siblingSet_write [simp]: "siblingSet (writeNode i b d) a m = siblingSet d a m"
  by (simp add: siblingSet_def)

lemma activeRep_write:
  assumes "activeRep K a d segs act link ia" "chainAt K (concat segs) act'"
  shows "activeRep K a (writeNode ia (fileBytes act') d) segs act' link ia"
  using assms by (simp add: activeRep_def)

lemma historyRep_logID:
  "historyRep K a d logID segs \<Longrightarrow> (segs \<noteq> [] \<longrightarrow> logID' = logID) \<Longrightarrow> historyRep K a d logID' segs"
  by (auto simp: historyRep_def manifestRep_def)

lemma setRep_append:
  assumes R: "setRep K a d logID segs act link StateOpen ia" and n: "nextLine K ck (concat segs) act e l"
    and len: "length (concat segs @ act) + 1 < seqMax"
    and s: "sealing e \<longrightarrow> sealsAt K (length segs + 1) (concat segs) act l"
  obtains logID' where "concat segs @ act \<noteq> [] \<longrightarrow> logID' = logID"
    "setRep K a (writeNode ia (fileBytes (act @ [l])) d) logID' segs (act @ [l]) link
       (if sealing e then StateSealedNotRotated else StateOpen) ia"
proof -
  have A: "activeRep K a d segs act link ia" and ns: "noSeal K act" and h: "historyRep K a d logID segs"
    and idr: "identityRep K logID (concat segs @ act)" using R by (simp_all add: setRep_def)
  have n': "chainAt K (concat segs) (act @ [l])" "decodesTo K ck (concat segs @ act) e l"
    "concat segs @ act = [] \<longrightarrow> (\<exists>i. IsLogID i \<and> kLogIDOf K l = Some i)" using n by (simp_all add: nextLine_def)
  obtain logID' where i: "identityRep K logID' ((concat segs @ act) @ [l])" "concat segs @ act \<noteq> [] \<longrightarrow> logID' = logID"
    by (rule identityRep_snoc [OF idr n'(3)])
  have "segs \<noteq> [] \<longrightarrow> logID' = logID"
    using i(2) segments_nonempty h by (auto simp: historyRep_def)
  with h have h': "historyRep K a (writeNode ia (fileBytes (act @ [l])) d) logID' segs"
    by (intro historyRep_write [OF historyRep_logID A])
  have A': "activeRep K a (writeNode ia (fileBytes (act @ [l])) d) segs (act @ [l]) link ia"
    by (rule activeRep_write [OF A n'(1)])
  have "segmentOK K (length segs + 1) (concat segs) (act @ [l])" if "sealing e"
    using that s ns n'(1) by (simp add: segmentOK_def)
  moreover have "noSeal K (act @ [l])" if "\<not> sealing e"
    using that ns decodesTo_plain [OF n'(2)] by (simp add: noSeal_def)
  ultimately show ?thesis
    using that [OF i(2)] h' A' i(1) len R by (auto simp: setRep_def)
qed

lemma appendPermit_seal:
  assumes "appendPermit url e = None"
  shows "sealHexed e" "sealing e \<longrightarrow> ceSeal e \<noteq> None"
proof -
  from assms have "checkSealShape url e = None" by (simp add: appendPermit_def split: option.splits)
  then show "sealHexed e" "sealing e \<longrightarrow> ceSeal e \<noteq> None"
    by (auto simp: checkSealShape_def sealHexed_def sealing_def split: if_splits option.splits)
qed

definition logicalHead :: "codec \<Rightarrow> bytes list \<Rightarrow> LogicalHead" where
  "logicalHead K rs = \<lparr>lhHash = headFrom (kHash K) '''' rs, lhCount = int (length rs)\<rparr>"

lemma writeNode_same: "writeNode i (dirNode d i) d = d"
  by (simp add: writeNode_def)

lemma Append_cases:
  assumes K: "goodCodec K" and ck: "goodClock ck" and R: "setRep K a d logID segs act link st ia"
    and e: "retains ck e" and len: "length (concat segs @ act) + 1 < seqMax"
  obtains (unchanged) err where "Append K quietIO idle idle ck d a e = (d, Inl err)"
  | (torn) err tail where "st = StateOpen" "ckWrite ck \<noteq> WriteOk" "tail \<noteq> []" "newline \<notin> set tail"
      "Append K quietIO idle idle ck d a e = (writeNode ia (fileBytes act @ tail) d, Inl err)"
  | (recorded) l logID' res where "st = StateOpen" "nextLine K ck (concat segs) act e l"
      "Append K quietIO idle idle ck d a e = (writeNode ia (fileBytes (act @ [l])) d, res)"
      "res = Inr (logicalHead K (concat segs @ act @ [l])) \<or> ckWrite ck \<noteq> WriteOk \<and> (\<exists>err. res = Inl err)"
      "setRep K a (writeNode ia (fileBytes (act @ [l])) d) logID' segs (act @ [l]) link
         (if sealing e then StateSealedNotRotated else StateOpen) ia"
      "concat segs @ act \<noteq> [] \<longrightarrow> logID' = logID"
proof (cases "appendPermit (kURL K) e = None \<and> st = StateOpen")
  case False
  then show ?thesis
    using unchanged openActive_root [OF goodCodec_hash [OF K] R]
    by (cases "appendPermit (kURL K) e") (auto simp: Append_def)
next
  case True
  with R have R0: "setRep K a d logID segs act link StateOpen ia" by simp
  let ?v = "rootView K a logID segs act StateOpen"
  have ch: "chainAt K (concat segs) act" and f: "dirNode d ia = fileBytes act"
    using root_chainD [OF R0] by simp_all
  have l1: "length (concat segs @ act) < seqMax" using len by simp
  note per = appendPermit_seal [OF conjunct1 [OF True]]
  note op = openActive_root [OF goodCodec_hash [OF K] R0]
  have pos: "cFile (handleAt K (concat segs) rs) = fileBytes rs" for rs by (simp add: handleFor_def)
  have ap: "Append K quietIO idle idle ck d a e = (writeNode ia (cFile c') d, case r of Inl err \<Rightarrow> Inl err | Inr (head, line) \<Rightarrow> Inr head)"
    if "appendOn K ck (handleAt K (concat segs) act) ?v e = (c', r)" for c' r
    using True op that by (simp add: Append_def)
  have line: ?thesis
    if n: "nextLine K ck (concat segs) act e l" and pl: "checkSealPlacement K (handleAt K (concat segs) act) ?v e = None"
      and A: "Append K quietIO idle idle ck d a e = (writeNode ia (fileBytes (act @ [l])) d, res)"
      and r: "res = Inr (logicalHead K (concat segs @ act @ [l])) \<or> ckWrite ck \<noteq> WriteOk \<and> (\<exists>err. res = Inl err)" for l res
  proof -
    have "sealing e \<longrightarrow> sealsAt K (length segs + 1) (concat segs) act l"
      using decodesTo_seal [OF _ _ _ e ck l1 pl] per(2) n by (auto simp: nextLine_def)
    then obtain logID' where "concat segs @ act \<noteq> [] \<longrightarrow> logID' = logID"
      "setRep K a (writeNode ia (fileBytes (act @ [l])) d) logID' segs (act @ [l]) link
         (if sealing e then StateSealedNotRotated else StateOpen) ia"
      by (rule setRep_append [OF R0 n len])
    then show ?thesis using recorded True n A r by blast
  qed
  show ?thesis
  proof (rule appendOn_cases [OF K ck l1 ch per(1), where v = ?v])
    fix err
    assume "appendOn K ck (handleAt K (concat segs) act) ?v e = (handleAt K (concat segs) act, Inl err)"
    from ap [OF this] show ?thesis using unchanged writeNode_same [of ia d] f by (simp add: pos)
  next
    fix l
    assume n: "nextLine K ck (concat segs) act e l" and pl: "checkSealPlacement K (handleAt K (concat segs) act) ?v e = None"
      and a: "appendOn K ck (handleAt K (concat segs) act) ?v e
        = (handleAt K (concat segs) (act @ [l]), Inr (\<lparr>lhHash = headFrom (kHash K) '''' (concat segs @ act @ [l]),
             lhCount = int (length (concat segs @ act @ [l]))\<rparr>, l))"
    from ap [OF a] show ?thesis by (intro line [OF n pl]) (auto simp: pos logicalHead_def)
  next
    fix l b
    assume n: "nextLine K ck (concat segs) act e l" and pl: "checkSealPlacement K (handleAt K (concat segs) act) ?v e = None"
      and w: "ckWrite ck \<noteq> WriteOk" and b: "b = l @ [newline] \<or> newline \<notin> set b"
      and a: "appendOn K ck (handleAt K (concat segs) act) ?v e
        = ((handleAt K (concat segs) act)\<lparr>cFile := fileBytes act @ b\<rparr>, Inl (LedgerFault IOError))"
    have A: "Append K quietIO idle idle ck d a e = (writeNode ia (fileBytes act @ b) d, Inl (LedgerFault IOError))"
      using ap [OF a] by simp
    show ?thesis
    proof (cases "newline \<in> set b")
      case True
      with b A show ?thesis by (intro line [OF n pl, of "Inl (LedgerFault IOError)"]) (use w in auto)
    next
      case False
      then show ?thesis
        using A unchanged torn writeNode_same [of ia d] f w True by (cases "b = []") auto
    qed
  qed
qed

text \<open>The same when every byte is written.\<close>

lemma Append_whole_cases:
  assumes K: "goodCodec K" and ck: "goodClock ck" "ckWrite ck = WriteOk" and R: "setRep K a d logID segs act link st ia"
    and e: "retains ck e" and len: "length (concat segs @ act) + 1 < seqMax"
  obtains (unchanged) err where "Append K quietIO idle idle ck d a e = (d, Inl err)"
  | (recorded) l logID' where "st = StateOpen" "nextLine K ck (concat segs) act e l"
      "Append K quietIO idle idle ck d a e
         = (writeNode ia (fileBytes (act @ [l])) d, Inr (logicalHead K (concat segs @ act @ [l])))"
      "setRep K a (writeNode ia (fileBytes (act @ [l])) d) logID' segs (act @ [l]) link
         (if sealing e then StateSealedNotRotated else StateOpen) ia"
      "concat segs @ act \<noteq> [] \<longrightarrow> logID' = logID"
  by (rule Append_cases [OF K ck(1) R e len]) (use ck(2) in \<open>auto intro: unchanged recorded\<close>)

section \<open>A root that does not exist yet\<close>

definition absentRoot :: "bytes \<Rightarrow> directory \<Rightarrow> bool" where
  "absentRoot a d \<longleftrightarrow>
     wfDir d \<and> inodeOf d a = None \<and> inodeOf d (ManifestPath a) = None \<and> siblingSet d a 0"

lemma siblingSet_fresh:
  "\<not> has_prefix n (a @ ''.seg-'') \<Longrightarrow> siblingSet (freshFile n b d) a m = siblingSet d a m"
proof -
  assume "\<not> has_prefix n (a @ ''.seg-'')"
  then have "inodeOf (freshFile n b d) x = inodeOf d x" if "has_prefix x (a @ ''.seg-'')" for x using that by auto
  then show ?thesis by (auto simp: siblingSet_def)
qed

lemma freshRoot:
  assumes "absentRoot a d"
  shows "setRep K a (freshFile a [] d) logID [] [] False StateOpen (dirNext d)"
  using assms
  by (auto simp: absentRoot_def setRep_def historyRep_def filesRep_def manifestRep_def identityRep_def activeRep_def
        noSeal_def seqMax_def ordinalMax_def validChain_def siblingSet_fresh dest: wfDir_inode)

lemma openActive_absent:
  assumes K: "hashShaped K" and ab: "absentRoot a d"
  shows "openActive K quietIO idle idle d a = openActive K quietIO idle idle (freshFile a [] d) a"
proof -
  let ?d = "freshFile a [] d"
  let ?ver = "writerVerify K quietIO"
  note R = freshRoot [OF ab, of K "''''"]
  obtain ks where "listSiblings quietIO d a = Inr (map (\<lambda>k. (k, SegmentPath a k)) ks)" "set ks = {1..0}"
    by (rule listSiblings_set [where m = 0]) (use ab in \<open>auto simp: absentRoot_def\<close>)
  then have hist: "hasHistory quietIO d a = Inr False"
    using ab by (auto simp: hasHistory_def listSiblings_def absentRoot_def siblingNames_def siblingSet_def set_ReadDir
        filter_empty_conv)
  have W: "walkSealed K quietIO d a = (emptyWalk, None)" and M: "loadManifest K quietIO ?d a = Inr None"
    using ab by (simp_all add: walkSealed_def loadManifest_def Let_def contents_def absentRoot_def)
  have w: "walkRep K a '''' [] emptyWalk" by (simp add: walkRep_def emptyWalk_def noView_def)
  have "lockActive K quietIO idle idle True ?ver d a = (?d, rootView K a '''' [] [] StateOpen, Inr (dirNext d, zeroStart))"
    using hist W M ab readActive_root [OF R w writerVerify_sees [OF K R]]
    by (simp add: lockActive_def numeral_2_eq_2 Let_def sameFile_def absentRoot_def emptyWalk_def)
  moreover have "lockActive K quietIO idle idle True ?ver ?d a
      = (?d, rootView K a '''' [] [] StateOpen, Inr (dirNext d, zeroStart))"
    using lockActive_root [OF K R, where verify = ?ver, OF writerVerify_sees [OF K R]] by simp
  ultimately show ?thesis by (simp add: openActive_def)
qed

end
