(* ===== verification/Control_Rotate.thy ===== *)
theory Control_Rotate
  imports Control_Append
begin

text \<open>
  What a seal does to the root, step by step and at every point it can stop: the link, the seal
  record, the protected copy, the manifest, the swap. Every step keeps the logical chain; only
  the seal record extends it.
\<close>

section \<open>The link\<close>

lemma contents_link:
  "n \<noteq> name \<Longrightarrow> contents (linkName name ino d) n = contents d n"
  by (simp add: contents_simps)

lemma historyRep_link:
  assumes "historyRep K a d logID segs" "inodeOf d a = Some ia"
  shows "historyRep K a (linkName (SegmentPath a (Suc (length segs))) ia d) logID segs"
  using assms by (auto simp: historyRep_def filesRep_def manifestRep_def contents_link)

lemma setRep_link:
  assumes R: "setRep K a d logID segs act False st ia" and st: "st \<noteq> StateRotatedNotSwapped"
  shows "setRep K a (linkName (SegmentPath a (Suc (length segs))) ia d) logID segs act True st ia"
proof -
  have A: "activeRep K a d segs act False ia" by (rule setRep_activeD [OF R st])
  have h: "historyRep K a (linkName (SegmentPath a (Suc (length segs))) ia d) logID segs"
    using historyRep_link R A by (auto simp: setRep_def activeRep_def)
  have "activeRep K a (linkName (SegmentPath a (Suc (length segs))) ia d) segs act True ia"
    using A siblingSet_link [of d a "length segs" ia] by (auto simp: activeRep_def)
  with h R st show ?thesis by (cases st) (auto simp: setRep_def)
qed

lemma linkSegment_cases:
  assumes R: "setRep K a d logID segs act link st ia" and st: "st \<noteq> StateRotatedNotSwapped"
  obtains (failed) err where "linkSegment ck a (length segs + 1) d = (d, Some err)"
  | (linked) d' where "linkSegment ck a (length segs + 1) d = (d', None)" "setRep K a d' logID segs act True st ia"
proof -
  have A: "activeRep K a d segs act link ia" by (rule setRep_activeD [OF R st])
  then have ia: "inodeOf d a = Some ia" by (simp add: activeRep_def)
  show ?thesis
  proof (cases link)
    case True
    with A have "inodeOf d (SegmentPath a (length segs + 1)) = Some ia" by (simp add: activeRep_def)
    then have "linkSegment ck a (length segs + 1) d = (d, None)" using ia by (simp add: linkSegment_def Let_def)
    with True R show ?thesis using linked by simp
  next
    case False
    with A have "siblingSet d a (length segs)" by (simp add: activeRep_def)
    then have "inodeOf d (SegmentPath a (Suc (length segs))) = None"
      using siblingSet_names [of d a "length segs" "Suc (length segs)"] by auto
    then show ?thesis
      using failed linked setRep_link [OF _ st] R False ia
      by (cases "ckLink ck") (auto simp: linkSegment_def Let_def)
  qed
qed

section \<open>The manifest\<close>

lemma identity_logID: "identityRep K logID rs \<Longrightarrow> rs \<noteq> [] \<Longrightarrow> IsLogID logID"
  by (auto simp: identityRep_def GenesisLogID_def split: list.splits option.splits if_splits)

lemma segViews_plain:
  "hashShaped K \<Longrightarrow> segmentsOK K ps k segs \<Longrightarrow> list_all entryPlain (map (manifestEntry a) (segViews K a ps k segs))"
  by (induction segs arbitrary: ps k)
     (auto simp: entryPlain_def manifestEntry_def segView_def Let_def hashShaped_def segmentOK_def headFrom_last)

lemma sameFigures_entryMatches: "sameFigures e (manifestEntry a s) \<Longrightarrow> entryMatches e s"
  by (simp add: sameFigures_def entryMatches_def manifestEntry_def)

definition rootManifest :: "codec \<Rightarrow> bytes \<Rightarrow> bytes \<Rightarrow> bytes list list \<Rightarrow> Manifest" where
  "rootManifest K a logID segs =
     \<lparr>mfV = ''segments/1'', mfLogID = logID, mfSegments = map (manifestEntry a) (segViews K a [] 0 segs)\<rparr>"

lemma manifestD:
  assumes "goodCodec K" "IsLogID (mfLogID m)" "list_all entryPlain (mfSegments m)" "kManifest K m = Some b"
  shows "\<exists>m'. kParse K b = Some (m', False) \<and> mfLogID m' = mfLogID m
              \<and> list_all2 sameFigures (mfSegments m') (mfSegments m)"
  using assms by (simp add: goodCodec_def manifestLaw_def)

lemma writeManifest_cases:
  assumes K: "goodCodec K" and i: "IsLogID logID" and ok: "segmentsOK K [] 0 segs"
  obtains (failed) err where "writeManifest K ck a (rootManifest K a logID segs) d = (d, Some err)"
  | (written) b m where "writeManifest K ck a (rootManifest K a logID segs) d = (freshFile (ManifestPath a) b d, None)"
      "ParseManifest K b a = Inr m" "mfLogID m = logID"
      "list_all2 entryMatches (mfSegments m) (segViews K a [] 0 segs)"
proof -
  let ?m = "rootManifest K a logID segs"
  show ?thesis
  proof (cases "kManifest K ?m")
    case None
    then show ?thesis using failed by (simp add: writeManifest_def)
  next
    case (Some b)
    obtain m where m: "kParse K b = Some (m, False)" "mfLogID m = logID"
      "list_all2 sameFigures (mfSegments m) (map (manifestEntry a) (segViews K a [] 0 segs))"
      using manifestD [OF K _ _ Some] i segViews_plain [OF goodCodec_hash [OF K] ok, of a]
      by (auto simp: rootManifest_def)
    then have es: "list_all2 entryMatches (mfSegments m) (segViews K a [] 0 segs)"
      by (auto simp: list_all2_conv_all_nth intro: sameFigures_entryMatches [of _ a])
    show ?thesis
    proof (cases "ParseManifest K b a")
      case (Inl f)
      with Some show ?thesis using failed by (simp add: writeManifest_def)
    next
      case (Inr m')
      then have "m' = m" using m(1) by (auto simp: ParseManifest_def split: if_splits option.splits)
      with Inr Some m es show ?thesis
        using failed written by (cases "ckManifestFails ck") (auto simp: writeManifest_def Replace_def)
    qed
  qed
qed

lemma setRep_manifest:
  assumes R: "setRep K a d logID segs act True StateSealedNotRotated ia" and len: "length segs + 1 < ordinalMax"
    and m: "ParseManifest K b a = Inr m" "mfLogID m = logID"
      "list_all2 entryMatches (mfSegments m) (segViews K a [] 0 (segs @ [act]))"
  shows "setRep K a (freshFile (ManifestPath a) b d) logID (segs @ [act]) [] False StateRotatedNotSwapped ia"
proof -
  let ?d = "freshFile (ManifestPath a) b d"
  have wfd: "wfDir d" and A: "activeRep K a d segs act True ia" and h: "historyRep K a d logID segs"
    and ok: "segmentOK K (length segs + 1) (concat segs) act"
    using R by (simp_all add: setRep_def historyRep_def)
  have f: "contents ?d (SegmentPath a k) = contents d (SegmentPath a k)" for k
    by (simp add: contents_freshFile [OF wfd])
  have "contents d (SegmentPath a (length segs + 1)) = Some (fileBytes act)"
    using A by (simp add: activeRep_def contents_def)
  then have "filesRep a ?d (segs @ [act])"
    using h by (auto simp: filesRep_def f nth_append less_Suc_eq historyRep_def)
  moreover have "manifestRep K a ?d logID (segs @ [act])"
    using m by (auto simp: manifestRep_def contents_freshFile [OF wfd])
  ultimately have "historyRep K a ?d logID (segs @ [act])"
    using h ok wfd by (auto simp: historyRep_def segmentsOK_snoc)
  moreover have "siblingSet ?d a (Suc (length segs))" using A by (simp add: activeRep_def siblingSet_fresh)
  ultimately show ?thesis
    using R A len by (simp add: setRep_def activeRep_def)
qed

lemma setRep_swap:
  assumes R: "setRep K a d logID segs act link StateRotatedNotSwapped ia"
  shows "setRep K a (freshFile a [] d) logID segs [] False StateOpen (dirNext d)"
proof -
  let ?d = "freshFile a [] d"
  have wfd: "wfDir d" and h: "historyRep K a d logID segs" using R by (simp_all add: setRep_def historyRep_def)
  have h': "historyRep K a ?d logID segs"
    using h wfd by (auto simp: historyRep_def filesRep_def manifestRep_def contents_freshFile [OF wfd])
  have "inodeOf d n \<noteq> Some (dirNext d)" for n using wfDir_inode [OF wfd, of n "dirNext d"] by auto
  then have "activeRep K a ?d segs [] False (dirNext d)"
    using R segments_nonempty h
    by (auto simp: activeRep_def setRep_def siblingSet_fresh validChain_def)
  with h' R show ?thesis by (auto simp: setRep_def noSeal_def)
qed

lemma swapStep_cases:
  assumes R: "setRep K a d logID segs act link StateRotatedNotSwapped ia"
  obtains (stopped) err where "swapStep ck crash a d n seg sunk rcpt = (d, Inl err)"
  | (swapped) r where "swapStep ck crash a d n seg sunk rcpt = (freshFile a [] d, Inr r)"
      "setRep K a (freshFile a [] d) logID segs [] False StateOpen (dirNext d)"
  using setRep_swap [OF R]
  by (cases "crash = ''after_manifest_before_swap''"; cases "ckSwapFails ck")
     (auto simp: swapStep_def swapActive_def Replace_def)

section \<open>The rotation\<close>

text \<open>What a rotation reads of the View it is given.\<close>

definition rotatable :: "codec \<Rightarrow> bytes \<Rightarrow> bytes \<Rightarrow> bytes list list \<Rightarrow> bytes list \<Rightarrow> View \<Rightarrow> bool" where
  "rotatable K a logID segs act v \<longleftrightarrow>
     vState v \<noteq> StateRotatedNotSwapped \<and> vSealed v = segViews K a [] 0 segs \<and> activeRecords v = act
     \<and> sgFirstSeq (vActive v) = int (length (concat segs)) + 1 \<and> vHead v = logicalHead K (concat segs @ act)
     \<and> vLogID v = (if segs = [] then '''' else logID) \<and> vRecords v = concat segs @ act"

lemma rotatable_root: "st \<noteq> StateRotatedNotSwapped \<Longrightarrow> rotatable K a logID segs act (rootView K a logID segs act st)"
  unfolding rotatable_def by (simp add: rootView_first) (simp add: rootView_def logicalHead_def)

lemma manifestLogID_root:
  assumes "identityRep K logID (concat segs @ act)" "act \<noteq> []"
    "vLogID v = (if segs = [] then '''' else logID)" "vRecords v = concat segs @ act"
  shows "manifestLogID K v = Inr logID"
proof -
  have "IsLogID logID" using identity_logID [OF assms(1)] assms(2) by simp
  then have "logID \<noteq> ''''" by (auto simp: IsLogID_def lower_hex_string_def)
  then show ?thesis using assms by (auto simp: manifestLogID_def identityRep_def)
qed

lemma newSegment_root:
  assumes "rotatable K a logID segs act v" "successfulSeal K (last act) = Some rc" "kDec K (last act) = Some rc"
  shows "newSegment K a v rc = segView K a (length segs + 1) (concat segs) act"
  using assms by (simp add: rotatable_def newSegment_def segView_def segmentDigests_eq Let_def logicalHead_def)

lemma successfulSeal_dec: "successfulSeal K l = Some rc \<Longrightarrow> kDec K l = Some rc"
  by (auto simp: successfulSeal_def split: option.splits if_splits)

lemma sealFault_payload: "sealFault K k first rs rc = None \<Longrightarrow> crSeal rc \<noteq> None"
  by (auto simp: sealFault_def sealChainFieldsAgree_def Let_def split: option.splits if_splits)

lemma rotate_cases:
  assumes K: "goodCodec K" and R: "setRep K a d logID segs act link StateSealedNotRotated ia"
    and v: "rotatable K a logID segs act v" and len: "length segs + 1 < ordinalMax"
  obtains (sealed) d' err link' where "rotate K ck crash sink pre a v d = (d', Inl err)"
      "setRep K a d' logID segs act link' StateSealedNotRotated ia"
  | (rotated) d' err where "rotate K ck crash sink pre a v d = (d', Inl err)"
      "setRep K a d' logID (segs @ [act]) [] False StateRotatedNotSwapped ia"
  | (swapped) d' r ia' where "rotate K ck crash sink pre a v d = (d', Inr r)"
      "setRep K a d' logID (segs @ [act]) [] False StateOpen ia'"
proof -
  have ok: "segmentOK K (length segs + 1) (concat segs) act" and idr: "identityRep K logID (concat segs @ act)"
    and h: "segmentsOK K [] 0 segs" using R by (auto simp: setRep_def historyRep_def)
  from ok obtain rc where rc: "successfulSeal K (last act) = Some rc" "kDec K (last act) = Some rc"
    "crSeal rc \<noteq> None" and act: "act \<noteq> []"
    by (elim segmentOKE) (auto dest: successfulSeal_dec sealFault_payload)
  have st: "vState v \<noteq> StateRotatedNotSwapped" "length (vSealed v) = length segs" "activeRecords v = act"
    "vSealed v = segViews K a [] 0 segs" using v by (auto simp: rotatable_def)
  have lid: "manifestLogID K v = Inr logID" by (rule manifestLogID_root [OF idr act]) (use v in \<open>auto simp: rotatable_def\<close>)
  let ?seg = "segView K a (length segs + 1) (concat segs) act"
  have new: "newSegment K a v rc = ?seg" by (rule newSegment_root [OF v rc(1,2)])
  have man: "\<lparr>mfV = ''segments/1'', mfLogID = logID, mfSegments = map (manifestEntry a) (vSealed v @ [?seg])\<rparr>
      = rootManifest K a logID (segs @ [act])"
    by (simp add: rootManifest_def st segViews_snoc)
  have okS: "segmentsOK K [] 0 (segs @ [act])" using h ok by (simp add: segmentsOK_snoc)
  have i: "IsLogID logID" using identity_logID [OF idr] act by simp
  show ?thesis
  proof (rule linkSegment_cases [OF R, where ck = ck])
    fix err
    assume "linkSegment ck a (length segs + 1) d = (d, Some err)"
    then have "rotate K ck crash sink pre a v d = (d, Inl (SealErr SealStepLink err))"
      using st by (simp add: rotate_def Let_def)
    with R show ?thesis by (rule sealed [rotated])
  next
    fix d1
    assume l: "linkSegment ck a (length segs + 1) d = (d1, None)"
      and R1: "setRep K a d1 logID segs act True StateSealedNotRotated ia"
    show ?thesis
    proof (cases "protectedCopy K crash sink pre logID (length segs + 1) (crTime rc) act (sgSink ?seg)")
      case (Inl err)
      then have "rotate K ck crash sink pre a v d = (d1, Inl err)"
        using st l rc lid new by (auto simp: rotate_def Let_def)
      with R1 show ?thesis by (rule sealed [rotated])
    next
      case (Inr cp)
      obtain sunk rcpt where cp: "cp = (sunk, rcpt)" by fastforce
      have rot: "rotate K ck crash sink pre a v d =
          (case writeManifest K ck a (rootManifest K a logID (segs @ [act])) d1 of
             (d, Some err) \<Rightarrow> (d, Inl (SealErr SealStepManifest err))
           | (d, None) \<Rightarrow> swapStep ck crash a d (length segs + 1) ?seg sunk rcpt)"
        unfolding rotate_def Let_def using st(1) l rc lid new Inr cp man by (auto simp: st(2,3))
      show ?thesis
      proof (rule writeManifest_cases [OF K i okS, where ck = ck and a = a and d = d1])
        fix err
        assume "writeManifest K ck a (rootManifest K a logID (segs @ [act])) d1 = (d1, Some err)"
        with rot have "rotate K ck crash sink pre a v d = (d1, Inl (SealErr SealStepManifest err))" by simp
        with R1 show ?thesis by (rule sealed [rotated])
      next
        fix b m
        assume w: "writeManifest K ck a (rootManifest K a logID (segs @ [act])) d1 = (freshFile (ManifestPath a) b d1, None)"
          and m: "ParseManifest K b a = Inr m" "mfLogID m = logID"
            "list_all2 entryMatches (mfSegments m) (segViews K a [] 0 (segs @ [act]))"
        let ?d2 = "freshFile (ManifestPath a) b d1"
        have R2: "setRep K a ?d2 logID (segs @ [act]) [] False StateRotatedNotSwapped ia"
          by (rule setRep_manifest [OF R1 len m])
        show ?thesis
          by (rule swapStep_cases [OF R2, where ck = ck and crash = crash and n = "length segs + 1" and seg = ?seg
                and sunk = sunk and rcpt = rcpt])
             (use rot w rotated R2 swapped in auto)
      qed
    qed
  qed simp
qed

section \<open>Sealing and completing\<close>

lemma seg_names_are_no_temps: "has_prefix n (a @ ''.seg-'') \<Longrightarrow> \<not> tempName a n"
proof -
  assume "has_prefix n (a @ ''.seg-'')"
  then obtain t where n: "n = a @ ''.seg-'' @ t" by (auto simp: has_prefix_iff)
  have "\<not> has_prefix n (a @ ''.segments-'')"
    using has_prefix_nth [of n "a @ ''.segments-''" "length a + 4"] by (auto simp: n nth_append)
  moreover have "\<not> has_prefix n (CHR ''.'' # a @ ''.next-'')" "\<not> has_prefix n (CHR ''.'' # a @ ''.restore-'')"
    using no_dot_temp [of "''.next-''" "''seg-'' @ t" a] no_dot_temp [of "''.restore-''" "''seg-'' @ t" a]
    by (simp_all add: n)
  ultimately show ?thesis by (simp add: tempName_def)
qed

lemma siblingSet_sweep: "siblingSet d a m \<Longrightarrow> siblingSet (sweepTemps quietIO a d) a m"
  by (rule siblingSet_cong) (auto simp: sweepTemps_def seg_names_are_no_temps)

lemma sweep_simps:
  "inodeOf (sweepTemps quietIO a d) a = inodeOf d a"
  "inodeOf (sweepTemps quietIO a d) (ManifestPath a) = inodeOf d (ManifestPath a)"
  "inodeOf (sweepTemps quietIO a d) (SegmentPath a k) = inodeOf d (SegmentPath a k)"
  "dirNode (sweepTemps quietIO a d) = dirNode d"
  by (simp_all add: sweepTemps_def)

lemma setRep_sweep:
  assumes "setRep K a d logID segs act link st ia"
  shows "setRep K a (sweepTemps quietIO a d) logID segs act link st ia"
proof -
  have "contents (sweepTemps quietIO a d) (ManifestPath a) = contents d (ManifestPath a)"
    "contents (sweepTemps quietIO a d) (SegmentPath a k) = contents d (SegmentPath a k)" for k
    by (simp_all add: contents_def sweep_simps)
  moreover have "wfDir d \<Longrightarrow> wfDir (sweepTemps quietIO a d)" by (auto simp: sweepTemps_def)
  ultimately show ?thesis
    using assms siblingSet_sweep
    by (cases st) (auto simp: setRep_def historyRep_def filesRep_def manifestRep_def activeRep_def sweep_simps)
qed

text \<open>A root that represents the records \<open>rs\<close>, in state \<open>st\<close> with \<open>n\<close> sealed segments.\<close>

definition rootHas :: "codec \<Rightarrow> bytes \<Rightarrow> directory \<Rightarrow> bytes \<Rightarrow> bytes list \<Rightarrow> State \<Rightarrow> nat \<Rightarrow> bool" where
  "rootHas K a d logID rs st n \<longleftrightarrow>
     (\<exists>segs act link ia. setRep K a d logID segs act link st ia \<and> rs = concat segs @ act \<and> n = length segs)"

lemma rootHasI: "setRep K a d logID segs act link st ia \<Longrightarrow> rootHas K a d logID (concat segs @ act) st (length segs)"
  unfolding rootHas_def by blast

text \<open>
  A root whose last write was cut: the active of an open root with bytes after its last record that hold no
  newline.
\<close>

abbreviation tear :: "nat \<Rightarrow> bytes \<Rightarrow> directory \<Rightarrow> directory" where
  "tear ia tail d \<equiv> writeNode ia (dirNode d ia @ tail) d"

definition tornHas :: "codec \<Rightarrow> bytes \<Rightarrow> directory \<Rightarrow> bytes \<Rightarrow> bytes list \<Rightarrow> nat \<Rightarrow> bool" where
  "tornHas K a d logID rs n \<longleftrightarrow>
     (\<exists>d0 segs act link ia tail. setRep K a d0 logID segs act link StateOpen ia \<and> rs = concat segs @ act \<and> n = length segs
        \<and> tail \<noteq> [] \<and> newline \<notin> set tail \<and> d = tear ia tail d0)"

lemma tornHasI:
  assumes R: "setRep K a d logID segs act link StateOpen ia" and t: "tail \<noteq> []" "newline \<notin> set tail"
  shows "tornHas K a (writeNode ia (fileBytes act @ tail) d) logID (concat segs @ act) (length segs)"
proof -
  have "dirNode d ia = fileBytes act" using root_chainD [OF R] by simp
  with R t show ?thesis unfolding tornHas_def by metis
qed

definition sinkRetains :: "clock \<Rightarrow> SinkWriter option \<Rightarrow> bool" where
  "sinkRetains ck sink \<longleftrightarrow>
     (case sink of
        None \<Rightarrow> True
      | Some w \<Rightarrow> \<forall>logID n. ssRetainUntil (swLocator w logID n (ckLocatorNow ck)) > ckNow ck)"

text \<open>The outcome of a rotation: a state it may stop in, with the same records.\<close>

definition rotationEnd :: "codec \<Rightarrow> bytes \<Rightarrow> bytes \<Rightarrow> bytes list \<Rightarrow> nat \<Rightarrow> directory \<times> (control_error + SealResult) \<Rightarrow> bool" where
  "rotationEnd K a logID rs n res \<longleftrightarrow>
     (case snd res of
        Inl _ \<Rightarrow> rootHas K a (fst res) logID rs StateSealedNotRotated n
                 \<or> rootHas K a (fst res) logID rs StateRotatedNotSwapped (n + 1)
      | Inr _ \<Rightarrow> rootHas K a (fst res) logID rs StateOpen (n + 1))"

lemma rotate_end:
  assumes "goodCodec K" "setRep K a d logID segs act link StateSealedNotRotated ia"
    "rotatable K a logID segs act v" "length segs + 1 < ordinalMax"
  shows "rotationEnd K a logID (concat segs @ act) (length segs) (rotate K ck crash sink pre a v d)"
proof (rule rotate_cases [OF assms, where ck = ck and crash = crash and sink = sink and pre = pre])
  fix d' err link'
  assume "rotate K ck crash sink pre a v d = (d', Inl err)" "setRep K a d' logID segs act link' StateSealedNotRotated ia"
  then show ?thesis by (auto simp: rotationEnd_def dest: rootHasI)
next
  fix d' err
  assume "rotate K ck crash sink pre a v d = (d', Inl err)"
    "setRep K a d' logID (segs @ [act]) [] False StateRotatedNotSwapped ia"
  then show ?thesis by (auto simp: rotationEnd_def dest: rootHasI)
next
  fix d' r ia'
  assume "rotate K ck crash sink pre a v d = (d', Inr r)" "setRep K a d' logID (segs @ [act]) [] False StateOpen ia'"
  then show ?thesis by (auto simp: rotationEnd_def dest: rootHasI)
qed

lemma rotatable_sealed:
  "rotatable K a logID segs (act @ [l]) (sealedView (rootView K a logID segs act StateOpen) (logicalHead K (concat segs @ act @ [l])) l)"
  by (simp add: rotatable_def sealedView_def rootView_def activeRecords_def)

definition sealEnd ::
  "codec \<Rightarrow> write_outcome \<Rightarrow> bytes \<Rightarrow> bytes \<Rightarrow> bytes list \<Rightarrow> State \<Rightarrow> nat \<Rightarrow> directory \<times> (control_error + SealResult) \<Rightarrow> bool" where
  "sealEnd K io a logID rs st n res \<longleftrightarrow>
     rootHas K a (fst res) logID rs st n \<and> (\<exists>err. snd res = Inl err)
     \<or> tornHas K a (fst res) logID rs n \<and> (\<exists>err. snd res = Inl err) \<and> io \<noteq> WriteOk
     \<or> st = StateOpen \<and> (\<exists>l logID'. (rs \<noteq> [] \<longrightarrow> logID' = logID) \<and> rotationEnd K a logID' (rs @ [l]) n res)"

lemma sealRecordStep_end:
  assumes K: "goodCodec K" and ck: "goodClock ck" and R: "setRep K a d logID segs act link StateOpen ia"
    and e: "ceAction e = ''seal''" "ceOutcome e = ''success''"
    and loc: "case loc of None \<Rightarrow> True | Some b \<Rightarrow> ssRetainUntil b > ckNow ck"
    and len: "length (concat segs @ act) + 1 < seqMax" "length segs + 1 < ordinalMax"
  shows "sealEnd K (ckWrite ck) a logID (concat segs @ act) StateOpen (length segs)
    (sealRecordStep K ck crash sink a \<lparr>oaChain = handleAt K (concat segs) act, oaInode = ia\<rparr>
       (rootView K a logID segs act StateOpen) e loc d)" (is "sealEnd _ _ _ _ ?rs _ _ ?res")
proof -
  let ?v = "rootView K a logID segs act StateOpen"
  let ?e = "e\<lparr>ceSeal := Some (sealPayload K (handleAt K (concat segs) act) ?v loc)\<rparr>"
  have ch: "chainAt K (concat segs) act" and f: "dirNode d ia = fileBytes act" using root_chainD [OF R] by simp_all
  have l1: "length ?rs < seqMax" using len by simp
  have se: "sealing ?e" and ret: "retains ck ?e"
    using e loc by (simp_all add: sealing_def retains_def sealPayload_def)
  have kept: "sealEnd K (ckWrite ck) a logID ?rs StateOpen (length segs) (d, Inl err)" for err
    using rootHasI [OF R] by (simp add: sealEnd_def)
  show ?thesis
  proof (cases "checkSealShape (kURL K) ?e")
    case (Some m)
    then show ?thesis using kept by (simp add: sealRecordStep_def Let_def)
  next
    case None
    then have hx: "sealHexed ?e" using e
      by (auto simp: checkSealShape_def sealHexed_def split: if_splits)
    have sealed: thesis
      if n: "nextLine K ck (concat segs) act ?e l" and pl: "checkSealPlacement K (handleAt K (concat segs) act) ?v ?e = None"
        and th: "\<And>logID'. (?rs \<noteq> [] \<longrightarrow> logID' = logID) \<Longrightarrow>
          setRep K a (writeNode ia (fileBytes (act @ [l])) d) logID' segs (act @ [l]) link StateSealedNotRotated ia \<Longrightarrow> thesis" for l thesis
    proof -
      have "sealing ?e \<longrightarrow> sealsAt K (length segs + 1) (concat segs) act l"
        by (rule impI, rule decodesTo_seal [OF _ se _ ret ck l1 pl]) (use n in \<open>simp_all add: nextLine_def\<close>)
      then show ?thesis by (rule setRep_append [OF R n len(1)]) (use se th in simp)
    qed
    show ?thesis
    proof (rule appendOn_cases [OF K ck l1 ch hx, where v = ?v])
      fix err
      assume "appendOn K ck (handleAt K (concat segs) act) ?v ?e = (handleAt K (concat segs) act, Inl err)"
      then show ?thesis
        using None kept writeNode_same [of ia d] f
        by (simp add: sealRecordStep_def Let_def handleFor_def [of _ _ _ _ act])
    next
      fix l
      assume n: "nextLine K ck (concat segs) act ?e l" and pl: "checkSealPlacement K (handleAt K (concat segs) act) ?v ?e = None"
        and ap: "appendOn K ck (handleAt K (concat segs) act) ?v ?e = (handleAt K (concat segs) (act @ [l]),
          Inr (\<lparr>lhHash = headFrom (kHash K) '''' (concat segs @ act @ [l]), lhCount = int (length (concat segs @ act @ [l]))\<rparr>, l))"
      obtain logID' where i: "?rs \<noteq> [] \<longrightarrow> logID' = logID"
        and R': "setRep K a (writeNode ia (fileBytes (act @ [l])) d) logID' segs (act @ [l]) link StateSealedNotRotated ia"
        by (rule sealed [OF n pl])
      let ?d = "writeNode ia (fileBytes (act @ [l])) d"
      have res: "?res = (if crash = ''after_seal_before_manifest'' then (?d, Inl (SealErr SealStepManifest StoppedByTestHook))
          else rotate K ck crash sink None a (sealedView ?v (logicalHead K (concat segs @ act @ [l])) l) ?d)"
        using None ap unfolding sealRecordStep_def Let_def
        by (simp add: handleFor_def [of _ _ _ _ "act @ [l]"] logicalHead_def)
      have "rotatable K a logID' segs (act @ [l]) (sealedView ?v (logicalHead K (concat segs @ act @ [l])) l)"
      proof -
        have "segmentsOK K [] 0 segs" using R by (simp add: setRep_def historyRep_def)
        then have "?rs = [] \<Longrightarrow> segs = []" using segments_nonempty [of K "[]" 0 segs] by auto
        then have "rootView K a logID segs act StateOpen = rootView K a logID' segs act StateOpen"
          using i by (auto simp: rootView_def)
        then show ?thesis using rotatable_sealed [of K a logID' segs act l] by simp
      qed
      from rotate_end [OF K R' this len(2), of ck crash sink None]
      have B: "rotationEnd K a logID' (?rs @ [l]) (length segs)
          (rotate K ck crash sink None a (sealedView ?v (logicalHead K (concat segs @ act @ [l])) l) ?d)" by simp
      have "rotationEnd K a logID' (?rs @ [l]) (length segs) (?d, Inl (SealErr SealStepManifest StoppedByTestHook))"
        using rootHasI [OF R'] by (simp add: rotationEnd_def)
      with B have "rotationEnd K a logID' (?rs @ [l]) (length segs) ?res" unfolding res by presburger
      with i show ?thesis by (auto simp: sealEnd_def)
    next
      fix l b
      assume n: "nextLine K ck (concat segs) act ?e l" and pl: "checkSealPlacement K (handleAt K (concat segs) act) ?v ?e = None"
        and w: "ckWrite ck \<noteq> WriteOk" and b: "b = l @ [newline] \<or> newline \<notin> set b"
        and ap: "appendOn K ck (handleAt K (concat segs) act) ?v ?e
          = ((handleAt K (concat segs) act)\<lparr>cFile := fileBytes act @ b\<rparr>, Inl (LedgerFault IOError))"
      have res: "?res = (writeNode ia (fileBytes act @ b) d, Inl (SealErr SealStepRecord (LedgerFault IOError)))"
        using None ap by (simp add: sealRecordStep_def Let_def)
      consider "b = l @ [newline]" | "b = []" | "b \<noteq> []" "newline \<notin> set b" using b by auto
      then show ?thesis
      proof cases
        case 1
        then have res': "?res = (writeNode ia (fileBytes (act @ [l])) d, Inl (SealErr SealStepRecord (LedgerFault IOError)))"
          using res by simp
        obtain logID' where i: "?rs \<noteq> [] \<longrightarrow> logID' = logID"
          and R': "setRep K a (writeNode ia (fileBytes (act @ [l])) d) logID' segs (act @ [l]) link StateSealedNotRotated ia"
          by (rule sealed [OF n pl])
        have "rotationEnd K a logID' (?rs @ [l]) (length segs) ?res"
          unfolding res' using rootHasI [OF R'] by (simp add: rotationEnd_def)
        with i show ?thesis by (auto simp: sealEnd_def)
      next
        case 2
        then show ?thesis using res kept writeNode_same [of ia d] f by simp
      next
        case 3
        from tornHasI [OF R this] w show ?thesis unfolding res by (auto simp: sealEnd_def)
      qed
    qed
  qed
qed


lemma SealActive_end:
  assumes K: "goodCodec K" and ck: "goodClock ck" and sk: "sinkRetains ck sink"
    and R: "setRep K a d logID segs act link st ia"
    and len: "length (concat segs @ act) + 1 < seqMax" "length segs + 1 < ordinalMax"
  shows "sealEnd K (ckWrite ck) a logID (concat segs @ act) st (length segs) (SealActive K quietIO idle idle ck crash sink d a e)"
    (is "sealEnd _ _ _ _ ?rs _ _ ?res")
proof -
  have kept: "sealEnd K (ckWrite ck) a logID ?rs st (length segs) (d', Inl err)"
    if "setRep K a d' logID segs act link' st ia" for d' err link'
    using rootHasI [OF that] by (simp add: sealEnd_def)
  note op = openActive_root [OF goodCodec_hash [OF K] R]
  show ?thesis
  proof (cases "(ceAction e \<noteq> ''seal'' \<or> ceOutcome e \<noteq> ''success'' \<or> ceSeal e \<noteq> None) \<or> st \<noteq> StateOpen")
    case True
    then show ?thesis using kept [OF R] op by (auto simp: SealActive_def)
  next
    case False
    then have e: "ceAction e = ''seal''" "ceOutcome e = ''success''" "ceSeal e = None" and st: "st = StateOpen" by auto
    let ?d = "sweepTemps quietIO a d"
    let ?v = "rootView K a logID segs act StateOpen"
    let ?oa = "\<lparr>oaChain = handleAt K (concat segs) act, oaInode = ia\<rparr>"
    have R1: "setRep K a ?d logID segs act link StateOpen ia" using setRep_sweep [OF R] st by simp
    have vs: "length (vSealed ?v) = length segs" by (simp add: rootView_def)
    have cn: "cCount (handleAt K (concat segs) act) = length act" by (simp add: handleFor_def)
    have start: "?res = (if length act = 0 then (?d, Inl ErrNothingToSeal)
        else case manifestLogID K ?v of Inl err \<Rightarrow> (?d, Inl err)
           | Inr i \<Rightarrow> (case preflight K ck sink i (length segs + 1) of Inl err \<Rightarrow> (?d, Inl err)
               | Inr loc \<Rightarrow> (case linkSegment ck a (length segs + 1) ?d of
                    (d', Some err) \<Rightarrow> (d', Inl (SealErr SealStepLink err))
                  | (d', None) \<Rightarrow> if crash = ''after_link_before_seal'' then (d', Inl (SealErr SealStepRecord StoppedByTestHook))
                      else sealRecordStep K ck crash sink a ?oa ?v e loc d')))"
      unfolding SealActive_def Let_def op st prod.case sum.case if_True simp_thms
        openActiveResult.select_convs cn vs
      using e by (simp only: simp_thms if_False)
    have keptD: "sealEnd K (ckWrite ck) a logID ?rs st (length segs) (?d, Inl err)" for err using kept [of ?d] R1 st by blast
    show ?thesis
    proof (cases "length act = 0")
      case True
      then show ?thesis unfolding start using keptD by simp
    next
      case ne: False
      show ?thesis
      proof (cases "manifestLogID K ?v")
        case (Inl err)
        then show ?thesis unfolding start using ne keptD by simp
      next
        case i: (Inr i)
        show ?thesis
        proof (cases "preflight K ck sink i (length segs + 1)")
          case (Inl err)
          then show ?thesis unfolding start using ne i keptD by simp
        next
          case loc: (Inr loc)
          then have ret: "case loc of None \<Rightarrow> True | Some b \<Rightarrow> ssRetainUntil b > ckNow ck"
            using sk by (auto simp: preflight_def sinkRetains_def Let_def split: option.splits)
          show ?thesis
          proof (rule linkSegment_cases [OF R1, where ck = ck])
            fix err
            assume "linkSegment ck a (length segs + 1) ?d = (?d, Some err)"
            then show ?thesis unfolding start using ne i loc keptD by simp
          next
            fix d'
            assume l: "linkSegment ck a (length segs + 1) ?d = (d', None)"
              and R2: "setRep K a d' logID segs act True StateOpen ia"
            have "sealEnd K (ckWrite ck) a logID ?rs st (length segs) (d', Inl (SealErr SealStepRecord StoppedByTestHook))"
              using kept R2 st by blast
            moreover have "sealEnd K (ckWrite ck) a logID ?rs st (length segs) (sealRecordStep K ck crash sink a ?oa ?v e loc d')"
              unfolding st by (rule sealRecordStep_end [OF K ck R2 e(1,2) ret len])
            ultimately show ?thesis unfolding start using ne i loc l by simp
          qed simp
        qed
      qed
    qed
  qed
qed

definition completeEnd :: "codec \<Rightarrow> bytes \<Rightarrow> bytes \<Rightarrow> bytes list \<Rightarrow> State \<Rightarrow> nat \<Rightarrow> directory \<times> (control_error + SealResult) \<Rightarrow> bool" where
  "completeEnd K a logID rs st n res \<longleftrightarrow>
     (case st of
        StateOpen \<Rightarrow> snd res = Inl ErrNothingToComplete \<and> rootHas K a (fst res) logID rs StateOpen n
      | StateSealedNotRotated \<Rightarrow> rotationEnd K a logID rs n res
      | StateRotatedNotSwapped \<Rightarrow>
          (case snd res of
             Inl _ \<Rightarrow> rootHas K a (fst res) logID rs StateRotatedNotSwapped n
           | Inr _ \<Rightarrow> rootHas K a (fst res) logID rs StateOpen n))"

lemma completeSealWith_end:
  assumes K: "goodCodec K" and R: "setRep K a d logID segs act link st ia" and len: "length segs + 1 < ordinalMax"
  shows "completeEnd K a logID (concat segs @ act) st (length segs)
    (completeSealWith K quietIO idle idle ck crash sink pre d a)" (is "completeEnd _ _ _ ?rs _ _ ?res")
proof -
  have h: "hashShaped K" by (rule goodCodec_hash [OF K])
  let ?v = "rootView K a logID segs act st" and ?d = "sweepTemps quietIO a d"
  have R1: "setRep K a ?d logID segs act link st ia" by (rule setRep_sweep [OF R])
  have vst: "vState ?v = st" by (simp add: rootView_def)
  have res: "?res = (if st = StateOpen then (d, Inl ErrNothingToComplete)
      else case rotate K ck crash sink pre a ?v ?d of (d, Inl err) \<Rightarrow> (d, Inl err)
           | (d, Inr r) \<Rightarrow> (d, Inr (r\<lparr>srCompleted := True\<rparr>)))"
    unfolding completeSealWith_def
      lockActive_root [OF h R, where verify = "readerVerify K quietIO", OF readerVerify_sees [OF h R]]
    by (simp add: vst)
  show ?thesis
  proof (cases st)
    case StateOpen
    then show ?thesis using rootHasI [OF R] by (simp add: completeEnd_def res)
  next
    case StateSealedNotRotated
    with R1 have "setRep K a ?d logID segs act link StateSealedNotRotated ia" by simp
    from rotate_end [OF K this rotatable_root [of st] len, of ck crash sink pre] StateSealedNotRotated
    show ?thesis
      by (auto simp: completeEnd_def res rotationEnd_def split: prod.splits sum.splits)
  next
    case StateRotatedNotSwapped
    with R1 have R2: "setRep K a ?d logID segs act link StateRotatedNotSwapped ia" by simp
    then have act: "act = []" by (simp add: setRep_def)
    have rot: "rotate K ck crash sink pre a ?v ?d
        = swapStep ck crash a ?d (length (vSealed ?v)) (last (vSealed ?v)) None noReceipt"
      unfolding rotate_def vst using StateRotatedNotSwapped by (simp only: simp_thms if_True)
    have nOpen: "st \<noteq> StateOpen" using StateRotatedNotSwapped by simp
    show ?thesis
    proof (rule swapStep_cases [OF R2, where ck = ck and crash = crash and n = "length (vSealed ?v)"
          and seg = "last (vSealed ?v)" and sunk = None and rcpt = noReceipt])
      fix err
      assume "swapStep ck crash a ?d (length (vSealed ?v)) (last (vSealed ?v)) None noReceipt = (?d, Inl err)"
      then have "?res = (?d, Inl err)" unfolding res rot using nOpen by (simp only: if_False prod.case sum.case)
      with rootHasI [OF R2] StateRotatedNotSwapped show ?thesis by (simp add: completeEnd_def)
    next
      fix r
      assume "swapStep ck crash a ?d (length (vSealed ?v)) (last (vSealed ?v)) None noReceipt = (freshFile a [] ?d, Inr r)"
        and R3: "setRep K a (freshFile a [] ?d) logID segs [] False StateOpen (dirNext ?d)"
      then have "?res = (freshFile a [] ?d, Inr (r\<lparr>srCompleted := True\<rparr>))"
        unfolding res rot using nOpen by (simp only: if_False prod.case sum.case)
      with rootHasI [OF R3] act StateRotatedNotSwapped show ?thesis by (simp add: completeEnd_def)
    qed
  qed
qed

end
