(* ===== verification/Control_Torn.thy ===== *)
theory Control_Torn
  imports Control_Rotate
begin

text \<open>
  A root whose last write was cut (\<^verbatim>\<open>internal/control\<close>, \<open>Read\<close>, \<open>openActive\<close>, \<open>Repair\<close>, \<open>moveTailAside\<close>,
  \<open>writeTornFragment\<close>): what a read and the writers make of it, and what a repair leaves behind wherever
  it stops.
\<close>

section \<open>The fragment file\<close>

text \<open>A directory that gained one file under a new name and is otherwise the same.\<close>

definition addsFile :: "directory \<Rightarrow> bytes \<Rightarrow> bytes \<Rightarrow> directory \<Rightarrow> bool" where
  "addsFile d n b d' \<longleftrightarrow> inodeOf d n = None \<and> d' = freshFile n b d"

lemma tornLoop_outcome:
  "tornLoop ck a fragment left d = (d', err) \<Longrightarrow>
   d' = d \<and> err \<noteq> None
   \<or> (\<exists>k < maxTornFragmentAttempts. addsFile d (tornName a (ckUnix ck) k) (storedBytes (ckFragmentWrite ck) fragment) d'
        \<and> (err = None \<longleftrightarrow> ckFragmentWrite ck = WriteOk))"
proof (induction left)
  case (Suc left)
  then show ?case
    by (auto simp: Let_def addsFile_def maxTornFragmentAttempts_def split: if_splits
          intro!: exI [of _ "maxTornFragmentAttempts - Suc left"])
qed auto

lemma writeTornFragment_outcome:
  assumes "writeTornFragment ck a fragment d = (d', err)"
  obtains (refused) "d' = d" "err \<noteq> None"
  | (stored) k where "k < maxTornFragmentAttempts"
      "addsFile d (tornName a (ckUnix ck) k) (storedBytes (ckFragmentWrite ck) fragment) d'"
      "err = None \<longleftrightarrow> ckFragmentWrite ck = WriteOk"
  using tornLoop_outcome assms unfolding writeTornFragment_def by blast

lemma torn_names [simp]:
  "tornName a u k \<noteq> a" "tornName a u k \<noteq> ManifestPath a" "a \<noteq> tornName a u k" "ManifestPath a \<noteq> tornName a u k"
  "\<not> has_prefix (tornName a u k) (a @ ''.seg-'')"
  by (auto simp: tornName_def ManifestPath_def has_prefix_iff)

lemma torn_no_segment [simp]: "SegmentPath a n \<noteq> tornName a u k" "tornName a u k \<noteq> SegmentPath a n"
  by (metis has_prefix_SegmentPath torn_names(5))+

section \<open>Moving a tail aside\<close>

lemma moveTailAside_outcome:
  assumes "moveTailAside K io race ck a off pre d = (d', res)"
  obtains (kept) err where "res = Inl err" "d' = d \<or> d' = race 0 d"
  | (copied) err k b where "res = Inl err" "addsFile (race 0 d) (tornName a (ckUnix ck) k) b d'"
  | (moved) ino k where "inodeOf (race 0 d) a = Some ino" "0 \<le> off" "off \<le> int (length (dirNode (race 0 d) ino))"
      "k < maxTornFragmentAttempts" "inodeOf (race 0 d) (tornName a (ckUnix ck) k) = None"
      "d' = writeNode ino (take (nat off) (dirNode (race 0 d) ino))
              (freshFile (tornName a (ckUnix ck) k) (drop (nat off) (dirNode (race 0 d) ino)) (race 0 d))"
      "res = Inr \<lparr>rrFragmentLen = int (length (drop (nat off) (dirNode (race 0 d) ino))),
                  rrFragmentSHA = kHash K (drop (nat off) (dirNode (race 0 d) ino)), rrCompletedSegment = 0\<rparr>
       \<or> (\<exists>err. res = Inl err)"
proof (cases "inodeOf d a")
  case None
  with assms show ?thesis by (intro kept [of NotExist]) (auto simp: moveTailAside_def)
next
  case (Some ino)
  let ?raw = "dirNode (race 0 d) ino"
  obtain d1 e1 where w: "writeTornFragment ck a (drop (nat off) ?raw) (race 0 d) = (d1, e1)" by fastforce
  show ?thesis
  proof (cases "ioOpenFails io \<or> ioLock io \<noteq> None \<or> \<not> sameFile (race 0 d) a ino \<or> ioReadFault io
      \<or> off < 0 \<or> off > int (length ?raw) \<or> pre \<noteq> [] \<and> \<not> hasSuffix (take (nat off) ?raw) (last pre @ [newline])")
    case True
    then obtain err where "res = Inl err" "d' = d \<or> d' = race 0 d"
      using assms Some by (auto simp: moveTailAside_def Let_def split: if_splits option.splits)
    then show ?thesis by (rule kept)
  next
    case False
    then have same: "inodeOf (race 0 d) a = Some ino" and off: "0 \<le> off" "off \<le> int (length ?raw)"
      by (auto simp: sameFile_def)
    let ?r = "\<lparr>rrFragmentLen = int (length (drop (nat off) ?raw)), rrFragmentSHA = kHash K (drop (nat off) ?raw),
               rrCompletedSegment = 0\<rparr>"
    have res: "(d', res) = (case e1 of Some e \<Rightarrow> (d1, Inl e)
        | None \<Rightarrow> (case ckTruncate ck of TruncateFails \<Rightarrow> (d1, Inl IOFault)
            | TruncateUnsynced \<Rightarrow> (writeNode ino (take (nat off) ?raw) d1, Inl IOFault)
            | TruncateOk \<Rightarrow> (writeNode ino (take (nat off) ?raw) d1, Inr ?r)))"
      using assms Some False unfolding moveTailAside_def by (auto simp: Let_def w split: option.split)
    from w show ?thesis
    proof (rule writeTornFragment_outcome)
      assume "d1 = race 0 d" "e1 \<noteq> None"
      with res show ?thesis using kept by auto
    next
      fix k
      assume st: "k < maxTornFragmentAttempts"
        "addsFile (race 0 d) (tornName a (ckUnix ck) k) (storedBytes (ckFragmentWrite ck) (drop (nat off) ?raw)) d1"
        "(e1 = None) = (ckFragmentWrite ck = WriteOk)"
      show ?thesis
      proof (cases "e1 = None \<and> ckTruncate ck \<noteq> TruncateFails")
        case True
        with st have "storedBytes (ckFragmentWrite ck) (drop (nat off) ?raw) = drop (nat off) ?raw"
          by (simp add: storedBytes_def)
        with True st res same off show ?thesis
          by (intro moved [of ino k]) (auto simp: addsFile_def split: truncate_answer.splits)
      next
        case False
        with res obtain err where "res = Inl err" "d' = d1" by (auto split: option.splits)
        with st(2) show ?thesis by (intro copied) auto
      qed
    qed
  qed
qed

section \<open>Reading a torn root\<close>

definition tornFault :: "bytes \<Rightarrow> bytes list list \<Rightarrow> bytes list \<Rightarrow> control_error" where
  "tornFault a segs act =
     setError FaultTorn 0 a (int (length (concat segs @ act)) + 1) (LedgerCause (TornError (length (fileBytes act))))"

lemma readerVerify_torn:
  assumes "hashShaped K" "length ps \<le> seqMax" "chainAt K ps act" "tail \<noteq> []" "newline \<notin> set tail"
  shows "readerVerify K quietIO (fileBytes act @ tail) (startAt K ps)
    = (act, \<lparr>headHash = headFrom (kHash K) '''' (ps @ act), headCount = length act\<rparr>,
       Some (TornError (length (fileBytes act))))"
  using startAt_valid [OF assms(1,2)] loadChain_torn_tail [OF assms(3,5,4)]
  by (simp add: readerVerify_def VerifyReader_def Let_def)

lemma mapActiveFault_torn:
  assumes "length (concat segs @ act) < seqMax"
  shows "mapActiveFault K a file (startAt K (concat segs)) act (TornError (length (fileBytes act)))
    = tornFault a segs act"
  using assms goInt_nat [of "length (concat segs @ act) + 1"] uint_of_nat [of "length (concat segs)"]
  by (simp add: mapActiveFault_def tornFault_def add_ac)

lemma writerVerify_torn:
  assumes "hashShaped K" "length ps \<le> seqMax" "chainAt K ps act" "tail \<noteq> []" "newline \<notin> set tail"
  shows "writerVerify K quietIO (fileBytes act @ tail) (startAt K ps)
    = (act, \<lparr>headHash = headFrom (kHash K) '''' (ps @ act), headCount = length act\<rparr>,
       Some (TornError (length (fileBytes act))))"
  using startAt_valid [OF assms(1,2)] loadChain_torn_tail [OF assms(3,5,4)]
  by (simp add: writerVerify_def Resume_def Let_def headFrom_last)

text \<open>What a reader of the active sees there.\<close>

definition seesTorn :: "codec \<Rightarrow> bytes list list \<Rightarrow> bytes list \<Rightarrow> (Start \<Rightarrow> verified) \<Rightarrow> bool" where
  "seesTorn K segs act verify \<longleftrightarrow>
     verify (startAt K (concat segs))
       = (act, \<lparr>headHash = headFrom (kHash K) '''' (concat segs @ act), headCount = length act\<rparr>,
          Some (TornError (length (fileBytes act))))"

lemma verifies_torn:
  assumes "hashShaped K" "setRep K a d logID segs act link StateOpen ia" "tail \<noteq> []" "newline \<notin> set tail"
  shows "seesTorn K segs act (readerVerify K quietIO (fileBytes act @ tail))"
    "seesTorn K segs act (writerVerify K quietIO (fileBytes act @ tail))"
proof -
  have "length (concat segs) \<le> seqMax" "chainAt K (concat segs) act"
    using setRep_boundsD(5) [OF assms(2)] root_chainD [OF assms(2)] by simp_all
  then show "seesTorn K segs act (readerVerify K quietIO (fileBytes act @ tail))"
    "seesTorn K segs act (writerVerify K quietIO (fileBytes act @ tail))"
    using readerVerify_torn writerVerify_torn assms by (simp_all add: seesTorn_def)
qed

definition seenTorn :: "codec \<Rightarrow> bytes \<Rightarrow> bytes list list \<Rightarrow> bytes list \<Rightarrow> View \<times> control_error option \<Rightarrow> bool" where
  "seenTorn K a segs act r \<longleftrightarrow>
     vRecords (fst r) = concat segs @ act \<and> activeRecords (fst r) = act \<and> length (vSealed (fst r)) = length segs
     \<and> vState (fst r) = StateOpen \<and> vHead (fst r) = logicalHead K (concat segs @ act)
     \<and> snd r = Some (tornFault a segs act)"

lemma readActive_torn:
  assumes R: "setRep K a d logID segs act link StateOpen ia" and w: "walkRep K a logID segs w"
    and ver: "seesTorn K segs act verify" and t: "t = writeNode ia b d"
  shows "seenTorn K a segs act (readActive K quietIO t a ia w verify)"
proof -
  have A: "activeRep K a d segs act link ia" and b: "length (concat segs @ act) < seqMax" "length segs < ordinalMax"
    using R by (simp_all add: setRep_def)
  then have sib: "siblingSet t a (length segs + (if link then 1 else 0))"
    "link \<longrightarrow> inodeOf t (SegmentPath a (length segs + 1)) = Some ia"
    and nC: "segs \<noteq> [] \<Longrightarrow> \<not> sameFile t (SegmentPath a (length segs)) ia"
    by (cases "length segs"; auto simp: activeRep_def t sameFile_def)+
  obtain sibs where L: "listSiblings quietIO t a = Inr sibs" and U: "unexplained t (length segs) ia sibs = None"
    by (rule siblings_explained [OF sib(1) b(2) sib(2)])
  note mf = mapActiveFault_torn [OF b(1)] and ver' = ver [unfolded seesTorn_def]
  have pos: "goInt (uint (of_nat (length (concat segs)) :: 64 word)) = int (length (concat segs))"
    "goInt (uint (of_nat (length (concat segs)) :: 64 word) + int (length act)) = int (length (concat segs @ act))"
    using uint_of_nat [of "length (concat segs)"] goInt_nat [of "length (concat segs)"] goInt_nat [of "length (concat segs @ act)"] b
    by simp_all
  show ?thesis
  proof (cases "swM w")
    case None
    with w have segs: "segs = []" by (simp add: walkRep_def)
    show ?thesis
      using w None segs L U ver' mf
      by (simp add: readActive_def readSingle_def seenTorn_def walkRep_def noView_def activeRecords_def activeSegment_def logicalHead_def)
  next
    case (Some m)
    with w have segs: "segs \<noteq> []" and m: "length (mfSegments m) = length segs" and s: "swStart w = startAt K (concat segs)"
      by (auto simp: walkRep_def)
    show ?thesis
      using w Some L ver' mf nC [OF segs] pos unfolding readActive_def readMulti_def Let_def m s
      by (auto simp: U seenTorn_def walkRep_def noView_def activeRecords_def activeSegment_def logicalHead_def)
  qed
qed

lemma Read_torn:
  assumes K: "hashShaped K" and R: "setRep K a d logID segs act link StateOpen ia"
    and t: "tail \<noteq> []" "newline \<notin> set tail"
  obtains v where "Read K quietIO mode idle (tear ia tail d) a = (tear ia tail d, v, Some (tornFault a segs act))"
    "vRecords v = concat segs @ act" "activeRecords v = act" "length (vSealed v) = length segs" "vState v = StateOpen"
    "vHead v = logicalHead K (concat segs @ act)"
proof -
  note b = setRep_boundsD [OF R]
  have A: "activeRep K a d segs act link ia" and f: "dirNode d ia = fileBytes act"
    using R root_chainD [OF R] by (simp_all add: setRep_def)
  obtain w where W: "walkSealed K quietIO (tear ia tail d) a = (w, None)" "walkRep K a logID segs w"
    by (rule walkSealed_rep [OF K historyRep_write [OF b(1) A] b(5)])
  have "openByName quietIO mode idle 2 (tear ia tail d) a = (tear ia tail d, Inr ia)"
    using b(6) by (simp add: numeral_2_eq_2 sameFile_def)
  moreover have "seenTorn K a segs act
      (readActive K quietIO (tear ia tail d) a ia w (readerVerify K quietIO (fileBytes act @ tail)))"
    by (rule readActive_torn [OF R W(2) verifies_torn(1) [OF K R t] refl])
  ultimately show ?thesis
    using that W f
    by (cases "readActive K quietIO (tear ia tail d) a ia w (readerVerify K quietIO (fileBytes act @ tail))")
       (simp add: Read_def seenTorn_def)
qed

section \<open>Writers refuse a torn root\<close>

lemma lockActive_torn:
  assumes K: "hashShaped K" and R: "setRep K a d logID segs act link StateOpen ia"
    and ver: "seesTorn K segs act (verify (dirNode d ia @ tail))"
  obtains v where "lockActive K quietIO idle idle create verify (tear ia tail d) a = (tear ia tail d, v, Inl (tornFault a segs act))"
proof -
  note b = setRep_boundsD [OF R]
  have A: "activeRep K a d segs act link ia" using R by (simp add: setRep_def)
  obtain w where W: "walkSealed K quietIO (tear ia tail d) a = (w, None)" "walkRep K a logID segs w"
    "loadManifest K quietIO (tear ia tail d) a = Inr (swM w)"
    by (rule walkSealed_rep [OF K historyRep_write [OF b(1) A] b(5)])
  have "seenTorn K a segs act (readActive K quietIO (tear ia tail d) a ia w (verify (dirNode d ia @ tail)))"
    by (rule readActive_torn [OF R W(2) ver refl])
  then show ?thesis
    using that W b(6)
    by (cases "readActive K quietIO (tear ia tail d) a ia w (verify (dirNode d ia @ tail))")
       (simp add: lockActive_def numeral_2_eq_2 Let_def sameFile_def seenTorn_def)
qed

lemma torn_refused:
  assumes K: "hashShaped K" and R: "setRep K a d logID segs act link StateOpen ia"
    and t: "tail \<noteq> []" "newline \<notin> set tail"
  shows "\<exists>err. Append K quietIO idle idle ck (tear ia tail d) a e = (tear ia tail d, Inl err)"
    "\<exists>err. SealActive K quietIO idle idle ck crash sink (tear ia tail d) a e = (tear ia tail d, Inl err)"
    "\<exists>err. CompleteSeal K quietIO idle idle ck crash sink (tear ia tail d) a = (tear ia tail d, Inl err)"
proof -
  have f: "dirNode d ia = fileBytes act" using root_chainD [OF R] by simp
  note ver = verifies_torn [OF K R t, folded f]
  obtain v where "lockActive K quietIO idle idle True (writerVerify K quietIO) (tear ia tail d) a
      = (tear ia tail d, v, Inl (tornFault a segs act))" by (rule lockActive_torn [where verify = "writerVerify K quietIO", OF K R ver(2)])
  then have op: "openActive K quietIO idle idle (tear ia tail d) a = (tear ia tail d, v, Inl (tornFault a segs act))"
    by (simp add: openActive_def)
  show "\<exists>err. Append K quietIO idle idle ck (tear ia tail d) a e = (tear ia tail d, Inl err)"
    unfolding Append_def op by (simp split: option.split)
  show "\<exists>err. SealActive K quietIO idle idle ck crash sink (tear ia tail d) a e = (tear ia tail d, Inl err)"
    unfolding SealActive_def op by simp
  obtain v' where "lockActive K quietIO idle idle False (readerVerify K quietIO) (tear ia tail d) a
      = (tear ia tail d, v', Inl (tornFault a segs act))" by (rule lockActive_torn [where verify = "readerVerify K quietIO", OF K R ver(1)])
  then show "\<exists>err. CompleteSeal K quietIO idle idle ck crash sink (tear ia tail d) a = (tear ia tail d, Inl err)"
    by (simp add: CompleteSeal_def completeSealWith_def)
qed

section \<open>A torn root is repaired\<close>

lemma freshFile_after_tear:
  assumes "ia < dirNext d"
  shows "writeNode ia (dirNode d ia) (freshFile n b (tear ia tail d)) = freshFile n b d"
proof -
  have "(dirNode d)(ia := y, dirNext d := b, ia := dirNode d ia) = (dirNode d)(dirNext d := b)" for y
    using assms by (intro ext) auto
  then show ?thesis by (simp add: writeNode_def freshFile_def linkName_def)
qed

lemma setRep_fragment:
  assumes R: "setRep K a d logID segs act link StateOpen ia"
  shows "setRep K a (freshFile (tornName a u k) b d) logID segs act link StateOpen ia"
proof -
  have wf: "wfDir d" using R by (simp add: setRep_def historyRep_def)
  have ia: "ia < dirNext d" using wfDir_inode [OF wf] setRep_boundsD(6) [OF R] by blast
  have c: "contents (freshFile (tornName a u k) b d) (ManifestPath a) = contents d (ManifestPath a)"
    "contents (freshFile (tornName a u k) b d) (SegmentPath a i) = contents d (SegmentPath a i)" for i
    by (simp_all add: contents_freshFile [OF wf])
  have "siblingSet (freshFile (tornName a u k) b d) a m = siblingSet d a m" for m by (rule siblingSet_fresh) simp
  with R ia show ?thesis
    by (auto simp: setRep_def historyRep_def filesRep_def manifestRep_def activeRep_def c)
qed

lemma sealToComplete_none: "noSeal K active \<Longrightarrow> sealToComplete K v active = Inr None"
proof -
  have "noSeal K rs \<Longrightarrow> sealFrom K v active i rs = Inr None" for i rs
    by (induction rs arbitrary: i) (auto simp: noSeal_def)
  then show "noSeal K active \<Longrightarrow> sealToComplete K v active = Inr None" by (simp add: sealToComplete_def)
qed

lemma hasSuffix_last: "act \<noteq> [] \<Longrightarrow> hasSuffix (fileBytes act) (last act @ [newline])"
  by (cases act rule: rev_cases) (auto simp: hasSuffix_def)

lemma Repair_torn:
  assumes K: "hashShaped K" and R: "setRep K a d logID segs act link StateOpen ia"
    and t: "tail \<noteq> []" "newline \<notin> set tail"
  shows "Repair K quietIO idle idle ck crash sink (tear ia tail d) a op assertedAs witness =
    (case moveTailAside K quietIO idle ck a (int (length (fileBytes act))) act (tear ia tail d) of
       (d, Inl e) \<Rightarrow> (d, Inl e)
     | (d, Inr res) \<Rightarrow> appendRepair K quietIO idle idle ck a res op assertedAs witness d)"
proof -
  obtain v where v: "Read K quietIO Locked idle (tear ia tail d) a = (tear ia tail d, v, Some (tornFault a segs act))"
    "activeRecords v = act" by (rule Read_torn [OF K R t, where mode = Locked])
  have "sealToComplete K v act = Inr None" by (rule sealToComplete_none) (use R in \<open>simp add: setRep_def\<close>)
  then show ?thesis unfolding Repair_def v(1) by (simp add: tornFault_def setError_def v(2))
qed

lemma tear_fragment:
  assumes "ia < dirNext d"
  shows "freshFile n b (tear ia tail d) = tear ia tail (freshFile n b d)"
proof -
  have "(dirNode d)(ia := y, dirNext d := b) = (dirNode d)(dirNext d := b, ia := y)" for y
    using assms by (intro ext) auto
  then show ?thesis using assms by (simp add: writeNode_def freshFile_def linkName_def)
qed

lemma appendRepair_cases:
  assumes K: "goodCodec K" and ck: "goodClock ck" and R: "setRep K a d logID segs act link StateOpen ia"
    and lt: "ia < dirNext d" and free: "inodeOf d (tornName a u k) = None" and len: "length (concat segs @ act) + 1 < seqMax"
  obtains (unrecorded) err where
      "appendRepair K quietIO idle idle ck a r op assertedAs witness (freshFile (tornName a u k) b d) = (freshFile (tornName a u k) b d, Inl err)"
  | (cut) err tail' where "ckWrite ck \<noteq> WriteOk" "tail' \<noteq> []" "newline \<notin> set tail'"
      "appendRepair K quietIO idle idle ck a r op assertedAs witness (freshFile (tornName a u k) b d)
         = (tear ia tail' (freshFile (tornName a u k) b d), Inl err)"
  | (recorded) l logID' d' res where
      "appendRepair K quietIO idle idle ck a r op assertedAs witness (freshFile (tornName a u k) b d) = (d', res)"
      "res = Inr r \<or> ckWrite ck \<noteq> WriteOk \<and> (\<exists>err. res = Inl err)" "contents d' (tornName a u k) = Some b"
      "decodesTo K ck (concat segs @ act) (repairEvent r op assertedAs witness) l"
      "setRep K a d' logID' segs (act @ [l]) link StateOpen ia" "concat segs @ act \<noteq> [] \<longrightarrow> logID' = logID"
proof -
  let ?n = "tornName a u k" and ?e = "repairEvent r op assertedAs witness"
  let ?d = "freshFile ?n b d"
  have R1: "setRep K a ?d logID segs act link StateOpen ia" by (rule setRep_fragment [OF R])
  have f: "dirNode d ia = fileBytes act" "ia \<noteq> dirNext d" using root_chainD [OF R] lt by simp_all
  have ne: "\<not> sealing ?e" and ret: "retains ck ?e" by (simp_all add: sealing_def retains_def repairEvent_def)
  show ?thesis
  proof (rule Append_cases [OF K ck R1 ret len])
    fix err
    assume "Append K quietIO idle idle ck ?d a ?e = (?d, Inl err)"
    then show ?thesis by (intro unrecorded) (simp add: appendRepair_def)
  next
    fix err tail'
    assume "ckWrite ck \<noteq> WriteOk" "tail' \<noteq> []" "newline \<notin> set tail'"
      "Append K quietIO idle idle ck ?d a ?e = (writeNode ia (fileBytes act @ tail') ?d, Inl err)"
    then show ?thesis by (intro cut [of tail' err]) (simp_all add: appendRepair_def f)
  next
    fix l logID' res
    assume n: "nextLine K ck (concat segs) act ?e l"
      and A: "Append K quietIO idle idle ck ?d a ?e = (writeNode ia (fileBytes (act @ [l])) ?d, res)"
        "res = Inr (logicalHead K (concat segs @ act @ [l])) \<or> ckWrite ck \<noteq> WriteOk \<and> (\<exists>err. res = Inl err)"
      and R2: "setRep K a (writeNode ia (fileBytes (act @ [l])) ?d) logID' segs (act @ [l]) link
           (if sealing ?e then StateSealedNotRotated else StateOpen) ia" "concat segs @ act \<noteq> [] \<longrightarrow> logID' = logID"
    have c: "contents (writeNode ia (fileBytes (act @ [l])) ?d) ?n = Some b" using lt by (simp add: contents_def)
    have "decodesTo K ck (concat segs @ act) ?e l" using n by (simp add: nextLine_def)
    with A R2 c ne show ?thesis
      by (intro recorded [of "writeNode ia (fileBytes (act @ [l])) ?d" "case res of Inl e \<Rightarrow> Inl e | Inr _ \<Rightarrow> Inr r" l logID'])
         (auto simp: appendRepair_def)
  qed
qed

text \<open>
  What a repair of a torn root leaves, by where it stops: the torn root, with or without a copy of the tail in a
  new file; the root without the tail, which is in a new file, with no repair record, a cut one, or a
  whole one.
\<close>

lemma Repair_torn_cases:
  assumes K: "goodCodec K" and ck: "goodClock ck" and R: "setRep K a d logID segs act link StateOpen ia"
    and t: "tail \<noteq> []" "newline \<notin> set tail" and len: "length (concat segs @ act) + 1 < seqMax"
    and rep: "Repair K quietIO idle idle ck crash sink (tear ia tail d) a op assertedAs witness = (d', res)"
  obtains (stopped) err where "res = Inl err" "d' = tear ia tail d"
  | (copied) err k b where "res = Inl err" "d' = freshFile (tornName a (ckUnix ck) k) b (tear ia tail d)"
  | (unrecorded) err k where "res = Inl err" "d' = freshFile (tornName a (ckUnix ck) k) tail d"
  | (cut) err k tail' where "res = Inl err" "ckWrite ck \<noteq> WriteOk" "tail' \<noteq> []" "newline \<notin> set tail'"
      "d' = tear ia tail' (freshFile (tornName a (ckUnix ck) k) tail d)"
  | (recorded) k l logID' r where "res = Inr r \<or> ckWrite ck \<noteq> WriteOk \<and> (\<exists>err. res = Inl err)"
      "rrFragmentLen r = int (length tail)" "rrFragmentSHA r = kHash K tail"
      "inodeOf d (tornName a (ckUnix ck) k) = None" "contents d' (tornName a (ckUnix ck) k) = Some tail"
      "decodesTo K ck (concat segs @ act) (repairEvent r op assertedAs witness) l"
      "setRep K a d' logID' segs (act @ [l]) link StateOpen ia" "concat segs @ act \<noteq> [] \<longrightarrow> logID' = logID"
proof -
  have h: "hashShaped K" by (rule goodCodec_hash [OF K])
  have f: "dirNode d ia = fileBytes act" using root_chainD [OF R] by simp
  have wf: "wfDir d" and ino: "inodeOf d a = Some ia" using R by (simp_all add: setRep_def historyRep_def activeRep_def)
  have lt: "ia < dirNext d" by (rule wfDir_inode [OF wf ino])
  obtain d1 r1 where m: "moveTailAside K quietIO idle ck a (int (length (fileBytes act))) act (tear ia tail d) = (d1, r1)"
    by fastforce
  note rep' = rep [unfolded Repair_torn [OF h R t] m prod.case]
  from m show ?thesis
  proof (rule moveTailAside_outcome)
    fix err
    assume "r1 = Inl err" "d1 = tear ia tail d \<or> d1 = idle 0 (tear ia tail d)"
    with rep' show ?thesis by (intro stopped) auto
  next
    fix err k b
    assume "r1 = Inl err" "addsFile (idle 0 (tear ia tail d)) (tornName a (ckUnix ck) k) b d1"
    with rep' show ?thesis by (intro copied) (auto simp: addsFile_def)
  next
    fix ino' k
    let ?n = "tornName a (ckUnix ck) k"
    let ?r = "\<lparr>rrFragmentLen = int (length tail), rrFragmentSHA = kHash K tail, rrCompletedSegment = 0\<rparr>"
    assume i: "inodeOf (idle 0 (tear ia tail d)) a = Some ino'" and free: "inodeOf (idle 0 (tear ia tail d)) ?n = None"
      and d1: "d1 = writeNode ino' (take (nat (int (length (fileBytes act)))) (dirNode (idle 0 (tear ia tail d)) ino'))
              (freshFile ?n (drop (nat (int (length (fileBytes act)))) (dirNode (idle 0 (tear ia tail d)) ino'))
                (idle 0 (tear ia tail d)))"
      and r1: "r1 = Inr \<lparr>rrFragmentLen = int (length (drop (nat (int (length (fileBytes act)))) (dirNode (idle 0 (tear ia tail d)) ino'))),
                  rrFragmentSHA = kHash K (drop (nat (int (length (fileBytes act)))) (dirNode (idle 0 (tear ia tail d)) ino')),
                  rrCompletedSegment = 0\<rparr> \<or> (\<exists>err. r1 = Inl err)"
    from i ino have "ino' = ia" by simp
    then have d1': "d1 = freshFile ?n tail d" and r1': "r1 = Inr ?r \<or> (\<exists>err. r1 = Inl err)"
      using d1 r1 freshFile_after_tear [OF lt, of ?n tail tail] by (simp_all add: f)
    have free': "inodeOf d ?n = None" using free by simp
    show ?thesis
    proof (cases r1)
      case (Inl err)
      with rep' d1' show ?thesis by (intro unrecorded) auto
    next
      case (Inr x)
      with r1' have x: "r1 = Inr ?r" by auto
      show ?thesis
      proof (rule appendRepair_cases [OF K ck R lt free' len, where r = ?r and op = op and assertedAs = assertedAs and witness = witness])
        fix err
        assume "appendRepair K quietIO idle idle ck a ?r op assertedAs witness (freshFile ?n tail d) = (freshFile ?n tail d, Inl err)"
        with rep' x d1' show ?thesis by (intro unrecorded) auto
      next
        fix err tail'
        assume "ckWrite ck \<noteq> WriteOk" "tail' \<noteq> []" "newline \<notin> set tail'"
          "appendRepair K quietIO idle idle ck a ?r op assertedAs witness (freshFile ?n tail d) = (tear ia tail' (freshFile ?n tail d), Inl err)"
        with rep' x d1' show ?thesis by (intro cut) auto
      next
        fix l logID' d2 res2
        assume "appendRepair K quietIO idle idle ck a ?r op assertedAs witness (freshFile ?n tail d) = (d2, res2)"
          and o: "res2 = Inr ?r \<or> ckWrite ck \<noteq> WriteOk \<and> (\<exists>err. res2 = Inl err)"
          "contents d2 ?n = Some tail" "decodesTo K ck (concat segs @ act) (repairEvent ?r op assertedAs witness) l"
          "setRep K a d2 logID' segs (act @ [l]) link StateOpen ia" "concat segs @ act \<noteq> [] \<longrightarrow> logID' = logID"
        with rep' x d1' have "d' = d2" "res = res2" by auto
        then show ?thesis by (intro recorded [of ?r k l logID']) (use o free' in simp_all)
      qed
    qed
  qed
qed

text \<open>A repair of a root that is not torn changes nothing.\<close>

lemma Repair_clean:
  assumes "hashShaped K" "setRep K a d logID segs act link st ia"
  shows "\<exists>err. Repair K quietIO idle idle ck crash sink d a op assertedAs witness = (d, Inl err)"
  unfolding Repair_def Read_root [OF assms] by simp

end
