(* ===== verification/Control_Root.thy ===== *)
theory Control_Root
  imports Control_Torn
begin

text \<open>
  The control ledger as a state machine. A state is the directory; a step is an append, a seal
  stopped at any point, the completion of an interrupted rotation or a repair, with any event, clock
  and sink, and with writes that may be cut or fail after any byte. The abstract specification is a
  list of records that only grows; every reachable directory represents one, and \<open>Read\<close> returns it,
  with a torn tail reported when the last write was cut.
\<close>

section \<open>One logical chain\<close>

lemma chainFrom_shift:
  "chainFrom unm H (base + of_nat k) mode i prev rs = chainFrom unm H base mode (i + k) prev rs"
  by (induction rs arbitrary: i prev) (simp_all add: add_ac)

lemma chainAt_from:
  "chainAt K ps rs \<Longrightarrow> chainFrom (kUnm K) (kHash K) 0 True (length ps) (headFrom (kHash K) '''' ps) rs"
  using chainFrom_shift [of "kUnm K" "kHash K" 0 "length ps" True 0] by (simp add: validChain_def)

lemma validChain_append:
  assumes "validChain (kUnm K) (kHash K) zeroStart True ps" "chainAt K ps rs"
  shows "validChain (kUnm K) (kHash K) zeroStart True (ps @ rs)"
  using assms chainAt_from [OF assms(2)]
  by (cases rs) (auto simp: validChain_def chainFrom_append)

lemma segments_chain:
  assumes "validChain (kUnm K) (kHash K) zeroStart True ps" "segmentsOK K ps k segs"
  shows "validChain (kUnm K) (kHash K) zeroStart True (ps @ concat segs)"
  using assms
proof (induction segs arbitrary: ps k)
  case (Cons seg segs)
  then have "validChain (kUnm K) (kHash K) zeroStart True (ps @ seg)"
    by (intro validChain_append) (auto simp: segmentOK_def)
  with Cons show ?case by fastforce
qed simp

text \<open>The whole set verifies as the one file its records would make.\<close>

lemma root_single_chain:
  assumes "setRep K a d logID segs act link st ia"
  shows "validChain (kUnm K) (kHash K) zeroStart True (concat segs @ act)"
proof -
  have "validChain (kUnm K) (kHash K) zeroStart True ([] @ concat segs)"
    by (rule segments_chain [where k = 0]) (use assms in \<open>auto simp: setRep_def historyRep_def validChain_def\<close>)
  then show ?thesis
    using assms by (cases st) (auto simp: setRep_def activeRep_def intro: validChain_append)
qed

section \<open>The state machine\<close>

definition recordsOf :: "codec \<Rightarrow> bytes \<Rightarrow> directory \<Rightarrow> bytes list" where
  "recordsOf K a d = vRecords (fst (snd (Read K quietIO Unlocked idle d a)))"

definition stateOf :: "codec \<Rightarrow> bytes \<Rightarrow> directory \<Rightarrow> State" where
  "stateOf K a d = vState (fst (snd (Read K quietIO Unlocked idle d a)))"

definition sealedCount :: "codec \<Rightarrow> bytes \<Rightarrow> directory \<Rightarrow> nat" where
  "sealedCount K a d = length (vSealed (fst (snd (Read K quietIO Unlocked idle d a))))"

text \<open>Room for one more record and one more segment: seq stays an \<open>int\<close>, ordinals keep six digits.\<close>

definition roomy :: "codec \<Rightarrow> bytes \<Rightarrow> directory \<Rightarrow> bool" where
  "roomy K a d \<longleftrightarrow> length (recordsOf K a d) + 1 < seqMax \<and> sealedCount K a d + 1 < ordinalMax"

inductive controlStep :: "codec \<Rightarrow> bytes \<Rightarrow> directory \<Rightarrow> directory \<Rightarrow> bool" for K :: codec and a :: bytes where
  step_append: "goodCodec K \<Longrightarrow> roomy K a d \<Longrightarrow> goodClock ck \<Longrightarrow> retains ck e \<Longrightarrow>
     Append K quietIO idle idle ck d a e = (d', res) \<Longrightarrow> controlStep K a d d'"
| step_seal: "goodCodec K \<Longrightarrow> roomy K a d \<Longrightarrow> goodClock ck \<Longrightarrow> sinkRetains ck sink \<Longrightarrow>
     SealActive K quietIO idle idle ck crash sink d a e = (d', sres) \<Longrightarrow> controlStep K a d d'"
| step_complete: "goodCodec K \<Longrightarrow> roomy K a d \<Longrightarrow>
     CompleteSeal K quietIO idle idle ck crash sink d a = (d', sres) \<Longrightarrow> controlStep K a d d'"
| step_repair: "goodCodec K \<Longrightarrow> roomy K a d \<Longrightarrow> goodClock ck \<Longrightarrow>
     Repair K quietIO idle idle ck crash sink d a op assertedAs witness = (d', rres) \<Longrightarrow> controlStep K a d d'"

inductive_cases controlStepE: "controlStep K a d d'"

definition rootInv :: "codec \<Rightarrow> bytes \<Rightarrow> directory \<Rightarrow> bool" where
  "rootInv K a d \<longleftrightarrow>
     absentRoot a d \<or> (\<exists>logID rs st n. rootHas K a d logID rs st n) \<or> (\<exists>logID rs n. tornHas K a d logID rs n)"

lemma absent_read:
  assumes "absentRoot a d"
  shows "Read K quietIO mode idle d a = (d, noView, Some NotExist)"
proof -
  obtain ks where "listSiblings quietIO d a = Inr (map (\<lambda>k. (k, SegmentPath a k)) ks)" "set ks = {1..0}"
    by (rule listSiblings_set [where m = 0]) (use assms in \<open>auto simp: absentRoot_def\<close>)
  then have "hasHistory quietIO d a = Inr False"
    using assms by (auto simp: hasHistory_def absentRoot_def siblingNames_def siblingSet_def set_ReadDir filter_empty_conv)
  with assms show ?thesis by (simp add: Read_def absentRoot_def numeral_2_eq_2)
qed

lemma rootHas_read:
  assumes "hashShaped K" "rootHas K a d logID rs st n"
  obtains v where "Read K quietIO mode idle d a = (d, v, None)" "vRecords v = rs" "vState v = st"
    "length (vSealed v) = n" "vHead v = logicalHead K rs"
  using assms(2) unfolding rootHas_def
  by (elim exE conjE) (rule that, erule Read_root [OF assms(1)], simp_all add: rootView_def logicalHead_def)

lemma rootHas_facts:
  assumes "hashShaped K" "rootHas K a d logID rs st n"
  shows "recordsOf K a d = rs" "stateOf K a d = st" "sealedCount K a d = n"
  by (rule rootHas_read [OF assms, where mode = Unlocked];
      simp add: recordsOf_def stateOf_def sealedCount_def)+

text \<open>What a read says of a cut write: the bytes after the last record of the active, which hold no newline.\<close>

definition cutTail :: "directory \<Rightarrow> bytes \<Rightarrow> View \<Rightarrow> control_error \<Rightarrow> bool" where
  "cutTail d a v e \<longleftrightarrow>
     (\<exists>f tail. e = SetFault f \<and> seFault f = FaultTorn \<and> seSegment f = 0 \<and> tail \<noteq> [] \<and> newline \<notin> set tail
        \<and> contents d a = Some (fileBytes (activeRecords v) @ tail))"

lemma tornHas_read:
  assumes "hashShaped K" "tornHas K a d logID rs n"
  obtains v e where "Read K quietIO mode idle d a = (d, v, Some e)" "cutTail d a v e" "vRecords v = rs" "vState v = StateOpen"
    "length (vSealed v) = n" "vHead v = logicalHead K rs"
proof -
  obtain d0 segs act link ia tail where R: "setRep K a d0 logID segs act link StateOpen ia" and rs: "rs = concat segs @ act"
    and n: "n = length segs" and t: "tail \<noteq> []" "newline \<notin> set tail" and d: "d = tear ia tail d0"
    using assms(2) unfolding tornHas_def by blast
  obtain v where v: "Read K quietIO mode idle (tear ia tail d0) a = (tear ia tail d0, v, Some (tornFault a segs act))"
    "vRecords v = concat segs @ act" "activeRecords v = act" "length (vSealed v) = length segs" "vState v = StateOpen"
    "vHead v = logicalHead K (concat segs @ act)"
    by (rule Read_torn [OF assms(1) R t])
  have "contents d a = Some (fileBytes act @ tail)"
    using setRep_boundsD(6) [OF R] root_chainD [OF R] by (simp add: d contents_def)
  then have "cutTail d a v (tornFault a segs act)"
    using t v(3) by (auto simp: cutTail_def tornFault_def setError_def)
  with that v show ?thesis unfolding d rs n by blast
qed

lemma tornHas_facts:
  assumes "hashShaped K" "tornHas K a d logID rs n"
  shows "recordsOf K a d = rs" "stateOf K a d = StateOpen" "sealedCount K a d = n"
  by (rule tornHas_read [OF assms, where mode = Unlocked];
      simp add: recordsOf_def stateOf_def sealedCount_def)+

lemma tornHas_refuses:
  assumes "hashShaped K" "tornHas K a d logID rs n"
  shows "\<exists>err. Append K quietIO idle idle ck d a e = (d, Inl err)"
    "\<exists>err. SealActive K quietIO idle idle ck crash sink d a e = (d, Inl err)"
    "\<exists>err. CompleteSeal K quietIO idle idle ck crash sink d a = (d, Inl err)"
proof -
  obtain d0 segs act link ia tail where R: "setRep K a d0 logID segs act link StateOpen ia" "tail \<noteq> []" "newline \<notin> set tail"
    and d: "d = tear ia tail d0" using assms(2) unfolding tornHas_def by blast
  note r = torn_refused [OF assms(1) R]
  show "\<exists>err. Append K quietIO idle idle ck d a e = (d, Inl err)"
    "\<exists>err. SealActive K quietIO idle idle ck crash sink d a e = (d, Inl err)"
    "\<exists>err. CompleteSeal K quietIO idle idle ck crash sink d a = (d, Inl err)"
    unfolding d by (rule r)+
qed

lemma absent_facts:
  assumes "absentRoot a d"
  shows "recordsOf K a d = []" "stateOf K a d = StateOpen" "sealedCount K a d = 0"
  by (simp_all add: recordsOf_def stateOf_def sealedCount_def absent_read [OF assms] noView_def)

text \<open>An operation that opens the active sees a missing root as a fresh, empty one.\<close>

lemma fresh_facts:
  assumes "hashShaped K" "absentRoot a d"
  shows "rootHas K a (freshFile a [] d) logID [] StateOpen 0"
  using rootHasI [OF freshRoot [OF assms(2)]] by simp

lemma Append_absent:
  assumes "hashShaped K" "absentRoot a d" "appendPermit (kURL K) e = None"
  shows "Append K quietIO idle idle ck d a e = Append K quietIO idle idle ck (freshFile a [] d) a e"
  using assms by (simp add: Append_def openActive_absent)

lemma Append_refused: "appendPermit (kURL K) e = Some m \<Longrightarrow> Append K io r r' ck d a e = (d, Inl (Refused m))"
  by (simp add: Append_def)

lemma SealActive_absent:
  assumes "hashShaped K" "absentRoot a d"
  shows "SealActive K quietIO idle idle ck crash sink d a e = (d, Inl (Refused ''SealActive takes a success seal event without a payload''))
    \<or> SealActive K quietIO idle idle ck crash sink d a e = SealActive K quietIO idle idle ck crash sink (freshFile a [] d) a e"
proof (cases "ceAction e \<noteq> ''seal'' \<or> ceOutcome e \<noteq> ''success'' \<or> ceSeal e \<noteq> None")
  case True
  then show ?thesis by (simp add: SealActive_def)
next
  case False
  then show ?thesis unfolding SealActive_def openActive_absent [OF assms] by (simp only: if_False simp_thms)
qed

lemma CompleteSeal_absent:
  assumes "absentRoot a d"
  shows "CompleteSeal K quietIO idle idle ck crash sink d a = (d, Inl NotExist)"
proof -
  have "hasHistory quietIO d a = Inr False"
    using assms
    by (auto simp: hasHistory_def absentRoot_def siblingNames_def siblingSet_def set_ReadDir filter_empty_conv)
  moreover have "walkSealed K quietIO d a = (emptyWalk, None)"
    using assms by (simp add: walkSealed_def loadManifest_def Let_def contents_def absentRoot_def)
  ultimately show ?thesis
    using assms by (simp add: CompleteSeal_def completeSealWith_def lockActive_def numeral_2_eq_2 Let_def absentRoot_def)
qed

lemma Repair_absent:
  assumes "absentRoot a d"
  shows "Repair K quietIO idle idle ck crash sink d a op assertedAs witness = (d, Inl NotExist)"
  by (simp add: Repair_def absent_read [OF assms])

section \<open>What each operation does to the log\<close>

lemma Append_has:
  assumes K: "goodCodec K" and ck: "goodClock ck" and e: "retains ck e" and H: "rootHas K a d logID rs st n"
    and len: "length rs + 1 < seqMax" and ap: "Append K quietIO idle idle ck d a e = (d', res)"
  obtains (unchanged) err where "d' = d" "res = Inl err"
  | (torn) err where "res = Inl err" "ckWrite ck \<noteq> WriteOk" "tornHas K a d' logID rs n"
  | (recorded) l logID' where "res = Inr (logicalHead K (rs @ [l])) \<or> ckWrite ck \<noteq> WriteOk \<and> (\<exists>err. res = Inl err)"
      "st = StateOpen" "decodesTo K ck rs e l"
      "rootHas K a d' logID' (rs @ [l]) (if sealing e then StateSealedNotRotated else StateOpen) n"
proof -
  from H obtain segs act link ia where R: "setRep K a d logID segs act link st ia" and rs: "rs = concat segs @ act"
    and n: "n = length segs" by (auto simp: rootHas_def)
  have len': "length (concat segs @ act) + 1 < seqMax" using len rs by simp
  show ?thesis
  proof (rule Append_cases [OF K ck R e len'])
    fix err
    assume "Append K quietIO idle idle ck d a e = (d, Inl err)"
    with ap show ?thesis using unchanged by auto
  next
    fix err tail
    assume st: "st = StateOpen" and w: "ckWrite ck \<noteq> WriteOk" and t: "tail \<noteq> []" "newline \<notin> set tail"
      and A: "Append K quietIO idle idle ck d a e = (writeNode ia (fileBytes act @ tail) d, Inl err)"
    from tornHasI [OF R [unfolded st] t] have "tornHas K a d' logID rs n" using ap A rs n by simp
    with w show ?thesis using torn [of err] ap A by simp
  next
    fix l logID' r
    assume st: "st = StateOpen" and nl: "nextLine K ck (concat segs) act e l"
      and A: "Append K quietIO idle idle ck d a e = (writeNode ia (fileBytes (act @ [l])) d, r)"
        "r = Inr (logicalHead K (concat segs @ act @ [l])) \<or> ckWrite ck \<noteq> WriteOk \<and> (\<exists>err. r = Inl err)"
      and R': "setRep K a (writeNode ia (fileBytes (act @ [l])) d) logID' segs (act @ [l]) link
         (if sealing e then StateSealedNotRotated else StateOpen) ia"
    show ?thesis
      by (rule recorded [of l logID']) (use st nl A rootHasI [OF R'] ap rs n in \<open>simp_all add: nextLine_def\<close>)
  qed
qed

lemma SealActive_has:
  assumes K: "goodCodec K" and ck: "goodClock ck" and sk: "sinkRetains ck sink" and H: "rootHas K a d logID rs st n"
    and len: "length rs + 1 < seqMax" "n + 1 < ordinalMax"
  shows "sealEnd K (ckWrite ck) a logID rs st n (SealActive K quietIO idle idle ck crash sink d a e)"
proof -
  from H obtain segs act link ia where "setRep K a d logID segs act link st ia" "rs = concat segs @ act" "n = length segs"
    by (auto simp: rootHas_def)
  with SealActive_end [OF K ck sk] len show ?thesis by simp
qed

lemma CompleteSeal_has:
  assumes K: "goodCodec K" and H: "rootHas K a d logID rs st n" and len: "n + 1 < ordinalMax"
  shows "completeEnd K a logID rs st n (CompleteSeal K quietIO idle idle ck crash sink d a)"
proof -
  from H obtain segs act link ia where "setRep K a d logID segs act link st ia" "rs = concat segs @ act" "n = length segs"
    by (auto simp: rootHas_def)
  with completeSealWith_end [OF K] len show ?thesis by (simp add: CompleteSeal_def)
qed

definition logExtends :: "bytes list \<Rightarrow> bytes list \<Rightarrow> bool" where
  "logExtends rs rs' \<longleftrightarrow> rs' = rs \<or> (\<exists>l. rs' = rs @ [l])"

text \<open>A directory that represents records extending \<open>rs\<close> by at most one.\<close>

definition rootExtends :: "codec \<Rightarrow> bytes \<Rightarrow> bytes list \<Rightarrow> directory \<Rightarrow> bool" where
  "rootExtends K a rs d \<longleftrightarrow>
     absentRoot a d \<and> rs = [] \<or> (\<exists>logID rs' st n. rootHas K a d logID rs' st n \<and> logExtends rs rs')
     \<or> (\<exists>logID n. tornHas K a d logID rs n)"

lemma rootExtendsI:
  "rootHas K a d logID rs st n \<Longrightarrow> rootExtends K a rs d"
  "rootHas K a d logID (rs @ [l]) st n \<Longrightarrow> rootExtends K a rs d"
  "tornHas K a d logID rs n \<Longrightarrow> rootExtends K a rs d"
  unfolding rootExtends_def logExtends_def by blast+

lemma sealEnd_extends: "sealEnd K io a logID rs st n res \<Longrightarrow> rootExtends K a rs (fst res)"
  by (cases "snd res") (auto simp: sealEnd_def rotationEnd_def intro: rootExtendsI)

lemma completeEnd_extends: "completeEnd K a logID rs st n res \<Longrightarrow> rootExtends K a rs (fst res)"
  by (cases "snd res"; cases st) (auto simp: completeEnd_def rotationEnd_def intro: rootExtendsI)

lemma Repair_torn_extends:
  assumes K: "goodCodec K" and ck: "goodClock ck" and R: "setRep K a d logID segs act link StateOpen ia"
    and t: "tail \<noteq> []" "newline \<notin> set tail" and len: "length (concat segs @ act) + 1 < seqMax"
    and rep: "Repair K quietIO idle idle ck crash sink (tear ia tail d) a op assertedAs witness = (d', res)"
  shows "rootExtends K a (concat segs @ act) d'"
proof -
  have lt: "ia < dirNext d" using wfDir_inode setRep_boundsD(6) [OF R] R by (auto simp: setRep_def historyRep_def)
  have torn: "rootExtends K a (concat segs @ act) (tear ia tail' d0)"
    if "setRep K a d0 logID segs act link StateOpen ia" "tail' \<noteq> []" "newline \<notin> set tail'" for d0 tail'
    by (rule rootExtendsI(3) [of K a _ logID _ "length segs"]) (use that in \<open>unfold tornHas_def, blast\<close>)
  from K ck R t len rep show ?thesis
  proof (rule Repair_torn_cases)
    fix err
    assume "d' = tear ia tail d"
    with torn [OF R t] show ?thesis by simp
  next
    fix err k b
    assume "d' = freshFile (tornName a (ckUnix ck) k) b (tear ia tail d)"
    with torn [OF setRep_fragment [OF R] t] show ?thesis by (simp only: tear_fragment [OF lt])
  next
    fix err k
    assume "d' = freshFile (tornName a (ckUnix ck) k) tail d"
    with rootExtendsI(1) [OF rootHasI [OF setRep_fragment [OF R]]] show ?thesis by simp
  next
    fix err k tail'
    assume "tail' \<noteq> []" "newline \<notin> set tail'" "d' = tear ia tail' (freshFile (tornName a (ckUnix ck) k) tail d)"
    with torn [OF setRep_fragment [OF R]] show ?thesis by simp
  next
    fix k l logID' r
    assume "setRep K a d' logID' segs (act @ [l]) link StateOpen ia"
    from rootHasI [OF this] show ?thesis by (intro rootExtendsI(2)) simp
  qed
qed

lemma step_from_root:
  assumes "controlStep K a d d'" and H: "rootHas K a d logID rs st n"
  shows "rootExtends K a rs d'"
  using assms(1)
proof (rule controlStepE)
  fix ck e res
  assume K: "goodCodec K" and r: "roomy K a d" and ck: "goodClock ck" and e: "retains ck e"
    and ap: "Append K quietIO idle idle ck d a e = (d', res)"
  then have len: "length rs + 1 < seqMax" using rootHas_facts [OF goodCodec_hash [OF K] H] by (simp add: roomy_def)
  show ?thesis
    by (rule Append_has [OF K ck e H len ap]) (use H in \<open>auto intro: rootExtendsI\<close>)
next
  fix ck sink crash e sres
  assume K: "goodCodec K" and r: "roomy K a d" and ck: "goodClock ck" and sk: "sinkRetains ck sink"
    and s: "SealActive K quietIO idle idle ck crash sink d a e = (d', sres)"
  then have "length rs + 1 < seqMax" "n + 1 < ordinalMax"
    using rootHas_facts [OF goodCodec_hash [OF K] H] by (simp_all add: roomy_def)
  from sealEnd_extends [OF SealActive_has [OF K ck sk H this, of crash e]] s show ?thesis by simp
next
  fix ck crash sink sres
  assume K: "goodCodec K" and r: "roomy K a d" and c: "CompleteSeal K quietIO idle idle ck crash sink d a = (d', sres)"
  then have "n + 1 < ordinalMax" using rootHas_facts [OF goodCodec_hash [OF K] H] by (simp add: roomy_def)
  from completeEnd_extends [OF CompleteSeal_has [OF K H this, of ck crash sink]] c show ?thesis by simp
next
  fix ck crash sink op assertedAs witness rres
  assume K: "goodCodec K" and rep: "Repair K quietIO idle idle ck crash sink d a op assertedAs witness = (d', rres)"
  from H obtain segs act link ia where "setRep K a d logID segs act link st ia" by (auto simp: rootHas_def)
  from Repair_clean [OF goodCodec_hash [OF K] this, of ck crash sink op assertedAs witness] rep have "d' = d" by auto
  with H show ?thesis by (simp add: rootExtendsI)
qed

lemma step_from_torn:
  assumes "controlStep K a d d'" and T: "tornHas K a d logID rs n"
  shows "rootExtends K a rs d'"
  using assms(1)
proof (rule controlStepE)
  fix ck e res
  assume K: "goodCodec K" and "Append K quietIO idle idle ck d a e = (d', res)"
  with tornHas_refuses(1) [OF goodCodec_hash [OF K] T, of ck e] T show ?thesis by (auto intro: rootExtendsI)
next
  fix ck sink crash e sres
  assume K: "goodCodec K" and "SealActive K quietIO idle idle ck crash sink d a e = (d', sres)"
  with tornHas_refuses(2) [OF goodCodec_hash [OF K] T, of ck crash sink e] T show ?thesis by (auto intro: rootExtendsI)
next
  fix ck crash sink sres
  assume K: "goodCodec K" and "CompleteSeal K quietIO idle idle ck crash sink d a = (d', sres)"
  with tornHas_refuses(3) [OF goodCodec_hash [OF K] T, of ck crash sink] T show ?thesis by (auto intro: rootExtendsI)
next
  fix ck crash sink op assertedAs witness rres
  assume K: "goodCodec K" and ro: "roomy K a d" and ck: "goodClock ck"
    and rep: "Repair K quietIO idle idle ck crash sink d a op assertedAs witness = (d', rres)"
  obtain d0 segs act link ia tail where R: "setRep K a d0 logID segs act link StateOpen ia" and rs: "rs = concat segs @ act"
    and t: "tail \<noteq> []" "newline \<notin> set tail" and d: "d = tear ia tail d0" using T unfolding tornHas_def by blast
  have "length (concat segs @ act) + 1 < seqMax"
    using ro tornHas_facts [OF goodCodec_hash [OF K] T] rs by (simp add: roomy_def)
  from Repair_torn_extends [OF K ck R t this rep [unfolded d]] rs show ?thesis by simp
qed

lemma step_from_absent:
  assumes "controlStep K a d d'" and ab: "absentRoot a d"
  shows "rootExtends K a [] d'"
  using assms(1)
proof (rule controlStepE)
  fix ck e res
  assume K: "goodCodec K" and r: "roomy K a d" and ck: "goodClock ck" and e: "retains ck e"
    and ap: "Append K quietIO idle idle ck d a e = (d', res)"
  note F = fresh_facts [OF goodCodec_hash [OF K] ab, of "''''"]
  show ?thesis
  proof (cases "appendPermit (kURL K) e")
    case None
    with ap have ap': "Append K quietIO idle idle ck (freshFile a [] d) a e = (d', res)"
      using Append_absent [OF goodCodec_hash [OF K] ab] by simp
    show ?thesis
      by (rule Append_has [OF K ck e F _ ap']) (use F in \<open>auto simp: seqMax_def intro: rootExtendsI\<close>)
  next
    case (Some m)
    then show ?thesis using ap ab by (simp add: Append_def rootExtends_def)
  qed
next
  fix ck sink crash e sres
  assume K: "goodCodec K" and ck: "goodClock ck" and sk: "sinkRetains ck sink"
    and s: "SealActive K quietIO idle idle ck crash sink d a e = (d', sres)"
  note F = fresh_facts [OF goodCodec_hash [OF K] ab, of "''''"]
  have "sealEnd K (ckWrite ck) a '''' [] StateOpen 0 (SealActive K quietIO idle idle ck crash sink (freshFile a [] d) a e)"
    by (rule SealActive_has [OF K ck sk F]) (simp_all add: seqMax_def ordinalMax_def)
  from sealEnd_extends [OF this] SealActive_absent [OF goodCodec_hash [OF K] ab, of ck crash sink e] s ab
  show ?thesis by (metis fst_conv rootExtends_def)
next
  fix ck crash sink sres
  assume "CompleteSeal K quietIO idle idle ck crash sink d a = (d', sres)"
  with CompleteSeal_absent [OF ab] ab show ?thesis by (auto simp: rootExtends_def)
next
  fix ck crash sink op assertedAs witness rres
  assume "Repair K quietIO idle idle ck crash sink d a op assertedAs witness = (d', rres)"
  with Repair_absent [OF ab] ab show ?thesis by (auto simp: rootExtends_def)
qed

lemma rootExtends_inv: "rootExtends K a rs d \<Longrightarrow> rootInv K a d"
  by (auto simp: rootExtends_def rootInv_def)

interpretation controlRoot: step_system "absentRoot a" "controlStep K a" "rootInv K a" for K a
proof unfold_locales
  fix d
  assume "absentRoot a d"
  then show "rootInv K a d" by (simp add: rootInv_def)
next
  fix d d'
  assume "rootInv K a d" "controlStep K a d d'"
  then show "rootInv K a d'"
    unfolding rootInv_def [of K a d]
    by (elim disjE exE) (metis step_from_root step_from_absent step_from_torn rootExtends_inv)+
qed

section \<open>Properties\<close>

lemma reachable_rootE:
  assumes "reachableFrom (absentRoot a) (controlStep K a) d"
  obtains (absent) "absentRoot a d" | (root) logID rs st n where "rootHas K a d logID rs st n"
    | (torn) logID rs n where "tornHas K a d logID rs n"
  using controlRoot.reachable_inv [OF assms] by (auto simp: rootInv_def)

lemma tornHas_chain:
  assumes "tornHas K a d logID rs n"
  shows "validChain (kUnm K) (kHash K) zeroStart True rs"
  using assms root_single_chain unfolding tornHas_def by blast

text \<open>
  C3: a control ledger is always one verified chain. Whatever sequence of appends, seals stopped at
  any point, completions and repairs has been made on a fresh directory, with writes that succeed, fail or are
  cut after any byte, reading the segment set reports no fault, or, when the last write was cut, a torn tail of the active,
  whose bytes after the last record hold no newline; and in every case the records it returns, put in one file, are
  exactly what the single-file ledger reader accepts, with the same head. Splitting the ledger into
  segments is invisible to a reader. (The operations run one at a time and their reads are answered;
  damage from outside, a restore and a rebuild are other properties.)
\<close>

theorem reachable_root_is_one_verified_chain:
  assumes "goodCodec K" "reachableFrom (absentRoot a) (controlStep K a) d"
  shows "\<exists>v err. Read K quietIO Locked idle d a = (d, v, err)
    \<and> (case err of None \<Rightarrow> True | Some e \<Rightarrow> e = NotExist \<and> inodeOf d a = None \<or> cutTail d a v e)
    \<and> loadChain (kUnm K) (kHash K) (clean (fileBytes (vRecords v))) zeroStart
        = \<lparr>ldRecords = vRecords v, ldHead = \<lparr>headHash = lhHash (vHead v), headCount = nat (lhCount (vHead v))\<rparr>,
           ldSeqEstablished = (vRecords v \<noteq> []), ldSeqMode = (vRecords v \<noteq> []), ldErr = None\<rparr>"
  using assms(2)
proof (rule reachable_rootE)
  assume ab: "absentRoot a d"
  have "validChain (kUnm K) (kHash K) zeroStart True []" by (simp add: validChain_def)
  from loadChain_validI [OF this] absent_read [OF ab] ab show ?thesis
    by (simp add: noView_def absentRoot_def)
next
  fix logID rs st n
  assume H: "rootHas K a d logID rs st n"
  obtain v where v: "Read K quietIO Locked idle d a = (d, v, None)" "vRecords v = rs" "vHead v = logicalHead K rs"
    by (rule rootHas_read [OF goodCodec_hash [OF assms(1)] H, where mode = Locked])
  have "validChain (kUnm K) (kHash K) zeroStart True rs"
    using H root_single_chain by (auto simp: rootHas_def)
  from loadChain_validI [OF this] v show ?thesis by (simp add: logicalHead_def)
next
  fix logID rs n
  assume T: "tornHas K a d logID rs n"
  obtain v e where v: "Read K quietIO Locked idle d a = (d, v, Some e)" "cutTail d a v e" "vRecords v = rs" "vHead v = logicalHead K rs"
    by (rule tornHas_read [OF goodCodec_hash [OF assms(1)] T, where mode = Locked])
  from loadChain_validI [OF tornHas_chain [OF T]] v show ?thesis by (simp add: logicalHead_def)
qed

text \<open>
  C5: the log only grows. Every append, seal, completion and repair, interrupted or not, refused or not,
  its write whole, cut or failed, leaves the records it found and adds at most one at the end; in
  particular the identity in the genesis record never changes once it is written. (As above: one
  operation at a time, reads answered, on a ledger these operations made.)
\<close>

theorem control_log_only_grows:
  assumes "goodCodec K" "reachableFrom (absentRoot a) (controlStep K a) d" "controlStep K a d d'"
  shows "logExtends (recordsOf K a d) (recordsOf K a d')
    \<and> (recordsOf K a d = []
        \<or> GenesisLogID (kLogIDOf K) (recordsOf K a d') = GenesisLogID (kLogIDOf K) (recordsOf K a d))"
proof -
  note h = goodCodec_hash [OF assms(1)]
  have "rootExtends K a (recordsOf K a d) d'"
    using assms(2)
  proof (rule reachable_rootE)
    assume ab: "absentRoot a d"
    with step_from_absent [OF assms(3)] absent_facts [OF ab] show ?thesis by simp
  next
    fix logID rs st n
    assume H: "rootHas K a d logID rs st n"
    with step_from_root [OF assms(3)] rootHas_facts [OF h H] show ?thesis by simp
  next
    fix logID rs n
    assume T: "tornHas K a d logID rs n"
    with step_from_torn [OF assms(3)] tornHas_facts [OF h T] show ?thesis by simp
  qed
  then have "logExtends (recordsOf K a d) (recordsOf K a d')"
    using absent_facts rootHas_facts(1) [OF h] tornHas_facts(1) [OF h]
    by (auto simp: rootExtends_def logExtends_def)
  then show ?thesis
    by (cases "recordsOf K a d") (auto simp: logExtends_def GenesisLogID_def)
qed

text \<open>
  C6: an accepted event is recorded, once and at the end. When \<open>Append\<close> returns a head, the log is
  the old one and exactly one more line, the marshalled record of the event at the next seq with the
  old head as its \<^verbatim>\<open>prev\<close>, which decodes to a record that agrees with the event; the returned head
  is the new log's; a successful seal event leaves the active sealed, any other leaves it open.
\<close>

theorem append_records_exactly_the_event:
  assumes "goodCodec K" "reachableFrom (absentRoot a) (controlStep K a) d" "roomy K a d" "goodClock ck" "retains ck e"
    and "Append K quietIO idle idle ck d a e = (d', Inr head)"
  shows "\<exists>l. recordsOf K a d' = recordsOf K a d @ [l] \<and> decodesTo K ck (recordsOf K a d) e l
    \<and> head = logicalHead K (recordsOf K a d')
    \<and> stateOf K a d' = (if sealing e then StateSealedNotRotated else StateOpen)
    \<and> sealedCount K a d' = sealedCount K a d"
proof -
  have h: "hashShaped K" by (rule goodCodec_hash [OF assms(1)])
  have core: ?thesis if H: "rootHas K a d0 logID rs st n" and len: "length rs + 1 < seqMax"
    and f: "recordsOf K a d = rs" "sealedCount K a d = n"
    and ap: "Append K quietIO idle idle ck d0 a e = (d', Inr head)" for d0 logID rs st n
    by (rule Append_has [OF assms(1,4,5) H len ap]) (auto simp: f rootHas_facts [OF h])
  show ?thesis
    using assms(2)
  proof (rule reachable_rootE)
    assume ab: "absentRoot a d"
    have "appendPermit (kURL K) e = None"
      using assms(6) by (cases "appendPermit (kURL K) e") (auto simp: Append_def)
    with assms(6) have "Append K quietIO idle idle ck (freshFile a [] d) a e = (d', Inr head)"
      using Append_absent [OF h ab] by simp
    with core [OF fresh_facts [OF h ab]] show ?thesis by (simp add: absent_facts [OF ab] seqMax_def)
  next
    fix logID rs st n
    assume H: "rootHas K a d logID rs st n"
    with core [OF H] assms(3,6) rootHas_facts [OF h H] show ?thesis by (simp add: roomy_def)
  next
    fix logID rs n
    assume "tornHas K a d logID rs n"
    with tornHas_refuses(1) [OF h this, of ck e] assms(6) show ?thesis by auto
  qed
qed

text \<open>
  A refused event leaves no trace. When \<open>Append\<close> returns an error and its write does not fail,
  the log is what it was; an existing ledger is byte-for-byte untouched, and at most an empty
  active file has been created where there was none.
\<close>

theorem refused_append_leaves_no_trace:
  assumes "goodCodec K" "reachableFrom (absentRoot a) (controlStep K a) d" "roomy K a d" "goodClock ck" "retains ck e"
    and "Append K quietIO idle idle ck d a e = (d', Inl err)" "ckWrite ck = WriteOk"
  shows "recordsOf K a d' = recordsOf K a d \<and> (d' = d \<or> inodeOf d a = None \<and> d' = freshFile a [] d)"
proof -
  have h: "hashShaped K" by (rule goodCodec_hash [OF assms(1)])
  show ?thesis
    using assms(2)
  proof (rule reachable_rootE)
    assume ab: "absentRoot a d"
    note F = fresh_facts [OF h ab, of "''''"]
    show ?thesis
    proof (cases "appendPermit (kURL K) e")
      case None
      with assms(6) have "Append K quietIO idle idle ck (freshFile a [] d) a e = (d', Inl err)"
        using Append_absent [OF h ab] by simp
      then have "d' = freshFile a [] d"
        by (rule Append_has [OF assms(1,4,5) F, rotated]) (use assms(7) in \<open>auto simp: seqMax_def\<close>)
      with ab show ?thesis using absent_facts [OF ab] rootHas_facts [OF h F] by (simp add: absentRoot_def)
    next
      case (Some m)
      with assms(6) show ?thesis by (simp add: Append_def)
    qed
  next
    fix logID rs st n
    assume H: "rootHas K a d logID rs st n"
    then have "length rs + 1 < seqMax" using assms(3) rootHas_facts [OF h H] by (simp add: roomy_def)
    from Append_has [OF assms(1,4,5) H this assms(6)] assms(7) have "d' = d" by auto
    then show ?thesis by simp
  next
    fix logID rs n
    assume "tornHas K a d logID rs n"
    with tornHas_refuses(1) [OF h this, of ck e] assms(6) show ?thesis by auto
  qed
qed

text \<open>
  A sealed active takes no more records. From the seal record on until the rotation is complete
  (the swap), no append changes anything: not the log, not a byte of any file, whatever the event
  and the clock.
\<close>

theorem sealed_root_takes_no_append:
  assumes "goodCodec K" "reachableFrom (absentRoot a) (controlStep K a) d" "stateOf K a d \<noteq> StateOpen"
  shows "\<exists>err. Append K quietIO idle idle ck d a e = (d, Inl err)"
  using assms(2)
proof (rule reachable_rootE)
  assume "absentRoot a d"
  with absent_facts assms(3) show ?thesis by simp
next
  fix logID rs st n
  assume H: "rootHas K a d logID rs st n"
  note h = goodCodec_hash [OF assms(1)]
  from H obtain segs act link ia where R: "setRep K a d logID segs act link st ia" by (auto simp: rootHas_def)
  have "st \<noteq> StateOpen" using assms(3) rootHas_facts [OF h H] by simp
  with openActive_root [OF h R] show ?thesis
    by (cases "appendPermit (kURL K) e") (auto simp: Append_def)
next
  fix logID rs n
  assume "tornHas K a d logID rs n"
  with tornHas_facts [OF goodCodec_hash [OF assms(1)]] assms(3) show ?thesis by simp
qed

text \<open>
  C4: a seal is crash-safe. Wherever the seal stops (at any of its crash points, on a failing link,
  sink, manifest write or swap, or with its record's own write cut or failed), the log is the old one or
  the old one and the seal record, and the set reads without a fault, unless its own write was cut, or
  the active was torn before and nothing changed: then the read reports the torn tail of the active.
  When the seal does not stop, exactly one more segment is sealed, the log has the one new record,
  and the active is open again.
\<close>

theorem seal_is_crash_safe:
  assumes "goodCodec K" "reachableFrom (absentRoot a) (controlStep K a) d" "roomy K a d" "goodClock ck"
    and "sinkRetains ck sink" "inodeOf d a \<noteq> None"
    and "SealActive K quietIO idle idle ck crash sink d a e = (d', res)"
  shows "\<exists>v err. Read K quietIO Locked idle d' a = (d', v, err)
    \<and> (case err of None \<Rightarrow> True | Some f \<Rightarrow> cutTail d' a v f \<and> (d' = d \<or> ckWrite ck \<noteq> WriteOk))
    \<and> logExtends (recordsOf K a d) (recordsOf K a d')
    \<and> (case res of
         Inl _ \<Rightarrow> True
       | Inr _ \<Rightarrow> err = None \<and> stateOf K a d' = StateOpen \<and> sealedCount K a d' = sealedCount K a d + 1
                  \<and> length (recordsOf K a d') = length (recordsOf K a d) + 1)"
  using assms(2)
proof (rule reachable_rootE)
  assume "absentRoot a d"
  with assms(6) show ?thesis by (simp add: absentRoot_def)
next
  fix logID rs n
  assume T: "tornHas K a d logID rs n"
  note h = goodCodec_hash [OF assms(1)]
  obtain err where "d' = d" "res = Inl err" using tornHas_refuses(2) [OF h T, of ck crash sink e] assms(7) by auto
  moreover obtain v f where "Read K quietIO Locked idle d a = (d, v, Some f)" "cutTail d a v f"
    by (rule tornHas_read [OF h T, where mode = Locked])
  ultimately show ?thesis by (auto simp: logExtends_def)
next
  fix logID rs st n
  assume H: "rootHas K a d logID rs st n"
  note h = goodCodec_hash [OF assms(1)]
  note f = rootHas_facts [OF h H]
  have "sealEnd K (ckWrite ck) a logID rs st n (SealActive K quietIO idle idle ck crash sink d a e)"
    by (rule SealActive_has [OF assms(1,4,5) H]) (use assms(3) f in \<open>simp_all add: roomy_def\<close>)
  then consider err where "res = Inl err" "rootHas K a d' logID rs st n"
    | err where "res = Inl err" "tornHas K a d' logID rs n" "ckWrite ck \<noteq> WriteOk"
    | l logID' where "rotationEnd K a logID' (rs @ [l]) n (d', res)"
    unfolding sealEnd_def assms(7) by auto
  then have "(\<exists>err. res = Inl err) \<and> tornHas K a d' logID rs n \<and> ckWrite ck \<noteq> WriteOk
      \<or> (\<exists>logID' rs' st' n'. rootHas K a d' logID' rs' st' n' \<and> logExtends rs rs'
           \<and> ((\<exists>err. res = Inl err) \<or> st' = StateOpen \<and> n' = n + 1 \<and> length rs' = length rs + 1))"
  proof cases
    case 1
    then show ?thesis by (auto simp: logExtends_def)
  next
    case 2
    then show ?thesis by blast
  next
    case 3
    then show ?thesis by (cases res) (fastforce simp: rotationEnd_def logExtends_def)+
  qed
  then show ?thesis
  proof (elim disjE exE conjE)
    fix err
    assume T: "res = Inl err" "tornHas K a d' logID rs n" "ckWrite ck \<noteq> WriteOk"
    obtain v f' where "Read K quietIO Locked idle d' a = (d', v, Some f')" "cutTail d' a v f'"
      by (rule tornHas_read [OF h T(2), where mode = Locked])
    then show ?thesis using T f tornHas_facts [OF h T(2)] by (auto simp: logExtends_def)
  next
    fix logID' rs' st' n' err
    assume R': "rootHas K a d' logID' rs' st' n'" "logExtends rs rs'" "res = Inl err"
    obtain v where "Read K quietIO Locked idle d' a = (d', v, None)"
      by (rule rootHas_read [OF h R'(1), where mode = Locked])
    then show ?thesis using f rootHas_facts [OF h R'(1)] R'(2,3) by auto
  next
    fix logID' rs' st' n'
    assume R': "rootHas K a d' logID' rs' st' n'" "logExtends rs rs'" "st' = StateOpen" "n' = n + 1" "length rs' = length rs + 1"
    obtain v where "Read K quietIO Locked idle d' a = (d', v, None)"
      by (rule rootHas_read [OF h R'(1), where mode = Locked])
    then show ?thesis using f rootHas_facts [OF h R'(1)] R'(2-5) by (auto split: sum.split)
  qed
qed

text \<open>
  Completing an interrupted rotation changes no record. On a sealed or half-rotated root the
  completion keeps the log exactly; it returns success only with the active open again, and when
  it stops again the root is still one that can be completed.
\<close>

theorem completion_keeps_the_log:
  assumes "goodCodec K" "reachableFrom (absentRoot a) (controlStep K a) d" "roomy K a d" "stateOf K a d \<noteq> StateOpen"
    and "CompleteSeal K quietIO idle idle ck crash sink d a = (d', res)"
  shows "recordsOf K a d' = recordsOf K a d
    \<and> (case res of Inl _ \<Rightarrow> stateOf K a d' \<noteq> StateOpen | Inr _ \<Rightarrow> stateOf K a d' = StateOpen)"
proof -
  have h: "hashShaped K" by (rule goodCodec_hash [OF assms(1)])
  from controlRoot.reachable_inv [OF assms(2)] assms(4) absent_facts tornHas_facts(2) [OF h] obtain logID rs st n
    where H: "rootHas K a d logID rs st n" by (auto simp: rootInv_def)
  note f = rootHas_facts [OF h H]
  have "completeEnd K a logID rs st n (d', res)"
    using CompleteSeal_has [OF assms(1) H, of ck crash sink] assms(3,5) f by (simp add: roomy_def)
  then have "\<exists>st' n'. rootHas K a d' logID rs st' n' \<and> ((\<exists>r. res = Inr r) \<longleftrightarrow> st' = StateOpen)"
    using assms(4) f by (cases res; cases st) (fastforce simp: completeEnd_def rotationEnd_def)+
  then show ?thesis
    using f rootHas_facts [OF h] by (cases res) auto
qed

section \<open>Completion succeeds\<close>

definition healthy :: "clock \<Rightarrow> bool" where
  "healthy ck \<longleftrightarrow> ckLink ck = LinkOk \<and> \<not> ckManifestFails ck \<and> \<not> ckSwapFails ck"

definition floorSeal :: "codec \<Rightarrow> bytes \<Rightarrow> directory \<Rightarrow> bool" where
  "floorSeal K a d \<longleftrightarrow>
     (case kDec K (last (recordsOf K a d)) of
        None \<Rightarrow> True
      | Some rc \<Rightarrow> (case crSeal rc of None \<Rightarrow> True | Some s \<Rightarrow> slSink s = None))"

text \<open>The manifest a completion writes, and that the codec stores it faithfully.\<close>

definition nextManifest :: "codec \<Rightarrow> bytes \<Rightarrow> directory \<Rightarrow> Manifest" where
  "nextManifest K a d =
     (let v = fst (snd (Read K quietIO Unlocked idle d a))
      in \<lparr>mfV = ''segments/1'', mfLogID = (case manifestLogID K v of Inl _ \<Rightarrow> '''' | Inr i \<Rightarrow> i),
          mfSegments = map (manifestEntry a)
            (vSealed v @ [newSegment K a v (the (kDec K (last (activeRecords v))))])\<rparr>)"

definition stores :: "codec \<Rightarrow> Manifest \<Rightarrow> bool" where
  "stores K m \<longleftrightarrow> (case kManifest K m of None \<Rightarrow> False | Some b \<Rightarrow> kParse K b = Some (m, False))"

lemma entriesFault_views:
  assumes "hashShaped K" "segmentsOK K ps k segs" "length (ps @ concat segs) \<le> seqMax"
  shows "entriesFault a k (int (length ps)) (map (manifestEntry a) (segViews K a ps k segs)) = None"
  using assms(2,3)
proof (induction segs arbitrary: ps k)
  case (Cons seg segs)
  have ne: "seg \<noteq> []" using Cons.prems by (simp add: segmentOK_def)
  then have len: "length ps + 1 \<le> seqMax" "0 < length seg" "0 < length (fileBytes seg)"
    using Cons.prems by (cases seg; simp)+
  have "goInt (int (length ps) + 1) = int (length ps) + 1" using goInt_nat [OF len(1)] by (simp add: add.commute)
  moreover have "anchorHashOK (headFrom (kHash K) '''' (ps @ seg))" "anchorHashOK (kHash K (fileBytes seg))"
    using assms(1) ne by (simp_all add: hashShaped_def headFrom_last)
  ultimately have "entryFault a (k + 1) (int (length ps)) (manifestEntry a (segView K a (k + 1) ps seg)) = None"
    using len ne by (simp add: entryFault_def manifestEntry_def segView_def Let_def)
  moreover have "entriesFault a (k + 1) (int (length (ps @ seg))) (map (manifestEntry a) (segViews K a (ps @ seg) (k + 1) segs)) = None"
    by (rule Cons.IH) (use Cons.prems in auto)
  moreover have "meHeadSeq (manifestEntry a (segView K a (k + 1) ps seg)) = int (length (ps @ seg))"
    by (simp add: manifestEntry_def segView_def Let_def)
  ultimately show ?case by (simp only: segViews.simps list.map entriesFault.simps option.case)
qed simp

lemma rootManifest_parses:
  assumes "hashShaped K" "IsLogID logID" "segmentsOK K [] 0 segs" "segs \<noteq> []" "length (concat segs) \<le> seqMax"
    and "kParse K b = Some (rootManifest K a logID segs, False)"
  shows "ParseManifest K b a = Inr (rootManifest K a logID segs)"
proof -
  have "segViews K a [] 0 segs \<noteq> []" using assms(4) by (cases segs) auto
  then show ?thesis
    using entriesFault_views [OF assms(1,3), of a] assms by (simp add: ParseManifest_def rootManifest_def)
qed

lemma linkSegment_healthy:
  assumes R: "setRep K a d logID segs act link st ia" and st: "st \<noteq> StateRotatedNotSwapped" and "healthy ck"
  obtains d' where "linkSegment ck a (length segs + 1) d = (d', None)"
proof -
  have A: "activeRep K a d segs act link ia" by (rule setRep_activeD [OF R st])
  then have "inodeOf d (SegmentPath a (length segs + 1)) \<noteq> None \<Longrightarrow> inodeOf d (SegmentPath a (length segs + 1)) = Some ia"
    using siblingSet_names [of d a "length segs" "length segs + 1"] by (cases link) (auto simp: activeRep_def)
  then show ?thesis
    using that A assms(3)
    by (cases "inodeOf d (SegmentPath a (length segs + 1))")
       (auto simp: linkSegment_def healthy_def activeRep_def Let_def)
qed

lemma rotate_healthy:
  assumes K: "goodCodec K" and R: "setRep K a d logID segs act link StateSealedNotRotated ia" and hl: "healthy ck"
    and v: "rotatable K a logID segs act v" and len: "length segs + 1 < ordinalMax"
    and fl: "sgSink (segView K a (length segs + 1) (concat segs) act) = None"
    and st: "stores K (rootManifest K a logID (segs @ [act]))"
  shows "\<exists>d' r. rotate K ck '''' sink pre a v d = (d', Inr r)"
proof -
  have h: "hashShaped K" by (rule goodCodec_hash [OF K])
  have ok: "segmentOK K (length segs + 1) (concat segs) act" and idr: "identityRep K logID (concat segs @ act)"
    and hs: "segmentsOK K [] 0 segs" and lc: "length (concat segs @ act) < seqMax"
    using R by (auto simp: setRep_def historyRep_def)
  from ok obtain rc where rc: "successfulSeal K (last act) = Some rc" "kDec K (last act) = Some rc"
    "crSeal rc \<noteq> None" and act: "act \<noteq> []"
    by (elim segmentOKE) (auto dest: successfulSeal_dec sealFault_payload)
  have vv: "vState v \<noteq> StateRotatedNotSwapped" "length (vSealed v) = length segs" "activeRecords v = act"
    "vSealed v = segViews K a [] 0 segs" using v by (auto simp: rotatable_def)
  have lid: "manifestLogID K v = Inr logID" by (rule manifestLogID_root [OF idr act]) (use v in \<open>auto simp: rotatable_def\<close>)
  let ?seg = "segView K a (length segs + 1) (concat segs) act"
  have new: "newSegment K a v rc = ?seg" by (rule newSegment_root [OF v rc(1,2)])
  have man: "\<lparr>mfV = ''segments/1'', mfLogID = logID, mfSegments = map (manifestEntry a) (vSealed v @ [?seg])\<rparr>
      = rootManifest K a logID (segs @ [act])"
    by (simp add: rootManifest_def vv segViews_snoc)
  from st obtain b where b: "kManifest K (rootManifest K a logID (segs @ [act])) = Some b"
    "kParse K b = Some (rootManifest K a logID (segs @ [act]), False)"
    by (auto simp: stores_def split: option.splits)
  have P: "ParseManifest K b a = Inr (rootManifest K a logID (segs @ [act]))"
    by (rule rootManifest_parses [OF h _ _ _ _ b(2)])
       (use identity_logID [OF idr] act hs ok lc in \<open>auto simp: segmentsOK_snoc\<close>)
  obtain d1 where l: "linkSegment ck a (length segs + 1) d = (d1, None)"
    by (rule linkSegment_healthy [OF R _ hl]) simp
  have "writeManifest K ck a (rootManifest K a logID (segs @ [act])) d1 = (freshFile (ManifestPath a) b d1, None)"
    using b P hl by (simp add: writeManifest_def Replace_def healthy_def)
  then have "rotate K ck '''' sink pre a v d
      = swapStep ck '''' a (freshFile (ManifestPath a) b d1) (length segs + 1) ?seg None noReceipt"
    unfolding rotate_def Let_def using vv(1) l rc lid new man fl by (auto simp: vv(2,3) protectedCopy_def)
  then show ?thesis using hl by (simp add: swapStep_def swapActive_def Replace_def healthy_def)
qed

text \<open>
  C7: an interrupted rotation can always be completed. On any reachable root whose rotation did not
  finish, with a seal that names no protected copy, a completion on a healthy file system returns
  success: no crash point leaves a ledger that nothing can reopen.
\<close>

theorem interrupted_rotation_can_be_completed:
  assumes "goodCodec K" "reachableFrom (absentRoot a) (controlStep K a) d" "roomy K a d" "stateOf K a d \<noteq> StateOpen"
    and "healthy ck" "floorSeal K a d" "stores K (nextManifest K a d) \<or> stateOf K a d = StateRotatedNotSwapped"
  shows "\<exists>d' r. CompleteSeal K quietIO idle idle ck '''' sink d a = (d', Inr r)"
proof -
  have h: "hashShaped K" by (rule goodCodec_hash [OF assms(1)])
  from controlRoot.reachable_inv [OF assms(2)] assms(4) absent_facts tornHas_facts(2) [OF h] obtain logID rs st n
    where H: "rootHas K a d logID rs st n" by (auto simp: rootInv_def)
  then obtain segs act link ia where R: "setRep K a d logID segs act link st ia" and rs: "rs = concat segs @ act"
    and n: "n = length segs" by (auto simp: rootHas_def)
  note f = rootHas_facts [OF h H]
  let ?v = "rootView K a logID segs act st" and ?d = "sweepTemps quietIO a d"
  have R1: "setRep K a ?d logID segs act link st ia" by (rule setRep_sweep [OF R])
  have vst: "vState ?v = st" by (simp add: rootView_def)
  have res: "CompleteSeal K quietIO idle idle ck '''' sink d a
      = (case rotate K ck '''' sink None a ?v ?d of (d, Inl err) \<Rightarrow> (d, Inl err)
         | (d, Inr r) \<Rightarrow> (d, Inr (r\<lparr>srCompleted := True\<rparr>)))"
    unfolding CompleteSeal_def completeSealWith_def
      lockActive_root [OF h R, where verify = "readerVerify K quietIO", OF readerVerify_sees [OF h R]]
    using assms(4) f by (simp add: vst)
  have "\<exists>d' r. rotate K ck '''' sink None a ?v ?d = (d', Inr r)"
  proof (cases "st = StateRotatedNotSwapped")
    case True
    then show ?thesis
      using assms(5) unfolding rotate_def vst by (simp add: swapStep_def swapActive_def Replace_def healthy_def)
  next
    case False
    with assms(4) f have B: "st = StateSealedNotRotated" by (cases st) auto
    have ok: "segmentOK K (length segs + 1) (concat segs) act" and idr: "identityRep K logID (concat segs @ act)"
      using R B by (simp_all add: setRep_def)
    from ok obtain rc where rc: "successfulSeal K (last act) = Some rc" "kDec K (last act) = Some rc" and act: "act \<noteq> []"
      by (elim segmentOKE) (auto dest: successfulSeal_dec)
    have fl: "sgSink (segView K a (length segs + 1) (concat segs) act) = None"
      using assms(6) f rs rc act by (simp add: floorSeal_def segView_def Let_def split: option.splits)
    have rt: "rotatable K a logID segs act ?v" by (rule rotatable_root) (simp add: B)
    have "manifestLogID K ?v = Inr logID"
      by (rule manifestLogID_root [OF idr act]) (simp_all add: rootView_def)
    then have "nextManifest K a d = rootManifest K a logID (segs @ [act])"
      using Read_root [OF h R, of Unlocked] newSegment_root [OF rt rc] rc
      by (simp add: nextManifest_def rootManifest_def Let_def segViews_snoc) (simp add: rootView_def)
    with assms(7) f False have st': "stores K (rootManifest K a logID (segs @ [act]))" by simp
    have "length segs + 1 < ordinalMax" using assms(3) f n by (simp add: roomy_def)
    with rotate_healthy [OF assms(1) R1 [unfolded B] assms(5) rt _ fl st'] show ?thesis by blast
  qed
  then show ?thesis unfolding res by auto
qed

section \<open>A concrete root\<close>

text \<open>
  A root made by hand for the witnesses: a genesis \<open>apply\<close> (line \<^verbatim>\<open>A\<close>), then a seal (line \<^verbatim>\<open>B\<close>) that
  stops after its record, or the repair of a torn byte (line \<^verbatim>\<open>R\<close>). The codec knows these records
  and the one manifest.
\<close>

definition demoClock :: clock where
  "demoClock = \<lparr>ckNow = 5, ckLocatorNow = 5, ckUnix = 7, ckRandom = Some (replicate 16 nul), ckPrint = (\<lambda>_. True),
     ckWrite = WriteOk, ckLink = LinkOk, ckManifestFails = False, ckSwapFails = False, ckCreateFails = False,
     ckFragmentWrite = WriteOk, ckTruncate = TruncateOk\<rparr>"

definition demoSum :: "bytes \<Rightarrow> bytes" where
  "demoSum l = replicate 64 (if l = ''A'' then CHR ''a'' else if l = ''B'' then CHR ''b'' else CHR ''c'')"

definition demoLogID :: bytes where
  "demoLogID = replicate 32 CHR ''0''"

definition demoControlEvent :: "bytes \<Rightarrow> Seal option \<Rightarrow> ControlEvent" where
  "demoControlEvent action sl =
     \<lparr>ceAction = action, ceAgent = '''', ceOutcome = ''success'', ceReason = None,
      ceInvoker = \<lparr>invSubject = ''ann'', invIssuer = ''i'', invMethod = ''oidc'', invGroups = []\<rparr>,
      ceAssertedAs = '''', ceWitness = \<lparr>wtOSUser = ''ann'', wtHostname = ''h''\<rparr>, ceConfigHash = '''',
      ceBootstrap = False, ceFragmentLen = 0, ceFragmentSHA = '''', ceOrigin = None, ceDetail = [],
      ceAnchor = None, ceSeal = sl\<rparr>"

definition demoGenesis :: controlRecord where
  "demoGenesis = recordOf demoClock
     \<lparr>cFile = [], cMode = Locked, cBase = 0, cPrev = '''', cCount = 0, cSeqEstablished = False, cSeqMode = False\<rparr>
     (demoControlEvent ''apply'' None) demoLogID"

definition demoSealPayload :: Seal where
  "demoSealPayload = \<lparr>slSegment = 1, slFirstSeq = 1, slHeadSeq = 1, slHeadHash = demoSum ''A'',
     slContentSHA256 = demoSum [], slSink = None\<rparr>"

definition demoSealRecord :: controlRecord where
  "demoSealRecord = recordOf demoClock
     \<lparr>cFile = [], cMode = Locked, cBase = 0, cPrev = demoSum ''A'', cCount = 1, cSeqEstablished = True, cSeqMode = True\<rparr>
     (demoControlEvent ''seal'' (Some demoSealPayload)) ''''"

definition demoRepairResult :: RepairResult where
  "demoRepairResult = \<lparr>rrFragmentLen = 1, rrFragmentSHA = demoSum ''x'', rrCompletedSegment = 0\<rparr>"

definition demoOperator :: Invoker where
  "demoOperator = \<lparr>invSubject = ''ann'', invIssuer = ''i'', invMethod = ''oidc'', invGroups = []\<rparr>"

definition demoWitness :: Witness where
  "demoWitness = \<lparr>wtOSUser = ''ann'', wtHostname = ''h''\<rparr>"

definition demoRepairRecord :: controlRecord where
  "demoRepairRecord = recordOf demoClock
     \<lparr>cFile = [], cMode = Locked, cBase = 0, cPrev = demoSum ''A'', cCount = 1, cSeqEstablished = True, cSeqMode = True\<rparr>
     (repairEvent demoRepairResult demoOperator '''' demoWitness) ''''"

definition demoManifest :: Manifest where
  "demoManifest = \<lparr>mfV = ''segments/1'', mfLogID = demoLogID,
     mfSegments = [\<lparr>meN = 1, meFile = ''c.seg-000001'', meFirstSeq = 1, meHeadSeq = 2, meHeadHash = demoSum ''B'',
                    meSHA256 = demoSum [], meBytes = 4, meSealedAt = 5\<rparr>]\<rparr>"

definition demoCodec :: codec where
  "demoCodec = \<lparr>
     kUnm = (\<lambda>l. if l = ''A'' then Some \<lparr>lfPrev = Some '''', lfSeq = Some 1\<rparr>
                 else if l = ''B'' \<or> l = ''R'' then Some \<lparr>lfPrev = Some (demoSum ''A''), lfSeq = Some 2\<rparr> else None),
     kHash = demoSum,
     kMarshal = (\<lambda>r. if r = demoGenesis then Some ''A'' else if r = demoSealRecord then Some ''B''
                     else if r = demoRepairRecord then Some ''R'' else None),
     kDec = (\<lambda>l. if l = ''A'' then Some demoGenesis else if l = ''B'' then Some demoSealRecord
                 else if l = ''R'' then Some demoRepairRecord else None),
     kLogIDOf = (\<lambda>l. if l = ''A'' then Some demoLogID else if l = ''B'' \<or> l = ''R'' then Some '''' else None),
     kFirst = (\<lambda>_. None),
     kManifest = (\<lambda>m. if m = demoManifest then Some ''M'' else None),
     kParse = (\<lambda>b. if b = ''M'' then Some (demoManifest, False) else None),
     kURL = (\<lambda>_. None)\<rparr>"

lemma demoSum_shape: "anchorHashOK (demoSum l)"
  by (auto simp: demoSum_def anchorHashOK_def lower_hex_string_def list_all_iff lower_hex_def)

lemma demoRecords_core:
  "crPrev demoGenesis = ''''" "crLogID demoGenesis = demoLogID" "crSeq demoGenesis = 1"
  "crPrev demoSealRecord = demoSum ''A''" "crLogID demoSealRecord = ''''" "crSeq demoSealRecord = 2"
  "crPrev demoRepairRecord = demoSum ''A''" "crLogID demoRepairRecord = ''''" "crSeq demoRepairRecord = 2"
  by code_simp+

lemma goodCodec_demo: "goodCodec demoCodec"
proof -
  have "hashShaped demoCodec" by (simp add: hashShaped_def demoCodec_def demoSum_shape)
  moreover have "kUnm demoCodec l = None" if "nul \<in> set l" for l
    using that by (auto simp: demoCodec_def)
  moreover have "marshalLaw demoCodec"
    unfolding marshalLaw_def
  proof (intro allI impI)
    fix r l
    assume "kMarshal demoCodec r = Some l"
    then have "r = demoGenesis \<and> l = ''A'' \<or> r = demoSealRecord \<and> l = ''B'' \<or> r = demoRepairRecord \<and> l = ''R''"
      by (auto simp: demoCodec_def split: if_splits)
    then show "lineSafe l \<and> kLogIDOf demoCodec l = Some (crLogID r)
        \<and> kUnm demoCodec l = Some \<lparr>lfPrev = Some (crPrev r), lfSeq = Some (word_of_int (crSeq r))\<rparr>
        \<and> (\<exists>r'. kDec demoCodec l = Some r' \<and> sameCore r r')"
      by (auto simp: demoCodec_def demoRecords_core lineSafe_def sameCore_def)
  qed
  moreover have "manifestLaw demoCodec"
    by (auto simp: manifestLaw_def demoCodec_def sameFigures_def list_all2_refl split: if_splits)
  ultimately show ?thesis by (simp add: goodCodec_def)
qed

lemma goodClock_demo: "goodClock demoClock"
  by (simp add: goodClock_def demoClock_def)

definition demoD0 :: directory where
  "demoD0 = \<lparr>dirNames = [], dirNode = (\<lambda>_. []), dirNext = 0\<rparr>"

definition demoD1 :: directory where
  "demoD1 = fst (Append demoCodec quietIO idle idle demoClock demoD0 ''c'' (demoControlEvent ''apply'' None))"

definition demoD2 :: directory where
  "demoD2 = fst (SealActive demoCodec quietIO idle idle demoClock ''after_seal_before_manifest'' None demoD1 ''c''
                   (demoControlEvent ''seal'' None))"

lemma demo_facts:
  "recordsOf demoCodec ''c'' demoD1 = [''A'']" "stateOf demoCodec ''c'' demoD1 = StateOpen"
  "sealedCount demoCodec ''c'' demoD1 = 0" "inodeOf demoD1 ''c'' = Some 0"
  "recordsOf demoCodec ''c'' demoD2 = [''A'', ''B'']" "stateOf demoCodec ''c'' demoD2 = StateSealedNotRotated"
  "sealedCount demoCodec ''c'' demoD2 = 0"
  by code_simp+

lemma demo_absent: "absentRoot ''c'' demoD0"
  by (simp add: absentRoot_def demoD0_def inodeOf_def siblingSet_def wfDir_def ReadDir_def)

lemma demo_roomy:
  "roomy demoCodec ''c'' demoD0" "roomy demoCodec ''c'' demoD1" "roomy demoCodec ''c'' demoD2"
  by (simp_all add: roomy_def demo_facts absent_facts [OF demo_absent] seqMax_def ordinalMax_def)

lemma demo_retains:
  "retains demoClock (demoControlEvent action None)" "sinkRetains demoClock None"
  by (simp_all add: retains_def sinkRetains_def demoControlEvent_def)

lemma demo_step1: "controlStep demoCodec ''c'' demoD0 demoD1"
  by (rule step_append [OF goodCodec_demo demo_roomy(1) goodClock_demo demo_retains(1),
        where res = "snd (Append demoCodec quietIO idle idle demoClock demoD0 ''c'' (demoControlEvent ''apply'' None))"])
     (simp add: demoD1_def)

lemma demo_step2: "controlStep demoCodec ''c'' demoD1 demoD2"
  by (rule step_seal [OF goodCodec_demo demo_roomy(2) goodClock_demo demo_retains(2),
        where sres = "snd (SealActive demoCodec quietIO idle idle demoClock ''after_seal_before_manifest'' None demoD1 ''c''
                 (demoControlEvent ''seal'' None))"])
     (simp add: demoD2_def)

lemma demo_reachable0: "reachableFrom (absentRoot ''c'') (controlStep demoCodec ''c'') demoD0"
  by (rule reach_init) (rule demo_absent)

lemmas demo_reachable1 = reach_step [OF demo_reachable0 demo_step1]
lemmas demo_reachable2 = reach_step [OF demo_reachable1 demo_step2]

theorem reachable_root_is_one_verified_chain_witness:
  "recordsOf demoCodec ''c'' demoD2 = [''A'', ''B'']
   \<and> ldErr (loadChain (kUnm demoCodec) (kHash demoCodec)
        (clean (fileBytes (vRecords (fst (snd (Read demoCodec quietIO Locked idle demoD2 ''c'')))))) zeroStart) = None"
  using reachable_root_is_one_verified_chain [OF goodCodec_demo demo_reachable2]
  by (elim exE conjE) (simp add: demo_facts)

theorem control_log_only_grows_witness:
  "logExtends (recordsOf demoCodec ''c'' demoD1) (recordsOf demoCodec ''c'' demoD2)
   \<and> GenesisLogID (kLogIDOf demoCodec) (recordsOf demoCodec ''c'' demoD2)
     = GenesisLogID (kLogIDOf demoCodec) (recordsOf demoCodec ''c'' demoD1)"
  using control_log_only_grows [OF goodCodec_demo demo_reachable1 demo_step2] by (simp add: demo_facts)

theorem append_records_exactly_the_event_witness:
  "sealedCount demoCodec ''c'' demoD1 = sealedCount demoCodec ''c'' demoD0
   \<and> stateOf demoCodec ''c'' demoD1 = StateOpen"
proof -
  have "Append demoCodec quietIO idle idle demoClock demoD0 ''c'' (demoControlEvent ''apply'' None)
      = (demoD1, Inr (logicalHead demoCodec [''A'']))"
    unfolding demoD1_def by (rule prod_eqI, simp, code_simp)
  from append_records_exactly_the_event [OF goodCodec_demo demo_reachable0 demo_roomy(1) goodClock_demo demo_retains(1) this]
  show ?thesis by (auto simp: demo_facts)
qed

theorem refused_append_leaves_no_trace_witness:
  "recordsOf demoCodec ''c'' (fst (Append demoCodec quietIO idle idle demoClock demoD1 ''c'' (demoControlEvent ''no'' None)))
   = [''A'']"
proof -
  have "\<exists>err. snd (Append demoCodec quietIO idle idle demoClock demoD1 ''c'' (demoControlEvent ''no'' None)) = Inl err"
    by (rule exI, code_simp)
  then obtain err where "Append demoCodec quietIO idle idle demoClock demoD1 ''c'' (demoControlEvent ''no'' None)
      = (fst (Append demoCodec quietIO idle idle demoClock demoD1 ''c'' (demoControlEvent ''no'' None)), Inl err)"
    by (metis prod.collapse)
  from refused_append_leaves_no_trace [OF goodCodec_demo demo_reachable1 demo_roomy(2) goodClock_demo demo_retains(1) this]
  show ?thesis by (simp add: demo_facts demoClock_def)
qed

theorem sealed_root_takes_no_append_witness:
  "fst (Append demoCodec quietIO idle idle demoClock demoD2 ''c'' (demoControlEvent ''apply'' None)) = demoD2"
  using sealed_root_takes_no_append [OF goodCodec_demo demo_reachable2, of demoClock "demoControlEvent ''apply'' None"]
  by (auto simp: demo_facts)

text \<open>A seal whose record is cut after its first byte: the link is there, the record is not, and the tail is torn.\<close>

definition cutClock :: clock where
  "cutClock = demoClock\<lparr>ckWrite := WriteFail 1\<rparr>"

definition demoCut :: directory where
  "demoCut = fst (SealActive demoCodec quietIO idle idle cutClock '''' None demoD1 ''c'' (demoControlEvent ''seal'' None))"

theorem seal_is_crash_safe_witness:
  "\<exists>v f. Read demoCodec quietIO Locked idle demoCut ''c'' = (demoCut, v, Some f) \<and> cutTail demoCut ''c'' v f
   \<and> logExtends (recordsOf demoCodec ''c'' demoD1) (recordsOf demoCodec ''c'' demoCut)"
proof -
  have s: "SealActive demoCodec quietIO idle idle cutClock '''' None demoD1 ''c'' (demoControlEvent ''seal'' None)
    = (demoCut, snd (SealActive demoCodec quietIO idle idle cutClock '''' None demoD1 ''c'' (demoControlEvent ''seal'' None)))"
    by (simp add: demoCut_def)
  have ck: "goodClock cutClock" "sinkRetains cutClock None" "inodeOf demoD1 ''c'' \<noteq> None"
    by (simp_all add: cutClock_def demoClock_def goodClock_def sinkRetains_def demo_facts)
  have e: "snd (snd (Read demoCodec quietIO Locked idle demoCut ''c'')) \<noteq> None" by code_simp
  from seal_is_crash_safe [OF goodCodec_demo demo_reachable1 demo_roomy(2) ck s]
  obtain v err where r: "Read demoCodec quietIO Locked idle demoCut ''c'' = (demoCut, v, err)"
    "case err of None \<Rightarrow> True | Some f \<Rightarrow> cutTail demoCut ''c'' v f \<and> (demoCut = demoD1 \<or> ckWrite cutClock \<noteq> WriteOk)"
    "logExtends (recordsOf demoCodec ''c'' demoD1) (recordsOf demoCodec ''c'' demoCut)" by blast
  with e obtain f where "err = Some f" by auto
  with r show ?thesis by auto
qed

theorem completion_keeps_the_log_witness:
  "recordsOf demoCodec ''c'' (fst (CompleteSeal demoCodec quietIO idle idle demoClock '''' None demoD2 ''c'')) = [''A'', ''B'']"
  using completion_keeps_the_log [OF goodCodec_demo demo_reachable2 demo_roomy(3) _ prod.collapse [symmetric],
      of demoClock "''''" None]
  by (simp add: demo_facts)

theorem interrupted_rotation_can_be_completed_witness:
  "\<exists>d' r. CompleteSeal demoCodec quietIO idle idle demoClock '''' None demoD2 ''c'' = (d', Inr r)"
proof (rule interrupted_rotation_can_be_completed [OF goodCodec_demo demo_reachable2 demo_roomy(3)])
  show "stateOf demoCodec ''c'' demoD2 \<noteq> StateOpen" by (simp add: demo_facts)
  show "healthy demoClock" by (simp add: healthy_def demoClock_def)
  show "floorSeal demoCodec ''c'' demoD2" by code_simp
  have "stores demoCodec (nextManifest demoCodec ''c'' demoD2)" by code_simp
  then show "stores demoCodec (nextManifest demoCodec ''c'' demoD2) \<or> stateOf demoCodec ''c'' demoD2 = StateRotatedNotSwapped" ..
qed

end
