(* ===== verification/Control_Repair.thy ===== *)
theory Control_Repair
  imports Control_Root
begin

text \<open>
  Repairing a control ledger whose last append was cut short (\<open>Repair\<close>, \<open>moveTailAside\<close>,
  \<open>writeTornFragment\<close> of \<^verbatim>\<open>internal/control/log.go\<close>): no byte is lost whatever stops the repair, no
  fragment file is ever overwritten, and a torn root becomes one clean chain with one more record
  that says what was moved aside.
\<close>

section \<open>No byte is lost\<close>

text \<open>
  A repair destroys nothing. Whatever the file system, the lock and a concurrent process do,
  moving a torn tail aside either leaves every file as it was, or adds one file under a name nobody
  used; then the active is as it was, or exactly the bytes of the new file are gone from its end, and
  when it reports success they are, and it returns their length and digest.
\<close>

theorem repair_loses_no_byte:
  assumes "wfDir (race 0 d)" "moveTailAside K io race ck a off pre d = (d', res)"
  shows "(\<exists>err. res = Inl err \<and> (d' = d \<or> d' = race 0 d))
    \<or> (\<exists>n b. inodeOf (race 0 d) n = None \<and> contents d' n = Some b
         \<and> (\<forall>m. m \<noteq> n \<longrightarrow> inodeOf d' m = inodeOf (race 0 d) m)
         \<and> (\<forall>m. m \<noteq> n \<longrightarrow> inodeOf (race 0 d) m \<noteq> inodeOf (race 0 d) a \<longrightarrow> contents d' m = contents (race 0 d) m)
         \<and> ((\<exists>err. res = Inl err) \<and> contents d' a = contents (race 0 d) a
            \<or> (\<exists>p. contents d' a = Some p \<and> contents (race 0 d) a = Some (p @ b) \<and> int (length p) = off))
         \<and> (case res of Inl _ \<Rightarrow> True | Inr r \<Rightarrow> rrFragmentLen r = int (length b) \<and> rrFragmentSHA r = kHash K b))"
  using assms(2)
proof (rule moveTailAside_outcome)
  fix err
  assume "res = Inl err" "d' = d \<or> d' = race 0 d"
  then show ?thesis by blast
next
  fix err k b
  assume r: "res = Inl err" "addsFile (race 0 d) (tornName a (ckUnix ck) k) b d'"
  then show ?thesis
    using contents_freshFile [OF assms(1)]
    by (intro disjI2 exI [of _ "tornName a (ckUnix ck) k"] exI [of _ b]) (auto simp: addsFile_def)
next
  fix ino k
  let ?n = "tornName a (ckUnix ck) k" and ?raw = "dirNode (race 0 d) ino"
  let ?r = "\<lparr>rrFragmentLen = int (length (drop (nat off) ?raw)), rrFragmentSHA = kHash K (drop (nat off) ?raw), rrCompletedSegment = 0\<rparr>"
  assume i: "inodeOf (race 0 d) a = Some ino" and off: "0 \<le> off" "off \<le> int (length ?raw)"
    and n: "inodeOf (race 0 d) ?n = None"
    and d': "d' = writeNode ino (take (nat off) ?raw) (freshFile ?n (drop (nat off) ?raw) (race 0 d))"
    and res: "res = Inr ?r \<or> (\<exists>err. res = Inl err)"
  have lt: "ino < dirNext (race 0 d)" by (rule wfDir_inode [OF assms(1) i])
  have other: "contents d' m = contents (race 0 d) m" if "m \<noteq> ?n" "inodeOf (race 0 d) m \<noteq> Some ino" for m
    using that contents_freshFile [OF assms(1)] by (simp add: d' contents_writeNode)
  have c: "contents d' ?n = Some (drop (nat off) ?raw)" "contents d' a = Some (take (nat off) ?raw)"
    "contents (race 0 d) a = Some (take (nat off) ?raw @ drop (nat off) ?raw)"
    using i lt by (simp_all add: d' contents_def)
  have "int (length (take (nat off) ?raw)) = off" using off by simp
  moreover have "case res of Inl _ \<Rightarrow> True | Inr r \<Rightarrow> rrFragmentLen r = int (length (drop (nat off) ?raw))
      \<and> rrFragmentSHA r = kHash K (drop (nat off) ?raw)" using res by auto
  moreover have "\<forall>m. m \<noteq> ?n \<longrightarrow> inodeOf d' m = inodeOf (race 0 d) m" by (simp add: d')
  ultimately have facts: "int (length (take (nat off) ?raw)) = off"
    "case res of Inl _ \<Rightarrow> True | Inr r \<Rightarrow> rrFragmentLen r = int (length (drop (nat off) ?raw))
      \<and> rrFragmentSHA r = kHash K (drop (nat off) ?raw)" "\<forall>m. m \<noteq> ?n \<longrightarrow> inodeOf d' m = inodeOf (race 0 d) m" by auto
  show ?thesis
    by (rule disjI2, rule exI [of _ ?n], rule exI [of _ "drop (nat off) ?raw"]) (use facts n other i c in auto)
qed

section \<open>A torn root is repaired\<close>

lemma recordsOf_torn:
  assumes "hashShaped K" "setRep K a d logID segs act link StateOpen ia" "tail \<noteq> []" "newline \<notin> set tail"
  shows "recordsOf K a (tear ia tail d) = concat segs @ act"
  by (rule Read_torn [OF assms, where mode = Unlocked]) (simp add: recordsOf_def)

text \<open>The active of a reachable open root, torn or not, with more bytes of a line after it.\<close>

lemma reachable_torn:
  assumes K: "goodCodec K" and re: "reachableFrom (absentRoot a) (controlStep K a) d"
    and st: "stateOf K a d = StateOpen" and ia: "inodeOf d a = Some ia"
    and t: "newline \<notin> set tail" "tail \<noteq> [] \<or> snd (snd (Read K quietIO Locked idle d a)) \<noteq> None"
  obtains d0 logID segs act link tail' where "setRep K a d0 logID segs act link StateOpen ia" "tail' \<noteq> []" "newline \<notin> set tail'"
    "tear ia tail d = tear ia tail' d0" "recordsOf K a d = concat segs @ act" "inodeOf d0 = inodeOf d"
    "snd (snd (Read K quietIO Locked idle d a)) = None \<longrightarrow> tail' = tail"
  using re
proof (rule reachable_rootE)
  assume "absentRoot a d"
  with ia show ?thesis by (simp add: absentRoot_def)
next
  fix logID rs st' n
  assume H: "rootHas K a d logID rs st' n"
  note h = goodCodec_hash [OF K]
  note fc = rootHas_facts [OF h H]
  with H st obtain segs act link ja where R0: "setRep K a d logID segs act link StateOpen ja"
    and rs: "rs = concat segs @ act" by (auto simp: rootHas_def)
  with ia have R: "setRep K a d logID segs act link StateOpen ia" using setRep_boundsD(6) [OF R0] by simp
  have "tail \<noteq> []" using t(2) Read_root [OF h R, of Locked] by simp
  with that [OF R _ t(1)] fc rs show ?thesis by simp
next
  fix logID rs n
  assume T: "tornHas K a d logID rs n"
  note h = goodCodec_hash [OF K]
  obtain d0 segs act link ja tail0 where R: "setRep K a d0 logID segs act link StateOpen ja" and rs: "rs = concat segs @ act"
    and t0: "tail0 \<noteq> []" "newline \<notin> set tail0" and d: "d = tear ja tail0 d0" using T unfolding tornHas_def by blast
  have ja: "ja = ia" using setRep_boundsD(6) [OF R] ia by (simp add: d)
  obtain v e where "Read K quietIO Locked idle d a = (d, v, Some e)" by (rule tornHas_read [OF h T, where mode = Locked])
  moreover have "tear ia tail d = tear ia (tail0 @ tail) d0" by (simp add: d ja writeNode_def)
  moreover have "inodeOf d0 = inodeOf d" by (intro ext) (simp add: d)
  ultimately show ?thesis
    using that [OF R [unfolded ja], of "tail0 @ tail"] t0 t(1) tornHas_facts(1) [OF h T] rs by simp
qed

text \<open>
  C14: a torn append is repaired. When the last write to an open ledger left part of a line behind (a cut
  append, seal or repair record, or any bytes without a newline), a read reports a torn tail and still returns every
  record. A repair that succeeds leaves a ledger that reads clean and open: the old records and one
  more, the repair record, which names the length and digest of the bytes moved aside; those bytes are the torn
  ones and stand in a new file. A repair that stops anywhere keeps every record, and adds none but a repair
  record whose write was reported as failed.
\<close>

theorem torn_append_is_repaired:
  assumes K: "goodCodec K" and re: "reachableFrom (absentRoot a) (controlStep K a) d" and ro: "roomy K a d"
    and st: "stateOf K a d = StateOpen" and ia: "inodeOf d a = Some ia" and ck: "goodClock ck"
    and t: "newline \<notin> set tail" "tail \<noteq> [] \<or> snd (snd (Read K quietIO Locked idle d a)) \<noteq> None"
    and rep: "Repair K quietIO idle idle ck crash sink (tear ia tail d) a op assertedAs witness = (d', res)"
  shows "\<exists>v f torn. Read K quietIO Locked idle (tear ia tail d) a = (tear ia tail d, v, Some (SetFault f))
    \<and> seFault f = FaultTorn \<and> vRecords v = recordsOf K a d
    \<and> contents (tear ia tail d) a = Some (fileBytes (activeRecords v) @ torn)
    \<and> (snd (snd (Read K quietIO Locked idle d a)) = None \<longrightarrow> torn = tail)
    \<and> (case res of
         Inl _ \<Rightarrow> recordsOf K a d' = recordsOf K a d
                  \<or> ckWrite ck \<noteq> WriteOk \<and> (\<exists>l r. recordsOf K a d' = recordsOf K a d @ [l]
                                              \<and> decodesTo K ck (recordsOf K a d) (repairEvent r op assertedAs witness) l)
       | Inr r \<Rightarrow>
           \<exists>l n. recordsOf K a d' = recordsOf K a d @ [l]
             \<and> decodesTo K ck (recordsOf K a d) (repairEvent r op assertedAs witness) l
             \<and> rrFragmentLen r = int (length torn) \<and> rrFragmentSHA r = kHash K torn
             \<and> inodeOf d n = None \<and> contents d' n = Some torn
             \<and> (\<exists>v. Read K quietIO Locked idle d' a = (d', v, None) \<and> vState v = StateOpen))"
proof -
  have h: "hashShaped K" by (rule goodCodec_hash [OF K])
  obtain d0 logID segs act link torn where R: "setRep K a d0 logID segs act link StateOpen ia" and t': "torn \<noteq> []" "newline \<notin> set torn"
    and eq: "tear ia tail d = tear ia torn d0" and rs: "recordsOf K a d = concat segs @ act" and ino: "inodeOf d0 = inodeOf d"
    and cl: "snd (snd (Read K quietIO Locked idle d a)) = None \<longrightarrow> torn = tail"
    by (rule reachable_torn [OF K re st ia t])
  have lt: "ia < dirNext d0" using wfDir_inode setRep_boundsD(6) [OF R] R by (auto simp: setRep_def historyRep_def)
  have len: "length (concat segs @ act) + 1 < seqMax" using ro rs by (simp add: roomy_def)
  obtain v where v: "Read K quietIO Locked idle (tear ia torn d0) a = (tear ia torn d0, v, Some (tornFault a segs act))"
    "vRecords v = concat segs @ act" "activeRecords v = act" by (rule Read_torn [OF h R t', where mode = Locked])
  have c: "contents (tear ia torn d0) a = Some (fileBytes act @ torn)"
    using setRep_boundsD(6) [OF R] root_chainD [OF R] by (simp add: contents_def)
  have "(case res of
         Inl _ \<Rightarrow> recordsOf K a d' = concat segs @ act
                  \<or> ckWrite ck \<noteq> WriteOk \<and> (\<exists>l r. recordsOf K a d' = (concat segs @ act) @ [l]
                                              \<and> decodesTo K ck (concat segs @ act) (repairEvent r op assertedAs witness) l)
       | Inr r \<Rightarrow>
           \<exists>l n. recordsOf K a d' = (concat segs @ act) @ [l]
             \<and> decodesTo K ck (concat segs @ act) (repairEvent r op assertedAs witness) l
             \<and> rrFragmentLen r = int (length torn) \<and> rrFragmentSHA r = kHash K torn
             \<and> inodeOf d n = None \<and> contents d' n = Some torn
             \<and> (\<exists>v. Read K quietIO Locked idle d' a = (d', v, None) \<and> vState v = StateOpen))"
    using K ck R t' len rep [unfolded eq]
  proof (rule Repair_torn_cases)
    fix err
    assume "res = Inl err" "d' = tear ia torn d0"
    with recordsOf_torn [OF h R t'] show ?thesis by simp
  next
    fix err k b
    assume r: "res = Inl err" "d' = freshFile (tornName a (ckUnix ck) k) b (tear ia torn d0)"
    have "recordsOf K a d' = concat segs @ act"
      using recordsOf_torn [OF h setRep_fragment [OF R] t'] by (simp only: r(2) tear_fragment [OF lt])
    with r show ?thesis by simp
  next
    fix err k
    assume r: "res = Inl err" "d' = freshFile (tornName a (ckUnix ck) k) torn d0"
    then have "recordsOf K a d' = concat segs @ act"
      using rootHas_facts(1) [OF h rootHasI [OF setRep_fragment [OF R]]] by simp
    with r show ?thesis by simp
  next
    fix err k tail'
    assume r: "res = Inl err" "tail' \<noteq> []" "newline \<notin> set tail'" "d' = tear ia tail' (freshFile (tornName a (ckUnix ck) k) torn d0)"
    then have "recordsOf K a d' = concat segs @ act"
      using recordsOf_torn [OF h setRep_fragment [OF R] r(2,3)] by simp
    with r show ?thesis by simp
  next
    fix k l logID' r
    let ?n = "tornName a (ckUnix ck) k"
    assume r: "res = Inr r \<or> ckWrite ck \<noteq> WriteOk \<and> (\<exists>err. res = Inl err)"
      and g: "rrFragmentLen r = int (length torn)" "rrFragmentSHA r = kHash K torn"
      "inodeOf d0 ?n = None" "contents d' ?n = Some torn"
      "decodesTo K ck (concat segs @ act) (repairEvent r op assertedAs witness) l"
      and R': "setRep K a d' logID' segs (act @ [l]) link StateOpen ia"
    have rec: "recordsOf K a d' = (concat segs @ act) @ [l]" using rootHas_facts(1) [OF h rootHasI [OF R']] by simp
    have "\<exists>v. Read K quietIO Locked idle d' a = (d', v, None) \<and> vState v = StateOpen"
      using Read_root [OF h R'] by (simp add: rootView_def)
    with r g rec ino show ?thesis by (elim disjE conjE exE) (simp only: sum.case, blast)+
  qed
  with v c cl show ?thesis
    unfolding rs eq by (intro exI [of _ v] exI [of _ "\<lparr>seFault = FaultTorn, seSegment = 0, sePath = a,
      seSeq = int (length (concat segs @ act)) + 1, seErr = LedgerCause (TornError (length (fileBytes act))),
      seNoManifest = False, seOlderBinary = False\<rparr>"] exI [of _ torn]) (simp add: tornFault_def setError_def)
qed

theorem repair_loses_no_byte_witness:
  "snd (moveTailAside demoCodec quietIO idle demoClock ''c'' 2 [''A''] (tear 0 ''x'' demoD1)) = Inr demoRepairResult
   \<and> contents (fst (moveTailAside demoCodec quietIO idle demoClock ''c'' 2 [''A''] (tear 0 ''x'' demoD1))) ''c''
     = Some (''A'' @ [newline])"
proof -
  let ?r = "moveTailAside demoCodec quietIO idle demoClock ''c'' 2 [''A''] (tear 0 ''x'' demoD1)"
  have wf: "wfDir (idle 0 (tear 0 ''x'' demoD1))" by code_simp
  have s: "snd ?r = Inr demoRepairResult" and c: "contents (idle 0 (tear 0 ''x'' demoD1)) ''c'' = Some (''A'' @ [newline] @ ''x'')"
    by code_simp+
  have l: "int (length p) = 2 \<Longrightarrow> p @ b = ''A'' @ [newline] @ ''x'' \<Longrightarrow> p = ''A'' @ [newline]" for p b :: bytes
    by (cases p; cases "tl p") auto
  have e: "?r = (fst ?r, snd ?r)" by (rule prod.collapse [symmetric])
  obtain p b where "contents (fst ?r) ''c'' = Some p" "contents (idle 0 (tear 0 ''x'' demoD1)) ''c'' = Some (p @ b)"
    "int (length p) = 2"
    using repair_loses_no_byte [where race = idle, OF wf e] unfolding s sum.case by blast
  with s c l show ?thesis by (metis option.inject)
qed

theorem torn_append_is_repaired_witness:
  "\<exists>l. recordsOf demoCodec ''c''
        (fst (Repair demoCodec quietIO idle idle demoClock '''' None (tear 0 ''x'' demoD1) ''c'' demoOperator '''' demoWitness))
      = [''A'', l]"
proof -
  let ?r = "Repair demoCodec quietIO idle idle demoClock '''' None (tear 0 ''x'' demoD1) ''c'' demoOperator '''' demoWitness"
  have s: "snd ?r = Inr demoRepairResult" by code_simp
  have x: "newline \<notin> set ''x''" by code_simp
  show ?thesis
    using torn_append_is_repaired [OF goodCodec_demo demo_reachable1 demo_roomy(2) demo_facts(2,4) goodClock_demo
        x _ prod.collapse [symmetric], of "''''" None demoOperator "''''" demoWitness]
    unfolding s demo_facts(1) by auto
qed

end
