(* ===== verification/Control_Restore.thy ===== *)
theory Control_Restore
  imports Control_Write Utf8
begin

text \<open>
  Package \<^verbatim>\<open>internal/control\<close>, restoring from the protected copies (\<^verbatim>\<open>restore.go\<close>, the reader's side of
  \<^verbatim>\<open>sink.go\<close>): \<open>Restore\<close> puts single sealed segments back, \<open>Rebuild\<close> reconstructs the whole sealed set
  and its manifest.

  A \<open>SinkReader\<close> is an argument: what the store answers to a listing, a read and a lock query.
  \<open>restoreIO\<close> collects the answers of the operating system that the directory does not determine, and
  what \<^verbatim>\<open>encoding/json\<close> reads as the prev of a line. An error keeps its cause and the values it names,
  not its fixed text.
\<close>

section \<open>Data\<close>

record SinkVersion =
  svID :: bytes
  svIsLatest :: bool
  svSize :: int
  svLastModified :: int

record SinkRetention =
  rnMode :: bytes
  rnRetainUntil :: int

record KeyVersions =
  kvKey :: bytes
  kvVersions :: "SinkVersion list"
  kvDeleteMarker :: bool

record SinkReader =
  sdPrefix :: "bytes \<Rightarrow> bytes"
  sdListVersions :: "bytes \<Rightarrow> bytes + KeyVersions"
  sdListPrefix :: "bytes \<Rightarrow> bytes + KeyVersions list"
  sdGetRetention :: "bytes \<Rightarrow> bytes \<Rightarrow> bytes + SinkRetention"
  sdGet :: "bytes \<Rightarrow> bytes \<Rightarrow> int \<Rightarrow> bytes + bytes"

record restoreIO =
  riUnix :: "bytes \<Rightarrow> nat"
  riStatFails :: "bytes \<Rightarrow> bool"
  riPeekFails :: bool
  riCreateFails :: "bytes \<Rightarrow> bool"
  riRenameFails :: "bytes \<Rightarrow> bool"
  riWriteFails :: "bytes \<Rightarrow> bool"
  riPrev :: "bytes \<Rightarrow> bytes option"

datatype fetch_error =
    FirstDoesNotChain
  | NoRecordVerifies
  | CopyBroken nat
  | CopyTorn nat
  | CopyNoGenesis
  | CopyOtherLedger bytes
  | RecordAfterSeal nat
  | LastNotSeal
  | SealDisagrees
  | NoSinkBlock
  | OtherKey bytes
  | RetainNotAfterSeal
  | CopyBytesNotRecords

datatype restore_error =
    NotARestoreEvent
  | NothingToRestore
  | IncompleteRotation
  | Found control_error
  | FoundRebuild control_error bytes
  | NotAtFault nat nat
  | SinkError nat bytes
  | CopyMissing nat
  | CopyNotContinued nat nat
  | LockUnread nat bytes
  | NotWritten nat control_error
  | NotAppended nat control_error
  | OtherIdentity bytes
  | ForeignKey bytes
  | SinkHoldsNothing
  | SinkHole nat
  | CopyRejected nat fetch_error
  | ManifestNotWritten control_error
  | ActiveNotCreated control_error
  | NotRecorded restore_error

record RestoredSegment =
  rgN :: nat
  rgSink :: SealSink
  rgVersionID :: bytes
  rgSHA256 :: bytes
  rgReplaced :: bytes
  rgNotOldest :: bool
  rgUnlocked :: bool
  rgManifestDisagrees :: bool

record RestoreResult =
  rzRestored :: "RestoredSegment list"
  rzHead :: LogicalHead

record RebuildResult =
  rbSegments :: nat
  rbWritten :: nat
  rbReplaced :: nat
  rbReplacedNames :: "bytes list"
  rbManifestReplaced :: bytes
  rbActiveCreated :: bool
  rbHead :: LogicalHead
  rbUnderLocked :: "nat list"
  rbMarkerOnly :: "nat list"
  rbLocalOnly :: "nat list"
  rbDropped :: "nat list"
  rbManifestWritten :: bool

definition maxRestoreBody :: int where
  "maxRestoreBody = 256 * 1048576"

definition maxRecordLine :: nat where
  "maxRecordLine = 65536"

definition checkRestoreEvent :: "ControlEvent \<Rightarrow> restore_error option" where
  "checkRestoreEvent e =
     (if ceAction e \<noteq> ''restore'' \<or> ceOutcome e \<noteq> ''success'' \<or> ceDetail e \<noteq> [] then Some NotARestoreEvent else None)"

section \<open>Peeking at the local files\<close>

text \<open>The last newline-terminated line of a file, read from a bounded tail.\<close>

definition lastLine :: "bytes \<Rightarrow> bytes option" where
  "lastLine file =
     (let off = length file - maxRecordLine; buf = drop off file
      in if buf = [] \<or> last buf \<noteq> newline then None
         else let body = butlast buf
              in if newline \<notin> set body \<and> off > 0 then None
                 else Some (rev (takeWhile (\<lambda>c. c \<noteq> newline) (rev body))))"

definition incompleteRotation :: "codec \<Rightarrow> restoreIO \<Rightarrow> directory \<Rightarrow> bytes \<Rightarrow> nat \<Rightarrow> control_error + bool" where
  "incompleteRotation K ri d resolved listed =
     (case inodeOf d resolved of
        None \<Rightarrow> Inr False
      | Some ino \<Rightarrow>
          if riStatFails ri resolved then Inl IOFault
          else if listed > 0 \<and> sameFile d (SegmentPath resolved listed) ino then Inr True
          else if riPeekFails ri then Inl IOFault
          else (case lastLine (dirNode d ino) of
                 None \<Rightarrow> Inr False
               | Some line \<Rightarrow> Inr (successfulSeal K line \<noteq> None)))"

text \<open>What \<^verbatim>\<open>bufio.ReadBytes\<close> gives of a file cut at a bound: the first line, and whether it ended.\<close>

definition firstLine :: "nat \<Rightarrow> bytes \<Rightarrow> bytes \<times> bool" where
  "firstLine bound file = (let buf = take bound file in (takeWhile (\<lambda>c. c \<noteq> newline) buf, newline \<in> set buf))"

definition firstPrev :: "restoreIO \<Rightarrow> directory \<Rightarrow> bytes \<Rightarrow> bytes" where
  "firstPrev ri d path =
     (case contents d path of
        None \<Rightarrow> ''''
      | Some file \<Rightarrow>
          (case firstLine maxRecordLine file of
             (line, ended) \<Rightarrow>
               if \<not> ended then ''''
               else (case riPrev ri (line @ [newline]) of None \<Rightarrow> '''' | Some p \<Rightarrow> p)))"

definition unknownID :: bytes where
  "unknownID = ''<id>''"

definition rootLogID :: "codec \<Rightarrow> setIO \<Rightarrow> directory \<Rightarrow> bytes \<Rightarrow> View \<Rightarrow> bytes" where
  "rootLogID K io d resolved v =
     (if vLogID v \<noteq> '''' then vLogID v
      else case GenesisLogID (kLogIDOf K) (vRecords v) of
             Some i \<Rightarrow> i
           | None \<Rightarrow>
               (case loadManifest K io d resolved of
                  Inr (Some m) \<Rightarrow> mfLogID m
                | _ \<Rightarrow>
                    (case contents d (SegmentPath resolved 1) of
                       None \<Rightarrow> unknownID
                     | Some file \<Rightarrow>
                         (case GenesisLogID (kLogIDOf K) [fst (firstLine maxGenesisLine file)] of
                            Some i \<Rightarrow> i
                          | None \<Rightarrow> unknownID))))"

section \<open>Judging a fetched copy\<close>

text \<open>The first record before the last that is a successful seal, by its line.\<close>

fun sealLine :: "codec \<Rightarrow> nat \<Rightarrow> bytes list \<Rightarrow> nat option" where
  "sealLine K i [] = None"
| "sealLine K i (r # rs) = (if successfulSeal K r \<noteq> None then Some i else sealLine K (i + 1) rs)"

definition fetchedSeal ::
  "codec \<Rightarrow> nat \<Rightarrow> Start \<Rightarrow> bytes \<Rightarrow> bytes list \<Rightarrow> fetch_error + controlRecord \<times> SealSink" where
  "fetchedSeal K k s key recs =
     (case successfulSeal K (last recs) of
        None \<Rightarrow> Inl LastNotSeal
      | Some rc \<Rightarrow>
          (case crSeal rc of
             None \<Rightarrow> Inl LastNotSeal
           | Some sl \<Rightarrow>
               let want = \<lparr>slSegment = int k, slFirstSeq = goInt (uint (startBase s) + 1), slHeadSeq = goInt (crSeq rc - 1),
                           slHeadHash = crPrev rc, slContentSHA256 = sealContentDigest K (butlast recs), slSink = None\<rparr>
               in if \<not> sealChainFieldsAgree (Some sl) want then Inl SealDisagrees
                  else (case slSink sl of
                         None \<Rightarrow> Inl NoSinkBlock
                       | Some block \<Rightarrow>
                           if ssKey block \<noteq> key then Inl (OtherKey (ssKey block))
                           else if \<not> ssRetainUntil block > crTime rc then Inl RetainNotAfterSeal
                           else Inr (rc, block))))"

definition verifyFetchedSegment ::
  "codec \<Rightarrow> bytes \<Rightarrow> nat \<Rightarrow> Start \<Rightarrow> bytes \<Rightarrow> bytes \<Rightarrow> fetch_error + Segment \<times> bytes list" where
  "verifyFetchedSegment K data k s logID key =
     (let (recs, head, err) = VerifyReader (kUnm K) (kHash K) \<lparr>rdBytes = data, rdFault = False\<rparr> s
      in if err = Some (ChainBrokenError 1) \<and> k \<ge> 2 then Inl FirstDoesNotChain
         else if recs = [] then Inl NoRecordVerifies
         else (case err of
                Some (ChainBrokenError l) \<Rightarrow> Inl (CopyBroken l)
              | Some _ \<Rightarrow> Inl (CopyTorn (length recs))
              | None \<Rightarrow>
                  (case (if k = 1
                         then (case GenesisLogID (kLogIDOf K) recs of
                                 None \<Rightarrow> Some CopyNoGenesis
                               | Some i \<Rightarrow> if i \<noteq> logID then Some (CopyOtherLedger i) else None)
                         else None) of
                     Some e \<Rightarrow> Inl e
                   | None \<Rightarrow>
                       (case sealLine K 1 (butlast recs) of
                          Some l \<Rightarrow> Inl (RecordAfterSeal l)
                        | None \<Rightarrow>
                            (case fetchedSeal K k s key recs of
                               Inl e \<Rightarrow> Inl e
                             | Inr (rc, block) \<Rightarrow>
                                 (case segmentDigests K recs of
                                    (whole, sz) \<Rightarrow>
                                      if sz \<noteq> int (length data) then Inl CopyBytesNotRecords
                                      else Inr (\<lparr>sgN = k, sgPath = '''', sgFirstSeq = goInt (uint (startBase s) + 1),
                                                 sgHeadSeq = goInt (uint (startBase s) + int (headCount head)),
                                                 sgHeadHash = headHash head, sgSHA256 = whole, sgBytes = sz,
                                                 sgRecords = headCount head, sgSealedAt = crTime rc,
                                                 sgSink = Some block\<rparr>, recs)))))))"

section \<open>Writing beside the ledger\<close>

text \<open>The active opened by name and held under its exclusive lock; \<open>race\<close> acts before the lock is had.\<close>

definition holdActive ::
  "setIO \<Rightarrow> (nat \<Rightarrow> directory \<Rightarrow> directory) \<Rightarrow> directory \<Rightarrow> bytes \<Rightarrow> directory \<times> control_error option" where
  "holdActive io race d resolved =
     (case inodeOf d resolved of
        None \<Rightarrow> (d, Some NotExist)
      | Some ino \<Rightarrow>
          if ioOpenFails io then (d, Some IOFault)
          else
            let d = race 0 d
            in (case ioLock io of
                 Some e \<Rightarrow> (d, Some (LedgerFault e))
               | None \<Rightarrow>
                   if ioStatFails io then (d, Some IOFault)
                   else if \<not> sameFile d resolved ino then (d, Some (Refused ''rotated while it was being restored''))
                   else (d, None)))"

definition trimSuffix :: "bytes \<Rightarrow> bytes \<Rightarrow> bytes" where
  "trimSuffix s t = (if hasSuffix s t then take (length s - length t) s else s)"

definition replacedStem :: "bytes \<Rightarrow> bytes \<Rightarrow> nat \<Rightarrow> bytes" where
  "replacedStem path what unix =
     trimSuffix (trimSuffix path (''.seg-'' @ what)) (''.'' @ what) @ ''.replaced-'' @ what @ ''-'' @ showDigits unix"

definition replacedName :: "bytes \<Rightarrow> bytes \<Rightarrow> nat \<Rightarrow> nat \<Rightarrow> bytes" where
  "replacedName path what unix attempt =
     replacedStem path what unix @ (if attempt > 0 then CHR ''-'' # showDigits (attempt + 1) else [])"

text \<open>\<open>os.Rename\<close>.\<close>

definition renameName :: "bytes \<Rightarrow> bytes \<Rightarrow> directory \<Rightarrow> directory" where
  "renameName old new d =
     (case inodeOf d old of None \<Rightarrow> d | Some ino \<Rightarrow> linkName new ino (removeNames (\<lambda>n. n = old) d))"

fun asideLoop :: "restoreIO \<Rightarrow> bytes \<Rightarrow> bytes \<Rightarrow> nat \<Rightarrow> directory \<Rightarrow> directory \<times> (control_error + bytes)" where
  "asideLoop ri path what 0 d = (d, Inl (Refused ''could not claim a fresh replaced-file name''))"
| "asideLoop ri path what (Suc left) d =
     (let candidate = replacedName path what (riUnix ri path) (maxTornFragmentAttempts - Suc left)
      in if inodeOf d candidate \<noteq> None then asideLoop ri path what left d
         else if riCreateFails ri candidate then (d, Inl IOFault)
         else
           let d' = freshFile candidate [] d
           in if riRenameFails ri path then (removeNames (\<lambda>n. n = candidate) d', Inl IOFault)
              else (renameName path candidate d', Inr candidate))"

definition moveAsideReplaced :: "restoreIO \<Rightarrow> bytes \<Rightarrow> bytes \<Rightarrow> directory \<Rightarrow> directory \<times> (control_error + bytes)" where
  "moveAsideReplaced ri path what d = asideLoop ri path what maxTornFragmentAttempts d"

definition writeRestored :: "restoreIO \<Rightarrow> bytes \<Rightarrow> bytes \<Rightarrow> directory \<Rightarrow> directory \<times> control_error option" where
  "writeRestored ri dest data d = Replace (riWriteFails ri dest) dest data d"

definition sameBytes :: "restoreIO \<Rightarrow> directory \<Rightarrow> bytes \<Rightarrow> bytes \<Rightarrow> control_error + bool option" where
  "sameBytes ri d path data =
     (case contents d path of
        None \<Rightarrow> Inr None
      | Some have \<Rightarrow> if riStatFails ri path then Inl IOFault else Inr (Some (have = data)))"

section \<open>Restoring single segments\<close>

definition restorable ::
  "codec \<Rightarrow> setIO \<Rightarrow> directory \<Rightarrow> bytes \<Rightarrow> View \<Rightarrow> control_error \<Rightarrow> restore_error + nat \<times> Manifest" where
  "restorable K io d resolved v verr =
     (case verr of
        SetFault se \<Rightarrow>
          if seFault se = FaultActiveMissing \<or> seFault se = FaultManifest \<and> seSegment se = 0
             \<or> seFault se = FaultUnexpectedSegment \<and> seNoManifest se
          then Inl (FoundRebuild verr (rootLogID K io d resolved v))
          else if seSegment se = 0 then Inl (Found verr)
          else if \<not> List.member [FaultMissingSegment, FaultTorn, FaultBroken, FaultManifest, FaultBoundary] (seFault se)
          then Inl (Found verr)
          else (case loadManifest K io d resolved of
                 Inl e \<Rightarrow> Inl (Found e)
               | Inr None \<Rightarrow> Inl (Found verr)
               | Inr (Some m) \<Rightarrow>
                   if seSegment se > int (length (mfSegments m)) \<or> int (length (vSealed v)) \<noteq> seSegment se - 1
                   then Inl (Found verr)
                   else Inr (nat (seSegment se), m))
      | _ \<Rightarrow> Inl (Found verr))"

text \<open>
  The versions at a key, oldest first: the first that is segment \<open>k\<close> and that what follows continues.
  \<open>chained\<close> counts the copies that chain and are not continued.
\<close>

fun selectVersion ::
  "codec \<Rightarrow> SinkReader \<Rightarrow> bytes \<Rightarrow> nat \<Rightarrow> Start \<Rightarrow> bytes \<Rightarrow> int \<Rightarrow> bytes \<Rightarrow> nat \<Rightarrow> nat \<Rightarrow> SinkVersion list \<Rightarrow>
   restore_error + (nat \<times> bytes \<times> SinkVersion \<times> bytes \<times> Segment)" where
  "selectVersion K r key k s logID bound nextPrev i chained [] =
     Inl (if chained > 0 then CopyNotContinued k chained else CopyMissing k)"
| "selectVersion K r key k s logID bound nextPrev i chained (ver # vers) =
     (case sdGet r key (svID ver) (min (max bound (svSize ver)) maxRestoreBody) of
        Inl e \<Rightarrow> Inl (SinkError k e)
      | Inr b \<Rightarrow>
          (case verifyFetchedSegment K b k s logID key of
             Inl _ \<Rightarrow> selectVersion K r key k s logID bound nextPrev (i + 1) chained vers
           | Inr (sg, _) \<Rightarrow>
               if nextPrev \<noteq> '''' \<and> sgHeadHash sg \<noteq> nextPrev
               then selectVersion K r key k s logID bound nextPrev (i + 1) (chained + 1) vers
               else Inr (i, key, ver, b, sg)))"

definition prefixStart :: "View \<Rightarrow> nat \<Rightarrow> Start" where
  "prefixStart v k =
     (if k \<ge> 2
      then (let prev = vSealed v ! (k - 2)
            in \<lparr>startPrev = sgHeadHash prev, startBase = word_of_int (sgHeadSeq prev)\<rparr>)
      else zeroStart)"

definition nextName :: "bytes \<Rightarrow> Manifest \<Rightarrow> nat \<Rightarrow> bytes" where
  "nextName resolved m k = (if k = length (mfSegments m) then resolved else SegmentPath resolved (k + 1))"

text \<open>The selection: every call to the sink, nothing written.\<close>

definition selectCopy ::
  "codec \<Rightarrow> restoreIO \<Rightarrow> directory \<Rightarrow> bytes \<Rightarrow> View \<Rightarrow> Manifest \<Rightarrow> nat \<Rightarrow> control_error \<Rightarrow> SinkReader \<Rightarrow>
   restore_error + RestoredSegment \<times> bytes" where
  "selectCopy K ri d resolved v m k verr r =
     (let s = prefixStart v k;
          entry = mfSegments m ! (k - 1);
          bound = (case verr of
                     SetFault se \<Rightarrow> if seFault se \<noteq> FaultManifest then meBytes entry else maxRestoreBody
                   | _ \<Rightarrow> maxRestoreBody);
          key = sdPrefix r (vLogID v) @ ''seg-'' @ pad6 k
      in case sdListVersions r key of
           Inl e \<Rightarrow> Inl (SinkError k e)
         | Inr kv \<Rightarrow>
             (case selectVersion K r key k s (vLogID v) bound (firstPrev ri d (nextName resolved m k)) 0 0 (kvVersions kv) of
                Inl e \<Rightarrow> Inl e
              | Inr (i, _, ver, data, sg) \<Rightarrow>
                  (case sdGetRetention r key (svID ver) of
                     Inl e \<Rightarrow> Inl (LockUnread k e)
                   | Inr lock \<Rightarrow>
                       Inr (\<lparr>rgN = k, rgSink = the (sgSink sg), rgVersionID = svID ver, rgSHA256 = sgSHA256 sg,
                             rgReplaced = '''', rgNotOldest = i > 0, rgUnlocked = rnMode lock \<noteq> ''COMPLIANCE'',
                             rgManifestDisagrees = meSHA256 entry \<noteq> sgSHA256 sg\<rparr>, data))))"

text \<open>Under the active's lock: sweep, move what stands under the name aside, write the copy.\<close>

definition putBack ::
  "restoreIO \<Rightarrow> setIO \<Rightarrow> bytes \<Rightarrow> nat \<Rightarrow> bytes \<Rightarrow> directory \<Rightarrow> directory \<times> (restore_error + bytes)" where
  "putBack ri io resolved k data d =
     (let d = sweepTemps io resolved d; path = SegmentPath resolved k
      in case (if inodeOf d path \<noteq> None
               then (if riStatFails ri path then (d, Inl IOFault) else moveAsideReplaced ri path (pad6 k) d)
               else (d, Inr '''')) of
           (d, Inl e) \<Rightarrow> (d, Inl (Found e))
         | (d, Inr replaced) \<Rightarrow>
             (case writeRestored ri path data d of
                (d, Some e) \<Rightarrow> (d, Inl (NotWritten k e))
              | (d, None) \<Rightarrow> (d, Inr replaced)))"

definition restoreSegment ::
  "codec \<Rightarrow> restoreIO \<Rightarrow> setIO \<Rightarrow> (nat \<Rightarrow> directory \<Rightarrow> directory) \<Rightarrow> bytes \<Rightarrow> View \<Rightarrow> Manifest \<Rightarrow> nat \<Rightarrow>
   control_error \<Rightarrow> SinkReader \<Rightarrow> directory \<Rightarrow> directory \<times> (restore_error + RestoredSegment)" where
  "restoreSegment K ri io race resolved v m k verr r d =
     (case selectCopy K ri d resolved v m k verr r of
        Inl e \<Rightarrow> (d, Inl e)
      | Inr (out, data) \<Rightarrow>
          (case holdActive io race d resolved of
             (d, Some e) \<Rightarrow> (d, Inl (Found e))
           | (d, None) \<Rightarrow>
               (case putBack ri io resolved k data d of
                  (d, Inl e) \<Rightarrow> (d, Inl e)
                | (d, Inr replaced) \<Rightarrow> (d, Inr (out\<lparr>rgReplaced := replaced\<rparr>)))))"

text \<open>
  The loop of \<open>Restore\<close>. A pass restores one more segment or leaves the loop, and the ordinals only grow;
  \<open>fuel\<close> bounds the passes.
\<close>

fun restoreLoop ::
  "nat \<Rightarrow> codec \<Rightarrow> restoreIO \<Rightarrow> setIO \<Rightarrow> (nat \<Rightarrow> directory \<Rightarrow> directory) \<Rightarrow> bytes \<Rightarrow> nat list option \<Rightarrow> SinkReader \<Rightarrow>
   nat \<Rightarrow> RestoredSegment list \<Rightarrow> directory \<Rightarrow>
   (directory \<times> RestoredSegment list \<times> restore_error option) option" where
  "restoreLoop 0 K ri io race resolved only r lastN acc d = None"
| "restoreLoop (Suc fuel) K ri io race resolved only r lastN acc d =
     (case Read K io Locked race d resolved of
        (d, v, None) \<Rightarrow>
          Some (d, acc, if vState v \<noteq> StateOpen then Some IncompleteRotation
                        else if lastN = 0 then Some NothingToRestore else None)
      | (d, v, Some verr) \<Rightarrow>
          (case restorable K io d resolved v verr of
             Inl e \<Rightarrow> Some (d, acc, Some e)
           | Inr (k, m) \<Rightarrow>
               if k \<le> lastN then Some (d, acc, Some (Found verr))
               else
                 (case incompleteRotation K ri d resolved (length (mfSegments m)) of
                    Inl e \<Rightarrow> Some (d, acc, Some (Found e))
                  | Inr True \<Rightarrow> Some (d, acc, Some IncompleteRotation)
                  | Inr False \<Rightarrow>
                      if (case only of None \<Rightarrow> False | Some ns \<Rightarrow> \<not> List.member ns k)
                      then Some (d, acc, Some (case find (\<lambda>n. n > lastN) (sort (the only)) of
                                                 Some n \<Rightarrow> NotAtFault n k
                                               | None \<Rightarrow> Found verr))
                      else
                        (case restoreSegment K ri io race resolved v m k verr r d of
                           (d, Inl e) \<Rightarrow> Some (d, acc, Some e)
                         | (d, Inr seg) \<Rightarrow>
                             restoreLoop fuel K ri io race resolved only r k (acc @ [seg]) d))))"

text \<open>\<open>filepath.Base\<close> of a path without a trailing separator: what follows the last one.\<close>

definition pathBase :: "bytes \<Rightarrow> bytes" where
  "pathBase p = rev (takeWhile (\<lambda>c. c \<noteq> CHR ''/'') (rev p))"

text \<open>The detail of a restore record, over bytes; the event's detail is its runes.\<close>

definition restoreDetail :: "RestoredSegment \<Rightarrow> bytes" where
  "restoreDetail s =
     ''segment '' @ showDigits (rgN s) @ '' restored from '' @ ssKind (rgSink s) @ '' version '' @ rgVersionID s @ ''; ''
     @ (if rgReplaced s = '''' then ''nothing was there'' else ''replaced bytes kept at '' @ pathBase (rgReplaced s))"

fun recordRestores ::
  "codec \<Rightarrow> setIO \<Rightarrow> (nat \<Rightarrow> directory \<Rightarrow> directory) \<Rightarrow> (nat \<Rightarrow> directory \<Rightarrow> directory) \<Rightarrow> clock \<Rightarrow> bytes \<Rightarrow>
   ControlEvent \<Rightarrow> RestoredSegment list \<Rightarrow> LogicalHead \<Rightarrow> directory \<Rightarrow> directory \<times> LogicalHead \<times> restore_error option" where
  "recordRestores K io race race' ck resolved e [] head d = (d, head, None)"
| "recordRestores K io race race' ck resolved e (s # ss) head d =
     (case Append K io race race' ck d resolved (e\<lparr>ceDetail := runesOf (restoreDetail s)\<rparr>) of
        (d, Inl err) \<Rightarrow> (d, head, Some (NotAppended (rgN s) err))
      | (d, Inr head) \<Rightarrow> recordRestores K io race race' ck resolved e ss head d)"

definition noLogicalHead :: LogicalHead where
  "noLogicalHead = \<lparr>lhHash = '''', lhCount = 0\<rparr>"

definition Restore ::
  "nat \<Rightarrow> codec \<Rightarrow> restoreIO \<Rightarrow> setIO \<Rightarrow> (nat \<Rightarrow> directory \<Rightarrow> directory) \<Rightarrow> (nat \<Rightarrow> directory \<Rightarrow> directory) \<Rightarrow> clock \<Rightarrow>
   directory \<Rightarrow> bytes \<Rightarrow> nat list option \<Rightarrow> SinkReader \<Rightarrow> ControlEvent \<Rightarrow>
   (directory \<times> RestoreResult \<times> restore_error option) option" where
  "Restore fuel K ri io race race' ck d resolved only r e =
     (case checkRestoreEvent e of
        Some err \<Rightarrow> Some (d, \<lparr>rzRestored = [], rzHead = noLogicalHead\<rparr>, Some err)
      | None \<Rightarrow>
          (case restoreLoop fuel K ri io race resolved only r 0 [] d of
             None \<Rightarrow> None
           | Some (d, acc, Some err) \<Rightarrow> Some (d, \<lparr>rzRestored = acc, rzHead = noLogicalHead\<rparr>, Some err)
           | Some (d, acc, None) \<Rightarrow>
               (case recordRestores K io race race' ck resolved e acc noLogicalHead d of
                  (d, head, err) \<Rightarrow> Some (d, \<lparr>rzRestored = acc, rzHead = head\<rparr>, err))))"

section \<open>Rebuilding the sealed set\<close>

definition sinkOrdinal :: "bytes \<Rightarrow> nat" where
  "sinkOrdinal sub =
     (if has_prefix sub ''seg-'' \<and> length sub = 10 \<and> list_all isDigit (drop 4 sub) then Atoi (drop 4 sub) else 0)"

definition trimPrefix :: "bytes \<Rightarrow> bytes \<Rightarrow> bytes" where
  "trimPrefix s p = (if has_prefix s p then drop (length p) s else s)"

text \<open>The listing by ordinal, and the ordinals whose key holds a delete marker only.\<close>

fun byOrdinal ::
  "bytes \<Rightarrow> KeyVersions list \<Rightarrow> (nat \<times> KeyVersions) list \<Rightarrow> nat list \<Rightarrow>
   restore_error + (nat \<times> KeyVersions) list \<times> nat list" where
  "byOrdinal pfx [] held markers = Inr (held, markers)"
| "byOrdinal pfx (kv # kvs) held markers =
     (let n = sinkOrdinal (trimPrefix (kvKey kv) pfx)
      in if n = 0 then Inl (ForeignKey (kvKey kv))
         else if kvVersions kv = [] then byOrdinal pfx kvs held (markers @ [n])
         else byOrdinal pfx kvs ((n, kv) # filter (\<lambda>e. fst e \<noteq> n) held) markers)"

record fetchedSegment =
  fsData :: bytes
  fsSeg :: Segment

record fetchedChain =
  fcSegments :: "fetchedSegment list"
  fcUnderLocked :: "nat list"
  fcMarkerOnly :: "nat list"

text \<open>Ordinals \<open>k\<close> to \<open>k + left - 1\<close>: fetched, judged as the next link of the chain, their locks read.\<close>

fun fetchLoop ::
  "codec \<Rightarrow> SinkReader \<Rightarrow> bytes \<Rightarrow> (nat \<times> KeyVersions) list \<Rightarrow> nat \<Rightarrow> nat \<Rightarrow> Start \<Rightarrow> fetchedChain \<Rightarrow>
   restore_error + fetchedChain" where
  "fetchLoop K r logID held k 0 s acc = Inr acc"
| "fetchLoop K r logID held k (Suc left) s acc =
     (let kv = the (map_of held k); vid = svID (hd (kvVersions kv))
      in case sdGet r (kvKey kv) vid maxRestoreBody of
           Inl e \<Rightarrow> Inl (SinkError k e)
         | Inr data \<Rightarrow>
             (case verifyFetchedSegment K data k s logID (kvKey kv) of
                Inl e \<Rightarrow> Inl (CopyRejected k e)
              | Inr (sg, _) \<Rightarrow>
                  (case sdGetRetention r (kvKey kv) vid of
                     Inl e \<Rightarrow> Inl (LockUnread k e)
                   | Inr lock \<Rightarrow>
                       fetchLoop K r logID held (k + 1) left
                         \<lparr>startPrev = sgHeadHash sg, startBase = word_of_int (sgHeadSeq sg)\<rparr>
                         (acc\<lparr>fcSegments := fcSegments acc @ [\<lparr>fsData = data, fsSeg = sg\<rparr>],
                              fcUnderLocked := fcUnderLocked acc
                                @ (if rnMode lock \<noteq> ''COMPLIANCE'' \<or> rnRetainUntil lock < ssRetainUntil (the (sgSink sg))
                                   then [k] else [])\<rparr>))))"

definition fetchChain :: "codec \<Rightarrow> bytes \<Rightarrow> SinkReader \<Rightarrow> restore_error + fetchedChain" where
  "fetchChain K logID r =
     (let pfx = sdPrefix r logID
      in case sdListPrefix r pfx of
           Inl e \<Rightarrow> Inl (SinkError 0 e)
         | Inr listed \<Rightarrow>
             (case byOrdinal pfx listed [] [] of
                Inl e \<Rightarrow> Inl e
              | Inr (held, markers) \<Rightarrow>
                  let ords = sort (map fst held)
                  in if ords = [] then Inl SinkHoldsNothing
                     else (case find (\<lambda>k. map_of held k = None) [1..<last ords + 1] of
                            Some k \<Rightarrow> Inl (SinkHole k)
                          | None \<Rightarrow>
                              fetchLoop K r logID held 1 (last ords) zeroStart
                                \<lparr>fcSegments = [], fcUnderLocked = [], fcMarkerOnly = sort markers\<rparr>)))"

definition noRebuild :: RebuildResult where
  "noRebuild = \<lparr>rbSegments = 0, rbWritten = 0, rbReplaced = 0, rbReplacedNames = [], rbManifestReplaced = '''',
     rbActiveCreated = False, rbHead = noLogicalHead, rbUnderLocked = [], rbMarkerOnly = [], rbLocalOnly = [],
     rbDropped = [], rbManifestWritten = False\<rparr>"

text \<open>The segment files, ascending: an identical one stays, a differing one is moved aside first.\<close>

fun rebuildFiles ::
  "restoreIO \<Rightarrow> bytes \<Rightarrow> nat \<Rightarrow> fetchedSegment list \<Rightarrow> RebuildResult \<Rightarrow> directory \<Rightarrow>
   directory \<times> RebuildResult \<times> restore_error option" where
  "rebuildFiles ri resolved k [] res d = (d, res, None)"
| "rebuildFiles ri resolved k (f # fs) res d =
     (let path = SegmentPath resolved k
      in case sameBytes ri d path (fsData f) of
           Inl e \<Rightarrow> (d, res, Some (Found e))
         | Inr (Some True) \<Rightarrow> rebuildFiles ri resolved (k + 1) fs res d
         | Inr (Some False) \<Rightarrow>
             (case moveAsideReplaced ri path (pad6 k) d of
                (d, Inl e) \<Rightarrow> (d, res, Some (Found e))
              | (d, Inr name) \<Rightarrow>
                  let res = res\<lparr>rbReplaced := rbReplaced res + 1, rbReplacedNames := rbReplacedNames res @ [name]\<rparr>
                  in (case writeRestored ri path (fsData f) d of
                       (d, Some e) \<Rightarrow> (d, res, Some (NotWritten k e))
                     | (d, None) \<Rightarrow> rebuildFiles ri resolved (k + 1) fs (res\<lparr>rbWritten := rbWritten res + 1\<rparr>) d))
         | Inr None \<Rightarrow>
             (case writeRestored ri path (fsData f) d of
                (d, Some e) \<Rightarrow> (d, res, Some (NotWritten k e))
              | (d, None) \<Rightarrow> rebuildFiles ri resolved (k + 1) fs (res\<lparr>rbWritten := rbWritten res + 1\<rparr>) d))"

text \<open>Local entries beyond the sink's: kept while their files verify, dropped from the first that does not.\<close>

fun keepLocal ::
  "codec \<Rightarrow> setIO \<Rightarrow> directory \<Rightarrow> bytes \<Rightarrow> nat \<Rightarrow> Start \<Rightarrow> ManifestEntry list \<Rightarrow> Segment list \<times> nat list" where
  "keepLocal K io d resolved j s [] = ([], [])"
| "keepLocal K io d resolved j s (e # es) =
     (case verifySealed K io d resolved j s e of
        (_, Inl _) \<Rightarrow> ([], [j..<j + length (e # es)])
      | (_, Inr sg) \<Rightarrow>
          (case keepLocal K io d resolved (j + 1) \<lparr>startPrev = sgHeadHash sg, startBase = word_of_int (sgHeadSeq sg)\<rparr> es of
             (kept, dropped) \<Rightarrow> (sg # kept, dropped)))"

definition rebuiltManifest ::
  "codec \<Rightarrow> setIO \<Rightarrow> directory \<Rightarrow> bytes \<Rightarrow> bytes \<Rightarrow> fetchedSegment list \<Rightarrow> Manifest \<times> nat list \<times> nat list" where
  "rebuiltManifest K io d resolved logID fetched =
     (let lastSeg = fsSeg (last fetched); n = length fetched;
          (kept, dropped) =
            (case loadManifest K io d resolved of
               Inr (Some old) \<Rightarrow>
                 keepLocal K io d resolved (n + 1)
                   \<lparr>startPrev = sgHeadHash lastSeg, startBase = word_of_int (sgHeadSeq lastSeg)\<rparr> (drop n (mfSegments old))
             | _ \<Rightarrow> ([], []))
      in (\<lparr>mfV = ''segments/1'', mfLogID = logID, mfSegments = map (manifestEntry resolved) (map fsSeg fetched @ kept)\<rparr>,
          [n + 1..<n + 1 + length kept], dropped))"

definition rebuildManifest ::
  "codec \<Rightarrow> restoreIO \<Rightarrow> setIO \<Rightarrow> clock \<Rightarrow> bytes \<Rightarrow> Manifest \<Rightarrow> RebuildResult \<Rightarrow> directory \<Rightarrow>
   directory \<times> RebuildResult \<times> restore_error option" where
  "rebuildManifest K ri io ck resolved m res d =
     (case kManifest K m of
        None \<Rightarrow> (d, res, Some (Found IOFault))
      | Some data \<Rightarrow>
          let path = ManifestPath resolved;
              write = (\<lambda>res d. case writeManifest K ck resolved m d of
                                 (d, Some e) \<Rightarrow> (d, res, Some (ManifestNotWritten e))
                               | (d, None) \<Rightarrow> (d, res\<lparr>rbManifestWritten := True\<rparr>, None))
          in (case contents d path of
               None \<Rightarrow> write res d
             | Some have \<Rightarrow>
                 if riStatFails ri path then (d, res, Some (Found IOFault))
                 else if have = data then (d, res, None)
                 else (case moveAsideReplaced ri path ''segments'' d of
                        (d, Inl e) \<Rightarrow> (d, res, Some (Found e))
                      | (d, Inr name) \<Rightarrow>
                          write (res\<lparr>rbManifestReplaced := name, rbReplacedNames := rbReplacedNames res @ [name]\<rparr>) d)))"

definition rebuildWrite ::
  "codec \<Rightarrow> restoreIO \<Rightarrow> setIO \<Rightarrow> clock \<Rightarrow> bytes \<Rightarrow> bytes \<Rightarrow> bytes \<Rightarrow> fetchedSegment list \<Rightarrow> bool \<Rightarrow> directory \<Rightarrow>
   directory \<times> RebuildResult \<times> restore_error option" where
  "rebuildWrite K ri io ck crash resolved logID fetched createActive d =
     (if createActive \<and> riStatFails ri resolved then (d, noRebuild, Some (Found IOFault))
      else
        (case rebuildFiles ri resolved 1 fetched noRebuild d of
           (d, res, Some e) \<Rightarrow> (d, res, Some e)
         | (d, res, None) \<Rightarrow>
             if crash = ''rebuild_after_segment_before_manifest'' then (d, res, Some (Found StoppedByTestHook))
             else
               (case rebuiltManifest K io d resolved logID fetched of
                  (m, kept, dropped) \<Rightarrow>
                    (case rebuildManifest K ri io ck resolved m (res\<lparr>rbLocalOnly := kept, rbDropped := dropped\<rparr>) d of
                       (d, res, Some e) \<Rightarrow> (d, res, Some e)
                     | (d, res, None) \<Rightarrow>
                         if crash = ''rebuild_after_manifest_before_active'' then (d, res, Some (Found StoppedByTestHook))
                         else if \<not> createActive then (d, res, None)
                         else (case swapActive ck resolved d of
                                (d, Some e) \<Rightarrow> (d, res, Some (ActiveNotCreated e))
                              | (d, None) \<Rightarrow> (d, res\<lparr>rbActiveCreated := True\<rparr>, None))))))"

text \<open>The local verdict is an input; only an incomplete rotation and an error of the host refuse.\<close>

definition rebuildVerdict ::
  "codec \<Rightarrow> restoreIO \<Rightarrow> setIO \<Rightarrow> directory \<Rightarrow> bytes \<Rightarrow> View \<Rightarrow> control_error option \<Rightarrow> restore_error option" where
  "rebuildVerdict K ri io d resolved v verr =
     (case verr of
        None \<Rightarrow> if vState v \<noteq> StateOpen then Some IncompleteRotation else None
      | Some e \<Rightarrow>
          if (case e of SetFault _ \<Rightarrow> True | NotExist \<Rightarrow> True | _ \<Rightarrow> False) then
            (let listed = (case loadManifest K io d resolved of Inr (Some m) \<Rightarrow> length (mfSegments m) | _ \<Rightarrow> 0)
             in case incompleteRotation K ri d resolved listed of
                  Inl err \<Rightarrow> Some (Found err)
                | Inr True \<Rightarrow> Some IncompleteRotation
                | Inr False \<Rightarrow> None)
          else Some (Found e))"

definition rebuildDetail :: "bytes \<Rightarrow> RebuildResult \<Rightarrow> bytes" where
  "rebuildDetail kind res =
     ''rebuild from '' @ kind @ '': '' @ showDigits (rbSegments res) @ '' segments verified against the sink, ''
     @ showDigits (rbWritten res) @ '' written, '' @ showDigits (rbReplaced res) @ '' replaced, manifest ''
     @ (if rbManifestReplaced res \<noteq> '''' \<or> rbManifestWritten res then ''rewritten'' else ''kept'') @ '', active ''
     @ (if rbActiveCreated res then ''created'' else ''kept'')"

text \<open>After the writes: the set is read again, and a clean one gets its record.\<close>

definition rebuildRecord ::
  "codec \<Rightarrow> setIO \<Rightarrow> (nat \<Rightarrow> directory \<Rightarrow> directory) \<Rightarrow> (nat \<Rightarrow> directory \<Rightarrow> directory) \<Rightarrow> clock \<Rightarrow> bytes \<Rightarrow> bytes \<Rightarrow>
   ControlEvent \<Rightarrow> RebuildResult \<Rightarrow> directory \<Rightarrow> directory \<times> RebuildResult \<times> restore_error option" where
  "rebuildRecord K io race race' ck resolved kind e res d =
     (case Read K io Locked race d resolved of
        (d, v, Some verr) \<Rightarrow> (d, res, Some (NotRecorded (Found verr)))
      | (d, v, None) \<Rightarrow>
          if vState v \<noteq> StateOpen then (d, res, Some (NotRecorded IncompleteRotation))
          else (case Append K io race race' ck d resolved (e\<lparr>ceDetail := runesOf (rebuildDetail kind res)\<rparr>) of
                 (d, Inl err) \<Rightarrow> (d, res, Some (NotRecorded (NotAppended 0 err)))
               | (d, Inr head) \<Rightarrow> (d, res\<lparr>rbHead := head\<rparr>, None)))"

text \<open>With the chain fetched: the active held when there is one, the writes, the record.\<close>

definition rebuildFrom ::
  "codec \<Rightarrow> restoreIO \<Rightarrow> setIO \<Rightarrow> (nat \<Rightarrow> directory \<Rightarrow> directory) \<Rightarrow> (nat \<Rightarrow> directory \<Rightarrow> directory) \<Rightarrow> clock \<Rightarrow> bytes \<Rightarrow>
   bytes \<Rightarrow> bytes \<Rightarrow> ControlEvent \<Rightarrow> fetchedChain \<Rightarrow> directory \<Rightarrow> directory \<times> RebuildResult \<times> restore_error option" where
  "rebuildFrom K ri io race race' ck crash resolved logID e chain d =
     (case holdActive io race d resolved of
        (d, held) \<Rightarrow>
          if held \<noteq> None \<and> held \<noteq> Some NotExist then (d, noRebuild, Some (Found (the held)))
          else
            (case rebuildWrite K ri io ck crash resolved logID (fcSegments chain) (held \<noteq> None) (sweepTemps io resolved d) of
               (d, res, werr) \<Rightarrow>
                 let res = res\<lparr>rbSegments := length (fcSegments chain), rbUnderLocked := fcUnderLocked chain,
                               rbMarkerOnly := fcMarkerOnly chain\<rparr>
                 in (case werr of
                      Some err \<Rightarrow> (d, res, Some err)
                    | None \<Rightarrow>
                        rebuildRecord K io race race' ck resolved
                          (ssKind (the (sgSink (fsSeg (last (fcSegments chain)))))) e res d)))"

definition Rebuild ::
  "codec \<Rightarrow> restoreIO \<Rightarrow> setIO \<Rightarrow> (nat \<Rightarrow> directory \<Rightarrow> directory) \<Rightarrow> (nat \<Rightarrow> directory \<Rightarrow> directory) \<Rightarrow> clock \<Rightarrow> bytes \<Rightarrow>
   directory \<Rightarrow> bytes \<Rightarrow> bytes \<Rightarrow> SinkReader \<Rightarrow> ControlEvent \<Rightarrow> directory \<times> RebuildResult \<times> restore_error option" where
  "Rebuild K ri io race race' ck crash d resolved logID r e =
     (case checkRestoreEvent e of
        Some err \<Rightarrow> (d, noRebuild, Some err)
      | None \<Rightarrow>
          (case Read K io Locked race d resolved of
             (d, v, verr) \<Rightarrow>
               (case rebuildVerdict K ri io d resolved v verr of
                  Some err \<Rightarrow> (d, noRebuild, Some err)
                | None \<Rightarrow>
                    let have = rootLogID K io d resolved v
                    in if have \<noteq> unknownID \<and> have \<noteq> logID then (d, noRebuild, Some (OtherIdentity have))
                       else (case fetchChain K logID r of
                              Inl err \<Rightarrow> (d, noRebuild, Some err)
                            | Inr chain \<Rightarrow> rebuildFrom K ri io race race' ck crash resolved logID e chain d))))"

end
