(* ===== verification/Control_Accept.thy ===== *)
theory Control_Accept
  imports Control_Root
begin

text \<open>
  What a clean reading says of the directory (\<open>Read\<close>, \<open>walkSealed\<close>, \<open>verifySealed\<close> and \<open>readMulti\<close> of
  \<^verbatim>\<open>internal/control/segment.go\<close>): nothing is accepted that is not a root. Every sealed file holds
  exactly its records, seals at its position, matches its manifest entry; no other segment file exists;
  and the active continues the chain.
\<close>

section \<open>Ordinals in file names\<close>

lemma digitValue_bound: "isDigit c \<Longrightarrow> digitValue c < 10"
  by (auto simp: isDigit_def digitValue_def)

lemma digitValue_inj: "isDigit c \<Longrightarrow> isDigit e \<Longrightarrow> digitValue c = digitValue e \<Longrightarrow> c = e"
  by (auto simp: isDigit_def digitValue_def)

lemma Atoi_bound: "list_all isDigit ds \<Longrightarrow> Atoi ds < 10 ^ length ds"
proof (induction ds rule: rev_induct)
  case (snoc c ds)
  then have "Atoi ds < 10 ^ length ds" "digitValue c < 10" by (simp_all add: digitValue_bound)
  then show ?case by (simp add: Atoi_snoc)
qed (simp add: Atoi_def)

lemma Atoi_inj:
  "length ds = length es \<Longrightarrow> list_all isDigit ds \<Longrightarrow> list_all isDigit es \<Longrightarrow> Atoi ds = Atoi es \<Longrightarrow> ds = es"
proof (induction ds arbitrary: es rule: rev_induct)
  case (snoc c ds)
  then obtain e es' where es: "es = es' @ [e]" by (metis append_is_Nil_conv length_0_conv neq_Nil_conv rev_exhaust)
  have d: "digitValue c < 10" "digitValue e < 10"
    using snoc.prems(2,3) by (simp_all add: es digitValue_bound)
  from snoc.prems(4) have eq: "10 * Atoi ds + digitValue c = 10 * Atoi es' + digitValue e" by (simp add: es Atoi_snoc)
  with d have "Atoi ds = Atoi es'" "digitValue c = digitValue e" by presburger+
  then show ?case using snoc.IH [of es'] snoc.prems(1-3) by (simp add: es digitValue_inj)
qed simp

lemma pad6_Atoi:
  assumes "length ds = 6" "list_all isDigit ds"
  shows "pad6 (Atoi ds) = ds" "Atoi ds \<le> ordinalMax"
proof -
  show le: "Atoi ds \<le> ordinalMax" using Atoi_bound [OF assms(2)] assms(1) by (simp add: ordinalMax_def)
  show "pad6 (Atoi ds) = ds"
    by (rule Atoi_inj) (use assms pad6_length [OF le] pad6_digits Atoi_pad6 in auto)
qed

lemma segmentOrdinal_Some:
  assumes "has_prefix n (a @ ''.seg-'')" "segmentOrdinal (drop (length a) n) = Some k"
  shows "n = SegmentPath a k" "k \<le> ordinalMax"
proof -
  from assms(1) obtain t where n: "n = a @ ''.seg-'' @ t" by (auto simp: has_prefix_iff)
  with assms(2) have "length t = 6" "list_all isDigit t" "k = Atoi t"
    by (auto simp: segmentOrdinal_def split: if_splits)
  with pad6_Atoi [of t] n show "n = SegmentPath a k" "k \<le> ordinalMax" by (simp_all add: SegmentPath_def)
qed

lemma ordinalsOf_Inr:
  "ordinalsOf a ns = Inr sibs \<Longrightarrow> list_all (\<lambda>n. has_prefix n (a @ ''.seg-'')) ns \<Longrightarrow>
   map snd sibs = ns \<and> (\<forall>(k, n) \<in> set sibs. n = SegmentPath a k \<and> k \<le> ordinalMax)"
  by (induction ns arbitrary: sibs)
    (auto split: option.splits sum.splits dest: segmentOrdinal_Some)

lemma map_of_paths: "\<forall>(k, n) \<in> set sibs. n = f k \<Longrightarrow> k \<in> fst ` set sibs \<Longrightarrow> map_of sibs k = Some (f k)"
  by (induction sibs) auto

text \<open>
  A listing with no file unexplained: every name like a segment's is a sealed segment's, or the link to the active
  that a rotation makes first.
\<close>

lemma explained_names:
  assumes L: "listSiblings quietIO d a = Inr sibs" and U: "unexplained d n ia sibs = None"
    and m: "has_prefix m (a @ ''.seg-'')" "inodeOf d m \<noteq> None"
  obtains k where "m = SegmentPath a k" "k \<le> ordinalMax" "1 \<le> k \<and> k \<le> n \<or> k = n + 1 \<and> inodeOf d m = Some ia"
proof -
  let ?ns = "filter (\<lambda>n. has_prefix n (a @ ''.seg-'')) (ReadDir d)"
  have "ordinalsOf a ?ns = Inr sibs" using L by (simp add: listSiblings_def siblingNames_def)
  from ordinalsOf_Inr [OF this] have ns: "map snd sibs = ?ns"
    and p: "\<forall>(k, n) \<in> set sibs. n = SegmentPath a k \<and> k \<le> ordinalMax" by (simp_all add: list_all_iff)
  then have p': "\<forall>(k, n) \<in> set sibs. n = SegmentPath a k" by blast
  have "m \<in> set (map snd sibs)" using m by (simp add: ns set_ReadDir)
  then obtain k where k: "(k, m) \<in> set sibs" by force
  then have fk: "k \<in> fst ` set sibs" by force
  with U have "(1 \<le> k \<and> k \<le> n) \<or> (k = n + 1 \<and> sameFile d (the (map_of sibs k)) ia)"
    by (fastforce simp: unexplained_def find_None_iff sortedOrdinals_def)
  with map_of_paths [OF p' fk] k p that show ?thesis by (fastforce simp: sameFile_def)
qed

lemma explained_siblings:
  assumes L: "listSiblings quietIO d a = Inr sibs" and U: "unexplained d n ia sibs = None"
    and own: "\<And>k. inodeOf d (SegmentPath a k) \<noteq> Some ia"
    and files: "\<And>k. 1 \<le> k \<Longrightarrow> k \<le> n \<Longrightarrow> inodeOf d (SegmentPath a k) \<noteq> None"
  shows "siblingSet d a n" "n \<le> ordinalMax"
proof -
  show "siblingSet d a n"
    unfolding siblingSet_def
  proof (intro allI impI iffI)
    fix m
    assume m: "has_prefix m (a @ ''.seg-'')" "inodeOf d m \<noteq> None"
    obtain k where "m = SegmentPath a k" "1 \<le> k \<and> k \<le> n \<or> k = n + 1 \<and> inodeOf d m = Some ia"
      by (rule explained_names [OF L U m])
    with own show "\<exists>k\<ge>1. k \<le> n \<and> m = SegmentPath a k" by auto
  qed (use files in auto)
  show "n \<le> ordinalMax"
  proof (cases "n = 0")
    case False
    have "has_prefix (SegmentPath a n) (a @ ''.seg-'')" by (simp add: SegmentPath_def has_prefix_iff)
    moreover have "inodeOf d (SegmentPath a n) \<noteq> None" using files [of n] False by simp
    ultimately obtain k where "SegmentPath a n = SegmentPath a k" "k \<le> ordinalMax" by (rule explained_names [OF L U])
    then show ?thesis using SegmentPath_inj [of a n k] by simp
  qed simp
qed

section \<open>Accepting one sealed file\<close>

lemma sealedLoop_Inr:
  "sealedLoop K k first path pre recs found = Inr (t, b) \<longleftrightarrow>
     noSeal K recs \<and> found = (t, b)
     \<or> (\<exists>rc. recs \<noteq> [] \<and> noSeal K (butlast recs) \<and> successfulSeal K (last recs) = Some rc
          \<and> sealFault K k first (pre @ butlast recs) rc = None
          \<and> t = crTime rc \<and> b = (case crSeal rc of Some s \<Rightarrow> slSink s | None \<Rightarrow> None))"
proof (induction recs arbitrary: pre)
  case Nil
  then show ?case by (auto simp: noSeal_def)
next
  case (Cons r rs)
  show ?case
  proof (cases "successfulSeal K r")
    case None
    then show ?thesis by (auto simp: Cons.IH noSeal_def)
  next
    case (Some rc)
    then show ?thesis by (auto simp: noSeal_def split: option.splits)
  qed
qed

text \<open>The figures of a sealed segment, over the records and the head its bytes verify to.\<close>

definition sealedFigures :: "nat \<Rightarrow> bytes \<Rightarrow> Start \<Rightarrow> Head \<Rightarrow> bytes \<times> int \<Rightarrow> controlRecord \<Rightarrow> SealSink option \<Rightarrow> Segment" where
  "sealedFigures k path s head digests rc sink =
     \<lparr>sgN = k, sgPath = path, sgFirstSeq = goInt (uint (startBase s) + 1),
      sgHeadSeq = goInt (uint (startBase s) + int (headCount head)), sgHeadHash = headHash head,
      sgSHA256 = fst digests, sgBytes = snd digests, sgRecords = headCount head, sgSealedAt = crTime rc, sgSink = sink\<rparr>"

lemma sealed_iff:
  assumes "contents d (SegmentPath a k) = Some data" "VerifyReader (kUnm K) (kHash K) (clean data) s = (rs, head, err)"
  shows "verifySealed K quietIO d a k s e = (recs, Inr sg) \<longleftrightarrow>
    err = None \<and> rs \<noteq> [] \<and> recs = rs \<and> noSeal K (butlast rs)
    \<and> (\<exists>rc. successfulSeal K (last rs) = Some rc \<and> sealFault K k (goInt (uint (startBase s) + 1)) (butlast rs) rc = None
         \<and> crTime rc \<noteq> 0
         \<and> sg = (sealedFigures k (SegmentPath a k) s head (segmentDigests K rs) rc
                   (case crSeal rc of Some sl \<Rightarrow> slSink sl | None \<Rightarrow> None))\<lparr>sgBytes := int (length data)\<rparr>)
    \<and> disagreement (goInt (uint (startBase s) + 1)) (goInt (uint (startBase s) + int (headCount head))) (headHash head)
        (fst (segmentDigests K rs)) (snd (segmentDigests K rs)) (int (length data)) e = None"
proof (cases err)
  case None
  obtain whole sz where g: "segmentDigests K rs = (whole, sz)" by fastforce
  let ?first = "goInt (uint (startBase s) + 1)" and ?path = "SegmentPath a k"
  have V: "verifySealed K quietIO d a k s e =
      (case sealedLoop K k ?first ?path [] rs (0, None) of
         Inl err \<Rightarrow> (rs, Inl err)
       | Inr (t, b) \<Rightarrow>
           if t = 0 then (rs, Inl (setError FaultManifest (int k) ?path 0 (TextCause ''seal'')))
           else (case disagreement ?first (goInt (uint (startBase s) + int (headCount head))) (headHash head) whole sz
                        (int (length data)) e of
                  Some f \<Rightarrow> (rs, Inl (setError FaultManifest (int k) ?path 0 (TextCause f)))
                | None \<Rightarrow>
                    (rs, Inr \<lparr>sgN = k, sgPath = ?path, sgFirstSeq = ?first,
                              sgHeadSeq = goInt (uint (startBase s) + int (headCount head)), sgHeadHash = headHash head,
                              sgSHA256 = whole, sgBytes = int (length data), sgRecords = headCount head, sgSealedAt = t,
                              sgSink = b\<rparr>)))"
    using assms None g unfolding verifySealed_def Let_def by simp
  have L: "sealedLoop K k ?first ?path [] rs (0, None) = Inr (t, b) \<and> t \<noteq> 0 \<longleftrightarrow>
      (\<exists>rc. rs \<noteq> [] \<and> noSeal K (butlast rs) \<and> successfulSeal K (last rs) = Some rc
          \<and> sealFault K k ?first (butlast rs) rc = None \<and> crTime rc \<noteq> 0
          \<and> t = crTime rc \<and> b = (case crSeal rc of Some s \<Rightarrow> slSink s | None \<Rightarrow> None))" for t b
    by (auto simp: sealedLoop_Inr)
  show ?thesis
  proof (cases "\<exists>t b. sealedLoop K k ?first ?path [] rs (0, None) = Inr (t, b) \<and> t \<noteq> 0")
    case True
    then obtain t b where tb: "sealedLoop K k ?first ?path [] rs (0, None) = Inr (t, b)" "t \<noteq> 0" by blast
    with L [of t b] obtain rc where rc: "rs \<noteq> []" "noSeal K (butlast rs)" "successfulSeal K (last rs) = Some rc"
      "sealFault K k ?first (butlast rs) rc = None" "crTime rc \<noteq> 0" "t = crTime rc"
      "b = (case crSeal rc of Some s \<Rightarrow> slSink s | None \<Rightarrow> None)" by blast
    show ?thesis
      unfolding V tb g using rc None by (auto simp: sealedFigures_def split: option.splits)
  next
    case False
    then have "verifySealed K quietIO d a k s e \<noteq> (recs, Inr sg)"
      unfolding V by (auto split: sum.splits if_splits)
    moreover have "\<not> (rs \<noteq> [] \<and> noSeal K (butlast rs) \<and> (\<exists>rc. successfulSeal K (last rs) = Some rc
        \<and> sealFault K k ?first (butlast rs) rc = None \<and> crTime rc \<noteq> 0))"
      using False L by blast
    ultimately show ?thesis by blast
  qed
next
  case (Some e)
  then show ?thesis using assms unfolding verifySealed_def Let_def by (auto split: prod.splits)
qed

text \<open>
  What the reader concludes from the bytes alone: the lines are a chain that continues from the start, and after
  a start with records it carries sequence numbers.
\<close>

definition chainRead :: "codec \<Rightarrow> bytes list \<Rightarrow> bytes list \<Rightarrow> bool" where
  "chainRead K ps rs \<longleftrightarrow> (\<exists>mode. validChain (kUnm K) (kHash K) (startAt K ps) mode rs)"

lemma chainRead_numbered: "chainRead K ps rs \<Longrightarrow> ps \<noteq> [] \<Longrightarrow> length ps \<le> seqMax \<Longrightarrow> chainAt K ps rs"
  using of_nat_pos [of "length ps"] by (auto simp: chainRead_def validChain_def)

lemma VerifyReader_reads:
  assumes V: "VerifyReader (kUnm K) (kHash K) (clean b) (startAt K ps) = (rs, head, None)"
  shows "b = fileBytes rs" "chainRead K ps rs" "head = \<lparr>headHash = headFrom (kHash K) '''' (ps @ rs), headCount = length rs\<rparr>"
proof -
  have L: "ldErr (loadChain (kUnm K) (kHash K) (clean b) (startAt K ps)) = None"
    "ldRecords (loadChain (kUnm K) (kHash K) (clean b) (startAt K ps)) = rs"
    "ldHead (loadChain (kUnm K) (kHash K) (clean b) (startAt K ps)) = head"
    using V by (auto simp: VerifyReader_def Let_def split: option.splits)
  obtain mode where "b = fileBytes rs" and v: "validChain (kUnm K) (kHash K) (startAt K ps) mode rs"
    using L(2) by (metis loadChain_validD [OF L(1)])
  then show "b = fileBytes rs" "chainRead K ps rs" by (auto simp: chainRead_def)
  then show "head = \<lparr>headHash = headFrom (kHash K) '''' (ps @ rs), headCount = length rs\<rparr>"
    using loadChain_validI [OF v] L(3) by simp
qed

text \<open>The first segment of a root carries sequence numbers; later ones must, since the numbers continue.\<close>

definition firstSequenced :: "codec \<Rightarrow> bytes \<Rightarrow> directory \<Rightarrow> bool" where
  "firstSequenced K a d \<longleftrightarrow> (\<exists>seg. contents d (SegmentPath a 1) = Some (fileBytes seg) \<and> chainAt K [] seg)"

definition segmentRead :: "codec \<Rightarrow> nat \<Rightarrow> bytes list \<Rightarrow> bytes list \<Rightarrow> bool" where
  "segmentRead K k ps seg \<longleftrightarrow>
     seg \<noteq> [] \<and> chainRead K ps seg \<and> noSeal K (butlast seg) \<and> sealsAt K k ps (butlast seg) (last seg)"

lemma verifySealed_reads:
  assumes len: "length (ps @ recs) \<le> seqMax"
    and V: "verifySealed K quietIO d a k (startAt K ps) e = (recs, Inr sg)"
  shows "contents d (SegmentPath a k) = Some (fileBytes recs)" "segmentRead K k ps recs" "sg = segView K a k ps recs"
    "entryMatches e (segView K a k ps recs)"
proof -
  from V obtain data where f: "contents d (SegmentPath a k) = Some data"
    by (auto simp: verifySealed_def Let_def split: option.splits)
  obtain rs head err where R: "VerifyReader (kUnm K) (kHash K) (clean data) (startAt K ps) = (rs, head, err)"
    by (metis prod_cases3)
  from V [unfolded sealed_iff [OF f R]] obtain rc where e: "err = None" "rs \<noteq> []" "recs = rs" and ns: "noSeal K (butlast rs)"
    and rc: "successfulSeal K (last rs) = Some rc" "crTime rc \<noteq> 0"
      "sealFault K k (goInt (uint (startBase (startAt K ps)) + 1)) (butlast rs) rc = None"
    and sg: "sg = (sealedFigures k (SegmentPath a k) (startAt K ps) head (segmentDigests K rs) rc
                   (case crSeal rc of Some sl \<Rightarrow> slSink sl | None \<Rightarrow> None))\<lparr>sgBytes := int (length data)\<rparr>"
    and dis: "disagreement (goInt (uint (startBase (startAt K ps)) + 1))
        (goInt (uint (startBase (startAt K ps)) + int (headCount head))) (headHash head)
        (fst (segmentDigests K rs)) (snd (segmentDigests K rs)) (int (length data)) e = None" by blast
  have lp: "length ps \<le> seqMax" "length (ps @ rs) \<le> seqMax" "length ps + 1 \<le> seqMax"
    using len e by (cases rs; simp)+
  note b = VerifyReader_reads [OF R [unfolded e(1)]]
  have n: "goInt (uint (startBase (startAt K ps)) + 1) = int (length ps) + 1"
    "goInt (uint (startBase (startAt K ps)) + int (headCount head)) = int (length (ps @ rs))"
    using uint_of_nat [OF lp(1)] goInt_nat [OF lp(2)] goInt_nat [OF lp(3)] by (simp_all add: b(3) add.commute)
  show "contents d (SegmentPath a k) = Some (fileBytes recs)" using f b(1) e by simp
  show "segmentRead K k ps recs" using e ns rc b(2) n by (simp add: segmentRead_def sealsAt_def)
  show sv: "sg = segView K a k ps recs"
    using rc unfolding sg sealedFigures_def n by (simp add: segView_def Let_def e b(1,3) segmentDigests_eq)
  show "entryMatches e (segView K a k ps recs)"
    using dis unfolding n by (auto simp: disagreement_def entryMatches_def segView_def Let_def e b(1,3) segmentDigests_eq split: if_splits)
qed

section \<open>Accepting the sealed history\<close>

lemma walkLoop_grows:
  "walkLoop K io d a k es w = (w', err) \<Longrightarrow> length (vRecords (swV w)) \<le> length (vRecords (swV w'))"
proof (induction es arbitrary: k w)
  case (Cons e es)
  obtain recs res where V: "verifySealed K io d a (k + 1) (swStart w) e = (recs, res)" by fastforce
  with Cons.prems Cons.IH show ?case by (cases res) (fastforce simp: Let_def)+
qed simp

fun segmentsRead :: "codec \<Rightarrow> bytes list \<Rightarrow> nat \<Rightarrow> bytes list list \<Rightarrow> bool" where
  "segmentsRead K ps k [] = True"
| "segmentsRead K ps k (seg # segs) = (segmentRead K (k + 1) ps seg \<and> segmentsRead K (ps @ seg) (k + 1) segs)"

lemma segmentsRead_OK:
  "segmentsRead K ps k segs \<Longrightarrow> length (ps @ concat segs) \<le> seqMax \<Longrightarrow> (ps = [] \<Longrightarrow> segs \<noteq> [] \<Longrightarrow> chainAt K [] (hd segs)) \<Longrightarrow>
   segmentsOK K ps k segs"
proof (induction segs arbitrary: ps k)
  case (Cons seg segs)
  have ne: "ps @ seg \<noteq> []" using Cons.prems(1) by (simp add: segmentRead_def)
  have "chainAt K ps seg"
    using Cons.prems chainRead_numbered [of K ps seg] by (cases "ps = []") (auto simp: segmentRead_def)
  with Cons.prems(1) have "segmentOK K (k + 1) ps seg" by (simp add: segmentOK_def segmentRead_def)
  moreover have "segmentsOK K (ps @ seg) (k + 1) segs"
    by (rule Cons.IH) (use Cons.prems(1,2) ne in auto)
  ultimately show ?case by simp
qed simp

lemma walkLoop_reads:
  "walkLoop K quietIO d a k es w = (w', None) \<Longrightarrow> swStart w = startAt K ps \<Longrightarrow> vRecords (swV w) = ps \<Longrightarrow>
    length (vRecords (swV w')) \<le> seqMax \<Longrightarrow>
    \<exists>segs. segmentsRead K ps k segs
      \<and> (\<forall>i < length segs. contents d (SegmentPath a (k + i + 1)) = Some (fileBytes (segs ! i)))
      \<and> list_all2 entryMatches es (segViews K a ps k segs) \<and> w' = walkAfter K a ps k segs w"
proof (induction es arbitrary: ps k w)
  case Nil
  then show ?case by (intro exI [of _ "[]"]) (simp add: walkAfter_def)
next
  case (Cons e es)
  obtain recs res where V: "verifySealed K quietIO d a (k + 1) (swStart w) e = (recs, res)" by fastforce
  with Cons.prems(1) obtain sg where res: "res = Inr sg" by (cases res) (auto simp: Let_def)
  let ?w = "w\<lparr>swV := (swV w)\<lparr>vRecords := ps @ recs, vSealed := vSealed (swV w) @ [sg]\<rparr>,
      swStart := \<lparr>startPrev = sgHeadHash sg, startBase = word_of_int (sgHeadSeq sg)\<rparr>\<rparr>"
  have step: "walkLoop K quietIO d a (k + 1) es ?w = (w', None)"
    using Cons.prems(1,3) V res by (simp add: Let_def)
  have len: "length (ps @ recs) \<le> seqMax" using walkLoop_grows [OF step] Cons.prems(4) by simp
  note acc = verifySealed_reads [OF len V [unfolded res Cons.prems(2)]]
  have s: "swStart ?w = startAt K (ps @ recs)" using startAt_segment [of K a "k + 1" ps recs] by (simp add: acc(3))
  obtain segs where segs: "segmentsRead K (ps @ recs) (k + 1) segs"
    "\<forall>i < length segs. contents d (SegmentPath a (k + 1 + i + 1)) = Some (fileBytes (segs ! i))"
    "list_all2 entryMatches es (segViews K a (ps @ recs) (k + 1) segs)" "w' = walkAfter K a (ps @ recs) (k + 1) segs ?w"
    using Cons.IH [OF step s _ Cons.prems(4)] by auto
  have "\<forall>i < length (recs # segs). contents d (SegmentPath a (k + i + 1)) = Some (fileBytes ((recs # segs) ! i))"
    using acc(1) segs(2) by (auto simp: less_Suc_eq_0_disj)
  moreover have "w' = walkAfter K a ps k (recs # segs) w"
    unfolding segs(4) using Cons.prems(3) acc(3) by (simp add: walkAfter_def)
  ultimately show ?case using acc segs by (intro exI [of _ "recs # segs"]) auto
qed

lemma walkLoop_manifest: "walkLoop K io d a k es w = (w', None) \<Longrightarrow> swM w' = swM w"
proof (induction es arbitrary: k w)
  case (Cons e es)
  obtain recs res where V: "verifySealed K io d a (k + 1) (swStart w) e = (recs, res)" by fastforce
  with Cons.prems Cons.IH show ?case by (cases res) (fastforce simp: Let_def)+
qed simp

lemma VerifyReader_count:
  assumes "VerifyReader unm H (clean b) s = (recs, head, None)"
  shows "headCount head = length recs"
proof -
  have L: "ldErr (loadChain unm H (clean b) s) = None" "ldRecords (loadChain unm H (clean b) s) = recs"
    "ldHead (loadChain unm H (clean b) s) = head"
    using assms by (auto simp: VerifyReader_def Let_def split: option.splits)
  from L(1) obtain mode where "b = fileBytes recs" "validChain unm H s mode recs"
    using L(2) by (metis loadChain_validD)
  with loadChain_validI L(3) show ?thesis by fastforce
qed

lemma contents_inode: "contents d n = Some b \<Longrightarrow> inodeOf d n \<noteq> None"
  by (auto simp: contents_def split: option.splits)

section \<open>Accepting the set\<close>

text \<open>No other name is the active's file.\<close>

definition ownActive :: "bytes \<Rightarrow> directory \<Rightarrow> bool" where
  "ownActive a d \<longleftrightarrow> (\<forall>n. n \<noteq> a \<longrightarrow> inodeOf d a \<noteq> None \<longrightarrow> inodeOf d n \<noteq> inodeOf d a)"

lemma finishLoop_open:
  "finishLoop K n pre rs v = (v', None) \<Longrightarrow> vState v' = StateOpen \<Longrightarrow> noSeal K rs \<and> v' = v"
  by (induction rs arbitrary: pre) (auto simp: noSeal_def split: option.splits if_splits)

lemma readMulti_accepts:
  assumes R: "readMulti K d a ia sibs v0 m s verify = (v, None)" and st: "vState v = StateOpen"
    and cnt: "\<And>recs head. verify s = (recs, head, None) \<Longrightarrow> headCount head = length recs"
  obtains recs head where "unexplained d (length (mfSegments m)) ia sibs = None" "verify s = (recs, head, None)"
    "vRecords v = vRecords v0 @ recs" "vSealed v = vSealed v0" "vLogID v = vLogID v0" "noSeal K recs"
    "GenesisLogID (kLogIDOf K) (vRecords v0 @ recs) = Some (mfLogID m)"
proof -
  obtain recs head err where V: "verify s = (recs, head, err)" by (metis prod_cases3)
  have U: "unexplained d (length (mfSegments m)) ia sibs = None"
    using R by (auto simp: readMulti_def Let_def split: option.splits)
  have same: "\<not> sameFile d (SegmentPath a (length (mfSegments m))) ia"
    using R st U by (auto simp: readMulti_def Let_def identityCheck_def split: if_splits)
  define v1 where "v1 = v0\<lparr>vHead := \<lparr>lhHash = startPrev s, lhCount = goInt (uint (startBase s))\<rparr>,
      vRecords := vRecords v0 @ recs, vActive := activeSegment a s head (length (dirNode d ia))\<rparr>"
  define v2 where "v2 = (if headCount head > 0
      then v1\<lparr>vHead := \<lparr>lhHash = headHash head, lhCount = goInt (uint (startBase s) + int (headCount head))\<rparr>\<rparr> else v1)"
  have err: "err = None" using R U same V by (auto simp: readMulti_def Let_def split: option.splits)
  have v2: "vRecords v2 = vRecords v0 @ recs" "vSealed v2 = vSealed v0" "vLogID v2 = vLogID v0" "sgRecords (vActive v2) = headCount head"
    by (simp_all add: v2_def v1_def activeSegment_def)
  then have act: "activeRecords v2 = recs" using cnt V err by (simp add: activeRecords_def)
  have "(case finishActive K v2 (length (mfSegments m)) of (v', Some e) \<Rightarrow> (v', Some e) | (v', None) \<Rightarrow> identityCheck K v' m)
      = (v, None)"
    using R U same V err by (simp add: readMulti_def Let_def v1_def v2_def cong: if_cong)
  then obtain v3 where F: "finishActive K v2 (length (mfSegments m)) = (v3, None)" "identityCheck K v3 m = (v, None)"
    by (auto split: prod.splits option.splits)
  then have v3: "v = v3" "GenesisLogID (kLogIDOf K) (vRecords v3) = Some (mfLogID m)"
    by (auto simp: identityCheck_def split: if_splits)
  with F(1) st finishLoop_open [of K "length (mfSegments m)" "[]" recs v2 v3] have "noSeal K recs" "v3 = v2"
    by (auto simp: finishActive_def act)
  with that [of recs head] U V err v2 v3 show ?thesis by simp
qed

lemma readSingle_accepts:
  assumes R: "readSingle K d a ia sibs v0 verify = (v, None)" and st: "vState v = StateOpen"
    and cnt: "\<And>recs head. verify zeroStart = (recs, head, None) \<Longrightarrow> headCount head = length recs"
  obtains recs head where "unexplained d 0 ia sibs = None" "verify zeroStart = (recs, head, None)"
    "vRecords v = recs" "vSealed v = vSealed v0" "noSeal K recs"
proof -
  obtain recs head err where V: "verify zeroStart = (recs, head, err)" by (metis prod_cases3)
  have U: "unexplained d 0 ia sibs = None" using R by (auto simp: readSingle_def split: option.splits)
  define v1 where "v1 = v0\<lparr>vRecords := recs, vHead := \<lparr>lhHash = headHash head, lhCount = int (headCount head)\<rparr>,
      vActive := activeSegment a zeroStart head (length (dirNode d ia))\<rparr>"
  have err: "err = None" using R U V by (auto simp: readSingle_def Let_def split: option.splits)
  have "activeRecords v1 = recs" using cnt V err by (simp add: v1_def activeRecords_def activeSegment_def)
  moreover have "finishActive K v1 0 = (v, None)" using R U V err by (simp add: readSingle_def Let_def v1_def)
  ultimately have "noSeal K recs" "v = v1" using st finishLoop_open [of K 0 "[]" recs v1 v] by (auto simp: finishActive_def)
  with that [of recs head] U V err show ?thesis by (simp add: v1_def)
qed

text \<open>
  What a clean reading of an open set found: the sealed segments \<open>segs\<close> and the records \<open>act\<close> of the active,
  with the manifest when there is one.
\<close>

definition setFound :: "codec \<Rightarrow> bytes \<Rightarrow> directory \<Rightarrow> View \<Rightarrow> nat \<Rightarrow> bytes list list \<Rightarrow> bytes list \<Rightarrow> bool" where
  "setFound K a d v ia segs act \<longleftrightarrow>
     inodeOf d a = Some ia \<and> dirNode d ia = fileBytes act \<and> chainRead K (concat segs) act \<and> noSeal K act
     \<and> segmentsRead K [] 0 segs
     \<and> (\<forall>i < length segs. contents d (SegmentPath a (i + 1)) = Some (fileBytes (segs ! i)))
     \<and> vRecords v = concat segs @ act \<and> vSealed v = segViews K a [] 0 segs
     \<and> (\<exists>sibs. listSiblings quietIO d a = Inr sibs \<and> unexplained d (length segs) ia sibs = None)
     \<and> (if segs = [] then loadManifest K quietIO d a = Inr None
        else \<exists>m. loadManifest K quietIO d a = Inr (Some m) \<and> list_all2 entryMatches (mfSegments m) (segViews K a [] 0 segs)
               \<and> vLogID v = mfLogID m \<and> GenesisLogID (kLogIDOf K) (vRecords v) = Some (mfLogID m))"

lemma loadManifest_nonempty: "loadManifest K quietIO d a = Inr (Some m) \<Longrightarrow> mfSegments m \<noteq> []"
  by (auto simp: loadManifest_def Let_def ParseManifest_def split: option.splits sum.splits if_splits)

lemma Read_finds:
  assumes R: "Read K quietIO mode idle d a = (d', v, None)" and st: "vState v = StateOpen" and len: "length (vRecords v) \<le> seqMax"
  obtains ia segs act where "setFound K a d v ia segs act"
proof -
  obtain ia where ia: "inodeOf d a = Some ia"
    using R by (cases "inodeOf d a") (auto simp: Read_def numeral_2_eq_2 split: sum.splits if_splits)
  obtain w err where W: "walkSealed K quietIO d a = (w, err)" by fastforce
  have O: "openByName quietIO mode idle 2 d a = (d, Inr ia)" using ia by (simp add: numeral_2_eq_2 sameFile_def)
  let ?verify = "readerVerify K quietIO (dirNode d ia)"
  from R W O have err: "err = None" and A: "readActive K quietIO d a ia w ?verify = (v, None)"
    by (auto simp: Read_def split: option.splits prod.splits)
  from A obtain sibs where L: "listSiblings quietIO d a = Inr sibs" by (auto simp: readActive_def split: sum.splits)
  have cnt: "headCount head = length recs" if "?verify s = (recs, head, None)" for s recs head
    using that VerifyReader_count by (simp add: readerVerify_def)
  obtain x where x: "loadManifest K quietIO d a = Inr x" using W err by (cases "loadManifest K quietIO d a") (auto simp: walkSealed_def)
  show ?thesis
  proof (cases x)
    case None
    with W x err have w: "w = emptyWalk" by (simp add: walkSealed_def)
    with A L have S: "readSingle K d a ia sibs (swV emptyWalk) ?verify = (v, None)" by (simp add: readActive_def emptyWalk_def)
    obtain recs head where r: "unexplained d 0 ia sibs = None" "?verify zeroStart = (recs, head, None)"
      "vRecords v = recs" "vSealed v = vSealed (swV emptyWalk)" "noSeal K recs" by (rule readSingle_accepts [OF S st cnt])
    have "dirNode d ia = fileBytes recs" "chainRead K [] recs"
      using VerifyReader_reads(1,2) [of K "dirNode d ia" "[]" recs head] r(2) by (simp_all add: readerVerify_def)
    then have "setFound K a d v ia [] recs" using ia r L x None by (simp add: setFound_def emptyWalk_def noView_def)
    then show ?thesis by (rule that)
  next
    case (Some m)
    let ?w = "emptyWalk\<lparr>swM := Some m, swV := (swV emptyWalk)\<lparr>vLogID := mfLogID m\<rparr>\<rparr>"
    from W x Some err have walk: "walkLoop K quietIO d a 0 (mfSegments m) ?w = (w, None)" by (simp add: walkSealed_def)
    have swM: "swM w = Some m" using walkLoop_manifest [OF walk] by simp
    have M: "readMulti K d a ia sibs (swV w) m (swStart w) ?verify = (v, None)" using A L swM by (simp add: readActive_def)
    obtain recs head where U: "unexplained d (length (mfSegments m)) ia sibs = None"
      and V: "?verify (swStart w) = (recs, head, None)" and v: "vRecords v = vRecords (swV w) @ recs" "vSealed v = vSealed (swV w)"
      "vLogID v = vLogID (swV w)"
      and ns: "noSeal K recs" and g: "GenesisLogID (kLogIDOf K) (vRecords (swV w) @ recs) = Some (mfLogID m)"
      by (rule readMulti_accepts [OF M st cnt])
    have "\<exists>segs. segmentsRead K [] 0 segs
        \<and> (\<forall>i < length segs. contents d (SegmentPath a (0 + i + 1)) = Some (fileBytes (segs ! i)))
        \<and> list_all2 entryMatches (mfSegments m) (segViews K a [] 0 segs) \<and> w = walkAfter K a [] 0 segs ?w"
      by (rule walkLoop_reads [OF walk]) (use v(1) len in \<open>simp_all add: emptyWalk_def noView_def\<close>)
    then obtain segs where segs: "segmentsRead K [] 0 segs"
      "\<forall>i < length segs. contents d (SegmentPath a (i + 1)) = Some (fileBytes (segs ! i))"
      "list_all2 entryMatches (mfSegments m) (segViews K a [] 0 segs)" and w: "w = walkAfter K a [] 0 segs ?w" by auto
    have wf: "vRecords (swV w) = concat segs" "vSealed (swV w) = segViews K a [] 0 segs" "swStart w = startAt K (concat segs)"
      "vLogID (swV w) = mfLogID m"
      by (subst w, simp add: walkAfter_def emptyWalk_def noView_def)+
    have n: "length (mfSegments m) = length segs" using list_all2_lengthD [OF segs(3)] by simp
    have ne: "segs \<noteq> []" using n loadManifest_nonempty [of K d a m] x Some by auto
    have act: "dirNode d ia = fileBytes recs" "chainRead K (concat segs) recs"
      using VerifyReader_reads(1,2) [of K "dirNode d ia" "concat segs" recs head] V by (simp_all add: readerVerify_def wf(3))
    have "setFound K a d v ia segs recs"
      using ia act ns segs v wf L U x Some g ne by (simp add: setFound_def n)
    then show ?thesis by (rule that)
  qed
qed

lemma Read_accepts:
  assumes K: "hashShaped K" and d: "wfDir d" "ownActive a d" "firstSequenced K a d"
    and R: "Read K quietIO mode idle d a = (d', v, None)" and st: "vState v = StateOpen"
    and len: "length (vRecords v) < seqMax" "length (vSealed v) < ordinalMax"
  obtains logID segs act ia where "setRep K a d logID segs act False StateOpen ia" "segs \<noteq> []"
proof -
  from R st less_imp_le [OF len(1)] obtain ia segs act where F: "setFound K a d v ia segs act" by (rule Read_finds)
  from F obtain sibs where ia: "inodeOf d a = Some ia" and L: "listSiblings quietIO d a = Inr sibs"
    and U: "unexplained d (length segs) ia sibs = None" and v: "vRecords v = concat segs @ act" "vSealed v = segViews K a [] 0 segs"
    and sr: "segmentsRead K [] 0 segs" and files: "\<forall>i < length segs. contents d (SegmentPath a (i + 1)) = Some (fileBytes (segs ! i))"
    by (auto simp: setFound_def)
  have own: "inodeOf d n \<noteq> Some ia" if "n \<noteq> a" for n using d(2) ia that by (auto simp: ownActive_def)
  have one: "inodeOf d (SegmentPath a 1) \<noteq> None" using d(3) by (auto simp: firstSequenced_def contents_def split: option.splits)
  have fi: "inodeOf d (SegmentPath a k) \<noteq> None" if "1 \<le> k" "k \<le> length segs" for k
    using files [rule_format, of "k - 1"] that contents_inode [of d "SegmentPath a k"] by simp
  have sib: "siblingSet d a (length segs)"
    by (rule explained_siblings(1) [OF L U]) (use own fi in simp_all)
  have ne: "segs \<noteq> []" using siblingSet_names [OF sib, of 1] one by auto
  obtain m where m: "loadManifest K quietIO d a = Inr (Some m)" "list_all2 entryMatches (mfSegments m) (segViews K a [] 0 segs)"
    "GenesisLogID (kLogIDOf K) (vRecords v) = Some (mfLogID m)" using F ne by (auto simp: setFound_def)
  have "chainAt K [] (hd segs)"
  proof -
    obtain seg where seg: "contents d (SegmentPath a 1) = Some (fileBytes seg)" "chainAt K [] seg"
      using d(3) by (auto simp: firstSequenced_def)
    have "contents d (SegmentPath a 1) = Some (fileBytes (hd segs))" using files [rule_format, of 0] ne by (simp add: hd_conv_nth)
    with seg(1) have eq: "fileBytes seg = fileBytes (hd segs)" by simp
    have "chainRead K [] (hd segs)" using sr ne by (cases segs) (simp_all add: segmentRead_def)
    then have "list_all (\<lambda>r. newline \<notin> set r) (hd segs)" by (auto simp: chainRead_def validChain_def)
    moreover have "list_all (\<lambda>r. newline \<notin> set r) seg" using seg(2) by (simp add: validChain_def)
    ultimately have "seg = hd segs" by (intro fileBytes_inj [OF eq])
    with seg show ?thesis by simp
  qed
  then have ok: "segmentsOK K [] 0 segs" by (intro segmentsRead_OK [OF sr]) (use len v in simp_all)
  then have "concat segs \<noteq> []" using segments_nonempty ne by blast
  then have act: "chainAt K (concat segs) act" "dirNode d ia = fileBytes act" "noSeal K act"
    using F chainRead_numbered [of K "concat segs" act] len(1) v by (auto simp: setFound_def)
  have man: "manifestRep K a d (mfLogID m) segs"
    using m ne by (auto simp: manifestRep_def loadManifest_def Let_def split: option.splits sum.splits)
  have "setRep K a d (mfLogID m) segs act False StateOpen ia"
    using d(1) ok files man m(3) v len act ia own sib
    by (simp add: setRep_def historyRep_def filesRep_def identityRep_def activeRep_def)
  with ne that show ?thesis by blast
qed

section \<open>Properties\<close>

text \<open>
  The chain rule without the numbers: every record names the hash of the one before it.
\<close>

fun linkedFrom :: "codec \<Rightarrow> bytes \<Rightarrow> bytes list \<Rightarrow> bool" where
  "linkedFrom K p [] = True"
| "linkedFrom K p (r # rs) = (map_option lfPrev (kUnm K r) = Some (Some p) \<and> linkedFrom K (kHash K r) rs)"

lemma linkedFrom_append: "linkedFrom K p (rs @ rs') \<longleftrightarrow> linkedFrom K p rs \<and> linkedFrom K (headFrom (kHash K) p rs) rs'"
  by (induction rs arbitrary: p) auto

lemma chainFrom_linked: "chainFrom (kUnm K) (kHash K) base mode i p rs \<Longrightarrow> linkedFrom K p rs"
  by (induction rs arbitrary: i p) auto

lemma chainRead_linked: "chainRead K ps rs \<Longrightarrow> linkedFrom K (headFrom (kHash K) '''' ps) rs"
  by (auto simp: chainRead_def validChain_def dest: chainFrom_linked)

lemma segmentsRead_linked: "segmentsRead K ps k segs \<Longrightarrow> linkedFrom K (headFrom (kHash K) '''' ps) (concat segs)"
proof (induction segs arbitrary: ps k)
  case (Cons seg segs)
  have "linkedFrom K (headFrom (kHash K) '''' ps) seg" using Cons.prems chainRead_linked by (simp add: segmentRead_def)
  moreover have "linkedFrom K (headFrom (kHash K) '''' (ps @ seg)) (concat segs)"
    using Cons.IH [of "ps @ seg" "k + 1"] Cons.prems by simp
  ultimately show ?case by (simp add: linkedFrom_append headFrom_append)
qed simp

lemma segmentsRead_nth:
  "segmentsRead K ps k segs \<Longrightarrow> i < length segs \<Longrightarrow> segmentRead K (k + i + 1) (ps @ concat (take i segs)) (segs ! i)"
proof (induction segs arbitrary: ps k i)
  case (Cons seg segs)
  then show ?case using Cons.IH [of "ps @ seg" "k + 1" "i - 1"] by (cases i) auto
qed simp

definition numberedRecord :: "codec \<Rightarrow> bytes \<Rightarrow> bool" where
  "numberedRecord K r \<longleftrightarrow> (case kUnm K r of None \<Rightarrow> False | Some f \<Rightarrow> lfSeq f \<noteq> None)"

lemma chainRead_first: "chainRead K [] rs \<Longrightarrow> rs \<noteq> [] \<Longrightarrow> numberedRecord K (hd rs) \<Longrightarrow> chainAt K [] rs"
  by (cases rs) (auto simp: chainRead_def validChain_def numberedRecord_def split: if_splits)

lemma setFound_single_chain:
  assumes F: "setFound K a d v ia segs act" and len: "length (vRecords v) \<le> seqMax"
    and first: "segs = [] \<or> numberedRecord K (hd (vRecords v))"
  shows "ldErr (loadChain (kUnm K) (kHash K) (clean (fileBytes (vRecords v))) zeroStart) = None"
proof (cases "segs = []")
  case True
  then obtain mode where "validChain (kUnm K) (kHash K) zeroStart mode (vRecords v)" using F by (auto simp: setFound_def chainRead_def)
  from loadChain_validI [OF this] show ?thesis by simp
next
  case False
  have v: "vRecords v = concat segs @ act" and sr: "segmentsRead K [] 0 segs" and ar: "chainRead K (concat segs) act"
    using F by (auto simp: setFound_def)
  obtain seg rest where segs: "segs = seg # rest" using False by (cases segs) auto
  then have seg: "seg \<noteq> []" "chainRead K [] seg" using sr by (simp_all add: segmentRead_def)
  then have "numberedRecord K (hd seg)" using first False by (simp add: v segs)
  then have c: "chainAt K [] seg" by (rule chainRead_first [OF seg(2,1)])
  have ok: "segmentsOK K [] 0 segs" by (rule segmentsRead_OK [OF sr]) (use len v c segs in simp_all)
  have "validChain (kUnm K) (kHash K) zeroStart True ([] @ concat segs)"
    by (rule segments_chain [where k = 0]) (use ok in \<open>auto simp: validChain_def\<close>)
  moreover have "concat segs \<noteq> []" using segments_nonempty [OF ok False] .
  then have "chainAt K (concat segs) act" using chainRead_numbered [OF ar] len v by simp
  ultimately have "validChain (kUnm K) (kHash K) zeroStart True (vRecords v)" unfolding v by (auto intro: validChain_append)
  from loadChain_validI [OF this] show ?thesis by simp
qed

text \<open>
  C20: the reader accepts nothing but a root, whoever wrote the files. When \<open>Read\<close> reports an open set
  without a fault, its records are those of some sealed segments followed by those of the active, and each
  names the hash of the one before it; the active file holds exactly its records; without a sealed
  segment there is no manifest, and otherwise the manifest's entries match the segments and the first record
  carries its identity; every file named like a segment is one of the sealed segments, holds exactly its
  records and ends in the seal of that position, or is the tolerated second name of the active right after
  the last of them. If the first record is numbered, or there is no sealed segment, all records put in one file
  are a chain the single-file reader accepts. (The reads are answered, no other process changes the
  directory, and the sequence numbers stay below the bound of an \<open>int\<close>.)
\<close>

theorem clean_read_is_a_root:
  assumes "Read K quietIO mode idle d a = (d', v, None)" "vState v = StateOpen" "length (vRecords v) \<le> seqMax"
  shows "\<exists>segs act. vRecords v = concat segs @ act \<and> vSealed v = segViews K a [] 0 segs
    \<and> linkedFrom K '''' (vRecords v)
    \<and> (segs = [] \<or> numberedRecord K (hd (vRecords v)) \<longrightarrow>
         ldErr (loadChain (kUnm K) (kHash K) (clean (fileBytes (vRecords v))) zeroStart) = None)
    \<and> contents d a = Some (fileBytes act)
    \<and> (if segs = [] then contents d (ManifestPath a) = None
       else \<exists>m. loadManifest K quietIO d a = Inr (Some m) \<and> list_all2 entryMatches (mfSegments m) (vSealed v)
              \<and> vLogID v = mfLogID m \<and> GenesisLogID (kLogIDOf K) (vRecords v) = Some (mfLogID m))
    \<and> (\<forall>n. has_prefix n (a @ ''.seg-'') \<longrightarrow> inodeOf d n \<noteq> None \<longrightarrow>
         (\<exists>i < length segs. n = SegmentPath a (i + 1) \<and> contents d n = Some (fileBytes (segs ! i))
            \<and> sealsAt K (i + 1) (concat (take i segs)) (butlast (segs ! i)) (last (segs ! i)))
         \<or> n = SegmentPath a (length segs + 1) \<and> inodeOf d n = inodeOf d a)"
proof -
  from assms obtain ia segs act where F: "setFound K a d v ia segs act" by (rule Read_finds)
  then obtain sibs where ia: "inodeOf d a = Some ia" and L: "listSiblings quietIO d a = Inr sibs"
    and U: "unexplained d (length segs) ia sibs = None" and v: "vRecords v = concat segs @ act" "vSealed v = segViews K a [] 0 segs"
    and sr: "segmentsRead K [] 0 segs" and files: "\<forall>i < length segs. contents d (SegmentPath a (i + 1)) = Some (fileBytes (segs ! i))"
    and act: "chainRead K (concat segs) act" "contents d a = Some (fileBytes act)"
    by (auto simp: setFound_def contents_def)
  have "linkedFrom K '''' (vRecords v)"
    using segmentsRead_linked [OF sr] chainRead_linked [OF act(1)] by (simp add: v linkedFrom_append)
  moreover have "(\<exists>i < length segs. n = SegmentPath a (i + 1) \<and> contents d n = Some (fileBytes (segs ! i))
        \<and> sealsAt K (i + 1) (concat (take i segs)) (butlast (segs ! i)) (last (segs ! i)))
      \<or> n = SegmentPath a (length segs + 1) \<and> inodeOf d n = inodeOf d a" if m: "has_prefix n (a @ ''.seg-'')" "inodeOf d n \<noteq> None" for n
  proof -
    obtain k where k: "n = SegmentPath a k" "1 \<le> k \<and> k \<le> length segs \<or> k = length segs + 1 \<and> inodeOf d n = Some ia"
      by (rule explained_names [OF L U m])
    show ?thesis
    proof (cases "1 \<le> k \<and> k \<le> length segs")
      case True
      then have i: "k - 1 < length segs" "k = k - 1 + 1" by auto
      then show ?thesis
        using k files segmentsRead_nth [OF sr i(1)] by (intro disjI1 exI [of _ "k - 1"]) (auto simp: segmentRead_def)
    qed (use k ia in auto)
  qed
  moreover have "if segs = [] then contents d (ManifestPath a) = None
       else \<exists>m. loadManifest K quietIO d a = Inr (Some m) \<and> list_all2 entryMatches (mfSegments m) (vSealed v)
              \<and> vLogID v = mfLogID m \<and> GenesisLogID (kLogIDOf K) (vRecords v) = Some (mfLogID m)"
    using F by (auto simp: setFound_def v(2) loadManifest_def Let_def split: option.splits sum.splits if_splits)
  moreover note setFound_single_chain [OF F assms(3)]
  ultimately show ?thesis using v act(2) by blast
qed

section \<open>A rotated root\<close>

definition demoD3 :: directory where
  "demoD3 = freshFile ''c'' [] (freshFile ''c.segments'' ''M'' (freshFile ''c.seg-000001'' (fileBytes [''A'', ''B'']) demoD0))"

theorem clean_read_is_a_root_witness:
  "linkedFrom demoCodec '''' (vRecords (fst (snd (Read demoCodec quietIO Locked idle demoD3 ''c''))))
   \<and> vRecords (fst (snd (Read demoCodec quietIO Locked idle demoD3 ''c''))) \<noteq> []"
proof -
  let ?R = "Read demoCodec quietIO Locked idle demoD3 ''c''"
  have r: "vState (fst (snd ?R)) = StateOpen" "length (vRecords (fst (snd ?R))) = 2" "snd (snd ?R) = None" by code_simp+
  have R: "?R = (fst ?R, fst (snd ?R), None)" using r(3) by (metis prod.collapse)
  have "length (vRecords (fst (snd ?R))) \<le> seqMax" by (simp only: r) (simp add: seqMax_def)
  from clean_read_is_a_root [OF R r(1) this] have "linkedFrom demoCodec '''' (vRecords (fst (snd ?R)))" by blast
  moreover have "vRecords (fst (snd ?R)) \<noteq> []" using r(2) by (metis list.size(3) zero_neq_numeral)
  ultimately show ?thesis ..
qed

end
