(* ===== verification/Control_Rebuild.thy ===== *)
theory Control_Rebuild
  imports Control_Restore Control_Accept
begin

text \<open>
  What restoring shows: a copy the restore accepts is exactly a segment the reader accepts; putting a
  segment back destroys nothing; and a ledger whose sealed files and manifest were lost or damaged is
  rebuilt from the protected copies, record for record.
\<close>

declare showDigits.simps [simp del]

section \<open>What a fetched copy is\<close>

lemma sealLine_None: "sealLine K i rs = None \<longleftrightarrow> noSeal K rs"
  by (induction rs arbitrary: i) (auto simp: noSeal_def)

lemma fetchedSeal_Inr:
  "fetchedSeal K k s key recs = Inr (rc, block) \<longleftrightarrow>
     successfulSeal K (last recs) = Some rc
     \<and> sealFault K k (goInt (uint (startBase s) + 1)) (butlast recs) rc = None
     \<and> (\<exists>sl. crSeal rc = Some sl \<and> slSink sl = Some block) \<and> ssKey block = key"
  by (auto simp: fetchedSeal_def sealFault_def Let_def sealChainFieldsAgree_def split: option.splits if_splits)

lemma fetched_iff:
  assumes "VerifyReader (kUnm K) (kHash K) (clean data) s = (rs, head, err)"
  shows "verifyFetchedSegment K data k s logID key = Inr (sg, recs) \<longleftrightarrow>
    err = None \<and> rs \<noteq> [] \<and> recs = rs \<and> (k = 1 \<longrightarrow> GenesisLogID (kLogIDOf K) rs = Some logID)
    \<and> noSeal K (butlast rs) \<and> snd (segmentDigests K rs) = int (length data)
    \<and> (\<exists>rc block. fetchedSeal K k s key rs = Inr (rc, block)
         \<and> sg = sealedFigures k '''' s head (segmentDigests K rs) rc (Some block))"
proof (cases "err = None \<and> rs \<noteq> []")
  case True
  then show ?thesis
    using assms sealLine_None [of K 1 "butlast rs"] unfolding verifyFetchedSegment_def Let_def sealedFigures_def
    by (auto split: option.splits sum.splits prod.splits if_splits)
next
  case False
  then show ?thesis
    using assms unfolding verifyFetchedSegment_def Let_def
    by (auto split: option.splits ledger_error.splits)
qed

lemma fetched_copy_iff:
  assumes "contents d (SegmentPath a k) = Some data"
  shows "verifyFetchedSegment K data k s logID key = Inr (sg, recs) \<and> sgSealedAt sg \<noteq> 0 \<longleftrightarrow>
    verifySealed K quietIO d a k s (manifestEntry a sg) = (recs, Inr (sg\<lparr>sgPath := SegmentPath a k\<rparr>))
    \<and> sgPath sg = '''' \<and> (\<exists>b. sgSink sg = Some b \<and> ssKey b = key)
    \<and> (k = 1 \<longrightarrow> GenesisLogID (kLogIDOf K) recs = Some logID)"
    (is "?fetched \<longleftrightarrow> ?sealed")
proof -
  obtain rs head err where V: "VerifyReader (kUnm K) (kHash K) (clean data) s = (rs, head, err)" by (metis prod_cases3)
  obtain whole sz where g: "segmentDigests K rs = (whole, sz)" by fastforce
  show ?thesis
    unfolding fetched_iff [OF V] sealed_iff [OF assms V] fetchedSeal_Inr g
    by (cases sg)
      (auto simp: sealedFigures_def disagreement_def manifestEntry_def eq_commute [of "Some _" "slSink _"] split: if_splits option.splits)
qed


section \<open>Fetching the chain of a root\<close>

definition sinkKey :: "SinkReader \<Rightarrow> bytes \<Rightarrow> nat \<Rightarrow> bytes" where
  "sinkKey r logID k = sdPrefix r logID @ ''seg-'' @ pad6 k"

lemma fetched_segment:
  assumes K: "hashShaped K" and len: "length (ps @ seg) \<le> seqMax" and ok: "segmentOK K k ps seg"
    and b: "sgSink (segView K a k ps seg) = Some b" "ssKey b = key"
    and g: "k = 1 \<longrightarrow> GenesisLogID (kLogIDOf K) seg = Some logID"
  shows "verifyFetchedSegment K (fileBytes seg) k (startAt K ps) logID key = Inr ((segView K a k ps seg)\<lparr>sgPath := ''''\<rparr>, seg)"
proof -
  let ?d = "freshFile (SegmentPath a k) (fileBytes seg) \<lparr>dirNames = [], dirNode = (\<lambda>_. []), dirNext = 0\<rparr>"
  let ?sg = "(segView K a k ps seg)\<lparr>sgPath := ''''\<rparr>"
  have f: "contents ?d (SegmentPath a k) = Some (fileBytes seg)" by (simp add: contents_def)
  have "entryMatches (manifestEntry a ?sg) (segView K a k ps seg)" by (simp add: entryMatches_def manifestEntry_def)
  from verifySealed_segment [OF K len f ok this]
  have "verifySealed K quietIO ?d a k (startAt K ps) (manifestEntry a ?sg) = (seg, Inr (?sg\<lparr>sgPath := SegmentPath a k\<rparr>))"
    by (simp add: segView_def Let_def)
  with fetched_copy_iff [OF f, of K "startAt K ps" logID key ?sg seg] b g show ?thesis by auto
qed

text \<open>The sink holds the oldest copy of every segment from \<open>k + 1\<close> on, under the key its seal names.\<close>

definition holdsCopy :: "codec \<Rightarrow> SinkReader \<Rightarrow> bytes \<Rightarrow> nat \<Rightarrow> bytes list \<Rightarrow> bytes list \<Rightarrow> KeyVersions \<Rightarrow> bool" where
  "holdsCopy K r logID k ps seg kv \<longleftrightarrow>
     kvKey kv = sinkKey r logID k \<and> kvVersions kv \<noteq> []
     \<and> sdGet r (kvKey kv) (svID (hd (kvVersions kv))) maxRestoreBody = Inr (fileBytes seg)
     \<and> (\<exists>lock. sdGetRetention r (kvKey kv) (svID (hd (kvVersions kv))) = Inr lock)
     \<and> (\<exists>b. sgSink (segView K '''' k ps seg) = Some b \<and> ssKey b = kvKey kv)"

fun holdsCopies :: "codec \<Rightarrow> SinkReader \<Rightarrow> bytes \<Rightarrow> bytes list \<Rightarrow> nat \<Rightarrow> bytes list list \<Rightarrow> KeyVersions list \<Rightarrow> bool" where
  "holdsCopies K r logID ps k [] kvs = (kvs = [])"
| "holdsCopies K r logID ps k (seg # segs) kvs =
     (case kvs of
        [] \<Rightarrow> False
      | kv # kvs' \<Rightarrow> holdsCopy K r logID (k + 1) ps seg kv \<and> holdsCopies K r logID (ps @ seg) (k + 1) segs kvs')"

lemma segView_sink: "sgSink (segView K a k ps seg) = sgSink (segView K a' k' ps' seg)"
  by (simp add: segView_def Let_def)

definition fetchedOf :: "codec \<Rightarrow> bytes \<Rightarrow> bytes list \<Rightarrow> nat \<Rightarrow> bytes list list \<Rightarrow> fetchedSegment list" where
  "fetchedOf K a ps k segs =
     map2 (\<lambda>seg sg. \<lparr>fsData = fileBytes seg, fsSeg = sg\<lparr>sgPath := ''''\<rparr>\<rparr>) segs (segViews K a ps k segs)"

lemma fetchedOf_simps [simp]:
  "fetchedOf K a ps k [] = []"
  "fetchedOf K a ps k (seg # segs) =
     \<lparr>fsData = fileBytes seg, fsSeg = (segView K a (k + 1) ps seg)\<lparr>sgPath := ''''\<rparr>\<rparr> # fetchedOf K a (ps @ seg) (k + 1) segs"
  by (simp_all add: fetchedOf_def)

lemma fetchedOf_length [simp]: "length (fetchedOf K a ps k segs) = length segs"
  by (simp add: fetchedOf_def)

lemma fetchedOf_entries: "map (manifestEntry a) (map fsSeg (fetchedOf K a ps k segs)) = map (manifestEntry a) (segViews K a ps k segs)"
  by (induction segs arbitrary: ps k) (simp_all add: manifestEntry_def)

lemma fetchedOf_data: "i < length segs \<Longrightarrow> fsData (fetchedOf K a ps k segs ! i) = fileBytes (segs ! i)"
  by (simp add: fetchedOf_def)

lemma fetchLoop_root:
  assumes "hashShaped K" "length (ps @ concat segs) \<le> seqMax" "segmentsOK K ps k segs"
    and "holdsCopies K r logID ps k segs kvs" "\<And>i. i < length segs \<Longrightarrow> map_of held (k + i + 1) = Some (kvs ! i)"
    and "k = 0 \<longrightarrow> segs \<noteq> [] \<longrightarrow> GenesisLogID (kLogIDOf K) (hd segs) = Some logID"
  shows "\<exists>u. fetchLoop K r logID held (k + 1) (length segs) (startAt K ps) acc
    = Inr (acc\<lparr>fcSegments := fcSegments acc @ fetchedOf K a ps k segs, fcUnderLocked := u\<rparr>)"
  using assms(2-)
proof (induction segs arbitrary: ps k kvs acc)
  case Nil
  show ?case by (rule exI [of _ "fcUnderLocked acc"]) simp
next
  case (Cons seg segs)
  from Cons.prems(3) obtain kv kvs' where kvs: "kvs = kv # kvs'" and c: "holdsCopy K r logID (k + 1) ps seg kv"
    and cs: "holdsCopies K r logID (ps @ seg) (k + 1) segs kvs'" by (auto split: list.splits)
  from c obtain b lock where kv: "kvVersions kv \<noteq> []"
    "sdGet r (kvKey kv) (svID (hd (kvVersions kv))) maxRestoreBody = Inr (fileBytes seg)"
    "sdGetRetention r (kvKey kv) (svID (hd (kvVersions kv))) = Inr lock"
    and b: "sgSink (segView K a (k + 1) ps seg) = Some b" "ssKey b = kvKey kv"
    unfolding holdsCopy_def using segView_sink [of K a "k + 1" ps seg "''''" "k + 1" ps] by auto
  have held: "map_of held (k + 1) = Some kv" using Cons.prems(4) [of 0] kvs by simp
  let ?sg = "(segView K a (k + 1) ps seg)\<lparr>sgPath := ''''\<rparr>"
  have V: "verifyFetchedSegment K (fileBytes seg) (k + 1) (startAt K ps) logID (kvKey kv) = Inr (?sg, seg)"
    by (rule fetched_segment [OF assms(1) _ _ b]) (use Cons.prems in auto)
  have s: "\<lparr>startPrev = sgHeadHash ?sg, startBase = word_of_int (sgHeadSeq ?sg)\<rparr> = startAt K (ps @ seg)"
    using startAt_segment [of K a "k + 1" ps seg] by simp
  let ?acc = "acc\<lparr>fcSegments := fcSegments acc @ [\<lparr>fsData = fileBytes seg, fsSeg = ?sg\<rparr>],
      fcUnderLocked := fcUnderLocked acc
        @ (if rnMode lock \<noteq> ''COMPLIANCE'' \<or> rnRetainUntil lock < ssRetainUntil (the (sgSink ?sg)) then [k + 1] else [])\<rparr>"
  have "fetchLoop K r logID held (k + 1) (length (seg # segs)) (startAt K ps) acc
      = fetchLoop K r logID held (k + 1 + 1) (length segs) (startAt K (ps @ seg)) ?acc"
    using V kv held s by (simp add: Let_def)
  moreover have "\<exists>u. fetchLoop K r logID held (k + 1 + 1) (length segs) (startAt K (ps @ seg)) ?acc
      = Inr (?acc\<lparr>fcSegments := fcSegments ?acc @ fetchedOf K a (ps @ seg) (k + 1) segs, fcUnderLocked := u\<rparr>)"
    by (rule Cons.IH [OF _ _ cs]) (use Cons.prems(1,2) Cons.prems(4) [of "Suc _"] kvs in auto)
  ultimately show ?case by auto
qed

lemma sinkOrdinal_pad6: "1 \<le> k \<Longrightarrow> k \<le> ordinalMax \<Longrightarrow> sinkOrdinal (''seg-'' @ pad6 k) = k"
proof -
  assume k: "1 \<le> k" "k \<le> ordinalMax"
  have "drop 4 (''seg-'' @ pad6 k) = pad6 k" "length (''seg-'' @ pad6 k) = 10" "has_prefix (''seg-'' @ pad6 k) ''seg-''"
    using pad6_length [OF k(2)] by (simp_all add: has_prefix_iff)
  then show ?thesis
    unfolding sinkOrdinal_def using pad6_digits [of k] by (simp only: simp_thms if_True Atoi_pad6)
qed

lemma upt_step: "[j..<Suc (j + n)] = j # [Suc j..<Suc (j + n)]"
  by (simp add: upt_conv_Cons del: upt_Suc)

lemma byOrdinal_keys:
  "map kvKey kvs = map (sinkKey r logID) [j..<j + length kvs] \<Longrightarrow> list_all (\<lambda>kv. kvVersions kv \<noteq> []) kvs \<Longrightarrow> 1 \<le> j \<Longrightarrow>
   j + length kvs \<le> ordinalMax + 1 \<Longrightarrow> list_all (\<lambda>e. fst e < j) held \<Longrightarrow>
   byOrdinal (sdPrefix r logID) kvs held ms = Inr (rev (zip [j..<j + length kvs] kvs) @ held, ms)"
proof (induction kvs arbitrary: j held)
  case (Cons kv kvs)
  have u: "[j..<j + length (kv # kvs)] = j # [Suc j..<Suc j + length kvs]" by (simp add: upt_step del: upt_Suc)
  from Cons.prems(1) have key: "kvKey kv = sinkKey r logID j" and keys: "map kvKey kvs = map (sinkKey r logID) [Suc j..<Suc j + length kvs]"
    unfolding u by simp_all
  have n: "sinkOrdinal (trimPrefix (kvKey kv) (sdPrefix r logID)) = j"
    using sinkOrdinal_pad6 [of j] Cons.prems(3,4) unfolding key sinkKey_def trimPrefix_def by (simp add: has_prefix_iff)
  have fl: "filter (\<lambda>e. fst e \<noteq> j) held = held" using Cons.prems(5) by (induction held) auto
  have "byOrdinal (sdPrefix r logID) (kv # kvs) held ms = byOrdinal (sdPrefix r logID) kvs ((j, kv) # held) ms"
    using Cons.prems(2,3) by (simp add: n Let_def fl)
  also have "\<dots> = Inr (rev (zip [Suc j..<Suc j + length kvs] kvs) @ (j, kv) # held, ms)"
    by (rule Cons.IH [OF keys]) (use Cons.prems in \<open>auto simp: list_all_iff\<close>)
  finally show ?case by (simp only: u) simp
qed simp

lemma holdsCopies_keys:
  "holdsCopies K r logID ps k segs kvs \<Longrightarrow>
   length kvs = length segs \<and> list_all (\<lambda>kv. kvVersions kv \<noteq> []) kvs
   \<and> map kvKey kvs = map (sinkKey r logID) [k + 1..<k + 1 + length segs]"
proof (induction segs arbitrary: ps k kvs)
  case (Cons seg segs)
  from Cons.prems obtain kv kvs' where kvs: "kvs = kv # kvs'" and c: "holdsCopy K r logID (k + 1) ps seg kv"
    and cs: "holdsCopies K r logID (ps @ seg) (k + 1) segs kvs'" by (auto split: list.splits)
  have "[k + 1..<k + 1 + length (seg # segs)] = (k + 1) # [k + 1 + 1..<k + 1 + 1 + length segs]"
    using upt_step [of "k + 1" "length segs"] by (simp del: upt_Suc)
  with Cons.IH [OF cs] c kvs show ?case by (auto simp: holdsCopy_def)
qed simp

lemma fetchChain_root:
  assumes "hashShaped K" "length (concat segs) \<le> seqMax" "length segs < ordinalMax" "segmentsOK K [] 0 segs" "segs \<noteq> []"
    and "sdListPrefix r (sdPrefix r logID) = Inr kvs" "holdsCopies K r logID [] 0 segs kvs"
    and "GenesisLogID (kLogIDOf K) (hd segs) = Some logID"
  obtains chain where "fetchChain K logID r = Inr chain" "fcSegments chain = fetchedOf K a [] 0 segs"
proof -
  let ?n = "length segs" and ?held = "rev (zip [1..<1 + length kvs] kvs)"
  note c = holdsCopies_keys [OF assms(7)]
  have ord: "byOrdinal (sdPrefix r logID) kvs [] [] = Inr (?held, [])"
    using byOrdinal_keys [of kvs r logID 1 "[]" "[]"] c assms(3) by (simp add: list_all_iff)
  have dist: "distinct (map fst ?held)" by (simp add: rev_map [symmetric])
  have held: "map_of ?held (i + 1) = Some (kvs ! i)" if "i < ?n" for i
  proof -
    have "(i + 1, kvs ! i) \<in> set ?held" using that c by (auto simp: set_zip simp del: upt_Suc intro!: exI [of _ i])
    then show ?thesis using map_of_eq_Some_iff [OF dist, of "i + 1" "kvs ! i"] by simp
  qed
  have ords: "sort (map fst ?held) = [1..<1 + ?n]"
    using c by (intro sorted_distinct_set_unique) (simp_all add: rev_map [symmetric] del: upt_Suc)
  have last: "last [1..<1 + ?n] = ?n" using assms(5) by (cases segs) auto
  have hole: "find (\<lambda>k. map_of ?held k = None) [1..<?n + 1] = None"
    unfolding find_None_iff
  proof (safe)
    fix k
    assume k: "k \<in> set [1..<?n + 1]" "map_of ?held k = None"
    then have "k - 1 < ?n" "k - 1 + 1 = k" by (auto simp del: upt_Suc)
    then show False using held [of "k - 1"] k(2) by (simp del: upt_Suc)
  qed
  obtain u where "fetchLoop K r logID ?held (0 + 1) ?n (startAt K []) \<lparr>fcSegments = [], fcUnderLocked = [], fcMarkerOnly = sort []\<rparr>
      = Inr (\<lparr>fcSegments = [], fcUnderLocked = [], fcMarkerOnly = sort []\<rparr>\<lparr>fcSegments := [] @ fetchedOf K a [] 0 segs, fcUnderLocked := u\<rparr>)"
    using fetchLoop_root [OF assms(1) _ assms(4,7), of ?held "\<lparr>fcSegments = [], fcUnderLocked = [], fcMarkerOnly = sort []\<rparr>" a] held
      assms(2,8) by auto
  then have "fetchChain K logID r = Inr \<lparr>fcSegments = fetchedOf K a [] 0 segs, fcUnderLocked = u, fcMarkerOnly = sort []\<rparr>"
    unfolding fetchChain_def Let_def assms(6) sum.case ord prod.case ords last
    using assms(5) hole by (simp del: upt_Suc)
  then show ?thesis using that by auto
qed

section \<open>Nothing is destroyed\<close>

text \<open>Every byte string a file held is still held, by that file or by one of the \<open>moved\<close> names.\<close>

definition keepsBytes :: "bytes set \<Rightarrow> directory \<Rightarrow> directory \<Rightarrow> bool" where
  "keepsBytes moved d d' \<longleftrightarrow>
     wfDir d' \<and> (\<forall>n b. contents d n = Some b \<longrightarrow> contents d' n = Some b \<or> (\<exists>m \<in> moved. contents d' m = Some b))"

lemma keepsBytes_refl [simp]: "wfDir d \<Longrightarrow> keepsBytes {} d d"
  by (simp add: keepsBytes_def)

lemma keepsBytes_trans: "keepsBytes M d d1 \<Longrightarrow> keepsBytes N d1 d2 \<Longrightarrow> keepsBytes (M \<union> N) d d2"
  unfolding keepsBytes_def by (metis UnCI)

lemma keepsBytes_mono: "keepsBytes M d d' \<Longrightarrow> M \<subseteq> N \<Longrightarrow> keepsBytes N d d'"
  unfolding keepsBytes_def by blast

lemma keepsBytes_fresh: "wfDir d \<Longrightarrow> inodeOf d n = None \<Longrightarrow> keepsBytes {} d (freshFile n b d)"
  by (auto simp: keepsBytes_def contents_freshFile) (simp add: contents_def)

text \<open>Moving a file aside: the name is a new one, of a shape no root uses.\<close>

definition movedAside :: "bytes \<Rightarrow> bytes \<Rightarrow> directory \<Rightarrow> directory" where
  "movedAside path name d = renameName path name (freshFile name [] d)"

lemma asideLoop_outcome:
  "asideLoop ri path what left d = (d', res) \<Longrightarrow>
   (\<exists>e. res = Inl e \<and> (d' = d \<or> (\<exists>name. inodeOf d name = None \<and> d' = removeNames (\<lambda>n. n = name) (freshFile name [] d))))
   \<or> (\<exists>j. let name = replacedName path what (riUnix ri path) j
          in res = Inr name \<and> inodeOf d name = None \<and> d' = movedAside path name d)"
proof (induction left)
  case (Suc left)
  let ?c = "replacedName path what (riUnix ri path) (maxTornFragmentAttempts - Suc left)"
  show ?case
  proof (cases "inodeOf d ?c = None \<and> \<not> riCreateFails ri ?c")
    case True
    with Suc.prems show ?thesis
      by (cases "riRenameFails ri path") (auto simp: Let_def movedAside_def)
  next
    case False
    with Suc show ?thesis by (auto simp: Let_def split: if_splits)
  qed
qed auto

lemma moveAside_outcome:
  assumes "moveAsideReplaced ri path what d = (d', res)"
  obtains (failed) e where "res = Inl e" "d' = d \<or> (\<exists>name. inodeOf d name = None \<and> d' = removeNames (\<lambda>n. n = name) (freshFile name [] d))"
  | (moved) j where "res = Inr (replacedName path what (riUnix ri path) j)"
      "inodeOf d (replacedName path what (riUnix ri path) j) = None"
      "d' = movedAside path (replacedName path what (riUnix ri path) j) d"
  using asideLoop_outcome assms unfolding moveAsideReplaced_def Let_def by blast

lemma wfDir_linkI: "wfDir d \<Longrightarrow> i < dirNext d \<Longrightarrow> wfDir (linkName name i d)"
  by (simp add: wfDir_def list_all_iff linkName_def)

lemma movedAside_simps:
  assumes "wfDir d" "inodeOf d path = Some i" "inodeOf d name = None"
  shows "inodeOf (movedAside path name d) n = (if n = name then Some i else if n = path then None else inodeOf d n)"
    "dirNode (movedAside path name d) = (dirNode d)(dirNext d := [])" "dirNext (movedAside path name d) = dirNext d + 1"
    "wfDir (movedAside path name d)"
    "contents (movedAside path name d) n = (if n = name then contents d path else if n = path then None else contents d n)"
proof -
  have ne: "path \<noteq> name" "i < dirNext d" using assms wfDir_inode by auto
  then show io: "inodeOf (movedAside path name d) n = (if n = name then Some i else if n = path then None else inodeOf d n)" for n
    using assms by (simp add: movedAside_def renameName_def)
  show nd: "dirNode (movedAside path name d) = (dirNode d)(dirNext d := [])" "dirNext (movedAside path name d) = dirNext d + 1"
    using ne assms by (simp_all add: movedAside_def renameName_def)
  have "movedAside path name d = linkName name i (removeNames (\<lambda>n. n = path) (freshFile name [] d))"
    using ne assms by (simp add: movedAside_def renameName_def)
  then show "wfDir (movedAside path name d)"
    using ne assms(1) by (metis wfDir_linkI wfDir_remove wfDir_fresh dirNext_simps(2,4) less_SucI Suc_eq_plus1)
  show "contents (movedAside path name d) n = (if n = name then contents d path else if n = path then None else contents d n)"
    using ne assms wfDir_inode [OF assms(1), of n] by (cases "inodeOf d n") (auto simp: contents_def io nd)
qed

lemma keepsBytes_moved:
  assumes "wfDir d" "inodeOf d path \<noteq> None" "inodeOf d name = None"
  shows "keepsBytes {name} d (movedAside path name d)"
proof -
  from assms(2) obtain i where i: "inodeOf d path = Some i" by blast
  note s = movedAside_simps [OF assms(1) i assms(3)]
  show ?thesis using assms s(4) by (auto simp: keepsBytes_def s(5)) (simp add: contents_def)
qed

lemma keepsBytes_claim: "wfDir d \<Longrightarrow> inodeOf d name = None \<Longrightarrow> keepsBytes {} d (removeNames (\<lambda>n. n = name) (freshFile name [] d))"
  by (auto simp: keepsBytes_def contents_simps contents_freshFile) (simp add: contents_def)

lemma moveAside_keeps:
  assumes "wfDir d" "inodeOf d path \<noteq> None" "moveAsideReplaced ri path what d = (d', res)"
  shows "keepsBytes (case res of Inl _ \<Rightarrow> {} | Inr name \<Rightarrow> {name}) d d'"
  using assms(3)
proof (cases rule: moveAside_outcome)
  case (failed e)
  then show ?thesis using assms(1) keepsBytes_claim by auto
next
  case (moved j)
  then show ?thesis using keepsBytes_moved assms(1,2) by simp
qed

lemma trimSuffix_cases: "trimSuffix s t = s \<or> s = trimSuffix s t @ t"
  by (simp add: trimSuffix_def hasSuffix_def) (metis append_take_drop_id)

lemma trimSuffix_append [simp]: "trimSuffix (s @ t) t = s"
  by (simp add: trimSuffix_def hasSuffix_def)

lemma replacedName_segment: "replacedName (SegmentPath a k) (pad6 k) u j \<noteq> a"
proof
  assume eq: "replacedName (SegmentPath a k) (pad6 k) u j = a"
  have "pad6 k \<noteq> []" unfolding pad6_def by (cases "showDigits k") simp_all
  then obtain c cs where p: "pad6 k = c # cs" "isDigit c"
    using pad6_digits [of k] by (metis list.exhaust list.pred_inject(2))
  have t: "trimSuffix (SegmentPath a k) (''.seg-'' @ pad6 k) = a"
    unfolding SegmentPath_def by (rule trimSuffix_append)
  obtain x where "trimSuffix a (''.'' @ pad6 k) = x" by simp
  with eq t have x: "x @ ''.replaced-'' @ pad6 k @ ''-'' @ showDigits u @ (if j > 0 then CHR ''-'' # showDigits (j + 1) else []) = a"
    by (simp add: replacedName_def replacedStem_def)
  from trimSuffix_cases [of a "''.'' @ pad6 k"] \<open>trimSuffix a (''.'' @ pad6 k) = x\<close> have "x = a \<or> a = x @ ''.'' @ pad6 k" by auto
  then show False
  proof
    assume "x = a"
    with x show False by simp
  next
    assume "a = x @ ''.'' @ pad6 k"
    with x p show False by (simp add: isDigit_def)
  qed
qed

lemma replacedName_manifest: "replacedName (ManifestPath a) ''segments'' u j \<noteq> a"
proof -
  have "trimSuffix (ManifestPath a) ''.seg-segments'' = ManifestPath a"
  proof (rule ccontr)
    assume "trimSuffix (ManifestPath a) ''.seg-segments'' \<noteq> ManifestPath a"
    then obtain x where "a @ ''.segments'' = x @ ''.seg-segments''"
      using trimSuffix_cases [of "ManifestPath a" "''.seg-segments''"] by (auto simp: ManifestPath_def)
    then have "rev (a @ ''.segments'') ! 8 = rev (x @ ''.seg-segments'') ! 8" by simp
    then show False by simp
  qed
  moreover have "trimSuffix (ManifestPath a) ''.segments'' = a" unfolding ManifestPath_def by (rule trimSuffix_append)
  ultimately show ?thesis by (simp add: replacedName_def replacedStem_def)
qed

text \<open>
  What a rebuild does to a directory beside the active \<open>a\<close>: it may give names of \<open>X\<close> new files, never
  touches a file's bytes, and keeps every other name, the active's file its own, and every byte.
\<close>

definition tends :: "bytes \<Rightarrow> bytes set \<Rightarrow> bytes set \<Rightarrow> directory \<Rightarrow> directory \<Rightarrow> bool" where
  "tends a X moved d d' \<longleftrightarrow>
     keepsBytes moved d d' \<and> dirNext d \<le> dirNext d' \<and> (\<forall>i < dirNext d. dirNode d' i = dirNode d i)
     \<and> (\<forall>n. n \<notin> X \<longrightarrow> inodeOf d n \<noteq> None \<longrightarrow> inodeOf d' n = inodeOf d n)
     \<and> inodeOf d' a = inodeOf d a \<and> (ownActive a d \<longrightarrow> ownActive a d')"

lemma tends_refl: "wfDir d \<Longrightarrow> tends a X {} d d"
  by (simp add: tends_def)

lemma tends_trans: "tends a X M d d1 \<Longrightarrow> tends a Y N d1 d2 \<Longrightarrow> tends a (X \<union> Y) (M \<union> N) d d2"
  unfolding tends_def by (auto intro: keepsBytes_trans)

lemma tends_mono: "tends a X M d d' \<Longrightarrow> X \<subseteq> Y \<Longrightarrow> M \<subseteq> N \<Longrightarrow> tends a Y N d d'"
  unfolding tends_def by (auto intro: keepsBytes_mono)

lemma tends_wfDir: "tends a X M d d' \<Longrightarrow> wfDir d'"
  by (simp add: tends_def keepsBytes_def)

lemma tends_contents: "tends a X M d d' \<Longrightarrow> wfDir d \<Longrightarrow> n \<notin> X \<Longrightarrow> contents d n = Some b \<Longrightarrow> contents d' n = Some b"
  by (cases "inodeOf d n") (auto simp: tends_def contents_def dest: wfDir_inode)

lemma tends_fresh:
  assumes "wfDir d" "inodeOf d n = None" "n \<noteq> a"
  shows "tends a {n} {} d (freshFile n b d)"
  using assms keepsBytes_fresh [OF assms(1,2)] wfDir_inode [OF assms(1), of a]
  by (auto simp: tends_def ownActive_def)

lemma tends_claim:
  assumes "wfDir d" "inodeOf d n = None"
  shows "tends a X {} d (removeNames (\<lambda>m. m = n) (freshFile n [] d))"
  using assms keepsBytes_claim [OF assms] by (auto simp: tends_def ownActive_def)

lemma tends_moved:
  assumes "wfDir d" "inodeOf d path \<noteq> None" "inodeOf d name = None" "path \<noteq> a" "name \<noteq> a"
  shows "tends a {path} {name} d (movedAside path name d)"
proof -
  from assms(2) obtain i where i: "inodeOf d path = Some i" by blast
  note s = movedAside_simps [OF assms(1) i assms(3)]
  show ?thesis
    using assms keepsBytes_moved [OF assms(1-3)] i
    by (auto simp: tends_def s(1-3) ownActive_def)
qed

lemma moveAside_tends:
  assumes "wfDir d" "inodeOf d path \<noteq> None" "path \<noteq> a" "\<And>j. replacedName path what (riUnix ri path) j \<noteq> a"
    and "moveAsideReplaced ri path what d = (d', res)"
  shows "tends a {path} (case res of Inl _ \<Rightarrow> {} | Inr name \<Rightarrow> {name}) d d' \<and> (\<forall>name. res = Inr name \<longrightarrow> inodeOf d' path = None)"
  using assms(5)
proof (cases rule: moveAside_outcome)
  case (failed e)
  then show ?thesis using assms(1) tends_claim tends_refl by auto
next
  case (moved j)
  from assms(2) obtain i where i: "inodeOf d path = Some i" by blast
  have "inodeOf d' path = None" using movedAside_simps(1) [OF assms(1) i moved(2)] moved(2,3) i by auto
  then show ?thesis using moved tends_moved [OF assms(1,2) moved(2) assms(3,4)] by simp
qed

lemma rebuildFiles_tends:
  assumes "rebuildFiles ri a k fs res d = (d', res', err)" "wfDir d"
  shows "tends a (SegmentPath a ` {k..}) (set (rbReplacedNames res')) d d' \<and> set (rbReplacedNames res) \<subseteq> set (rbReplacedNames res')
    \<and> (err = None \<longrightarrow> (\<forall>i < length fs. contents d' (SegmentPath a (k + i)) = Some (fsData (fs ! i))))"
  using assms
proof (induction fs arbitrary: k res d)
  case Nil
  then show ?case using tends_mono [OF tends_refl [of d], of "{}" _ "set (rbReplacedNames res)"] by auto
next
  case (Cons f fs)
  let ?path = "SegmentPath a k"
  have rest: ?case
    if T: "tends a {?path} M d d1" and M: "M \<union> set (rbReplacedNames res) \<subseteq> set (rbReplacedNames res1)"
      and w: "contents d1 ?path = Some (fsData f)" and R: "rebuildFiles ri a (k + 1) fs res1 d1 = (d', res', err)" for M d1 res1
  proof -
    note IH = Cons.IH [OF R tends_wfDir [OF T]]
    have "tends a (SegmentPath a ` {k..}) (set (rbReplacedNames res')) d d'"
      by (rule tends_mono [OF tends_trans [OF T conjunct1 [OF IH]]]) (use M IH in auto)
    moreover have "?path \<notin> SegmentPath a ` {k + 1..}" by (simp add: image_iff)
    then have "contents d' ?path = Some (fsData f)"
      by (rule tends_contents [OF conjunct1 [OF IH] tends_wfDir [OF T] _ w])
    ultimately show ?thesis using IH M by (auto simp: less_Suc_eq_0_disj)
  qed
  have wrote: "tends a {?path} M d d3 \<and> contents d3 ?path = Some (fsData f)"
    if "tends a {?path} M d d2" "inodeOf d2 ?path = None" "writeRestored ri ?path (fsData f) d2 = (d3, None)" for M d2 d3
  proof -
    have d3: "d3 = freshFile ?path (fsData f) d2" using that(3) by (simp add: writeRestored_def Replace_def split: if_splits)
    have "tends a ({?path} \<union> {?path}) (M \<union> {}) d d3"
      unfolding d3 by (rule tends_trans [OF that(1) tends_fresh [OF tends_wfDir [OF that(1)] that(2)]]) simp
    then show ?thesis using d3 by (simp add: contents_freshFile [OF tends_wfDir [OF that(1)]])
  qed
  have failed: "d3 = d2" if "writeRestored ri ?path (fsData f) d2 = (d3, Some e)" for d2 d3 e
    using that by (simp add: writeRestored_def Replace_def split: if_splits)
  have stop: ?case if "tends a {?path} M d d'" "M \<union> set (rbReplacedNames res) \<subseteq> set (rbReplacedNames res')" "err \<noteq> None" for M
    using that tends_mono [OF that(1), of "SegmentPath a ` {k..}" "set (rbReplacedNames res')"] by auto
  have t0: "tends a {?path} {} d d" by (rule tends_refl [OF Cons.prems(2)])
  consider (fault) e where "sameBytes ri d ?path (fsData f) = Inl e" | (same) "contents d ?path = Some (fsData f)"
      "sameBytes ri d ?path (fsData f) = Inr (Some True)"
    | (differs) "inodeOf d ?path \<noteq> None" "sameBytes ri d ?path (fsData f) = Inr (Some False)"
    | (absent) "inodeOf d ?path = None" "sameBytes ri d ?path (fsData f) = Inr None"
  proof (cases "contents d ?path")
    case None
    then show ?thesis using absent by (simp add: sameBytes_def contents_def)
  next
    case (Some old)
    then show ?thesis
      using fault same differs
      by (cases "riStatFails ri ?path"; cases "old = fsData f") (auto simp: sameBytes_def dest: contents_inode)
  qed
  then show ?case
  proof cases
    case fault
    with Cons.prems(1) t0 show ?thesis by (intro stop [of "{}"]) (auto simp: Let_def)
  next
    case same
    with Cons.prems(1) show ?thesis by (intro rest [OF t0, of res]) (auto simp: Let_def)
  next
    case absent
    obtain d3 e3 where W: "writeRestored ri ?path (fsData f) d = (d3, e3)" by fastforce
    show ?thesis
    proof (cases e3)
      case None
      with wrote [OF t0 absent(1)] W Cons.prems(1) absent(2) show ?thesis
        by (intro rest [of "{}" d3 "res\<lparr>rbWritten := rbWritten res + 1\<rparr>"]) (auto simp: Let_def)
    next
      case (Some e)
      with W failed [of d d3 e] Cons.prems(1) absent(2) t0 show ?thesis by (intro stop [of "{}"]) (auto simp: Let_def)
    qed
  next
    case differs
    obtain d2 r2 where A: "moveAsideReplaced ri ?path (pad6 k) d = (d2, r2)" by fastforce
    note t = moveAside_tends [OF Cons.prems(2) differs(1) _ replacedName_segment A]
    show ?thesis
    proof (cases r2)
      case (Inl e)
      with t A Cons.prems(1) differs(2) show ?thesis by (intro stop [of "{}"]) (auto simp: Let_def)
    next
      case (Inr name)
      with t have t2: "tends a {?path} {name} d d2" "inodeOf d2 ?path = None" by auto
      let ?res = "res\<lparr>rbReplaced := rbReplaced res + 1, rbReplacedNames := rbReplacedNames res @ [name]\<rparr>"
      obtain d3 e3 where W: "writeRestored ri ?path (fsData f) d2 = (d3, e3)" by fastforce
      show ?thesis
      proof (cases e3)
        case None
        with wrote [OF t2] W A Inr Cons.prems(1) differs(2) show ?thesis
          by (intro rest [of "{name}" d3 "?res\<lparr>rbWritten := rbWritten res + 1\<rparr>"]) (auto simp: Let_def)
      next
        case (Some e)
        with W failed [of d2 d3 e] A Inr Cons.prems(1) differs(2) t2 show ?thesis
          by (intro stop [of "{name}"]) (auto simp: Let_def)
      qed
    qed
  qed
qed

lemma rebuildManifest_tends:
  assumes "rebuildManifest K ri io ck a m res d = (d', res', err)" "wfDir d"
  shows "tends a {ManifestPath a} (set (rbReplacedNames res')) d d' \<and> set (rbReplacedNames res) \<subseteq> set (rbReplacedNames res')"
proof -
  let ?path = "ManifestPath a"
  have kept: ?thesis if "tends a {?path} M d d'" "M \<union> set (rbReplacedNames res) \<subseteq> set (rbReplacedNames res')" for M
    using that tends_mono [OF that(1), of "{?path}" "set (rbReplacedNames res')"] by auto
  have wrote: "tends a {?path} M d d3" if "tends a {?path} M d d2" "inodeOf d2 ?path = None" "writeManifest K ck a m d2 = (d3, e)"
    for M d2 d3 e
  proof -
    have "d3 = d2 \<or> (\<exists>b. d3 = freshFile ?path b d2)"
      using that(3) by (auto simp: writeManifest_def Replace_def split: option.splits sum.splits if_splits)
    then show ?thesis
      using that(1) tends_trans [OF that(1) tends_fresh [OF tends_wfDir [OF that(1)] that(2), of a]] by auto
  qed
  have t0: "tends a {?path} {} d d" by (rule tends_refl [OF assms(2)])
  show ?thesis
  proof (cases "contents d ?path")
    case None
    then have "inodeOf d ?path = None" by (simp add: contents_def)
    with assms(1) None t0 show ?thesis
      by (intro kept [of "{}"]) (auto simp: rebuildManifest_def Let_def split: option.splits prod.splits intro: wrote [OF t0])
  next
    case (Some old)
    then have i: "inodeOf d ?path \<noteq> None" by (rule contents_inode)
    obtain d2 r2 where A: "moveAsideReplaced ri ?path ''segments'' d = (d2, r2)" by fastforce
    note t = moveAside_tends [OF assms(2) i _ replacedName_manifest A]
    show ?thesis
    proof (cases r2)
      case (Inl e)
      with t A Some assms(1) t0 show ?thesis
        by (intro kept [of "{}"]) (auto simp: rebuildManifest_def Let_def split: option.splits if_splits)
    next
      case (Inr name)
      with t have t2: "tends a {?path} {name} d d2" "inodeOf d2 ?path = None" by auto
      consider "d' = d" "res' = res" | d3 e where "writeManifest K ck a m d2 = (d3, e)" "d' = d3"
          "rbReplacedNames res' = rbReplacedNames res @ [name]"
        using A Inr Some assms(1) by (auto simp: rebuildManifest_def Let_def split: option.splits if_splits prod.splits)
      then show ?thesis
      proof cases
        case 1
        with t0 show ?thesis by (intro kept [of "{}"]) auto
      next
        case 2
        with wrote [OF t2] show ?thesis by (intro kept [of "{name}"]) auto
      qed
    qed
  qed
qed

lemma rebuildWrite_outcome:
  assumes "rebuildWrite K ri io ck crash a logID fs created d = (d', res, err)" "wfDir d"
  obtains d1 where "tends a (SegmentPath a ` {1..} \<union> {ManifestPath a}) (set (rbReplacedNames res)) d d1"
    "d' = d1 \<and> (created \<longrightarrow> err \<noteq> None) \<or> created \<and> d' = freshFile a [] d1"
    "err = None \<Longrightarrow> \<forall>i < length fs. contents d' (SegmentPath a (i + 1)) = Some (fsData (fs ! i))"
proof -
  let ?X = "SegmentPath a ` {1..} \<union> {ManifestPath a}"
  obtain d1 res1 e1 where F: "rebuildFiles ri a 1 fs noRebuild d = (d1, res1, e1)" by (metis prod_cases3)
  note f = rebuildFiles_tends [OF F assms(2)]
  obtain m kept dropped where M: "rebuiltManifest K io d1 a logID fs = (m, kept, dropped)" by (metis prod_cases3)
  let ?res = "res1\<lparr>rbLocalOnly := kept, rbDropped := dropped\<rparr>"
  obtain d2 res2 e2 where W: "rebuildManifest K ri io ck a m ?res d1 = (d2, res2, e2)" by (metis prod_cases3)
  note w = rebuildManifest_tends [OF W tends_wfDir [OF conjunct1 [OF f]]]
  have t1: "tends a ?X (set (rbReplacedNames res1)) d d1" by (rule tends_mono [OF conjunct1 [OF f]]) auto
  have t2: "tends a ?X (set (rbReplacedNames res2)) d d2"
    by (rule tends_mono [OF tends_trans [OF conjunct1 [OF f] conjunct1 [OF w]]]) (use w in auto)
  have c2: "contents d2 (SegmentPath a (i + 1)) = Some (fsData (fs ! i))" if "e1 = None" "i < length fs" for i
    using tends_contents [OF conjunct1 [OF w] tends_wfDir [OF conjunct1 [OF f]], of "SegmentPath a (i + 1)"] f that by simp
  show ?thesis
  proof (cases "created \<and> riStatFails ri a")
    case True
    with assms(1) have "d' = d" "res = noRebuild" "err \<noteq> None" by (auto simp: rebuildWrite_def)
    then show ?thesis using that [of d] tends_mono [OF tends_refl [OF assms(2)]] by blast
  next
    case False
    note R = assms(1) [unfolded rebuildWrite_def if_not_P [OF False] F prod.case]
    show ?thesis
    proof (cases "e1 \<noteq> None \<or> crash = ''rebuild_after_segment_before_manifest''")
      case True
      with R have "d' = d1" "res = res1" "err \<noteq> None" by (auto split: option.splits)
      then show ?thesis using that [OF t1 [folded \<open>res = res1\<close>]] by blast
    next
      case ok: False
      have sw: "\<exists>d3 e3. swapActive ck a d2 = (d3, e3) \<and> (e3 = None \<and> d3 = freshFile a [] d2 \<or> e3 \<noteq> None \<and> d3 = d2)"
        by (auto simp: swapActive_def Replace_def)
      with R ok have "rbReplacedNames res = rbReplacedNames res2
          \<and> (d' = d2 \<and> (created \<longrightarrow> err \<noteq> None) \<or> created \<and> d' = freshFile a [] d2)"
        by (auto simp: M W split: option.splits if_splits)
      then show ?thesis
        using that [of d2] t2 c2 ok contents_freshFile [OF tends_wfDir [OF t2], of a "[]"] by auto
    qed
  qed
qed

lemma rebuildWrite_keeps:
  assumes "rebuildWrite K ri io ck crash a logID fs created d = (d', res, err)" "wfDir d" "created \<Longrightarrow> inodeOf d a = None"
  shows "keepsBytes (set (rbReplacedNames res)) d d'"
proof -
  from assms(1,2) obtain d1 where T: "tends a (SegmentPath a ` {1..} \<union> {ManifestPath a}) (set (rbReplacedNames res)) d d1"
    "d' = d1 \<or> created \<and> d' = freshFile a [] d1" by (rule rebuildWrite_outcome) blast
  then have k: "keepsBytes (set (rbReplacedNames res)) d d1" "inodeOf d1 a = inodeOf d a" by (simp_all add: tends_def)
  with T(2) assms(3) show ?thesis
    using keepsBytes_trans [OF k(1) keepsBytes_fresh [OF tends_wfDir [OF T(1)], of a "[]"]] by auto
qed

lemma rebuildWrite_done:
  assumes "rebuildWrite K ri io ck crash a logID fs (inodeOf d a = None) d = (d', res, None)" "wfDir d" "ownActive a d"
  shows "wfDir d'" "ownActive a d'" "\<forall>i < length fs. contents d' (SegmentPath a (i + 1)) = Some (fsData (fs ! i))"
proof -
  from assms(1,2) obtain d1 where T: "tends a (SegmentPath a ` {1..} \<union> {ManifestPath a}) (set (rbReplacedNames res)) d d1"
    "d' = d1 \<or> d' = freshFile a [] d1"
    "\<forall>i < length fs. contents d' (SegmentPath a (i + 1)) = Some (fsData (fs ! i))" by (rule rebuildWrite_outcome) blast
  have w: "wfDir d1" "ownActive a d1" using tends_wfDir [OF T(1)] T(1) assms(3) by (simp_all add: tends_def)
  then show "wfDir d'" using T(2) by auto
  show "ownActive a d'" using T(2) w wfDir_inode [OF w(1)] by (fastforce simp: ownActive_def)
  show "\<forall>i < length fs. contents d' (SegmentPath a (i + 1)) = Some (fsData (fs ! i))" by (rule T(3))
qed

section \<open>The rebuilt log\<close>

lemma openByName_idle: "fst (openByName io mode idle k d a) = d"
  by (induction k) (auto simp: Let_def split: option.splits)

lemma Read_idle: "fst (Read K io mode idle d a) = d"
  using openByName_idle [of io mode 2 d a]
  by (auto simp: Read_def split: prod.splits sum.splits option.splits)

lemma Read_mode: "Read K quietIO mode idle d a = Read K quietIO mode' idle d a"
proof -
  have "openByName quietIO mode idle k d a = openByName quietIO mode' idle k d a" for k
    by (induction k) (simp_all add: Let_def split: option.split)
  then show ?thesis by (simp only: Read_def)
qed

lemma holdActive_quiet: "holdActive quietIO idle d a = (d, if inodeOf d a = None then Some NotExist else None)"
  by (auto simp: holdActive_def sameFile_def split: option.splits)

lemma rebuildFrom_success:
  assumes "rebuildFrom K ri quietIO idle idle ck crash a logID e chain d = (d', res, None)"
  obtains dw res0 v head e' where
    "rebuildWrite K ri quietIO ck crash a logID (fcSegments chain) (inodeOf d a = None) (sweepTemps quietIO a d) = (dw, res0, None)"
    "Read K quietIO Locked idle dw a = (dw, v, None)" "vState v = StateOpen" "rbHead res = head"
    "Append K quietIO idle idle ck dw a e' = (d', Inr head)" "\<exists>det. e' = e\<lparr>ceDetail := det\<rparr>"
proof -
  obtain dw res0 werr where W: "rebuildWrite K ri quietIO ck crash a logID (fcSegments chain) (inodeOf d a = None) (sweepTemps quietIO a d)
      = (dw, res0, werr)" by (metis prod_cases3)
  obtain held where held: "holdActive quietIO idle d a = (d, held)" "held = None \<or> held = Some NotExist"
      "(held \<noteq> None) = (inodeOf d a = None)" by (simp add: holdActive_quiet)
  have ok: "\<not> (inodeOf d a = None \<and> held \<noteq> Some NotExist)" using held by blast
  note F = assms [unfolded rebuildFrom_def held(1) prod.case if_not_P [OF ok] held(3) W Let_def]
  have werr: "werr = None" using F by (cases werr) simp_all
  obtain d1 v verr where R: "Read K quietIO Locked idle dw a = (d1, v, verr)" by (metis prod_cases3)
  with Read_idle [of K quietIO Locked dw a] have d1: "d1 = dw" by simp
  define kind where "kind = ssKind (the (sgSink (fsSeg (last (fcSegments chain)))))"
  define res1 where "res1 = res0\<lparr>rbSegments := length (fcSegments chain), rbUnderLocked := fcUnderLocked chain,
      rbMarkerOnly := fcMarkerOnly chain\<rparr>"
  have rec: "rebuildRecord K quietIO idle idle ck a kind e res1 dw = (d', res, None)"
    using F werr by (simp add: kind_def res1_def)
  define e1 where "e1 = e\<lparr>ceDetail := runesOf (rebuildDetail kind res1)\<rparr>"
  obtain d2 r2 where A: "Append K quietIO idle idle ck dw a e1 = (d2, r2)" by fastforce
  note rec' = rec [unfolded rebuildRecord_def R d1 prod.case, folded e1_def]
  have v: "verr = None" using rec' by (cases verr) simp_all
  have st: "vState v = StateOpen" using rec' unfolding v by (cases "vState v = StateOpen") simp_all
  obtain head where "r2 = Inr head" "d2 = d'" "res = res1\<lparr>rbHead := head\<rparr>"
    using rec' A st unfolding v by (cases r2) auto
  moreover have "\<exists>det. e1 = e\<lparr>ceDetail := det\<rparr>" unfolding e1_def by (rule exI) (rule refl)
  moreover have "rbHead (res1\<lparr>rbHead := head\<rparr>) = head" by simp
  ultimately show ?thesis using that [of dw res0 v head e1] W R A unfolding werr d1 v by (simp only: st)
qed

lemma Rebuild_success:
  assumes "Rebuild K ri quietIO idle idle ck crash d a logID r e = (d', res, None)" "fetchChain K logID r = Inr chain"
  shows "rebuildFrom K ri quietIO idle idle ck crash a logID e chain d = (d', res, None)" "checkRestoreEvent e = None"
proof -
  obtain d1 v verr where R: "Read K quietIO Locked idle d a = (d1, v, verr)" by (metis prod_cases3)
  with Read_idle [of K quietIO Locked d a] have d1: "d1 = d" by simp
  show c: "checkRestoreEvent e = None" using assms(1) by (auto simp: Rebuild_def split: option.splits)
  show "rebuildFrom K ri quietIO idle idle ck crash a logID e chain d = (d', res, None)"
    using assms R c d1 by (auto simp: Rebuild_def Let_def split: option.splits if_splits)
qed

lemma sweep_keeps:
  assumes "wfDir d" "ownActive a d"
  shows "wfDir (sweepTemps quietIO a d)" "ownActive a (sweepTemps quietIO a d)" "inodeOf (sweepTemps quietIO a d) a = inodeOf d a"
  using assms by (auto simp: sweepTemps_def ownActive_def)

text \<open>Two roots with the same leading files have the same leading segments.\<close>

lemma same_files_same_segments:
  "segmentsOK K ps k segs \<Longrightarrow> segmentsOK K ps k segs' \<Longrightarrow> length segs \<le> length segs' \<Longrightarrow>
   (\<And>i. i < length segs \<Longrightarrow> fileBytes (segs ! i) = fileBytes (segs' ! i)) \<Longrightarrow> \<exists>more. segs' = segs @ more"
proof (induction segs arbitrary: ps k segs')
  case (Cons seg segs)
  then obtain seg' rest where s': "segs' = seg' # rest" by (cases segs') auto
  have "seg = seg'"
    by (rule fileBytes_inj) (use Cons.prems(1,2) Cons.prems(4) [of 0] s' in \<open>auto simp: segmentOK_def validChain_def\<close>)
  moreover from this obtain r where "rest = segs @ r"
    using Cons.IH [of "ps @ seg" "k + 1" rest] Cons.prems(1-3) Cons.prems(4) [of "Suc _"] s' by auto
  ultimately show ?case using s' by simp
qed simp

lemma rebuilt_root:
  assumes K: "hashShaped K" and ok: "segmentsOK K [] 0 segs" "segs \<noteq> []" and dw: "wfDir dw" "ownActive a dw"
    and f: "\<forall>i < length segs. contents dw (SegmentPath a (i + 1)) = Some (fileBytes (segs ! i))"
    and R: "Read K quietIO Locked idle dw a = (dw, v, None)" "vState v = StateOpen" and room: "roomy K a dw"
  obtains logID more act ia where "setRep K a dw logID (segs @ more) act False StateOpen ia"
proof -
  have one: "firstSequenced K a dw"
    using f ok by (cases segs) (auto simp: firstSequenced_def segmentOK_def)
  have "length (vRecords v) < seqMax" "length (vSealed v) < ordinalMax"
    using room R(1) Read_mode [of K Locked dw a Unlocked] by (simp_all add: roomy_def recordsOf_def sealedCount_def)
  then obtain logID segs' act ia where S: "setRep K a dw logID segs' act False StateOpen ia"
    by (rule Read_accepts [OF K dw one R])
  then have h: "filesRep a dw segs'" "segmentsOK K [] 0 segs'" "siblingSet dw a (length segs')"
    by (auto simp: setRep_def historyRep_def activeRep_def)
  have "inodeOf dw (SegmentPath a (length segs)) \<noteq> None"
    using f ok(2) contents_inode by (cases "length segs") auto
  with siblingSet_names [OF h(3)] have le: "length segs \<le> length segs'" by auto
  have "fileBytes (segs ! i) = fileBytes (segs' ! i)" if "i < length segs" for i
    using f h(1) le that by (simp add: filesRep_def)
  with same_files_same_segments [OF ok(1) h(2) le] S that show ?thesis by auto
qed
lemma rebuilt_log:
  assumes K: "goodCodec K" and ck: "goodClock ck" and d: "wfDir d" "ownActive a d"
    and ok: "segmentsOK K [] 0 segs" "segs \<noteq> []" "length (concat segs) \<le> seqMax" "length segs < ordinalMax"
      "GenesisLogID (kLogIDOf K) (hd segs) = Some logID"
    and sink: "sdListPrefix r (sdPrefix r logID) = Inr kvs" "holdsCopies K r logID [] 0 segs kvs"
    and e: "ceSeal e = None"
    and rb: "Rebuild K ri quietIO idle idle ck crash d a logID r e = (d', res, None)"
    and room: "\<And>dw rw. rebuildWrite K ri quietIO ck crash a logID (fetchedOf K a [] 0 segs) (inodeOf d a = None) (sweepTemps quietIO a d)
        = (dw, rw, None) \<Longrightarrow> roomy K a dw"
  obtains rest l det where "rootHas K a d' logID (concat segs @ rest @ [l]) StateOpen (sealedCount K a d')"
    "decodesTo K ck (concat segs @ rest) (e\<lparr>ceDetail := det\<rparr>) l"
    "rbHead res = logicalHead K (concat segs @ rest @ [l])"
    "\<forall>i < length segs. contents d' (SegmentPath a (i + 1)) = Some (fileBytes (segs ! i))"
proof -
  have H: "hashShaped K" by (rule goodCodec_hash [OF K])
  obtain chain where chain: "fetchChain K logID r = Inr chain" "fcSegments chain = fetchedOf K a [] 0 segs"
    by (rule fetchChain_root [OF H ok(3,4,1,2) sink ok(5)])
  note S = Rebuild_success [OF rb chain(1)]
  obtain dw rw v head e' where W: "rebuildWrite K ri quietIO ck crash a logID (fetchedOf K a [] 0 segs) (inodeOf d a = None)
        (sweepTemps quietIO a d) = (dw, rw, None)"
    and R: "Read K quietIO Locked idle dw a = (dw, v, None)" "vState v = StateOpen" and hd: "rbHead res = head"
    and A: "Append K quietIO idle idle ck dw a e' = (d', Inr head)" and e': "\<exists>det. e' = e\<lparr>ceDetail := det\<rparr>"
    using rebuildFrom_success [OF S(1)] chain(2) by metis
  note sw = sweep_keeps [OF d]
  note w = rebuildWrite_done [OF W [folded sw(3)] sw(1,2)]
  have files: "\<forall>i < length segs. contents dw (SegmentPath a (i + 1)) = Some (fileBytes (segs ! i))"
    using w(3) by (simp add: fetchedOf_data)
  obtain logID' more act ia where rep: "setRep K a dw logID' (segs @ more) act False StateOpen ia"
    by (rule rebuilt_root [OF H ok(1,2) w(1,2) files R room [OF W]])
  have rec: "recordsOf K a dw = concat (segs @ more) @ act" and room': "length (concat (segs @ more) @ act) + 1 < seqMax"
    using Read_root [OF H rep, of Unlocked] room [OF W] by (simp_all add: recordsOf_def rootView_def roomy_def)
  have ret: "retains ck e'" "\<not> sealing e'"
    using e e' S(2) by (auto simp: retains_def sealing_def checkRestoreEvent_def split: if_splits)
  have id: "logID' = logID"
    using rep ok(1,2,5) by (cases segs; cases "hd segs") (auto simp: setRep_def identityRep_def segmentOK_def GenesisLogID_def)
  show ?thesis
  proof (rule Append_cases [OF K ck rep ret(1) room'])
    fix err
    assume "Append K quietIO idle idle ck dw a e' = (dw, Inl err)"
    with A show ?thesis by simp
  next
    fix err tail
    assume "Append K quietIO idle idle ck dw a e' = (writeNode ia (fileBytes act @ tail) dw, Inl err)"
    with A show ?thesis by simp
  next
    fix l i r'
    assume "nextLine K ck (concat (segs @ more)) act e' l"
      and A': "Append K quietIO idle idle ck dw a e' = (writeNode ia (fileBytes (act @ [l])) dw, r')"
        "r' = Inr (logicalHead K (concat (segs @ more) @ act @ [l])) \<or> ckWrite ck \<noteq> WriteOk \<and> (\<exists>err. r' = Inl err)"
      and rep': "setRep K a (writeNode ia (fileBytes (act @ [l])) dw) i (segs @ more) (act @ [l]) False
         (if sealing e' then StateSealedNotRotated else StateOpen) ia"
      and "concat (segs @ more) @ act \<noteq> [] \<longrightarrow> i = logID'"
    then have n: "decodesTo K ck (concat segs @ concat more @ act) e' l" and i: "i = logID"
      using id ok(1,2) segments_nonempty [of K "[]" 0 segs] by (auto simp: nextLine_def)
    have d': "d' = writeNode ia (fileBytes (act @ [l])) dw" "head = logicalHead K (concat segs @ (concat more @ act) @ [l])"
      using A A' by simp_all
    have S': "setRep K a d' logID (segs @ more) (act @ [l]) False StateOpen ia" using rep' ret(2) by (simp add: d' i)
    have "filesRep a d' (segs @ more)" using S' by (simp add: setRep_def historyRep_def)
    then have f': "\<forall>j < length segs. contents d' (SegmentPath a (j + 1)) = Some (fileBytes (segs ! j))"
      by (auto simp: filesRep_def nth_append)
    have "sealedCount K a d' = length (segs @ more)"
      using Read_root [OF H S', of Unlocked] by (simp add: sealedCount_def rootView_def)
    with rootHasI [OF S'] have "rootHas K a d' logID (concat segs @ (concat more @ act) @ [l]) StateOpen (sealedCount K a d')" by simp
    with that n e' hd d'(2) f' show ?thesis by blast
  qed
qed

section \<open>Properties\<close>

text \<open>
  What a restore accepts of the sink is what the reader accepts of the disk. Put the fetched bytes
  under the segment's name: \<open>verifyFetchedSegment\<close> accepts them, with a seal whose time is set, exactly
  when \<open>verifySealed\<close> accepts the file at that position of the chain against the manifest entry made of
  the segment, the seal names this key in the sink, and segment 1 carries the ledger's identity; the
  records and every figure of the segment are the same.
\<close>

theorem fetched_copy_is_a_sealed_segment:
  assumes "contents d (SegmentPath a k) = Some data"
  shows "verifyFetchedSegment K data k s logID key = Inr (sg, recs) \<and> sgSealedAt sg \<noteq> 0 \<longleftrightarrow>
    verifySealed K quietIO d a k s (manifestEntry a sg) = (recs, Inr (sg\<lparr>sgPath := SegmentPath a k\<rparr>))
    \<and> sgPath sg = '''' \<and> (\<exists>b. sgSink sg = Some b \<and> ssKey b = key)
    \<and> (k = 1 \<longrightarrow> GenesisLogID (kLogIDOf K) recs = Some logID)"
  by (rule fetched_copy_iff [OF assms])

text \<open>
  C18: a rebuild gives back the protected log. The sink holds the oldest copy of every sealed segment of
  a ledger, under the key its seal names; whatever has happened to the segment files and the manifest
  on disk, when \<open>Rebuild\<close> reports success the ledger reads clean and open, its records start with
  exactly the records of the protected segments and end with the one record of the rebuild, whose head
  is returned, and every sealed file holds its original bytes.
\<close>

theorem rebuild_restores_the_protected_log:
  assumes "goodCodec K" "goodClock ck" "wfDir d" "ownActive a d"
    and "segmentsOK K [] 0 segs" "segs \<noteq> []" "length (concat segs) \<le> seqMax" "length segs < ordinalMax"
      "GenesisLogID (kLogIDOf K) (hd segs) = Some logID"
    and "sdListPrefix r (sdPrefix r logID) = Inr kvs" "holdsCopies K r logID [] 0 segs kvs"
    and "ceSeal e = None" "Rebuild K ri quietIO idle idle ck crash d a logID r e = (d', res, None)"
    and "rebuildWrite K ri quietIO ck crash a logID (fetchedOf K a [] 0 segs) (inodeOf d a = None) (sweepTemps quietIO a d) = (dw, rw, None)"
      "roomy K a dw"
  shows "\<exists>rest l det. recordsOf K a d' = concat segs @ rest @ [l] \<and> stateOf K a d' = StateOpen
    \<and> snd (snd (Read K quietIO Locked idle d' a)) = None
    \<and> decodesTo K ck (concat segs @ rest) (e\<lparr>ceDetail := det\<rparr>) l
    \<and> rbHead res = logicalHead K (recordsOf K a d')
    \<and> (\<forall>i < length segs. contents d' (SegmentPath a (i + 1)) = Some (fileBytes (segs ! i)))"
proof -
  have H: "hashShaped K" by (rule goodCodec_hash [OF assms(1)])
  obtain rest l det where R: "rootHas K a d' logID (concat segs @ rest @ [l]) StateOpen (sealedCount K a d')"
    "decodesTo K ck (concat segs @ rest) (e\<lparr>ceDetail := det\<rparr>) l" "rbHead res = logicalHead K (concat segs @ rest @ [l])"
    "\<forall>i < length segs. contents d' (SegmentPath a (i + 1)) = Some (fileBytes (segs ! i))"
    by (rule rebuilt_log [OF assms(1-13)]) (use assms(14,15) in auto)
  obtain v where "Read K quietIO Locked idle d' a = (d', v, None)" by (rule rootHas_read [OF H R(1)])
  with R rootHas_facts [OF H R(1)] show ?thesis by auto
qed

text \<open>
  C19: a rebuild destroys nothing. Whatever the sink returned, and whichever of its reads, renames and
  writes fails, every byte string that some file of the directory held before the writes of \<open>Rebuild\<close>
  is held after them, under the same name or under one of the names the result reports as replaced.
\<close>

theorem rebuild_destroys_nothing:
  assumes "wfDir d" "created \<longrightarrow> inodeOf d a = None" "rebuildWrite K ri io ck crash a logID fs created d = (d', res, err)"
    and "contents d n = Some b"
  shows "contents d' n = Some b \<or> (\<exists>m \<in> set (rbReplacedNames res). contents d' m = Some b)"
  using rebuildWrite_keeps [OF assms(3,1)] assms(2,4) unfolding keepsBytes_def by blast

section \<open>A concrete loss\<close>

text \<open>
  A root whose one sealed segment, \<^verbatim>\<open>A\<close> and its seal \<^verbatim>\<open>B\<close>, is also in a sink; on disk the segment file has
  been overwritten and the manifest is gone. The rebuild appends the record \<^verbatim>\<open>R\<close>.
\<close>

definition vaultBlock :: SealSink where
  "vaultBlock = \<lparr>ssKind = ''s3'', ssURL = ''u'', ssKey = ''p/seg-000001'', ssMode = ''COMPLIANCE'', ssRetainUntil = 9\<rparr>"

definition vaultSeal :: controlRecord where
  "vaultSeal = recordOf demoClock
     \<lparr>cFile = [], cMode = Locked, cBase = 0, cPrev = demoSum ''A'', cCount = 1, cSeqEstablished = True, cSeqMode = True\<rparr>
     (demoControlEvent ''seal'' (Some (demoSealPayload\<lparr>slSink := Some vaultBlock\<rparr>))) ''''"

definition vaultRestore :: controlRecord where
  "vaultRestore = recordOf demoClock
     \<lparr>cFile = [], cMode = Locked, cBase = 2, cPrev = demoSum ''B'', cCount = 0, cSeqEstablished = True, cSeqMode = True\<rparr>
     (demoControlEvent ''restore'' None) ''''"

definition restoresVault :: "controlRecord \<Rightarrow> bool" where
  "restoresVault r \<longleftrightarrow> crAction r = ''restore'' \<and> crOutcome r = ''success'' \<and> crSeq r = 3 \<and> crPrev r = demoSum ''B''
     \<and> crTime r = 5 \<and> crSeal r = None \<and> crLogID r = ''''"

definition vaultCodec :: codec where
  "vaultCodec = demoCodec\<lparr>
     kUnm := (\<lambda>l. if l = ''A'' then Some \<lparr>lfPrev = Some '''', lfSeq = Some 1\<rparr>
                  else if l = ''B'' then Some \<lparr>lfPrev = Some (demoSum ''A''), lfSeq = Some 2\<rparr>
                  else if l = ''R'' then Some \<lparr>lfPrev = Some (demoSum ''B''), lfSeq = Some 3\<rparr> else None),
     kMarshal := (\<lambda>r. if r = demoGenesis then Some ''A'' else if r = vaultSeal then Some ''B''
                      else if restoresVault r then Some ''R'' else None),
     kDec := (\<lambda>l. if l = ''A'' then Some demoGenesis else if l = ''B'' then Some vaultSeal
                  else if l = ''R'' then Some vaultRestore else None)\<rparr>"

definition vaultReader :: SinkReader where
  "vaultReader =
     (let kv = \<lparr>kvKey = ''p/seg-000001'', kvVersions = [\<lparr>svID = ''1'', svIsLatest = True, svSize = 4, svLastModified = 0\<rparr>],
                kvDeleteMarker = False\<rparr>
      in \<lparr>sdPrefix = (\<lambda>_. ''p/''), sdListVersions = (\<lambda>_. Inr kv), sdListPrefix = (\<lambda>_. Inr [kv]),
          sdGetRetention = (\<lambda>_ _. Inr \<lparr>rnMode = ''COMPLIANCE'', rnRetainUntil = 9\<rparr>),
          sdGet = (\<lambda>_ _ _. Inr (fileBytes [''A'', ''B'']))\<rparr>)"

definition vaultIO :: restoreIO where
  "vaultIO = \<lparr>riUnix = (\<lambda>_. 7), riStatFails = (\<lambda>_. False), riPeekFails = False, riCreateFails = (\<lambda>_. False),
     riRenameFails = (\<lambda>_. False), riWriteFails = (\<lambda>_. False), riPrev = (\<lambda>_. None)\<rparr>"

definition vaultDir :: directory where
  "vaultDir = freshFile ''c.seg-000001'' ''x'' (freshFile ''c'' [] demoD0)"

lemma vault_records:
  "crPrev vaultSeal = demoSum ''A''" "crLogID vaultSeal = ''''" "crSeq vaultSeal = 2"
  "crPrev vaultRestore = demoSum ''B''" "crLogID vaultRestore = ''''" "crSeq vaultRestore = 3"
  by code_simp+

lemma restoresVault_core: "restoresVault r \<Longrightarrow> sameCore r vaultRestore" "restoresVault vaultRestore"
proof -
  show v: "restoresVault vaultRestore" by code_simp
  then show "sameCore r vaultRestore" if "restoresVault r" using that by (simp add: restoresVault_def sameCore_def)
qed

lemma sameCore_refl: "sameCore r r"
  by (simp add: sameCore_def)

lemma goodCodec_vault: "goodCodec vaultCodec"
proof -
  have "hashShaped vaultCodec" by (simp add: hashShaped_def vaultCodec_def demoCodec_def demoSum_shape)
  moreover have "kUnm vaultCodec l = None" if "nul \<in> set l" for l
    using that by (auto simp: vaultCodec_def)
  moreover have "marshalLaw vaultCodec"
    unfolding marshalLaw_def
  proof (intro allI impI)
    fix r l
    assume "kMarshal vaultCodec r = Some l"
    then have "r = demoGenesis \<and> l = ''A'' \<or> r = vaultSeal \<and> l = ''B'' \<or> restoresVault r \<and> l = ''R''"
      by (auto simp: vaultCodec_def split: if_splits)
    then show "lineSafe l \<and> kLogIDOf vaultCodec l = Some (crLogID r)
        \<and> kUnm vaultCodec l = Some \<lparr>lfPrev = Some (crPrev r), lfSeq = Some (word_of_int (crSeq r))\<rparr>
        \<and> (\<exists>r'. kDec vaultCodec l = Some r' \<and> sameCore r r')"
      by (auto simp: vaultCodec_def demoCodec_def demoRecords_core vault_records lineSafe_def sameCore_refl restoresVault_core restoresVault_def)
  qed
  moreover have "manifestLaw vaultCodec"
    by (auto simp: manifestLaw_def vaultCodec_def demoCodec_def sameFigures_def list_all2_refl split: if_splits)
  ultimately show ?thesis by (simp add: goodCodec_def)
qed

definition vaultSegments :: "bytes list list" where
  "vaultSegments = [[''A'', ''B'']]"

definition vaultWritten :: "directory \<times> RebuildResult \<times> restore_error option" where
  "vaultWritten = rebuildWrite vaultCodec vaultIO quietIO demoClock '''' ''c'' demoLogID (fetchedOf vaultCodec ''c'' [] 0 vaultSegments)
     (inodeOf vaultDir ''c'' = None) (sweepTemps quietIO ''c'' vaultDir)"

lemma vault_segments:
  "segmentsOK vaultCodec [] 0 vaultSegments" "GenesisLogID (kLogIDOf vaultCodec) (hd vaultSegments) = Some demoLogID"
  by code_simp+

lemma vault_sink:
  "sdListPrefix vaultReader (sdPrefix vaultReader demoLogID) = Inr [\<lparr>kvKey = ''p/seg-000001'',
     kvVersions = [\<lparr>svID = ''1'', svIsLatest = True, svSize = 4, svLastModified = 0\<rparr>], kvDeleteMarker = False\<rparr>]"
  by code_simp

lemma vault_copies:
  "holdsCopies vaultCodec vaultReader demoLogID [] 0 vaultSegments [\<lparr>kvKey = ''p/seg-000001'',
     kvVersions = [\<lparr>svID = ''1'', svIsLatest = True, svSize = 4, svLastModified = 0\<rparr>], kvDeleteMarker = False\<rparr>]"
proof -
  have "sgSink (segView vaultCodec '''' 1 [] [''A'', ''B'']) = Some vaultBlock" "sinkKey vaultReader demoLogID 1 = ''p/seg-000001''"
    by code_simp+
  then show ?thesis
    by (simp add: vaultSegments_def holdsCopy_def vaultReader_def vaultBlock_def Let_def)
qed

lemma vault_written:
  "snd (snd vaultWritten) = None" "recordsOf vaultCodec ''c'' (fst vaultWritten) = [''A'', ''B'']"
  "sealedCount vaultCodec ''c'' (fst vaultWritten) = 1" "stateOf vaultCodec ''c'' (fst vaultWritten) = StateOpen"
  "snd (snd (Read vaultCodec quietIO Locked idle (fst vaultWritten) ''c'')) = None"
  by code_simp+

lemma vault_verdict:
  "rebuildVerdict vaultCodec vaultIO quietIO vaultDir ''c'' (fst (snd (Read vaultCodec quietIO Locked idle vaultDir ''c'')))
     (snd (snd (Read vaultCodec quietIO Locked idle vaultDir ''c''))) = None"
proof -
  have "case snd (snd (Read vaultCodec quietIO Locked idle vaultDir ''c'')) of Some (SetFault _) \<Rightarrow> True | _ \<Rightarrow> False" by code_simp
  then obtain f where e: "snd (snd (Read vaultCodec quietIO Locked idle vaultDir ''c'')) = Some (SetFault f)"
    by (auto split: option.splits control_error.splits)
  have "loadManifest vaultCodec quietIO vaultDir ''c'' = Inr None" by code_simp
  moreover have "incompleteRotation vaultCodec vaultIO vaultDir ''c'' 0 = Inr False"
    by (simp add: incompleteRotation_def vaultDir_def demoD0_def vaultIO_def lastLine_def)
  ultimately show ?thesis unfolding e rebuildVerdict_def by simp
qed

lemma vault_identity:
  "rootLogID vaultCodec quietIO vaultDir ''c'' (fst (snd (Read vaultCodec quietIO Locked idle vaultDir ''c''))) = unknownID"
  by code_simp

lemma vault_chain:
  "fetchChain vaultCodec demoLogID vaultReader
   = Inr \<lparr>fcSegments = fetchedOf vaultCodec ''c'' [] 0 vaultSegments, fcUnderLocked = [], fcMarkerOnly = []\<rparr>"
  by code_simp

lemma vault_permit: "appendPermit (kURL vaultCodec) ((demoControlEvent ''restore'' None)\<lparr>ceDetail := x # xs\<rparr>) = None"
  by code_simp

lemma vault_dir: "wfDir vaultDir" "ownActive ''c'' vaultDir" "inodeOf vaultDir ''c'' \<noteq> None"
  by (auto simp: vaultDir_def demoD0_def wfDir_def freshFile_def ownActive_def inodeOf_def linkName_def)

lemma vault_roomy: "roomy vaultCodec ''c'' (fst vaultWritten)"
  by (simp add: roomy_def vault_written seqMax_def ordinalMax_def)

lemma runesOf_nonempty: "s \<noteq> [] \<Longrightarrow> runesOf s \<noteq> []"
  by (cases s) (auto simp: runesOf_def split: prod.splits)

text \<open>A plain event is recorded by a root that has records, when its line can be marshalled.\<close>

lemma Append_accepts:
  assumes K: "goodCodec K" and ck: "goodClock ck" "ckWrite ck = WriteOk" and R: "setRep K a d logID segs act link StateOpen ia"
    and len: "length (concat segs @ act) + 1 < seqMax" and ne: "concat segs @ act \<noteq> []"
    and e: "appendPermit (kURL K) e = None" "ceAnchor e = None" "ceAction e \<noteq> ''seal''"
    and m: "kMarshal K (recordOf ck (handleAt K (concat segs) act) e '''') = Some l"
  obtains d' head where "Append K quietIO idle idle ck d a e = (d', Inr head)"
proof -
  have H: "hashShaped K" by (rule goodCodec_hash [OF K])
  have ch: "chainAt K (concat segs) act" by (rule root_chainD [OF R]) simp
  have l1: "length (concat segs @ act) < seqMax" using len by simp
  have g: "\<not> (cBase (handleAt K (concat segs) act) = 0 \<and> cCount (handleAt K (concat segs) act) = 0)"
    using handleAt_genesis [OF l1, of K] ne by simp
  have p: "checkSealPlacement K (handleAt K (concat segs) act) v e = None" for v using e(3) by (simp add: checkSealPlacement_def)
  have c: "checkAnchorCoverage (ceAnchor e) n = None" for n using e(2) by (simp add: checkAnchorCoverage_def)
  have "Chain_Append (kUnm K) (kHash K) (ckWrite ck) (handleAt K (concat segs) act) l = appended K (ckWrite ck) (concat segs) act l"
    by (rule appendOn_line [OF K ck(1) l1 ch appendPermit_seal(1) [OF e(1)] _ _ m]) (use ne in auto)
  then have "Chain_Append (kUnm K) (kHash K) (ckWrite ck) (handleAt K (concat segs) act) l = (handleAt K (concat segs) (act @ [l]), None)"
    by (simp add: ck(2) appended_def)
  then have "\<exists>c' x. appendOn K ck (handleAt K (concat segs) act) v e = (c', Inr x)" for v
    using g m by (auto simp: appendOn_def Let_def p c)
  then obtain c' x where "appendOn K ck (handleAt K (concat segs) act) (rootView K a logID segs act StateOpen) e = (c', Inr x)" by blast
  then show ?thesis using that e(1) openActive_root [OF H R] by (cases x) (simp add: Append_def)
qed

lemma vault_root:
  obtains ia where "setRep vaultCodec ''c'' (fst vaultWritten) demoLogID vaultSegments [] False StateOpen ia"
proof -
  have H: "hashShaped vaultCodec" by (rule goodCodec_hash [OF goodCodec_vault])
  note sw = sweep_keeps [OF vault_dir(1,2)]
  obtain dw rw where W: "vaultWritten = (dw, rw, None)" using vault_written(1) by (metis prod.collapse)
  note w = rebuildWrite_done [OF W [unfolded vaultWritten_def, folded sw(3)] sw(1,2)]
  obtain d1 v err where R1: "Read vaultCodec quietIO Locked idle dw ''c'' = (d1, v, err)" by (metis prod_cases3)
  have R: "Read vaultCodec quietIO Locked idle dw ''c'' = (dw, v, None)" "vState v = StateOpen"
    using vault_written(4,5) [unfolded W fst_conv] Read_idle [of vaultCodec quietIO Locked dw "''c''"]
      Read_mode [of vaultCodec Unlocked dw "''c''" Locked] R1 by (simp_all add: stateOf_def)
  obtain logID more act ia where S: "setRep vaultCodec ''c'' dw logID (vaultSegments @ more) act False StateOpen ia"
    by (rule rebuilt_root [OF H vault_segments(1) _ w(1,2) _ R])
      (use w(3) vault_roomy [unfolded W fst_conv] in \<open>auto simp: vaultSegments_def fetchedOf_data\<close>)
  have "length (vaultSegments @ more) = 1" "concat (vaultSegments @ more) @ act = concat vaultSegments"
    using Read_root [OF H S, of Unlocked] vault_written(2,3) [unfolded W fst_conv] by (simp_all add: recordsOf_def sealedCount_def rootView_def vaultSegments_def)
  then have "more = []" "act = []" by (simp_all add: vaultSegments_def)
  moreover from this S vault_segments(2) have "logID = demoLogID"
    by (auto simp: setRep_def identityRep_def vaultSegments_def GenesisLogID_def split: option.splits if_splits)
  ultimately show ?thesis using that [of ia] S unfolding W fst_conv by simp
qed

lemma vault_marshal: "restoresVault r \<Longrightarrow> kMarshal vaultCodec r = Some ''R''"
  using demoRecords_core vault_records by (auto simp: vaultCodec_def restoresVault_def)

lemma vault_rebuilds:
  obtains d' res where "Rebuild vaultCodec vaultIO quietIO idle idle demoClock '''' vaultDir ''c'' demoLogID vaultReader
      (demoControlEvent ''restore'' None) = (d', res, None)"
proof -
  obtain ia where S: "setRep vaultCodec ''c'' (fst vaultWritten) demoLogID vaultSegments [] False StateOpen ia" by (rule vault_root)
  let ?e = "demoControlEvent ''restore'' None" and ?dw = "fst vaultWritten"
  have app: "\<exists>d' head. Append vaultCodec quietIO idle idle demoClock ?dw ''c'' (?e\<lparr>ceDetail := runesOf s\<rparr>) = (d', Inr head)"
    if ne: "s \<noteq> []" for s
  proof -
    obtain x xs where s: "runesOf s = x # xs" using runesOf_nonempty [OF ne] by (cases "runesOf s") auto
    have len: "length (concat vaultSegments @ []) < seqMax" by (simp add: vaultSegments_def seqMax_def)
    have "restoresVault (recordOf demoClock (handleAt vaultCodec (concat vaultSegments) []) (?e\<lparr>ceDetail := runesOf s\<rparr>) '''')"
      unfolding restoresVault_def recordOf_simps recordOf_core [OF len]
      by (simp add: demoControlEvent_def demoClock_def vaultSegments_def vaultCodec_def demoCodec_def)
    note m = vault_marshal [OF this]
    have l: "length (concat vaultSegments @ []) + 1 < seqMax" "concat vaultSegments @ [] \<noteq> []"
      by (simp_all add: vaultSegments_def seqMax_def)
    have p: "appendPermit (kURL vaultCodec) (?e\<lparr>ceDetail := runesOf s\<rparr>) = None" unfolding s by (rule vault_permit)
    have c: "ceAnchor (?e\<lparr>ceDetail := runesOf s\<rparr>) = None" "ceAction (?e\<lparr>ceDetail := runesOf s\<rparr>) \<noteq> ''seal''"
      by (simp_all add: demoControlEvent_def)
    obtain d' head where "Append vaultCodec quietIO idle idle demoClock ?dw ''c'' (?e\<lparr>ceDetail := runesOf s\<rparr>) = (d', Inr head)"
      by (rule Append_accepts [OF goodCodec_vault goodClock_demo _ S l p c m]) (simp add: demoClock_def)
    then show ?thesis by blast
  qed
  obtain v where R: "Read vaultCodec quietIO Locked idle ?dw ''c'' = (?dw, v, None)" "vState v = StateOpen"
    using Read_root [OF goodCodec_hash [OF goodCodec_vault] S] by (simp add: rootView_def)
  define fs where "fs = fetchedOf vaultCodec ''c'' [] 0 vaultSegments"
  have W: "rebuildWrite vaultCodec vaultIO quietIO demoClock '''' ''c'' demoLogID fs False (sweepTemps quietIO ''c'' vaultDir)
      = (?dw, fst (snd vaultWritten), None)"
  proof -
    have "vaultWritten = (?dw, fst (snd vaultWritten), None)" using vault_written(1) by (metis prod.collapse)
    moreover have "(inodeOf vaultDir ''c'' = None) = False" using vault_dir(3) by simp
    ultimately show ?thesis unfolding fs_def by (simp only: vaultWritten_def)
  qed
  have I: "inodeOf vaultDir ''c'' \<noteq> None" by (rule vault_dir)
  obtain v0 e0 where R0: "Read vaultCodec quietIO Locked idle vaultDir ''c'' = (vaultDir, v0, e0)"
    using Read_idle [of vaultCodec quietIO Locked vaultDir "''c''"] by (metis prod.collapse)
  have C: "checkRestoreEvent ?e = None" by (simp add: checkRestoreEvent_def demoControlEvent_def)
  have V: "rebuildVerdict vaultCodec vaultIO quietIO vaultDir ''c'' v0 e0 = None" "rootLogID vaultCodec quietIO vaultDir ''c'' v0 = unknownID"
    using vault_verdict vault_identity R0 by simp_all
  have D: "rebuildDetail kind res \<noteq> []" for kind res unfolding rebuildDetail_def by simp
  have rec: "\<exists>d' res. rebuildRecord vaultCodec quietIO idle idle demoClock ''c'' kind ?e res1 ?dw = (d', res, None)" for kind res1
    using app [OF D, of kind res1] unfolding rebuildRecord_def R(1) prod.case option.case by (elim exE) (simp only: R(2) sum.case prod.case, simp)
  have "\<exists>d' res. rebuildFrom vaultCodec vaultIO quietIO idle idle demoClock '''' ''c'' demoLogID ?e
      \<lparr>fcSegments = fs, fcUnderLocked = [], fcMarkerOnly = []\<rparr> vaultDir = (d', res, None)"
    using W rec unfolding rebuildFrom_def holdActive_quiet if_not_P [OF I] by (simp add: Let_def)
  then obtain d' res where "rebuildFrom vaultCodec vaultIO quietIO idle idle demoClock '''' ''c'' demoLogID ?e
      \<lparr>fcSegments = fs, fcUnderLocked = [], fcMarkerOnly = []\<rparr> vaultDir = (d', res, None)" by blast
  then show ?thesis
    using that unfolding Rebuild_def C R0 prod.case option.case V Let_def vault_chain sum.case fs_def by simp
qed

theorem rebuild_restores_the_protected_log_witness:
  "\<exists>d' res rest l. Rebuild vaultCodec vaultIO quietIO idle idle demoClock '''' vaultDir ''c'' demoLogID vaultReader
       (demoControlEvent ''restore'' None) = (d', res, None)
     \<and> contents vaultDir (SegmentPath ''c'' 1) = Some ''x'' \<and> contents vaultDir (ManifestPath ''c'') = None
     \<and> recordsOf vaultCodec ''c'' d' = [''A'', ''B''] @ rest @ [l]
     \<and> contents d' (SegmentPath ''c'' 1) = Some (fileBytes [''A'', ''B''])"
proof -
  obtain d' res where rb: "Rebuild vaultCodec vaultIO quietIO idle idle demoClock '''' vaultDir ''c'' demoLogID vaultReader
      (demoControlEvent ''restore'' None) = (d', res, None)" by (rule vault_rebuilds)
  have W: "vaultWritten = (fst vaultWritten, fst (snd vaultWritten), None)" using vault_written(1) by (metis prod.collapse)
  have s: "vaultSegments \<noteq> []" "length (concat vaultSegments) \<le> seqMax" "length vaultSegments < ordinalMax"
    by (simp_all add: vaultSegments_def seqMax_def ordinalMax_def)
  have e: "ceSeal (demoControlEvent ''restore'' None) = None" by (simp add: demoControlEvent_def)
  from rebuild_restores_the_protected_log [OF goodCodec_vault goodClock_demo vault_dir(1,2) vault_segments(1) s vault_segments(2)
      vault_sink vault_copies e rb W [unfolded vaultWritten_def] vault_roomy [unfolded vaultWritten_def]]
  obtain rest l where R: "recordsOf vaultCodec ''c'' d' = concat vaultSegments @ rest @ [l]"
    "\<forall>i < length vaultSegments. contents d' (SegmentPath ''c'' (i + 1)) = Some (fileBytes (vaultSegments ! i))" by blast
  have "contents vaultDir (SegmentPath ''c'' 1) = Some ''x''" "contents vaultDir (ManifestPath ''c'') = None" by code_simp+
  then show ?thesis using rb R by (auto simp: vaultSegments_def)
qed

theorem rebuild_destroys_nothing_witness:
  "\<exists>m \<in> set (rbReplacedNames (fst (snd vaultWritten))). contents (fst vaultWritten) m = Some ''x''"
proof -
  have W: "rebuildWrite vaultCodec vaultIO quietIO demoClock '''' ''c'' demoLogID (fetchedOf vaultCodec ''c'' [] 0 vaultSegments)
      (inodeOf vaultDir ''c'' = None) (sweepTemps quietIO ''c'' vaultDir)
    = (fst vaultWritten, fst (snd vaultWritten), snd (snd vaultWritten))" by (simp add: vaultWritten_def)
  note sw = sweep_keeps [OF vault_dir(1,2)]
  have "contents (sweepTemps quietIO ''c'' vaultDir) (SegmentPath ''c'' 1) = Some ''x''"
    "contents (fst vaultWritten) (SegmentPath ''c'' 1) \<noteq> Some ''x''" by code_simp+
  with rebuild_destroys_nothing [OF sw(1) _ W, of "SegmentPath ''c'' 1" "''x''"] sw(3) show ?thesis by auto
qed

theorem fetched_copy_is_a_sealed_segment_witness:
  "\<exists>sg. verifyFetchedSegment vaultCodec (fileBytes [''A'', ''B'']) 1 zeroStart demoLogID ''p/seg-000001'' = Inr (sg, [''A'', ''B''])
     \<and> verifySealed vaultCodec quietIO (fst vaultWritten) ''c'' 1 zeroStart (manifestEntry ''c'' sg)
       = ([''A'', ''B''], Inr (sg\<lparr>sgPath := SegmentPath ''c'' 1\<rparr>))"
proof -
  let ?sg = "(segView vaultCodec '''' 1 [] [''A'', ''B''])\<lparr>sgPath := ''''\<rparr>"
  have "contents (fst vaultWritten) (SegmentPath ''c'' 1) = Some (fileBytes [''A'', ''B''])" by code_simp
  from fetched_copy_is_a_sealed_segment [OF this, of vaultCodec zeroStart demoLogID "''p/seg-000001''" ?sg "[''A'', ''B'']"]
  have "verifyFetchedSegment vaultCodec (fileBytes [''A'', ''B'']) 1 zeroStart demoLogID ''p/seg-000001'' = Inr (?sg, [''A'', ''B'']) \<Longrightarrow>
    sgSealedAt ?sg \<noteq> 0 \<Longrightarrow> verifySealed vaultCodec quietIO (fst vaultWritten) ''c'' 1 zeroStart (manifestEntry ''c'' ?sg)
       = ([''A'', ''B''], Inr (?sg\<lparr>sgPath := SegmentPath ''c'' 1\<rparr>))" by blast
  moreover have "verifyFetchedSegment vaultCodec (fileBytes [''A'', ''B'']) 1 zeroStart demoLogID ''p/seg-000001'' = Inr (?sg, [''A'', ''B''])"
    "sgSealedAt ?sg \<noteq> 0" by code_simp+
  ultimately show ?thesis by blast
qed

end
