(* ===== verification/Control_Mend.thy ===== *)
theory Control_Mend
  imports Control_Rebuild
begin

text \<open>
  Restoring single segments (\<open>Restore\<close>, \<open>restoreSegment\<close> of \<^verbatim>\<open>internal/control/restore.go\<close>): only bytes that
  verify at their position and that what follows continues are put back, what stood there is kept under a
  reported name, and the loop over the set ends.
\<close>

section \<open>One segment\<close>

lemma selectVersion_Inr:
  "selectVersion K r key k s logID bound nextPrev i chained vers = Inr (j, key', ver, data, sg) \<Longrightarrow>
   key' = key \<and> (\<exists>recs. verifyFetchedSegment K data k s logID key = Inr (sg, recs)) \<and> (nextPrev = '''' \<or> sgHeadHash sg = nextPrev)
   \<and> ver \<in> set vers \<and> (\<exists>lim. sdGet r key (svID ver) lim = Inr data)"
  by (induction vers arbitrary: i chained) (auto split: sum.splits prod.splits if_splits)

definition segmentKey :: "SinkReader \<Rightarrow> View \<Rightarrow> nat \<Rightarrow> bytes" where
  "segmentKey r v k = sdPrefix r (vLogID v) @ ''seg-'' @ pad6 k"

lemma selectCopy_Inr:
  assumes "selectCopy K ri d a v m k verr r = Inr (out, data)"
  obtains sg recs ver lim where "verifyFetchedSegment K data k (prefixStart v k) (vLogID v) (segmentKey r v k) = Inr (sg, recs)"
    "firstPrev ri d (nextName a m k) = '''' \<or> sgHeadHash sg = firstPrev ri d (nextName a m k)"
    "rgSHA256 out = sgSHA256 sg" "rgN out = k" "sdGet r (segmentKey r v k) (rgVersionID out) lim = Inr data"
proof -
  from assms obtain kv j key ver sg where V: "sdListVersions r (segmentKey r v k) = Inr kv"
    and S: "\<exists>bound. selectVersion K r (segmentKey r v k) k (prefixStart v k) (vLogID v) bound (firstPrev ri d (nextName a m k)) 0 0
         (kvVersions kv) = Inr (j, key, ver, data, sg)"
    and o: "rgSHA256 out = sgSHA256 sg" "rgN out = k" "rgVersionID out = svID ver"
    unfolding selectCopy_def segmentKey_def [symmetric] Let_def by (fastforce split: sum.splits prod.splits)
  from S obtain recs lim where "verifyFetchedSegment K data k (prefixStart v k) (vLogID v) (segmentKey r v k) = Inr (sg, recs)"
    "firstPrev ri d (nextName a m k) = '''' \<or> sgHeadHash sg = firstPrev ri d (nextName a m k)"
    "sdGet r (segmentKey r v k) (svID ver) lim = Inr data" using selectVersion_Inr by metis
  with that o show ?thesis by metis
qed

lemma sweep_other: "\<not> tempName a n \<Longrightarrow> contents (sweepTemps io a d) n = contents d n"
  by (simp add: sweepTemps_def contents_simps)

lemma sweep_wfDir: "wfDir d \<Longrightarrow> wfDir (sweepTemps io a d)"
  by (auto simp: sweepTemps_def)

lemma putBack_tends:
  assumes "putBack ri io a k data d = (d', res)" "wfDir d"
  obtains moved where "tends a {SegmentPath a k} moved (sweepTemps io a d) d'"
    "\<And>name. res = Inr name \<Longrightarrow> moved \<subseteq> {name} \<and> contents d' (SegmentPath a k) = Some data"
proof -
  let ?path = "SegmentPath a k" and ?d = "sweepTemps io a d"
  note concl = that
  have wf: "wfDir ?d" by (rule sweep_wfDir [OF assms(2)])
  have t0: "tends a {?path} {} ?d ?d" by (rule tends_refl [OF wf])
  have wrote: ?thesis
    if t: "tends a {?path} M ?d d2" "inodeOf d2 ?path = None" "M \<subseteq> {name}"
      and P: "(d', res) = (case writeRestored ri ?path data d2 of (d, Some e) \<Rightarrow> (d, Inl (NotWritten k e)) | (d, None) \<Rightarrow> (d, Inr name))"
    for M d2 name
  proof (cases "riWriteFails ri ?path")
    case True
    with P t concl [of M] show ?thesis by (simp add: writeRestored_def Replace_def)
  next
    case False
    with P have d': "d' = freshFile ?path data d2" "res = Inr name" by (simp_all add: writeRestored_def Replace_def)
    have "tends a ({?path} \<union> {?path}) (M \<union> {}) ?d d'"
      unfolding d' by (rule tends_trans [OF t(1) tends_fresh [OF tends_wfDir [OF t(1)] t(2)]]) simp
    then show ?thesis using concl [of M] d' t(3) by (simp add: contents_freshFile [OF tends_wfDir [OF t(1)]])
  qed
  show ?thesis
  proof (cases "inodeOf ?d ?path")
    case None
    with assms(1) show ?thesis by (intro wrote [OF t0 None, of "''''"]) (simp_all add: putBack_def Let_def)
  next
    case (Some i)
    then have ne: "inodeOf ?d ?path \<noteq> None" by simp
    show ?thesis
    proof (cases "riStatFails ri ?path")
      case True
      with assms(1) Some have "d' = ?d" "\<exists>e. res = Inl e" by (auto simp: putBack_def Let_def)
      with t0 that [of "{}"] show ?thesis by auto
    next
      case False
      obtain d2 r2 where A: "moveAsideReplaced ri ?path (pad6 k) ?d = (d2, r2)" by fastforce
      note t = moveAside_tends [OF wf ne _ replacedName_segment A]
      show ?thesis
      proof (cases r2)
        case (Inl e)
        with A assms(1) Some False have "d' = d2" "\<exists>e. res = Inl e" by (auto simp: putBack_def Let_def)
        with t Inl that [of "{}"] show ?thesis by auto
      next
        case (Inr name)
        with t have t2: "tends a {?path} {name} ?d d2" "inodeOf d2 ?path = None" by auto
        show ?thesis
          by (rule wrote [OF t2, of name]) (use A Inr assms(1) Some False in \<open>simp_all add: putBack_def Let_def\<close>)
      qed
    qed
  qed
qed

lemma holdActive_dir: "holdActive io race d a = (d1, held) \<Longrightarrow> d1 = d \<or> d1 = race 0 d"
  by (auto simp: holdActive_def Let_def split: option.splits if_splits)

lemma holdActive_held: "holdActive io race d a = (d1, None) \<Longrightarrow> d1 = race 0 d"
  by (auto simp: holdActive_def Let_def split: option.splits if_splits)

lemma restoreSegment_Inr:
  assumes "restoreSegment K ri io race a v m k verr r d = (d', Inr out)" "wfDir (race 0 d)"
  obtains data sg recs lim where "verifyFetchedSegment K data k (prefixStart v k) (vLogID v) (segmentKey r v k) = Inr (sg, recs)"
    "firstPrev ri d (nextName a m k) = '''' \<or> sgHeadHash sg = firstPrev ri d (nextName a m k)"
    "rgSHA256 out = sgSHA256 sg" "rgN out = k" "sdGet r (segmentKey r v k) (rgVersionID out) lim = Inr data"
    "contents d' (SegmentPath a k) = Some data" "tends a {SegmentPath a k} {rgReplaced out} (sweepTemps io a (race 0 d)) d'"
proof -
  obtain out0 data where S: "selectCopy K ri d a v m k verr r = Inr (out0, data)"
    using assms(1) by (cases "selectCopy K ri d a v m k verr r") (auto simp: restoreSegment_def)
  note R1 = assms(1) [unfolded restoreSegment_def S sum.case prod.case]
  obtain d1 where H: "holdActive io race d a = (d1, None)"
    using R1 by (cases "holdActive io race d a"; cases "snd (holdActive io race d a)") auto
  note d1 = holdActive_held [OF H] and R2 = R1 [unfolded H prod.case option.case]
  obtain name where P: "putBack ri io a k data d1 = (d', Inr name)" "out = out0\<lparr>rgReplaced := name\<rparr>"
    using R2 by (cases "putBack ri io a k data d1"; cases "snd (putBack ri io a k data d1)") auto
  obtain moved where t: "tends a {SegmentPath a k} moved (sweepTemps io a (race 0 d)) d'" "moved \<subseteq> {name}"
    "contents d' (SegmentPath a k) = Some data" 
    by (rule putBack_tends [OF P(1) assms(2) [folded d1], unfolded d1]) auto
  have "tends a {SegmentPath a k} {rgReplaced out} (sweepTemps io a (race 0 d)) d'"
    by (rule tends_mono [OF t(1)]) (use t(2) P(2) in auto)
  moreover obtain sg recs lim where "verifyFetchedSegment K data k (prefixStart v k) (vLogID v) (segmentKey r v k) = Inr (sg, recs)"
    "firstPrev ri d (nextName a m k) = '''' \<or> sgHeadHash sg = firstPrev ri d (nextName a m k)"
    "rgSHA256 out0 = sgSHA256 sg" "rgN out0 = k" "sdGet r (segmentKey r v k) (rgVersionID out0) lim = Inr data"
    by (rule selectCopy_Inr [OF S])
  ultimately show ?thesis using that [of data sg recs lim] t(3) P(2) by simp
qed

section \<open>The loop ends\<close>

lemma loadManifest_kept:
  assumes "wfDir d" "loadManifest K io d a = Inr (Some m)" "tends a {SegmentPath a k} moved (sweepTemps io a d) d'"
  shows "loadManifest K io d' a = Inr (Some m)"
proof -
  from assms(2) obtain b where b: "contents d (ManifestPath a) = Some b"
    by (auto simp: loadManifest_def Let_def split: option.splits)
  then have "contents (sweepTemps io a d) (ManifestPath a) = Some b" by (simp add: sweep_other)
  then have "contents d' (ManifestPath a) = Some b"
    using tends_contents [OF assms(3) sweep_wfDir [OF assms(1)]] by simp
  with b assms(2) show ?thesis by (simp add: loadManifest_def Let_def)
qed

lemma restorable_Inr:
  "restorable K io d a v verr = Inr (k, m) \<Longrightarrow> loadManifest K io d a = Inr (Some m) \<and> k \<le> length (mfSegments m)"
  by (auto simp: restorable_def split: control_error.splits if_splits sum.splits option.splits)

text \<open>The passes a restore can make: one per segment of the manifest not yet passed, and the last look.\<close>

lemma restoreLoop_ends:
  assumes "wfDir d" "\<And>m. loadManifest K io d a = Inr (Some m) \<Longrightarrow> length (mfSegments m) < lastN + fuel" "0 < fuel"
  shows "restoreLoop fuel K ri io idle a only r lastN acc d \<noteq> None"
  using assms
proof (induction fuel arbitrary: lastN acc d)
  case (Suc fuel)
  obtain d1 v err where R: "Read K io Locked idle d a = (d1, v, err)" by (metis prod_cases3)
  with Read_idle [of K io Locked d a] have d1: "d1 = d" by simp
  have step: "restoreLoop fuel K ri io idle a only r k (acc @ [seg]) d2 \<noteq> None"
    if k: "restorable K io d a v verr = Inr (k, m)" "lastN < k" and S: "restoreSegment K ri io idle a v m k verr r d = (d2, Inr seg)"
    for k m verr seg d2
  proof -
    note m = restorable_Inr [OF k(1)]
    have wf: "wfDir (idle 0 d)" using Suc.prems(1) by simp
    obtain t where T: "tends a {SegmentPath a k} t (sweepTemps io a d) d2"
      by (rule restoreSegment_Inr [OF S wf]) simp
    have "length (mfSegments m) < lastN + Suc fuel" using Suc.prems(2) m by blast
    with k(2) m have "length (mfSegments m) < k + fuel" "0 < fuel" by auto
    moreover have "loadManifest K io d2 a = Inr (Some m)" by (rule loadManifest_kept [OF Suc.prems(1) _ T]) (use m in simp)
    ultimately show ?thesis by (intro Suc.IH tends_wfDir [OF T]) auto
  qed
  note loop = restoreLoop.simps(2) R [unfolded d1] prod.case option.case
  show ?case
  proof (cases err)
    case None
    then show ?thesis by (simp only: loop) simp
  next
    case (Some verr)
    show ?thesis
    proof (cases "restorable K io d a v verr")
      case (Inl e)
      with Some show ?thesis by (simp only: loop sum.case) simp
    next
      case (Inr km)
      obtain k m where km: "restorable K io d a v verr = Inr (k, m)" using Inr by (cases km) simp
      obtain d2 res where S: "restoreSegment K ri io idle a v m k verr r d = (d2, res)" by fastforce
      show ?thesis
        unfolding Some loop km sum.case S
        using step [OF km, of d2] S
        by (cases res; cases "incompleteRotation K ri d a (length (mfSegments m))") (simp_all split: bool.split option.split)
    qed
  qed
qed simp

section \<open>Properties\<close>

text \<open>
  C21: a restore puts back only what the chain proves, and destroys nothing. When \<open>restoreSegment\<close> reports
  success, whatever other processes did before it had the lock, the file of segment \<open>k\<close> holds bytes that
  verify as that segment after the prefix already read, name this key of the sink in their seal and are
  continued by the first record of what follows when that can be read; the reported digest is that of
  these bytes; every other file but a leftover temporary keeps its bytes, and what stood under the
  segment's name is under the reported name.
\<close>

theorem restore_puts_back_only_verified_bytes:
  assumes "wfDir (race 0 d)" "restoreSegment K ri io race a v m k verr r d = (d', Inr out)"
  shows "\<exists>data sg recs. contents d' (SegmentPath a k) = Some data
    \<and> verifyFetchedSegment K data k (prefixStart v k) (vLogID v) (segmentKey r v k) = Inr (sg, recs)
    \<and> (firstPrev ri d (nextName a m k) = '''' \<or> firstPrev ri d (nextName a m k) = sgHeadHash sg)
    \<and> rgSHA256 out = sgSHA256 sg
    \<and> (\<forall>n b. contents (race 0 d) n = Some b \<and> \<not> tempName a n \<longrightarrow>
         contents d' n = Some b \<or> n = SegmentPath a k \<and> contents d' (rgReplaced out) = Some b)"
  using assms(2,1)
proof (rule restoreSegment_Inr)
  fix data sg recs lim
  assume V: "verifyFetchedSegment K data k (prefixStart v k) (vLogID v) (segmentKey r v k) = Inr (sg, recs)"
    "firstPrev ri d (nextName a m k) = '''' \<or> sgHeadHash sg = firstPrev ri d (nextName a m k)"
    "rgSHA256 out = sgSHA256 sg" "contents d' (SegmentPath a k) = Some data"
    and T: "tends a {SegmentPath a k} {rgReplaced out} (sweepTemps io a (race 0 d)) d'"
  have "contents d' n = Some b \<or> n = SegmentPath a k \<and> contents d' (rgReplaced out) = Some b"
    if "contents (race 0 d) n = Some b" "\<not> tempName a n" for n b
  proof -
    have c: "contents (sweepTemps io a (race 0 d)) n = Some b" using that by (simp add: sweep_other)
    then show ?thesis
      using T tends_contents [OF T sweep_wfDir [OF assms(1)] _ c] by (auto simp: tends_def keepsBytes_def)
  qed
  with V show ?thesis by (intro exI [of _ data] exI [of _ sg] exI [of _ recs]) auto
qed

text \<open>
  A restore ends. Each pass of \<open>Restore\<close> puts back a segment of a higher ordinal than the one before,
  and the manifest it reads is never changed by it, so one pass per listed segment and the last look are
  enough, whatever the sink returns and the file system answers.
\<close>

theorem restore_ends:
  assumes "wfDir d"
  shows "\<exists>out. Restore (case loadManifest K io d a of Inr (Some m) \<Rightarrow> length (mfSegments m) + 1 | _ \<Rightarrow> 1)
    K ri io idle race ck d a only r e = Some out"
proof -
  let ?fuel = "case loadManifest K io d a of Inr (Some m) \<Rightarrow> length (mfSegments m) + 1 | _ \<Rightarrow> 1"
  have "restoreLoop ?fuel K ri io idle a only r 0 [] d \<noteq> None"
    by (rule restoreLoop_ends [OF assms]) (auto split: sum.split option.split)
  then show ?thesis by (auto simp: Restore_def split: option.splits prod.splits)
qed

section \<open>A damaged segment\<close>

definition damagedDir :: directory where
  "damagedDir = freshFile ''c.segments'' ''M'' vaultDir"

definition damagedView :: View where
  "damagedView = noView\<lparr>vLogID := demoLogID\<rparr>"

definition damagedFault :: control_error where
  "damagedFault = setError FaultTorn 1 ''c.seg-000001'' 1 NoCause"

lemma damaged_dir: "wfDir damagedDir"
  unfolding damagedDir_def using vault_dir(1) by auto

theorem restore_ends_witness:
  "\<exists>out. Restore 2 vaultCodec vaultIO quietIO idle idle demoClock damagedDir ''c'' None vaultReader
     (demoControlEvent ''restore'' None) = Some out"
proof -
  have "loadManifest vaultCodec quietIO damagedDir ''c'' = Inr (Some demoManifest)" by code_simp
  then show ?thesis
    using restore_ends [OF damaged_dir, of vaultCodec quietIO "''c''" vaultIO idle demoClock None vaultReader
        "demoControlEvent ''restore'' None"]
    by (simp add: demoManifest_def numeral_2_eq_2)
qed

theorem restore_puts_back_only_verified_bytes_witness:
  "\<exists>d' out. restoreSegment vaultCodec vaultIO quietIO idle ''c'' damagedView demoManifest 1 damagedFault vaultReader damagedDir = (d', Inr out)
     \<and> contents d' (rgReplaced out) = Some ''x''"
proof -
  let ?R = "restoreSegment vaultCodec vaultIO quietIO idle ''c'' damagedView demoManifest 1 damagedFault vaultReader damagedDir"
  have fp: "firstPrev vaultIO damagedDir (nextName ''c'' demoManifest 1) = ''''"
    by (simp add: firstPrev_def firstLine_def nextName_def demoManifest_def damagedDir_def vaultDir_def demoD0_def contents_def)
  have "case selectCopy vaultCodec vaultIO damagedDir ''c'' damagedView demoManifest 1 damagedFault vaultReader of
      Inr x \<Rightarrow> snd x = fileBytes [''A'', ''B''] | Inl _ \<Rightarrow> False"
    unfolding selectCopy_def Let_def fp by code_simp
  then obtain out0 where S: "selectCopy vaultCodec vaultIO damagedDir ''c'' damagedView demoManifest 1 damagedFault vaultReader
      = Inr (out0, fileBytes [''A'', ''B''])" by (auto split: sum.splits)
  have "case snd (putBack vaultIO quietIO ''c'' 1 (fileBytes [''A'', ''B'']) damagedDir) of Inr _ \<Rightarrow> True | Inl _ \<Rightarrow> False" by code_simp
  then obtain d' name where P: "putBack vaultIO quietIO ''c'' 1 (fileBytes [''A'', ''B'']) damagedDir = (d', Inr name)"
    by (metis old.sum.simps(5) prod.collapse sum.exhaust)
  have "contents (fst (putBack vaultIO quietIO ''c'' 1 (fileBytes [''A'', ''B'']) damagedDir)) (SegmentPath ''c'' 1) \<noteq> Some ''x''" by code_simp
  then have ne: "contents d' (SegmentPath ''c'' 1) \<noteq> Some ''x''" unfolding P fst_conv .
  have I: "inodeOf damagedDir ''c'' \<noteq> None" by code_simp
  have R: "?R = (d', Inr (out0\<lparr>rgReplaced := name\<rparr>))"
    unfolding restoreSegment_def S sum.case prod.case holdActive_quiet if_not_P [OF I] option.case P by (rule refl)
  have "contents (idle 0 damagedDir) (SegmentPath ''c'' 1) = Some ''x'' \<and> \<not> tempName ''c'' (SegmentPath ''c'' 1)"
    unfolding idle_simp by code_simp
  moreover have "wfDir (idle 0 damagedDir)" using damaged_dir by simp
  ultimately show ?thesis using restore_puts_back_only_verified_bytes [OF _ R] ne R by blast
qed

end
