(* ===== verification/Gateway_Tools.thy ===== *)
theory Gateway_Tools
  imports Engine
begin

text \<open>
  Package \<^verbatim>\<open>internal/rungateway\<close>, what \<open>Gateway.Start\<close> does before a step's listener opens: the
  exec guard, the allowlist derived from the agent's tool grants, and the mirror of the upstream
  tools onto the inbound server (\<^verbatim>\<open>proxy.go\<close>). The MCP SDK is not part of the repository: what a
  connect and a list of the tools of a resource give is an argument. Logging is left out; the text
  of an error is a constructor with the values put into it.
\<close>

section \<open>What a step may see\<close>

text \<open>An absent key is a resource not granted, \<^const>\<open>None\<close> the nil set of an every-tool grant.\<close>

type_synonym allowedTools = "bytes \<rightharpoonup> bytes list option"

definition allows :: "allowedTools \<Rightarrow> bytes \<Rightarrow> bytes \<Rightarrow> bool" where
  "allows a resourceID tool =
     (case a resourceID of
        None \<Rightarrow> False
      | Some None \<Rightarrow> True
      | Some (Some names) \<Rightarrow> tool \<in> set names)"

definition readOnlySet :: "ToolResource \<Rightarrow> bytes list" where
  "readOnlySet res = trReadOnlyTools res"

definition zeroResource :: ToolResource where
  "zeroResource = \<lparr>trKind = '''', trURL = '''', trCredentialSource = '''', trTokenEnv = '''', trGrantType = '''',
     trClientAuth = '''', trIssuer = '''', trTokenEndpoint = '''', trClientIDEnv = '''', trClientSecretEnv = '''',
     trScope = '''', trAudience = '''', trReadOnlyTools = [], trRuntime = ''''\<rparr>"

text \<open>A lookup in the Go map: the zero value for a key it does not hold.\<close>

definition resourceAt :: "(bytes \<times> ToolResource) list \<Rightarrow> bytes \<Rightarrow> ToolResource" where
  "resourceAt tools r = (case map_of tools r of None \<Rightarrow> zeroResource | Some res \<Rightarrow> res)"

datatype start_error =
    MintFailed
  | ExecNotFirstHand bytes
  | GrantNeedsBoth bytes
  | GrantAllRetired bytes
  | GrantModeUnknown bytes bytes
  | GrantWithoutTools bytes
  | GrantStarWithOthers bytes
  | GrantWithoutMode bytes
  | GrantedTwice bytes
  | NotClassifiedReadOnly bytes bytes
  | ConnectFailed bytes
  | ListToolsFailed bytes
  | ExposedByTwo bytes bytes bytes
  | ReadOnlyMatchesNothing bytes
  | ToolNotExposed bytes bytes
  | ListenFailed

section \<open>The allowlist\<close>

definition execURLFor :: "bytes \<Rightarrow> AgentDef \<Rightarrow> bytes" where
  "execURLFor override agent = (if override \<noteq> '''' then override else ecURL (adExec agent))"

definition execGuard :: "bytes \<Rightarrow> AgentDef \<Rightarrow> start_error option" where
  "execGuard override agent =
     (if Declared (adExec agent)
         \<and> (ecRuntime (adExec agent) \<noteq> ''refexec'' \<or> \<not> has_prefix (execURLFor override agent) UnixScheme
            \<or> ecTimeout (adExec agent) \<le> 0)
      then Some (ExecNotFirstHand (ecRuntime (adExec agent))) else None)"

definition grantFault :: "ToolGrant \<Rightarrow> start_error option" where
  "grantFault g =
     (if tgTools g = [] \<and> tgMode g = '''' then Some (GrantNeedsBoth (tgResource g))
      else if tgMode g = ''all'' then Some (GrantAllRetired (tgResource g))
      else if tgMode g \<noteq> '''' \<and> tgMode g \<noteq> ''read-only'' \<and> tgMode g \<noteq> ''read-write''
      then Some (GrantModeUnknown (tgResource g) (tgMode g))
      else if tgTools g = [] then Some (GrantWithoutTools (tgResource g))
      else if ''*'' \<in> set (tgTools g) \<and> length (tgTools g) \<noteq> 1 then Some (GrantStarWithOthers (tgResource g))
      else if tgMode g = '''' then Some (GrantWithoutMode (tgResource g))
      else None)"

text \<open>The entry of one well-formed grant, or the first name outside the operator's classification.\<close>

definition grantEntry :: "ToolResource \<Rightarrow> ToolGrant \<Rightarrow> start_error + bytes list option" where
  "grantEntry res g =
     (if EveryToolReadWrite g then Inr None
      else if AllTools g then Inr (Some (readOnlySet res))
      else (case (if ReadOnly g then find (\<lambda>name. name \<notin> set (readOnlySet res)) (tgTools g) else None) of
              Some name \<Rightarrow> Inl (NotClassifiedReadOnly (tgResource g) name)
            | None \<Rightarrow> Inr (Some (tgTools g))))"

fun buildAllow ::
  "(bytes \<times> ToolResource) list \<Rightarrow> allowedTools \<Rightarrow> ToolGrant list \<Rightarrow> start_error + allowedTools" where
  "buildAllow tools allow [] = Inr allow"
| "buildAllow tools allow (g # gs) =
     (case grantFault g of
        Some e \<Rightarrow> Inl e
      | None \<Rightarrow>
          (case allow (tgResource g) of
             Some prev \<Rightarrow>
               if \<not> EveryToolReadWrite g \<or> prev \<noteq> None then Inl (GrantedTwice (tgResource g))
               else (case grantEntry (resourceAt tools (tgResource g)) g of
                       Inl e \<Rightarrow> Inl e
                     | Inr entry \<Rightarrow> buildAllow tools (allow(tgResource g \<mapsto> entry)) gs)
           | None \<Rightarrow>
               (case grantEntry (resourceAt tools (tgResource g)) g of
                  Inl e \<Rightarrow> Inl e
                | Inr entry \<Rightarrow> buildAllow tools (allow(tgResource g \<mapsto> entry)) gs)))"

section \<open>The mirror\<close>

datatype upstream_answer = NoConnection | NoList | Exposes "bytes list"

type_synonym mirror = "(bytes \<times> bytes) list"

text \<open>The tools of one resource, in the order the upstream lists them.\<close>

fun mirrorTools :: "allowedTools \<Rightarrow> bytes \<Rightarrow> bytes list \<Rightarrow> mirror \<Rightarrow> start_error + mirror" where
  "mirrorTools allow rid [] m = Inr m"
| "mirrorTools allow rid (tool # rest) m =
     (if \<not> allows allow rid tool then mirrorTools allow rid rest m
      else (case map_of m tool of
              Some owner \<Rightarrow> Inl (ExposedByTwo tool owner rid)
            | None \<Rightarrow> mirrorTools allow rid rest ((tool, rid) # m)))"

definition grantExposed :: "ToolGrant \<Rightarrow> ToolResource \<Rightarrow> bytes list \<Rightarrow> start_error option" where
  "grantExposed g res exposed =
     (if EveryToolReadWrite g then None
      else if AllTools g then
        (if filter (\<lambda>name. name \<in> set exposed) (trReadOnlyTools res) = []
         then Some (ReadOnlyMatchesNothing (tgResource g)) else None)
      else (case find (\<lambda>name. name \<notin> set exposed) (tgTools g) of
              Some name \<Rightarrow> Some (ToolNotExposed (tgResource g) name)
            | None \<Rightarrow> None))"

fun mirrorGrants ::
  "(bytes \<times> ToolResource) list \<Rightarrow> (bytes \<Rightarrow> upstream_answer) \<Rightarrow> allowedTools \<Rightarrow> bytes list \<Rightarrow> mirror \<Rightarrow>
   ToolGrant list \<Rightarrow> start_error + mirror" where
  "mirrorGrants tools up allow seen m [] = Inr m"
| "mirrorGrants tools up allow seen m (g # gs) =
     (if tgResource g \<in> set seen then mirrorGrants tools up allow seen m gs
      else
        (case map_of tools (tgResource g) of
           None \<Rightarrow> mirrorGrants tools up allow (tgResource g # seen) m gs
         | Some res \<Rightarrow>
             (case up (tgResource g) of
                NoConnection \<Rightarrow> Inl (ConnectFailed (tgResource g))
              | NoList \<Rightarrow> Inl (ListToolsFailed (tgResource g))
              | Exposes names \<Rightarrow>
                  (case mirrorTools allow (tgResource g) names m of
                     Inl e \<Rightarrow> Inl e
                   | Inr m' \<Rightarrow>
                       (case grantExposed g res names of
                          Some e \<Rightarrow> Inl e
                        | None \<Rightarrow> mirrorGrants tools up allow (tgResource g # seen) m' gs)))))"

text \<open>\<open>Start\<close> up to the listener: the run token, the guard, the allowlist, the mirror, the socket.\<close>

definition GatewayStart ::
  "(bytes \<times> ToolResource) list \<Rightarrow> bytes \<Rightarrow> bytes option \<Rightarrow> (bytes \<Rightarrow> upstream_answer) \<Rightarrow> bytes option \<Rightarrow> AgentDef \<Rightarrow>
   start_error + bytes \<times> bytes \<times> allowedTools \<times> mirror" where
  "GatewayStart tools override drawn up listen agent =
     (case drawn of
        None \<Rightarrow> Inl MintFailed
      | Some random \<Rightarrow>
          (case execGuard override agent of
             Some e \<Rightarrow> Inl e
           | None \<Rightarrow>
               (case buildAllow tools Map.empty (adTools agent) of
                  Inl e \<Rightarrow> Inl e
                | Inr allow \<Rightarrow>
                    (case mirrorGrants tools up allow [] [] (adTools agent) of
                       Inl e \<Rightarrow> Inl e
                     | Inr m \<Rightarrow>
                         (case listen of
                            None \<Rightarrow> Inl ListenFailed
                          | Some url \<Rightarrow> Inr (url, hexBytes random, allow, m))))))"

section \<open>Lemmas\<close>

lemma grantFault_ok:
  "grantFault g = None \<longleftrightarrow>
     tgTools g \<noteq> [] \<and> (''*'' \<in> set (tgTools g) \<longrightarrow> length (tgTools g) = 1) \<and> tgMode g \<in> {''read-only'', ''read-write''}"
  by (auto simp: grantFault_def)

text \<open>
  What a grant may reach, said without the allowlist: every tool, the operator's classification, or
  the names it lists; under a read-only mode never a name outside the classification.
\<close>

definition covers :: "(bytes \<times> ToolResource) list \<Rightarrow> ToolGrant \<Rightarrow> bytes \<Rightarrow> bool" where
  "covers tools g tool \<longleftrightarrow>
     (tgMode g = ''read-write'' \<and> (tgTools g = [''*''] \<or> tool \<in> set (tgTools g))
      \<or> tgMode g = ''read-only'' \<and> (tgTools g = [''*''] \<or> tool \<in> set (tgTools g))
        \<and> tool \<in> set (trReadOnlyTools (resourceAt tools (tgResource g))))"

lemma grantEntry_covers:
  assumes "grantFault g = None" "grantEntry (resourceAt tools (tgResource g)) g = Inr entry"
  shows "(case entry of None \<Rightarrow> True | Some names \<Rightarrow> tool \<in> set names) \<longleftrightarrow> covers tools g tool"
  using assms
  by (auto simp: grantEntry_def covers_def grantFault_ok EveryToolReadWrite_def AllTools_def ReadOnly_def readOnlySet_def
      find_None_iff split: if_splits option.splits)

lemma buildAllow_sound:
  assumes "buildAllow tools allow gs = Inr a"
  shows "allows a r tool \<longleftrightarrow> allows allow r tool \<or> (\<exists>g \<in> set gs. tgResource g = r \<and> covers tools g tool)"
  using assms
proof (induction gs arbitrary: allow)
  case (Cons g gs)
  from Cons.prems obtain entry where f: "grantFault g = None"
    and e: "grantEntry (resourceAt tools (tgResource g)) g = Inr entry"
    and rest: "buildAllow tools (allow(tgResource g \<mapsto> entry)) gs = Inr a"
    and dup: "\<And>prev. allow (tgResource g) = Some prev \<Longrightarrow> EveryToolReadWrite g \<and> prev = None"
    by (auto split: option.splits sum.splits if_splits)
  have "allows (allow(tgResource g \<mapsto> entry)) r tool
      \<longleftrightarrow> allows allow r tool \<or> tgResource g = r \<and> covers tools g tool"
  proof (cases "tgResource g = r")
    case True
    have "allows allow r tool \<Longrightarrow> covers tools g tool"
    proof -
      assume a: "allows allow r tool"
      then obtain prev where "allow r = Some prev" by (auto simp: allows_def split: option.splits)
      with dup True have "EveryToolReadWrite g" by auto
      then show ?thesis by (simp add: covers_def EveryToolReadWrite_def AllTools_def)
    qed
    with True grantEntry_covers [OF f e, of tool] show ?thesis by (auto simp: allows_def split: option.splits)
  qed (simp add: allows_def)
  then show ?case unfolding Cons.IH [OF rest] by auto
qed simp

lemma mirrorTools_owner:
  assumes "mirrorTools allow rid names m = Inr m'"
  shows "map_of m' t = Some r \<longleftrightarrow> map_of m t = Some r \<or> r = rid \<and> t \<in> set names \<and> allows allow rid t"
  using assms
proof (induction names arbitrary: m)
  case (Cons n names)
  show ?case
  proof (cases "allows allow rid n")
    case False
    with Cons.prems have "mirrorTools allow rid names m = Inr m'" by simp
    from Cons.IH [OF this] False show ?thesis by auto
  next
    case True
    with Cons.prems have n: "map_of m n = None" and rest: "mirrorTools allow rid names ((n, rid) # m) = Inr m'"
      by (auto split: option.splits)
    show ?thesis unfolding Cons.IH [OF rest] using n True by auto
  qed
qed simp

definition exposedBy :: "(bytes \<Rightarrow> upstream_answer) \<Rightarrow> bytes \<Rightarrow> bytes \<Rightarrow> bool" where
  "exposedBy up r t \<longleftrightarrow> (case up r of Exposes names \<Rightarrow> t \<in> set names | _ \<Rightarrow> False)"

lemma mirrorGrants_owner:
  assumes "mirrorGrants tools up allow seen m gs = Inr m'"
  shows "map_of m' t = Some r \<longleftrightarrow>
    map_of m t = Some r
    \<or> r \<notin> set seen \<and> r \<in> tgResource ` set gs \<and> map_of tools r \<noteq> None \<and> exposedBy up r t \<and> allows allow r t"
  using assms
proof (induction gs arbitrary: seen m)
  case (Cons g gs)
  show ?case
  proof (cases "tgResource g \<in> set seen \<or> map_of tools (tgResource g) = None")
    case True
    with Cons.prems have "mirrorGrants tools up allow (if tgResource g \<in> set seen then seen else tgResource g # seen) m gs = Inr m'"
      by (auto split: if_splits)
    from Cons.IH [OF this] True show ?thesis by auto
  next
    case False
    then obtain res where res: "map_of tools (tgResource g) = Some res" by auto
    with False Cons.prems obtain names m1 where up: "up (tgResource g) = Exposes names"
      and m1: "mirrorTools allow (tgResource g) names m = Inr m1"
      and rest: "mirrorGrants tools up allow (tgResource g # seen) m1 gs = Inr m'"
      by (auto split: upstream_answer.splits sum.splits option.splits)
    show ?thesis
      unfolding Cons.IH [OF rest] mirrorTools_owner [OF m1] using False up by (auto simp: exposedBy_def)
  qed
qed simp

text \<open>A mirrored name has one owner, and no name is mirrored twice.\<close>

lemma mirrorTools_distinct:
  "mirrorTools allow rid names m = Inr m' \<Longrightarrow> distinct (map fst m) \<Longrightarrow> distinct (map fst m')"
  by (induction names arbitrary: m) (auto simp: map_of_eq_None_iff split: if_splits option.splits)

lemma mirrorGrants_distinct:
  "mirrorGrants tools up allow seen m gs = Inr m' \<Longrightarrow> distinct (map fst m) \<Longrightarrow> distinct (map fst m')"
  by (induction gs arbitrary: seen m)
    (auto split: if_splits option.splits upstream_answer.splits sum.splits dest: mirrorTools_distinct)

lemma GatewayStart_parts:
  assumes "GatewayStart tools override drawn up listen agent = Inr (url, token, allow, m)"
  shows "execGuard override agent = None" "buildAllow tools Map.empty (adTools agent) = Inr allow"
    "mirrorGrants tools up allow [] [] (adTools agent) = Inr m" "listen = Some url"
    "\<exists>random. drawn = Some random \<and> token = hexBytes random"
  using assms by (auto simp: GatewayStart_def split: option.splits sum.splits)

lemma mirror_granted:
  assumes "GatewayStart tools override drawn up listen agent = Inr (url, token, allow, m)"
  shows "map_of m t = Some r \<longleftrightarrow>
    (\<exists>g \<in> set (adTools agent). tgResource g = r \<and> covers tools g t) \<and> map_of tools r \<noteq> None \<and> exposedBy up r t"
proof -
  note p = GatewayStart_parts [OF assms]
  have "allows allow r t \<longleftrightarrow> (\<exists>g \<in> set (adTools agent). tgResource g = r \<and> covers tools g t)"
    using buildAllow_sound [OF p(2)] by (simp add: allows_def)
  then show ?thesis using mirrorGrants_owner [OF p(3), of t r] by auto
qed

end
