(* ===== verification/Gateway_Doors.thy ===== *)
theory Gateway_Doors
  imports Gateway_Tools Completeness
begin

text \<open>
  Package \<^verbatim>\<open>internal/rungateway\<close>, the doors of a running step: the tool door (\<open>toolsCallMiddleware\<close>,
  \<open>forward\<close>), the exec door (\<^verbatim>\<open>exec.go\<close>), the model door (\<open>modelHandler\<close>, with \<^verbatim>\<open>internal/gateway\<close>'s
  \<open>Resolve\<close>) and the spawn door (\<^verbatim>\<open>spawn.go\<close>), and the rules for a runtime's attestation
  (\<^verbatim>\<open>attestation.go\<close>).

  A handler is a function from the request and the answer of the world to a \<open>doorResult\<close>: the events it
  appends to the ledger, the calls it makes outwards, and the status and text it answers with. JSON,
  SHA-256, \<^verbatim>\<open>%q\<close> and URL parsing are the fields of a \<open>doorLib\<close>; the SDK, HTTP transport and the
  supervisor only appear as the answers they give. Logging is left out.
\<close>

section \<open>Data\<close>

datatype content = TextContent bytes | OtherContent bytes

text \<open>The value under a \<^verbatim>\<open>_meta\<close> key is its JSON text, \<^const>\<open>None\<close> for null.\<close>

record CallToolResult =
  ctIsError :: bool
  ctContent :: "content list"
  ctMeta :: "(bytes \<times> bytes option) list"

datatype tool_answer = CallFailed bytes | Answered "CallToolResult option"

record execRunResponse =
  xrExitCode :: "int option"
  xrOutput :: bytes
  xrOutputSHA :: bytes
  xrTruncated :: bool
  xrOutputBytes :: int
  xrRuntimeAttestation :: "bytes option"

record spawnRequest =
  sqRole :: bytes
  sqWorkflow :: bytes
  sqInput :: bytes

record SpawnResult =
  snChildRunID :: bytes
  snStatus :: bytes
  snReason :: bytes
  snOutputSHA :: bytes
  snOutputPreview :: bytes
  snProvisioned :: bool
  snChildConfiner :: bytes
  snChildConfinerOpts :: "bytes list"

record doorLib =
  dlSum :: "bytes \<Rightarrow> bytes"
  dlQuote :: "bytes \<Rightarrow> bytes"
  dlValid :: "bytes \<Rightarrow> bool"
  dlCommand :: "bytes \<Rightarrow> bytes list option"
  dlBuildCommand :: "bytes list \<Rightarrow> bytes option"
  dlExecResponse :: "bytes \<Rightarrow> execRunResponse option"
  dlAttestation :: "bytes \<Rightarrow> RuntimeAttestation option"
  dlResult :: "CallToolResult \<Rightarrow> bytes"
  dlModel :: "bytes \<Rightarrow> bytes option"
  dlRebuild :: "bytes \<Rightarrow> bytes \<Rightarrow> bytes option"
  dlURL :: "bytes \<Rightarrow> (bytes \<times> bytes) option"
  dlUsage :: "bytes \<Rightarrow> (int option \<times> int option) option"
  dlSpawn :: "bytes \<Rightarrow> spawnRequest option"

datatype outward =
    ToolOut bytes bytes bytes
  | ExecOut bytes "bytes list"
  | ModelOut bytes bytes bytes
  | SpawnOut bytes bytes bytes

record doorResult =
  drEvents :: "Event list"
  drOut :: "outward list"
  drCode :: int
  drText :: bytes

definition answered :: "Event \<Rightarrow> outward list \<Rightarrow> int \<Rightarrow> bytes \<Rightarrow> doorResult" where
  "answered e out code reply = \<lparr>drEvents = [e], drOut = out, drCode = code, drText = reply\<rparr>"

section \<open>Text that enters the ledger\<close>

definition capRunes :: "bytes \<Rightarrow> nat \<Rightarrow> bytes" where
  "capRunes s n = (let r = runesOf s in if length r > n then encodeRunes (take n r) else s)"

definition hasControl :: "bytes \<Rightarrow> bool" where
  "hasControl s \<longleftrightarrow> list_ex isControl (runesOf s)"

definition argsSHA :: "doorLib \<Rightarrow> bytes \<Rightarrow> bytes" where
  "argsSHA lib args = dlSum lib args"

definition oneLine :: "bytes \<Rightarrow> bytes" where
  "oneLine s = joinSpace (stringFields s)"

definition hashResult :: "doorLib \<Rightarrow> tool_answer \<Rightarrow> bytes \<times> bytes" where
  "hashResult lib a =
     (let body = (case a of CallFailed text \<Rightarrow> text | Answered None \<Rightarrow> [] | Answered (Some r) \<Rightarrow> dlResult lib r)
      in (dlSum lib body, capRunes (oneLine (map (\<lambda>c. if c = newline then CHR '' '' else c) body)) 200))"

definition resultErrorText :: "CallToolResult \<Rightarrow> bytes" where
  "resultErrorText r =
     (let parts = List.map_filter (\<lambda>c. case c of TextContent t \<Rightarrow> Some t | OtherContent _ \<Rightarrow> None) (ctContent r);
          txt = oneLine (joinSpace parts)
      in if txt = '''' then ''upstream tool call reported an error'' else capRunes txt 200)"

definition authModeFor :: "ToolResource \<Rightarrow> bytes" where
  "authModeFor res =
     (if trGrantType res = '''' then ''static_env''
      else if trGrantType res = ''client_credentials'' then ''client_credentials''
      else if trGrantType res = ''token_exchange'' then ''token_exchange''
      else trGrantType res)"

section \<open>Attestations\<close>

definition runtimeAttestationMetaKey :: bytes where
  "runtimeAttestationMetaKey = ''agenthof.dev/runtime-attestation''"

definition knownRuntimes :: "bytes list" where
  "knownRuntimes = [''refbridge'', ''refexec'']"

definition maxAttestedArgv :: nat where "maxAttestedArgv = 32"
definition maxAttestedEnvNames :: nat where "maxAttestedEnvNames = 64"
definition maxAttestedRunes :: nat where "maxAttestedRunes = 200"
definition maxAttestedConfinerOpts :: nat where "maxAttestedConfinerOpts = 16"

definition nameStart :: "char \<Rightarrow> bool" where
  "nameStart c \<longleftrightarrow> c \<in> set ''ABCDEFGHIJKLMNOPQRSTUVWXYZabcdefghijklmnopqrstuvwxyz_''"

definition envNameOK :: "bytes \<Rightarrow> bool" where
  "envNameOK s = (case s of [] \<Rightarrow> False | c # cs \<Rightarrow> nameStart c \<and> list_all (\<lambda>d. nameStart d \<or> d \<in> set ''0123456789'') cs)"

definition confinerTokenOK :: "bytes \<Rightarrow> bool" where
  "confinerTokenOK s =
     (case s of
        [] \<Rightarrow> False
      | c # cs \<Rightarrow> c \<in> set ''abcdefghijklmnopqrstuvwxyz'' \<and> length cs \<le> 39
                  \<and> list_all (\<lambda>d. d \<in> set ''abcdefghijklmnopqrstuvwxyz0123456789-'') cs)"

definition textOK :: "bytes \<Rightarrow> bool" where
  "textOK s \<longleftrightarrow> length (runesOf s) \<le> maxAttestedRunes \<and> \<not> hasControl s"

definition argvRecordable :: "bytes list \<Rightarrow> bool" where
  "argvRecordable argv \<longleftrightarrow> argv \<noteq> [] \<and> length argv \<le> maxAttestedArgv \<and> list_all textOK argv"

definition validAttestation :: "RuntimeAttestation \<Rightarrow> bytes \<Rightarrow> bool" where
  "validAttestation a declared =
     (if raRuntime a \<noteq> declared \<or> \<not> List.member knownRuntimes (raRuntime a) then False
      else if \<not> textOK (raSession a) then False
      else if raCommand a = [] \<or> length (raCommand a) > maxAttestedArgv then False
      else if \<not> list_all textOK (raCommand a) then False
      else if raPID a < 1 \<or> raSpawn a < 1 then False
      else if length (raEnvNames a) > maxAttestedEnvNames then False
      else if \<not> list_all (\<lambda>n. envNameOK n \<and> length (runesOf n) \<le> maxAttestedRunes) (raEnvNames a) then False
      else if raConfiner a \<noteq> '''' \<and> \<not> confinerTokenOK (raConfiner a) then False
      else if length (raConfinerOpts a) > maxAttestedConfinerOpts then False
      else if \<not> list_all confinerTokenOK (raConfinerOpts a) then False
      else if raRuntime a = ''refexec'' then raCredentialEnv a = '''' \<and> raMaterialization a = ''''
      else if raConfiner a \<noteq> '''' \<or> raConfinerOpts a \<noteq> [] then False
      else if \<not> envNameOK (raCredentialEnv a) \<or> length (runesOf (raCredentialEnv a)) > maxAttestedRunes then False
      else raMaterialization a = ''env-at-spawn'' \<or> raMaterialization a = ''respawn-on-rotation'')"

datatype attest_error = AttestationMissing | AttestationMalformed

definition attestText :: "attest_error \<Rightarrow> bytes" where
  "attestText e =
     (case e of AttestationMissing \<Rightarrow> ''runtime attestation missing''
      | AttestationMalformed \<Rightarrow> ''runtime attestation malformed'')"

definition decodeAttestation :: "doorLib \<Rightarrow> bytes option \<Rightarrow> bytes \<Rightarrow> attest_error + RuntimeAttestation" where
  "decodeAttestation lib raw declared =
     (case raw of
        None \<Rightarrow> Inl AttestationMissing
      | Some data \<Rightarrow>
          (case dlAttestation lib data of
             None \<Rightarrow> Inl AttestationMalformed
           | Some a \<Rightarrow> if validAttestation a declared then Inr a else Inl AttestationMalformed))"

text \<open>The result without the attestation, what was attested, and whether a claim was dropped.\<close>

definition takeRuntimeAttestation ::
  "doorLib \<Rightarrow> CallToolResult option \<Rightarrow> bytes \<Rightarrow>
   CallToolResult option \<times> RuntimeAttestation option \<times> bool \<times> attest_error option" where
  "takeRuntimeAttestation lib result declared =
     (let raw = (case result of None \<Rightarrow> None | Some r \<Rightarrow> map_of (ctMeta r) runtimeAttestationMetaKey);
          stripped = map_option (\<lambda>r. r\<lparr>ctMeta := filter (\<lambda>kv. fst kv \<noteq> runtimeAttestationMetaKey) (ctMeta r)\<rparr>) result
      in if declared = '''' then (stripped, None, raw \<noteq> None, None)
         else (case raw of
                 None \<Rightarrow> (stripped, None, False, Some AttestationMissing)
               | Some v \<Rightarrow>
                   (case decodeAttestation lib v declared of
                      Inl e \<Rightarrow> (stripped, None, False, Some e)
                    | Inr a \<Rightarrow> (stripped, Some a, False, None))))"

section \<open>The tool door\<close>

record stepCtx =
  scBind :: Binding
  scAgent :: AgentDef
  scTools :: "(bytes \<times> ToolResource) list"
  scAllow :: allowedTools
  scMirrored :: mirror

definition toolEvent :: "doorLib \<Rightarrow> stepCtx \<Rightarrow> bytes \<Rightarrow> bytes \<Rightarrow> bytes \<Rightarrow> bytes \<Rightarrow> Event" where
  "toolEvent lib x name args status reason =
     (event ''tool_call'')\<lparr>evAgent := adName (scAgent x), evStatus := status, evReason := reason, evTool := name,
        evArgsSHA := argsSHA lib args, evBinding := scBind x\<rparr>"

definition denyReason :: "doorLib \<Rightarrow> bytes \<Rightarrow> bytes \<Rightarrow> bytes" where
  "denyReason lib name rid = ''tool '' @ dlQuote lib name @ '' on resource '' @ dlQuote lib rid @ '' is not allowlisted for this run''"

text \<open>A tool result or a JSON-RPC error travels back on HTTP 200; the text is what the agent sees.\<close>

definition forward :: "doorLib \<Rightarrow> stepCtx \<Rightarrow> bytes \<Rightarrow> bytes \<Rightarrow> bytes \<Rightarrow> tool_answer \<Rightarrow> doorResult" where
  "forward lib x rid name args upstream =
     (let res = resourceAt (scTools x) rid
      in if \<not> allows (scAllow x) rid name then
           answered ((toolEvent lib x name args ''refused'' (denyReason lib name rid))
               \<lparr>evAuthMode := authModeFor res, evResourcesTouched := [rid]\<rparr>) [] 200 (denyReason lib name rid)
         else
           (case upstream of
              CallFailed txt \<Rightarrow>
                answered ((toolEvent lib x name args ''failed'' (capRunes txt 200))
                    \<lparr>evAuthMode := authModeFor res, evResourcesTouched := [rid],
                     evArtifactSHA := fst (hashResult lib upstream), evArtifact := snd (hashResult lib upstream)\<rparr>)
                  [ToolOut rid name args] 200 txt
            | Answered result \<Rightarrow>
                (case takeRuntimeAttestation lib result (trRuntime res) of
                   (stripped, att, dropped, err) \<Rightarrow>
                     let final = (case err of
                                    None \<Rightarrow> stripped
                                  | Some e \<Rightarrow> Some \<lparr>ctIsError = True, ctContent = [TextContent (attestText e)], ctMeta = []\<rparr>);
                         bad = (case final of Some r \<Rightarrow> ctIsError r | None \<Rightarrow> False);
                         h = hashResult lib (Answered final)
                     in answered ((toolEvent lib x name args (if bad then ''failed'' else ''succeeded'')
                            (if bad then resultErrorText (the final) else ''''))
                          \<lparr>evAuthMode := authModeFor res, evResourcesTouched := [rid], evArtifactSHA := fst h,
                           evArtifact := snd h, evRuntimeAttestation := att\<rparr>)
                        [ToolOut rid name args] 200 (case final of None \<Rightarrow> [] | Some r \<Rightarrow> dlResult lib r))))"

text \<open>\<open>ask\<close> is the upstream of a resource: what it answers to a call.\<close>

definition toolsCall :: "doorLib \<Rightarrow> stepCtx \<Rightarrow> (bytes \<Rightarrow> bytes \<Rightarrow> bytes \<Rightarrow> tool_answer) \<Rightarrow> bytes \<Rightarrow> bytes \<Rightarrow> doorResult" where
  "toolsCall lib x ask name args =
     (case map_of (scMirrored x) name of
        None \<Rightarrow>
          answered (toolEvent lib x name args ''refused'' ''tool is not available to this run'') [] 200 ''unknown tool''
      | Some rid \<Rightarrow> forward lib x rid name args (ask rid name args))"

section \<open>The exec door\<close>

text \<open>The ledger's reasons are fixed strings.\<close>

definition reasonExecNotAllowlisted :: bytes where
  "reasonExecNotAllowlisted = ''command is not on the exec allowlist''"

definition reasonExecCommandUnrecordable :: bytes where
  "reasonExecCommandUnrecordable = ''command exceeds the ledger's argv bounds''"

definition reasonExecRunNotDeclared :: bytes where
  "reasonExecRunNotDeclared = ''first-hand exec is not declared for this agent''"

definition reasonExecFirstHandOnly :: bytes where
  "reasonExecFirstHandOnly = ''exec on this agent is first-hand: authorize and attest are not available''"

definition reasonExecSocketDir :: bytes where
  "reasonExecSocketDir = ''exec runtime socket directory is not a private (0700) directory owned by this user''"

definition reasonExecUnreachable :: bytes where
  "reasonExecUnreachable = ''exec runtime unreachable''"

definition reasonExecTimedOut :: bytes where
  "reasonExecTimedOut = ''exec runtime call timed out''"

definition reasonExecCancelled :: bytes where
  "reasonExecCancelled = ''exec runtime call was cancelled''"

definition reasonExecErrorStatus :: bytes where
  "reasonExecErrorStatus = ''exec runtime returned an error status''"

definition reasonExecResponseTooLarge :: bytes where
  "reasonExecResponseTooLarge = ''exec runtime response too large''"

definition reasonExecResponseMalformed :: bytes where
  "reasonExecResponseMalformed = ''exec runtime response malformed''"

definition reasonExecCommandMismatch :: bytes where
  "reasonExecCommandMismatch = ''runtime attestation names a different command''"

definition reasonExecOutputHash :: bytes where
  "reasonExecOutputHash = ''exec runtime output hash does not match the output''"

definition reasonExecRequestMalformed :: bytes where
  "reasonExecRequestMalformed = ''exec request malformed''"

definition reasonExecRequestUnbuildable :: bytes where
  "reasonExecRequestUnbuildable = ''exec request could not be built''"

definition execEvent :: "stepCtx \<Rightarrow> bytes \<Rightarrow> bytes \<Rightarrow> bytes list \<Rightarrow> Event" where
  "execEvent x status reason argv =
     (event ''exec'')\<lparr>evAgent := adName (scAgent x), evStatus := status, evReason := reason, evCommand := argv,
        evMode := ''runtime'', evBinding := scBind x\<rparr>"

definition execRefused :: "stepCtx \<Rightarrow> bytes list \<Rightarrow> bytes \<Rightarrow> int \<Rightarrow> doorResult" where
  "execRefused x argv reason code = answered (execEvent x ''refused'' reason argv) [] code reason"

definition execFailed :: "stepCtx \<Rightarrow> bytes list \<Rightarrow> outward list \<Rightarrow> bytes \<Rightarrow> doorResult" where
  "execFailed x argv out reason = answered (execEvent x ''failed'' reason argv) out 502 reason"

definition execAssertedHandler :: "doorLib \<Rightarrow> stepCtx \<Rightarrow> bytes \<Rightarrow> doorResult" where
  "execAssertedHandler lib x body =
     (case dlCommand lib body of
        None \<Rightarrow> execRefused x [] reasonExecRequestMalformed 400
      | Some argv \<Rightarrow>
          execRefused x argv reasonExecFirstHandOnly 403)"

record fileInfo =
  fiIsDir :: bool
  fiPerm :: nat
  fiUid :: "nat option"

text \<open>Mode 0700, as a number.\<close>

definition privateMode :: nat where
  "privateMode = 7 * 8 * 8"

definition CheckPrivateDir :: "nat \<Rightarrow> fileInfo option \<Rightarrow> bytes option" where
  "CheckPrivateDir self fi =
     (case fi of
        None \<Rightarrow> Some ''stat failed''
      | Some i \<Rightarrow>
          if \<not> fiIsDir i then Some ''not a directory''
          else if fiPerm i \<noteq> privateMode then Some ''mode is not 0700''
          else (case fiUid i of
                  Some u \<Rightarrow> if u \<noteq> self then Some ''not owned by this user'' else None
                | None \<Rightarrow> None))"

datatype ctx_state = CtxLive | CtxDeadline | CtxCancelled

definition ctxReason :: "ctx_state \<Rightarrow> bytes \<Rightarrow> bytes" where
  "ctxReason c fallback =
     (case c of CtxDeadline \<Rightarrow> reasonExecTimedOut | CtxCancelled \<Rightarrow> reasonExecCancelled
      | CtxLive \<Rightarrow> fallback)"

datatype exec_answer = RequestFails | NoAnswer ctx_state | ReadFails int ctx_state | ExecBody int bytes

definition maxExecRunResponse :: int where
  "maxExecRunResponse = 8 * 1048576"

text \<open>The checks on what the runtime answered, once a body of a good size is there.\<close>

definition execJudge :: "doorLib \<Rightarrow> stepCtx \<Rightarrow> bytes list \<Rightarrow> outward list \<Rightarrow> bytes \<Rightarrow> doorResult" where
  "execJudge lib x argv out data =
     (case dlExecResponse lib data of
        None \<Rightarrow> execFailed x argv out reasonExecResponseMalformed
      | Some r \<Rightarrow>
          (case xrExitCode r of
             None \<Rightarrow> execFailed x argv out reasonExecResponseMalformed
           | Some exit \<Rightarrow>
               (case decodeAttestation lib (xrRuntimeAttestation r) (ecRuntime (adExec (scAgent x))) of
                  Inl e \<Rightarrow> execFailed x argv out (attestText e)
                | Inr att \<Rightarrow>
                    if raCommand att \<noteq> argv
                    then execFailed x argv out reasonExecCommandMismatch
                    else if dlSum lib (xrOutput r) \<noteq> xrOutputSHA r
                    then execFailed x argv out reasonExecOutputHash
                    else answered ((execEvent x (if exit \<noteq> 0 then ''failed'' else ''succeeded'') '''' argv)
                           \<lparr>evExitCode := Some exit, evOutputSHA := xrOutputSHA r, evRuntimeAttestation := Some att\<rparr>)
                         out 200 (xrOutput r))))"

definition execSocket :: "bytes \<Rightarrow> AgentDef \<Rightarrow> bytes" where
  "execSocket override agent =
     (let u = execURLFor override agent in if has_prefix u UnixScheme then drop (length UnixScheme) u else u)"

text \<open>The checks before the runtime is asked, in the code's order.\<close>

definition execGate ::
  "doorLib \<Rightarrow> stepCtx \<Rightarrow> bytes \<Rightarrow> nat \<Rightarrow> (bytes \<Rightarrow> fileInfo option) \<Rightarrow> bytes list \<Rightarrow> doorResult option" where
  "execGate lib x override self stat argv =
     (if \<not> Declared (adExec (scAgent x))
      then Some (execRefused x argv reasonExecRunNotDeclared 403)
      else if \<not> Allows (adExec (scAgent x)) argv
      then Some (execRefused x argv reasonExecNotAllowlisted 403)
      else if \<not> argvRecordable argv
      then Some (execRefused x argv reasonExecCommandUnrecordable 403)
      else if CheckPrivateDir self (stat (Dir (execSocket override (scAgent x)))) \<noteq> None
      then Some (execFailed x argv [] reasonExecSocketDir)
      else if dlBuildCommand lib argv = None
      then Some (execFailed x argv [] reasonExecRequestUnbuildable)
      else None)"

text \<open>The answer of the runtime: \<open>argv\<close> has gone out, unless the request could not be made.\<close>

definition execAnswer :: "doorLib \<Rightarrow> stepCtx \<Rightarrow> bytes list \<Rightarrow> outward list \<Rightarrow> exec_answer \<Rightarrow> doorResult" where
  "execAnswer lib x argv out a =
     (case a of
        RequestFails \<Rightarrow> execFailed x argv [] reasonExecUnreachable
      | NoAnswer c \<Rightarrow> execFailed x argv out (ctxReason c reasonExecUnreachable)
      | ReadFails code c \<Rightarrow>
          if code < 200 \<or> code \<ge> 300 then execFailed x argv out reasonExecErrorStatus
          else execFailed x argv out (ctxReason c reasonExecUnreachable)
      | ExecBody code data \<Rightarrow>
          if code < 200 \<or> code \<ge> 300 then execFailed x argv out reasonExecErrorStatus
          else if int (length data) > maxExecRunResponse then execFailed x argv out reasonExecResponseTooLarge
          else execJudge lib x argv out data)"

definition execRunHandler ::
  "doorLib \<Rightarrow> stepCtx \<Rightarrow> bytes \<Rightarrow> nat \<Rightarrow> (bytes \<Rightarrow> fileInfo option) \<Rightarrow> (bytes list \<Rightarrow> exec_answer) \<Rightarrow> bytes \<Rightarrow> doorResult" where
  "execRunHandler lib x override self stat runtime body =
     (case dlCommand lib body of
        None \<Rightarrow> execRefused x [] reasonExecRequestMalformed 400
      | Some argv \<Rightarrow>
          (case execGate lib x override self stat argv of
             Some r \<Rightarrow> r
           | None \<Rightarrow> execAnswer lib x argv [ExecOut (execSocket override (scAgent x)) argv] (runtime argv)))"

section \<open>The model door\<close>

definition reasonModelRequestMalformed :: bytes where
  "reasonModelRequestMalformed = ''model request malformed''"

definition reasonModelRequestUnbuildable :: bytes where
  "reasonModelRequestUnbuildable = ''model request could not be rebuilt''"

definition reasonModelRouteMalformed :: bytes where
  "reasonModelRouteMalformed = ''model route endpoint malformed''"

record Route =
  rtEndpoint :: bytes
  rtModel :: bytes
  rtAPIKey :: bytes

text \<open>
  \<open>gateway.Resolve\<close>, with the environment and the role's provisioned key as arguments; the direct
  bearer of a variable is \<open>StaticEnv.Resolve\<close> on a ref with no grant.
\<close>

definition staticEnvBearer :: "(bytes \<Rightarrow> bytes) \<Rightarrow> bytes \<Rightarrow> bytes option" where
  "staticEnvBearer env name = (if name = '''' \<or> env name = '''' then None else Some (env name))"

definition Resolve :: "GatewayConfig \<Rightarrow> (bytes \<Rightarrow> bytes) \<Rightarrow> bytes \<Rightarrow> bytes \<Rightarrow> Route option" where
  "Resolve cfg env logical roleKey =
     (let name = (if logical = '''' then gwDefaultModel cfg else logical)
      in case map_of (gwModels cfg) name of
           None \<Rightarrow> None
         | Some route \<Rightarrow>
             (case (if roleKey = '''' then staticEnvBearer env (mrAPIKeyEnv route) else Some roleKey) of
                None \<Rightarrow> None
              | Some key \<Rightarrow> Some \<lparr>rtEndpoint = mrEndpoint route, rtModel = mrModel route, rtAPIKey = key\<rparr>))"

text \<open>
  What the reverse proxy meets: a round trip that fails, or a response with its status, its content
  type and a body that may fail to be read.
\<close>

datatype model_answer = RoundTripFails | ModelResponse int bytes "bytes option"

definition maxResp :: int where
  "maxResp = 10 * 1048576"

text \<open>\<open>strings.Contains\<close>.\<close>

fun containsSub :: "bytes \<Rightarrow> bytes \<Rightarrow> bool" where
  "containsSub s p = (has_prefix s p \<or> (case s of [] \<Rightarrow> False | c # cs \<Rightarrow> containsSub cs p))"

definition modelEvent :: "stepCtx \<Rightarrow> bytes \<Rightarrow> bytes \<Rightarrow> bytes \<Rightarrow> Event" where
  "modelEvent x status reason model =
     (event ''model_call'')\<lparr>evAgent := adName (scAgent x), evStatus := status, evReason := reason, evModel := model,
        evBinding := scBind x\<rparr>"

text \<open>\<open>http.StatusText\<close> is an argument; a non-2xx answer is relayed with the upstream's own status.\<close>

definition modifyResponse ::
  "doorLib \<Rightarrow> (int \<Rightarrow> bytes) \<Rightarrow> stepCtx \<Rightarrow> bytes \<Rightarrow> outward list \<Rightarrow> int \<Rightarrow> bytes \<Rightarrow> bytes option \<Rightarrow> doorResult" where
  "modifyResponse lib statusText x logical out code contentType body =
     (if code < 200 \<or> code \<ge> 300 then
        answered (modelEvent x ''refused''
            (if code = 429 then ''budget'' else ''upstream '' @ showInt code @ '' '' @ statusText code) logical) out code []
      else if containsSub contentType ''text/event-stream''
      then answered (modelEvent x ''started'' '''' logical) out code []
      else (case body of
              None \<Rightarrow> answered (modelEvent x ''failed'' ''upstream read failed'' logical) out 502 ''upstream error''
            | Some rb \<Rightarrow>
                if int (length rb) > maxResp
                then answered (modelEvent x ''failed'' ''upstream response too large'' logical) out 502 ''upstream error''
                else (case (case dlUsage lib rb of None \<Rightarrow> (None, None) | Some u \<Rightarrow> u) of
                        (pt, ct) \<Rightarrow>
                          answered ((modelEvent x ''succeeded'' '''' logical)\<lparr>evPromptTokens := pt, evCompletionTokens := ct\<rparr>)
                            out code rb)))"

definition modelHandler ::
  "doorLib \<Rightarrow> (int \<Rightarrow> bytes) \<Rightarrow> GatewayConfig \<Rightarrow> (bytes \<Rightarrow> bytes) \<Rightarrow> bytes \<Rightarrow> stepCtx \<Rightarrow> (bytes \<Rightarrow> bytes \<Rightarrow> model_answer) \<Rightarrow>
   bytes \<Rightarrow> doorResult" where
  "modelHandler lib statusText cfg env roleKey x upstream body =
     (case dlModel lib body of
        None \<Rightarrow> answered (modelEvent x ''refused'' reasonModelRequestMalformed '''') [] 400 reasonModelRequestMalformed
      | Some logical \<Rightarrow>
          let effective = (if adModel (scAgent x) = '''' then gwDefaultModel cfg else adModel (scAgent x))
          in if logical = '''' \<or> logical \<noteq> effective then
               let echoed = capRunes logical 200
               in answered (modelEvent x ''refused'' (''model '' @ dlQuote lib echoed @ '' is not allowed for this agent'') echoed)
                    [] 403 ''model not allowed''
             else
               (case Resolve cfg env logical roleKey of
                  None \<Rightarrow> answered (modelEvent x ''failed'' ''model route not resolved'' logical) [] 502 ''model route not resolved''
                | Some route \<Rightarrow>
                    (case dlRebuild lib body (rtModel route) of
                       None \<Rightarrow>
                         answered (modelEvent x ''failed'' reasonModelRequestUnbuildable logical) [] 400
                           reasonModelRequestUnbuildable
                     | Some newBody \<Rightarrow>
                         (case dlURL lib (rtEndpoint route) of
                            None \<Rightarrow>
                              answered (modelEvent x ''failed'' reasonModelRouteMalformed logical) [] 502
                                reasonModelRouteMalformed
                          | Some (scheme, host) \<Rightarrow>
                              if scheme = '''' \<or> host = '''' then
                                answered (modelEvent x ''failed'' reasonModelRouteMalformed logical) [] 502
                                  reasonModelRouteMalformed
                              else
                                let out = [ModelOut (rtEndpoint route) (rtAPIKey route) newBody]
                                in (case upstream (rtEndpoint route) newBody of
                                      RoundTripFails \<Rightarrow>
                                        answered (modelEvent x ''failed'' ''model call did not complete'' logical) out 502 ''upstream error''
                                    | ModelResponse code contentType rb \<Rightarrow>
                                        modifyResponse lib statusText x logical out code contentType rb)))))"

section \<open>The spawn door\<close>

definition reasonSpawnUnavailable :: bytes where
  "reasonSpawnUnavailable = ''spawn is not available to this run''"

definition reasonSpawnNotAllowed :: bytes where
  "reasonSpawnNotAllowed = ''spawn target is not on the agent's may_spawn list''"

definition reasonSpawnDepth :: bytes where
  "reasonSpawnDepth = ''spawn would exceed max_depth''"

definition reasonSpawnParallel :: bytes where
  "reasonSpawnParallel = ''spawn would exceed max_parallel''"

definition reasonSpawnTotal :: bytes where
  "reasonSpawnTotal = ''spawn would exceed max_total_spawns''"

definition reasonSpawnIncomplete :: bytes where
  "reasonSpawnIncomplete = ''spawn did not complete''"

definition reasonSpawnRequestMalformed :: bytes where
  "reasonSpawnRequestMalformed = ''spawn request malformed''"

definition spawnEvent :: "stepCtx \<Rightarrow> bytes \<Rightarrow> bytes \<Rightarrow> bytes \<Rightarrow> bytes \<Rightarrow> Event" where
  "spawnEvent x status reason childRole childWorkflow =
     (event ''spawn'')\<lparr>evAgent := adName (scAgent x), evStatus := status, evReason := reason, evChildRole := childRole,
        evChildWorkflow := childWorkflow, evDepth := bdDepth (scBind x) + 1, evBinding := scBind x\<rparr>"

definition spawnRefused :: "stepCtx \<Rightarrow> spawnRequest \<Rightarrow> bytes \<Rightarrow> doorResult" where
  "spawnRefused x req reason =
     answered (spawnEvent x ''refused'' reason (capRunes (sqRole req) 200) (capRunes (sqWorkflow req) 200)) [] 403 reason"

text \<open>What the door decides before it looks at the caps: a refusal, or the request to reserve a slot for.\<close>

definition spawnAuthorize :: "doorLib \<Rightarrow> stepCtx \<Rightarrow> bool \<Rightarrow> bytes \<Rightarrow> doorResult + spawnRequest" where
  "spawnAuthorize lib x hasSpawner body =
     (case dlSpawn lib body of
        None \<Rightarrow> Inl (answered (spawnEvent x ''refused'' reasonSpawnRequestMalformed '''' '''') [] 400 reasonSpawnRequestMalformed)
      | Some req \<Rightarrow>
          if \<not> hasSpawner then Inl (spawnRefused x req reasonSpawnUnavailable)
          else if \<not> MaySpawnTarget (scAgent x) (sqRole req) (sqWorkflow req)
          then Inl (spawnRefused x req reasonSpawnNotAllowed)
          else Inr req)"

text \<open>The check under the lock; \<^const>\<open>None\<close> takes a slot of both counters.\<close>

definition spawnRoom :: "SpawnPolicy \<Rightarrow> int \<Rightarrow> int \<Rightarrow> int \<Rightarrow> bytes option" where
  "spawnRoom pol depth spawning started =
     (if depth > polMaxDepth pol then Some reasonSpawnDepth
      else if spawning \<ge> polMaxParallel pol then Some reasonSpawnParallel
      else if started \<ge> polMaxTotalSpawns pol then Some reasonSpawnTotal
      else None)"

text \<open>The one event of a child run that is over, and the answer.\<close>

definition spawnFinished :: "stepCtx \<Rightarrow> spawnRequest \<Rightarrow> SpawnResult \<Rightarrow> bool \<Rightarrow> doorResult" where
  "spawnFinished x req res failed =
     (let role = capRunes (sqRole req) 200; workflow = capRunes (sqWorkflow req) 200;
          out = [SpawnOut (sqRole req) (sqWorkflow req) (sqInput req)]
      in if failed then
           answered ((spawnEvent x ''failed'' reasonSpawnIncomplete role workflow)
               \<lparr>evChildRunID := snChildRunID res, evChildConfiner := snChildConfiner res,
                evChildConfinerOpts := snChildConfinerOpts res\<rparr>) out 502 reasonSpawnIncomplete
         else
           let status = (if snStatus res = ''succeeded'' \<or> snStatus res = ''failed'' \<or> snStatus res = ''refused''
                         then snStatus res else ''failed'')
           in answered ((spawnEvent x status (capRunes (snReason res) 200) role workflow)
                \<lparr>evChildRunID := snChildRunID res, evOutputSHA := snOutputSHA res, evChildConfiner := snChildConfiner res,
                 evChildConfinerOpts := snChildConfinerOpts res\<rparr>) out (if status = ''refused'' then 403 else 200) status)"

section \<open>One event per call\<close>

definition oneEvent :: "stepCtx \<Rightarrow> bytes \<Rightarrow> doorResult \<Rightarrow> bool" where
  "oneEvent x ty r \<longleftrightarrow>
     (\<exists>e. drEvents r = [e] \<and> evType e = ty \<and> evBinding e = scBind x \<and> evAgent e = adName (scAgent x))"

lemma oneEvent_answered [simp]:
  "oneEvent x ty (answered e out code reply) \<longleftrightarrow>
     evType e = ty \<and> evBinding e = scBind x \<and> evAgent e = adName (scAgent x)"
  by (simp add: oneEvent_def answered_def)

lemma door_event_simps [simp]:
  "evType (toolEvent lib x name args status reason) = ''tool_call''"
  "evBinding (toolEvent lib x name args status reason) = scBind x"
  "evAgent (toolEvent lib x name args status reason) = adName (scAgent x)"
  "evType (execEvent x status reason argv) = ''exec''" "evBinding (execEvent x status reason argv) = scBind x"
  "evAgent (execEvent x status reason argv) = adName (scAgent x)"
  "evType (modelEvent x status reason m) = ''model_call''" "evBinding (modelEvent x status reason m) = scBind x"
  "evAgent (modelEvent x status reason m) = adName (scAgent x)"
  "evType (spawnEvent x status reason cr cw) = ''spawn''" "evBinding (spawnEvent x status reason cr cw) = scBind x"
  "evAgent (spawnEvent x status reason cr cw) = adName (scAgent x)"
  by (simp_all add: toolEvent_def execEvent_def modelEvent_def spawnEvent_def event_def)

lemma toolsCall_one: "oneEvent x ''tool_call'' (toolsCall lib x ask name args)"
  by (simp add: toolsCall_def forward_def Let_def split: option.splits tool_answer.splits prod.splits)

lemma execAsserted_one: "oneEvent x ''exec'' (execAssertedHandler lib x body)"
  by (simp add: execAssertedHandler_def execRefused_def split: option.splits)

lemma exec_helpers_one [simp]:
  "oneEvent x ''exec'' (execRefused x argv reason code)" "oneEvent x ''exec'' (execFailed x argv out reason)"
  by (simp_all add: execRefused_def execFailed_def)

lemma execJudge_one [simp]: "oneEvent x ''exec'' (execJudge lib x argv out data)"
  unfolding execJudge_def by (simp split: option.split sum.split)

lemma execGate_one: "execGate lib x override self stat argv = Some r \<Longrightarrow> oneEvent x ''exec'' r"
  by (auto simp: execGate_def split: if_splits)

lemma execAnswer_one [simp]: "oneEvent x ''exec'' (execAnswer lib x argv out a)"
  unfolding execAnswer_def by (simp split: exec_answer.split)

lemma execRun_one: "oneEvent x ''exec'' (execRunHandler lib x override self stat runtime body)"
  unfolding execRunHandler_def using execGate_one by (simp split: option.split)

lemma modifyResponse_one [simp]:
  "oneEvent x ''model_call'' (modifyResponse lib st x logical out code contentType body)"
  unfolding modifyResponse_def by (simp split: option.split prod.split)

lemma modelHandler_one: "oneEvent x ''model_call'' (modelHandler lib st cfg env key x up body)"
  unfolding modelHandler_def Let_def by (simp split: option.split model_answer.split prod.split)

lemma spawnAuthorize_one: "spawnAuthorize lib x sp body = Inl r \<Longrightarrow> oneEvent x ''spawn'' r"
  by (auto simp: spawnAuthorize_def spawnRefused_def split: option.splits if_splits)

lemma spawnRefused_one: "oneEvent x ''spawn'' (spawnRefused x req reason)"
  by (simp add: spawnRefused_def)

lemma spawnFinished_one: "oneEvent x ''spawn'' (spawnFinished x req res failed)"
  by (simp add: spawnFinished_def Let_def)

section \<open>What reaches the outside\<close>

lemma answered_simps [simp]:
  "drEvents (answered e out code reply) = [e]" "drOut (answered e out code reply) = out"
  "drCode (answered e out code reply) = code" "drText (answered e out code reply) = reply"
  by (simp_all add: answered_def)

lemma exec_helper_simps [simp]:
  "drOut (execRefused x argv reason code) = []" "drOut (execFailed x argv out reason) = out"
  "drEvents (execRefused x argv reason code) = [execEvent x ''refused'' reason argv]"
  "drEvents (execFailed x argv out reason) = [execEvent x ''failed'' reason argv]"
  by (simp_all add: execRefused_def execFailed_def)

lemma execJudge_out [simp]: "drOut (execJudge lib x argv out data) = out"
  by (simp add: execJudge_def split: option.splits sum.splits)

lemma execGate_kept: "execGate lib x override self stat argv = Some r \<Longrightarrow> drOut r = []"
  by (auto simp: execGate_def split: if_splits)

lemma execGate_open:
  "execGate lib x override self stat argv = None \<longleftrightarrow>
     Declared (adExec (scAgent x)) \<and> Allows (adExec (scAgent x)) argv \<and> argvRecordable argv
     \<and> CheckPrivateDir self (stat (Dir (execSocket override (scAgent x)))) = None \<and> dlBuildCommand lib argv \<noteq> None"
  unfolding execGate_def by simp

lemma execAnswer_out: "drOut (execAnswer lib x argv out a) = (if a = RequestFails then [] else out)"
  unfolding execAnswer_def by (simp split: exec_answer.split)

lemma execRun_out:
  assumes "call \<in> set (drOut (execRunHandler lib x override self stat runtime body))"
  obtains argv where "dlCommand lib body = Some argv" "execGate lib x override self stat argv = None"
    "call = ExecOut (execSocket override (scAgent x)) argv"
  using assms execGate_kept
  by (auto simp: execRunHandler_def execAnswer_out split: option.splits if_splits)

lemma decodeAttestation_valid:
  "decodeAttestation lib raw declared = Inr a \<Longrightarrow> validAttestation a declared"
  by (auto simp: decodeAttestation_def split: option.splits if_splits)

lemma exec_event_plain [simp]:
  "evStatus (execEvent x status reason argv) = status" "evRuntimeAttestation (execEvent x status reason argv) = None"
  "evCommand (execEvent x status reason argv) = argv"
  by (simp_all add: execEvent_def event_def)

lemma execJudge_success:
  assumes "drEvents (execJudge lib x argv out data) = [e]" "evStatus e = ''succeeded'' \<or> evRuntimeAttestation e \<noteq> None"
  obtains r att where "dlExecResponse lib data = Some r" "raCommand att = argv" "dlSum lib (xrOutput r) = xrOutputSHA r"
    "decodeAttestation lib (xrRuntimeAttestation r) (ecRuntime (adExec (scAgent x))) = Inr att"
    "evRuntimeAttestation e = Some att" "evCommand e = argv" "evOutputSHA e = xrOutputSHA r" "evExitCode e = xrExitCode r"
    "evStatus e = ''succeeded'' \<longleftrightarrow> xrExitCode r = Some 0"
proof -
  have no: "drEvents (execFailed x argv out reason) \<noteq> [e]" for reason using assms(2) by auto
  have j: "drEvents (execJudge lib x argv out data) = [e]" by (rule assms(1))
  obtain r where r: "dlExecResponse lib data = Some r"
    using j no by (cases "dlExecResponse lib data") (simp_all only: execJudge_def option.case)
  obtain exit where x: "xrExitCode r = Some exit"
    using j no r by (cases "xrExitCode r") (simp_all only: execJudge_def option.case)
  obtain att where a: "decodeAttestation lib (xrRuntimeAttestation r) (ecRuntime (adExec (scAgent x))) = Inr att"
    using j no r x
    by (cases "decodeAttestation lib (xrRuntimeAttestation r) (ecRuntime (adExec (scAgent x)))")
       (simp_all only: execJudge_def option.case sum.case)
  note j' = j [unfolded execJudge_def r x a option.case sum.case]
  have c1: "raCommand att = argv" using j' no by (cases "raCommand att = argv") (simp_all only: if_P if_not_P simp_thms)
  have c2: "dlSum lib (xrOutput r) = xrOutputSHA r"
    using j' no by (cases "dlSum lib (xrOutput r) = xrOutputSHA r") (simp_all only: c1 if_True if_False simp_thms)
  have "e = (execEvent x (if exit \<noteq> 0 then ''failed'' else ''succeeded'') '''' argv)
      \<lparr>evExitCode := Some exit, evOutputSHA := xrOutputSHA r, evRuntimeAttestation := Some att\<rparr>"
    using j' by (simp only: c1 c2 if_False simp_thms answered_simps list.inject)
  then show ?thesis by (intro that [OF r c1 c2 a]) (simp_all add: x)
qed

lemma execAnswer_success:
  assumes "drEvents (execAnswer lib x argv out a) = [e]" "evStatus e = ''succeeded'' \<or> evRuntimeAttestation e \<noteq> None"
  obtains code data where "a = ExecBody code data" "200 \<le> code" "code < 300" "int (length data) \<le> maxExecRunResponse"
    "drEvents (execJudge lib x argv out data) = [e]"
  using assms by (auto simp: execAnswer_def split: exec_answer.splits if_splits)

lemma execGate_plain:
  "execGate lib x override self stat argv = Some r \<Longrightarrow> drEvents r = [e] \<Longrightarrow>
   evStatus e \<noteq> ''succeeded'' \<and> evRuntimeAttestation e = None"
  by (auto simp: execGate_def split: if_splits)

lemma execRun_success:
  assumes "drEvents (execRunHandler lib x override self stat runtime body) = [e]"
    "evStatus e = ''succeeded'' \<or> evRuntimeAttestation e \<noteq> None"
  obtains argv code data where "dlCommand lib body = Some argv" "execGate lib x override self stat argv = None"
    "runtime argv = ExecBody code data" "200 \<le> code" "code < 300" "int (length data) \<le> maxExecRunResponse"
    "drEvents (execJudge lib x argv [ExecOut (execSocket override (scAgent x)) argv] data) = [e]"
proof (cases "dlCommand lib body")
  case None
  with assms show ?thesis by (auto simp: execRunHandler_def)
next
  case (Some argv)
  show ?thesis
  proof (cases "execGate lib x override self stat argv")
    case None
    with Some assms(1) have "drEvents (execAnswer lib x argv [ExecOut (execSocket override (scAgent x)) argv] (runtime argv)) = [e]"
      by (simp add: execRunHandler_def)
    from execAnswer_success [OF this assms(2)] that [OF Some None] show ?thesis by metis
  next
    case (Some r)
    with \<open>dlCommand lib body = Some argv\<close> assms execGate_plain [OF Some] show ?thesis
      by (auto simp: execRunHandler_def)
  qed
qed

lemma toolsCall_out:
  assumes "call \<in> set (drOut (toolsCall lib x ask name args))"
  obtains rid where "call = ToolOut rid name args" "map_of (scMirrored x) name = Some rid" "allows (scAllow x) rid name"
  using assms
  by (auto simp: toolsCall_def forward_def Let_def split: option.splits if_splits tool_answer.splits prod.splits)

lemma modifyResponse_out: "drOut (modifyResponse lib st x logical out code contentType body) = out"
  unfolding modifyResponse_def by (simp split: option.split prod.split)

lemma takeRuntimeAttestation_some:
  "takeRuntimeAttestation lib result declared = (st, Some a, dropped, err) \<Longrightarrow>
   declared \<noteq> '''' \<and> validAttestation a declared \<and> err = None"
  by (auto simp: takeRuntimeAttestation_def Let_def dest: decodeAttestation_valid split: if_splits option.splits sum.splits)

lemma toolsCall_attested:
  assumes "drEvents (toolsCall lib x ask name args) = [e]" "evRuntimeAttestation e = Some a"
  obtains rid where "trRuntime (resourceAt (scTools x) rid) \<noteq> ''''" "validAttestation a (trRuntime (resourceAt (scTools x) rid))"
    "evResourcesTouched e = [rid]"
  using assms
  by (auto simp: toolsCall_def forward_def toolEvent_def event_def Let_def
      split: option.splits if_splits tool_answer.splits prod.splits dest!: takeRuntimeAttestation_some)

lemma capRunes_runes: "runesOf (capRunes s n) = take n (runesOf s)"
proof (cases "length (runesOf s) > n")
  case True
  have "list_all validRune (take n (runesOf s))"
    using runesOf_valid [of s] by (auto simp: list_all_iff dest: in_set_takeD)
  with True show ?thesis by (simp add: capRunes_def Let_def runesOf_encode)
qed (simp add: capRunes_def Let_def)

section \<open>Properties\<close>

text \<open>
  C11: the exec door runs only what the operator allowed. Whatever the agent sends and the runtime
  answers, a command goes out only when the agent declares exec, the command begins with an
  allowlisted executable and its required arguments, it fits the ledger's bounds, and the runtime's
  socket stands in a directory of mode 0700 owned by this user; and what goes out is the very argv of
  the request.
\<close>

theorem exec_runs_only_what_is_allowed:
  assumes "call \<in> set (drOut (execRunHandler lib x override self stat runtime body))"
  shows "\<exists>argv entry rest i. call = ExecOut (execSocket override (scAgent x)) argv \<and> dlCommand lib body = Some argv
    \<and> entry \<in> set (ecAllow (adExec (scAgent x))) \<and> argv = eeExe entry # eeArgsPrefix entry @ rest
    \<and> length argv \<le> 32 \<and> list_all (\<lambda>a. length (runesOf a) \<le> 200 \<and> \<not> hasControl a) argv
    \<and> stat (Dir (execSocket override (scAgent x))) = Some i \<and> fiIsDir i \<and> fiPerm i = 448 \<and> fiUid i \<in> {None, Some self}"
proof -
  obtain argv where a: "dlCommand lib body = Some argv" "execGate lib x override self stat argv = None"
    "call = ExecOut (execSocket override (scAgent x)) argv" by (rule execRun_out [OF assms])
  from a(2) have g: "Allows (adExec (scAgent x)) argv" "argvRecordable argv"
    "CheckPrivateDir self (stat (Dir (execSocket override (scAgent x)))) = None" by (simp_all add: execGate_open)
  from g(2) have ne: "argv \<noteq> []" and rec: "length argv \<le> 32" "list_all (\<lambda>a. length (runesOf a) \<le> 200 \<and> \<not> hasControl a) argv"
    by (auto simp: argvRecordable_def textOK_def maxAttestedArgv_def maxAttestedRunes_def list_all_iff)
  from g(1) ne obtain entry rest where e: "entry \<in> set (ecAllow (adExec (scAgent x)))" "argv = eeExe entry # eeArgsPrefix entry @ rest"
    by (auto simp: Allows_def allowsIn_iff)
  from g(3) obtain i where "stat (Dir (execSocket override (scAgent x))) = Some i" "fiIsDir i" "fiPerm i = 448" "fiUid i \<in> {None, Some self}"
    by (auto simp: CheckPrivateDir_def privateMode_def split: option.splits if_splits)
  with a rec e show ?thesis by blast
qed

text \<open>
  C12: a recorded success is first-hand. When the exec door records a command as succeeded, the event
  has exit code 0, the runtime answered that request with exit code 0 and a well-formed attestation of the declared
  runtime that names exactly the recorded argv, and the recorded output hash is the hash of the
  output returned; nothing else is ever recorded as a success.
\<close>

theorem exec_success_is_first_hand:
  assumes "e \<in> set (drEvents (execRunHandler lib x override self stat runtime body))" "evStatus e = ''succeeded''"
  shows "\<exists>argv code data r att. dlCommand lib body = Some argv \<and> runtime argv = ExecBody code data
    \<and> dlExecResponse lib data = Some r \<and> xrExitCode r = Some 0 \<and> evExitCode e = Some 0 \<and> evCommand e = argv
    \<and> evRuntimeAttestation e = Some att \<and> validAttestation att (ecRuntime (adExec (scAgent x))) \<and> raCommand att = argv
    \<and> evOutputSHA e = dlSum lib (xrOutput r)"
proof -
  have one: "drEvents (execRunHandler lib x override self stat runtime body) = [e]"
    using execRun_one [of x lib override self stat runtime body] assms(1) by (auto simp: oneEvent_def)
  obtain argv code data where a: "dlCommand lib body = Some argv" "runtime argv = ExecBody code data"
    "drEvents (execJudge lib x argv [ExecOut (execSocket override (scAgent x)) argv] data) = [e]"
    by (rule execRun_success [OF one disjI1 [OF assms(2)]])
  obtain r att where "dlExecResponse lib data = Some r" "raCommand att = argv" "dlSum lib (xrOutput r) = xrOutputSHA r"
    "decodeAttestation lib (xrRuntimeAttestation r) (ecRuntime (adExec (scAgent x))) = Inr att"
    "evRuntimeAttestation e = Some att" "evCommand e = argv" "evOutputSHA e = xrOutputSHA r" "evExitCode e = xrExitCode r"
    "evStatus e = ''succeeded'' \<longleftrightarrow> xrExitCode r = Some 0"
    by (rule execJudge_success [OF a(3) disjI1 [OF assms(2)]]) blast
  with a assms(2) decodeAttestation_valid show ?thesis by metis
qed

text \<open>
  C13: a tool call reaches an upstream exactly within the grants. After a start, a call with any name
  and arguments goes out to a resource exactly when one of the agent's grants on that resource covers
  the name, the resource is in the catalogue and its upstream exposed the tool at the start; otherwise
  nothing goes out.
\<close>

theorem tool_call_stays_within_the_grants:
  assumes "GatewayStart tools override drawn up listen agent = Inr (url, token, allow, m)"
    and "x = \<lparr>scBind = bind, scAgent = agent, scTools = tools, scAllow = allow, scMirrored = m\<rparr>"
  shows "set (drOut (toolsCall lib x ask name args))
    = {ToolOut r name args | r. (\<exists>g \<in> set (adTools agent). tgResource g = r \<and> covers tools g name)
                                \<and> map_of tools r \<noteq> None \<and> exposedBy up r name}"
proof -
  note p = GatewayStart_parts [OF assms(1)]
  have own: "map_of m name = Some r \<longleftrightarrow> (\<exists>g \<in> set (adTools agent). tgResource g = r \<and> covers tools g name)
      \<and> map_of tools r \<noteq> None \<and> exposedBy up r name" for r by (rule mirror_granted [OF assms(1)])
  have "set (drOut (toolsCall lib x ask name args)) = {ToolOut r name args | r. map_of m name = Some r}"
  proof (cases "map_of m name")
    case None
    then show ?thesis using assms(2) by (simp add: toolsCall_def)
  next
    case (Some rid)
    then have "allows allow rid name"
      using mirrorGrants_owner [OF p(3), of name rid] by auto
    with Some assms(2) show ?thesis
      by (simp add: toolsCall_def forward_def Let_def split: tool_answer.split prod.split)
  qed
  then show ?thesis unfolding own .
qed

text \<open>
  The model door only ever asks for the agent's own model. A request goes out only when it names
  the agent's configured model (or the default where the agent has none), to the endpoint the
  catalogue gives for it, with the role's own key or the key of the route's variable, never without
  one, and with the body rebuilt for the route's model.
\<close>

theorem model_call_uses_the_configured_route:
  assumes "call \<in> set (drOut (modelHandler lib statusText cfg env roleKey x upstream body))"
  shows "\<exists>logical route key newBody. dlModel lib body = Some logical
    \<and> logical = (if adModel (scAgent x) = '''' then gwDefaultModel cfg else adModel (scAgent x))
    \<and> map_of (gwModels cfg) logical = Some route \<and> dlRebuild lib body (mrModel route) = Some newBody
    \<and> call = ModelOut (mrEndpoint route) key newBody
    \<and> key = (if roleKey = '''' then env (mrAPIKeyEnv route) else roleKey) \<and> key \<noteq> ''''"
proof -
  from assms obtain logical where l: "dlModel lib body = Some logical" "logical \<noteq> ''''"
    "logical = (if adModel (scAgent x) = '''' then gwDefaultModel cfg else adModel (scAgent x))"
    by (auto simp: modelHandler_def Let_def split: option.splits if_splits)
  from assms l obtain rt where r: "Resolve cfg env logical roleKey = Some rt"
    by (cases "Resolve cfg env logical roleKey") (auto simp: modelHandler_def Let_def)
  from r l(2) obtain route where rt: "map_of (gwModels cfg) logical = Some route"
    "rtEndpoint rt = mrEndpoint route" "rtModel rt = mrModel route"
    "rtAPIKey rt = (if roleKey = '''' then env (mrAPIKeyEnv route) else roleKey)" "rtAPIKey rt \<noteq> ''''"
    by (auto simp: Resolve_def staticEnvBearer_def Let_def split: option.splits if_splits)
  from assms l r obtain newBody where "dlRebuild lib body (rtModel rt) = Some newBody"
    "call = ModelOut (rtEndpoint rt) (rtAPIKey rt) newBody"
    by (auto simp: modelHandler_def Let_def modifyResponse_out split: option.splits if_splits model_answer.splits)
  with l rt show ?thesis by metis
qed

lemma validAttestation_bounds:
  assumes "validAttestation a declared"
  shows "raRuntime a = declared \<and> declared \<in> {''refbridge'', ''refexec''} \<and> argvRecordable (raCommand a)
    \<and> textOK (raSession a) \<and> 1 \<le> raPID a \<and> 1 \<le> raSpawn a \<and> length (raEnvNames a) \<le> 64 \<and> length (raConfinerOpts a) \<le> 16
    \<and> (declared = ''refexec'' \<longrightarrow> raCredentialEnv a = '''')"
  using assms
  by (auto simp: validAttestation_def argvRecordable_def knownRuntimes_def maxAttestedEnvNames_def maxAttestedConfinerOpts_def
      split: if_splits)

text \<open>
  What a runtime may put in the ledger is bounded and solicited. An attestation on an event of the
  tool or the exec door comes from a runtime the operator declared for that resource or agent, names
  that runtime, and keeps within the caps: at most 32 arguments and a session id of at most 200 runes
  each without control characters, 64 variable names and 16 confiner options, a positive pid and spawn
  count, and no credential variable from the exec runtime.
\<close>

theorem recorded_attestation_is_declared_and_bounded:
  assumes "e \<in> set (drEvents (toolsCall lib x ask name args)) \<union> set (drEvents (execRunHandler lib x override self stat runtime body))"
    and "evRuntimeAttestation e = Some a"
  shows "raRuntime a \<in> insert (ecRuntime (adExec (scAgent x))) (trRuntime ` resourceAt (scTools x) ` set (evResourcesTouched e))
    \<and> raRuntime a \<in> {''refbridge'', ''refexec''} \<and> argvRecordable (raCommand a) \<and> textOK (raSession a)
    \<and> 1 \<le> raPID a \<and> 1 \<le> raSpawn a \<and> length (raEnvNames a) \<le> 64 \<and> length (raConfinerOpts a) \<le> 16
    \<and> (raRuntime a = ''refexec'' \<longrightarrow> raCredentialEnv a = '''')"
  using assms(1)
proof
  assume "e \<in> set (drEvents (toolsCall lib x ask name args))"
  then have "drEvents (toolsCall lib x ask name args) = [e]"
    using toolsCall_one [of x lib ask name args] by (auto simp: oneEvent_def)
  then obtain rid where "validAttestation a (trRuntime (resourceAt (scTools x) rid))" "evResourcesTouched e = [rid]"
    by (rule toolsCall_attested [OF _ assms(2)])
  with validAttestation_bounds show ?thesis by force
next
  assume "e \<in> set (drEvents (execRunHandler lib x override self stat runtime body))"
  then have one: "drEvents (execRunHandler lib x override self stat runtime body) = [e]"
    using execRun_one [of x lib override self stat runtime body] by (auto simp: oneEvent_def)
  have some: "evRuntimeAttestation e \<noteq> None" using assms(2) by simp
  obtain argv data where j: "drEvents (execJudge lib x argv [ExecOut (execSocket override (scAgent x)) argv] data) = [e]"
    by (rule execRun_success [OF one disjI2 [OF some]])
  obtain att and r :: execRunResponse where "decodeAttestation lib (xrRuntimeAttestation r) (ecRuntime (adExec (scAgent x))) = Inr att"
    "evRuntimeAttestation e = Some att" by (rule execJudge_success [OF j disjI2 [OF some]]) blast
  with assms(2) have "validAttestation a (ecRuntime (adExec (scAgent x)))" using decodeAttestation_valid by auto
  from validAttestation_bounds [OF this] show ?thesis by auto
qed

lemma runesOf_Nil [simp]: "runesOf [] = []"
  by (simp add: runesOf_def)

lemma event_text_simps:
  "evArtifact (toolEvent lib x n args status rs) = []" "evModel (modelEvent x status rs m) = m"
  "evChildRole (spawnEvent x status rs cr cw) = cr" "evChildWorkflow (spawnEvent x status rs cr cw) = cw"
  "evReason (spawnEvent x status rs cr cw) = rs"
  by (simp_all add: toolEvent_def modelEvent_def spawnEvent_def event_def)

lemma preview_bound: "length (runesOf (snd (hashResult lib a))) \<le> 200"
  by (simp add: hashResult_def Let_def capRunes_runes)

lemma toolsCall_preview: "list_all (\<lambda>e. length (runesOf (evArtifact e)) \<le> 200) (drEvents (toolsCall lib x ask name args))"
  unfolding toolsCall_def forward_def Let_def
  by (simp add: event_text_simps preview_bound split: option.split tool_answer.split prod.split)

lemma modifyResponse_model: "list_all (\<lambda>e. evModel e = logical) (drEvents (modifyResponse lib st x logical out code ct body))"
  unfolding modifyResponse_def by (simp add: event_text_simps split: option.split prod.split)

lemma modelHandler_model:
  "list_all (\<lambda>e. length (runesOf (evModel e)) \<le> 200 \<or> evModel e \<in> {adModel (scAgent x), gwDefaultModel cfg})
     (drEvents (modelHandler lib statusText cfg env roleKey x upstream body))"
proof (cases "dlModel lib body")
  case None
  then show ?thesis by (simp add: modelHandler_def event_text_simps)
next
  case (Some logical)
  let ?eff = "if adModel (scAgent x) = '''' then gwDefaultModel cfg else adModel (scAgent x)"
  show ?thesis
  proof (cases "logical = '''' \<or> logical \<noteq> ?eff")
    case True
    then show ?thesis unfolding modelHandler_def Some option.case Let_def
      by (simp only: if_True answered_simps event_text_simps capRunes_runes list.pred_inject) simp
  next
    case False
    have "list_all (\<lambda>e. evModel e = logical) (drEvents (modelHandler lib statusText cfg env roleKey x upstream body))"
      unfolding modelHandler_def Some option.case Let_def
      by (simp only: False if_False)
         (simp add: event_text_simps modifyResponse_model split: option.split prod.split model_answer.split)
    with False show ?thesis by (auto simp: list_all_iff split: if_splits)
  qed
qed

lemma spawnFinished_text:
  "list_all (\<lambda>e. length (runesOf (evChildRole e)) \<le> 200 \<and> length (runesOf (evChildWorkflow e)) \<le> 200
              \<and> length (runesOf (evReason e)) \<le> 200) (drEvents (spawnFinished x req res failed))"
proof -
  have "length (runesOf reasonSpawnIncomplete) \<le> 200" by code_simp
  then show ?thesis by (simp add: spawnFinished_def event_text_simps capRunes_runes Let_def)
qed

text \<open>
  The caps hold where they are applied. The preview a tool call leaves in the ledger, the model a
  refused model call echoes, and the role, workflow and reason of a spawn event are at most 200 runes
  long, whatever the agent, the upstream or the supervisor sent.
\<close>

theorem ledger_text_is_bounded:
  "list_all (\<lambda>e. length (runesOf (evArtifact e)) \<le> 200) (drEvents (toolsCall lib x ask name args))
   \<and> list_all (\<lambda>e. length (runesOf (evModel e)) \<le> 200 \<or> evModel e \<in> {adModel (scAgent x), gwDefaultModel cfg})
       (drEvents (modelHandler lib statusText cfg env roleKey x upstream body))
   \<and> list_all (\<lambda>e. length (runesOf (evChildRole e)) \<le> 200 \<and> length (runesOf (evChildWorkflow e)) \<le> 200
                   \<and> length (runesOf (evReason e)) \<le> 200)
       (drEvents (spawnFinished x req res failed))"
  using toolsCall_preview modelHandler_model spawnFinished_text by blast

text \<open>
  A command the ledger's bounds exclude is recorded all the same. When the exec door refuses a
  command because it exceeds the argv bounds, the refusal carries that very argv, whatever its length
  and control characters; and a call of a tool the step does not have records the name as sent.
\<close>

theorem refusals_record_unbounded_text:
  assumes "dlCommand lib body = Some argv" "Declared (adExec (scAgent x))" "Allows (adExec (scAgent x)) argv" "\<not> argvRecordable argv"
    and "map_of (scMirrored x) name = None"
  shows "map evCommand (drEvents (execRunHandler lib x override self stat runtime body)) = [argv]
    \<and> map evTool (drEvents (toolsCall lib x ask name args)) = [name]"
  using assms by (simp add: execRunHandler_def execGate_def toolsCall_def toolEvent_def)

section \<open>A concrete step\<close>

definition demoAttestation :: RuntimeAttestation where
  "demoAttestation = \<lparr>raRuntime = ''refexec'', raSession = ''s'', raCommand = [''git'', ''log''], raPID = 7, raSpawn = 1,
     raCredentialEnv = '''', raEnvNames = [''PATH''], raMaterialization = '''', raConfiner = '''', raConfinerOpts = []\<rparr>"

definition demoDoorLib :: doorLib where
  "demoDoorLib = \<lparr>dlSum = (\<lambda>b. CHR ''h'' # b), dlQuote = (\<lambda>s. s), dlValid = (\<lambda>_. True),
     dlCommand = (\<lambda>b. if b = ''run'' then Some [''git'', ''log''] else if b = ''ctl'' then Some [''git'', [newline]] else None),
     dlBuildCommand = (\<lambda>argv. Some (concat argv)),
     dlExecResponse = (\<lambda>b. Some \<lparr>xrExitCode = Some 0, xrOutput = b, xrOutputSHA = CHR ''h'' # b, xrTruncated = False,
                                xrOutputBytes = 2, xrRuntimeAttestation = Some ''att''\<rparr>),
     dlAttestation = (\<lambda>_. Some demoAttestation), dlResult = (\<lambda>_. ''r''),
     dlModel = (\<lambda>b. Some b), dlRebuild = (\<lambda>b m. Some (b @ m)), dlURL = (\<lambda>_. Some (''https'', ''host'')),
     dlUsage = (\<lambda>_. None), dlSpawn = (\<lambda>b. if b = ''go'' then Some \<lparr>sqRole = ''dev'', sqWorkflow = ''w'', sqInput = ''i''\<rparr> else None)\<rparr>"

definition demoDoorAgent :: AgentDef where
  "demoDoorAgent = zeroAgent\<lparr>adName := ''a'', adModel := ''m'',
     adTools := [\<lparr>tgResource = ''repo'', tgTools = [''*''], tgMode = ''read-only''\<rparr>],
     adExec := \<lparr>ecAllow = [\<lparr>eeExe = ''git'', eeArgsPrefix = []\<rparr>], ecRuntime = ''refexec'', ecURL = ''unix:///run/x/s'', ecTimeout = 1\<rparr>,
     adMaySpawn := [\<lparr>stRole = ''dev'', stWorkflow = ''w''\<rparr>]\<rparr>"

definition demoCatalogue :: "(bytes \<times> ToolResource) list" where
  "demoCatalogue = [(''repo'', zeroResource\<lparr>trReadOnlyTools := [''read'', ''gone'']\<rparr>)]"

definition demoUpstream :: "bytes \<Rightarrow> upstream_answer" where
  "demoUpstream r = (if r = ''repo'' then Exposes [''read'', ''write''] else NoConnection)"

definition demoStep :: stepCtx where
  "demoStep = \<lparr>scBind = noBinding, scAgent = demoDoorAgent, scTools = demoCatalogue,
     scAllow = [''repo'' \<mapsto> Some [''read'', ''gone'']], scMirrored = [(''read'', ''repo'')]\<rparr>"

definition demoStat :: "bytes \<Rightarrow> fileInfo option" where
  "demoStat d = Some \<lparr>fiIsDir = True, fiPerm = 448, fiUid = Some 1\<rparr>"

definition demoExec :: "bytes \<Rightarrow> doorResult" where
  "demoExec body = execRunHandler demoDoorLib demoStep '''' 1 demoStat (\<lambda>_. ExecBody 200 ''ok'') body"

definition demoGateway :: GatewayConfig where
  "demoGateway = \<lparr>gwModels = [(''m'', \<lparr>mrEndpoint = ''https://host'', mrModel = ''real'', mrAPIKeyEnv = ''KEY''\<rparr>)],
     gwTools = demoCatalogue, gwDefaultModel = '''', gwRefboxSocketDir = '''', gwSpawnSupervisor = '''',
     gwSpawn = \<lparr>polMaxDepth = 1, polMaxParallel = 1, polMaxTotalSpawns = 1, polRejectCycles = False\<rparr>, gwStepTimeout = 0\<rparr>"

lemma demoStart:
  "GatewayStart demoCatalogue '''' (Some ''x'') demoUpstream (Some ''u'') demoDoorAgent
     = Inr (''u'', ''78'', scAllow demoStep, scMirrored demoStep)"
  by (simp add: GatewayStart_def execGuard_def execURLFor_def demoDoorAgent_def Declared_def UnixScheme_def has_prefix_def
      grantFault_def grantEntry_def EveryToolReadWrite_def AllTools_def readOnlySet_def resourceAt_def demoCatalogue_def
      demoUpstream_def allows_def grantExposed_def demoStep_def hexBytes_def hexDigit_def)

lemma demoExec_event:
  "hd (drEvents (demoExec b)) \<in> set (drEvents (execRunHandler demoDoorLib demoStep '''' 1 demoStat (\<lambda>_. ExecBody 200 ''ok'') b))"
  using execRun_one [of demoStep demoDoorLib "''''" 1 demoStat "\<lambda>_. ExecBody 200 ''ok''" b] by (auto simp: oneEvent_def demoExec_def)

lemma demoExec_facts:
  "drOut (demoExec ''run'') = [ExecOut ''/run/x/s'' [''git'', ''log'']]"
  "map evStatus (drEvents (demoExec ''run'')) = [''succeeded'']"
  "map evRuntimeAttestation (drEvents (demoExec ''run'')) = [Some demoAttestation]"
  "dlCommand demoDoorLib ''run'' = Some [''git'', ''log'']"
  by code_simp+

lemma demoExec_hd:
  "evStatus (hd (drEvents (demoExec ''run''))) = ''succeeded''"
  "evRuntimeAttestation (hd (drEvents (demoExec ''run''))) = Some demoAttestation"
  using demoExec_facts(2,3) by (cases "drEvents (demoExec ''run'')"; simp)+

theorem exec_runs_only_what_is_allowed_witness:
  "\<exists>entry rest. entry \<in> set (ecAllow (adExec (scAgent demoStep))) \<and> [''git'', ''log''] = eeExe entry # eeArgsPrefix entry @ rest"
proof -
  have "ExecOut ''/run/x/s'' [''git'', ''log'']
      \<in> set (drOut (execRunHandler demoDoorLib demoStep '''' 1 demoStat (\<lambda>_. ExecBody 200 ''ok'') ''run''))"
    using demoExec_facts(1) by (simp add: demoExec_def)
  from exec_runs_only_what_is_allowed [OF this] demoExec_facts(4) show ?thesis by auto
qed

theorem exec_success_is_first_hand_witness:
  "evExitCode (hd (drEvents (demoExec ''run''))) = Some 0
   \<and> (\<exists>att. evRuntimeAttestation (hd (drEvents (demoExec ''run''))) = Some att \<and> raCommand att = [''git'', ''log''])"
  using exec_success_is_first_hand [OF demoExec_event demoExec_hd(1)] demoExec_facts(4) by auto

theorem tool_call_stays_within_the_grants_witness:
  "set (drOut (toolsCall demoDoorLib demoStep (\<lambda>_ _ _. Answered None) ''write'' ''{}'')) = {}"
proof -
  have x: "demoStep = \<lparr>scBind = noBinding, scAgent = demoDoorAgent, scTools = demoCatalogue, scAllow = scAllow demoStep,
      scMirrored = scMirrored demoStep\<rparr>" by (simp add: demoStep_def)
  show ?thesis
    unfolding tool_call_stays_within_the_grants [OF demoStart x]
    by (simp add: demoDoorAgent_def covers_def demoCatalogue_def resourceAt_def)
qed

theorem model_call_uses_the_configured_route_witness:
  "\<exists>key newBody. ModelOut ''https://host'' ''k'' ''mreal'' = ModelOut ''https://host'' key newBody \<and> key \<noteq> ''''"
proof -
  have "ModelOut ''https://host'' ''k'' ''mreal''
      \<in> set (drOut (modelHandler demoDoorLib (\<lambda>_. '''') demoGateway (\<lambda>_. '''') ''k'' demoStep (\<lambda>_ _. RoundTripFails) ''m''))"
    by code_simp
  from model_call_uses_the_configured_route [OF this] show ?thesis by auto
qed

theorem recorded_attestation_is_declared_and_bounded_witness: "argvRecordable (raCommand demoAttestation)"
  using recorded_attestation_is_declared_and_bounded [OF UnI2 [OF demoExec_event] demoExec_hd(2)] by blast

theorem refusals_record_unbounded_text_witness:
  "map evCommand (drEvents (demoExec ''ctl'')) = [[''git'', [newline]]]"
proof -
  have "dlCommand demoDoorLib ''ctl'' = Some [''git'', [newline]]" "Declared (adExec (scAgent demoStep))"
    "Allows (adExec (scAgent demoStep)) [''git'', [newline]]" "\<not> argvRecordable [''git'', [newline]]"
    "map_of (scMirrored demoStep) ''other'' = None" by code_simp+
  from refusals_record_unbounded_text [OF this] show ?thesis by (simp add: demoExec_def)
qed

end
