(* ===== verification/Gateway_Run.thy ===== *)
theory Gateway_Run
  imports Gateway_Doors Run_Complete
begin

text \<open>
  The gateway of a run as a state machine: the admission hold every door call takes (\<open>admit\<close>,
  \<open>registerDoor\<close>), the doors served concurrently under it, the slots of the spawn door, \<open>Start\<close> and
  \<open>Stop\<close> (\<^verbatim>\<open>proxy.go\<close>, \<^verbatim>\<open>spawn.go\<close>). A step of the machine is one critical section or one append of one
  call, so a run of the machine is any interleaving of any number of calls.
\<close>

section \<open>Admission\<close>

definition maxDoorBody :: int where
  "maxDoorBody = 1048576"

definition isJSONObject :: "doorLib \<Rightarrow> bytes \<Rightarrow> bool" where
  "isJSONObject lib b =
     (case dropWhile (\<lambda>c. c \<in> {CHR '' '', CHR 0x09, CHR 0x0D, CHR 0x0A}) b of
        [] \<Rightarrow> False
      | c # _ \<Rightarrow> c = CHR ''{'' \<and> dlValid lib b)"

text \<open>What a route door checks before it takes the hold: the status it answers, or the bounded body.\<close>

definition registerDoor :: "doorLib \<Rightarrow> bytes \<Rightarrow> bytes option \<Rightarrow> int + bytes" where
  "registerDoor lib httpMethod body =
     (if httpMethod \<noteq> ''POST'' then Inl 405
      else (case body of
              None \<Rightarrow> Inl 400
            | Some b \<Rightarrow> if int (length b) > maxDoorBody \<or> \<not> isJSONObject lib b then Inl 400 else Inr b))"

text \<open>The routes of the listener; every other path is the MCP handler, whose \<^verbatim>\<open>tools/call\<close> is a door call.\<close>

datatype request =
    ToolRequest bytes bytes
  | ExecAsserted bytes
  | ExecRequest bytes
  | ModelRequest bytes
  | SpawnRequest bytes

datatype call_phase =
    Admitted request
  | Answering doorResult
  | Spawning spawnRequest
  | Ended spawnRequest SpawnResult bool
  | Recorded bool

text \<open>
  Where \<open>Stop\<close> is: it has closed the doors and is about to cancel the step's context, has cancelled it and
  is about to cut the connections, waits for the holds, or has returned a count.
\<close>

datatype stop_phase = NotStopping | Cancelling | Cutting | Waiting | Returned int

record gatewayState =
  gsCtx :: stepCtx
  gsServing :: bool
  gsClosing :: bool
  gsStop :: stop_phase
  gsStepDone :: bool
  gsCut :: bool
  gsDoorCalls :: int
  gsCalls :: "call_phase list"
  gsSpawnInflight :: int
  gsSpawnTotal :: int
  gsEvents :: "Event list"
  gsProvisioned :: nat
  gsChildren :: "(AgentDef \<times> bytes \<times> bytes \<times> int) list"

text \<open>\<open>admit\<close>: refused while closing, otherwise counted and held.\<close>

definition admit :: "request \<Rightarrow> gatewayState \<Rightarrow> gatewayState" where
  "admit r s = (if gsClosing s then s else s\<lparr>gsCalls := gsCalls s @ [Admitted r], gsDoorCalls := gsDoorCalls s + 1\<rparr>)"

record doorWorld =
  dwAsk :: "bytes \<Rightarrow> bytes \<Rightarrow> bytes \<Rightarrow> tool_answer"
  dwStat :: "bytes \<Rightarrow> fileInfo option"
  dwRuntime :: "bytes list \<Rightarrow> exec_answer"
  dwEnv :: "bytes \<Rightarrow> bytes"
  dwRoleKey :: bytes
  dwUpstream :: "bytes \<Rightarrow> bytes \<Rightarrow> model_answer"

record gatewayCfg =
  gcLib :: doorLib
  gcGateway :: GatewayConfig
  gcStatusText :: "int \<Rightarrow> bytes"
  gcExecURL :: bytes
  gcSelf :: nat
  gcSpawner :: bool

text \<open>The doors that need no lock of their own; a spawn request is a machine of several steps.\<close>

definition serveDoor :: "gatewayCfg \<Rightarrow> doorWorld \<Rightarrow> stepCtx \<Rightarrow> request \<Rightarrow> doorResult option" where
  "serveDoor g w x r =
     (case r of
        ToolRequest name args \<Rightarrow> Some (toolsCall (gcLib g) x (dwAsk w) name args)
      | ExecAsserted body \<Rightarrow> Some (execAssertedHandler (gcLib g) x body)
      | ExecRequest body \<Rightarrow> Some (execRunHandler (gcLib g) x (gcExecURL g) (gcSelf g) (dwStat w) (dwRuntime w) body)
      | ModelRequest body \<Rightarrow>
          Some (modelHandler (gcLib g) (gcStatusText g) (gcGateway g) (dwEnv w) (dwRoleKey w) x (dwUpstream w) body)
      | SpawnRequest body \<Rightarrow> None)"

definition setCall :: "nat \<Rightarrow> call_phase \<Rightarrow> gatewayState \<Rightarrow> gatewayState" where
  "setCall i p s = s\<lparr>gsCalls := (gsCalls s)[i := p]\<rparr>"

definition dropCall :: "nat \<Rightarrow> gatewayState \<Rightarrow> gatewayState" where
  "dropCall i s = s\<lparr>gsCalls := take i (gsCalls s) @ drop (Suc i) (gsCalls s)\<rparr>"

text \<open>The critical section of the spawn door: refuse, or take a slot of both counters.\<close>

definition reserve :: "gatewayCfg \<Rightarrow> nat \<Rightarrow> spawnRequest \<Rightarrow> gatewayState \<Rightarrow> gatewayState" where
  "reserve g i req s =
     (case spawnRoom (gwSpawn (gcGateway g)) (bdDepth (scBind (gsCtx s)) + 1) (gsSpawnInflight s) (gsSpawnTotal s) of
        Some reason \<Rightarrow> setCall i (Answering (spawnRefused (gsCtx s) req reason)) s
      | None \<Rightarrow>
          (setCall i (Spawning req) s)
            \<lparr>gsSpawnInflight := gsSpawnInflight s + 1, gsSpawnTotal := gsSpawnTotal s + 1,
             gsChildren := gsChildren s @ [(scAgent (gsCtx s), sqRole req, sqWorkflow req, bdDepth (scBind (gsCtx s)) + 1)]\<rparr>)"

text \<open>The child is over: a slot of the total is given back unless a compartment set was consumed.\<close>

definition childOver :: "nat \<Rightarrow> spawnRequest \<Rightarrow> SpawnResult \<Rightarrow> bool \<Rightarrow> gatewayState \<Rightarrow> gatewayState" where
  "childOver i req res failed s =
     (setCall i (Ended req res failed) s)
       \<lparr>gsSpawnTotal := (if snProvisioned res then gsSpawnTotal s else gsSpawnTotal s - 1),
        gsProvisioned := (if snProvisioned res then gsProvisioned s + 1 else gsProvisioned s)\<rparr>"

definition recordEvent :: "nat \<Rightarrow> bool \<Rightarrow> doorResult \<Rightarrow> gatewayState \<Rightarrow> gatewayState" where
  "recordEvent i slot r s = (setCall i (Recorded slot) s)\<lparr>gsEvents := gsEvents s @ drEvents r\<rparr>"

text \<open>The deferred work of a handler: a spawned child's slot is given back, then the hold is released.\<close>

definition giveSlotBack :: "nat \<Rightarrow> gatewayState \<Rightarrow> gatewayState" where
  "giveSlotBack i s = (setCall i (Recorded False) s)\<lparr>gsSpawnInflight := gsSpawnInflight s - 1\<rparr>"

text \<open>
  \<open>Stop\<close>, in the order the code has: under the lock it closes the doors; then it cancels the context
  \<open>Start\<close> derived for the step, closes the server, which ends the context of every request, and waits for the
  holds; what it then returns is the count. (A second \<open>Stop\<close> returns the count and changes nothing. The
  upstream sessions are closed after the wait and have no state here.)
\<close>

definition beginStop :: "gatewayState \<Rightarrow> gatewayState" where
  "beginStop s = (if gsClosing s then s else s\<lparr>gsClosing := True, gsStop := Cancelling\<rparr>)"

definition stopStep :: "gatewayState \<Rightarrow> gatewayState option" where
  "stopStep s =
     (case gsStop s of
        Cancelling \<Rightarrow> Some (s\<lparr>gsStop := Cutting, gsStepDone := True\<rparr>)
      | Cutting \<Rightarrow> Some (s\<lparr>gsStop := Waiting, gsCut := True\<rparr>)
      | Waiting \<Rightarrow> if gsCalls s = [] then Some (s\<lparr>gsStop := Returned (gsDoorCalls s)\<rparr>) else None
      | _ \<Rightarrow> None)"

text \<open>
  How the engine's loop (\<^verbatim>\<open>engine.go\<close>, around the call of the agent) uses the gateway: \<open>Start\<close> for a step on a
  new gateway, or once the \<open>Stop\<close> of the step before has returned.
\<close>

definition mayStart :: "gatewayState \<Rightarrow> bool" where
  "mayStart s = (case gsStop s of NotStopping \<Rightarrow> \<not> gsServing s | Returned _ \<Rightarrow> True | _ \<Rightarrow> False)"

section \<open>The machine\<close>

inductive gatewayStep :: "gatewayCfg \<Rightarrow> gatewayState \<Rightarrow> gatewayState \<Rightarrow> bool" for g :: gatewayCfg where
  g_start: "gsCalls s = [] \<Longrightarrow> mayStart s \<Longrightarrow> scBind x = scBind (gsCtx s) \<Longrightarrow>
    gatewayStep g s (s\<lparr>gsCtx := x, gsServing := True, gsClosing := False, gsStop := NotStopping, gsStepDone := False,
      gsCut := False, gsDoorCalls := 0, gsEvents := []\<rparr>)"
| g_arrive: "gsServing s \<Longrightarrow> gatewayStep g s (admit r s)"
| g_serve: "i < length (gsCalls s) \<Longrightarrow> gsCalls s ! i = Admitted r \<Longrightarrow> serveDoor g w (gsCtx s) r = Some res \<Longrightarrow>
    gatewayStep g s (setCall i (Answering res) s)"
| g_refuse: "i < length (gsCalls s) \<Longrightarrow> gsCalls s ! i = Admitted (SpawnRequest body) \<Longrightarrow>
    spawnAuthorize (gcLib g) (gsCtx s) (gcSpawner g) body = Inl res \<Longrightarrow> gatewayStep g s (setCall i (Answering res) s)"
| g_reserve: "i < length (gsCalls s) \<Longrightarrow> gsCalls s ! i = Admitted (SpawnRequest body) \<Longrightarrow>
    spawnAuthorize (gcLib g) (gsCtx s) (gcSpawner g) body = Inr req \<Longrightarrow> gatewayStep g s (reserve g i req s)"
| g_child: "i < length (gsCalls s) \<Longrightarrow> gsCalls s ! i = Spawning req \<Longrightarrow> gatewayStep g s (childOver i req res failed s)"
| g_record: "i < length (gsCalls s) \<Longrightarrow> gsCalls s ! i = Answering r \<Longrightarrow> gatewayStep g s (recordEvent i False r s)"
| g_record_child: "i < length (gsCalls s) \<Longrightarrow> gsCalls s ! i = Ended req res failed \<Longrightarrow>
    gatewayStep g s (recordEvent i True (spawnFinished (gsCtx s) req res failed) s)"
| g_slot: "i < length (gsCalls s) \<Longrightarrow> gsCalls s ! i = Recorded True \<Longrightarrow> gatewayStep g s (giveSlotBack i s)"
| g_release: "i < length (gsCalls s) \<Longrightarrow> gsCalls s ! i = Recorded False \<Longrightarrow> gatewayStep g s (dropCall i s)"
| g_stop: "gatewayStep g s (beginStop s)"
| g_stopping: "stopStep s = Some t \<Longrightarrow> gatewayStep g s t"

text \<open>A gateway as \<open>New\<close> makes it.\<close>

definition newGateway :: "gatewayState \<Rightarrow> bool" where
  "newGateway s \<longleftrightarrow> \<not> gsServing s \<and> \<not> gsClosing s \<and> gsStop s = NotStopping \<and> \<not> gsStepDone s \<and> \<not> gsCut s \<and> gsDoorCalls s = 0 \<and> gsCalls s = [] \<and> gsSpawnInflight s = 0
     \<and> gsSpawnTotal s = 0 \<and> gsEvents s = [] \<and> gsProvisioned s = 0 \<and> gsChildren s = []"

section \<open>Counting\<close>

definition weight :: "(call_phase \<Rightarrow> nat) \<Rightarrow> call_phase list \<Rightarrow> nat" where
  "weight f cs = sum_list (map f cs)"

lemma weight_simps [simp]:
  "weight f [] = 0" "weight f (cs @ ds) = weight f cs + weight f ds" "weight f (c # cs) = f c + weight f cs"
  by (simp_all add: weight_def)

lemma weight_update: "i < length cs \<Longrightarrow> weight f (cs[i := p]) + f (cs ! i) = weight f cs + f p"
  by (induction cs arbitrary: i) (auto split: nat.splits)

lemma weight_drop: "i < length cs \<Longrightarrow> weight f (take i cs @ drop (Suc i) cs) + f (cs ! i) = weight f cs"
proof (induction cs arbitrary: i)
  case (Cons c cs)
  then show ?case by (cases i) (auto simp: add_ac)
qed simp

definition unrecorded :: "call_phase \<Rightarrow> nat" where
  "unrecorded p = (case p of Recorded _ \<Rightarrow> 0 | _ \<Rightarrow> 1)"

definition holdsSlot :: "call_phase \<Rightarrow> nat" where
  "holdsSlot p = (case p of Spawning _ \<Rightarrow> 1 | Ended _ _ _ \<Rightarrow> 1 | Recorded slot \<Rightarrow> if slot then 1 else 0 | _ \<Rightarrow> 0)"

definition childRuns :: "call_phase \<Rightarrow> nat" where
  "childRuns p = (case p of Spawning _ \<Rightarrow> 1 | _ \<Rightarrow> 0)"

lemmas phase_simps = unrecorded_def holdsSlot_def childRuns_def

definition doorEvent :: "Binding \<Rightarrow> Event \<Rightarrow> bool" where
  "doorEvent b e \<longleftrightarrow> evType e \<in> set doorTypes \<and> evBinding e = b"

definition phaseOK :: "Binding \<Rightarrow> call_phase \<Rightarrow> bool" where
  "phaseOK b p = (case p of Answering r \<Rightarrow> (\<exists>e. drEvents r = [e] \<and> doorEvent b e) | _ \<Rightarrow> True)"

definition childOK :: "SpawnPolicy \<Rightarrow> AgentDef \<times> bytes \<times> bytes \<times> int \<Rightarrow> bool" where
  "childOK pol c = (case c of (agent, role, workflow, depth) \<Rightarrow> MaySpawnTarget agent role workflow \<and> depth \<le> polMaxDepth pol)"

definition gatewayInv :: "gatewayCfg \<Rightarrow> gatewayState \<Rightarrow> bool" where
  "gatewayInv g s \<longleftrightarrow>
     gsDoorCalls s = int (length (gsEvents s)) + int (weight unrecorded (gsCalls s))
     \<and> gsSpawnInflight s = int (weight holdsSlot (gsCalls s))
     \<and> gsSpawnTotal s = int (gsProvisioned s) + int (weight childRuns (gsCalls s))
     \<and> gsSpawnInflight s \<le> max 0 (polMaxParallel (gwSpawn (gcGateway g)))
     \<and> gsSpawnTotal s \<le> max 0 (polMaxTotalSpawns (gwSpawn (gcGateway g)))
     \<and> list_all (doorEvent (scBind (gsCtx s))) (gsEvents s)
     \<and> list_all (phaseOK (scBind (gsCtx s))) (gsCalls s)
     \<and> list_all (childOK (gwSpawn (gcGateway g))) (gsChildren s)"

lemma oneEvent_door: "oneEvent x ty r \<Longrightarrow> ty \<in> set doorTypes \<Longrightarrow> \<exists>e. drEvents r = [e] \<and> doorEvent (scBind x) e"
  by (auto simp: oneEvent_def doorEvent_def)

lemma serveDoor_one: "serveDoor g w x r = Some res \<Longrightarrow> \<exists>e. drEvents res = [e] \<and> doorEvent (scBind x) e"
  using oneEvent_door [OF toolsCall_one] oneEvent_door [OF execAsserted_one] oneEvent_door [OF execRun_one]
    oneEvent_door [OF modelHandler_one]
  by (auto simp: serveDoor_def doorTypes_def split: request.splits)

lemma list_all_update: "list_all P xs \<Longrightarrow> P y \<Longrightarrow> list_all P (xs[i := y])"
  by (auto simp: list_all_iff dest: set_update_subset_insert [THEN subsetD])

lemma list_all_drop_nth: "list_all P xs \<Longrightarrow> list_all P (take i xs @ drop (Suc i) xs)"
  by (auto simp: list_all_iff dest: in_set_takeD in_set_dropD)

lemma setCall_inv:
  assumes "gatewayInv g s" "i < length (gsCalls s)" "phaseOK (scBind (gsCtx s)) p"
    "unrecorded p = unrecorded (gsCalls s ! i)" "holdsSlot p = holdsSlot (gsCalls s ! i)" "childRuns p = childRuns (gsCalls s ! i)"
  shows "gatewayInv g (setCall i p s)"
  using assms weight_update [OF assms(2), of unrecorded p] weight_update [OF assms(2), of holdsSlot p]
    weight_update [OF assms(2), of childRuns p]
  by (simp add: gatewayInv_def setCall_def list_all_update)

lemma admit_inv: "gatewayInv g s \<Longrightarrow> gatewayInv g (admit r s)"
  by (simp add: gatewayInv_def admit_def phase_simps phaseOK_def)

lemma reserve_inv:
  assumes inv: "gatewayInv g s" and i: "i < length (gsCalls s)" "gsCalls s ! i = Admitted (SpawnRequest body)"
    and a: "spawnAuthorize (gcLib g) (gsCtx s) (gcSpawner g) body = Inr req"
  shows "gatewayInv g (reserve g i req s)"
proof -
  let ?pol = "gwSpawn (gcGateway g)" and ?depth = "bdDepth (scBind (gsCtx s)) + 1"
  show ?thesis
  proof (cases "spawnRoom ?pol ?depth (gsSpawnInflight s) (gsSpawnTotal s)")
    case None
    then have room: "?depth \<le> polMaxDepth ?pol" "gsSpawnInflight s < polMaxParallel ?pol" "gsSpawnTotal s < polMaxTotalSpawns ?pol"
      by (auto simp: spawnRoom_def split: if_splits)
    from a have "MaySpawnTarget (scAgent (gsCtx s)) (sqRole req) (sqWorkflow req)"
      by (auto simp: spawnAuthorize_def split: option.splits if_splits)
    with room inv i weight_update [OF i(1), of unrecorded "Spawning req"] weight_update [OF i(1), of holdsSlot "Spawning req"]
      weight_update [OF i(1), of childRuns "Spawning req"]
    show ?thesis
      unfolding reserve_def None option.case
      by (auto simp: gatewayInv_def setCall_def phase_simps phaseOK_def childOK_def list_all_update)
  next
    case (Some reason)
    have "phaseOK (scBind (gsCtx s)) (Answering (spawnRefused (gsCtx s) req reason))"
      using oneEvent_door [OF spawnRefused_one] by (simp add: phaseOK_def doorTypes_def)
    with Some i show ?thesis
      unfolding reserve_def by (simp add: setCall_inv [OF inv i(1)] phase_simps)
  qed
qed

lemma childOver_inv:
  assumes "gatewayInv g s" "i < length (gsCalls s)" "gsCalls s ! i = Spawning req"
  shows "gatewayInv g (childOver i req res failed s)"
  using assms weight_update [OF assms(2), of unrecorded "Ended req res failed"]
    weight_update [OF assms(2), of holdsSlot "Ended req res failed"] weight_update [OF assms(2), of childRuns "Ended req res failed"]
  by (simp add: gatewayInv_def childOver_def setCall_def phase_simps phaseOK_def list_all_update)

lemma recordEvent_inv:
  assumes inv: "gatewayInv g s" and i: "i < length (gsCalls s)" and e: "drEvents r = [e]" "doorEvent (scBind (gsCtx s)) e"
    and p: "unrecorded (gsCalls s ! i) = 1" "holdsSlot (gsCalls s ! i) = (if slot then 1 else 0)" "childRuns (gsCalls s ! i) = 0"
  shows "gatewayInv g (recordEvent i slot r s)"
  using inv e p weight_update [OF i, of unrecorded "Recorded slot"] weight_update [OF i, of holdsSlot "Recorded slot"]
    weight_update [OF i, of childRuns "Recorded slot"]
  by (simp add: gatewayInv_def recordEvent_def setCall_def phase_simps phaseOK_def list_all_update)

lemma giveSlotBack_inv:
  assumes "gatewayInv g s" "i < length (gsCalls s)" "gsCalls s ! i = Recorded True"
  shows "gatewayInv g (giveSlotBack i s)"
  using assms weight_update [OF assms(2), of unrecorded "Recorded False"] weight_update [OF assms(2), of holdsSlot "Recorded False"]
    weight_update [OF assms(2), of childRuns "Recorded False"]
  by (simp add: gatewayInv_def giveSlotBack_def setCall_def phase_simps phaseOK_def list_all_update)

lemma dropCall_inv:
  assumes "gatewayInv g s" "i < length (gsCalls s)" "gsCalls s ! i = Recorded False"
  shows "gatewayInv g (dropCall i s)"
  using assms weight_drop [OF assms(2), of unrecorded] weight_drop [OF assms(2), of holdsSlot] weight_drop [OF assms(2), of childRuns]
  by (auto simp: gatewayInv_def dropCall_def phase_simps list_all_drop_nth simp del: list_all_append)

lemma gatewayStep_inv: "gatewayStep g s t \<Longrightarrow> gatewayInv g s \<Longrightarrow> gatewayInv g t"
proof (induction rule: gatewayStep.induct)
  case (g_start s x)
  then show ?case by (simp add: gatewayInv_def)
next
  case (g_arrive s r)
  then show ?case by (simp add: admit_inv)
next
  case (g_serve i s r w res)
  then show ?case using serveDoor_one by (intro setCall_inv) (auto simp: phaseOK_def phase_simps)
next
  case (g_refuse i s body res)
  then show ?case
    using oneEvent_door [OF spawnAuthorize_one [OF g_refuse.hyps(3)]]
    by (intro setCall_inv) (auto simp: phaseOK_def phase_simps doorTypes_def)
next
  case (g_reserve i s body req)
  then show ?case by (simp add: reserve_inv)
next
  case (g_child i s req res failed)
  then show ?case by (simp add: childOver_inv)
next
  case (g_record i s r)
  then have "phaseOK (scBind (gsCtx s)) (gsCalls s ! i)" unfolding gatewayInv_def by (metis list_all_length)
  with g_record obtain e where "drEvents r = [e]" "doorEvent (scBind (gsCtx s)) e" by (auto simp: phaseOK_def)
  with g_record show ?case by (intro recordEvent_inv) (auto simp: phase_simps)
next
  case (g_record_child i s req res failed)
  obtain e where "drEvents (spawnFinished (gsCtx s) req res failed) = [e]" "doorEvent (scBind (gsCtx s)) e"
    using oneEvent_door [OF spawnFinished_one, of "gsCtx s" req res failed] by (auto simp: doorTypes_def)
  with g_record_child show ?case by (intro recordEvent_inv) (auto simp: phase_simps)
next
  case (g_slot i s)
  then show ?case by (simp add: giveSlotBack_inv)
next
  case (g_release i s)
  then show ?case by (simp add: dropCall_inv)
next
  case (g_stop s)
  then show ?case by (simp add: gatewayInv_def beginStop_def)
next
  case (g_stopping s t)
  then show ?case by (auto simp: gatewayInv_def stopStep_def split: stop_phase.splits if_splits)
qed

interpretation gatewayRun: step_system newGateway "gatewayStep g" "gatewayInv g" for g
proof unfold_locales
  fix s
  assume "newGateway s"
  then show "gatewayInv g s" by (simp add: newGateway_def gatewayInv_def)
next
  fix s t
  assume "gatewayInv g s" "gatewayStep g s t"
  then show "gatewayInv g t" by (simp add: gatewayStep_inv)
qed

abbreviation reachableGateway :: "gatewayCfg \<Rightarrow> gatewayState \<Rightarrow> bool" where
  "reachableGateway g \<equiv> reachableFrom newGateway (gatewayStep g)"

section \<open>What a stop has done so far\<close>

definition stopInv :: "gatewayState \<Rightarrow> bool" where
  "stopInv s \<longleftrightarrow> (case gsStop s of
       NotStopping \<Rightarrow> \<not> gsClosing s
     | Cancelling \<Rightarrow> gsClosing s
     | Cutting \<Rightarrow> gsClosing s \<and> gsStepDone s
     | Waiting \<Rightarrow> gsClosing s \<and> gsStepDone s \<and> gsCut s
     | Returned n \<Rightarrow> gsClosing s \<and> gsCalls s = [] \<and> n = gsDoorCalls s)"

lemma stopInv_calls:
  assumes "stopInv s" "i < length (gsCalls s)" "gsClosing t = gsClosing s" "gsStop t = gsStop s" "gsStepDone t = gsStepDone s" "gsCut t = gsCut s"
  shows "stopInv t"
  using assms by (auto simp: stopInv_def split: stop_phase.splits)

lemma stopStep_inv: "stopStep s = Some t \<Longrightarrow> stopInv s \<Longrightarrow> stopInv t"
  by (auto simp: stopInv_def stopStep_def split: stop_phase.splits if_splits)

lemma gatewayStep_stopInv: "gatewayStep g s t \<Longrightarrow> stopInv s \<Longrightarrow> stopInv t"
proof (induction rule: gatewayStep.induct)
  case (g_start s x)
  then show ?case by (simp add: stopInv_def)
next
  case (g_arrive s r)
  then show ?case by (auto simp: stopInv_def admit_def split: stop_phase.splits)
next
  case (g_stop s)
  then show ?case by (auto simp: stopInv_def beginStop_def split: stop_phase.splits)
next
  case (g_stopping s t)
  then show ?case by (simp add: stopStep_inv)
next
  case (g_reserve i s body req)
  then show ?case
    by (intro stopInv_calls [OF g_reserve.prems g_reserve.hyps(1)]) (simp_all add: reserve_def setCall_def split: option.splits)
qed (erule stopInv_calls, assumption, (simp_all add: setCall_def childOver_def recordEvent_def giveSlotBack_def dropCall_def)[4])+

interpretation gatewayStop: step_system newGateway "gatewayStep g" stopInv for g
  by unfold_locales (simp add: newGateway_def stopInv_def, rule gatewayStep_stopInv)

section \<open>How many steps are left once the gateway closes\<close>

definition work :: "call_phase \<Rightarrow> nat" where
  "work p = (case p of Admitted _ \<Rightarrow> 5 | Spawning _ \<Rightarrow> 4 | Ended _ _ _ \<Rightarrow> 3 | Answering _ \<Rightarrow> 3 | Recorded slot \<Rightarrow> if slot then 2 else 1)"

definition stopWork :: "stop_phase \<Rightarrow> nat" where
  "stopWork p = (case p of NotStopping \<Rightarrow> 4 | Cancelling \<Rightarrow> 3 | Cutting \<Rightarrow> 2 | Waiting \<Rightarrow> 1 | Returned _ \<Rightarrow> 0)"

definition workLeft :: "gatewayState \<Rightarrow> nat" where
  "workLeft s = weight work (gsCalls s) + stopWork (gsStop s)"

lemma weight_work_le: "weight work cs \<le> 5 * length cs"
proof (induction cs)
  case (Cons p cs)
  moreover have "work p \<le> 5" by (simp add: work_def split: call_phase.splits)
  ultimately show ?case by simp
qed simp

text \<open>
  A step while \<open>Stop\<close> is under way that changes something: not the arrival of a request that is turned
  away, nor a second \<open>Stop\<close>.
\<close>

definition gatewayWork :: "gatewayCfg \<Rightarrow> gatewayState \<Rightarrow> gatewayState \<Rightarrow> bool" where
  "gatewayWork g s t \<longleftrightarrow> gsStop s \<noteq> Returned (gsDoorCalls s) \<and> gatewayStep g s t \<and> t \<noteq> s"

lemma setCall_work: "i < length (gsCalls s) \<Longrightarrow> work p < work (gsCalls s ! i) \<Longrightarrow> weight work ((gsCalls s)[i := p]) < weight work (gsCalls s)"
  using weight_update [of i "gsCalls s" work p] by simp

lemma gatewayWork_decreases:
  assumes "gatewayWork g s t" "gsClosing s" "stopInv s"
  shows "workLeft t < workLeft s \<and> gsClosing t \<and> gsDoorCalls t = gsDoorCalls s \<and> stopInv t"
proof -
  from assms have st: "gatewayStep g s t" and ne: "t \<noteq> s" "gsStop s \<noteq> Returned (gsDoorCalls s)" by (simp_all add: gatewayWork_def)
  then have "workLeft t < workLeft s \<and> gsClosing t \<and> gsDoorCalls t = gsDoorCalls s"
  proof (cases rule: gatewayStep.cases)
    case (g_start x)
    then show ?thesis using ne assms(2,3) by (auto simp: mayStart_def stopInv_def split: stop_phase.splits)
  next
    case (g_release i)
    then show ?thesis using weight_drop [of i "gsCalls s" work] assms(2) by (simp add: workLeft_def dropCall_def work_def)
  next
    case (g_reserve i body req)
    then show ?thesis
      using assms(2) by (auto simp: workLeft_def reserve_def setCall_def work_def intro!: setCall_work split: option.splits)
  next
    case g_stop
    then show ?thesis using ne assms(2) by (simp add: beginStop_def)
  next
    case g_stopping
    then show ?thesis using assms(2) by (auto simp: stopStep_def workLeft_def stopWork_def split: stop_phase.splits if_splits)
  qed (use ne assms(2) in \<open>auto simp: workLeft_def admit_def setCall_def childOver_def recordEvent_def giveSlotBack_def work_def intro!: setCall_work\<close>)
  with gatewayStep_stopInv [OF st assms(3)] show ?thesis by simp
qed

lemma gatewayWork_power:
  "(gatewayWork g ^^ n) s t \<Longrightarrow> gsClosing s \<Longrightarrow> stopInv s \<Longrightarrow>
   n + workLeft t \<le> workLeft s \<and> gsClosing t \<and> gsDoorCalls t = gsDoorCalls s \<and> stopInv t"
proof (induction n arbitrary: t)
  case (Suc n)
  then obtain u where u: "(gatewayWork g ^^ n) s u" "gatewayWork g u t" by auto
  with Suc.IH [OF u(1) Suc.prems(2,3)] gatewayWork_decreases [OF u(2)] show ?case by fastforce
qed simp

section \<open>What needs no answer from outside\<close>

text \<open>
  Which calls no longer depend on a party outside: a tool call once the step's context is cancelled, a
  command or a model call once the connection its request came on is cut, a check of a spawn request or
  of an assertion always, and a child once either context of its run has ended. The
  client libraries then return an error in place of the answer, and the spawner's run returns.
\<close>

definition overWorld :: "doorWorld \<Rightarrow> doorWorld" where
  "overWorld w = w\<lparr>dwAsk := (\<lambda>_ _ _. CallFailed ''context canceled''), dwRuntime := (\<lambda>_. NoAnswer CtxCancelled),
     dwUpstream := (\<lambda>_ _. RoundTripFails)\<rparr>"

definition callOver :: "gatewayState \<Rightarrow> request \<Rightarrow> bool" where
  "callOver s r = (case r of ToolRequest _ _ \<Rightarrow> gsStepDone s | ExecRequest _ \<Rightarrow> gsCut s | ModelRequest _ \<Rightarrow> gsCut s | _ \<Rightarrow> True)"

inductive settleStep :: "gatewayCfg \<Rightarrow> gatewayState \<Rightarrow> gatewayState \<Rightarrow> bool" for g :: gatewayCfg where
  s_stop: "stopStep s = Some t \<Longrightarrow> settleStep g s t"
| s_serve: "i < length (gsCalls s) \<Longrightarrow> gsCalls s ! i = Admitted r \<Longrightarrow> callOver s r \<Longrightarrow>
    serveDoor g (overWorld w) (gsCtx s) r = Some res \<Longrightarrow> settleStep g s (setCall i (Answering res) s)"
| s_refuse: "i < length (gsCalls s) \<Longrightarrow> gsCalls s ! i = Admitted (SpawnRequest body) \<Longrightarrow>
    spawnAuthorize (gcLib g) (gsCtx s) (gcSpawner g) body = Inl res \<Longrightarrow> settleStep g s (setCall i (Answering res) s)"
| s_reserve: "i < length (gsCalls s) \<Longrightarrow> gsCalls s ! i = Admitted (SpawnRequest body) \<Longrightarrow>
    spawnAuthorize (gcLib g) (gsCtx s) (gcSpawner g) body = Inr req \<Longrightarrow> settleStep g s (reserve g i req s)"
| s_child: "i < length (gsCalls s) \<Longrightarrow> gsCalls s ! i = Spawning req \<Longrightarrow> gsStepDone s \<or> gsCut s \<Longrightarrow>
    settleStep g s (childOver i req res failed s)"
| s_record: "i < length (gsCalls s) \<Longrightarrow> gsCalls s ! i = Answering r \<Longrightarrow> settleStep g s (recordEvent i False r s)"
| s_record_child: "i < length (gsCalls s) \<Longrightarrow> gsCalls s ! i = Ended req res failed \<Longrightarrow>
    settleStep g s (recordEvent i True (spawnFinished (gsCtx s) req res failed) s)"
| s_slot: "i < length (gsCalls s) \<Longrightarrow> gsCalls s ! i = Recorded True \<Longrightarrow> settleStep g s (giveSlotBack i s)"
| s_release: "i < length (gsCalls s) \<Longrightarrow> gsCalls s ! i = Recorded False \<Longrightarrow> settleStep g s (dropCall i s)"

lemma settleStep_is_step: "settleStep g s t \<Longrightarrow> gatewayStep g s t"
  by (induction rule: settleStep.induct) (auto intro: gatewayStep.intros)

text \<open>Once the connections are cut, the first held call can settle.\<close>

lemma held_call_settles:
  assumes "gsCalls s \<noteq> []" "gsStepDone s" "gsCut s"
  shows "\<exists>t. settleStep g s t \<and> gsCalls t \<noteq> gsCalls s"
proof -
  have i: "0 < length (gsCalls s)" using assms(1) by simp
  have upd: "(gsCalls s)[0 := p] = gsCalls s \<longleftrightarrow> p = gsCalls s ! 0" for p
    using i by (metis nth_list_update_eq list_update_id)
  show ?thesis
  proof (cases "gsCalls s ! 0")
    case (Admitted r)
    show ?thesis
    proof (cases "serveDoor g (overWorld undefined) (gsCtx s) r")
      case None
      then obtain body where r: "r = SpawnRequest body" by (auto simp: serveDoor_def split: request.splits)
      show ?thesis
      proof (cases "spawnAuthorize (gcLib g) (gsCtx s) (gcSpawner g) body")
        case (Inl res)
        from s_refuse [OF i Admitted [unfolded r] Inl] show ?thesis
          by (intro exI [of _ "setCall 0 (Answering res) s"]) (simp add: Admitted setCall_def upd)
      next
        case (Inr req)
        have "gsCalls (reserve g 0 req s) \<noteq> gsCalls s"
          using Admitted by (auto simp: reserve_def setCall_def upd split: option.splits)
        with s_reserve [OF i Admitted [unfolded r] Inr] show ?thesis by blast
      qed
    next
      case (Some res)
      have "callOver s r" using assms(2,3) by (simp add: callOver_def split: request.splits)
      from s_serve [OF i Admitted this Some] show ?thesis
        by (intro exI [of _ "setCall 0 (Answering res) s"]) (simp add: Admitted setCall_def upd)
    qed
  next
    case (Answering r)
    from s_record [OF i Answering] show ?thesis
      by (intro exI [of _ "recordEvent 0 False r s"]) (simp add: Answering recordEvent_def setCall_def upd)
  next
    case (Spawning req)
    from s_child [OF i Spawning disjI1 [OF assms(2)], where res = undefined and failed = True] show ?thesis
      by (intro exI [of _ "childOver 0 req undefined True s"]) (simp add: Spawning childOver_def setCall_def upd)
  next
    case (Ended req res failed)
    from s_record_child [OF i Ended] show ?thesis
      by (intro exI [of _ "recordEvent 0 True (spawnFinished (gsCtx s) req res failed) s"])
        (simp add: Ended recordEvent_def setCall_def upd)
  next
    case (Recorded slot)
    show ?thesis
    proof (cases slot)
      case True
      with Recorded have "gsCalls s ! 0 = Recorded True" by simp
      from s_slot [OF i this] this show ?thesis
        by (intro exI [of _ "giveSlotBack 0 s"]) (simp add: giveSlotBack_def setCall_def upd)
    next
      case False
      with Recorded have "gsCalls s ! 0 = Recorded False" by simp
      moreover have "length (gsCalls (dropCall 0 s)) \<noteq> length (gsCalls s)" using i by (cases "gsCalls s") (simp_all add: dropCall_def)
      ultimately show ?thesis using s_release [OF i] by (intro exI [of _ "dropCall 0 s"]) auto
    qed
  qed
qed

lemma stop_is_never_stuck:
  assumes "stopInv s" "gsClosing s"
  shows "gsStop s = Returned (gsDoorCalls s) \<and> gsCalls s = [] \<or> (\<exists>t. settleStep g s t \<and> gatewayWork g s t)"
proof (cases "stopStep s")
  case (Some t)
  then have "gsStop t \<noteq> gsStop s" "gsStop s \<noteq> Returned (gsDoorCalls s)" by (auto simp: stopStep_def split: stop_phase.splits if_splits)
  with s_stop [OF Some] settleStep_is_step show ?thesis by (metis gatewayWork_def)
next
  case None
  show ?thesis
  proof (cases "gsStop s")
    case Waiting
    with None assms(1) have "gsCalls s \<noteq> []" "gsStepDone s" "gsCut s"
      by (auto simp: stopStep_def stopInv_def split: if_splits)
    from held_call_settles [OF this] Waiting settleStep_is_step show ?thesis by (auto simp: gatewayWork_def) (metis)
  qed (use None assms in \<open>auto simp: stopStep_def stopInv_def\<close>)
qed

section \<open>Properties\<close>

lemma stopped_gateway_accounts:
  assumes "reachableGateway g s" "gsCalls s = []"
  shows "gsDoorCalls s = int (length (gsEvents s)) \<and> list_all (doorEvent (scBind (gsCtx s))) (gsEvents s)"
  using gatewayRun.reachable_inv [OF assms(1)] assms(2) by (simp add: gatewayInv_def)

text \<open>
  C8: the count the gateway returns is exact. In every interleaving of any number of door calls, once
  no admitted call is left (which is when \<open>Stop\<close> returns), the number of admitted calls is the number
  of events the step's doors appended, and every one of them is a door event that carries the run's
  binding. Each admitted call leaves exactly one event, and a call that is not admitted leaves none.
\<close>

theorem stop_counts_exactly_the_recorded_calls:
  assumes "reachableGateway g s" "gsCalls s = []"
  shows "gsDoorCalls s = int (length (gsEvents s)) \<and> list_all (doorEvent (scBind (gsCtx s))) (gsEvents s)"
  by (rule stopped_gateway_accounts [OF assms])

text \<open>
  C9: the spawn caps hold at every moment. However the requests interleave, the children of a run in
  flight never exceed \<^verbatim>\<open>max_parallel\<close>, the compartment sets it consumed over its whole life together with
  the children still running never exceed \<^verbatim>\<open>max_total_spawns\<close>, and every child that was started is on
  the spawning agent's list and no deeper than \<^verbatim>\<open>max_depth\<close>.
\<close>

theorem spawn_caps_hold:
  assumes "reachableGateway g s" "pol = gwSpawn (gcGateway g)"
  shows "int (length (filter (\<lambda>p. childRuns p = 1) (gsCalls s))) \<le> max 0 (polMaxParallel pol)
    \<and> int (gsProvisioned s) + int (length (filter (\<lambda>p. childRuns p = 1) (gsCalls s))) \<le> max 0 (polMaxTotalSpawns pol)
    \<and> list_all (childOK pol) (gsChildren s)"
proof -
  have w: "length (filter (\<lambda>p. childRuns p = 1) cs) = weight childRuns cs" for cs
    by (induction cs) (auto simp: childRuns_def split: call_phase.splits)
  have "weight childRuns cs \<le> weight holdsSlot cs" for cs
    by (induction cs) (auto simp: phase_simps split: call_phase.splits)
  from this [of "gsCalls s"] show ?thesis
    using gatewayRun.reachable_inv [OF assms(1)] unfolding w by (auto simp: gatewayInv_def assms(2))
qed

text \<open>
  C10: \<open>Stop\<close> returns, whatever the upstreams, the runtime, the model endpoint and the children do. Once it has
  closed the doors, the gateway can take only a bounded number of further steps, in whatever order the
  held calls interleave, and none of them counts a call; and at every moment, unless \<open>Stop\<close> has returned with
  no call held, a step that waits for no party outside is possible, because \<open>Stop\<close> cancels the step's
  context and cuts the connections before it waits. The count it returns is the one there was when it
  closed the doors. (A client library whose context has ended returns an error, and a spawned run
  whose context has ended returns: that is the behaviour of the code outside that this rests on.)
\<close>

theorem stop_always_returns:
  assumes "reachableGateway g s" "gsClosing s" "(gatewayWork g ^^ n) s t"
  shows "n \<le> 5 * length (gsCalls s) + 3 \<and> gsDoorCalls t = gsDoorCalls s
    \<and> (gsStop t = Returned (gsDoorCalls s) \<and> gsCalls t = [] \<or> (\<exists>u. settleStep g t u \<and> gatewayWork g t u))"
proof -
  have inv: "stopInv s" by (rule gatewayStop.reachable_inv [OF assms(1)])
  then have "stopWork (gsStop s) \<le> 3" using assms(2) by (auto simp: stopInv_def stopWork_def split: stop_phase.splits)
  with gatewayWork_power [OF assms(3,2) inv] weight_work_le [of "gsCalls s"] stop_is_never_stuck [of t g]
  show ?thesis unfolding workLeft_def by force
qed

text \<open>What the engine sees of the gateway in an iteration: the events and the count of a stopped gateway.\<close>

definition servedBy :: "gatewayCfg \<Rightarrow> engineEnv \<Rightarrow> bool" where
  "servedBy g env \<longleftrightarrow> (\<forall>k. \<exists>s. reachableGateway g s \<and> gsClosing s \<and> gsCalls s = []
     \<and> envDoors env k = gsEvents s \<and> envStop env k = gsDoorCalls s)"

lemma servedBy_accounted: "servedBy g env \<Longrightarrow> doorsAccounted env"
  unfolding doorsAccounted_def
proof
  fix k
  assume "servedBy g env"
  then obtain s where s: "reachableGateway g s" "gsCalls s = []" "envDoors env k = gsEvents s" "envStop env k = gsDoorCalls s"
    unfolding servedBy_def by blast
  from stopped_gateway_accounts [OF s(1,2)] s(3,4)
  show "envStop env k = int (length (envDoors env k)) \<and> list_all (\<lambda>e. evType e \<in> set doorTypes) (envDoors env k)"
    by (auto simp: list_all_iff doorEvent_def)
qed

text \<open>
  C2: the engine, the gateway and the completeness check agree. A run served by the run gateway, whose
  ledger loses no append, leaves a ledger that \<open>Check\<close> judges complete, whatever the agents ask of the
  doors and in whatever order their calls interleave, on every path of the engine (success, failure,
  exhausted bounces, a gateway that does not start, a configuration error, a full artifact store,
  cancellation between or during steps), and the status of the final event is the one reported.
\<close>

theorem gateway_run_leaves_a_complete_ledger:
  assumes "Run host env reg role workflow input invk opts = (Some st, r, es)"
    and "Admit (hoQuote host) reg role workflow invk = None" and "hoStoreOpens host"
    and "hoAppend host = listAppend (\<lambda>_. True)" and "hoOpenLog host = Some []"
    and "servedBy g env" and "regWorkflows reg workflow = Some w" and "wfSteps w \<noteq> []"
  shows "rpVerdict (Check (rsLog st)) = Complete
    \<and> evType (last (rsLog st)) = ''workflow_finished'' \<and> evStatus (last (rsLog st)) = rrStatus r"
  by (rule accounted_run_is_complete [OF assms(1-5) servedBy_accounted [OF assms(6)] assms(7,8)])

section \<open>A concrete gateway\<close>

text \<open>One step of a run: a tool call that is not mirrored, and a spawn still running when the gateway closes.\<close>

definition demoGatewayCfg :: gatewayCfg where
  "demoGatewayCfg = \<lparr>gcLib = demoDoorLib, gcGateway = demoGateway, gcStatusText = (\<lambda>_. ''''), gcExecURL = '''', gcSelf = 1,
     gcSpawner = True\<rparr>"

definition demoWorld :: doorWorld where
  "demoWorld = \<lparr>dwAsk = (\<lambda>_ _ _. Answered None), dwStat = demoStat, dwRuntime = (\<lambda>_. ExecBody 200 ''ok''), dwEnv = (\<lambda>_. ''''),
     dwRoleKey = ''k'', dwUpstream = (\<lambda>_ _. RoundTripFails)\<rparr>"

definition demoServing :: gatewayState where
  "demoServing = \<lparr>gsCtx = Gateway_Doors.demoStep, gsServing = True, gsClosing = False, gsStop = NotStopping, gsStepDone = False,
     gsCut = False, gsDoorCalls = 0, gsCalls = [],
     gsSpawnInflight = 0, gsSpawnTotal = 0, gsEvents = [], gsProvisioned = 0, gsChildren = []\<rparr>"

definition demoTool :: doorResult where
  "demoTool = toolsCall demoDoorLib Gateway_Doors.demoStep (dwAsk demoWorld) ''other'' ''{}''"

definition demoTold :: gatewayState where
  "demoTold = recordEvent 0 False demoTool (setCall 0 (Answering demoTool) (admit (ToolRequest ''other'' ''{}'') demoServing))"

definition demoStopped :: gatewayState where
  "demoStopped = beginStop (dropCall 0 demoTold)"

definition demoChildRuns :: gatewayState where
  "demoChildRuns = reserve demoGatewayCfg 1 \<lparr>sqRole = ''dev'', sqWorkflow = ''w'', sqInput = ''i''\<rparr> (admit (SpawnRequest ''go'') demoTold)"

lemma demoServing_reachable: "reachableGateway demoGatewayCfg demoServing"
proof -
  let ?new = "demoServing\<lparr>gsServing := False\<rparr>"
  have "reachableGateway demoGatewayCfg ?new" by (rule reach_init) (simp add: newGateway_def demoServing_def)
  moreover have "gatewayStep demoGatewayCfg ?new
      (?new\<lparr>gsCtx := Gateway_Doors.demoStep, gsServing := True, gsClosing := False, gsStop := NotStopping, gsStepDone := False,
        gsCut := False, gsDoorCalls := 0, gsEvents := []\<rparr>)"
    by (rule g_start) (simp_all add: demoServing_def mayStart_def)
  ultimately show ?thesis by (auto simp: demoServing_def intro: reach_step)
qed

lemma demoTold_reachable: "reachableGateway demoGatewayCfg demoTold"
proof -
  let ?r = "ToolRequest ''other'' ''{}''"
  have a: "reachableGateway demoGatewayCfg (admit ?r demoServing)"
    by (rule reach_step [OF demoServing_reachable g_arrive]) (simp add: demoServing_def)
  have b: "reachableGateway demoGatewayCfg (setCall 0 (Answering demoTool) (admit ?r demoServing))"
    by (rule reach_step [OF a g_serve [where r = ?r and w = demoWorld]])
      (simp_all add: admit_def demoServing_def serveDoor_def demoTool_def demoGatewayCfg_def)
  show ?thesis
    unfolding demoTold_def
    by (rule reach_step [OF b g_record]) (simp_all add: setCall_def admit_def demoServing_def)
qed

lemma demoTold_calls: "gsCalls demoTold = [Recorded False]" "gsServing demoTold" "\<not> gsClosing demoTold"
  by (simp_all add: demoTold_def recordEvent_def setCall_def admit_def demoServing_def)

lemma demoStopped_reachable: "reachableGateway demoGatewayCfg demoStopped"
  unfolding demoStopped_def
  by (rule reach_step [OF reach_step [OF demoTold_reachable g_release] g_stop]) (simp_all add: demoTold_calls)

lemma demoChildRuns_reachable: "reachableGateway demoGatewayCfg demoChildRuns"
proof -
  have a: "reachableGateway demoGatewayCfg (admit (SpawnRequest ''go'') demoTold)"
    by (rule reach_step [OF demoTold_reachable g_arrive]) (simp add: demoTold_calls)
  have "spawnAuthorize demoDoorLib Gateway_Doors.demoStep True ''go'' = Inr \<lparr>sqRole = ''dev'', sqWorkflow = ''w'', sqInput = ''i''\<rparr>"
    by (simp add: spawnAuthorize_def demoDoorLib_def Gateway_Doors.demoStep_def demoDoorAgent_def MaySpawnTarget_def)
  then show ?thesis
    unfolding demoChildRuns_def
    by (intro reach_step [OF a g_reserve [where body = "''go''"]])
      (simp_all add: admit_def demoTold_def recordEvent_def setCall_def demoServing_def demoGatewayCfg_def)
qed

theorem stop_counts_exactly_the_recorded_calls_witness: "gsDoorCalls demoStopped = 1 \<and> length (gsEvents demoStopped) = 1"
proof -
  have "gsCalls demoStopped = []" by (simp add: demoStopped_def beginStop_def dropCall_def demoTold_calls)
  moreover have "gsDoorCalls demoStopped = 1"
    by (simp add: demoStopped_def beginStop_def dropCall_def demoTold_def recordEvent_def setCall_def admit_def demoServing_def)
  ultimately show ?thesis using stop_counts_exactly_the_recorded_calls [OF demoStopped_reachable] by simp
qed

theorem spawn_caps_hold_witness: "length (filter (\<lambda>p. childRuns p = 1) (gsCalls demoChildRuns)) \<le> 1"
  using spawn_caps_hold [OF demoChildRuns_reachable refl] by (simp add: demoGatewayCfg_def demoGateway_def)

text \<open>A stop while a tool call is held and nobody answers it.\<close>

definition demoHeld :: gatewayState where
  "demoHeld = beginStop (admit (ToolRequest ''read'' ''{}'') demoServing)"

lemma demoHeld_reachable: "reachableGateway demoGatewayCfg demoHeld"
  unfolding demoHeld_def
  by (rule reach_step [OF reach_step [OF demoServing_reachable g_arrive] g_stop]) (simp add: demoServing_def)

theorem stop_always_returns_witness:
  "gsCalls (the (stopStep demoHeld)) = [Admitted (ToolRequest ''read'' ''{}'')]
   \<and> (\<exists>u. settleStep demoGatewayCfg (the (stopStep demoHeld)) u)"
proof -
  have h: "stopStep demoHeld = Some (the (stopStep demoHeld))" "gsClosing demoHeld" "gsStop (the (stopStep demoHeld)) = Cutting"
    "gsCalls (the (stopStep demoHeld)) = [Admitted (ToolRequest ''read'' ''{}'')]" "gsStop demoHeld = Cancelling"
    by (simp_all add: demoHeld_def beginStop_def admit_def demoServing_def stopStep_def)
  then have "gatewayWork demoGatewayCfg demoHeld (the (stopStep demoHeld))"
    unfolding gatewayWork_def using g_stopping [OF h(1)] by auto
  then have "(gatewayWork demoGatewayCfg ^^ 1) demoHeld (the (stopStep demoHeld))" by (simp add: eq_OO)
  from stop_always_returns [OF demoHeld_reachable h(2) this] h(3,4) show ?thesis by auto
qed

definition demoGatewayEnv :: engineEnv where
  "demoGatewayEnv = demoEnv\<lparr>envDoors := (\<lambda>_. gsEvents demoStopped), envStop := (\<lambda>_. gsDoorCalls demoStopped)\<rparr>"

lemma demoGatewayEnv_served: "servedBy demoGatewayCfg demoGatewayEnv"
  unfolding servedBy_def
  by (intro allI exI [of _ demoStopped])
    (simp add: demoStopped_reachable demoGatewayEnv_def demoEnv_def, simp add: demoStopped_def beginStop_def dropCall_def demoTold_calls)

theorem gateway_run_leaves_a_complete_ledger_witness:
  "\<exists>st r es. Run demoHost demoGatewayEnv demoReg ''dev'' ''feature'' ''do it'' demoInvoker demoOptions = (Some st, r, es)
     \<and> rpVerdict (Check (rsLog st)) = Complete"
proof -
  let ?run = "Run demoHost demoGatewayEnv demoReg ''dev'' ''feature'' ''do it'' demoInvoker demoOptions"
  have a: "Admit (hoQuote demoHost) demoReg ''dev'' ''feature'' demoInvoker = None" "hoStoreOpens demoHost"
    and w: "regWorkflows demoReg ''feature'' = Some demoFeature" "wfSteps demoFeature \<noteq> []" by code_simp+
  have h: "hoAppend demoHost = listAppend (\<lambda>_. True)" "hoOpenLog demoHost = Some []" by (simp_all add: demoHost_def)
  obtain st r es where r: "?run = (Some st, r, es)"
    using a h(2) by (cases ?run) (auto simp: Run_def Let_def split: option.splits prod.splits)
  show ?thesis using gateway_run_leaves_a_complete_ledger [OF r a h demoGatewayEnv_served w] r by blast
qed

end
