(* ===== verification/Sink.thy ===== *)
theory Sink
  imports Control_Rebuild
begin

text \<open>
  Package \<^verbatim>\<open>internal/sink\<close>, the write-once rule (\<^verbatim>\<open>sink.go\<close>) over the storage line (\<^verbatim>\<open>store.go\<close>):
  \<open>Prepare\<close>, \<open>Put\<close> and the readers of one bucket and prefix.

  An \<open>objectStore\<close> is an argument: five operations on the state of the bucket, each of which may find the
  state changed by other writers and may fail. \<open>keepsVersions\<close> states what a bucket with Object Lock
  promises: a version keeps its bytes, new versions come on top, an id is never used twice, and a
  version under a compliance lock stays until its date. An instant is a number of nanoseconds since
  Go's zero time. An error keeps its cause and the values it names, not its fixed text; the timeout of
  a call is one of the ways the store fails.
\<close>

section \<open>The storage line\<close>

record objectVersion =
  ovKey :: bytes
  ovID :: bytes
  ovIsLatest :: bool
  ovDeleteMarker :: bool
  ovSize :: int
  ovLastModified :: int

record lock =
  lkMode :: bytes
  lkRetainUntil :: int

datatype store_error =
    ObjectTooLarge
  | StatusError bytes int bytes
  | ClockSkew
  | StoreFault bytes

record 's objectStore =
  osPutLocked :: "'s \<Rightarrow> bytes \<Rightarrow> bytes \<Rightarrow> bytes \<Rightarrow> int \<Rightarrow> 's \<times> (store_error + bytes)"
  osGet :: "'s \<Rightarrow> bytes \<Rightarrow> bytes \<Rightarrow> int \<Rightarrow> 's \<times> (store_error + bytes)"
  osRetention :: "'s \<Rightarrow> bytes \<Rightarrow> bytes \<Rightarrow> 's \<times> (store_error + lock)"
  osLockEnabled :: "'s \<Rightarrow> 's \<times> (store_error + bool)"
  osListVersions :: "'s \<Rightarrow> bytes \<Rightarrow> 's \<times> (store_error + objectVersion list)"

section \<open>The backend\<close>

record 's S3 =
  s3URL :: bytes
  s3Bucket :: bytes
  s3Prefix :: bytes
  s3Region :: bytes
  s3Retention :: int
  s3Timeout :: int
  s3Store :: "'s objectStore"

datatype sink_error =
    NotAnHTTPURL bytes
  | NoBucket bytes
  | KeysRequired
  | RetentionNotPositive
  | NoRegion bytes
  | StoreRefused store_error
  | NoObjectLock bytes
  | OccupiedFresh bytes
  | NotCompliance bytes
  | DigestMismatch bytes bytes
  | Occupied bytes
  | Unconfirmed bool "bytes option" store_error
  | NoVersionID
  | Unlisted store_error
  | NotTheOldest bytes
  | UnderLocked bytes lock
  | BodyOverBound bytes bytes int

definition KindS3ObjectLock :: bytes where
  "KindS3ObjectLock = ''s3-object-lock''"

definition defaultTimeout :: int where
  "defaultTimeout = 60 * 1000000000"

definition newS3 :: "bytes \<Rightarrow> bytes \<Rightarrow> bytes \<Rightarrow> 's objectStore \<Rightarrow> int \<Rightarrow> int \<Rightarrow> 's S3" where
  "newS3 u bucket pre store retention timeout =
     \<lparr>s3URL = u, s3Bucket = bucket, s3Prefix = pre, s3Region = '''', s3Retention = retention,
      s3Timeout = if timeout \<le> 0 then defaultTimeout else timeout, s3Store = store\<rparr>"

text \<open>
  \<open>net/url\<close> is an argument: what it parses of a text, and the text of what it parsed; so is the host name
  it reads off a host.
\<close>

definition parseBackendURL :: "(bytes \<Rightarrow> parsedURL option) \<Rightarrow> (parsedURL \<Rightarrow> bytes) \<Rightarrow> bytes \<Rightarrow> sink_error + bytes" where
  "parseBackendURL parse render s0 =
     (let s = trimSuffix s0 ''/''
      in case parse s of
           None \<Rightarrow> Inl (NotAnHTTPURL s)
         | Some u \<Rightarrow>
             if (puScheme u \<noteq> ''http'' \<and> puScheme u \<noteq> ''https'') \<or> puHost u = '''' \<or> puUser u \<or> puRawQuery u \<noteq> ''''
                \<or> puForceQuery u \<or> puFragment u \<noteq> ''''
             then Inl (NotAnHTTPURL s) else Inr (render u))"

definition lowerLetter :: "char \<Rightarrow> bool" where
  "lowerLetter c \<longleftrightarrow> 97 \<le> (of_char c :: nat) \<and> (of_char c :: nat) \<le> 122"

text \<open>\<open>strings.ToUpper\<close> on ASCII, which is all it is applied to: the mode \<^verbatim>\<open>compliance\<close>.\<close>

definition asciiUpper :: "char \<Rightarrow> char" where
  "asciiUpper c = (if lowerLetter c then char_of ((of_char c :: nat) - 32) else c)"

text \<open>The capture of \<open>awsRegionHostRE\<close>: two letters, an optional partition, letters, digits.\<close>

definition regionShape :: "bytes \<Rightarrow> bool" where
  "regionShape r =
     (let two = \<lambda>p. length p = 2 \<and> list_all lowerLetter p;
          name = \<lambda>p. p \<noteq> [] \<and> list_all lowerLetter p;
          num = \<lambda>p. p \<noteq> [] \<and> list_all isDigit p;
          part = \<lambda>p. p = ''gov'' \<or> p = ''iso'' \<or> (length p = 4 \<and> take 3 p = ''iso'' \<and> list_all lowerLetter p)
      in case splitOn CHR ''-'' r of
           [a, b, c] \<Rightarrow> two a \<and> name b \<and> num c
         | [a, g, b, c] \<Rightarrow> two a \<and> part g \<and> name b \<and> num c
         | _ \<Rightarrow> False)"

definition awsRegionHost :: "bytes \<Rightarrow> bytes option" where
  "awsRegionHost host =
     (if \<not> (has_prefix host ''s3.'' \<or> has_prefix host ''s3-'') then None
      else let rest = drop 3 host;
               r = if hasSuffix rest ''.amazonaws.com'' then trimSuffix rest ''.amazonaws.com''
                   else trimSuffix rest ''.amazonaws.com.cn''
           in if (hasSuffix rest ''.amazonaws.com'' \<or> hasSuffix rest ''.amazonaws.com.cn'') \<and> regionShape r
              then Some r else None)"

definition regionFor :: "(bytes \<Rightarrow> bytes) \<Rightarrow> bytes \<Rightarrow> bytes \<Rightarrow> sink_error + bytes" where
  "regionFor toLower host0 configured =
     (if configured \<noteq> '''' then Inr configured
      else let host = toLower host0
           in case awsRegionHost host of
                Some r \<Rightarrow> Inr r
              | None \<Rightarrow>
                  if host = ''s3.amazonaws.com'' then Inr ''us-east-1''
                  else if hasSuffix host ''.amazonaws.com'' \<or> hasSuffix host ''.amazonaws.com.cn'' then Inl (NoRegion host)
                  else Inr ''us-east-1'')"

definition cutAt :: "char \<Rightarrow> bytes \<Rightarrow> bytes \<times> bytes" where
  "cutAt c s = (takeWhile (\<lambda>x. x \<noteq> c) s, drop 1 (dropWhile (\<lambda>x. x \<noteq> c) s))"

text \<open>
  The transport is built from the scheme and host, the host alone, the bucket and the region; the keys
  are there or not, and the client and the clock are the transport's.
\<close>

definition NewS3 ::
  "(bytes \<Rightarrow> parsedURL option) \<Rightarrow> (parsedURL \<Rightarrow> bytes) \<Rightarrow> (bytes \<Rightarrow> bytes) \<Rightarrow> (bytes \<Rightarrow> bytes) \<Rightarrow>
   (bytes \<Rightarrow> bytes \<Rightarrow> bytes \<Rightarrow> bytes \<Rightarrow> 's objectStore) \<Rightarrow> bytes \<Rightarrow> bytes \<Rightarrow> bool \<Rightarrow> int \<Rightarrow> int \<Rightarrow> sink_error + 's S3" where
  "NewS3 parse render hostname toLower newStore rawURL optRegion optKeys optRetention optTimeout =
     (case parseBackendURL parse render rawURL of
        Inl e \<Rightarrow> Inl e
      | Inr u \<Rightarrow>
          (case parse u of
             None \<Rightarrow> Inl (NotAnHTTPURL u)
           | Some p \<Rightarrow>
               (case cutAt CHR ''/'' (trimSlashes (puPath p)) of
                  (bucket, pre) \<Rightarrow>
                    if bucket = '''' then Inl (NoBucket rawURL)
                    else if \<not> optKeys then Inl KeysRequired
                    else if optRetention \<le> 0 then Inl RetentionNotPositive
                    else (case regionFor toLower (hostname (puHost p)) optRegion of
                            Inl e \<Rightarrow> Inl e
                          | Inr region \<Rightarrow>
                              Inr ((newS3 u bucket (trimSlashes pre)
                                      (newStore (puScheme p @ ''://'' @ puHost p) (puHost p) bucket region)
                                      optRetention optTimeout)\<lparr>s3Region := region\<rparr>)))))"

section \<open>Where a segment goes\<close>

definition Prefix :: "'s S3 \<Rightarrow> bytes \<Rightarrow> bytes" where
  "Prefix s logID = (if s3Prefix s = '''' then logID @ ''/'' else s3Prefix s @ ''/'' @ logID @ ''/'')"

definition truncateSecond :: "int \<Rightarrow> int" where
  "truncateSecond t = t - t mod 1000000000"

definition Locator :: "'s S3 \<Rightarrow> bytes \<Rightarrow> nat \<Rightarrow> int \<Rightarrow> SealSink" where
  "Locator s logID n sealedAt =
     \<lparr>ssKind = KindS3ObjectLock, ssURL = s3URL s, ssKey = Prefix s logID @ ''seg-'' @ pad6 n, ssMode = ''compliance'',
      ssRetainUntil = truncateSecond sealedAt + s3Retention s\<rparr>"

section \<open>Listing\<close>

definition versionOf :: "objectVersion \<Rightarrow> SinkVersion" where
  "versionOf e = \<lparr>svID = ovID e, svIsLatest = ovIsLatest e, svSize = ovSize e, svLastModified = ovLastModified e\<rparr>"

text \<open>An entry joins its key: a marker is noted, a version goes in front, as the store lists newest first.\<close>

definition addVersion :: "objectVersion \<Rightarrow> KeyVersions \<Rightarrow> KeyVersions" where
  "addVersion e kv =
     (if ovDeleteMarker e then kv\<lparr>kvDeleteMarker := True\<rparr> else kv\<lparr>kvVersions := versionOf e # kvVersions kv\<rparr>)"

definition keyVersions :: "'s S3 \<Rightarrow> 's \<Rightarrow> bytes \<Rightarrow> 's \<times> (store_error + KeyVersions)" where
  "keyVersions s w key =
     (case osListVersions (s3Store s) w key of
        (w', Inl e) \<Rightarrow> (w', Inl e)
      | (w', Inr entries) \<Rightarrow>
          (w', Inr (fold (\<lambda>e kv. if ovKey e \<noteq> key then kv else addVersion e kv) entries
                      \<lparr>kvKey = key, kvVersions = [], kvDeleteMarker = False\<rparr>)))"

fun addToKeys :: "objectVersion \<Rightarrow> KeyVersions list \<Rightarrow> KeyVersions list" where
  "addToKeys e [] = [addVersion e \<lparr>kvKey = ovKey e, kvVersions = [], kvDeleteMarker = False\<rparr>]"
| "addToKeys e (kv # kvs) = (if kvKey kv = ovKey e then addVersion e kv # kvs else kv # addToKeys e kvs)"

definition ListVersions :: "'s S3 \<Rightarrow> 's \<Rightarrow> bytes \<Rightarrow> 's \<times> (store_error + KeyVersions)" where
  "ListVersions s w key = keyVersions s w key"

definition ListPrefix :: "'s S3 \<Rightarrow> 's \<Rightarrow> bytes \<Rightarrow> 's \<times> (store_error + KeyVersions list)" where
  "ListPrefix s w pre =
     (case osListVersions (s3Store s) w pre of
        (w', Inl e) \<Rightarrow> (w', Inl e)
      | (w', Inr entries) \<Rightarrow> (w', Inr (fold addToKeys entries [])))"

definition GetRetention :: "'s S3 \<Rightarrow> 's \<Rightarrow> bytes \<Rightarrow> bytes \<Rightarrow> 's \<times> (store_error + SinkRetention)" where
  "GetRetention s w key i =
     (case osRetention (s3Store s) w key i of
        (w', Inl e) \<Rightarrow> (w', Inl e)
      | (w', Inr l) \<Rightarrow> (w', Inr \<lparr>rnMode = lkMode l, rnRetainUntil = lkRetainUntil l\<rparr>))"

definition S3Get :: "'s S3 \<Rightarrow> 's \<Rightarrow> bytes \<Rightarrow> bytes \<Rightarrow> int \<Rightarrow> 's \<times> (sink_error + bytes)" where
  "S3Get s w key i bound =
     (case osGet (s3Store s) w key i bound of
        (w', Inl ObjectTooLarge) \<Rightarrow> (w', Inl (BodyOverBound key i bound))
      | (w', Inl e) \<Rightarrow> (w', Inl (StoreRefused e))
      | (w', Inr body) \<Rightarrow> (w', Inr body))"

section \<open>Writing\<close>

definition Prepare :: "'s S3 \<Rightarrow> 's \<Rightarrow> SealSink \<Rightarrow> 's \<times> sink_error option" where
  "Prepare s w loc =
     (case osLockEnabled (s3Store s) w of
        (w1, Inl e) \<Rightarrow> (w1, Some (StoreRefused e))
      | (w1, Inr False) \<Rightarrow> (w1, Some (NoObjectLock (s3Bucket s)))
      | (w1, Inr True) \<Rightarrow>
          (case keyVersions s w1 (ssKey loc) of
             (w2, Inl e) \<Rightarrow> (w2, Some (StoreRefused e))
           | (w2, Inr kv) \<Rightarrow> (w2, if kvVersions kv \<noteq> [] then Some (OccupiedFresh (ssKey loc)) else None)))"

definition lockUntil :: "'s S3 \<Rightarrow> int \<Rightarrow> SealSink \<Rightarrow> int" where
  "lockUntil s now loc =
     (let earliest = truncateSecond now + s3Retention s in if earliest > ssRetainUntil loc then earliest else ssRetainUntil loc)"

definition unconfirmed :: "store_error \<Rightarrow> bool \<Rightarrow> sink_error" where
  "unconfirmed e existed =
     (case e of
        StatusError op st _ \<Rightarrow>
          Unconfirmed existed
            (if st = 403 then Some (if op = ''GetObject'' then ''the object back'' else ''the object's retention'') else None) e
      | _ \<Rightarrow> Unconfirmed existed None e)"

definition underLocked :: "bytes \<Rightarrow> lock \<Rightarrow> SealSink \<Rightarrow> sink_error option" where
  "underLocked i l loc =
     (if lkMode l = map asciiUpper (ssMode loc) \<and> \<not> lkRetainUntil l < ssRetainUntil loc then None else Some (UnderLocked i l))"

fun sameAsAll :: "'s S3 \<Rightarrow> SealSink \<Rightarrow> bytes \<Rightarrow> 's \<Rightarrow> SinkVersion list \<Rightarrow> 's \<times> sink_error option" where
  "sameAsAll s loc data w [] = (w, None)"
| "sameAsAll s loc data w (v # vs) =
     (if svSize v \<noteq> int (length data) then (w, Some (Occupied (ssKey loc)))
      else case osGet (s3Store s) w (ssKey loc) (svID v) (int (length data)) of
             (w', Inl ObjectTooLarge) \<Rightarrow> (w', Some (Occupied (ssKey loc)))
           | (w', Inl e) \<Rightarrow> (w', Some (unconfirmed e True))
           | (w', Inr body) \<Rightarrow>
               if body \<noteq> data then (w', Some (Occupied (ssKey loc))) else sameAsAll s loc data w' vs)"

text \<open>The lock of a version, read back: a receipt when it is what the record promises.\<close>

definition readBack :: "'s S3 \<Rightarrow> SealSink \<Rightarrow> 's \<Rightarrow> bytes \<Rightarrow> bool \<Rightarrow> 's \<times> (sink_error + PutReceipt)" where
  "readBack s loc w i existed =
     (case osRetention (s3Store s) w (ssKey loc) i of
        (w', Inl e) \<Rightarrow> (w', Inl (unconfirmed e existed))
      | (w', Inr l) \<Rightarrow>
          (case underLocked i l loc of
             Some e \<Rightarrow> (w', Inl e)
           | None \<Rightarrow> (w', Inr \<lparr>prVersionID = i, prRetainUntil = lkRetainUntil l, prExisted = existed\<rparr>)))"

definition writeCopy :: "'s S3 \<Rightarrow> int \<Rightarrow> SealSink \<Rightarrow> bytes \<Rightarrow> 's \<Rightarrow> 's \<times> (sink_error + PutReceipt)" where
  "writeCopy s now loc data w =
     (case osPutLocked (s3Store s) w (ssKey loc) data ''COMPLIANCE'' (lockUntil s now loc) of
        (w1, Inl e) \<Rightarrow> (w1, Inl (StoreRefused e))
      | (w1, Inr i) \<Rightarrow>
          if i = '''' then (w1, Inl NoVersionID)
          else (case keyVersions s w1 (ssKey loc) of
                  (w2, Inl e) \<Rightarrow> (w2, Inl (Unlisted e))
                | (w2, Inr after) \<Rightarrow>
                    (case kvVersions after of
                       [] \<Rightarrow> (w2, Inl (NotTheOldest i))
                     | v # _ \<Rightarrow> if svID v \<noteq> i then (w2, Inl (NotTheOldest i)) else readBack s loc w2 i False)))"

definition S3Put ::
  "(bytes \<Rightarrow> bytes) \<Rightarrow> 's S3 \<Rightarrow> int \<Rightarrow> SealSink \<Rightarrow> bytes \<Rightarrow> bytes \<Rightarrow> 's \<Rightarrow> 's \<times> (sink_error + PutReceipt)" where
  "S3Put hash s now loc data sha256hex w =
     (if ssMode loc \<noteq> ''compliance'' then (w, Inl (NotCompliance (ssMode loc)))
      else if hash data \<noteq> sha256hex then (w, Inl (DigestMismatch sha256hex (hash data)))
      else case keyVersions s w (ssKey loc) of
             (w1, Inl e) \<Rightarrow> (w1, Inl (StoreRefused e))
           | (w1, Inr kv) \<Rightarrow>
               (case sameAsAll s loc data w1 (kvVersions kv) of
                  (w2, Some e) \<Rightarrow> (w2, Inl e)
                | (w2, None) \<Rightarrow>
                    (case kvVersions kv of
                       v # _ \<Rightarrow> readBack s loc w2 (svID v) True
                     | [] \<Rightarrow> writeCopy s now loc data w2)))"


section \<open>What a bucket under Object Lock promises\<close>

text \<open>
  What is in a bucket: the ids of the versions at a key, oldest first (delete markers apart), the bytes
  of every version ever written, the lock of a version, and the store's clock.
\<close>

record 's holdings =
  hdIDs :: "'s \<Rightarrow> bytes \<Rightarrow> bytes list"
  hdBody :: "'s \<Rightarrow> bytes \<Rightarrow> bytes \<Rightarrow> bytes option"
  hdLock :: "'s \<Rightarrow> bytes \<Rightarrow> bytes \<Rightarrow> lock"
  hdClock :: "'s \<Rightarrow> int"

definition complianceUntil :: "'s holdings \<Rightarrow> 's \<Rightarrow> bytes \<Rightarrow> bytes \<Rightarrow> int \<Rightarrow> bool" where
  "complianceUntil H w key i t \<longleftrightarrow>
     i \<in> set (hdIDs H w key) \<and> lkMode (hdLock H w key i) = ''COMPLIANCE'' \<and> t \<le> lkRetainUntil (hdLock H w key i)"

text \<open>
  What may happen to a bucket, whoever writes to it: the clock goes on; what was written keeps its bytes;
  of the versions at a key some stay, in their order, and versions with unused ids come after them; and
  a version under a compliance lock whose date has not come stays, its lock no shorter.
\<close>

definition bucketGoesOn :: "'s holdings \<Rightarrow> 's \<Rightarrow> 's \<Rightarrow> bool" where
  "bucketGoesOn H w w' \<longleftrightarrow>
     hdClock H w \<le> hdClock H w'
     \<and> (\<forall>key i b. hdBody H w key i = Some b \<longrightarrow> hdBody H w' key i = Some b)
     \<and> (\<forall>key. \<exists>keep new. hdIDs H w' key = filter keep (hdIDs H w key) @ new \<and> (\<forall>i \<in> set new. hdBody H w key i = None))
     \<and> (\<forall>key i t. complianceUntil H w key i t \<longrightarrow> hdClock H w' < t \<longrightarrow> complianceUntil H w' key i t)"

definition versionIDs :: "bytes \<Rightarrow> objectVersion list \<Rightarrow> bytes list" where
  "versionIDs key es = rev (map ovID (filter (\<lambda>e. ovKey e = key \<and> \<not> ovDeleteMarker e) es))"

text \<open>
  The documented behaviour of the five operations: each is a moment of such a history, and its answer is
  true of the moment it ends with. A failed write may or may not have happened.
\<close>

definition keepsVersions :: "'s objectStore \<Rightarrow> 's holdings \<Rightarrow> bool" where
  "keepsVersions st H \<longleftrightarrow>
     (\<forall>w key. \<forall>i \<in> set (hdIDs H w key). hdBody H w key i \<noteq> None)
     \<and> (\<forall>w key b m t w' r. osPutLocked st w key b m t = (w', r) \<longrightarrow> bucketGoesOn H w w'
          \<and> (\<forall>i. r = Inr i \<longrightarrow> i \<noteq> [] \<longrightarrow> hdBody H w' key i = Some b))
     \<and> (\<forall>w key i n w' r. osGet st w key i n = (w', r) \<longrightarrow> bucketGoesOn H w w'
          \<and> (\<forall>b. r = Inr b \<longrightarrow> hdBody H w' key i = Some b))
     \<and> (\<forall>w key i w' r. osRetention st w key i = (w', r) \<longrightarrow> bucketGoesOn H w w'
          \<and> (\<forall>l. r = Inr l \<longrightarrow> i \<in> set (hdIDs H w' key) \<and> hdLock H w' key i = l))
     \<and> (\<forall>w w' r. osLockEnabled st w = (w', r) \<longrightarrow> bucketGoesOn H w w')
     \<and> (\<forall>w pre w' r. osListVersions st w pre = (w', r) \<longrightarrow> bucketGoesOn H w w'
          \<and> (\<forall>es key. r = Inr es \<longrightarrow> has_prefix key pre \<longrightarrow> versionIDs key es = hdIDs H w' key))"

lemma keeps_written: "keepsVersions st H \<Longrightarrow> i \<in> set (hdIDs H w key) \<Longrightarrow> hdBody H w key i \<noteq> None"
  unfolding keepsVersions_def by simp

lemma keeps_put:
  "keepsVersions st H \<Longrightarrow> osPutLocked st w key b m t = (w', Inr i) \<Longrightarrow> i \<noteq> [] \<Longrightarrow>
     bucketGoesOn H w w' \<and> hdBody H w' key i = Some b"
  unfolding keepsVersions_def by simp

lemma keeps_get:
  "keepsVersions st H \<Longrightarrow> osGet st w key i n = (w', Inr b) \<Longrightarrow> bucketGoesOn H w w' \<and> hdBody H w' key i = Some b"
  unfolding keepsVersions_def by simp

lemma keeps_retention:
  "keepsVersions st H \<Longrightarrow> osRetention st w key i = (w', Inr l) \<Longrightarrow>
     bucketGoesOn H w w' \<and> i \<in> set (hdIDs H w' key) \<and> hdLock H w' key i = l"
  unfolding keepsVersions_def by simp

lemma keeps_list:
  "keepsVersions st H \<Longrightarrow> osListVersions st w pre = (w', Inr es) \<Longrightarrow>
     bucketGoesOn H w w' \<and> (\<forall>key. has_prefix key pre \<longrightarrow> versionIDs key es = hdIDs H w' key)"
  unfolding keepsVersions_def by simp

lemma goes_on_body: "bucketGoesOn H w w' \<Longrightarrow> hdBody H w key i = Some b \<Longrightarrow> hdBody H w' key i = Some b"
  unfolding bucketGoesOn_def by blast

lemma goes_on_locked:
  "bucketGoesOn H w w' \<Longrightarrow> complianceUntil H w key i t \<Longrightarrow> hdClock H w' < t \<Longrightarrow> complianceUntil H w' key i t"
  unfolding bucketGoesOn_def by blast

text \<open>The oldest version stays the oldest as long as it is there.\<close>

lemma goes_on_oldest:
  assumes "bucketGoesOn H w w'" "hdIDs H w key = i # is" "hdBody H w key i \<noteq> None" "i \<in> set (hdIDs H w' key)"
  shows "\<exists>is'. hdIDs H w' key = i # is'"
proof -
  obtain keep new where n: "hdIDs H w' key = filter keep (hdIDs H w key) @ new" "\<forall>j \<in> set new. hdBody H w key j = None"
    using assms(1) unfolding bucketGoesOn_def by blast
  show ?thesis
  proof (cases "keep i")
    case True
    with n assms(2) show ?thesis by simp
  next
    case False
    with n assms(4) have "i \<in> set new" by auto
    with n(2) assms(3) show ?thesis by simp
  qed
qed

section \<open>What listing and comparing read\<close>

lemma addVersion_ids:
  "map svID (kvVersions (fold (\<lambda>e kv. if ovKey e \<noteq> key then kv else addVersion e kv) es kv)) = versionIDs key es @ map svID (kvVersions kv)"
  by (induction es arbitrary: kv) (simp_all add: versionIDs_def addVersion_def versionOf_def)

lemma has_prefix_refl [simp]: "has_prefix k k"
  by (simp add: has_prefix_def)

lemma keyVersions_ids:
  assumes "keepsVersions (s3Store s) H" "keyVersions s w key = (w', Inr kv)"
  shows "bucketGoesOn H w w' \<and> map svID (kvVersions kv) = hdIDs H w' key"
  using assms keeps_list [OF assms(1), of w key w']
  by (auto simp: keyVersions_def addVersion_ids split: prod.splits sum.splits)


lemma goes_on_refl [simp]: "bucketGoesOn H w w"
  unfolding bucketGoesOn_def by (auto intro: exI [of _ "\<lambda>_. True"] exI [of _ "[]"])

lemma goes_on_trans:
  assumes a: "bucketGoesOn H w w'" and b: "bucketGoesOn H w' w''"
  shows "bucketGoesOn H w w''"
proof -
  have "\<exists>keep new. hdIDs H w'' key = filter keep (hdIDs H w key) @ new \<and> (\<forall>i \<in> set new. hdBody H w key i = None)" for key
  proof -
    obtain keep new where n: "hdIDs H w' key = filter keep (hdIDs H w key) @ new" "\<forall>i \<in> set new. hdBody H w key i = None"
      using a unfolding bucketGoesOn_def by blast
    obtain keep' new' where n': "hdIDs H w'' key = filter keep' (hdIDs H w' key) @ new'" "\<forall>i \<in> set new'. hdBody H w' key i = None"
      using b unfolding bucketGoesOn_def by blast
    have "hdBody H w key i = None" if "i \<in> set new'" for i
      using that n'(2) goes_on_body [OF a, of key i] by (cases "hdBody H w key i") auto
    with n n' show ?thesis
      by (intro exI [of _ "\<lambda>i. keep i \<and> keep' i"] exI [of _ "filter keep' new @ new'"]) (auto simp: conj_commute)
  qed
  moreover have "hdClock H w \<le> hdClock H w''" "hdClock H w' \<le> hdClock H w''" using a b by (auto simp: bucketGoesOn_def)
  ultimately show ?thesis
    using a b unfolding bucketGoesOn_def by (smt (verit))
qed

lemma sameAsAll_same:
  assumes "keepsVersions (s3Store s) H" "sameAsAll s loc data w vs = (w', None)"
  shows "bucketGoesOn H w w' \<and> (\<forall>v \<in> set vs. hdBody H w' (ssKey loc) (svID v) = Some data)"
  using assms(2)
proof (induction vs arbitrary: w)
  case (Cons v vs)
  obtain w1 where g: "osGet (s3Store s) w (ssKey loc) (svID v) (int (length data)) = (w1, Inr data)"
    and rest: "sameAsAll s loc data w1 vs = (w', None)"
    using Cons.prems by (auto split: if_splits prod.splits sum.splits store_error.splits)
  from keeps_get [OF assms(1) g] Cons.IH [OF rest] show ?case
    by (auto intro: goes_on_trans goes_on_body)
qed simp

lemma readBack_receipt:
  assumes "keepsVersions (s3Store s) H" "readBack s loc w i existed = (w', Inr r)" "ssMode loc = ''compliance''"
  shows "bucketGoesOn H w w' \<and> complianceUntil H w' (ssKey loc) i (ssRetainUntil loc)
    \<and> r = \<lparr>prVersionID = i, prRetainUntil = lkRetainUntil (hdLock H w' (ssKey loc) i), prExisted = existed\<rparr>"
proof -
  have up: "map asciiUpper ''compliance'' = ''COMPLIANCE''" by code_simp
  obtain l where l: "osRetention (s3Store s) w (ssKey loc) i = (w', Inr l)" and u: "underLocked i l loc = None"
    and r: "r = \<lparr>prVersionID = i, prRetainUntil = lkRetainUntil l, prExisted = existed\<rparr>"
    using assms(2) by (auto simp: readBack_def split: prod.splits sum.splits option.splits)
  from u assms(3) up have "lkMode l = ''COMPLIANCE''" "ssRetainUntil loc \<le> lkRetainUntil l"
    by (auto simp: underLocked_def split: if_splits)
  with keeps_retention [OF assms(1) l] r show ?thesis by (simp add: complianceUntil_def)
qed

text \<open>The state in which a copy is confirmed: the oldest version, its bytes, its lock.\<close>

definition protects :: "'s holdings \<Rightarrow> 's \<Rightarrow> SealSink \<Rightarrow> bytes \<Rightarrow> PutReceipt \<Rightarrow> bool" where
  "protects H w loc data r \<longleftrightarrow>
     (\<exists>is. hdIDs H w (ssKey loc) = prVersionID r # is)
     \<and> hdBody H w (ssKey loc) (prVersionID r) = Some data
     \<and> complianceUntil H w (ssKey loc) (prVersionID r) (prRetainUntil r)
     \<and> ssRetainUntil loc \<le> prRetainUntil r"

lemma readBack_protects:
  assumes "keepsVersions (s3Store s) H" "ssMode loc = ''compliance''" "readBack s loc w i existed = (w', Inr r)"
    and "bucketGoesOn H w0 w" "hdIDs H w0 (ssKey loc) = i # is" "hdBody H w (ssKey loc) i = Some data"
  shows "protects H w' loc data r \<and> prExisted r = existed"
proof -
  note b = readBack_receipt [OF assms(1,3,2)]
  from b have on: "bucketGoesOn H w0 w'" by (blast intro: goes_on_trans [OF assms(4)])
  have "hdBody H w0 (ssKey loc) i \<noteq> None" using assms(5) keeps_written [OF assms(1), of i w0 "ssKey loc"] by simp
  moreover have "i \<in> set (hdIDs H w' (ssKey loc))" using b by (simp add: complianceUntil_def)
  ultimately obtain is' where "hdIDs H w' (ssKey loc) = i # is'" using goes_on_oldest [OF on assms(5)] by blast
  with b assms(6) show ?thesis by (auto simp: protects_def complianceUntil_def intro: goes_on_body)
qed

lemma writeCopy_protects:
  assumes k: "keepsVersions (s3Store s) H" and m: "ssMode loc = ''compliance''"
    and wc: "writeCopy s now loc data w = (w', Inr r)"
  shows "protects H w' loc data r \<and> \<not> prExisted r"
proof -
  obtain w1 w2 i kv v vs where
    p: "osPutLocked (s3Store s) w (ssKey loc) data ''COMPLIANCE'' (lockUntil s now loc) = (w1, Inr i)" "i \<noteq> []"
    and l: "keyVersions s w1 (ssKey loc) = (w2, Inr kv)" "kvVersions kv = v # vs" "svID v = i"
    and b: "readBack s loc w2 i False = (w', Inr r)"
    using wc by (auto simp: writeCopy_def split: prod.splits sum.splits list.splits if_splits)
  note q = keyVersions_ids [OF k l(1)]
  from q l(2,3) have "hdIDs H w2 (ssKey loc) = i # map svID vs" by auto
  moreover have "hdBody H w2 (ssKey loc) i = Some data"
    using keeps_put [OF k p] q by (blast intro: goes_on_body)
  ultimately show ?thesis using readBack_protects [OF k m b goes_on_refl] by simp
qed

lemma S3Put_protects:
  assumes k: "keepsVersions (s3Store s) H" and pt: "S3Put hash s now loc data sha w = (w', Inr r)"
  shows "protects H w' loc data r \<and> ssMode loc = ''compliance'' \<and> hash data = sha"
proof -
  have m: "ssMode loc = ''compliance''" "hash data = sha" using pt by (auto simp: S3Put_def split: if_splits)
  obtain w1 w2 kv where l: "keyVersions s w (ssKey loc) = (w1, Inr kv)"
    and c: "sameAsAll s loc data w1 (kvVersions kv) = (w2, None)"
    and e: "(case kvVersions kv of v # _ \<Rightarrow> readBack s loc w2 (svID v) True | [] \<Rightarrow> writeCopy s now loc data w2) = (w', Inr r)"
    using pt m by (auto simp: S3Put_def split: prod.splits sum.splits option.splits)
  show ?thesis
  proof (cases "kvVersions kv")
    case Nil
    with e m writeCopy_protects [OF k m(1)] show ?thesis by simp
  next
    case (Cons v vs)
    from keyVersions_ids [OF k l] Cons have "hdIDs H w1 (ssKey loc) = svID v # map svID vs" by auto
    with sameAsAll_same [OF k c] Cons e m readBack_protects [OF k m(1), of w2 "svID v" True w' r w1 "map svID vs" data]
    show ?thesis by simp
  qed
qed

text \<open>A confirmed copy outlives everything that happens to the bucket before its date.\<close>

lemma protects_goes_on:
  assumes "keepsVersions st H" "protects H w loc data r" "bucketGoesOn H w w'" "hdClock H w' < prRetainUntil r"
  shows "protects H w' loc data r"
proof -
  from assms(2) obtain "is" where i: "hdIDs H w (ssKey loc) = prVersionID r # is"
    and b: "hdBody H w (ssKey loc) (prVersionID r) = Some data"
    and c: "complianceUntil H w (ssKey loc) (prVersionID r) (prRetainUntil r)" "ssRetainUntil loc \<le> prRetainUntil r"
    by (auto simp: protects_def)
  have c': "complianceUntil H w' (ssKey loc) (prVersionID r) (prRetainUntil r)"
    by (rule goes_on_locked [OF assms(3) c(1) assms(4)])
  then have "prVersionID r \<in> set (hdIDs H w' (ssKey loc))" by (simp add: complianceUntil_def)
  with goes_on_oldest [OF assms(3) i] b c' c(2) goes_on_body [OF assms(3) b] show ?thesis by (auto simp: protects_def)
qed

end
