(* ===== verification/Seal_Copy.thy ===== *)
theory Seal_Copy
  imports Sink
begin

text \<open>
  The seam between the seal of \<^verbatim>\<open>internal/control\<close> and the backend of \<^verbatim>\<open>internal/sink\<close>: the
  backend as the \<open>SinkWriter\<close> a seal is given, and what a seal that succeeded left behind, in the
  directory (the sealed file, byte for byte the records that were handed to \<open>Put\<close>) and at the sink.
  Nothing here assumes that the root was reached by this program: the files may be anyone's, and other
  processes may change the directory up to the moment the lock is held.
\<close>

section \<open>The backend as the sink of a seal\<close>

text \<open>
  \<open>Prepare\<close> runs on the bucket as it is when the seal begins, \<open>Put\<close> on the bucket as it is once the seal
  record is written: other writers may have been at it in between. \<open>txt\<close> renders an error.
\<close>

definition s3Writer ::
  "(sink_error \<Rightarrow> bytes) \<Rightarrow> (bytes \<Rightarrow> bytes) \<Rightarrow> 's S3 \<Rightarrow> int \<Rightarrow> 's \<Rightarrow> 's \<Rightarrow> SinkWriter" where
  "s3Writer txt hash s now w0 w =
     \<lparr>swKind = KindS3ObjectLock, swURL = s3URL s,
      swPrepare = (\<lambda>loc. map_option txt (snd (Prepare s w0 loc))),
      swLocator = Locator s,
      swPut = (\<lambda>loc data sha. case snd (S3Put hash s now loc data sha w) of Inl e \<Rightarrow> Inl (txt e) | Inr r \<Rightarrow> Inr r)\<rparr>"

lemma s3Writer_put:
  "swPut (s3Writer txt hash s now w0 w) loc data sha = Inr r \<Longrightarrow> \<exists>w'. S3Put hash s now loc data sha w = (w', Inr r)"
  by (auto simp: s3Writer_def split: sum.splits) (metis prod.collapse)

lemma s3Writer_locator [simp]: "swLocator (s3Writer txt hash s now w0 w) = Locator s"
  by (simp add: s3Writer_def)

section \<open>The file a writer opens\<close>

definition keepsDirs :: "(nat \<Rightarrow> directory \<Rightarrow> directory) \<Rightarrow> bool" where
  "keepsDirs race \<longleftrightarrow> (\<forall>k d. wfDir d \<longrightarrow> wfDir (race k d))"

lemma lockAttempts_holds:
  assumes "lockAttempts K io race race' create verify k d a = (d', v, Inr (ino, s))"
    and "wfDir d" "keepsDirs race" "keepsDirs race'"
  shows "wfDir d' \<and> inodeOf d' a = Some ino \<and> (\<exists>w. readActive K io d' a ino w (verify (dirNode d' ino)) = (v, None))"
  using assms
proof (induction k arbitrary: d)
  case (Suc k)
  obtain w where w: "walkSealed K io d a = (w, None)"
    using Suc.prems(1) by (auto simp: Let_def split: if_splits sum.splits bool.splits prod.splits option.splits)
  define d1 where "d1 = race k d"
  define d2 where "d2 = (if inodeOf d1 a = None then freshFile a [] d1 else d1)"
  define d3 where "d3 = race' k d2"
  have "wfDir d1" using Suc.prems(2,3) by (simp add: d1_def keepsDirs_def)
  then have "wfDir d2" by (auto simp: d2_def)
  then have wf: "wfDir d3" using Suc.prems(4) by (simp add: d3_def keepsDirs_def)
  from Suc.prems(1) w
  have "lockAttempts K io race race' create verify k d3 a = (d', v, Inr (ino, s))
    \<or> (d' = d3 \<and> sameFile d3 a ino \<and> readActive K io d3 a ino w (verify (dirNode d3 ino)) = (v, None))"
    unfolding d3_def d2_def d1_def
    by (auto simp: Let_def split: if_splits sum.splits bool.splits prod.splits option.splits)
  then show ?case using Suc.IH [OF _ wf Suc.prems(3,4)] wf by (auto simp: sameFile_def)
qed simp

lemma finishLoop_keeps:
  "finishLoop K n pre rs v = (v', e) \<Longrightarrow> vRecords v' = vRecords v \<and> vActive v' = vActive v"
  by (induction K n pre rs v arbitrary: v' e rule: finishLoop.induct) (auto split: option.splits if_splits)

text \<open>An active that is read without a fault and is open: its records are those the file verifies to.\<close>

lemma readActive_records:
  assumes "readActive K io d a ino w verify = (v, None)" "vState v = StateOpen"
  obtains s recs head ps where "verify s = (recs, head, None)" "vRecords v = ps @ recs" "sgRecords (vActive v) = headCount head"
proof (cases "swM w")
  case None
  then obtain recs head v0 where "verify zeroStart = (recs, head, None)" "finishActive K v0 0 = (v, None)"
    "vRecords v0 = recs" "sgRecords (vActive v0) = headCount head"
    using assms(1) by (auto simp: readActive_def readSingle_def Let_def activeSegment_def split: sum.splits option.splits prod.splits)
  with finishLoop_keeps [of K 0 "[]" "activeRecords v0" v0 v None] show ?thesis
    by (intro that [of zeroStart recs head "[]"]) (simp_all add: finishActive_def)
next
  case (Some m)
  then obtain recs head v0 ps where r: "verify (swStart w) = (recs, head, None)" "finishActive K v0 (length (mfSegments m)) = (v, None)"
    "vRecords v0 = ps @ recs" "sgRecords (vActive v0) = headCount head"
    using assms by (auto simp: readActive_def readMulti_def identityCheck_def Let_def activeSegment_def
      split: sum.splits option.splits prod.splits if_splits)
  with finishLoop_keeps [of K "length (mfSegments m)" "[]" "activeRecords v0" v0 v None] show ?thesis
    by (intro that [OF r(1), of ps]) (simp_all add: finishActive_def)
qed

lemma loadChain_fault:
  assumes "ldErr (loadChain unm H \<lparr>rdBytes = b, rdFault = fault\<rparr> s) = None"
  shows "loadChain unm H \<lparr>rdBytes = b, rdFault = fault\<rparr> s = loadChain unm H (clean b) s"
proof (cases "readLines \<lparr>rdBytes = b, rdFault = fault\<rparr>")
  case (Inl e)
  with assms show ?thesis by (simp add: loadChain_def)
next
  case (Inr ls)
  then have "ls = splitLines [] b" by (auto simp: readLines_def Let_def split: if_splits)
  with Inr show ?thesis by (simp add: loadChain_def)
qed

lemma writerVerify_bytes:
  assumes "writerVerify K io file s = (recs, head, None)"
  shows "file = fileBytes recs \<and> headCount head = length recs"
proof -
  obtain c where c: "Resume (kUnm K) (kHash K) file (ioReadFault io) Locked s = (c, recs, None)"
    using assms by (auto simp: writerVerify_def split: prod.splits)
  note loadChain_fault [of "kUnm K" "kHash K" "file" "ioReadFault io" s]
  with c have "ldErr (loadChain (kUnm K) (kHash K) (clean file) s) = None" "recs = ldRecords (loadChain (kUnm K) (kHash K) (clean file) s)"
    by (auto simp: Resume_def Let_def split: option.splits)
  then have "file = fileBytes recs" by (metis loadChain_validD)
  moreover have "headCount head = length recs" using assms c by (auto simp: writerVerify_def)
  ultimately show ?thesis ..
qed

lemma openActive_file:
  assumes "openActive K io race race' d a = (d', v, Inr oa)" "wfDir d" "keepsDirs race" "keepsDirs race'"
  shows "wfDir d' \<and> inodeOf d' a = Some (oaInode oa) \<and> cFile (oaChain oa) = fileBytes (activeRecords v)
    \<and> sgRecords (vActive v) \<le> length (vRecords v) \<and> vState v = StateOpen"
proof -
  obtain s where l: "lockActive K io race race' True (writerVerify K io) d a = (d', v, Inr (oaInode oa, s))"
    and st: "vState v = StateOpen" and c: "cFile (oaChain oa) = dirNode d' (oaInode oa)"
    using assms(1)
    by (auto simp: openActive_def Resume_def chainOf_def Let_def split: prod.splits sum.splits if_splits option.splits)
  from lockAttempts_holds [OF l [unfolded lockActive_def] assms(2-4)] obtain w where
    r: "wfDir d'" "inodeOf d' a = Some (oaInode oa)"
    "readActive K io d' a (oaInode oa) w (writerVerify K io (dirNode d' (oaInode oa))) = (v, None)" by blast
  obtain s0 recs head ps where x: "writerVerify K io (dirNode d' (oaInode oa)) s0 = (recs, head, None)"
    "vRecords v = ps @ recs" "sgRecords (vActive v) = headCount head"
    by (rule readActive_records [OF r(3) st])
  with writerVerify_bytes [OF x(1)] r st c show ?thesis by (simp add: activeRecords_def)
qed

section \<open>The file a seal leaves\<close>

lemma appendOn_file:
  "appendOn K ck c v e = (c', Inr (head, line)) \<Longrightarrow> cFile c' = cFile c @ line @ [newline]"
  by (auto simp: appendOn_def Chain_Append_def Let_def split: option.splits if_splits prod.splits sum.splits write_outcome.splits)

lemma sealedView_records:
  "sgRecords (vActive v) \<le> length (vRecords v) \<Longrightarrow> activeRecords (sealedView v head line) = activeRecords v @ [line]"
  by (simp add: activeRecords_def sealedView_def)

lemma linkSegment_names:
  assumes "linkSegment ck a n d = (d', None)" "wfDir d"
  shows "wfDir d' \<and> inodeOf d' a = inodeOf d a \<and> inodeOf d' (SegmentPath a n) = inodeOf d a \<and> inodeOf d a \<noteq> None \<and> dirNode d' = dirNode d"
  using assms by (auto simp: linkSegment_def Let_def split: option.splits if_splits link_answer.splits)

lemma Replace_contents:
  assumes "Replace fails dest data d = (d', None)" "wfDir d" "n \<noteq> dest"
  shows "wfDir d' \<and> contents d' n = contents d n"
  using assms by (auto simp: Replace_def contents_freshFile split: if_splits)

lemma writeManifest_contents:
  assumes "writeManifest K ck a m d = (d', None)" "wfDir d" "n \<noteq> ManifestPath a"
  shows "wfDir d' \<and> contents d' n = contents d n"
  using assms Replace_contents [of "ckManifestFails ck" "ManifestPath a" _ d d' n]
  by (auto simp: writeManifest_def split: option.splits sum.splits)

definition manifestNames :: "codec \<Rightarrow> bytes \<Rightarrow> directory \<Rightarrow> bytes \<Rightarrow> bool" where
  "manifestNames K a d logID \<longleftrightarrow>
     (\<exists>m text. kManifest K m = Some text \<and> contents d (ManifestPath a) = Some text \<and> mfLogID m = logID)"

lemma writeManifest_names:
  assumes "writeManifest K ck a m d = (d', None)" "wfDir d"
  shows "manifestNames K a d' (mfLogID m)"
  using assms by (auto simp: writeManifest_def Replace_def contents_freshFile manifestNames_def split: option.splits sum.splits if_splits)

lemma swapStep_result:
  assumes "swapStep ck crash a d n seg sunk rcpt = (d', Inr r)"
  shows "srSink r = sunk \<and> srReceipt r = rcpt \<and> srSHA256 r = sgSHA256 seg \<and> srSegment r = n \<and> srPath r = sgPath seg
    \<and> swapActive ck a d = (d', None)"
  using assms by (auto simp: swapStep_def split: if_splits prod.splits option.splits)

lemma protectedCopy_put:
  assumes "protectedCopy K crash (Some wr) None logID n t active block = Inr (Some b, rcpt)"
  shows "swPut wr b (segmentBytes active) (fst (segmentDigests K active)) = Inr rcpt \<and> ssKey b = ssKey (swLocator wr logID n t)"
  using assms by (auto simp: protectedCopy_def confirms_def Let_def split: option.splits if_splits sum.splits)

text \<open>A rotation that succeeded with a sink: the file under the segment's name, and the copy.\<close>

lemma rotate_result:
  assumes "rotate K ck crash sink pre a v d = (d', Inr r)" "srSink r = Some b" "wfDir d" "inodeOf d a = Some ino"
  obtains logID t where
    "protectedCopy K crash sink pre logID (srSegment r) t (activeRecords v) (Some b) = Inr (Some b, srReceipt r)"
    "srSHA256 r = fst (segmentDigests K (activeRecords v))" "srPath r = SegmentPath a (srSegment r)"
    "contents d' (SegmentPath a (srSegment r)) = Some (dirNode d ino)" "manifestNames K a d' logID"
proof -
  let ?n = "length (vSealed v) + 1"
  have st: "vState v \<noteq> StateRotatedNotSwapped"
    using assms swapStep_result [of ck crash a d "length (vSealed v)" "last (vSealed v)" None noReceipt d' r]
    by (auto simp: rotate_def)
  with assms(1) obtain d1 d2 rc ms logID sunk rcpt where l: "linkSegment ck a ?n d = (d1, None)"
    and p: "protectedCopy K crash sink pre logID ?n (crTime rc) (activeRecords v) (sgSink (newSegment K a v rc)) = Inr (sunk, rcpt)"
    and m: "writeManifest K ck a \<lparr>mfV = ''segments/1'', mfLogID = logID, mfSegments = ms\<rparr> d1 = (d2, None)"
    and sw: "swapStep ck crash a d2 ?n (newSegment K a v rc) sunk rcpt = (d', Inr r)"
    by (auto simp: rotate_def Let_def split: prod.splits option.splits sum.splits if_splits)
  note res = swapStep_result [OF sw]
  have "contents d1 (SegmentPath a ?n) = Some (dirNode d ino)" "wfDir d1"
    using linkSegment_names [OF l assms(3)] assms(4) by (simp_all add: contents_def)
  moreover note writeManifest_contents [OF m, of "SegmentPath a ?n"]
  moreover note Replace_contents [of "ckSwapFails ck" a "[]" d2 d' "SegmentPath a ?n"]
  ultimately have "contents d' (SegmentPath a ?n) = Some (dirNode d ino)" and wf: "wfDir d1" "wfDir d2"
    using res by (simp_all add: swapActive_def)
  moreover have "manifestNames K a d' logID"
    using writeManifest_names [OF m wf(1)] Replace_contents [of "ckSwapFails ck" a "[]" d2 d' "ManifestPath a"] wf(2) res
    by (simp add: manifestNames_def swapActive_def)
  moreover from p have "sunk = sgSink (newSegment K a v rc)"
    by (auto simp: protectedCopy_def Let_def split: option.splits if_splits sum.splits)
  ultimately show ?thesis
    using p res assms(2) by (intro that [of logID "crTime rc"]) (auto simp: newSegment_def Let_def split: prod.splits)
qed

text \<open>What the seal hands to its last stage: the directory with the record written, and the records of the file.\<close>

lemma SealActive_rotates:
  assumes "SealActive K io race race' ck crash sink d a e = (d', Inr r)" "wfDir d" "keepsDirs race" "keepsDirs race'"
  obtains v d1 ino where "rotate K ck crash sink None a v d1 = (d', Inr r)" "wfDir d1" "inodeOf d1 a = Some ino"
    "dirNode d1 ino = fileBytes (activeRecords v)"
proof -
  obtain oa v loc n d1 d2 where op: "openActive K io race race' d a = (d1, v, Inr oa)"
    and l: "linkSegment ck a n (sweepTemps io a d1) = (d2, None)"
    and s: "sealRecordStep K ck crash sink a oa v e loc d2 = (d', Inr r)"
    using assms(1) by (auto simp: SealActive_def Let_def split: prod.splits option.splits sum.splits if_splits)
  note f = openActive_file [OF op assms(2-4)]
  have "wfDir (sweepTemps io a d1)" using f by (auto simp: sweepTemps_def)
  note k = linkSegment_names [OF l this]
  from s obtain ev c' head line where ap: "appendOn K ck (oaChain oa) v ev = (c', Inr (head, line))"
    and ro: "rotate K ck crash sink None a (sealedView v head line) (writeNode (oaInode oa) (cFile c') d2) = (d', Inr r)"
    by (auto simp: sealRecordStep_def Let_def split: prod.splits option.splits sum.splits if_splits)
  have "inodeOf (sweepTemps io a d1) a = Some (oaInode oa)" using k f by (auto simp: sweepTemps_def split: if_splits)
  with k f ap show ?thesis
    by (intro that [OF ro, of "oaInode oa"])
      (auto simp: appendOn_file sealedView_records fileBytes_def)
qed

text \<open>The seal's report, read off the directory and the call of \<open>Put\<close>.\<close>

lemma sealed_copy:
  assumes "SealActive K io race race' ck crash (Some wr) d a e = (d', Inr r)" "srSink r = Some b"
    and "wfDir d" "keepsDirs race" "keepsDirs race'"
  obtains data logID t where "srPath r = SegmentPath a (srSegment r)" "contents d' (srPath r) = Some data"
    "swPut wr b data (srSHA256 r) = Inr (srReceipt r)" "kHash K data = srSHA256 r"
    "ssKey b = ssKey (swLocator wr logID (srSegment r) t)" "manifestNames K a d' logID"
proof -
  obtain v d1 ino where rot: "rotate K ck crash (Some wr) None a v d1 = (d', Inr r)" "wfDir d1" "inodeOf d1 a = Some ino"
    and bytes: "dirNode d1 ino = fileBytes (activeRecords v)"
    by (rule SealActive_rotates [OF assms(1,3-5)])
  obtain logID t where p: "protectedCopy K crash (Some wr) None logID (srSegment r) t (activeRecords v) (Some b) = Inr (Some b, srReceipt r)"
    and h: "srSHA256 r = fst (segmentDigests K (activeRecords v))" "srPath r = SegmentPath a (srSegment r)"
    and c: "contents d' (SegmentPath a (srSegment r)) = Some (dirNode d1 ino)" "manifestNames K a d' logID"
    by (rule rotate_result [OF rot(1) assms(2) rot(2,3)])
  have "segmentBytes (activeRecords v) = fileBytes (activeRecords v)" by (simp add: segmentBytes_eq fileBytes_def)
  with protectedCopy_put [OF p] h c bytes show ?thesis
    by (intro that [of "fileBytes (activeRecords v)" logID t]) (simp_all add: segmentDigests_def fileBytes_def)
qed

end
