(* ===== verification/Sink_Copy.thy ===== *)
theory Sink_Copy
  imports Seal_Copy
begin

text \<open>
  What the write-once rule of \<^verbatim>\<open>internal/sink\<close> gives: a receipt means a protected copy, nothing is ever
  written on top of another version, a late seal can still be completed; and the two sides of the seam
  to \<^verbatim>\<open>internal/control\<close>: a seal that reports a copy has one, and confirmed copies are what the
  rebuild of a lost ledger relies on. A bucket in memory shows that the assumptions on a store can hold.
\<close>

section \<open>What a reader finds\<close>

definition idsAt :: "KeyVersions list \<Rightarrow> bytes \<Rightarrow> bytes list" where
  "idsAt kvs key = (case find (\<lambda>kv. kvKey kv = key) kvs of None \<Rightarrow> [] | Some kv \<Rightarrow> map svID (kvVersions kv))"

lemma addVersion_key [simp]: "kvKey (addVersion e kv) = kvKey kv"
  by (simp add: addVersion_def)

lemma addVersion_versions: "map svID (kvVersions (addVersion e kv)) = (if ovDeleteMarker e then [] else [ovID e]) @ map svID (kvVersions kv)"
  by (simp add: addVersion_def versionOf_def)

lemma addToKeys_ids: "idsAt (addToKeys e kvs) key = (if ovKey e = key \<and> \<not> ovDeleteMarker e then [ovID e] else []) @ idsAt kvs key"
  by (induction kvs) (auto simp: idsAt_def addVersion_versions)

lemma addToKeys_keys: "kvKey ` set (addToKeys e kvs) = insert (ovKey e) (kvKey ` set kvs)"
  by (induction kvs) auto

lemma addToKeys_distinct: "distinct (map kvKey kvs) \<Longrightarrow> distinct (map kvKey (addToKeys e kvs))"
proof (induction kvs)
  case (Cons kv kvs)
  have "kvKey kv \<notin> kvKey ` set (addToKeys e kvs)" if "kvKey kv \<noteq> ovKey e"
    using that Cons.prems addToKeys_keys [of e kvs] by auto
  with Cons show ?case by auto
qed simp

lemma fold_addToKeys:
  "distinct (map kvKey kvs) \<Longrightarrow>
     distinct (map kvKey (fold addToKeys es kvs)) \<and> idsAt (fold addToKeys es kvs) key = versionIDs key es @ idsAt kvs key"
  by (induction es arbitrary: kvs) (auto simp: addToKeys_distinct addToKeys_ids versionIDs_def)

lemma idsAt_member: "distinct (map kvKey kvs) \<Longrightarrow> kv \<in> set kvs \<Longrightarrow> idsAt kvs (kvKey kv) = map svID (kvVersions kv)"
  by (induction kvs) (auto simp: idsAt_def)

lemma ListPrefix_ids:
  assumes "keepsVersions (s3Store s) H" "ListPrefix s w pre = (w', Inr kvs)" "kv \<in> set kvs" "has_prefix (kvKey kv) pre"
  shows "bucketGoesOn H w w' \<and> map svID (kvVersions kv) = hdIDs H w' (kvKey kv)"
proof -
  obtain es where es: "osListVersions (s3Store s) w pre = (w', Inr es)" and kvs: "kvs = fold addToKeys es []"
    using assms(2) by (auto simp: ListPrefix_def split: prod.splits sum.splits)
  have "distinct (map kvKey kvs)" "idsAt kvs (kvKey kv) = versionIDs (kvKey kv) es"
    using fold_addToKeys [of "[]" es "kvKey kv"] kvs by (simp_all add: idsAt_def)
  with idsAt_member [of kvs kv] assms(3,4) keeps_list [OF assms(1) es] show ?thesis by simp
qed

text \<open>
  A reader of the bucket: every answer it gives is one the backend gave at some moment after \<open>w\<close> and
  before the instant \<open>t\<close>, whatever other writers did meanwhile.
\<close>

definition during :: "'s holdings \<Rightarrow> 's \<Rightarrow> int \<Rightarrow> ('s \<Rightarrow> 's \<times> 'a) \<Rightarrow> 'a \<Rightarrow> bool" where
  "during H w t call x \<longleftrightarrow> (\<exists>w1 w2. bucketGoesOn H w w1 \<and> call w1 = (w2, x) \<and> hdClock H w2 < t)"

definition readsBucket :: "'s holdings \<Rightarrow> 's S3 \<Rightarrow> 's \<Rightarrow> int \<Rightarrow> SinkReader \<Rightarrow> bool" where
  "readsBucket H s w t r \<longleftrightarrow>
     sdPrefix r = Prefix s
     \<and> (\<forall>key kv. sdListVersions r key = Inr kv \<longrightarrow> during H w t (\<lambda>w. ListVersions s w key) (Inr kv))
     \<and> (\<forall>pre kvs. sdListPrefix r pre = Inr kvs \<longrightarrow> during H w t (\<lambda>w. ListPrefix s w pre) (Inr kvs))
     \<and> (\<forall>key i l. sdGetRetention r key i = Inr l \<longrightarrow> during H w t (\<lambda>w. GetRetention s w key i) (Inr l))
     \<and> (\<forall>key i n b. sdGet r key i n = Inr b \<longrightarrow> during H w t (\<lambda>w. S3Get s w key i n) (Inr b))"

lemma reads_get: "readsBucket H s w t r \<Longrightarrow> sdGet r key i n = Inr b \<Longrightarrow> during H w t (\<lambda>w. S3Get s w key i n) (Inr b)"
  by (simp add: readsBucket_def)

lemma reads_retention:
  "readsBucket H s w t r \<Longrightarrow> sdGetRetention r key i = Inr l \<Longrightarrow> during H w t (\<lambda>w. GetRetention s w key i) (Inr l)"
  by (simp add: readsBucket_def)

lemma reads_versions:
  "readsBucket H s w t r \<Longrightarrow> sdListVersions r key = Inr kv \<Longrightarrow> during H w t (\<lambda>w. ListVersions s w key) (Inr kv)"
  by (simp add: readsBucket_def)

lemma reads_prefix:
  "readsBucket H s w t r \<Longrightarrow> sdListPrefix r pre = Inr kvs \<Longrightarrow> during H w t (\<lambda>w. ListPrefix s w pre) (Inr kvs)"
  by (simp add: readsBucket_def)

definition confirmedBefore :: "(bytes \<Rightarrow> bytes) \<Rightarrow> 's holdings \<Rightarrow> 's S3 \<Rightarrow> 's \<Rightarrow> int \<Rightarrow> SealSink \<Rightarrow> bytes \<Rightarrow> bool" where
  "confirmedBefore hash H s w t loc data \<longleftrightarrow>
     (\<exists>now sha w0 w1 r. S3Put hash s now loc data sha w0 = (w1, Inr r) \<and> bucketGoesOn H w1 w \<and> t \<le> prRetainUntil r)"

text \<open>Until \<open>t\<close> the version \<open>i\<close> is the oldest at the key, holds the bytes and is locked.\<close>

definition standsUntil :: "'s holdings \<Rightarrow> 's \<Rightarrow> int \<Rightarrow> bytes \<Rightarrow> bytes \<Rightarrow> bytes \<Rightarrow> bool" where
  "standsUntil H w t key i data \<longleftrightarrow>
     (\<forall>w'. bucketGoesOn H w w' \<longrightarrow> hdClock H w' < t \<longrightarrow>
        (\<exists>is. hdIDs H w' key = i # is) \<and> hdBody H w' key i = Some data \<and> complianceUntil H w' key i t)"

lemma confirmed_stands:
  assumes "keepsVersions (s3Store s) H" "confirmedBefore hash H s w t loc data"
  shows "\<exists>i. standsUntil H w t (ssKey loc) i data"
proof -
  obtain now sha w0 w1 r where p: "S3Put hash s now loc data sha w0 = (w1, Inr r)" "bucketGoesOn H w1 w" "t \<le> prRetainUntil r"
    using assms(2) unfolding confirmedBefore_def by blast
  have "protects H w' loc data r" if "bucketGoesOn H w w'" "hdClock H w' < t" for w'
    by (rule protects_goes_on [OF assms(1)]) (use S3Put_protects [OF assms(1) p(1)] goes_on_trans [OF p(2) that(1)] that(2) p(3) in auto)
  then have "standsUntil H w t (ssKey loc) (prVersionID r) data"
    using p(3) unfolding standsUntil_def protects_def complianceUntil_def by (meson order_trans)
  then show ?thesis ..
qed

lemma Get_body:
  assumes "keepsVersions (s3Store s) H" "S3Get s w key i n = (w', Inr b)"
  shows "bucketGoesOn H w w' \<and> hdBody H w' key i = Some b"
  using assms keeps_get [OF assms(1), of w key i n w' b]
  by (auto simp: S3Get_def split: prod.splits sum.splits store_error.splits)

lemma GetRetention_lock:
  assumes "keepsVersions (s3Store s) H" "GetRetention s w key i = (w', Inr l)"
  shows "bucketGoesOn H w w' \<and> rnMode l = lkMode (hdLock H w' key i) \<and> rnRetainUntil l = lkRetainUntil (hdLock H w' key i)"
  using assms keeps_retention [OF assms(1), of w key i w']
  by (auto simp: GetRetention_def split: prod.splits sum.splits)

text \<open>What such a reader says of the key of a confirmed copy.\<close>

definition tellsOf :: "SinkReader \<Rightarrow> bytes \<Rightarrow> KeyVersions \<Rightarrow> int \<Rightarrow> bytes \<Rightarrow> bool" where
  "tellsOf r key kv t data \<longleftrightarrow>
     kvVersions kv \<noteq> []
     \<and> (\<forall>n b. sdGet r key (svID (hd (kvVersions kv))) n = Inr b \<longrightarrow> b = data)
     \<and> (\<forall>l. sdGetRetention r key (svID (hd (kvVersions kv))) = Inr l \<longrightarrow> rnMode l = ''COMPLIANCE'' \<and> t \<le> rnRetainUntil l)"

lemma reader_of_standing:
  assumes k: "keepsVersions (s3Store s) H" and i: "standsUntil H w t key i data" and r: "readsBucket H s w t r"
    and at: "bucketGoesOn H w w'" "hdClock H w' < t" "map svID (kvVersions kv) = hdIDs H w' key"
  shows "tellsOf r key kv t data"
proof -
  have "b = data" if x: "sdGet r key i n = Inr b" for n b
  proof -
    obtain w1 w2 where g: "bucketGoesOn H w w1" "S3Get s w1 key i n = (w2, Inr b)" "hdClock H w2 < t"
      using reads_get [OF r x] unfolding during_def by blast
    from Get_body [OF k g(2)] have "bucketGoesOn H w w2" "hdBody H w2 key i = Some b" by (auto intro: goes_on_trans [OF g(1)])
    with i g(3) show ?thesis unfolding standsUntil_def by fastforce
  qed
  moreover have "rnMode l = ''COMPLIANCE'' \<and> t \<le> rnRetainUntil l" if x: "sdGetRetention r key i = Inr l" for l
  proof -
    obtain w1 w2 where g: "bucketGoesOn H w w1" "GetRetention s w1 key i = (w2, Inr l)" "hdClock H w2 < t"
      using reads_retention [OF r x] unfolding during_def by blast
    note l = GetRetention_lock [OF k g(2)]
    then have "bucketGoesOn H w w2" by (blast intro: goes_on_trans [OF g(1)])
    with i g(3) have "complianceUntil H w2 key i t" unfolding standsUntil_def by blast
    with l show ?thesis by (simp add: complianceUntil_def)
  qed
  moreover obtain "is" where "hdIDs H w' key = i # is" using i at unfolding standsUntil_def by blast
  then have "kvVersions kv \<noteq> []" "svID (hd (kvVersions kv)) = i" using at(3) by auto
  ultimately show ?thesis by (simp add: tellsOf_def)
qed

lemma reader_lists_key:
  assumes k: "keepsVersions (s3Store s) H" and i: "standsUntil H w t key i data" and r: "readsBucket H s w t r"
    and "sdListVersions r key = Inr kv"
  shows "tellsOf r key kv t data"
proof -
  obtain w1 w2 where w: "bucketGoesOn H w w1" "ListVersions s w1 key = (w2, Inr kv)" "hdClock H w2 < t"
    using reads_versions [OF r assms(4)] unfolding during_def by blast
  from keyVersions_ids [OF k w(2) [unfolded ListVersions_def]] show ?thesis
    by (intro reader_of_standing [OF k i r _ w(3)]) (auto intro: goes_on_trans [OF w(1)])
qed

lemma reader_lists_prefix:
  assumes k: "keepsVersions (s3Store s) H" and i: "standsUntil H w t (kvKey kv) i data" and r: "readsBucket H s w t r"
    and a: "sdListPrefix r pre = Inr kvs" "kv \<in> set kvs" "has_prefix (kvKey kv) pre"
  shows "tellsOf r (kvKey kv) kv t data"
proof -
  obtain w1 w2 where w: "bucketGoesOn H w w1" "ListPrefix s w1 pre = (w2, Inr kvs)" "hdClock H w2 < t"
    using reads_prefix [OF r a(1)] unfolding during_def by blast
  from ListPrefix_ids [OF k w(2) a(2,3)] show ?thesis
    by (intro reader_of_standing [OF k i r _ w(3)]) (auto intro: goes_on_trans [OF w(1)])
qed

text \<open>Every sealed segment of a ledger was confirmed under the key its seal names.\<close>

definition sealedToSink ::
  "codec \<Rightarrow> 's holdings \<Rightarrow> 's S3 \<Rightarrow> 's \<Rightarrow> int \<Rightarrow> bytes \<Rightarrow> nat \<Rightarrow> bytes list \<Rightarrow> bool" where
  "sealedToSink K H s w t logID n seg \<longleftrightarrow>
     (\<exists>b. sgSink (segView K '''' n [] seg) = Some b \<and> ssKey b = Prefix s logID @ ''seg-'' @ pad6 n
        \<and> confirmedBefore (kHash K) H s w t b (fileBytes seg))"

text \<open>The reads a rebuild needs of a listed key are answered.\<close>

definition answers :: "SinkReader \<Rightarrow> KeyVersions \<Rightarrow> bool" where
  "answers r kv =
     (case kvVersions kv of
        [] \<Rightarrow> True
      | v # _ \<Rightarrow> (\<exists>b. sdGet r (kvKey kv) (svID v) maxRestoreBody = Inr b) \<and> (\<exists>l. sdGetRetention r (kvKey kv) (svID v) = Inr l))"

lemma sealed_copies:
  assumes k: "keepsVersions (s3Store s) H" and r: "readsBucket H s w t r"
    and p: "sdListPrefix r (Prefix s logID) = Inr kvs0" "set kvs \<subseteq> set kvs0" "list_all (answers r) kvs"
  shows "map kvKey kvs = map (sinkKey r logID) [Suc j..<Suc j + length segs] \<Longrightarrow>
     \<forall>i < length segs. sealedToSink K H s w t logID (Suc (j + i)) (segs ! i) \<Longrightarrow> holdsCopies K r logID ps j segs kvs"
  using p(2,3)
proof (induction segs arbitrary: kvs j ps)
  case (Cons seg segs)
  from Cons.prems(1) obtain kv kvs' where kvs: "kvs = kv # kvs'" "kvKey kv = sinkKey r logID (Suc j)"
    "map kvKey kvs' = map (sinkKey r logID) [Suc (Suc j)..<Suc (Suc j) + length segs]"
    by (cases kvs) (auto simp: upt_conv_Cons simp del: upt_Suc)
  have pr: "sdPrefix r = Prefix s" using r by (simp add: readsBucket_def)
  from Cons.prems(2) have "sealedToSink K H s w t logID (Suc j) seg" by auto
  then obtain b where b: "sgSink (segView K '''' (Suc j) [] seg) = Some b" "ssKey b = kvKey kv"
    and c: "confirmedBefore (kHash K) H s w t b (fileBytes seg)"
    by (auto simp: sealedToSink_def kvs(2) sinkKey_def pr)
  obtain i where "standsUntil H w t (kvKey kv) i (fileBytes seg)" using confirmed_stands [OF k c] b(2) by auto
  then have "tellsOf r (kvKey kv) kv t (fileBytes seg)"
    by (rule reader_lists_prefix [OF k _ r p(1)])
      (use Cons.prems(3) kvs in \<open>auto simp: sinkKey_def pr has_prefix_def\<close>)
  moreover have "answers r kv" using Cons.prems(4) kvs(1) by simp
  ultimately have "holdsCopy K r logID (j + 1) ps seg kv"
    using kvs(2) b segView_sink [of K "''''" "Suc j" ps seg "''''" "Suc j" "[]"]
    by (auto simp: holdsCopy_def tellsOf_def answers_def neq_Nil_conv split: list.splits sum.splits)
  moreover have "holdsCopies K r logID (ps @ seg) (Suc j) segs kvs'"
    by (rule Cons.IH) (use Cons.prems kvs in auto)
  ultimately show ?case by (simp add: kvs(1))
qed simp

section \<open>Never on top of another version\<close>

text \<open>The backend with another write operation: what it answers must not depend on it once a version is listed.\<close>

definition withWrite :: "('s \<Rightarrow> bytes \<Rightarrow> bytes \<Rightarrow> bytes \<Rightarrow> int \<Rightarrow> 's \<times> (store_error + bytes)) \<Rightarrow> 's S3 \<Rightarrow> 's S3" where
  "withWrite p s = s\<lparr>s3Store := (s3Store s)\<lparr>osPutLocked := p\<rparr>\<rparr>"

lemma withWrite_reads [simp]:
  "keyVersions (withWrite p s) = keyVersions s" "readBack (withWrite p s) = readBack s"
  by (intro ext; simp add: keyVersions_def readBack_def withWrite_def)+

lemma withWrite_compares [simp]: "sameAsAll (withWrite p s) loc data w vs = sameAsAll s loc data w vs"
  by (induction vs arbitrary: w) (simp_all add: withWrite_def cong: if_cong)

lemma occupied_writes_nothing:
  assumes "keyVersions s w (ssKey loc) = (w1, Inr kv)" "kvVersions kv \<noteq> []"
  shows "S3Put hash (withWrite p s) now loc data sha w = S3Put hash s now loc data sha w"
  using assms by (auto simp: S3Put_def split: prod.splits option.splits list.splits)

lemma foreign_refused:
  assumes "keepsVersions (s3Store s) H" "keyVersions s w (ssKey loc) = (w1, Inr kv)"
    and "v \<in> set (kvVersions kv)" "hdBody H w1 (ssKey loc) (svID v) = Some b" "b \<noteq> data"
  shows "\<exists>e. snd (S3Put hash s now loc data sha w) = Inl e"
proof (cases "ssMode loc = ''compliance'' \<and> hash data = sha")
  case True
  have "snd (sameAsAll s loc data w1 (kvVersions kv)) \<noteq> None"
  proof
    assume "snd (sameAsAll s loc data w1 (kvVersions kv)) = None"
    then obtain w2 where "sameAsAll s loc data w1 (kvVersions kv) = (w2, None)" by (metis prod.collapse)
    from sameAsAll_same [OF assms(1) this] assms(3,5) goes_on_body [OF _ assms(4)] show False by fastforce
  qed
  then obtain w2 e where "sameAsAll s loc data w1 (kvVersions kv) = (w2, Some e)" by (metis option.exhaust prod.collapse)
  with True assms(2) show ?thesis by (simp add: S3Put_def)
qed (auto simp: S3Put_def)

section \<open>The date of the lock\<close>

lemma truncateSecond_bounds: "truncateSecond t \<le> t \<and> t - 1000000000 < truncateSecond t"
  unfolding truncateSecond_def using pos_mod_bound [of 1000000000 t] pos_mod_sign [of 1000000000 t] by linarith

lemma lockUntil_bounds: "s3Retention s \<ge> 1000000000 \<Longrightarrow> now < lockUntil s now loc \<and> ssRetainUntil loc \<le> lockUntil s now loc"
  using truncateSecond_bounds [of now] by (auto simp: lockUntil_def Let_def)

section \<open>A bucket in memory\<close>

text \<open>
  A store that only ever appends, after the in-memory store of the package's tests: the writes in their
  order, a version named by its position.
\<close>

type_synonym memBucket = "(bytes \<times> bytes \<times> lock) list"

definition memID :: "nat \<Rightarrow> bytes" where
  "memID n = replicate (Suc n) CHR ''v''"

definition memFind :: "memBucket \<Rightarrow> bytes \<Rightarrow> bytes \<Rightarrow> (bytes \<times> lock) option" where
  "memFind w key i =
     (let n = length i - 1
      in if n < length w \<and> i = memID n \<and> fst (w ! n) = key then Some (snd (w ! n)) else None)"

definition memEntry :: "memBucket \<Rightarrow> nat \<Rightarrow> objectVersion" where
  "memEntry w n = \<lparr>ovKey = fst (w ! n), ovID = memID n, ovIsLatest = (n + 1 = length w), ovDeleteMarker = False,
     ovSize = int (length (fst (snd (w ! n)))), ovLastModified = int n\<rparr>"

definition memStore :: "memBucket objectStore" where
  "memStore = \<lparr>
     osPutLocked = (\<lambda>w key b m t. (w @ [(key, b, \<lparr>lkMode = m, lkRetainUntil = t\<rparr>)], Inr (memID (length w)))),
     osGet = (\<lambda>w key i n. (w, case memFind w key i of None \<Rightarrow> Inl (StatusError ''GetObject'' 404 ''NoSuchVersion'')
        | Some (b, _) \<Rightarrow> if int (length b) > n then Inl ObjectTooLarge else Inr b)),
     osRetention = (\<lambda>w key i. (w, case memFind w key i of None \<Rightarrow> Inl (StatusError ''GetObjectRetention'' 404 ''NoSuchVersion'')
        | Some (_, l) \<Rightarrow> Inr l)),
     osLockEnabled = (\<lambda>w. (w, Inr True)),
     osListVersions = (\<lambda>w pre. (w, Inr (rev (map (memEntry w) (filter (\<lambda>n. has_prefix (fst (w ! n)) pre) [0..<length w])))))\<rparr>"

definition memHeld :: "memBucket holdings" where
  "memHeld = \<lparr>
     hdIDs = (\<lambda>w key. map memID (filter (\<lambda>n. fst (w ! n) = key) [0..<length w])),
     hdBody = (\<lambda>w key i. map_option fst (memFind w key i)),
     hdLock = (\<lambda>w key i. case memFind w key i of None \<Rightarrow> \<lparr>lkMode = '''', lkRetainUntil = 0\<rparr> | Some (_, l) \<Rightarrow> l),
     hdClock = (\<lambda>_. 0)\<rparr>"

lemma memHeld_sel [simp]:
  "hdIDs memHeld w key = map memID (filter (\<lambda>n. fst (w ! n) = key) [0..<length w])"
  "hdBody memHeld w key i = map_option fst (memFind w key i)"
  "hdLock memHeld w key i = (case memFind w key i of None \<Rightarrow> \<lparr>lkMode = '''', lkRetainUntil = 0\<rparr> | Some (_, l) \<Rightarrow> l)"
  "hdClock memHeld w = 0"
  by (simp_all add: memHeld_def)

lemma memID_length [simp]: "length (memID n) = Suc n"
  by (simp add: memID_def)

lemma memFind_ID: "memFind w key (memID n) = (if n < length w \<and> fst (w ! n) = key then Some (snd (w ! n)) else None)"
  by (simp add: memFind_def Let_def)

lemma memFind_held: "(memFind w key i \<noteq> None) = (i \<in> set (hdIDs memHeld w key))"
  by (auto simp: memFind_def Let_def split: if_splits)

lemma memFind_append: "memFind w key i = Some x \<Longrightarrow> memFind (w @ [y]) key i = Some x"
  by (auto simp: memFind_def Let_def nth_append split: if_splits)

lemma mem_append_goes_on: "bucketGoesOn memHeld w (w @ [y])"
proof -
  have body: "hdBody memHeld w key i = Some b \<Longrightarrow> hdBody memHeld (w @ [y]) key i = Some b" for key i b
    by (auto dest: memFind_append)
  have ids: "hdIDs memHeld (w @ [y]) key = filter (\<lambda>_. True) (hdIDs memHeld w key) @ (if fst y = key then [memID (length w)] else [])" for key
  proof -
    have "filter (\<lambda>n. fst ((w @ [y]) ! n) = key) [0..<length w] = filter (\<lambda>n. fst (w ! n) = key) [0..<length w]"
      by (rule filter_cong) (auto simp: nth_append)
    then show ?thesis by simp
  qed
  have new: "hdBody memHeld w key (memID (length w)) = None" for key by (simp add: memFind_ID)
  have lock: "complianceUntil memHeld (w @ [y]) key i t" if "complianceUntil memHeld w key i t" for key i t
  proof -
    from that memFind_held obtain x where "memFind w key i = Some x" unfolding complianceUntil_def by blast
    with that memFind_append [OF this, of y] memFind_held [of "w @ [y]" key i] show ?thesis
      by (auto simp: complianceUntil_def)
  qed
  show ?thesis
    unfolding bucketGoesOn_def
  proof (intro conjI allI impI)
    show "\<exists>keep new. hdIDs memHeld (w @ [y]) key = filter keep (hdIDs memHeld w key) @ new \<and> (\<forall>i\<in>set new. hdBody memHeld w key i = None)" for key
      using ids [of key] new [of key] by (intro exI [of _ "\<lambda>_. True"] exI [of _ "if fst y = key then [memID (length w)] else []"]) simp
  qed (use body lock in auto)
qed

lemma keepsVersions_mem: "keepsVersions memStore memHeld"
proof -
  have p: "hdBody memHeld (w @ [(key, b, l)]) key (memID (length w)) = Some b" for w key b l
    by (simp add: memFind_ID)
  have l: "versionIDs key (rev (map (memEntry w) (filter (\<lambda>n. has_prefix (fst (w ! n)) pre) [0..<length w]))) = hdIDs memHeld w key"
    if "has_prefix key pre" for w key pre
  proof -
    have "filter (\<lambda>n. fst (w ! n) = key \<and> has_prefix (fst (w ! n)) pre) [0..<length w] = filter (\<lambda>n. fst (w ! n) = key) [0..<length w]"
      using that by (auto intro: filter_cong)
    then show ?thesis
      by (simp add: versionIDs_def memEntry_def rev_map [symmetric] rev_filter [symmetric] filter_map comp_def conj_commute)
  qed
  show ?thesis
    unfolding keepsVersions_def
  proof (intro conjI allI impI ballI)
    show "hdBody memHeld w key i \<noteq> None" if "i \<in> set (hdIDs memHeld w key)" for w key i
      using that memFind_held [of w key i] by auto
    show "i \<in> set (hdIDs memHeld w' key)" if "osRetention memStore w key i = (w', r)" "r = Inr l" for w key i w' r l
      using that memFind_held [of w key i] by (auto simp: memStore_def split: option.splits)
  qed (use p l in \<open>auto simp: memStore_def mem_append_goes_on split: option.splits if_splits\<close>)
qed

section \<open>Properties\<close>

text \<open>
  C28: a confirmed copy is a protected copy. When \<open>Put\<close> returns a receipt, whatever other writers did to
  the bucket between its calls, the oldest version at the key (the one a later verification judges) is
  the version the receipt names, its bytes are the segment's, and it is under a compliance lock to the
  receipt's date, which is not before the date of the seal record; and this stays so, whatever is
  written or deleted in the bucket, until that date.
\<close>

theorem put_confirms_only_a_protected_copy:
  assumes "keepsVersions (s3Store s) H" "S3Put hash s now loc data sha w = (w', Inr r)"
  shows "hash data = sha \<and> protects H w' loc data r
    \<and> (\<forall>w''. bucketGoesOn H w' w'' \<longrightarrow> hdClock H w'' < prRetainUntil r \<longrightarrow> protects H w'' loc data r)"
  using S3Put_protects [OF assms] protects_goes_on [OF assms(1)] by blast

text \<open>
  Nothing is written on top. When the listing of the key shows a version, \<open>Put\<close> does not call the
  store's write at all: its result is the same for every write operation. And when one of the listed
  versions does not hold the segment's bytes, \<open>Put\<close> refuses.
\<close>

theorem put_never_writes_on_top:
  assumes "keepsVersions (s3Store s) H" "keyVersions s w (ssKey loc) = (w1, Inr kv)" "v \<in> set (kvVersions kv)"
  shows "S3Put hash (withWrite p s) now loc data sha w = S3Put hash s now loc data sha w
    \<and> (hdBody H w1 (ssKey loc) (svID v) \<noteq> Some data \<longrightarrow> (\<exists>e. snd (S3Put hash s now loc data sha w) = Inl e))"
proof -
  have "S3Put hash (withWrite p s) now loc data sha w = S3Put hash s now loc data sha w"
    by (rule occupied_writes_nothing [OF assms(2)]) (use assms(3) in auto)
  moreover have "svID v \<in> set (hdIDs H w1 (ssKey loc))"
    using keyVersions_ids [OF assms(1,2)] assms(3) by (metis image_eqI list.set_map)
  then obtain b where "hdBody H w1 (ssKey loc) (svID v) = Some b" using keeps_written [OF assms(1)] by blast
  ultimately show ?thesis using foreign_refused [OF assms(1,2,3)] by auto
qed

text \<open>
  A seal can be completed at any later time. With a retention of at least a second, an empty key and a
  store that keeps the lock it is asked for, \<open>Put\<close> succeeds although the date of the record may have
  passed: the date it locks to is after the present instant and not before the record's.
\<close>

theorem late_seal_still_completes:
  assumes "s3Retention s \<ge> 1000000000" "ssMode loc = ''compliance''" "hash data = sha"
    and "keyVersions s w (ssKey loc) = (w1, Inr kv)" "kvVersions kv = []"
    and "osPutLocked (s3Store s) w1 (ssKey loc) data ''COMPLIANCE'' (lockUntil s now loc) = (w2, Inr i)" "i \<noteq> []"
    and "keyVersions s w2 (ssKey loc) = (w3, Inr kv')" "kvVersions kv' = v # vs" "svID v = i"
    and "osRetention (s3Store s) w3 (ssKey loc) i = (w4, Inr \<lparr>lkMode = ''COMPLIANCE'', lkRetainUntil = lockUntil s now loc\<rparr>)"
  shows "\<exists>r. S3Put hash s now loc data sha w = (w4, Inr r) \<and> \<not> prExisted r
    \<and> now < prRetainUntil r \<and> ssRetainUntil loc \<le> prRetainUntil r"
proof -
  have up: "map asciiUpper ''compliance'' = ''COMPLIANCE''" by code_simp
  note b = lockUntil_bounds [OF assms(1), of now loc]
  have "underLocked i \<lparr>lkMode = ''COMPLIANCE'', lkRetainUntil = lockUntil s now loc\<rparr> loc = None"
    unfolding underLocked_def assms(2) up using b by simp
  then have "S3Put hash s now loc data sha w = (w4, Inr \<lparr>prVersionID = i, prRetainUntil = lockUntil s now loc, prExisted = False\<rparr>)"
    using assms(2-11) by (simp add: S3Put_def writeCopy_def readBack_def)
  with b show ?thesis by simp
qed

text \<open>
  C29: a seal that reports a protected copy has one. When \<open>SealActive\<close> runs with this backend as its sink,
  on any directory and with other processes at work until it holds the lock, and reports success with a
  sink block, then the file under the reported path is the sealed segment with the reported digest, its
  bytes are those \<open>Put\<close> was given on the bucket the seal found, and in the bucket \<open>Put\<close> left the oldest
  version under the block's key holds exactly these bytes, under a compliance lock to the date of the
  receipt, which is not before the block's date. It stays so until that date. The key is the one the
  backend derives for this segment of the ledger whose id the manifest now carries.
\<close>

theorem seal_reports_only_a_protected_copy:
  assumes "keepsVersions (s3Store s) H" "wfDir d" "keepsDirs race" "keepsDirs race'"
    and "SealActive K io race race' ck crash (Some (s3Writer txt (kHash K) s now w0 w)) d a e = (d', Inr res)"
    and "srSink res = Some b"
  shows "\<exists>data w' logID. srPath res = SegmentPath a (srSegment res) \<and> contents d' (srPath res) = Some data
    \<and> kHash K data = srSHA256 res
    \<and> S3Put (kHash K) s now b data (srSHA256 res) w = (w', Inr (srReceipt res))
    \<and> protects H w' b data (srReceipt res)
    \<and> (\<forall>w''. bucketGoesOn H w' w'' \<longrightarrow> hdClock H w'' < prRetainUntil (srReceipt res) \<longrightarrow> protects H w'' b data (srReceipt res))
    \<and> ssKey b = Prefix s logID @ ''seg-'' @ pad6 (srSegment res) \<and> manifestNames K a d' logID"
proof -
  obtain data logID t where p: "srPath res = SegmentPath a (srSegment res)" "contents d' (srPath res) = Some data"
    "swPut (s3Writer txt (kHash K) s now w0 w) b data (srSHA256 res) = Inr (srReceipt res)" "kHash K data = srSHA256 res"
    "ssKey b = ssKey (Locator s logID (srSegment res) t)" "manifestNames K a d' logID"
    by (rule sealed_copy [OF assms(5,6,2-4)]) auto
  obtain w' where w': "S3Put (kHash K) s now b data (srSHA256 res) w = (w', Inr (srReceipt res))"
    using s3Writer_put [OF p(3)] by blast
  from S3Put_protects [OF assms(1) w'] protects_goes_on [OF assms(1)] w' p show ?thesis
    by (intro exI [of _ data] exI [of _ w'] exI [of _ logID]) (auto simp: Locator_def)
qed

text \<open>
  C30: confirmed copies are what a rebuild needs. Every sealed segment of a ledger was confirmed by \<open>Put\<close>
  under the key its seal names, to a date after the reads; the bucket went on, with whatever other
  writers did. When the listing of the ledger's prefix then shows exactly the segments' keys and the
  reads of their oldest versions are answered, the sink holds the copies of all segments, in the sense
  the rebuild of the protected log relies on.
\<close>

theorem confirmed_copies_support_a_rebuild:
  assumes "keepsVersions (s3Store s) H" "readsBucket H s w t r"
    and "\<forall>i < length segs. sealedToSink K H s w t logID (i + 1) (segs ! i)"
    and "sdListPrefix r (sdPrefix r logID) = Inr kvs" "map kvKey kvs = map (sinkKey r logID) [1..<length segs + 1]"
    and "list_all (answers r) kvs"
  shows "holdsCopies K r logID [] 0 segs kvs"
proof (rule sealed_copies [OF assms(1,2) _ _ assms(6)])
  show "sdListPrefix r (Prefix s logID) = Inr kvs" using assms(2,4) by (simp add: readsBucket_def)
qed (use assms(3,5) in auto)

section \<open>A concrete copy\<close>

definition memS3 :: "memBucket S3" where
  "memS3 = newS3 ''https://h/b'' ''b'' '''' memStore 1000000000 0"

definition memBlock :: SealSink where
  "memBlock = Locator memS3 demoLogID 1 5"

definition memWriter :: SinkWriter where
  "memWriter = s3Writer (\<lambda>_. ''refused'') (kHash demoCodec) memS3 5 [] []"

definition memSeal :: controlRecord where
  "memSeal = recordOf demoClock
     \<lparr>cFile = [], cMode = Locked, cBase = 0, cPrev = demoSum ''A'', cCount = 1, cSeqEstablished = True, cSeqMode = True\<rparr>
     (demoControlEvent ''seal'' (Some (demoSealPayload\<lparr>slSink := Some memBlock\<rparr>))) ''''"

definition memCodec :: codec where
  "memCodec = demoCodec\<lparr>
     kMarshal := (\<lambda>r. if r = demoGenesis then Some ''A'' else if r = memSeal then Some ''B'' else None),
     kDec := (\<lambda>l. if l = ''A'' then Some demoGenesis else if l = ''B'' then Some memSeal else None),
     kURL := (\<lambda>_. Some \<lparr>puScheme = ''https'', puHost = ''h'', puUser = False, puRawQuery = [], puForceQuery = False,
        puFragment = [], puPath = ''/b''\<rparr>)\<rparr>"

definition memPut :: "memBucket \<times> (sink_error + PutReceipt)" where
  "memPut = S3Put demoSum memS3 5 memBlock (fileBytes [''A'', ''B'']) (demoSum []) []"

definition memReceipt :: PutReceipt where
  "memReceipt = \<lparr>prVersionID = ''v'', prRetainUntil = 1000000000, prExisted = False\<rparr>"

lemma mem_put: "snd memPut = Inr memReceipt" "length (fst memPut) = 1"
  by code_simp+

lemma mem_put_eq: "S3Put demoSum memS3 5 memBlock (fileBytes [''A'', ''B'']) (demoSum []) [] = (fst memPut, Inr memReceipt)"
  using mem_put(1) by (simp add: memPut_def prod_eq_iff)

lemma memS3_store [simp]: "s3Store memS3 = memStore"
  by (simp add: memS3_def newS3_def)

theorem put_confirms_only_a_protected_copy_witness:
  "protects memHeld (fst memPut) memBlock (fileBytes [''A'', ''B'']) memReceipt"
  using put_confirms_only_a_protected_copy [of memS3 memHeld, OF _ mem_put_eq] keepsVersions_mem by simp

text \<open>The same bytes again: the version is found and confirmed, nothing is written; other bytes are refused.\<close>

theorem put_never_writes_on_top_witness:
  "S3Put demoSum (withWrite (\<lambda>w _ _ _ _. (w, Inl ClockSkew)) memS3) 6 memBlock ''x'' (demoSum []) (fst memPut)
     = S3Put demoSum memS3 6 memBlock ''x'' (demoSum []) (fst memPut)
   \<and> (\<exists>e. snd (S3Put demoSum memS3 6 memBlock ''x'' (demoSum []) (fst memPut)) = Inl e)"
proof -
  let ?k = "keyVersions memS3 (fst memPut) (ssKey memBlock)"
  have "case snd ?k of Inr kv \<Rightarrow> map svID (kvVersions kv) = [''v''] | Inl _ \<Rightarrow> False" by code_simp
  then obtain kv v where kv: "?k = (fst ?k, Inr kv)" "v \<in> set (kvVersions kv)" "svID v = ''v''"
    by (cases "snd ?k") (auto simp: prod_eq_iff)
  have "hdBody memHeld (fst ?k) (ssKey memBlock) ''v'' \<noteq> Some ''x''" by code_simp
  with put_never_writes_on_top [of memS3 memHeld, OF _ kv(1,2)] keepsVersions_mem kv(3) show ?thesis by simp
qed

theorem late_seal_still_completes_witness:
  "\<exists>r. S3Put demoSum memS3 7000000005 memBlock ''x'' (demoSum []) [] = (fst (S3Put demoSum memS3 7000000005 memBlock ''x'' (demoSum []) []), Inr r)
     \<and> 7000000005 < prRetainUntil r \<and> ssRetainUntil memBlock \<le> prRetainUntil r"
proof -
  let ?u = "lockUntil memS3 7000000005 memBlock" and ?k = "ssKey memBlock"
  let ?b = "[(?k, ''x'', \<lparr>lkMode = ''COMPLIANCE'', lkRetainUntil = ?u\<rparr>)]"
  have l1: "keyVersions memS3 [] ?k = ([], Inr \<lparr>kvKey = ?k, kvVersions = [], kvDeleteMarker = False\<rparr>)"
    by (simp add: keyVersions_def memStore_def)
  have p: "osPutLocked (s3Store memS3) [] ?k ''x'' ''COMPLIANCE'' ?u = (?b, Inr ''v'')" by (simp add: memStore_def memID_def)
  have l2: "keyVersions memS3 ?b ?k = (?b, Inr \<lparr>kvKey = ?k, kvVersions = [\<lparr>svID = ''v'', svIsLatest = True, svSize = 1,
      svLastModified = 0\<rparr>], kvDeleteMarker = False\<rparr>)"
    by (simp add: keyVersions_def memStore_def memEntry_def memID_def addVersion_def versionOf_def)
  have r: "osRetention (s3Store memS3) ?b ?k ''v'' = (?b, Inr \<lparr>lkMode = ''COMPLIANCE'', lkRetainUntil = ?u\<rparr>)"
    by (simp add: memStore_def memFind_def memID_def)
  have c: "s3Retention memS3 \<ge> 1000000000" "ssMode memBlock = ''compliance''" "demoSum ''x'' = demoSum []" by code_simp+
  from late_seal_still_completes [where hash = demoSum and data = "''x''" and sha = "demoSum []", OF c l1 _ p _ l2 _ _ r] show ?thesis by auto
qed

definition memSealed :: "directory \<times> (control_error + SealResult)" where
  "memSealed = SealActive memCodec quietIO idle idle demoClock '''' (Some memWriter) demoD1 ''c'' (demoControlEvent ''seal'' None)"

theorem seal_reports_only_a_protected_copy_witness:
  "\<exists>res data w' logID. snd memSealed = Inr res \<and> contents (fst memSealed) (SegmentPath ''c'' 1) = Some data
     \<and> S3Put demoSum memS3 5 memBlock data (srSHA256 res) [] = (w', Inr (srReceipt res))
     \<and> protects memHeld w' memBlock data (srReceipt res) \<and> demoSum data = srSHA256 res
     \<and> ssKey memBlock = Prefix memS3 logID @ ''seg-'' @ pad6 1"
proof -
  have "case snd memSealed of Inr res \<Rightarrow> srSink res = Some memBlock \<and> srSegment res = 1 | Inl _ \<Rightarrow> False" by code_simp
  then obtain res where r: "memSealed = (fst memSealed, Inr res)" "srSink res = Some memBlock" "srSegment res = 1"
    by (cases "snd memSealed") (auto simp: prod_eq_iff)
  have h: "kHash memCodec = demoSum" "kHash demoCodec = demoSum" by (simp_all add: memCodec_def demoCodec_def)
  have k: "wfDir demoD1" "keepsDirs idle" by (code_simp, simp add: keepsDirs_def idle_def)
  from r(1) have s: "SealActive memCodec quietIO idle idle demoClock ''''
      (Some (s3Writer (\<lambda>_. ''refused'') (kHash memCodec) memS3 5 [] [])) demoD1 ''c'' (demoControlEvent ''seal'' None) = (fst memSealed, Inr res)"
    by (simp add: memSealed_def memWriter_def h)
  from seal_reports_only_a_protected_copy [of memS3 memHeld, OF _ k k(2) s r(2)] keepsVersions_mem
  obtain data w' logID where "contents (fst memSealed) (SegmentPath ''c'' 1) = Some data"
    "S3Put demoSum memS3 5 memBlock data (srSHA256 res) [] = (w', Inr (srReceipt res))"
    "protects memHeld w' memBlock data (srReceipt res)" "demoSum data = srSHA256 res"
    "ssKey memBlock = Prefix memS3 logID @ ''seg-'' @ pad6 1" by (auto simp: h r(3))
  with r(1) show ?thesis by (metis snd_conv)
qed

text \<open>The bucket after the copy of the first segment, read back while its clock stands at 0.\<close>

definition memReader :: SinkReader where
  "memReader = \<lparr>sdPrefix = Prefix memS3,
     sdListVersions = (\<lambda>key. case snd (ListVersions memS3 (fst memPut) key) of Inl _ \<Rightarrow> Inl ''refused'' | Inr kv \<Rightarrow> Inr kv),
     sdListPrefix = (\<lambda>pre. case snd (ListPrefix memS3 (fst memPut) pre) of Inl _ \<Rightarrow> Inl ''refused'' | Inr kvs \<Rightarrow> Inr kvs),
     sdGetRetention = (\<lambda>key i. case snd (GetRetention memS3 (fst memPut) key i) of Inl _ \<Rightarrow> Inl ''refused'' | Inr l \<Rightarrow> Inr l),
     sdGet = (\<lambda>key i n. case snd (S3Get memS3 (fst memPut) key i n) of Inl _ \<Rightarrow> Inl ''refused'' | Inr b \<Rightarrow> Inr b)\<rparr>"

lemma during_mem: "snd (call (fst memPut)) = x \<Longrightarrow> during memHeld (fst memPut) 1000000000 call x"
  unfolding during_def by (intro exI [of _ "fst memPut"] exI [of _ "fst (call (fst memPut))"]) auto

lemma readsBucket_mem: "readsBucket memHeld memS3 (fst memPut) 1000000000 memReader"
  unfolding readsBucket_def memReader_def by (auto intro!: during_mem split: sum.splits)

lemma sealedToSink_mem: "sealedToSink memCodec memHeld memS3 (fst memPut) 1000000000 demoLogID 1 [''A'', ''B'']"
proof -
  have "sgSink (segView memCodec '''' 1 [] [''A'', ''B'']) = Some memBlock" "ssKey memBlock = Prefix memS3 demoLogID @ ''seg-'' @ pad6 1"
    by code_simp+
  moreover have "confirmedBefore (kHash memCodec) memHeld memS3 (fst memPut) 1000000000 memBlock (fileBytes [''A'', ''B''])"
  proof -
    have "kHash memCodec = demoSum" by (simp add: memCodec_def demoCodec_def)
    with mem_put_eq show ?thesis
      unfolding confirmedBefore_def by (intro exI [of _ 5] exI [of _ "demoSum []"] exI [of _ "[]"] exI [of _ "fst memPut"] exI [of _ memReceipt])
        (simp add: memReceipt_def)
  qed
  ultimately show ?thesis unfolding sealedToSink_def by blast
qed

theorem confirmed_copies_support_a_rebuild_witness:
  "\<exists>kvs. sdListPrefix memReader (sdPrefix memReader demoLogID) = Inr kvs \<and> holdsCopies memCodec memReader demoLogID [] 0 [[''A'', ''B'']] kvs"
proof -
  let ?l = "sdListPrefix memReader (sdPrefix memReader demoLogID)"
  have "case ?l of
      Inr kvs \<Rightarrow> map kvKey kvs = [sinkKey memReader demoLogID 1]
        \<and> list_all (\<lambda>kv. case kvVersions kv of [] \<Rightarrow> True
             | v # _ \<Rightarrow> \<not> isl (sdGet memReader (kvKey kv) (svID v) maxRestoreBody) \<and> \<not> isl (sdGetRetention memReader (kvKey kv) (svID v))) kvs
    | Inl _ \<Rightarrow> False" by code_simp
  then obtain kvs where l: "?l = Inr kvs" "map kvKey kvs = [sinkKey memReader demoLogID 1]"
    and a: "list_all (\<lambda>kv. case kvVersions kv of [] \<Rightarrow> True
             | v # _ \<Rightarrow> \<not> isl (sdGet memReader (kvKey kv) (svID v) maxRestoreBody) \<and> \<not> isl (sdGetRetention memReader (kvKey kv) (svID v))) kvs"
    by (cases ?l) auto
  have "list_all (answers memReader) kvs"
    using a by (auto simp: list_all_iff answers_def isl_def split: list.splits) (metis sum.exhaust)+
  with confirmed_copies_support_a_rebuild [of memS3 memHeld, OF _ readsBucket_mem, of "[[''A'', ''B'']]", OF _ _ l(1)]
    keepsVersions_mem sealedToSink_mem l show ?thesis by simp
qed

end
