(* ===== verification/Sink_Wire.thy ===== *)
theory Sink_Wire
  imports Sink "HOL-Library.Product_Lexorder" "HOL-Library.Multiset"
begin

text \<open>
  Package \<^verbatim>\<open>internal/sink\<close>, the transport: the Signature Version 4 of a request (\<^verbatim>\<open>sigv4.go\<close>) and the five
  operations of the store over signed requests (\<^verbatim>\<open>s3.go\<close>, \<^verbatim>\<open>xml.go\<close>).

  Arguments of the definitions are what \<^verbatim>\<open>crypto/hmac\<close>, \<^verbatim>\<open>crypto/sha256\<close>, \<^verbatim>\<open>crypto/md5\<close>, \<^verbatim>\<open>encoding/base64\<close>
  and \<^verbatim>\<open>time\<close>'s formats compute, what \<^verbatim>\<open>encoding/xml\<close> reads of a body, what \<^verbatim>\<open>net/http\<close> makes of a URL and
  what the server answers, which may change the state of the bucket.
\<close>

section \<open>Encoding\<close>

definition unreserved :: "char \<Rightarrow> bool" where
  "unreserved c \<longleftrightarrow>
     (let n = (of_char c :: nat)
      in (65 \<le> n \<and> n \<le> 90) \<or> (97 \<le> n \<and> n \<le> 122) \<or> (48 \<le> n \<and> n \<le> 57)) \<or> c \<in> {CHR ''-'', CHR ''_'', CHR ''.'', CHR ''~''}"

definition upperHex :: "nat \<Rightarrow> char" where
  "upperHex d = ''0123456789ABCDEF'' ! d"

definition encodeByte :: "char \<Rightarrow> bytes" where
  "encodeByte c = (if unreserved c then [c] else [CHR ''%'', upperHex (of_char c div 16), upperHex (of_char c mod 16)])"

definition uriEncode :: "bytes \<Rightarrow> bytes" where
  "uriEncode s = concat (map encodeByte s)"

definition uriEncodePath :: "bytes \<Rightarrow> bytes" where
  "uriEncodePath p = joinWith CHR ''/'' (map uriEncode (splitOn CHR ''/'' p))"

text \<open>\<open>url.PathUnescape\<close>: an escape is two hex digits of either case, or the text is refused.\<close>

definition hexValue :: "char \<Rightarrow> nat option" where
  "hexValue c =
     (let n = (of_char c :: nat)
      in if 48 \<le> n \<and> n \<le> 57 then Some (n - 48)
         else if 97 \<le> n \<and> n \<le> 102 then Some (n - 87)
         else if 65 \<le> n \<and> n \<le> 70 then Some (n - 55) else None)"

fun percentDecode :: "bytes \<Rightarrow> bytes option" where
  "percentDecode [] = Some []"
| "percentDecode (c # cs) =
     (if c = CHR ''%'' then
        (case cs of
           h # l # rest \<Rightarrow>
             (case (hexValue h, hexValue l) of
                (Some a, Some b) \<Rightarrow> map_option ((#) (char_of (16 * a + b))) (percentDecode rest)
              | _ \<Rightarrow> None)
         | _ \<Rightarrow> None)
      else map_option ((#) c) (percentDecode cs))"

definition pathUnescape :: "bytes \<Rightarrow> bytes" where
  "pathUnescape s = (case percentDecode s of None \<Rightarrow> s | Some u \<Rightarrow> u)"

definition queryPair :: "bytes \<Rightarrow> bytes \<times> bytes" where
  "queryPair p = (case cutAt CHR ''='' p of (name, val) \<Rightarrow> (uriEncode (pathUnescape name), uriEncode (pathUnescape val)))"

definition canonicalQuery :: "bytes \<Rightarrow> bytes" where
  "canonicalQuery rawQuery =
     (if rawQuery = '''' then ''''
      else joinWith CHR ''&'' (map (\<lambda>(n, v). n @ CHR ''='' # v)
             (sort (map queryPair (filter (\<lambda>p. p \<noteq> '''') (splitOn CHR ''&'' rawQuery))))))"

section \<open>Signing\<close>

text \<open>
  A request as the signature sees it. The header is an association list from canonical names to the
  values of the name, without a name twice; \<open>hLower\<close> is \<open>strings.ToLower\<close>.
\<close>

record wireRequest =
  rqMethod :: bytes
  rqPath :: bytes
  rqRawQuery :: bytes
  rqHost :: bytes
  rqURLHost :: bytes
  rqHeader :: "(bytes \<times> bytes list) list"
  rqBody :: bytes

record KeyPair =
  kpID :: bytes
  kpSecret :: bytes
  kpSession :: bytes

record crypto =
  cyHMAC :: "bytes \<Rightarrow> bytes \<Rightarrow> bytes"
  cySHA256 :: "bytes \<Rightarrow> bytes"
  cyMD5 :: "bytes \<Rightarrow> bytes"
  cyBase64 :: "bytes \<Rightarrow> bytes"
  cyAmzDate :: "int \<Rightarrow> bytes"
  cyAmzDay :: "int \<Rightarrow> bytes"
  cyRFC3339 :: "int \<Rightarrow> bytes"

definition asciiLower :: "char \<Rightarrow> char" where
  "asciiLower c = (let n = (of_char c :: nat) in if 65 \<le> n \<and> n \<le> 90 then char_of (n + 32) else c)"

text \<open>\<open>Header.Set\<close> on a canonical name: the value replaces what was there.\<close>

definition setHeader :: "bytes \<Rightarrow> bytes \<Rightarrow> wireRequest \<Rightarrow> wireRequest" where
  "setHeader name val rq = rq\<lparr>rqHeader := filter (\<lambda>(n, _). n \<noteq> name) (rqHeader rq) @ [(name, [val])]\<rparr>"

definition signedHeaderNames :: "wireRequest \<Rightarrow> bytes list" where
  "signedHeaderNames rq = sort (map (\<lambda>(n, _). map asciiLower n) (rqHeader rq) @ [''host''])"

text \<open>\<open>Header.Values\<close> of a lower-case name: the values under its canonical form.\<close>

definition headerValues :: "wireRequest \<Rightarrow> bytes \<Rightarrow> bytes list" where
  "headerValues rq name = (case find (\<lambda>(n, _). map asciiLower n = name) (rqHeader rq) of None \<Rightarrow> [] | Some (_, vs) \<Rightarrow> vs)"

definition headerValue :: "wireRequest \<Rightarrow> bytes \<Rightarrow> bytes" where
  "headerValue rq name =
     joinSpace (stringFields (if name = ''host'' then (if rqHost rq = '''' then rqURLHost rq else rqHost rq)
                              else joinWith CHR '','' (headerValues rq name)))"

definition canonicalRequest :: "wireRequest \<Rightarrow> bytes list \<Rightarrow> bytes \<Rightarrow> bytes" where
  "canonicalRequest rq signedNames payloadHash =
     rqMethod rq @ [newline] @ uriEncodePath (rqPath rq) @ [newline] @ canonicalQuery (rqRawQuery rq) @ [newline]
     @ concat (map (\<lambda>name. name @ CHR '':'' # headerValue rq name @ [newline]) signedNames)
     @ [newline] @ joinWith CHR '';'' signedNames @ [newline] @ payloadHash"

definition credentialScope :: "crypto \<Rightarrow> int \<Rightarrow> bytes \<Rightarrow> bytes \<Rightarrow> bytes" where
  "credentialScope cy now region service = cyAmzDay cy now @ ''/'' @ region @ ''/'' @ service @ ''/aws4_request''"

definition sigV4Algorithm :: bytes where
  "sigV4Algorithm = ''AWS4-HMAC-SHA256''"

definition stringToSign :: "crypto \<Rightarrow> int \<Rightarrow> bytes \<Rightarrow> bytes \<Rightarrow> bytes" where
  "stringToSign cy now scope canonicalHash =
     sigV4Algorithm @ [newline] @ cyAmzDate cy now @ [newline] @ scope @ [newline] @ canonicalHash"

definition signingKey :: "crypto \<Rightarrow> bytes \<Rightarrow> bytes \<Rightarrow> bytes \<Rightarrow> bytes \<Rightarrow> bytes" where
  "signingKey cy secret date region service =
     cyHMAC cy (cyHMAC cy (cyHMAC cy (cyHMAC cy (''AWS4'' @ secret) date) region) service) ''aws4_request''"

definition signV4 :: "crypto \<Rightarrow> KeyPair \<Rightarrow> bytes \<Rightarrow> bytes \<Rightarrow> int \<Rightarrow> bytes \<Rightarrow> wireRequest \<Rightarrow> wireRequest" where
  "signV4 cy kp region service now payloadHash rq0 =
     (let rq1 = setHeader ''X-Amz-Date'' (cyAmzDate cy now) rq0;
          rq = if kpSession kp \<noteq> '''' then setHeader ''X-Amz-Security-Token'' (kpSession kp) rq1 else rq1;
          signedNames = signedHeaderNames rq;
          creq = canonicalRequest rq signedNames payloadHash;
          scope = credentialScope cy now region service;
          sts = stringToSign cy now scope (hexBytes (cySHA256 cy creq));
          key = signingKey cy (kpSecret kp) (cyAmzDay cy now) region service;
          signature = hexBytes (cyHMAC cy key sts)
      in setHeader ''Authorization''
           (sigV4Algorithm @ '' Credential='' @ kpID kp @ ''/'' @ scope @ '', SignedHeaders='' @ joinWith CHR '';'' signedNames
            @ '', Signature='' @ signature) rq)"

section \<open>Requests\<close>

record response =
  rsStatus :: int
  rsVersionID :: bytes
  rsBody :: bytes

record listEntry =
  leName :: bytes
  leKey :: bytes
  leVersionID :: bytes
  leIsLatest :: bool
  leLastModified :: bytes
  leSize :: int

record listVersionsResult =
  lrIsTruncated :: bool
  lrNextKeyMarker :: bytes
  lrNextVersionIDMarker :: bytes
  lrEntries :: "listEntry list"

record retentionResult =
  rrMode :: bytes
  rrRetainUntilDate :: bytes

text \<open>
  What the standard library reads: a URL as the path, query and host of a request, an instant in RFC 3339,
  the response documents.
\<close>

record wire =
  wiURL :: "bytes \<Rightarrow> (bytes \<times> bytes \<times> bytes) option"
  wiTime :: "bytes \<Rightarrow> int option"
  wiError :: "bytes \<Rightarrow> bytes"
  wiRetention :: "bytes \<Rightarrow> retentionResult option"
  wiLockConfig :: "bytes \<Rightarrow> bytes option"
  wiListing :: "bytes \<Rightarrow> listVersionsResult option"

text \<open>The transport: the keys as they resolve, the clock's answer, and the round trip of \<^verbatim>\<open>net/http\<close>.\<close>

record 's sigv4Store =
  stBase :: bytes
  stHost :: bytes
  stBucket :: bytes
  stRegion :: bytes
  stKeys :: "bytes + KeyPair"
  stNow :: int
  stDo :: "'s \<Rightarrow> wireRequest \<Rightarrow> 's \<times> (bytes + response)"

definition maxListBody :: nat where
  "maxListBody = 1048576"

definition maxListPages :: nat where
  "maxListPages = 1000"

definition objectURL :: "'s sigv4Store \<Rightarrow> bytes \<Rightarrow> bytes \<Rightarrow> bytes" where
  "objectURL st key query =
     stBase st @ ''/'' @ uriEncode (stBucket st) @ (if key \<noteq> '''' then ''/'' @ uriEncodePath key else '''')
     @ (if query \<noteq> '''' then ''?'' @ query else '''')"

definition encodePair :: "bytes \<times> bytes \<Rightarrow> bytes" where
  "encodePair p = (if snd p = '''' then uriEncode (fst p) else uriEncode (fst p) @ CHR ''='' # uriEncode (snd p))"

definition queryString :: "(bytes \<times> bytes) list \<Rightarrow> bytes" where
  "queryString pairs = joinWith CHR ''&'' (map encodePair pairs)"

datatype wire_error =
    WireFault bytes
  | BodyTooLarge int

definition doRequest ::
  "crypto \<Rightarrow> wire \<Rightarrow> 's sigv4Store \<Rightarrow> 's \<Rightarrow> bytes \<Rightarrow> bytes \<Rightarrow> bytes \<Rightarrow> (bytes \<times> bytes list) list \<Rightarrow> int \<Rightarrow>
   's \<times> (wire_error + response)" where
  "doRequest cy wi st w method rawURL body hdr maxBody =
     (case stKeys st of
        Inl e \<Rightarrow> (w, Inl (WireFault e))
      | Inr kp \<Rightarrow>
          (case wiURL wi rawURL of
             None \<Rightarrow> (w, Inl (WireFault ''url''))
           | Some (path, query, host) \<Rightarrow>
               let payloadHash = hexBytes (cySHA256 cy body);
                   rq = setHeader ''X-Amz-Content-Sha256'' payloadHash
                          \<lparr>rqMethod = method, rqPath = path, rqRawQuery = query, rqHost = host, rqURLHost = host,
                           rqHeader = hdr, rqBody = body\<rparr>
               in (case stDo st w (signV4 cy kp (stRegion st) ''s3'' (stNow st) payloadHash rq) of
                     (w', Inl e) \<Rightarrow> (w', Inl (WireFault (stHost st @ '': '' @ e)))
                   | (w', Inr rs) \<Rightarrow>
                       let bound = if rsStatus rs div 100 \<noteq> 2 then int maxListBody else maxBody
                       in if int (length (rsBody rs)) > bound then (w', Inl (BodyTooLarge (rsStatus rs))) else (w', Inr rs))))"

definition refusal :: "wire \<Rightarrow> 's sigv4Store \<Rightarrow> bytes \<Rightarrow> response \<Rightarrow> store_error" where
  "refusal wi st op rs =
     (if rsStatus rs div 100 = 3 then StoreFault ''redirect''
      else if wiError wi (rsBody rs) = ''RequestTimeTooSkewed'' then ClockSkew
      else StatusError op (rsStatus rs) (wiError wi (rsBody rs)))"

text \<open>The four ways a request ends: over the bound, a fault, a refusal, an answer.\<close>

definition classify :: "wire \<Rightarrow> 's sigv4Store \<Rightarrow> bytes \<Rightarrow> wire_error + response \<Rightarrow> store_error + response" where
  "classify wi st op r =
     (case r of
        Inl (BodyTooLarge _) \<Rightarrow> Inl (StoreFault ''body over 1 MiB'')
      | Inl (WireFault e) \<Rightarrow> Inl (StoreFault e)
      | Inr rs \<Rightarrow> if rsStatus rs div 100 \<noteq> 2 then Inl (refusal wi st op rs) else Inr rs)"

definition contentMD5 :: "crypto \<Rightarrow> bytes \<Rightarrow> bytes" where
  "contentMD5 cy data = cyBase64 cy (cyMD5 cy data)"

definition checksumSHA256 :: "crypto \<Rightarrow> bytes \<Rightarrow> bytes" where
  "checksumSHA256 cy data = cyBase64 cy (cySHA256 cy data)"

definition putLocked ::
  "crypto \<Rightarrow> wire \<Rightarrow> 's sigv4Store \<Rightarrow> 's \<Rightarrow> bytes \<Rightarrow> bytes \<Rightarrow> bytes \<Rightarrow> int \<Rightarrow> 's \<times> (store_error + bytes)" where
  "putLocked cy wi st w key body mode until =
     (let hdr = [(''Content-Type'', [''application/x-ndjson'']), (''Content-Md5'', [contentMD5 cy body]),
                 (''X-Amz-Checksum-Sha256'', [checksumSHA256 cy body]), (''X-Amz-Object-Lock-Mode'', [mode]),
                 (''X-Amz-Object-Lock-Retain-Until-Date'', [cyRFC3339 cy until])]
      in case doRequest cy wi st w ''PUT'' (objectURL st key '''') body hdr (int maxListBody) of
           (w', r) \<Rightarrow>
             (case classify wi st ''PutObject'' r of
                Inl e \<Rightarrow> (w', Inl e)
              | Inr rs \<Rightarrow> (w', Inr (rsVersionID rs))))"

definition getVersion ::
  "crypto \<Rightarrow> wire \<Rightarrow> 's sigv4Store \<Rightarrow> 's \<Rightarrow> bytes \<Rightarrow> bytes \<Rightarrow> int \<Rightarrow> 's \<times> (store_error + bytes)" where
  "getVersion cy wi st w key i bound =
     (case doRequest cy wi st w ''GET'' (objectURL st key (queryString [(''versionId'', i)])) [] [] bound of
        (w', Inl (BodyTooLarge status)) \<Rightarrow>
          (w', Inl (if status div 100 = 2 then ObjectTooLarge else StoreFault ''body over 1 MiB''))
      | (w', r) \<Rightarrow>
          (case classify wi st ''GetObject'' r of
             Inl e \<Rightarrow> (w', Inl e)
           | Inr rs \<Rightarrow> (w', Inr (rsBody rs))))"

definition retention ::
  "crypto \<Rightarrow> wire \<Rightarrow> 's sigv4Store \<Rightarrow> 's \<Rightarrow> bytes \<Rightarrow> bytes \<Rightarrow> 's \<times> (store_error + lock)" where
  "retention cy wi st w key i =
     (case doRequest cy wi st w ''GET'' (objectURL st key (queryString [(''retention'', ''''), (''versionId'', i)])) [] []
             (int maxListBody) of
        (w', r) \<Rightarrow>
          (case classify wi st ''GetObjectRetention'' r of
             Inl e \<Rightarrow>
               (w', if e = StatusError ''GetObjectRetention'' 404 ''NoSuchObjectLockConfiguration''
                    then Inr \<lparr>lkMode = '''', lkRetainUntil = 0\<rparr> else Inl e)
           | Inr rs \<Rightarrow>
               (w', case wiRetention wi (rsBody rs) of
                      None \<Rightarrow> Inl (StoreFault ''not a Retention document'')
                    | Some d \<Rightarrow>
                        (case wiTime wi (rrRetainUntilDate d) of
                           None \<Rightarrow> Inl (StoreFault ''unreadable RetainUntilDate'')
                         | Some t \<Rightarrow> Inr \<lparr>lkMode = rrMode d, lkRetainUntil = t\<rparr>))))"

definition lockEnabled :: "crypto \<Rightarrow> wire \<Rightarrow> 's sigv4Store \<Rightarrow> 's \<Rightarrow> 's \<times> (store_error + bool)" where
  "lockEnabled cy wi st w =
     (case doRequest cy wi st w ''GET'' (objectURL st '''' (queryString [(''object-lock'', '''')])) [] [] (int maxListBody) of
        (w', r) \<Rightarrow>
          (case classify wi st ''GetObjectLockConfiguration'' r of
             Inl e \<Rightarrow>
               (w', if e = StatusError ''GetObjectLockConfiguration'' 404 ''ObjectLockConfigurationNotFoundError''
                    then Inr False else Inl e)
           | Inr rs \<Rightarrow>
               (w', case wiLockConfig wi (rsBody rs) of
                      None \<Rightarrow> Inl (StoreFault ''not an ObjectLockConfiguration document'')
                    | Some v \<Rightarrow> Inr (v = ''Enabled''))))"

text \<open>The entries of a page that are versions or markers; one with an unreadable date refuses the page.\<close>

fun pageEntries :: "wire \<Rightarrow> listEntry list \<Rightarrow> store_error + objectVersion list" where
  "pageEntries wi [] = Inr []"
| "pageEntries wi (e # es) =
     (if leName e \<noteq> ''Version'' \<and> leName e \<noteq> ''DeleteMarker'' then pageEntries wi es
      else case (if leLastModified e = '''' then Some 0 else wiTime wi (leLastModified e)) of
             None \<Rightarrow> Inl (StoreFault ''unreadable LastModified'')
           | Some t \<Rightarrow>
               (case pageEntries wi es of
                  Inl err \<Rightarrow> Inl err
                | Inr vs \<Rightarrow>
                    Inr (\<lparr>ovKey = leKey e, ovID = leVersionID e, ovIsLatest = leIsLatest e,
                          ovDeleteMarker = (leName e = ''DeleteMarker''), ovSize = leSize e, ovLastModified = t\<rparr> # vs)))"

definition pageQuery :: "bytes \<Rightarrow> bytes \<Rightarrow> bytes \<Rightarrow> (bytes \<times> bytes) list" where
  "pageQuery pre keyMarker verMarker =
     [(''versions'', '''')] @ (if pre \<noteq> '''' then [(''prefix'', pre)] else [])
     @ (if keyMarker \<noteq> '''' then [(''key-marker'', keyMarker), (''version-id-marker'', verMarker)] else [])"

definition listPage ::
  "crypto \<Rightarrow> wire \<Rightarrow> 's sigv4Store \<Rightarrow> 's \<Rightarrow> bytes \<Rightarrow> bytes \<Rightarrow> bytes \<Rightarrow> 's \<times> (store_error + objectVersion list \<times> listVersionsResult)" where
  "listPage cy wi st w pre keyMarker verMarker =
     (case doRequest cy wi st w ''GET'' (objectURL st '''' (queryString (pageQuery pre keyMarker verMarker))) [] [] (int maxListBody) of
        (w', r) \<Rightarrow>
          (case classify wi st ''ListObjectVersions'' r of
             Inl e \<Rightarrow> (w', Inl e)
           | Inr rs \<Rightarrow>
               (w', case wiListing wi (rsBody rs) of
                      None \<Rightarrow> Inl (StoreFault ''not a ListVersionsResult document'')
                    | Some d \<Rightarrow>
                        (case pageEntries wi (lrEntries d) of
                           Inl e \<Rightarrow> Inl e
                         | Inr vs \<Rightarrow> Inr (vs, d)))))"

text \<open>\<open>left\<close> counts the pages that may still be asked for.\<close>

fun listLoop ::
  "crypto \<Rightarrow> wire \<Rightarrow> 's sigv4Store \<Rightarrow> bytes \<Rightarrow> nat \<Rightarrow> 's \<Rightarrow> bytes \<Rightarrow> bytes \<Rightarrow> objectVersion list \<Rightarrow>
   's \<times> (store_error + objectVersion list)" where
  "listLoop cy wi st pre 0 w keyMarker verMarker out = (w, Inl (StoreFault ''listing exceeded 1000 pages''))"
| "listLoop cy wi st pre (Suc left) w keyMarker verMarker out =
     (case listPage cy wi st w pre keyMarker verMarker of
        (w', Inl e) \<Rightarrow> (w', Inl e)
      | (w', Inr (vs, d)) \<Rightarrow>
          if \<not> lrIsTruncated d then (w', Inr (out @ vs))
          else if lrNextKeyMarker d = '''' then (w', Inl (StoreFault ''truncated without a continuation marker''))
          else listLoop cy wi st pre left w' (lrNextKeyMarker d) (lrNextVersionIDMarker d) (out @ vs))"

definition listVersions :: "crypto \<Rightarrow> wire \<Rightarrow> 's sigv4Store \<Rightarrow> 's \<Rightarrow> bytes \<Rightarrow> 's \<times> (store_error + objectVersion list)" where
  "listVersions cy wi st w pre = listLoop cy wi st pre maxListPages w '''' '''' []"

definition wireStore :: "crypto \<Rightarrow> wire \<Rightarrow> 's sigv4Store \<Rightarrow> 's objectStore" where
  "wireStore cy wi st = \<lparr>osPutLocked = putLocked cy wi st, osGet = getVersion cy wi st, osRetention = retention cy wi st,
     osLockEnabled = lockEnabled cy wi st, osListVersions = listVersions cy wi st\<rparr>"

section \<open>Encoding and decoding\<close>

lemma hexValue_upperHex: "d < 16 \<Longrightarrow> hexValue (upperHex d) = Some d"
proof -
  have "\<forall>d \<in> {0..<16}. hexValue (upperHex d) = Some d" by code_simp
  then show "d < 16 \<Longrightarrow> hexValue (upperHex d) = Some d" by simp
qed

lemma percent_reserved: "\<not> unreserved CHR ''%''" "\<not> unreserved CHR ''&''" "\<not> unreserved CHR ''=''" "\<not> unreserved CHR ''/''" "\<not> unreserved newline"
  by code_simp+

lemma upperHex_unreserved: "d < 16 \<Longrightarrow> unreserved (upperHex d)"
proof -
  have "\<forall>d \<in> {0..<16}. unreserved (upperHex d)" by code_simp
  then show "d < 16 \<Longrightarrow> unreserved (upperHex d)" by simp
qed

lemma percentDecode_byte: "percentDecode (encodeByte c @ s) = map_option ((#) c) (percentDecode s)"
proof (cases "unreserved c")
  case True
  with percent_reserved(1) have "c \<noteq> CHR ''%''" by auto
  with True show ?thesis by (simp add: encodeByte_def)
next
  case False
  have "(of_char c :: nat) div 16 < 16" by (rule less_mult_imp_div_less) simp
  with False show ?thesis by (simp add: encodeByte_def hexValue_upperHex)
qed

lemma percentDecode_uriEncode_append: "percentDecode (uriEncode s @ t) = map_option ((@) s) (percentDecode t)"
proof (induction s)
  case Nil
  show ?case by (cases "percentDecode t") (simp_all add: uriEncode_def)
next
  case (Cons c s)
  then show ?case by (cases "percentDecode t") (simp_all add: uriEncode_def percentDecode_byte)
qed

lemma percentDecode_uriEncode [simp]: "percentDecode (uriEncode s) = Some s"
  using percentDecode_uriEncode_append [of s "[]"] by simp

lemma pathUnescape_uriEncode [simp]: "pathUnescape (uriEncode s) = s"
  by (simp add: pathUnescape_def)

lemma pathUnescape_Nil: "pathUnescape [] = []"
  by (simp add: pathUnescape_def)

lemma uriEncode_Nil: "uriEncode [] = []"
  by (simp add: uriEncode_def)

lemma uriEncode_chars: "c \<in> set (uriEncode s) \<Longrightarrow> unreserved c \<or> c = CHR ''%''"
proof -
  have "c \<in> set (encodeByte x) \<Longrightarrow> unreserved c \<or> c = CHR ''%''" for x
    using upperHex_unreserved [of "of_char x div 16"] upperHex_unreserved [of "of_char x mod 16"]
    by (auto simp: encodeByte_def less_mult_imp_div_less split: if_splits)
  then show "c \<in> set (uriEncode s) \<Longrightarrow> unreserved c \<or> c = CHR ''%''" by (auto simp: uriEncode_def)
qed

lemma uriEncode_clean: "CHR ''&'' \<notin> set (uriEncode s)" "CHR ''='' \<notin> set (uriEncode s)" "CHR ''/'' \<notin> set (uriEncode s)" "newline \<notin> set (uriEncode s)"
  using uriEncode_chars [of _ s] percent_reserved by auto

lemma uriEncode_inj: "uriEncode s = uriEncode t \<Longrightarrow> s = t"
  by (metis percentDecode_uriEncode option.inject)

lemma uriEncode_nonempty: "uriEncode s = [] \<longleftrightarrow> s = []"
  using uriEncode_inj [of s "[]"] by (auto simp: uriEncode_def)

lemma percentDecode_joined: "percentDecode (joinWith CHR ''/'' (map uriEncode xs)) = Some (joinWith CHR ''/'' xs)"
proof (induction "CHR ''/''" xs rule: joinWith.induct)
  case (3 x y xs)
  then show ?case by (simp add: percentDecode_uriEncode_append)
qed simp_all

lemma percentDecode_path: "percentDecode (uriEncodePath p) = Some p"
  by (simp add: uriEncodePath_def percentDecode_joined)

lemma uriEncodePath_inj: "uriEncodePath p = uriEncodePath q \<Longrightarrow> p = q"
  by (metis percentDecode_path option.inject)

lemma joinWith_set: "c \<in> set (joinWith d xs) \<Longrightarrow> c = d \<or> (\<exists>x \<in> set xs. c \<in> set x)"
  by (induction d xs rule: joinWith.induct) auto

lemma uriEncodePath_clean: "newline \<notin> set (uriEncodePath p)"
  using joinWith_set [of newline "CHR ''/''" "map uriEncode (splitOn CHR ''/'' p)"] uriEncode_clean
  by (auto simp: uriEncodePath_def)

section \<open>The query\<close>

lemma cutAt_plain: "c \<notin> set s \<Longrightarrow> cutAt c s = (s, [])"
proof -
  assume "c \<notin> set s"
  then have "takeWhile (\<lambda>x. x \<noteq> c) s = s" "dropWhile (\<lambda>x. x \<noteq> c) s = []" by (induction s) auto
  then show ?thesis unfolding cutAt_def by (simp only: drop_Nil)
qed

lemma cutAt_cut: "c \<notin> set s \<Longrightarrow> cutAt c (s @ c # t) = (s, t)"
proof -
  assume "c \<notin> set s"
  then have "takeWhile (\<lambda>x. x \<noteq> c) (s @ c # t) = s" "dropWhile (\<lambda>x. x \<noteq> c) (s @ c # t) = c # t" by (induction s) auto
  then show ?thesis by (simp add: cutAt_def)
qed

definition encodedPair :: "bytes \<times> bytes \<Rightarrow> bytes \<times> bytes" where
  "encodedPair p = (uriEncode (fst p), uriEncode (snd p))"

lemma queryPair_encodePair: "queryPair (encodePair p) = encodedPair p"
proof (cases "snd p = []")
  case True
  then show ?thesis
    using cutAt_plain [OF uriEncode_clean(2), of "fst p"]
    by (simp add: queryPair_def encodePair_def encodedPair_def pathUnescape_Nil uriEncode_Nil)
next
  case False
  then show ?thesis
    using cutAt_cut [OF uriEncode_clean(2), of "fst p" "uriEncode (snd p)"]
    by (simp add: queryPair_def encodePair_def encodedPair_def)
qed

lemma encodePair_clean: "CHR ''&'' \<notin> set (encodePair p)" "fst p \<noteq> [] \<Longrightarrow> encodePair p \<noteq> []"
  using uriEncode_clean(1) by (auto simp: encodePair_def uriEncode_nonempty)

lemma canonicalQuery_queryString:
  assumes "\<forall>p \<in> set pairs. fst p \<noteq> []" "pairs \<noteq> []"
  shows "canonicalQuery (queryString pairs) = joinWith CHR ''&'' (map (\<lambda>(n, v). n @ CHR ''='' # v) (sort (map encodedPair pairs)))"
proof -
  have ne: "\<forall>x \<in> set (map encodePair pairs). CHR ''&'' \<notin> set x \<and> x \<noteq> []" using assms(1) encodePair_clean by auto
  have sp: "splitOn CHR ''&'' (queryString pairs) = map encodePair pairs"
    unfolding queryString_def using assms(2) ne by (intro splitOn_joinWith) auto
  then have "queryString pairs \<noteq> []" using ne assms(2) by (cases pairs) auto
  moreover have "filter (\<lambda>p. p \<noteq> []) (map encodePair pairs) = map encodePair pairs" using ne by (auto simp: filter_id_conv)
  ultimately show ?thesis by (simp add: canonicalQuery_def sp queryPair_encodePair comp_def)
qed

text \<open>
  The parameters of a query as a server reads them, apart from how they are signed: the parts between
  ampersands, each cut at its first equals sign, name and value unescaped. The canonical query has every
  name and value, so it determines the parameters up to their order.
\<close>

definition readParam :: "bytes \<Rightarrow> bytes \<times> bytes" where
  "readParam p = (pathUnescape (fst (cutAt CHR ''='' p)), pathUnescape (snd (cutAt CHR ''='' p)))"

definition queryParams :: "bytes \<Rightarrow> (bytes \<times> bytes) list" where
  "queryParams q =
     map readParam (filter (\<lambda>p. p \<noteq> []) (splitOn CHR ''&'' q))"

definition pairText :: "bytes \<times> bytes \<Rightarrow> bytes" where
  "pairText p = fst p @ CHR ''='' # snd p"

lemma queryPair_readParam: "queryPair p = encodedPair (readParam p)"
  by (simp add: queryPair_def encodedPair_def readParam_def split: prod.splits)

lemma canonicalQuery_params:
  "canonicalQuery q = joinWith CHR ''&'' (map pairText (sort (map encodedPair (queryParams q))))"
proof -
  have "(\<lambda>(n, v). n @ CHR ''='' # v) = pairText" by (auto simp: pairText_def)
  moreover have "map queryPair ps = map encodedPair (map readParam ps)" for ps
    by (induction ps) (simp_all add: queryPair_readParam)
  moreover have "queryParams [] = []" by (simp add: queryParams_def)
  ultimately show ?thesis by (simp only: canonicalQuery_def queryParams_def) auto
qed

lemma pairText_encoded_inj: "pairText (encodedPair p) = pairText (encodedPair p') \<Longrightarrow> p = p'"
proof -
  assume eq: "pairText (encodedPair p) = pairText (encodedPair p')"
  have "cutAt CHR ''='' (pairText (encodedPair x)) = encodedPair x" for x
    unfolding pairText_def by (subst cutAt_cut) (simp_all add: encodedPair_def uriEncode_clean)
  with eq have "encodedPair p = encodedPair p'" by metis
  then show "p = p'" by (auto simp: encodedPair_def prod_eq_iff dest: uriEncode_inj)
qed

lemma joined_pairs_inj:
  assumes "joinWith CHR ''&'' (map (pairText \<circ> encodedPair) ps) = joinWith CHR ''&'' (map (pairText \<circ> encodedPair) qs)"
  shows "ps = qs"
proof -
  let ?f = "pairText \<circ> encodedPair"
  have sp: "splitOn CHR ''&'' (joinWith CHR ''&'' (map ?f xs)) = map ?f xs" if "xs \<noteq> []" for xs
    by (rule splitOn_joinWith) (use that uriEncode_clean(1) in \<open>auto simp: pairText_def encodedPair_def\<close>)
  have ne: "joinWith CHR ''&'' (map ?f xs) = [] \<longleftrightarrow> xs = []" for xs
    by (cases xs; cases "tl xs") (simp_all add: pairText_def)
  have "map ?f ps = map ?f qs"
    using assms sp [of ps] sp [of qs] ne [of ps] ne [of qs] by (cases "ps = []") auto
  moreover have "inj ?f" by (rule injI) (auto dest: pairText_encoded_inj)
  ultimately show ?thesis by (simp add: inj_map_eq_map)
qed

definition decodedPair :: "bytes \<times> bytes \<Rightarrow> bytes \<times> bytes" where
  "decodedPair p = (pathUnescape (fst p), pathUnescape (snd p))"

lemma decoded_encoded [simp]: "decodedPair (encodedPair p) = p"
  by (simp add: decodedPair_def encodedPair_def)

lemma sort_encoded: "map encodedPair (map decodedPair (sort (map encodedPair ps))) = sort (map encodedPair ps)"
  unfolding map_map by (rule map_idI) auto

lemma canonicalQuery_pins_params:
  assumes "canonicalQuery q = canonicalQuery q'"
  shows "mset (queryParams q) = mset (queryParams q')"
proof -
  let ?s = "\<lambda>x. map decodedPair (sort (map encodedPair (queryParams x)))"
  have j: "canonicalQuery x = joinWith CHR ''&'' (map (pairText \<circ> encodedPair) (?s x))" for x
    unfolding canonicalQuery_params map_map [symmetric] sort_encoded by (rule refl)
  have m: "mset (?s x) = mset (queryParams x)" for x
    by (simp add: multiset.map_comp comp_def)
  from joined_pairs_inj [OF assms [unfolded j]] m show ?thesis by metis
qed


section \<open>The signature\<close>

lemma decodeRune_newline:
  assumes "decodeRune c bs = (r, w)" "newline \<in> set (c # take (w - 1) bs)"
  shows "r = 10"
proof -
  have c: "(of_char c :: nat) < 0x80 \<Longrightarrow> r = of_char c \<and> w = 1" using assms(1) by (auto simp: decodeRune_def Let_def)
  have nl: "(of_char newline :: nat) = 10" by simp
  have tail: "newline \<notin> set (take (w - 1) bs)"
    using assms(1)
    by (auto simp: decodeRune_def Let_def contByte_def secondByte_def split: if_splits list.splits)
  with assms(2) have "c = newline" by simp
  with c nl show ?thesis by simp
qed

lemma chunks_newline: "(r, b) \<in> set (chunks s) \<Longrightarrow> newline \<in> set b \<Longrightarrow> isSpace r"
proof (induction s rule: chunks.induct)
  case (2 c bs)
  obtain r0 w where d: "decodeRune c bs = (r0, w)" by fastforce
  with 2 decodeRune_newline [OF d] show ?case by (auto simp: isSpace_def)
qed simp

lemma fieldsLoop_newline: "(\<forall>(r, b) \<in> set cs. newline \<in> set b \<longrightarrow> isSpace r) \<Longrightarrow> newline \<notin> set cur \<Longrightarrow> f \<in> set (fieldsLoop cur cs) \<Longrightarrow> newline \<notin> set f"
  by (induction cur cs rule: fieldsLoop.induct) (auto split: if_splits)

lemma joinSpace_newline: "\<forall>f \<in> set fs. newline \<notin> set f \<Longrightarrow> newline \<notin> set (joinSpace fs)"
  by (cases fs) (auto simp: joinSpace_def)

lemma stringFields_newline: "f \<in> set (stringFields s) \<Longrightarrow> newline \<notin> set f"
  unfolding stringFields_def by (rule fieldsLoop_newline [of "chunks s" "[]"]) (auto dest: chunks_newline)

lemma headerValue_clean: "newline \<notin> set (headerValue rq name)"
  unfolding headerValue_def by (rule joinSpace_newline) (use stringFields_newline in blast)

lemma queryPair_clean: "newline \<notin> set (fst (queryPair p))" "newline \<notin> set (snd (queryPair p))"
  using uriEncode_clean(4) by (simp_all add: queryPair_def split: prod.splits)

lemma canonicalQuery_clean: "newline \<notin> set (canonicalQuery q)"
proof
  assume "newline \<in> set (canonicalQuery q)"
  then obtain x p where "x = fst (queryPair p) @ CHR ''='' # snd (queryPair p)" "newline \<in> set x"
    by (auto simp: canonicalQuery_def case_prod_beta split: if_splits dest!: joinWith_set)
  then show False using queryPair_clean [of p] by auto
qed

text \<open>The canonical request is a list of lines, none of which contains a line break.\<close>

definition requestLines :: "wireRequest \<Rightarrow> bytes list \<Rightarrow> bytes \<Rightarrow> bytes list" where
  "requestLines rq names payloadHash =
     [rqMethod rq, uriEncodePath (rqPath rq), canonicalQuery (rqRawQuery rq)]
     @ map (\<lambda>name. name @ CHR '':'' # headerValue rq name) names @ [[], joinWith CHR '';'' names, payloadHash]"

lemma joinWith_append: "xs \<noteq> [] \<Longrightarrow> ys \<noteq> [] \<Longrightarrow> joinWith c (xs @ ys) = joinWith c xs @ c # joinWith c ys"
  by (induction c xs rule: joinWith.induct) (auto simp: neq_Nil_conv)

lemma joinWith_lines: "ys \<noteq> [] \<Longrightarrow> joinWith c (map f xs @ ys) = concat (map (\<lambda>x. f x @ [c]) xs) @ joinWith c ys"
proof (induction xs)
  case (Cons x xs)
  then show ?case using joinWith_append [of "[f x]" "map f xs @ ys" c] by simp
qed simp

lemma canonicalRequest_lines: "canonicalRequest rq names h = joinWith newline (requestLines rq names h)"
proof -
  let ?ls = "map (\<lambda>name. name @ CHR '':'' # headerValue rq name) names @ [[], joinWith CHR '';'' names, h]"
  have "joinWith newline (requestLines rq names h) = joinWith newline [rqMethod rq, uriEncodePath (rqPath rq), canonicalQuery (rqRawQuery rq)]
      @ newline # joinWith newline ?ls"
    unfolding requestLines_def by (rule joinWith_append) simp_all
  then show ?thesis by (simp add: canonicalRequest_def joinWith_lines)
qed

definition cleanRequest :: "wireRequest \<Rightarrow> bytes list \<Rightarrow> bytes \<Rightarrow> bool" where
  "cleanRequest rq names h \<longleftrightarrow>
     newline \<notin> set (rqMethod rq) \<and> newline \<notin> set h \<and> (\<forall>n \<in> set names. newline \<notin> set n \<and> CHR '':'' \<notin> set n)"

lemma requestLines_clean: "cleanRequest rq names h \<Longrightarrow> x \<in> set (requestLines rq names h) \<Longrightarrow> newline \<notin> set x"
  using joinWith_set [of newline "CHR '';''" names]
  by (auto simp: cleanRequest_def requestLines_def uriEncodePath_clean canonicalQuery_clean headerValue_clean)

lemma colon_lines:
  "map (\<lambda>n. n @ CHR '':'' # f n) ns = map (\<lambda>n. n @ CHR '':'' # g n) ms \<Longrightarrow>
     \<forall>n \<in> set ns \<union> set ms. CHR '':'' \<notin> set n \<Longrightarrow> ns = ms \<and> (\<forall>n \<in> set ns. f n = g n)"
proof (induction ns arbitrary: ms)
  case (Cons n ns)
  then obtain m ms' where ms: "ms = m # ms'" "n @ CHR '':'' # f n = m @ CHR '':'' # g m" by (cases ms) auto
  have "cutAt CHR '':'' (n @ CHR '':'' # f n) = (n, f n)" "cutAt CHR '':'' (m @ CHR '':'' # g m) = (m, g m)"
    using Cons.prems(2) ms(1) by (auto intro!: cutAt_cut)
  with ms(2) have "n = m" "f n = g m" by simp_all
  with Cons ms show ?case by auto
qed simp

lemma canonicalRequest_inj:
  assumes "cleanRequest rq names h" "cleanRequest rq' names' h'" "canonicalRequest rq names h = canonicalRequest rq' names' h'"
  shows "rqMethod rq = rqMethod rq' \<and> rqPath rq = rqPath rq' \<and> canonicalQuery (rqRawQuery rq) = canonicalQuery (rqRawQuery rq')
    \<and> names = names' \<and> (\<forall>n \<in> set names. headerValue rq n = headerValue rq' n) \<and> h = h'"
proof -
  have sp: "splitOn newline (canonicalRequest rq names h) = requestLines rq names h" if "cleanRequest rq names h" for rq names h
    unfolding canonicalRequest_lines
    by (rule splitOn_joinWith) (use requestLines_clean [OF that] in \<open>auto simp: requestLines_def\<close>)
  from sp [OF assms(1)] sp [OF assms(2)] assms(3) have eq: "requestLines rq names h = requestLines rq' names' h'" by simp
  then have m: "map (\<lambda>n. n @ CHR '':'' # headerValue rq n) names = map (\<lambda>n. n @ CHR '':'' # headerValue rq' n) names'" and "h = h'"
    and "rqMethod rq = rqMethod rq'" "uriEncodePath (rqPath rq) = uriEncodePath (rqPath rq')"
    "canonicalQuery (rqRawQuery rq) = canonicalQuery (rqRawQuery rq')"
    by (simp_all add: requestLines_def)
  moreover have "names = names' \<and> (\<forall>n \<in> set names. headerValue rq n = headerValue rq' n)"
    by (rule colon_lines [OF m]) (use assms(1,2) in \<open>auto simp: cleanRequest_def\<close>)
  ultimately show ?thesis by (auto dest: uriEncodePath_inj)
qed

section \<open>Listing page by page\<close>

text \<open>The pages of one listing: each asked for with the markers of the one before, only the last one not truncated.\<close>

fun pagesFrom ::
  "crypto \<Rightarrow> wire \<Rightarrow> 's sigv4Store \<Rightarrow> bytes \<Rightarrow> 's \<Rightarrow> bytes \<Rightarrow> bytes \<Rightarrow> (objectVersion list \<times> listVersionsResult) list \<Rightarrow> 's \<Rightarrow> bool" where
  "pagesFrom cy wi st pre w k v [] w' = False"
| "pagesFrom cy wi st pre w k v (p # ps) w' =
     (case listPage cy wi st w pre k v of
        (w1, Inl _) \<Rightarrow> False
      | (w1, Inr q) \<Rightarrow>
          q = p \<and> (if lrIsTruncated (snd p)
                   then lrNextKeyMarker (snd p) \<noteq> [] \<and> pagesFrom cy wi st pre w1 (lrNextKeyMarker (snd p)) (lrNextVersionIDMarker (snd p)) ps w'
                   else ps = [] \<and> w' = w1))"

lemma listLoop_pages:
  "listLoop cy wi st pre n w k v out = (w', Inr es) \<longleftrightarrow>
     (\<exists>ps. length ps \<le> n \<and> pagesFrom cy wi st pre w k v ps w' \<and> es = out @ concat (map fst ps))"
proof (induction n arbitrary: w k v out)
  case 0
  show ?case by auto
next
  case (Suc n)
  obtain w1 r where p: "listPage cy wi st w pre k v = (w1, r)" by fastforce
  show ?case
  proof (cases r)
    case (Inl e)
    have "\<not> pagesFrom cy wi st pre w k v ps w'" for ps by (cases ps) (simp_all add: p Inl)
    then show ?thesis by (simp add: p Inl)
  next
    case (Inr q)
    obtain vs d where q: "q = (vs, d)" by fastforce
    show ?thesis
    proof (cases "lrIsTruncated d")
      case False
      have "pagesFrom cy wi st pre w k v ps w' \<longleftrightarrow> ps = [(vs, d)] \<and> w' = w1" for ps
        by (cases ps) (auto simp: p Inr q False)
      then show ?thesis by (auto simp: p Inr q False)
    next
      case True
      have step: "pagesFrom cy wi st pre w k v ps w' \<longleftrightarrow>
          (\<exists>qs. ps = (vs, d) # qs \<and> lrNextKeyMarker d \<noteq> [] \<and> pagesFrom cy wi st pre w1 (lrNextKeyMarker d) (lrNextVersionIDMarker d) qs w')" for ps
        by (cases ps) (auto simp: p Inr q True)
      show ?thesis
      proof (cases "lrNextKeyMarker d = []")
        case nm: True
        then show ?thesis by (auto simp: p Inr q True step)
      next
        case False
        with True have "listLoop cy wi st pre (Suc n) w k v out = listLoop cy wi st pre n w1 (lrNextKeyMarker d) (lrNextVersionIDMarker d) (out @ vs)"
          by (simp add: p Inr q)
        with Suc.IH False show ?thesis by (force simp: step)
      qed
    qed
  qed
qed

section \<open>Properties\<close>

text \<open>The host a request goes to, and a value with its runs of space made one.\<close>

definition requestHost :: "wireRequest \<Rightarrow> bytes" where
  "requestHost rq = (if rqHost rq = [] then rqURLHost rq else rqHost rq)"

definition squeezed :: "bytes \<Rightarrow> bytes" where
  "squeezed v = joinSpace (stringFields v)"

lemma headerValue_host: "headerValue rq ''host'' = squeezed (requestHost rq)"
  by (simp add: headerValue_def squeezed_def requestHost_def)

lemma headerValue_member:
  assumes "distinct (signedHeaderNames rq)" "(n, vs) \<in> set (rqHeader rq)"
  shows "headerValue rq (map asciiLower n) = squeezed (joinWith CHR '','' vs)" "map asciiLower n \<noteq> ''host''"
proof -
  have d: "distinct (map (\<lambda>(n, _). map asciiLower n) (rqHeader rq) @ [''host''])"
    using assms(1) by (simp add: signedHeaderNames_def)
  then show host: "map asciiLower n \<noteq> ''host''" using assms(2) by force
  from d have "distinct (map (\<lambda>(n, _). map asciiLower n) (rqHeader rq))" by simp
  then have "find (\<lambda>(m, _). map asciiLower m = map asciiLower n) (rqHeader rq) = Some (n, vs)"
    using assms(2)
  proof (induction "rqHeader rq" arbitrary: rq)
    case (Cons x xs)
    obtain m ws where x: "x = (m, ws)" by fastforce
    show ?case
    proof (cases "x = (n, vs)")
      case True
      then show ?thesis using Cons.hyps(2) [symmetric] by simp
    next
      case False
      with Cons.prems(2) Cons.hyps(2) have i: "(n, vs) \<in> set xs" by (metis set_ConsD)
      with Cons.prems(1) Cons.hyps(2) [symmetric] x have "map asciiLower m \<noteq> map asciiLower n" by force
      moreover have "find (\<lambda>(m, _). map asciiLower m = map asciiLower n) xs = Some (n, vs)"
        using Cons.hyps(1) [of "rq\<lparr>rqHeader := xs\<rparr>"] Cons.prems(1) Cons.hyps(2) [symmetric] i by simp
      ultimately show ?thesis using Cons.hyps(2) [symmetric] x by simp
    qed
  qed simp
  then have "headerValues rq (map asciiLower n) = vs" by (simp add: headerValues_def)
  with host show "headerValue rq (map asciiLower n) = squeezed (joinWith CHR '','' vs)"
    by (simp add: headerValue_def squeezed_def)
qed

text \<open>
  C37: the signature covers the whole request. Two requests with the same canonical request, the text whose
  digest \<open>signV4\<close> signs, have the same method, the same path, the same query parameters with the same
  values up to their order, the same payload digest, the same host and the same header names, each with the same values up to
  runs of spaces. The conditions are those of a request that \<^verbatim>\<open>net/http\<close> sends: no line break in the method,
  none and no colon in a header name, and no header name twice.
\<close>

theorem signed_text_pins_the_request:
  assumes "cleanRequest rq (signedHeaderNames rq) h" "cleanRequest rq' (signedHeaderNames rq') h'"
    and "distinct (signedHeaderNames rq)" "distinct (signedHeaderNames rq')"
    and "canonicalRequest rq (signedHeaderNames rq) h = canonicalRequest rq' (signedHeaderNames rq') h'"
  shows "rqMethod rq = rqMethod rq' \<and> rqPath rq = rqPath rq' \<and> h = h'
    \<and> mset (queryParams (rqRawQuery rq)) = mset (queryParams (rqRawQuery rq'))
    \<and> squeezed (requestHost rq) = squeezed (requestHost rq')
    \<and> (\<forall>n vs. (n, vs) \<in> set (rqHeader rq) \<longrightarrow>
         (\<exists>n' vs'. (n', vs') \<in> set (rqHeader rq') \<and> map asciiLower n' = map asciiLower n
            \<and> squeezed (joinWith CHR '','' vs) = squeezed (joinWith CHR '','' vs')))"
proof -
  note p = canonicalRequest_inj [OF assms(1,2,5)]
  have names: "signedHeaderNames rq = signedHeaderNames rq'" using p by simp
  have "''host'' \<in> set (signedHeaderNames rq)" by (simp add: signedHeaderNames_def)
  with p have host: "squeezed (requestHost rq) = squeezed (requestHost rq')" by (metis headerValue_host)
  have hdr: "\<exists>n' vs'. (n', vs') \<in> set (rqHeader rq') \<and> map asciiLower n' = map asciiLower n
      \<and> squeezed (joinWith CHR '','' vs) = squeezed (joinWith CHR '','' vs')" if m: "(n, vs) \<in> set (rqHeader rq)" for n vs
  proof -
    note h = headerValue_member [OF assms(3) m]
    have own: "map asciiLower n \<in> set (signedHeaderNames rq)" using m by (force simp: signedHeaderNames_def)
    with names have "map asciiLower n \<in> set (signedHeaderNames rq')" by simp
    with h(2) obtain n' vs' where m': "(n', vs') \<in> set (rqHeader rq')" and n': "map asciiLower n' = map asciiLower n"
      by (auto simp: signedHeaderNames_def)
    moreover from own p have "headerValue rq (map asciiLower n) = headerValue rq' (map asciiLower n)" by blast
    ultimately show ?thesis using h(1) headerValue_member(1) [OF assms(4) m'] by metis
  qed
  show ?thesis using p host hdr canonicalQuery_pins_params by blast
qed


text \<open>
  What is signed is what is sent. The path of the URL the client asks for, decoded as the server and
  \<^verbatim>\<open>net/http\<close> decode it, is the key itself, so encoding it again for the signature gives the bytes that
  were sent, whatever bytes the key has; and the canonical query of the query string it builds is exactly
  its parameters, each encoded once, sorted by name and then by value.
\<close>

theorem signed_request_is_the_sent_one:
  assumes "\<forall>p \<in> set pairs. fst p \<noteq> []" "pairs \<noteq> []"
  shows "percentDecode (uriEncodePath key) = Some key
    \<and> canonicalQuery (queryString pairs) = joinWith CHR ''&'' (map (\<lambda>(n, v). n @ CHR ''='' # v) (sort (map encodedPair pairs)))
    \<and> map (\<lambda>(n, v). (pathUnescape n, pathUnescape v)) (map encodedPair pairs) = pairs"
  using canonicalQuery_queryString [OF assms] by (simp add: percentDecode_path encodedPair_def comp_def)

text \<open>
  C38: a listing is whole or it is refused. \<open>listVersions\<close> returns entries exactly when the store served a
  run of at most 1000 pages, each asked for with both markers of the page before it, of which only the
  last is not truncated; the result is then all their entries in order. A listing cut short never
  passes for a whole one, which the oldest-version rule depends on.
\<close>

theorem listing_is_whole_or_refused:
  "listVersions cy wi st w pre = (w', Inr es) \<longleftrightarrow>
     (\<exists>ps. length ps \<le> maxListPages \<and> pagesFrom cy wi st pre w [] [] ps w' \<and> es = concat (map fst ps))"
  unfolding listVersions_def listLoop_pages by simp

definition demoRequest :: "bytes \<Rightarrow> wireRequest" where
  "demoRequest q = \<lparr>rqMethod = ''GET'', rqPath = ''/b'', rqRawQuery = q, rqHost = ''h'', rqURLHost = ''h'',
     rqHeader = [(''X-A'', [''1''])], rqBody = []\<rparr>"


theorem signed_text_pins_the_request_witness:
  "mset (queryParams ''a=1&b'') = mset (queryParams ''b=&a=%31'')"
proof -
  have names: "signedHeaderNames (demoRequest q) = [''host'', ''x-a'']" for q
  proof -
    have "sort (map (\<lambda>(n, _). map asciiLower n) [(''X-A'', [''1''] :: bytes list)] @ [''host'']) = [''host'', ''x-a'']" by code_simp
    then show ?thesis by (simp only: signedHeaderNames_def demoRequest_def wireRequest.simps)
  qed
  have q: "canonicalQuery ''a=1&b'' = ''a=1&b=''" "canonicalQuery ''b=&a=%31'' = ''a=1&b=''" by code_simp+
  have clean: "cleanRequest (demoRequest q) (signedHeaderNames (demoRequest q)) ''e3''" for q
    unfolding names cleanRequest_def by (simp add: demoRequest_def)
  have d: "distinct (signedHeaderNames (demoRequest q))" for q unfolding names by simp
  have hv: "headerValue (demoRequest x) n = headerValue (demoRequest []) n" for x n
    by (simp add: headerValue_def demoRequest_def headerValues_def)
  have rest: "rqMethod (demoRequest x) = ''GET''" "rqPath (demoRequest x) = ''/b''" "rqRawQuery (demoRequest x) = x" for x
    by (simp_all add: demoRequest_def)
  have "canonicalRequest (demoRequest ''a=1&b'') (signedHeaderNames (demoRequest ''a=1&b'')) ''e3''
      = canonicalRequest (demoRequest ''b=&a=%31'') (signedHeaderNames (demoRequest ''b=&a=%31'')) ''e3''"
    unfolding names canonicalRequest_def by (simp only: hv [of "''a=1&b''"] hv [of "''b=&a=%31''"] rest q)
  from signed_text_pins_the_request [OF clean clean d d this] show ?thesis by (simp add: demoRequest_def)
qed


theorem signed_request_is_the_sent_one_witness:
  "canonicalQuery (queryString [(''versions'', ''''), (''prefix'', ''a b'')]) = ''prefix=a%20b&versions=''
   \<and> percentDecode (uriEncodePath ''p/a b'') = Some ''p/a b''"
proof -
  have "joinWith CHR ''&'' (map (\<lambda>(n, v). n @ CHR ''='' # v) (sort (map encodedPair [(''versions'', ''''), (''prefix'', ''a b'')])))
      = ''prefix=a%20b&versions=''" by code_simp
  with signed_request_is_the_sent_one [of "[(''versions'', ''''), (''prefix'', ''a b'')]" "''p/a b''"] show ?thesis by simp
qed

end
