(* ===== verification/Config_Store.thy ===== *)
theory Config_Store
  imports Config_Types Utf8 "HOL-Library.List_Lexorder" "HOL-Library.Char_ord"
begin

text \<open>
  Package \<^verbatim>\<open>internal/config\<close>: which files are a configuration and in which order (\<^verbatim>\<open>load.go\<close>, \<^verbatim>\<open>bundle.go\<close>), their
  hash (\<^verbatim>\<open>hash.go\<close>), and the store of installed snapshots with its pointer (\<^verbatim>\<open>installed.go\<close>).

  A configuration directory is its entries by slash-relative path. A file map of the Go code is an
  association list with distinct keys, whose order no definition depends on. What \<^verbatim>\<open>crypto/sha256\<close>, yaml.v3 and
  \<open>unicode.IsPrint\<close> compute are arguments; so are the failures of the operating system. An error keeps
  its cause and the values it names, not its fixed text.
\<close>

section \<open>The enumeration\<close>

datatype node = File bytes | Unreadable | SubDir

record configDir =
  cdNodes :: "(bytes \<times> node) list"
  cdUnlisted :: "bytes list"

datatype config_error =
    RootMissing
  | FileUnread bytes
  | ParseFailed bytes
  | InvalidPath
  | ErrNotBundleable bytes
  | StoreFailed
  | MalformedPointer
  | MalformedHash bytes
  | HashesAs bytes bytes
  | CorruptSnapshot bytes bytes
  | NoRoles bytes
  | NameTaken bytes
  | WriteFailed bytes
  | Installed bytes config_error

definition bundleGroups :: "bytes list" where
  "bundleGroups = [''agents'', ''workflows'', ''roles'']"

text \<open>\<open>filepath.Ext\<close> of a name without a slash: from its last dot on.\<close>

definition extOf :: "bytes \<Rightarrow> bytes" where
  "extOf n = (if CHR ''.'' \<in> set n then CHR ''.'' # rev (takeWhile (\<lambda>c. c \<noteq> CHR ''.'') (rev n)) else [])"

definition yamlName :: "bytes \<Rightarrow> bool" where
  "yamlName n \<longleftrightarrow> extOf n = ''.yaml'' \<or> extOf n = ''.yml''"

text \<open>The name of an entry directly below a group, if the path is one.\<close>

definition nameIn :: "bytes \<Rightarrow> bytes \<Rightarrow> bytes option" where
  "nameIn g rel =
     (if has_prefix rel (g @ ''/'')
      then let n = drop (length g + 1) rel in if n \<noteq> [] \<and> CHR ''/'' \<notin> set n then Some n else None
      else None)"

definition listSub :: "configDir \<Rightarrow> bytes \<Rightarrow> bytes list" where
  "listSub d g =
     (if g \<in> set (cdUnlisted d) then []
      else map (\<lambda>n. g @ ''/'' @ n)
             (sort (concat (map (\<lambda>(rel, nd). if nd = SubDir then []
                                             else case nameIn g rel of
                                                    None \<Rightarrow> []
                                                  | Some n \<Rightarrow> if yamlName n then [n] else []) (cdNodes d)))))"

definition gatewayFile :: bytes where
  "gatewayFile = ''gateway.yaml''"

definition configFiles :: "configDir option \<Rightarrow> config_error + bytes list" where
  "configFiles dir =
     (case dir of
        None \<Rightarrow> Inl RootMissing
      | Some d \<Rightarrow>
          Inr (listSub d ''agents'' @ listSub d ''workflows'' @ listSub d ''roles''
               @ (if gatewayFile \<in> fst ` set (cdNodes d) then [gatewayFile] else [])))"

definition readNode :: "configDir option \<Rightarrow> bytes \<Rightarrow> bytes option" where
  "readNode dir rel =
     (case dir of
        None \<Rightarrow> None
      | Some d \<Rightarrow> (case map_of (cdNodes d) rel of Some (File b) \<Rightarrow> Some b | _ \<Rightarrow> None))"

fun readAll :: "configDir option \<Rightarrow> bytes list \<Rightarrow> config_error + (bytes \<times> bytes) list" where
  "readAll dir [] = Inr []"
| "readAll dir (rel # rels) =
     (case readNode dir rel of
        None \<Rightarrow> Inl (FileUnread rel)
      | Some b \<Rightarrow> (case readAll dir rels of Inl e \<Rightarrow> Inl e | Inr fs \<Rightarrow> Inr ((rel, b) # fs)))"

section \<open>Loading\<close>

record decoders =
  yAgent :: "bytes \<Rightarrow> AgentDef option"
  yWorkflow :: "bytes \<Rightarrow> WorkflowDef option"
  yRole :: "bytes \<Rightarrow> RoleDef option"
  yGateway :: "bytes \<Rightarrow> GatewayConfig \<times> bool"
  yNoGateway :: GatewayConfig

definition groupOf :: "bytes \<Rightarrow> bytes" where
  "groupOf rel = (if CHR ''/'' \<in> set rel then rev (drop 1 (dropWhile (\<lambda>c. c \<noteq> CHR ''/'') (rev rel))) else ''.'')"

text \<open>One file: what it adds to the configuration, or that it does not parse.\<close>

definition loadFile :: "decoders \<Rightarrow> bytes \<Rightarrow> bytes \<Rightarrow> Config \<Rightarrow> Config \<times> bool" where
  "loadFile Y rel data cfg =
     (if groupOf rel = ''agents'' then
        (case yAgent Y data of None \<Rightarrow> (cfg, False)
         | Some a \<Rightarrow> (cfg\<lparr>cfgAgents := cfgAgents cfg @ [a\<lparr>adSourceFile := rel\<rparr>]\<rparr>, True))
      else if groupOf rel = ''workflows'' then
        (case yWorkflow Y data of None \<Rightarrow> (cfg, False)
         | Some w \<Rightarrow> (cfg\<lparr>cfgWorkflows := cfgWorkflows cfg @ [w\<lparr>wfSourceFile := rel\<rparr>]\<rparr>, True))
      else if groupOf rel = ''roles'' then
        (case yRole Y data of None \<Rightarrow> (cfg, False)
         | Some r \<Rightarrow> (cfg\<lparr>cfgRoles := cfgRoles cfg @ [r\<lparr>rdSourceFile := rel\<rparr>]\<rparr>, True))
      else (case yGateway Y data of (g, ok) \<Rightarrow> (cfg\<lparr>cfgGateway := g\<rparr>, ok)))"

fun loadEach :: "decoders \<Rightarrow> configDir option \<Rightarrow> (bytes \<Rightarrow> bool) \<Rightarrow> bytes list \<Rightarrow> Config \<Rightarrow> config_error list \<Rightarrow> Config \<times> config_error list" where
  "loadEach Y dir keep [] cfg errs = (cfg, errs)"
| "loadEach Y dir keep (rel # rels) cfg errs =
     (if \<not> keep rel then loadEach Y dir keep rels cfg errs
      else case readNode dir rel of
             None \<Rightarrow> loadEach Y dir keep rels cfg (errs @ [FileUnread rel])
           | Some data \<Rightarrow>
               (case loadFile Y rel data cfg of
                  (cfg', ok) \<Rightarrow> loadEach Y dir keep rels cfg' (if ok then errs else errs @ [ParseFailed rel])))"

definition emptyConfig :: "decoders \<Rightarrow> Config" where
  "emptyConfig Y = \<lparr>cfgAgents = [], cfgWorkflows = [], cfgRoles = [], cfgGateway = yNoGateway Y\<rparr>"

definition loadFiles :: "decoders \<Rightarrow> configDir option \<Rightarrow> (bytes \<Rightarrow> bool) \<Rightarrow> Config \<times> config_error list" where
  "loadFiles Y dir keep =
     (case configFiles dir of
        Inl e \<Rightarrow> (emptyConfig Y, [e])
      | Inr files \<Rightarrow> loadEach Y dir keep files (emptyConfig Y) [])"

definition LoadDir :: "decoders \<Rightarrow> configDir option \<Rightarrow> Config \<times> config_error list" where
  "LoadDir Y dir = loadFiles Y dir (\<lambda>_. True)"

section \<open>Bundles\<close>

definition maxBundleNameRunes :: nat where
  "maxBundleNameRunes = 200"

text \<open>The group of a path is what stands before its first slash.\<close>

definition cutSlash :: "bytes \<Rightarrow> (bytes \<times> bytes) option" where
  "cutSlash s = (if CHR ''/'' \<in> set s
     then Some (takeWhile (\<lambda>c. c \<noteq> CHR ''/'') s, drop 1 (dropWhile (\<lambda>c. c \<noteq> CHR ''/'') s)) else None)"

definition ValidBundlePath :: "(rune \<Rightarrow> bool) \<Rightarrow> bytes \<Rightarrow> bool" where
  "ValidBundlePath isPrint rel =
     (if rel = gatewayFile then True
      else case cutSlash rel of
             None \<Rightarrow> False
           | Some (g, name) \<Rightarrow>
               if g \<notin> set bundleGroups \<or> name = '''' \<or> name = ''.'' \<or> name = ''..'' \<or> CHR ''/'' \<in> set name
                  \<or> CHR 0x5C \<in> set name then False
               else if \<not> yamlName name then False
               else if length (runesOf name) > maxBundleNameRunes then False
               else list_all (\<lambda>r. r \<noteq> RuneError \<and> isPrint r) (runesOf name))"

definition inGroup :: "bytes \<Rightarrow> bytes \<Rightarrow> bool" where
  "inGroup g rel \<longleftrightarrow> rel \<noteq> gatewayFile \<and> (case cutSlash rel of Some (h, _) \<Rightarrow> h = g | None \<Rightarrow> rel = g)"

definition bundleOrder :: "bytes list \<Rightarrow> bytes list" where
  "bundleOrder rels =
     concat (map (\<lambda>g. sort (filter (inGroup g) rels)) bundleGroups)
     @ (if gatewayFile \<in> set rels then [gatewayFile] else [])"

fun bundleLoop :: "(rune \<Rightarrow> bool) \<Rightarrow> configDir option \<Rightarrow> bytes list \<Rightarrow> config_error + (bytes \<times> bytes) list" where
  "bundleLoop isPrint dir [] = Inr []"
| "bundleLoop isPrint dir (rel # rels) =
     (if \<not> ValidBundlePath isPrint rel then Inl (ErrNotBundleable rel)
      else case readNode dir rel of
             None \<Rightarrow> Inl (FileUnread rel)
           | Some b \<Rightarrow> (case bundleLoop isPrint dir rels of Inl e \<Rightarrow> Inl e | Inr fs \<Rightarrow> Inr ((rel, b) # fs)))"

definition ReadBundle :: "(rune \<Rightarrow> bool) \<Rightarrow> configDir option \<Rightarrow> config_error + (bytes \<times> bytes) list" where
  "ReadBundle isPrint dir = (case configFiles dir of Inl e \<Rightarrow> Inl e | Inr files \<Rightarrow> bundleLoop isPrint dir files)"

section \<open>Hashing\<close>

text \<open>The canon \<^verbatim>\<open>files/v1\<close>: the digest of the digests of every path and its bytes, in order.\<close>

definition canonHash :: "(bytes \<Rightarrow> bytes) \<Rightarrow> (bytes \<times> bytes) list \<Rightarrow> bytes" where
  "canonHash sha fs = ''sha256:'' @ hexBytes (sha (concat (map (\<lambda>(rel, data). sha rel @ sha data) fs)))"

definition HashDir :: "(bytes \<Rightarrow> bytes) \<Rightarrow> configDir option \<Rightarrow> config_error + bytes" where
  "HashDir sha dir =
     (case configFiles dir of
        Inl e \<Rightarrow> Inl e
      | Inr files \<Rightarrow> (case readAll dir files of Inl e \<Rightarrow> Inl e | Inr fs \<Rightarrow> Inr (canonHash sha fs)))"

definition HashFiles :: "(rune \<Rightarrow> bool) \<Rightarrow> (bytes \<Rightarrow> bytes) \<Rightarrow> (bytes \<times> bytes) list \<Rightarrow> config_error + bytes" where
  "HashFiles isPrint sha files =
     (if list_ex (\<lambda>(rel, _). \<not> ValidBundlePath isPrint rel) files then Inl InvalidPath
      else Inr (canonHash sha (map (\<lambda>rel. (rel, the (map_of files rel))) (bundleOrder (map fst files)))))"

section \<open>Writing a directory\<close>

text \<open>
  What a file system decides when files are written into a fresh directory: which names it takes for the
  same (a case-insensitive volume folds them), and which writes fail.
\<close>

record writeIO =
  wiFold :: "bytes \<Rightarrow> bytes"
  wiMkdirFails :: bool
  wiTempFails :: bool
  wiGroupFails :: "bytes \<Rightarrow> bool"
  wiFileFails :: "bytes \<Rightarrow> bool"

definition emptyDir :: configDir where
  "emptyDir = \<lparr>cdNodes = [], cdUnlisted = []\<rparr>"

definition taken :: "writeIO \<Rightarrow> bytes \<Rightarrow> configDir \<Rightarrow> bool" where
  "taken io rel d \<longleftrightarrow> list_ex (\<lambda>(r, _). wiFold io r = wiFold io rel) (cdNodes d)"

text \<open>\<open>O_CREATE|O_EXCL\<close>: a name that is taken refuses.\<close>

definition writeExcl :: "writeIO \<Rightarrow> bytes \<Rightarrow> bytes \<Rightarrow> configDir \<Rightarrow> config_error + configDir" where
  "writeExcl io rel data d =
     (if wiGroupFails io rel then Inl StoreFailed
      else if taken io rel d then Inl (NameTaken rel)
      else if wiFileFails io rel then Inl (WriteFailed rel)
      else Inr (d\<lparr>cdNodes := cdNodes d @ [(rel, File data)]\<rparr>))"

text \<open>\<open>os.WriteFile\<close>: a name that is taken keeps its spelling and gets the new bytes.\<close>

definition writeOver :: "writeIO \<Rightarrow> bytes \<Rightarrow> bytes \<Rightarrow> configDir \<Rightarrow> config_error + configDir" where
  "writeOver io rel data d =
     (if wiGroupFails io rel then Inl StoreFailed
      else if wiFileFails io rel then Inl StoreFailed
      else if taken io rel d
      then Inr (d\<lparr>cdNodes := map (\<lambda>(r, nd). if wiFold io r = wiFold io rel then (r, File data) else (r, nd)) (cdNodes d)\<rparr>)
      else Inr (d\<lparr>cdNodes := cdNodes d @ [(rel, File data)]\<rparr>))"

definition writeStaged :: "writeIO \<Rightarrow> bytes \<Rightarrow> bytes \<Rightarrow> configDir \<Rightarrow> config_error + configDir" where
  "writeStaged io rel data d = writeExcl io rel data d"

definition writeBundled :: "writeIO \<Rightarrow> bytes \<Rightarrow> bytes \<Rightarrow> configDir \<Rightarrow> config_error + configDir" where
  "writeBundled io rel data d =
     (if rel \<noteq> gatewayFile \<and> wiGroupFails io rel then Inl (WriteFailed rel)
      else writeExcl (io\<lparr>wiGroupFails := (\<lambda>_. False)\<rparr>) rel data d)"

fun writeAll :: "(bytes \<Rightarrow> bytes \<Rightarrow> configDir \<Rightarrow> config_error + configDir) \<Rightarrow> (bytes \<times> bytes) list \<Rightarrow> configDir \<Rightarrow> config_error + configDir" where
  "writeAll wr [] d = Inr d"
| "writeAll wr ((rel, data) # fs) d = (case wr rel data d of Inl e \<Rightarrow> Inl e | Inr d' \<Rightarrow> writeAll wr fs d')"

definition inOrder :: "(bytes \<times> bytes) list \<Rightarrow> (bytes \<times> bytes) list" where
  "inOrder files = map (\<lambda>rel. (rel, the (map_of files rel))) (bundleOrder (map fst files))"

text \<open>The directory must not exist; a failed write removes it whole.\<close>

definition WriteBundle :: "(rune \<Rightarrow> bool) \<Rightarrow> writeIO \<Rightarrow> configDir option \<Rightarrow> (bytes \<times> bytes) list \<Rightarrow> config_error + configDir" where
  "WriteBundle isPrint io dir files =
     (if list_ex (\<lambda>(rel, _). \<not> ValidBundlePath isPrint rel) files then Inl InvalidPath
      else if dir \<noteq> None \<or> wiMkdirFails io then Inl StoreFailed
      else writeAll (writeBundled io) (inOrder files) emptyDir)"

section \<open>The installed snapshot\<close>

datatype pointer = NoPointer | PointerFile bytes | PointerUnreadable

record configStore =
  csPointer :: pointer
  csDirs :: "(bytes \<times> configDir) list"

definition hashPrefix :: bytes where
  "hashPrefix = ''sha256:''"

definition installedHashOK :: "bytes \<Rightarrow> bool" where
  "installedHashOK h \<longleftrightarrow> has_prefix h hashPrefix \<and> lower_hex_string 64 (drop 7 h)"

definition trimSpace :: "bytes \<Rightarrow> bytes" where
  "trimSpace s =
     (let sp = \<lambda>(r, b). isSpace r
      in concat (map snd (rev (dropWhile sp (rev (dropWhile sp (chunks s)))))))"

definition InstalledHash :: "configStore \<Rightarrow> config_error + bytes option" where
  "InstalledHash st =
     (case csPointer st of
        NoPointer \<Rightarrow> Inr None
      | PointerUnreadable \<Rightarrow> Inl StoreFailed
      | PointerFile content \<Rightarrow>
          let h = trimSpace content in if installedHashOK h then Inr (Some h) else Inl MalformedPointer)"

definition snapshotName :: "bytes \<Rightarrow> bytes" where
  "snapshotName h = (if has_prefix h hashPrefix then drop 7 h else h)"

definition SnapshotDir :: "configStore \<Rightarrow> bytes \<Rightarrow> configDir option" where
  "SnapshotDir st h = map_of (csDirs st) (snapshotName h)"

definition VerifyInstalled :: "(bytes \<Rightarrow> bytes) \<Rightarrow> configStore \<Rightarrow> bytes \<Rightarrow> config_error option" where
  "VerifyInstalled sha st h =
     (case HashDir sha (SnapshotDir st h) of
        Inl e \<Rightarrow> Some (Installed h e)
      | Inr got \<Rightarrow> if got \<noteq> h then Some (HashesAs h got) else None)"

definition InstalledRoles ::
  "decoders \<Rightarrow> (bytes \<Rightarrow> bytes) \<Rightarrow> configStore \<Rightarrow> RoleDef list \<times> bytes \<times> bool \<times> config_error option" where
  "InstalledRoles Y sha st =
     (case InstalledHash st of
        Inl e \<Rightarrow> ([], '''', False, Some e)
      | Inr None \<Rightarrow> ([], '''', False, None)
      | Inr (Some h) \<Rightarrow>
          (case VerifyInstalled sha st h of
             Some e \<Rightarrow> ([], h, True, Some e)
           | None \<Rightarrow>
               (case loadFiles Y (SnapshotDir st h) (\<lambda>rel. groupOf rel = ''roles'') of
                  (cfg, e # _) \<Rightarrow> ([], h, True, Some (Installed h e))
                | (cfg, []) \<Rightarrow>
                    if cfgRoles cfg = [] then ([], h, True, Some (NoRoles h)) else (cfgRoles cfg, h, True, None))))"

definition LoadInstalled ::
  "decoders \<Rightarrow> (bytes \<Rightarrow> bytes) \<Rightarrow> configStore \<Rightarrow> Config \<times> bytes \<times> bool \<times> config_error list" where
  "LoadInstalled Y sha st =
     (case InstalledHash st of
        Inl e \<Rightarrow> (emptyConfig Y, '''', False, [e])
      | Inr None \<Rightarrow> (emptyConfig Y, '''', False, [])
      | Inr (Some h) \<Rightarrow>
          (case VerifyInstalled sha st h of
             Some e \<Rightarrow> (emptyConfig Y, h, True, [e])
           | None \<Rightarrow>
               (case loadFiles Y (SnapshotDir st h) (\<lambda>_. True) of
                  (cfg, errs) \<Rightarrow>
                    (cfg, h, True, if errs = [] \<and> cfgRoles cfg = [] then [NoRoles h] else map (Installed h) errs))))"

definition SnapshotBundle ::
  "(rune \<Rightarrow> bool) \<Rightarrow> (bytes \<Rightarrow> bytes) \<Rightarrow> configStore \<Rightarrow> bytes \<Rightarrow> config_error + (bytes \<times> bytes) list" where
  "SnapshotBundle isPrint sha st h =
     (case ReadBundle isPrint (SnapshotDir st h) of
        Inl e \<Rightarrow> Inl (Installed h e)
      | Inr files \<Rightarrow>
          (case HashFiles isPrint sha files of
             Inl e \<Rightarrow> Inl (Installed h e)
           | Inr got \<Rightarrow> if got \<noteq> h then Inl (HashesAs h got) else Inr files))"

definition InstalledBundle ::
  "(rune \<Rightarrow> bool) \<Rightarrow> (bytes \<Rightarrow> bytes) \<Rightarrow> configStore \<Rightarrow> (bytes \<times> bytes) list \<times> bytes \<times> bool \<times> config_error option" where
  "InstalledBundle isPrint sha st =
     (case InstalledHash st of
        Inl e \<Rightarrow> ([], '''', False, Some e)
      | Inr None \<Rightarrow> ([], '''', False, None)
      | Inr (Some h) \<Rightarrow>
          (case SnapshotBundle isPrint sha st h of
             Inl e \<Rightarrow> ([], h, True, Some e)
           | Inr files \<Rightarrow> (files, h, True, None)))"

section \<open>Staging and committing\<close>

definition putDir :: "bytes \<Rightarrow> configDir \<Rightarrow> configStore \<Rightarrow> configStore" where
  "putDir name d st = st\<lparr>csDirs := (name, d) # csDirs st\<rparr>"

definition dropDir :: "bytes \<Rightarrow> configStore \<Rightarrow> configStore" where
  "dropDir name st = st\<lparr>csDirs := filter (\<lambda>(n, _). n \<noteq> name) (csDirs st)\<rparr>"

text \<open>\<open>temp\<close> is the fresh name \<open>os.MkdirTemp\<close> gives; a failure after it removes the directory again.\<close>

fun copyAll :: "writeIO \<Rightarrow> configDir option \<Rightarrow> bytes list \<Rightarrow> configDir \<Rightarrow> config_error + configDir" where
  "copyAll io src [] d = Inr d"
| "copyAll io src (rel # rels) d =
     (case readNode src rel of
        None \<Rightarrow> Inl (FileUnread rel)
      | Some data \<Rightarrow> (case writeOver io rel data d of Inl e \<Rightarrow> Inl e | Inr d' \<Rightarrow> copyAll io src rels d'))"

definition StageSnapshot :: "writeIO \<Rightarrow> bytes \<Rightarrow> configStore \<Rightarrow> configDir option \<Rightarrow> configStore \<times> (config_error + bytes)" where
  "StageSnapshot io temp st src =
     (case configFiles src of
        Inl e \<Rightarrow> (st, Inl e)
      | Inr files \<Rightarrow>
          if wiMkdirFails io \<or> wiTempFails io then (st, Inl StoreFailed)
          else (case copyAll io src files emptyDir of
                  Inl e \<Rightarrow> (st, Inl e)
                | Inr d \<Rightarrow> (putDir temp d st, Inr temp)))"

definition StageFiles ::
  "(rune \<Rightarrow> bool) \<Rightarrow> writeIO \<Rightarrow> bytes \<Rightarrow> configStore \<Rightarrow> (bytes \<times> bytes) list \<Rightarrow> configStore \<times> (config_error + bytes)" where
  "StageFiles isPrint io temp st files =
     (if list_ex (\<lambda>(rel, _). \<not> ValidBundlePath isPrint rel) files then (st, Inl InvalidPath)
      else if wiMkdirFails io \<or> wiTempFails io then (st, Inl StoreFailed)
      else case writeAll (writeStaged io) (inOrder files) emptyDir of
             Inl e \<Rightarrow> (st, Inl e)
           | Inr d \<Rightarrow> (putDir temp d st, Inr temp))"

text \<open>What the host answers a commit. A \<open>RemoveAll\<close> that stops leaves some of the staged files behind.\<close>

datatype removal = Removed | RemovalStopped "bytes \<Rightarrow> bool"

record commitIO =
  ciRenameFails :: bool
  ciRemoval :: removal
  ciTempFails :: bool
  ciWriteFails :: bool
  ciSyncFails :: bool
  ciCloseFails :: bool
  ciFlipFails :: bool

text \<open>
  The pointer: a temporary file, written, synced, closed and renamed over the old one. Whatever fails, the pointer is
  the old one and the temporary file is removed again; one that cannot be removed is inert and left out here.
\<close>

definition flipPointer :: "commitIO \<Rightarrow> bytes \<Rightarrow> configStore \<Rightarrow> configStore \<times> config_error option" where
  "flipPointer ci h st =
     (if ciTempFails ci then (st, Some StoreFailed)
      else let werr = ciWriteFails ci;
               werr = (if werr then werr else ciSyncFails ci);
               werr = (werr \<or> ciCloseFails ci);
               st' = (if werr \<or> ciFlipFails ci then st else st\<lparr>csPointer := PointerFile (h @ [newline])\<rparr>)
           in (st', if werr \<or> ciFlipFails ci then Some StoreFailed else None))"

text \<open>A rename onto a directory that holds something finds it there; onto a free name, or an empty directory, it succeeds.\<close>

definition CommitSnapshot :: "(bytes \<Rightarrow> bytes) \<Rightarrow> commitIO \<Rightarrow> configStore \<Rightarrow> bytes \<Rightarrow> bytes \<Rightarrow> configStore \<times> config_error option" where
  "CommitSnapshot sha ci st temp h =
     (if \<not> installedHashOK h then (st, Some (MalformedHash h))
      else case map_of (csDirs st) temp of
             None \<Rightarrow> (st, Some StoreFailed)
           | Some staged \<Rightarrow>
               if ciRenameFails ci then (st, Some StoreFailed)
               else (case SnapshotDir st h of
                       Some d \<Rightarrow>
                         if cdNodes d = [] then flipPointer ci h (putDir (snapshotName h) staged (dropDir temp st))
                         else (case HashDir sha (Some d) of
                                 Inl e \<Rightarrow> (st, Some (Installed h e))
                               | Inr existing \<Rightarrow>
                                   if existing \<noteq> h then (st, Some (CorruptSnapshot h existing))
                                   else (case ciRemoval ci of
                                           RemovalStopped left \<Rightarrow>
                                             (putDir temp (staged\<lparr>cdNodes := filter (left \<circ> fst) (cdNodes staged)\<rparr>) (dropDir temp st),
                                              Some StoreFailed)
                                         | Removed \<Rightarrow> flipPointer ci h (dropDir temp st)))
                     | None \<Rightarrow> flipPointer ci h (putDir (snapshotName h) staged (dropDir temp st))))"

section \<open>The order of the enumeration\<close>

lemma append_le_append: "p @ x \<le> p @ (y :: bytes) \<longleftrightarrow> x \<le> y"
  by (induction p) simp_all

lemma insort_append: "insort (p @ x) (map ((@) p) xs) = map ((@) p) (insort (x :: bytes) xs)"
  by (induction xs) (simp_all add: append_le_append)

lemma sort_append: "sort (map ((@) p) xs) = map ((@) p) (sort (xs :: bytes list))"
  by (induction xs) (simp_all add: insort_append)

definition groupNames :: "(bytes \<times> node) list \<Rightarrow> bytes \<Rightarrow> bytes list" where
  "groupNames nodes g =
     concat (map (\<lambda>(rel, nd). if nd = SubDir then [] else case nameIn g rel of None \<Rightarrow> [] | Some n \<Rightarrow> if yamlName n then [n] else []) nodes)"

lemma listSub_sort: "listSub d g = (if g \<in> set (cdUnlisted d) then [] else sort (map ((@) (g @ ''/'')) (groupNames (cdNodes d) g)))"
proof -
  have "map (\<lambda>n. g @ ''/'' @ n) xs = map ((@) (g @ ''/'')) xs" for xs by simp
  then show ?thesis unfolding listSub_def groupNames_def sort_append by presburger
qed

lemma cutSlash_group: "CHR ''/'' \<notin> set g \<Longrightarrow> cutSlash (g @ ''/'' @ n) = Some (g, n)"
proof -
  assume g: "CHR ''/'' \<notin> set g"
  then have "takeWhile (\<lambda>c. c \<noteq> CHR ''/'') (g @ CHR ''/'' # n) = g" "dropWhile (\<lambda>c. c \<noteq> CHR ''/'') (g @ CHR ''/'' # n) = CHR ''/'' # n"
    by (induction g) auto
  then show ?thesis by (simp add: cutSlash_def)
qed

lemma cutSlash_back: "cutSlash rel = Some (g, n) \<Longrightarrow> rel = g @ ''/'' @ n"
proof -
  assume c: "cutSlash rel = Some (g, n)"
  then have m: "CHR ''/'' \<in> set rel" by (simp add: cutSlash_def split: if_splits)
  then obtain pre post where r: "rel = pre @ CHR ''/'' # post" "CHR ''/'' \<notin> set pre" using split_list_first by metis
  from cutSlash_group [OF r(2), of post] c r(1) show ?thesis by simp
qed

lemma nameIn_Some: "nameIn g rel = Some n \<longleftrightarrow> rel = g @ ''/'' @ n \<and> n \<noteq> [] \<and> CHR ''/'' \<notin> set n"
  by (auto simp: nameIn_def has_prefix_iff Let_def)

lemma groupNames_Cons:
  "groupNames ((rel, File b) # nodes) g = (case nameIn g rel of None \<Rightarrow> [] | Some n \<Rightarrow> if yamlName n then [n] else []) @ groupNames nodes g"
  by (simp add: groupNames_def)

lemma groupNames_member:
  "n \<in> set (groupNames nodes g) \<longleftrightarrow> n \<noteq> [] \<and> CHR ''/'' \<notin> set n \<and> yamlName n \<and> (\<exists>nd. (g @ ''/'' @ n, nd) \<in> set nodes \<and> nd \<noteq> SubDir)"
proof -
  have "n \<in> set (case nameIn g rel of None \<Rightarrow> [] | Some m \<Rightarrow> if yamlName m then [m] else []) \<longleftrightarrow> nameIn g rel = Some n \<and> yamlName n" for rel
    by (auto split: option.splits)
  then show ?thesis unfolding groupNames_def nameIn_Some by (auto split: if_splits)
qed

lemma listSub_member:
  "rel \<in> set (listSub d g) \<Longrightarrow> \<exists>n. rel = g @ ''/'' @ n \<and> n \<noteq> [] \<and> CHR ''/'' \<notin> set n \<and> yamlName n"
  by (auto simp: listSub_sort groupNames_member split: if_splits)

lemma bundleGroups_clean: "g \<in> set bundleGroups \<Longrightarrow> CHR ''/'' \<notin> set g"
  by (auto simp: bundleGroups_def)

lemma bundleOrder_groups:
  "bundleOrder rels = sort (filter (inGroup ''agents'') rels) @ sort (filter (inGroup ''workflows'') rels)
     @ sort (filter (inGroup ''roles'') rels) @ (if gatewayFile \<in> set rels then [gatewayFile] else [])"
  by (simp add: bundleOrder_def bundleGroups_def)

lemma gateway_no_slash: "CHR ''/'' \<notin> set gatewayFile"
  by (simp add: gatewayFile_def)

lemma inGroup_listSub:
  assumes "rel \<in> set (listSub d h)" "h \<in> set bundleGroups"
  shows "inGroup g rel \<longleftrightarrow> g = h" "rel \<noteq> gatewayFile"
proof -
  obtain n where n: "rel = h @ ''/'' @ n" using listSub_member [OF assms(1)] by blast
  have "CHR ''/'' \<in> set rel" by (simp add: n)
  with gateway_no_slash show "rel \<noteq> gatewayFile" by auto
  then show "inGroup g rel \<longleftrightarrow> g = h"
    using cutSlash_group [OF bundleGroups_clean [OF assms(2)], of n] by (auto simp: inGroup_def n)
qed

lemma filter_listSub:
  "h \<in> set bundleGroups \<Longrightarrow> filter (inGroup g) (listSub d h) = (if g = h then listSub d h else [])"
  using inGroup_listSub(1) by (auto simp: filter_id_conv filter_empty_conv)

lemma sort_listSub: "sort (listSub d g) = listSub d g"
  by (simp add: listSub_sort sorted_sort_id)

lemma bundleOrder_configFiles:
  assumes "configFiles (Some d) = Inr files"
  shows "bundleOrder files = files"
proof -
  let ?gw = "if gatewayFile \<in> fst ` set (cdNodes d) then [gatewayFile] else []"
  have f: "files = listSub d ''agents'' @ listSub d ''workflows'' @ listSub d ''roles'' @ ?gw"
    using assms by (simp add: configFiles_def)
  have gw: "filter (inGroup g) ?gw = []" for g by (simp add: inGroup_def)
  have m: "gatewayFile \<in> set files \<longleftrightarrow> ?gw \<noteq> []"
    unfolding f using inGroup_listSub(2) [of gatewayFile d] by (auto simp: bundleGroups_def)
  have g: "filter (inGroup g) files = listSub d g" if "g \<in> set bundleGroups" for g
    unfolding f filter_append gw using that by (auto simp: filter_listSub bundleGroups_def)
  show ?thesis
    unfolding bundleOrder_groups m using g by (simp add: bundleGroups_def sort_listSub f)
qed

section \<open>Reading, bundling, hashing\<close>

lemma readAll_pairs: "readAll dir rels = Inr fs \<Longrightarrow> map fst fs = rels \<and> (\<forall>(rel, b) \<in> set fs. readNode dir rel = Some b)"
  by (induction rels arbitrary: fs) (auto split: option.splits sum.splits)

lemma readAll_iff:
  "readAll dir rels = Inr fs \<longleftrightarrow> map fst fs = rels \<and> (\<forall>(rel, b) \<in> set fs. readNode dir rel = Some b)"
proof
  show "readAll dir rels = Inr fs" if "map fst fs = rels \<and> (\<forall>(rel, b) \<in> set fs. readNode dir rel = Some b)"
    using that by (induction fs arbitrary: rels) auto
qed (rule readAll_pairs)

lemma bundleLoop_readAll:
  "bundleLoop isPrint dir rels = Inr fs \<longleftrightarrow> list_all (ValidBundlePath isPrint) rels \<and> readAll dir rels = Inr fs"
proof (induction rels arbitrary: fs)
  case (Cons rel rels)
  show ?case
  proof (cases "bundleLoop isPrint dir rels")
    case (Inl e)
    with Cons.IH show ?thesis by (cases "readAll dir rels") (auto split: option.splits)
  next
    case (Inr gs)
    with Cons.IH [of gs] show ?thesis by (auto split: option.splits)
  qed
qed simp

lemma ReadBundle_iff:
  "ReadBundle isPrint dir = Inr fs \<longleftrightarrow>
     (\<exists>rels. configFiles dir = Inr rels \<and> list_all (ValidBundlePath isPrint) rels \<and> readAll dir rels = Inr fs)"
  by (auto simp: ReadBundle_def bundleLoop_readAll split: sum.splits)

lemma map_of_pairs: "\<forall>(rel, b) \<in> set fs. f rel = Some b \<Longrightarrow> rel \<in> set (map fst fs) \<Longrightarrow> map_of fs rel = f rel"
  by (induction fs) auto

lemma inOrder_enumerated:
  assumes "configFiles dir = Inr (map fst fs)" "readAll dir (map fst fs) = Inr fs"
  shows "inOrder fs = fs"
proof -
  obtain d where d: "dir = Some d" using assms(1) by (cases dir) (auto simp: configFiles_def)
  have p: "\<forall>(rel, b) \<in> set fs. readNode dir rel = Some b" using readAll_pairs [OF assms(2)] by blast
  have "the (map_of fs (fst f)) = snd f" if "f \<in> set fs" for f
    using map_of_pairs [OF p, of "fst f"] p that by force
  then have "map (\<lambda>rel. (rel, the (map_of fs rel))) (map fst fs) = fs" by (auto intro!: map_idI simp: comp_def)
  with bundleOrder_configFiles [of d "map fst fs"] assms(1) d show ?thesis by (simp add: inOrder_def)
qed

lemma HashFiles_ReadBundle:
  assumes "ReadBundle isPrint dir = Inr fs"
  shows "HashFiles isPrint sha fs = HashDir sha dir \<and> HashDir sha dir = Inr (canonHash sha fs)"
proof -
  obtain rels where r: "configFiles dir = Inr rels" "list_all (ValidBundlePath isPrint) rels" "readAll dir rels = Inr fs"
    using assms by (auto simp: ReadBundle_iff)
  have rels: "rels = map fst fs" using readAll_pairs [OF r(3)] by simp
  have "inOrder fs = fs" by (rule inOrder_enumerated) (use r rels in auto)
  then have "map (\<lambda>rel. (rel, the (map_of fs rel))) (bundleOrder (map fst fs)) = fs" by (simp add: inOrder_def)
  moreover have "\<not> list_ex (\<lambda>(rel, _). \<not> ValidBundlePath isPrint rel) fs"
    using r(2) by (auto simp: rels list_ex_iff list_all_iff)
  ultimately show ?thesis using r by (simp add: HashFiles_def HashDir_def)
qed

section \<open>Writing and reading back\<close>

lemma writeExcl_nodes:
  "writeExcl io rel data d = Inr d' \<Longrightarrow> cdNodes d' = cdNodes d @ [(rel, File data)] \<and> cdUnlisted d' = cdUnlisted d"
  by (auto simp: writeExcl_def split: if_splits)

lemma writeAll_nodes:
  "writeAll (writeExcl io) fs d = Inr d' \<Longrightarrow>
     cdNodes d' = cdNodes d @ map (\<lambda>(rel, b). (rel, File b)) fs \<and> cdUnlisted d' = cdUnlisted d"
proof (induction fs arbitrary: d)
  case (Cons f fs)
  obtain rel b where f: "f = (rel, b)" by fastforce
  from Cons.prems obtain d1 where "writeExcl io rel b d = Inr d1" "writeAll (writeExcl io) fs d1 = Inr d'"
    by (auto simp: f split: sum.splits)
  with Cons.IH [of d1] writeExcl_nodes [of io rel b d d1] show ?case by (simp add: f)
qed simp

lemma valid_path:
  "ValidBundlePath isPrint rel \<Longrightarrow> rel = gatewayFile \<or> (\<exists>g n. g \<in> set bundleGroups \<and> rel = g @ ''/'' @ n \<and> n \<noteq> [] \<and> CHR ''/'' \<notin> set n \<and> yamlName n)"
proof -
  assume v: "ValidBundlePath isPrint rel"
  have "\<exists>g n. g \<in> set bundleGroups \<and> rel = g @ ''/'' @ n \<and> n \<noteq> [] \<and> CHR ''/'' \<notin> set n \<and> yamlName n" if "rel \<noteq> gatewayFile"
  proof -
    from v that obtain g n where c: "cutSlash rel = Some (g, n)" and o: "g \<in> set bundleGroups" "n \<noteq> []" "CHR ''/'' \<notin> set n" "yamlName n"
      by (auto simp: ValidBundlePath_def split: option.splits if_splits)
    have "rel = g @ ''/'' @ n" by (rule cutSlash_back [OF c])
    with o show ?thesis by blast
  qed
  then show ?thesis by blast
qed

lemma inGroup_gateway: "\<not> inGroup g gatewayFile"
  by (simp add: inGroup_def)

lemma nameIn_gateway: "nameIn g gatewayFile = None"
proof (rule ccontr)
  assume "nameIn g gatewayFile \<noteq> None"
  then obtain n where "gatewayFile = g @ ''/'' @ n" using nameIn_Some by blast
  then have "CHR ''/'' \<in> set gatewayFile" by (metis in_set_conv_decomp append_Cons append_Nil)
  with gateway_no_slash show False by simp
qed

text \<open>The files of a written bundle, by group, are what the enumeration lists.\<close>

lemma groupNames_files:
  assumes "g \<in> set bundleGroups" "\<forall>(rel, b) \<in> set fs. ValidBundlePath isPrint rel"
  shows "map ((@) (g @ ''/'')) (groupNames (map (\<lambda>(rel, b). (rel, File b)) fs) g) = filter (inGroup g) (map fst fs)"
  using assms(2)
proof (induction fs)
  case (Cons f fs)
  obtain rel b where f: "f = (rel, b)" by fastforce
  from Cons.prems f have v: "ValidBundlePath isPrint rel" by auto
  have IH: "map ((@) (g @ ''/'')) (groupNames (map (\<lambda>(rel, b). (rel, File b)) fs) g) = filter (inGroup g) (map fst fs)"
    by (rule Cons.IH) (use Cons.prems in simp)
  show ?case
  proof (cases "rel = gatewayFile")
    case True
    then show ?thesis unfolding f list.map prod.case groupNames_Cons map_append IH
      using nameIn_gateway [of g] by (simp add: inGroup_gateway)
  next
    case False
    with valid_path [OF v] obtain h n where n: "h \<in> set bundleGroups" "rel = h @ ''/'' @ n" "n \<noteq> []" "CHR ''/'' \<notin> set n" "yamlName n" by blast
    have c: "cutSlash rel = Some (h, n)" unfolding n(2) by (rule cutSlash_group [OF bundleGroups_clean [OF n(1)]])
    have grp: "inGroup g rel \<longleftrightarrow> g = h" using False c by (auto simp: inGroup_def)
    show ?thesis
    proof (cases "g = h")
      case True
      then have "nameIn g rel = Some n" using nameIn_Some [of g rel n] n(2-4) by simp
      moreover have "g @ ''/'' @ n = rel" using True n(2) by simp
      ultimately show ?thesis unfolding f list.map prod.case groupNames_Cons map_append IH using grp True n(5) by simp
    next
      case ne: False
      have "nameIn g rel = None"
      proof (rule ccontr)
        assume "nameIn g rel \<noteq> None"
        then obtain m where "rel = g @ ''/'' @ m" using nameIn_Some by blast
        with cutSlash_group [OF bundleGroups_clean [OF assms(1)], of m] c ne show False by simp
      qed
      with grp ne show ?thesis unfolding f list.map prod.case groupNames_Cons map_append IH by simp
    qed
  qed
qed (simp add: groupNames_def)

lemma set_bundleOrder:
  assumes "\<forall>rel \<in> set rels. ValidBundlePath isPrint rel"
  shows "set (bundleOrder rels) = set rels"
proof -
  have "rel = gatewayFile \<or> (\<exists>g \<in> set bundleGroups. inGroup g rel)" if "rel \<in> set rels" for rel
  proof (cases "rel = gatewayFile")
    case False
    with assms that valid_path [of isPrint rel] obtain g n where "g \<in> set bundleGroups" "rel = g @ ''/'' @ n" by blast
    with False cutSlash_group [OF bundleGroups_clean, of g n] show ?thesis by (auto simp: inGroup_def)
  qed simp
  then show ?thesis by (auto simp: bundleOrder_groups bundleGroups_def)
qed

lemma filter_inGroup_sort: "filter (inGroup g) (sort (filter (inGroup h) rels)) = (if g = h then sort (filter (inGroup h) rels) else [])"
proof -
  have "inGroup g rel \<Longrightarrow> inGroup h rel \<Longrightarrow> g = h" for rel by (auto simp: inGroup_def split: option.splits)
  then show ?thesis by (auto simp: filter_id_conv filter_empty_conv)
qed

lemma filter_bundleOrder: "g \<in> set bundleGroups \<Longrightarrow> filter (inGroup g) (bundleOrder rels) = sort (filter (inGroup g) rels)"
  by (auto simp: bundleOrder_groups filter_inGroup_sort bundleGroups_def inGroup_def)

lemma configFiles_written:
  assumes "\<forall>(rel, b) \<in> set files. ValidBundlePath isPrint rel"
  shows "configFiles (Some \<lparr>cdNodes = map (\<lambda>(rel, b). (rel, File b)) (inOrder files), cdUnlisted = []\<rparr>) = Inr (bundleOrder (map fst files))"
proof -
  let ?d = "\<lparr>cdNodes = map (\<lambda>(rel, b). (rel, File b)) (inOrder files), cdUnlisted = []\<rparr>"
  have k: "map fst (inOrder files) = bundleOrder (map fst files)" by (simp add: inOrder_def comp_def)
  have s: "set (bundleOrder (map fst files)) = set (map fst files)" by (rule set_bundleOrder) (use assms in auto)
  have v: "\<forall>(rel, b) \<in> set (inOrder files). ValidBundlePath isPrint rel"
    using assms s by (fastforce simp: inOrder_def)
  have l: "listSub ?d g = sort (filter (inGroup g) (map fst files))" if "g \<in> set bundleGroups" for g
    using groupNames_files [OF that v] filter_bundleOrder [OF that] by (simp add: listSub_sort k sorted_sort_id)
  have "fst ` set (cdNodes ?d) = set (bundleOrder (map fst files))"
    using arg_cong [OF k, of set] by (simp add: image_image case_prod_beta)
  with s have "gatewayFile \<in> fst ` set (cdNodes ?d) \<longleftrightarrow> gatewayFile \<in> set (map fst files)" by simp
  then show ?thesis using l by (simp add: configFiles_def bundleOrder_groups bundleGroups_def)
qed

lemma distinct_inOrder: "distinct (map fst files) \<Longrightarrow> distinct (map fst (inOrder files))"
proof -
  assume d: "distinct (map fst files)"
  have ne: "inGroup g rel \<Longrightarrow> inGroup h rel \<Longrightarrow> g = h" for g h rel by (auto simp: inGroup_def split: option.splits)
  have "distinct (bundleOrder (map fst files))"
    unfolding bundleOrder_groups using d ne [of "''agents''" _ "''workflows''"] ne [of "''agents''" _ "''roles''"] ne [of "''workflows''" _ "''roles''"]
    by (auto simp: inGroup_def)
  then show ?thesis by (simp add: inOrder_def comp_def)
qed

lemma written_bundle:
  assumes "\<forall>(rel, b) \<in> set files. ValidBundlePath isPrint rel" "distinct (map fst files)"
    and "writeAll (writeExcl io) (inOrder files) emptyDir = Inr d"
  shows "ReadBundle isPrint (Some d) = Inr (inOrder files)"
proof -
  have d: "d = \<lparr>cdNodes = map (\<lambda>(rel, b). (rel, File b)) (inOrder files), cdUnlisted = []\<rparr>"
    using writeAll_nodes [OF assms(3)] by (simp add: emptyDir_def)
  have k: "map fst (inOrder files) = bundleOrder (map fst files)" by (simp add: inOrder_def comp_def)
  have "map_of (map (\<lambda>(rel, b). (rel, File b)) (inOrder files)) rel = Some (File b)" if "(rel, b) \<in> set (inOrder files)" for rel b
    using that distinct_inOrder [OF assms(2)] by (intro map_of_is_SomeI) (force simp: comp_def case_prod_beta)+
  then have "readAll (Some d) (bundleOrder (map fst files)) = Inr (inOrder files)"
    unfolding readAll_iff k by (auto simp: readNode_def d)
  moreover have "list_all (ValidBundlePath isPrint) (bundleOrder (map fst files))"
    unfolding list_all_iff by (subst set_bundleOrder) (use assms(1) in auto)
  ultimately show ?thesis using configFiles_written [OF assms(1)] by (simp add: ReadBundle_iff d)
qed

end
