(* ===== verification/Config_Install.thy ===== *)
theory Config_Install
  imports Config_Store
begin

text \<open>
  What the store of installed configurations guarantees: a hash stands for exactly one set of files; a
  proposal that is staged and committed is what is read back; a failed commit changes no pointer; and
  only bytes that hash as the pointer says decide who may act.
\<close>

section \<open>A hash stands for its files\<close>

text \<open>The strings the canon of a file list hashes, and that no two of them collide.\<close>

definition hashed :: "(bytes \<Rightarrow> bytes) \<Rightarrow> (bytes \<times> bytes) list \<Rightarrow> bytes set" where
  "hashed sha fs = fst ` set fs \<union> snd ` set fs \<union> {concat (map (\<lambda>(rel, data). sha rel @ sha data) fs)}"

lemma blocks_eq:
  assumes "\<And>x. length (sha x) = 32"
  shows "concat (map (\<lambda>(rel, data). sha rel @ sha data) fs) = concat (map (\<lambda>(rel, data). sha rel @ sha data) gs) \<Longrightarrow>
    map (\<lambda>(rel, data). (sha rel, sha data)) fs = map (\<lambda>(rel, data). (sha rel, sha data)) gs"
proof (induction fs arbitrary: gs)
  case Nil
  have "sha x \<noteq> []" for x using assms [of x] by auto
  with Nil show ?case by (cases gs) auto
next
  case (Cons f fs)
  obtain r d where f: "f = (r, d)" by fastforce
  have "sha x \<noteq> []" for x using assms [of x] by auto
  with Cons.prems obtain g gs' where gs: "gs = g # gs'" by (cases gs) (auto simp: f)
  obtain r' d' where g: "g = (r', d')" by fastforce
  from Cons.prems have "sha r @ sha d @ concat (map (\<lambda>(rel, data). sha rel @ sha data) fs)
      = sha r' @ sha d' @ concat (map (\<lambda>(rel, data). sha rel @ sha data) gs')" by (simp add: f g gs)
  then have "sha r = sha r'" "sha d = sha d'"
    and "concat (map (\<lambda>(rel, data). sha rel @ sha data) fs) = concat (map (\<lambda>(rel, data). sha rel @ sha data) gs')"
    using assms by auto
  with Cons.IH [of gs'] show ?case by (simp add: f g gs)
qed

lemma pairs_eq:
  assumes "inj_on sha S" "fst ` set fs \<union> snd ` set fs \<union> fst ` set gs \<union> snd ` set gs \<subseteq> S"
    and "map (\<lambda>(rel, data). (sha rel, sha data)) fs = map (\<lambda>(rel, data). (sha rel, sha data)) gs"
  shows "fs = gs"
  using assms(2,3)
proof (induction fs arbitrary: gs)
  case (Cons f fs)
  then obtain g gs' where gs: "gs = g # gs'" by (cases gs) auto
  from Cons.prems have "sha (fst f) = sha (fst g)" "sha (snd f) = sha (snd g)" by (auto simp: gs case_prod_beta)
  moreover have "fst f \<in> S" "fst g \<in> S" "snd f \<in> S" "snd g \<in> S" using Cons.prems(1) by (auto simp: gs)
  ultimately have "f = g" using assms(1) by (metis inj_onD prod_eqI)
  with Cons.IH [of gs'] Cons.prems show ?case by (simp add: gs)
qed simp

lemma canonHash_inj:
  assumes "\<And>x. length (sha x) = 32" "inj_on sha (hashed sha fs \<union> hashed sha gs)" "canonHash sha fs = canonHash sha gs"
  shows "fs = gs"
proof -
  let ?c = "\<lambda>fs. concat (map (\<lambda>(rel, data). sha rel @ sha data) fs)"
  have "sha (?c fs) = sha (?c gs)" using assms(3) by (auto simp: canonHash_def dest: hexBytes_inj)
  then have "?c fs = ?c gs" by (rule inj_onD [OF assms(2)]) (simp_all add: hashed_def)
  from pairs_eq [OF assms(2) _ blocks_eq [OF assms(1) this]] show ?thesis by (auto simp: hashed_def)
qed

lemma canonHash_ok: "(\<And>x. length (sha x) = 32) \<Longrightarrow> installedHashOK (canonHash sha fs)"
  using hexBytes_hex [of "sha (concat (map (\<lambda>(rel, data). sha rel @ sha data) fs))"]
  by (simp add: installedHashOK_def canonHash_def hashPrefix_def has_prefix_def)

section \<open>The pointer\<close>

lemma chunks_ascii: "\<forall>c \<in> set s. ord c < 128 \<Longrightarrow> chunks s = map (\<lambda>c. (ord c, [c])) s"
  by (induction s) (auto simp: decodeRune_def Let_def)

lemma hash_ascii: "installedHashOK h \<Longrightarrow> \<forall>c \<in> set h. 32 < (ord c :: nat) \<and> (ord c :: nat) < 128"
proof -
  assume h: "installedHashOK h"
  have hex: "lower_hex c \<Longrightarrow> 32 < (ord c :: nat) \<and> (ord c :: nat) < 128" for c by (auto simp: lower_hex_def)
  have "h = hashPrefix @ drop 7 h" using h by (auto simp: installedHashOK_def has_prefix_iff hashPrefix_def)
  moreover have "\<forall>c \<in> set (drop 7 h). lower_hex c" using h by (auto simp: installedHashOK_def lower_hex_string_def list_all_iff)
  moreover have "\<forall>c \<in> set hashPrefix. 32 < (ord c :: nat) \<and> (ord c :: nat) < 128" by (simp add: hashPrefix_def)
  ultimately show ?thesis using hex by (metis Un_iff set_append)
qed

lemma trimSpace_line:
  assumes "installedHashOK h"
  shows "trimSpace (h @ [newline]) = h"
proof -
  let ?sp = "\<lambda>(r, b :: bytes). isSpace r"
  have a: "\<forall>c \<in> set (h @ [newline]). ord c < 128" using hash_ascii [OF assms] by auto
  have n: "\<not> isSpace (ord c)" if "c \<in> set h" for c using hash_ascii [OF assms] that by (auto simp: isSpace_def)
  have nl: "isSpace (ord newline)" by (simp add: isSpace_def)
  have ne: "h \<noteq> []" using assms by (auto simp: installedHashOK_def lower_hex_string_def)
  have front: "dropWhile ?sp (map (\<lambda>c. (ord c, [c])) (h @ [newline])) = map (\<lambda>c. (ord c, [c])) (h @ [newline])"
    using ne n by (cases h) auto
  have rear: "dropWhile ?sp (rev (map (\<lambda>c. (ord c, [c])) (h @ [newline]))) = rev (map (\<lambda>c. (ord c, [c])) h)"
    using ne n nl by (cases h rule: rev_cases) auto
  have flat: "concat (map snd (map (\<lambda>c. (ord c :: nat, [c])) xs)) = xs" for xs :: bytes by (induction xs) auto
  show ?thesis
    unfolding trimSpace_def Let_def chunks_ascii [OF a] front rear rev_rev_ident by (rule flat)
qed

section \<open>Committing\<close>

lemma flipPointer_cases:
  "flipPointer ci h st = (st', e) \<Longrightarrow>
     csDirs st' = csDirs st \<and> (case e of None \<Rightarrow> csPointer st' = PointerFile (h @ [newline]) | Some _ \<Rightarrow> csPointer st' = csPointer st)"
  by (auto simp: flipPointer_def Let_def split: if_splits)

lemma map_of_dropDir: "name \<noteq> temp \<Longrightarrow> map_of (csDirs (dropDir temp st)) name = map_of (csDirs st) name"
proof -
  assume "name \<noteq> temp"
  then have "map_of (filter (\<lambda>(n, _). n \<noteq> temp) xs) name = map_of xs name" for xs :: "(bytes \<times> configDir) list"
    by (induction xs) auto
  then show ?thesis by (simp add: dropDir_def)
qed

lemma csPointer_dirs [simp]: "csPointer (putDir n d st) = csPointer st" "csPointer (dropDir n st) = csPointer st"
  by (simp_all add: putDir_def dropDir_def)

lemma hash_name: "installedHashOK h \<Longrightarrow> length (snapshotName h) = 64"
  by (simp add: snapshotName_def installedHashOK_def lower_hex_string_def)

text \<open>What a commit does to the directories: the staged one moves to its name, or it is dropped because its name is held.\<close>

lemma CommitSnapshot_dirs:
  assumes "CommitSnapshot sha ci st temp h = (st', e)"
  shows "(e \<noteq> None \<and> csPointer st' = csPointer st \<and> (st' = st \<or> (\<exists>left. csDirs st' = csDirs (putDir temp left (dropDir temp st))))) \<or>
    (installedHashOK h \<and> (\<exists>staged. map_of (csDirs st) temp = Some staged
      \<and> (case e of None \<Rightarrow> csPointer st' = PointerFile (h @ [newline]) | Some _ \<Rightarrow> csPointer st' = csPointer st)
      \<and> ((\<forall>d. SnapshotDir st h = Some d \<longrightarrow> cdNodes d = []) \<and> csDirs st' = csDirs (putDir (snapshotName h) staged (dropDir temp st))
         \<or> (\<exists>d. SnapshotDir st h = Some d \<and> HashDir sha (Some d) = Inr h) \<and> csDirs st' = csDirs (dropDir temp st))))"
  using assms unfolding CommitSnapshot_def
  by (auto split: if_splits option.splits sum.splits removal.splits dest!: flipPointer_cases)

lemma staging_name: "has_prefix temp ''.staging-'' \<Longrightarrow> installedHashOK h \<Longrightarrow> snapshotName h \<noteq> temp"
proof
  assume t: "has_prefix temp ''.staging-''" and h: "installedHashOK h" and eq: "snapshotName h = temp"
  from t obtain s where "temp = ''.staging-'' @ s" using has_prefix_iff by blast
  then have "CHR ''.'' \<in> set temp" by simp
  moreover have "\<forall>c \<in> set (snapshotName h). lower_hex c"
    using h by (auto simp: snapshotName_def installedHashOK_def lower_hex_string_def list_all_iff)
  ultimately have "lower_hex CHR ''.''" unfolding eq by blast
  then show False by (simp add: lower_hex_def)
qed

lemma map_of_inOrder:
  assumes "\<forall>(rel, b) \<in> set files. ValidBundlePath isPrint rel"
  shows "map_of (inOrder files) = map_of files"
proof
  fix rel
  have s: "set (bundleOrder (map fst files)) = set (map fst files)" by (rule set_bundleOrder) (use assms in auto)
  show "map_of (inOrder files) rel = map_of files rel"
  proof (cases "rel \<in> set (map fst files)")
    case True
    then obtain b where "map_of files rel = Some b" by (metis map_of_eq_None_iff not_Some_eq set_map)
    with True s show ?thesis by (simp add: inOrder_def map_of_map_restrict)
  next
    case False
    with s show ?thesis by (simp add: inOrder_def map_of_map_restrict) (metis map_of_eq_None_iff set_map)
  qed
qed

lemma InstalledHash_committed: "installedHashOK h \<Longrightarrow> csPointer st = PointerFile (h @ [newline]) \<Longrightarrow> InstalledHash st = Inr (Some h)"
  by (simp add: InstalledHash_def trimSpace_line)

lemma SnapshotDir_after:
  "csDirs st' = csDirs (putDir (snapshotName h) staged (dropDir temp st)) \<Longrightarrow> SnapshotDir st' h = Some staged"
  "snapshotName h \<noteq> temp \<Longrightarrow> csDirs st' = csDirs (dropDir temp st) \<Longrightarrow> SnapshotDir st' h = SnapshotDir st h"
  by (simp add: SnapshotDir_def putDir_def) (simp add: SnapshotDir_def map_of_dropDir)

lemma StageFiles_staged:
  assumes "StageFiles isPrint io temp st files = (st1, Inr t)" "distinct (map fst files)"
  obtains d where "st1 = putDir temp d st" "ReadBundle isPrint (Some d) = Inr (inOrder files)"
    "\<forall>(rel, b) \<in> set files. ValidBundlePath isPrint rel"
proof -
  have v: "\<forall>(rel, b) \<in> set files. ValidBundlePath isPrint rel"
    using assms(1) by (auto simp: StageFiles_def list_ex_iff split: if_splits)
  obtain d where "writeAll (writeStaged io) (inOrder files) emptyDir = Inr d" "st1 = putDir temp d st"
    using assms(1) by (auto simp: StageFiles_def split: if_splits sum.splits)
  moreover have "writeStaged io = writeExcl io" by (intro ext) (simp add: writeStaged_def)
  ultimately show ?thesis using that written_bundle [OF v assms(2)] v by metis
qed

lemma HashFiles_inOrder:
  assumes "\<forall>(rel, b) \<in> set files. ValidBundlePath isPrint rel"
  shows "HashFiles isPrint sha files = Inr (canonHash sha (inOrder files))"
  using assms by (auto simp: HashFiles_def inOrder_def list_ex_iff)

section \<open>Loading what was verified\<close>

lemma loadLoop_reads:
  "(\<And>rel. rel \<in> set rels \<Longrightarrow> readNode dir rel = readNode dir' rel) \<Longrightarrow>
     loadEach Y dir keep rels cfg errs = loadEach Y dir' keep rels cfg errs"
  by (induction rels arbitrary: cfg errs) (auto split: option.splits prod.splits)

lemma loadFile_roles:
  "cfgRoles c = cfgRoles c' \<Longrightarrow>
     cfgRoles (fst (loadFile Y rel data c)) = (if groupOf rel = ''roles'' then cfgRoles (fst (loadFile Y rel data c')) else cfgRoles c')"
  by (auto simp: loadFile_def split: option.splits prod.splits)

lemma loadLoop_roles:
  "cfgRoles c = cfgRoles c' \<Longrightarrow>
     cfgRoles (fst (loadEach Y dir (\<lambda>_. True) rels c errs)) = cfgRoles (fst (loadEach Y dir (\<lambda>rel. groupOf rel = ''roles'') rels c' errs'))"
proof (induction rels arbitrary: c c' errs errs')
  case (Cons rel rels)
  show ?case
  proof (cases "readNode dir rel")
    case None
    then show ?thesis using Cons.IH [OF Cons.prems] by simp
  next
    case (Some data)
    obtain c1 ok1 c2 ok2 where l: "loadFile Y rel data c = (c1, ok1)" "loadFile Y rel data c' = (c2, ok2)" by fastforce
    have "cfgRoles c1 = (if groupOf rel = ''roles'' then cfgRoles c2 else cfgRoles c')"
      using loadFile_roles [OF Cons.prems, of Y rel data] by (simp add: l)
    then show ?thesis using Cons.IH by (simp add: Some l)
  qed
qed simp

lemma HashDir_files:
  "HashDir sha dir = Inr h \<longleftrightarrow> (\<exists>fs. configFiles dir = Inr (map fst fs) \<and> readAll dir (map fst fs) = Inr fs \<and> h = canonHash sha fs)"
proof
  assume "HashDir sha dir = Inr h"
  then obtain rels fs where r: "configFiles dir = Inr rels" "readAll dir rels = Inr fs" "h = canonHash sha fs"
    by (auto simp: HashDir_def split: sum.splits)
  then have "rels = map fst fs" using readAll_pairs by blast
  with r show "\<exists>fs. configFiles dir = Inr (map fst fs) \<and> readAll dir (map fst fs) = Inr fs \<and> h = canonHash sha fs" by blast
qed (auto simp: HashDir_def)

section \<open>Properties\<close>

text \<open>
  A bundle hashes as the directory it was read from. Whenever \<open>ReadBundle\<close> accepts a configuration
  directory, \<open>HashFiles\<close> of the bundle is \<open>HashDir\<close> of the directory: the order restated for proposals is
  the order of the enumeration, whatever other entries the directory holds.
\<close>

theorem bundle_hashes_as_its_directory:
  assumes "ReadBundle isPrint dir = Inr fs"
  shows "HashFiles isPrint sha fs = HashDir sha dir \<and> (\<exists>h. HashDir sha dir = Inr h)"
  using HashFiles_ReadBundle [OF assms] by simp

text \<open>
  C31: an installed configuration is the one that was proposed. A proposal staged by \<open>StageFiles\<close>, on any
  file system, and committed under its hash is what the pointer names afterwards and verifies; and when
  no snapshot held that name before, reading the installed bundle returns exactly the proposed files.
\<close>

theorem install_then_read:
  assumes "\<And>x. length (sha x) = 32" "distinct (map fst files)" "has_prefix temp ''.staging-''"
    and "StageFiles isPrint io temp st files = (st1, Inr t)" "HashFiles isPrint sha files = Inr h"
    and "CommitSnapshot sha ci st1 temp h = (st2, None)"
  shows "InstalledHash st2 = Inr (Some h) \<and> VerifyInstalled sha st2 h = None
    \<and> (SnapshotDir st h = None \<longrightarrow>
         (\<exists>fs. InstalledBundle isPrint sha st2 = (fs, h, True, None) \<and> map_of fs = map_of files))"
proof -
  obtain d where d: "st1 = putDir temp d st" "ReadBundle isPrint (Some d) = Inr (inOrder files)"
    and v: "\<forall>(rel, b) \<in> set files. ValidBundlePath isPrint rel" by (rule StageFiles_staged [OF assms(4,2)])
  have h: "h = canonHash sha (inOrder files)" "installedHashOK h"
    using HashFiles_inOrder [OF v, of sha] assms(5) canonHash_ok [OF assms(1)] by auto
  have ne: "snapshotName h \<noteq> temp" by (rule staging_name [OF assms(3) h(2)])
  have hd: "HashDir sha (Some d) = Inr h" and hf: "HashFiles isPrint sha (inOrder files) = Inr h"
    using HashFiles_ReadBundle [OF d(2), of sha] h(1) by simp_all
  have st1: "SnapshotDir st1 h = SnapshotDir st h" "map_of (csDirs st1) temp = Some d"
    using ne by (simp_all add: d(1) SnapshotDir_def putDir_def)
  from CommitSnapshot_dirs [OF assms(6)] st1(2) have p: "csPointer st2 = PointerFile (h @ [newline])"
    and c: "csDirs st2 = csDirs (putDir (snapshotName h) d (dropDir temp st1))
        \<or> (\<exists>d'. SnapshotDir st1 h = Some d' \<and> HashDir sha (Some d') = Inr h) \<and> csDirs st2 = csDirs (dropDir temp st1)"
    by auto
  have ih: "InstalledHash st2 = Inr (Some h)" by (rule InstalledHash_committed [OF h(2) p])
  from c consider (new) "SnapshotDir st2 h = Some d" | (held) "SnapshotDir st2 h = SnapshotDir st h" "HashDir sha (SnapshotDir st h) = Inr h"
    using SnapshotDir_after(1) [of st2 h d temp st1] SnapshotDir_after(2) [OF ne, of st2 st1] st1(1) by auto
  then show ?thesis
  proof cases
    case new
    then have "InstalledBundle isPrint sha st2 = (inOrder files, h, True, None)"
      by (simp add: InstalledBundle_def ih SnapshotBundle_def d(2) hf)
    with new ih hd map_of_inOrder [OF v] show ?thesis by (auto simp: VerifyInstalled_def)
  next
    case held
    then have "SnapshotDir st h \<noteq> None" by (cases "SnapshotDir st h") (auto simp: HashDir_def configFiles_def)
    with held ih show ?thesis by (auto simp: VerifyInstalled_def)
  qed
qed

text \<open>
  C34: a failed commit changes no decision. When \<open>CommitSnapshot\<close> returns an error, wherever it stopped, the
  pointer is exactly as it was, and every snapshot the store held with any content is still there
  unchanged; only the staged directory may be gone, whole or in part.
\<close>

theorem failed_commit_keeps_the_pointer:
  assumes "CommitSnapshot sha ci st temp h = (st', Some e)"
  shows "csPointer st' = csPointer st \<and> InstalledHash st' = InstalledHash st
    \<and> (\<forall>name d. map_of (csDirs st) name = Some d \<longrightarrow> name \<noteq> temp \<longrightarrow> cdNodes d \<noteq> [] \<longrightarrow> map_of (csDirs st') name = Some d)"
proof -
  have "csPointer st' = csPointer st" using CommitSnapshot_dirs [OF assms] by auto
  moreover have "map_of (csDirs st') name = Some d" if "map_of (csDirs st) name = Some d" "name \<noteq> temp" "cdNodes d \<noteq> []" for name d
    using CommitSnapshot_dirs [OF assms] that map_of_dropDir [OF that(2), of st] by (auto simp: SnapshotDir_def putDir_def)
  ultimately show ?thesis by (simp add: InstalledHash_def)
qed

text \<open>
  C32: only verified bytes decide. When the authorization read of the installed configuration reports no
  error, either the pointer is absent and nothing is installed, or there is at least one role, the
  snapshot's enumerated files hash as the pointer says, and the roles are those of its roles files. When
  the execution read of the same store reports no error either, it runs with the same roles under the same hash.
\<close>

theorem only_verified_bytes_decide:
  assumes "InstalledRoles Y sha st = (rs, h, installed, None)"
  shows "(if installed
          then rs \<noteq> [] \<and> InstalledHash st = Inr (Some h) \<and> HashDir sha (SnapshotDir st h) = Inr h
            \<and> (\<exists>cfg. loadFiles Y (SnapshotDir st h) (\<lambda>rel. groupOf rel = ''roles'') = (cfg, []) \<and> rs = cfgRoles cfg)
            \<and> (\<forall>cfg h'. LoadInstalled Y sha st = (cfg, h', True, []) \<longrightarrow> h' = h \<and> cfgRoles cfg = rs)
          else rs = [] \<and> csPointer st = NoPointer)"
proof (cases "InstalledHash st")
  case (Inl e)
  with assms show ?thesis by (simp add: InstalledRoles_def)
next
  case i: (Inr x)
  show ?thesis
  proof (cases x)
    case None
    with i assms show ?thesis by (auto simp: InstalledRoles_def InstalledHash_def Let_def split: pointer.splits if_splits)
  next
    case (Some k)
    from assms i Some obtain cfg where v: "VerifyInstalled sha st k = None"
      and l: "loadFiles Y (SnapshotDir st k) (\<lambda>rel. groupOf rel = ''roles'') = (cfg, [])"
      and r: "cfgRoles cfg \<noteq> []" "rs = cfgRoles cfg" "h = k" "installed"
      by (auto simp: InstalledRoles_def split: option.splits prod.splits list.splits if_splits)
    from v have hd: "HashDir sha (SnapshotDir st k) = Inr k" by (auto simp: VerifyInstalled_def split: sum.splits if_splits)
    have "cfgRoles (fst (loadFiles Y (SnapshotDir st k) (\<lambda>_. True)))
        = cfgRoles (fst (loadFiles Y (SnapshotDir st k) (\<lambda>rel. groupOf rel = ''roles'')))"
      using loadLoop_roles [OF refl] by (simp add: loadFiles_def split: sum.splits)
    then have "cfgRoles (fst (loadFiles Y (SnapshotDir st k) (\<lambda>_. True))) = rs" by (simp add: l r)
    with i Some v have e: "\<forall>cfg h'. LoadInstalled Y sha st = (cfg, h', True, []) \<longrightarrow> h' = k \<and> cfgRoles cfg = rs"
      by (auto simp: LoadInstalled_def split: prod.splits)
    show ?thesis unfolding r(3) i Some using r hd l e by simp
  qed
qed

text \<open>
  C33: one hash, one configuration. Two directories with the same hash, under a digest with no collision
  among the strings their canons hash, enumerate the same files with the same bytes and load as the same
  configuration with the same errors, whatever else lies in them.
\<close>

theorem same_hash_same_configuration:
  assumes "\<And>x. length (sha x) = 32" "HashDir sha dir = Inr h" "HashDir sha dir' = Inr h"
    and "readAll dir rels = Inr fs" "configFiles dir = Inr rels" "readAll dir' rels' = Inr fs'" "configFiles dir' = Inr rels'"
    and "inj_on sha (hashed sha fs \<union> hashed sha fs')"
  shows "rels = rels' \<and> fs = fs' \<and> LoadDir Y dir = LoadDir Y dir'"
proof -
  have "canonHash sha fs = canonHash sha fs'" using assms(2-7) by (simp add: HashDir_def)
  then have fs: "fs = fs'" by (rule canonHash_inj [OF assms(1,8)])
  note p = readAll_pairs [OF assms(4)] readAll_pairs [OF assms(6)]
  have rels: "rels = rels'" using p fs by simp
  have "readNode dir rel = readNode dir' rel" if "rel \<in> set rels" for rel
    using that p fs by fastforce
  then show ?thesis using fs rels assms(5,7) loadLoop_reads [of rels dir dir'] by (simp add: LoadDir_def loadFiles_def)
qed

section \<open>A concrete store\<close>

definition demoSha :: "bytes \<Rightarrow> bytes" where
  "demoSha x = char_of (length x) # take 31 (x @ replicate 31 nul)"

definition demoFiles :: "(bytes \<times> bytes) list" where
  "demoFiles = [(''gateway.yaml'', ''g''), (''roles/b.yaml'', ''r''), (''roles/a.yaml'', ''r'')]"

definition demoWriteIO :: writeIO where
  "demoWriteIO = \<lparr>wiFold = (\<lambda>x. x), wiMkdirFails = False, wiTempFails = False, wiGroupFails = (\<lambda>_. False), wiFileFails = (\<lambda>_. False)\<rparr>"

definition demoCommitIO :: commitIO where
  "demoCommitIO = \<lparr>ciRenameFails = False, ciRemoval = Removed, ciTempFails = False, ciWriteFails = False,
     ciSyncFails = False, ciCloseFails = False, ciFlipFails = False\<rparr>"

definition demoStore0 :: configStore where
  "demoStore0 = \<lparr>csPointer = NoPointer, csDirs = []\<rparr>"

definition demoStaged :: "configStore \<times> (config_error + bytes)" where
  "demoStaged = StageFiles (\<lambda>_. True) demoWriteIO ''.staging-1'' demoStore0 demoFiles"

definition demoHash :: bytes where
  "demoHash = canonHash demoSha (inOrder demoFiles)"

definition demoCommitted :: "configStore \<times> config_error option" where
  "demoCommitted = CommitSnapshot demoSha demoCommitIO (fst demoStaged) ''.staging-1'' demoHash"

definition demoRole :: RoleDef where
  "demoRole = \<lparr>rdName = ''a'', rdDescription = '''', rdWorkflows = [], rdAllowedGroups = [], rdControl = None, rdBudgetUSDMonth = 0,
     rdSourceFile = ''''\<rparr>"

definition demoGatewayConfig :: GatewayConfig where
  "demoGatewayConfig = \<lparr>gwModels = [], gwTools = [], gwDefaultModel = '''', gwRefboxSocketDir = '''', gwSpawnSupervisor = '''',
     gwSpawn = \<lparr>polMaxDepth = 0, polMaxParallel = 0, polMaxTotalSpawns = 0, polRejectCycles = False\<rparr>, gwStepTimeout = 0\<rparr>"

definition demoDecoders :: decoders where
  "demoDecoders = \<lparr>yAgent = (\<lambda>_. None), yWorkflow = (\<lambda>_. None), yRole = (\<lambda>_. Some demoRole), yGateway = (\<lambda>_. (demoGatewayConfig, True)),
     yNoGateway = demoGatewayConfig\<rparr>"

lemma demoSha_length: "length (demoSha x) = 32"
  by (simp add: demoSha_def)

lemma demo_valid: "\<forall>(rel, b) \<in> set demoFiles. ValidBundlePath (\<lambda>_. True) rel"
proof -
  have "runesOf ''a.yaml'' = map ord ''a.yaml''" "runesOf ''b.yaml'' = map ord ''b.yaml''"
    unfolding runesOf_def by (subst chunks_ascii; simp)+
  then show ?thesis
    by (simp add: demoFiles_def ValidBundlePath_def gatewayFile_def cutSlash_def bundleGroups_def yamlName_def extOf_def maxBundleNameRunes_def RuneError_def)
qed

definition demoConfigDir :: configDir where
  "demoConfigDir = \<lparr>cdNodes = [(''roles/a.yaml'', File ''r''), (''roles/b.yaml'', File ''r''), (''gateway.yaml'', File ''g'')], cdUnlisted = []\<rparr>"

lemma demo_staged:
  "demoStaged = (putDir ''.staging-1'' demoConfigDir demoStore0, Inr ''.staging-1'')" "HashFiles (\<lambda>_. True) demoSha demoFiles = Inr demoHash"
  "demoCommitted = (fst demoCommitted, None)" "distinct (map fst demoFiles)"
proof -
  have w: "writeAll (writeStaged demoWriteIO) (inOrder demoFiles) emptyDir = Inr demoConfigDir" by code_simp
  have io: "\<not> wiMkdirFails demoWriteIO" "\<not> wiTempFails demoWriteIO" by (simp_all add: demoWriteIO_def)
  show st: "demoStaged = (putDir ''.staging-1'' demoConfigDir demoStore0, Inr ''.staging-1'')"
    using demo_valid io by (auto simp: demoStaged_def StageFiles_def w list_ex_iff)
  show "HashFiles (\<lambda>_. True) demoSha demoFiles = Inr demoHash"
    using HashFiles_inOrder [OF demo_valid] by (simp add: demoHash_def)
  have "snd (CommitSnapshot demoSha demoCommitIO (putDir ''.staging-1'' demoConfigDir demoStore0) ''.staging-1'' demoHash) = None" by code_simp
  then show "demoCommitted = (fst demoCommitted, None)" by (simp add: demoCommitted_def st prod_eq_iff)
  show "distinct (map fst demoFiles)" by code_simp
qed

theorem install_then_read_witness:
  "InstalledHash (fst demoCommitted) = Inr (Some demoHash) \<and> VerifyInstalled demoSha (fst demoCommitted) demoHash = None
   \<and> (\<exists>fs. InstalledBundle (\<lambda>_. True) demoSha (fst demoCommitted) = (fs, demoHash, True, None) \<and> map_of fs = map_of demoFiles)"
proof -
  have t: "has_prefix ''.staging-1'' ''.staging-''" and n: "SnapshotDir demoStore0 demoHash = None"
    by (simp_all add: has_prefix_def SnapshotDir_def demoStore0_def)
  have c: "CommitSnapshot demoSha demoCommitIO (putDir ''.staging-1'' demoConfigDir demoStore0) ''.staging-1'' demoHash = (fst demoCommitted, None)"
    using demo_staged(3) by (simp add: demoCommitted_def demo_staged(1))
  from install_then_read [OF demoSha_length demo_staged(4) t demo_staged(1) [unfolded demoStaged_def] demo_staged(2) c] n show ?thesis by simp
qed

theorem bundle_hashes_as_its_directory_witness:
  "HashFiles (\<lambda>_. True) demoSha (inOrder demoFiles) = HashDir demoSha (Some demoConfigDir)"
proof -
  have "writeAll (writeExcl demoWriteIO) (inOrder demoFiles) emptyDir = Inr demoConfigDir" by code_simp
  from bundle_hashes_as_its_directory [OF written_bundle [OF demo_valid demo_staged(4) this]] show ?thesis by blast
qed

theorem failed_commit_keeps_the_pointer_witness:
  "csPointer (fst (CommitSnapshot demoSha (demoCommitIO\<lparr>ciFlipFails := True\<rparr>) (putDir ''.staging-1'' demoConfigDir demoStore0) ''.staging-1'' demoHash)) = NoPointer"
proof -
  let ?r = "CommitSnapshot demoSha (demoCommitIO\<lparr>ciFlipFails := True\<rparr>) (putDir ''.staging-1'' demoConfigDir demoStore0) ''.staging-1'' demoHash"
  have "snd ?r = Some StoreFailed" by code_simp
  then have "?r = (fst ?r, Some StoreFailed)" by (simp add: prod_eq_iff)
  from failed_commit_keeps_the_pointer [OF this] show ?thesis by (simp add: putDir_def demoStore0_def)
qed

definition demoInstalled :: configStore where
  "demoInstalled = \<lparr>csPointer = PointerFile (demoHash @ [newline]), csDirs = [(snapshotName demoHash, demoConfigDir)]\<rparr>"

lemma demo_installed: "installedHashOK demoHash" "HashDir demoSha (Some demoConfigDir) = Inr demoHash"
proof -
  show "installedHashOK demoHash" unfolding demoHash_def by (rule canonHash_ok) (rule demoSha_length)
  show "HashDir demoSha (Some demoConfigDir) = Inr demoHash" by code_simp
qed

theorem only_verified_bytes_decide_witness:
  "\<exists>rs. InstalledRoles demoDecoders demoSha demoInstalled = (rs, demoHash, True, None) \<and> rs \<noteq> []
     \<and> HashDir demoSha (SnapshotDir demoInstalled demoHash) = Inr demoHash"
proof -
  have s: "SnapshotDir demoInstalled demoHash = Some demoConfigDir" by (simp add: SnapshotDir_def demoInstalled_def)
  have i: "InstalledHash demoInstalled = Inr (Some demoHash)"
    by (rule InstalledHash_committed [OF demo_installed(1)]) (simp add: demoInstalled_def)
  have f: "configFiles (Some demoConfigDir) = Inr [''roles/a.yaml'', ''roles/b.yaml'', ''gateway.yaml'']" by code_simp
  have r: "readNode (Some demoConfigDir) ''roles/a.yaml'' = Some ''r''" "readNode (Some demoConfigDir) ''roles/b.yaml'' = Some ''r''"
    "groupOf ''roles/a.yaml'' = ''roles''" "groupOf ''roles/b.yaml'' = ''roles''" "groupOf ''gateway.yaml'' = ''.''" by code_simp+
  have "\<exists>rs. InstalledRoles demoDecoders demoSha demoInstalled = (rs, demoHash, True, None)"
    by (simp add: InstalledRoles_def i VerifyInstalled_def s demo_installed loadFiles_def f r loadFile_def demoDecoders_def emptyConfig_def)
  then obtain rs where rs: "InstalledRoles demoDecoders demoSha demoInstalled = (rs, demoHash, True, None)" ..
  from only_verified_bytes_decide [OF rs] rs show ?thesis by auto
qed

text \<open>The same files with a README beside them and a directory among the roles.\<close>

definition otherDir :: configDir where
  "otherDir = \<lparr>cdNodes = [(''README'', File ''x''), (''roles/b.yaml'', File ''r''), (''roles/old.yaml'', SubDir), (''gateway.yaml'', File ''g''),
     (''roles/a.yaml'', File ''r'')], cdUnlisted = []\<rparr>"

theorem same_hash_same_configuration_witness:
  "LoadDir demoDecoders (Some demoConfigDir) = LoadDir demoDecoders (Some otherDir)"
proof -
  let ?fs = "inOrder demoFiles"
  have h: "HashDir demoSha (Some otherDir) = Inr demoHash" by code_simp
  have f: "configFiles (Some demoConfigDir) = Inr [''roles/a.yaml'', ''roles/b.yaml'', ''gateway.yaml'']"
    "configFiles (Some otherDir) = Inr [''roles/a.yaml'', ''roles/b.yaml'', ''gateway.yaml'']" by code_simp+
  have r: "readAll (Some demoConfigDir) [''roles/a.yaml'', ''roles/b.yaml'', ''gateway.yaml''] = Inr ?fs"
    "readAll (Some otherDir) [''roles/a.yaml'', ''roles/b.yaml'', ''gateway.yaml''] = Inr ?fs" by code_simp+
  have "inj_on demoSha (hashed demoSha ?fs \<union> hashed demoSha ?fs)"
  proof -
    have "hashed demoSha ?fs \<union> hashed demoSha ?fs = set [''roles/a.yaml'', ''roles/b.yaml'', ''gateway.yaml'', ''r'', ''g'',
        concat (map (\<lambda>(rel, data). demoSha rel @ demoSha data) ?fs)]"
      unfolding hashed_def by code_simp
    moreover have "distinct (map demoSha [''roles/a.yaml'', ''roles/b.yaml'', ''gateway.yaml'', ''r'', ''g'',
        concat (map (\<lambda>(rel, data). demoSha rel @ demoSha data) ?fs)])" by code_simp
    ultimately show ?thesis by (simp only: distinct_map)
  qed
  from same_hash_same_configuration [OF demoSha_length demo_installed(2) h r(1) f(1) r(2) f(2) this] show ?thesis by blast
qed

end
