(* ===== verification/Config_Integrity.thy ===== *)
theory Config_Integrity
  imports Control_Set
begin

text \<open>
  Package \<^verbatim>\<open>internal/config\<close>, the file \<^verbatim>\<open>integrity.go\<close>: the integrity posture of a control root, its shape and value
  rules, and the retention of a write-once sink.

  What yaml.v3 reads is an argument: the first document of a file and whether another one follows, and
  the struct it fills from a mapping. What \<^verbatim>\<open>net/url\<close> parses is an argument too. A duration is its number of
  nanoseconds; \<open>goInt\<close> wraps a product to 64 bits. An error keeps the rule that failed and the value it
  names, not its fixed text.
\<close>

section \<open>Data\<close>

record BackendCredential =
  bcCredentialSource :: bytes
  bcTokenEnv :: bytes
  bcGrantType :: bytes
  bcClientAuth :: bytes
  bcIssuer :: bytes
  bcTokenEndpoint :: bytes
  bcClientIDEnv :: bytes
  bcClientSecretEnv :: bytes
  bcScope :: bytes
  bcAudience :: bytes

record IntegrityBackend =
  ibKind :: bytes
  ibURL :: bytes
  ibRegion :: bytes
  ibMode :: bytes
  ibRetention :: bytes
  ibCredential :: BackendCredential

record Integrity =
  inSink :: bytes
  inAnchor :: bytes
  inAnchorRuns :: bytes
  inDuplicate :: "IntegrityBackend list"
  inSinkBackend :: IntegrityBackend
  inAnchorBackend :: IntegrityBackend

definition noCredential :: BackendCredential where
  "noCredential = \<lparr>bcCredentialSource = '''', bcTokenEnv = '''', bcGrantType = '''', bcClientAuth = '''', bcIssuer = '''',
     bcTokenEndpoint = '''', bcClientIDEnv = '''', bcClientSecretEnv = '''', bcScope = '''', bcAudience = ''''\<rparr>"

definition noBackend :: IntegrityBackend where
  "noBackend = \<lparr>ibKind = '''', ibURL = '''', ibRegion = '''', ibMode = '''', ibRetention = '''', ibCredential = noCredential\<rparr>"

definition floorPosture :: Integrity where
  "floorPosture = \<lparr>inSink = '''', inAnchor = '''', inAnchorRuns = '''', inDuplicate = [], inSinkBackend = noBackend,
     inAnchorBackend = noBackend\<rparr>"

definition IsSet :: "IntegrityBackend \<Rightarrow> bool" where
  "IsSet b \<longleftrightarrow> b \<noteq> noBackend"

datatype posture_error =
    ReservedValue bytes bytes
  | UnknownValue bytes bytes
  | NotSet bytes
  | NotAURL bytes
  | NoBucketNamed bytes
  | NotACoordinate bytes
  | BadRetention bytes
  | RetentionOver bytes
  | RetentionUnder bytes
  | NotARegion bytes
  | CredentialRule bytes
  | RunsWithoutAnchor
  | DuplicateReserved nat
  | BackendWithoutPosture bytes
  | MustBe bytes bytes int
  | KeyNotScalar bytes int
  | UnknownKey bytes bytes int
  | YamlFault bytes
  | ManyDocuments

section \<open>Retention\<close>

definition RetentionDay :: int where
  "RetentionDay = 24 * 3600 * 1000000000"

definition RetentionYear :: int where
  "RetentionYear = 365 * RetentionDay"

definition RetentionMin :: int where
  "RetentionMin = RetentionDay"

definition RetentionMax :: int where
  "RetentionMax = 100 * RetentionYear"

text \<open>\<open>retentionForm\<close>: digits without a leading zero, then the unit.\<close>

definition retentionForm :: "bytes \<Rightarrow> (bytes \<times> char) option" where
  "retentionForm s =
     (if s = [] then None
      else let n = butlast s; u = last s
           in if n \<noteq> [] \<and> list_all isDigit n \<and> hd n \<noteq> CHR ''0'' \<and> (u = CHR ''d'' \<or> u = CHR ''y'') then Some (n, u) else None)"

text \<open>\<open>strconv.ParseInt(_, 10, 64)\<close> on digits.\<close>

definition parseInt64 :: "bytes \<Rightarrow> int option" where
  "parseInt64 ds = (let n = int (Atoi ds) in if n < 2 ^ 63 then Some n else None)"

definition ParseRetention :: "bytes \<Rightarrow> posture_error + int" where
  "ParseRetention s =
     (if s = '''' then Inl (NotSet ''retention'')
      else case retentionForm s of
             None \<Rightarrow> Inl (BadRetention s)
           | Some (ds, u) \<Rightarrow>
               let unit = (if u = CHR ''y'' then RetentionYear else RetentionDay)
               in (case parseInt64 ds of
                     None \<Rightarrow> Inl (RetentionOver s)
                   | Some n \<Rightarrow>
                       if n > RetentionMax div unit then Inl (RetentionOver s)
                       else let d = goInt (n * unit) in if d < RetentionMin then Inl (RetentionUnder s) else Inr d))"

section \<open>Values\<close>

definition isBackendURL :: "(bytes \<Rightarrow> parsedURL option) \<Rightarrow> bytes \<Rightarrow> bool" where
  "isBackendURL parse s =
     (case parse s of
        None \<Rightarrow> False
      | Some u \<Rightarrow> (puScheme u = ''http'' \<or> puScheme u = ''https'') \<and> puHost u \<noteq> '''' \<and> \<not> puUser u \<and> puRawQuery u = ''''
                  \<and> \<not> puForceQuery u \<and> puFragment u = '''')"

definition validateAnchorBackend :: "(bytes \<Rightarrow> parsedURL option) \<Rightarrow> IntegrityBackend \<Rightarrow> posture_error option" where
  "validateAnchorBackend parse b =
     (if \<not> IsSet b then Some (NotSet ''anchor_backend'')
      else if ibKind b = ''rfc3161'' then Some (ReservedValue ''anchor_backend kind'' (ibKind b))
      else if ibKind b \<noteq> '''' \<and> ibKind b \<noteq> ''transparency-log'' then Some (UnknownValue ''anchor_backend kind'' (ibKind b))
      else if ibURL b = '''' then Some (NotSet ''anchor_backend.url'')
      else if \<not> isBackendURL parse (ibURL b) then Some (NotAURL (ibURL b))
      else if ibRegion b \<noteq> '''' then Some (NotACoordinate ''region'')
      else if ibMode b \<noteq> '''' then Some (NotACoordinate ''mode'')
      else if ibRetention b \<noteq> '''' then Some (NotACoordinate ''retention'')
      else let c = ibCredential b
           in if bcGrantType c \<noteq> '''' \<and> bcGrantType c \<noteq> ''client_credentials'' then Some (CredentialRule ''grant_type'')
              else if bcCredentialSource c \<noteq> '''' \<and> bcCredentialSource c \<noteq> ''static_env'' then Some (CredentialRule ''credential_source'')
              else None)"

definition regionName :: "bytes \<Rightarrow> bool" where
  "regionName r \<longleftrightarrow> r \<noteq> [] \<and> list_all (\<lambda>c. isDigit c \<or> c = CHR ''-'' \<or> c \<in> set ''abcdefghijklmnopqrstuvwxyz'') r"

definition validateSinkBackend :: "(bytes \<Rightarrow> parsedURL option) \<Rightarrow> IntegrityBackend \<Rightarrow> posture_error option" where
  "validateSinkBackend parse b =
     (if \<not> IsSet b then Some (NotSet ''sink_backend'')
      else if ibKind b = ''azure-immutable-blob'' \<or> ibKind b = ''gcs-bucket-lock'' then Some (ReservedValue ''sink_backend kind'' (ibKind b))
      else if ibKind b \<noteq> ''s3-object-lock'' then Some (UnknownValue ''sink_backend kind'' (ibKind b))
      else if ibURL b = '''' then Some (NotSet ''sink_backend.url'')
      else if \<not> isBackendURL parse (ibURL b) then Some (NotAURL (ibURL b))
      else if (case parse (ibURL b) of None \<Rightarrow> True | Some u \<Rightarrow> trimSlashes (puPath u) = '''') then Some (NoBucketNamed (ibURL b))
      else if ibMode b = '''' then Some (NotSet ''sink_backend.mode'')
      else if ibMode b = ''governance'' then Some (ReservedValue ''sink_backend.mode'' (ibMode b))
      else if ibMode b \<noteq> ''compliance'' then Some (UnknownValue ''sink_backend.mode'' (ibMode b))
      else case ParseRetention (ibRetention b) of
             Inl e \<Rightarrow> Some e
           | Inr _ \<Rightarrow>
               if ibRegion b \<noteq> '''' \<and> \<not> regionName (ibRegion b) then Some (NotARegion (ibRegion b))
               else let c = ibCredential b
                    in if bcCredentialSource c \<noteq> '''' \<and> bcCredentialSource c \<noteq> ''static_env'' then Some (CredentialRule ''credential_source'')
                       else if bcGrantType c \<noteq> '''' then Some (CredentialRule ''grant_type'')
                       else if bcClientAuth c \<noteq> ''sigv4'' then Some (CredentialRule ''client_auth'')
                       else if bcClientIDEnv c = '''' \<or> bcClientSecretEnv c = '''' then Some (CredentialRule ''client_id_env'')
                       else if bcIssuer c \<noteq> '''' then Some (CredentialRule ''issuer'')
                       else if bcTokenEndpoint c \<noteq> '''' then Some (CredentialRule ''token_endpoint'')
                       else if bcScope c \<noteq> '''' then Some (CredentialRule ''scope'')
                       else if bcAudience c \<noteq> '''' then Some (CredentialRule ''audience'')
                       else None)"

text \<open>The first fault, in the order of the code: sink, anchor, anchor_runs, duplicate, the two backends.\<close>

definition sinkFault :: "(bytes \<Rightarrow> parsedURL option) \<Rightarrow> Integrity \<Rightarrow> posture_error option" where
  "sinkFault parse i =
     (if inSink i = '''' \<or> inSink i = ''local'' then None
      else if inSink i = ''worm'' then validateSinkBackend parse (inSinkBackend i)
      else if inSink i = ''external'' \<or> inSink i = ''duplicate'' then Some (ReservedValue ''sink'' (inSink i))
      else Some (UnknownValue ''sink'' (inSink i)))"

definition anchorFault :: "(bytes \<Rightarrow> parsedURL option) \<Rightarrow> Integrity \<Rightarrow> posture_error option" where
  "anchorFault parse i =
     (if inAnchor i = '''' \<or> inAnchor i = ''none'' then None
      else if inAnchor i = ''signed'' then Some (ReservedValue ''anchor'' (inAnchor i))
      else if inAnchor i = ''tlog'' then validateAnchorBackend parse (inAnchorBackend i)
      else Some (UnknownValue ''anchor'' (inAnchor i)))"

definition runsFault :: "Integrity \<Rightarrow> posture_error option" where
  "runsFault i =
     (if inAnchorRuns i = '''' \<or> inAnchorRuns i = ''none'' then None
      else if inAnchorRuns i = ''on-demand'' then (if inAnchor i \<noteq> ''tlog'' then Some RunsWithoutAnchor else None)
      else Some (UnknownValue ''anchor_runs'' (inAnchorRuns i)))"

definition Integrity_Validate :: "(bytes \<Rightarrow> parsedURL option) \<Rightarrow> Integrity \<Rightarrow> posture_error option" where
  "Integrity_Validate parse i =
     (case sinkFault parse i of
        Some e \<Rightarrow> Some e
      | None \<Rightarrow>
          (case anchorFault parse i of
             Some e \<Rightarrow> Some e
           | None \<Rightarrow>
               (case runsFault i of
                  Some e \<Rightarrow> Some e
                | None \<Rightarrow>
                    if inDuplicate i \<noteq> [] then Some (DuplicateReserved (length (inDuplicate i)))
                    else if inSink i \<noteq> ''worm'' \<and> IsSet (inSinkBackend i) then Some (BackendWithoutPosture ''sink_backend'')
                    else if inAnchor i \<noteq> ''tlog'' \<and> IsSet (inAnchorBackend i) then Some (BackendWithoutPosture ''anchor_backend'')
                    else None)))"

section \<open>Shapes\<close>

datatype ykind = YScalar | YMapping | YSequence | YOther

datatype ynode = YNode (ynKind: ykind) (ynValue: bytes) (ynNull: bool) (ynLine: int) (ynContent: "ynode list")

definition isNull :: "ynode \<Rightarrow> bool" where
  "isNull n \<longleftrightarrow> ynKind n = YScalar \<and> ynNull n"

text \<open>The keys and values of a mapping, as yaml.v3 lays them out.\<close>

fun entries :: "ynode list \<Rightarrow> (ynode \<times> ynode) list" where
  "entries (k # v # rest) = (k, v) # entries rest"
| "entries _ = []"

definition credentialKeys :: "bytes list" where
  "credentialKeys = [''credential_source'', ''token_env'', ''grant_type'', ''client_auth'', ''issuer'', ''token_endpoint'',
     ''client_id_env'', ''client_secret_env'', ''scope'', ''audience'']"

definition backendKeys :: "bytes list" where
  "backendKeys = [''kind'', ''url'', ''region'', ''mode'', ''retention'', ''credential'']"

definition integrityKeys :: "bytes list" where
  "integrityKeys = [''sink'', ''anchor'', ''anchor_runs'', ''duplicate'', ''sink_backend'', ''anchor_backend'']"

fun firstFault :: "('a \<Rightarrow> posture_error option) \<Rightarrow> 'a list \<Rightarrow> posture_error option" where
  "firstFault f [] = None"
| "firstFault f (x # xs) = (case f x of Some e \<Rightarrow> Some e | None \<Rightarrow> firstFault f xs)"

definition keyFault :: "bytes \<Rightarrow> bytes list \<Rightarrow> (bytes \<Rightarrow> ynode \<Rightarrow> posture_error option) \<Rightarrow> ynode \<times> ynode \<Rightarrow> posture_error option" where
  "keyFault place keys inner e =
     (if ynKind (fst e) \<noteq> YScalar then Some (KeyNotScalar place (ynLine (fst e)))
      else if ynValue (fst e) \<notin> set keys then Some (UnknownKey place (ynValue (fst e)) (ynLine (fst e)))
      else inner (ynValue (fst e)) (snd e))"

definition checkCredentialNode :: "ynode \<Rightarrow> bytes \<Rightarrow> posture_error option" where
  "checkCredentialNode n place =
     (if ynKind n \<noteq> YMapping then Some (MustBe place ''mapping'' (ynLine n))
      else firstFault (keyFault place credentialKeys (\<lambda>_ _. None)) (entries (ynContent n)))"

definition checkBackendNode :: "ynode \<Rightarrow> bytes \<Rightarrow> posture_error option" where
  "checkBackendNode n place =
     (if ynKind n \<noteq> YMapping then Some (MustBe place ''mapping'' (ynLine n))
      else firstFault (keyFault place backendKeys
             (\<lambda>key val. if key = ''credential'' \<and> \<not> isNull val then checkCredentialNode val (place @ ''.credential'') else None))
             (entries (ynContent n)))"

fun duplicateFault :: "nat \<Rightarrow> ynode list \<Rightarrow> posture_error option" where
  "duplicateFault k [] = None"
| "duplicateFault k (n # ns) =
     (case checkBackendNode n (''duplicate['' @ showDigits k @ '']'') of Some e \<Rightarrow> Some e | None \<Rightarrow> duplicateFault (k + 1) ns)"

definition valueFault :: "bytes \<Rightarrow> ynode \<Rightarrow> posture_error option" where
  "valueFault key val =
     (if key = ''duplicate'' then
        (if isNull val then None
         else if ynKind val \<noteq> YSequence then Some (MustBe key ''list'' (ynLine val)) else duplicateFault 0 (ynContent val))
      else if key = ''sink_backend'' \<or> key = ''anchor_backend'' then
        (if isNull val then None else checkBackendNode val key)
      else None)"

definition Integrity_UnmarshalYAML :: "(ynode \<Rightarrow> bytes + Integrity) \<Rightarrow> ynode \<Rightarrow> posture_error + Integrity" where
  "Integrity_UnmarshalYAML decode n =
     (if ynKind n \<noteq> YMapping then Inl (MustBe ''integrity.yaml'' ''mapping'' (ynLine n))
      else case firstFault (keyFault ''integrity.yaml'' integrityKeys valueFault) (entries (ynContent n)) of
             Some e \<Rightarrow> Inl e
           | None \<Rightarrow> (case decode n of Inl m \<Rightarrow> Inl (YamlFault m) | Inr i \<Rightarrow> Inr i))"

datatype ydoc = NoDocument | DocumentFault bytes | Document ynode

text \<open>The one default: a transparency log unless the file says otherwise.\<close>

definition withKind :: "Integrity \<Rightarrow> Integrity" where
  "withKind i = (if inAnchor i = ''tlog'' \<and> ibKind (inAnchorBackend i) = ''''
     then i\<lparr>inAnchorBackend := (inAnchorBackend i)\<lparr>ibKind := ''transparency-log''\<rparr>\<rparr> else i)"

text \<open>A null document is the floor: yaml.v3 does not call an Unmarshaler for it.\<close>

definition ParseIntegrity ::
  "(bytes \<Rightarrow> parsedURL option) \<Rightarrow> (ynode \<Rightarrow> bytes + Integrity) \<Rightarrow> ydoc \<Rightarrow> bool \<Rightarrow> posture_error + Integrity" where
  "ParseIntegrity parse decode doc another =
     (case doc of
        NoDocument \<Rightarrow> Inr floorPosture
      | DocumentFault m \<Rightarrow> Inl (YamlFault m)
      | Document n \<Rightarrow>
          if another then Inl ManyDocuments
          else (case (if isNull n then Inr floorPosture else Integrity_UnmarshalYAML decode n) of
                  Inl e \<Rightarrow> Inl e
                | Inr i \<Rightarrow>
                    (case Integrity_Validate parse i of
                       Some e \<Rightarrow> Inl e
                     | None \<Rightarrow>
                         Inr (withKind i))))"

section \<open>What is accepted\<close>

lemma retention_constants: "RetentionDay = 86400000000000" "RetentionYear = 31536000000000000" "RetentionMin = 86400000000000"
  "RetentionMax = 3153600000000000000"
  by (simp_all add: RetentionDay_def RetentionYear_def RetentionMin_def RetentionMax_def)

definition retentionUnit :: "char \<Rightarrow> int" where
  "retentionUnit u = (if u = CHR ''y'' then RetentionYear else RetentionDay)"

lemma retentionUnit_pos: "RetentionDay \<le> retentionUnit u"
  by (simp add: retentionUnit_def retention_constants)

lemma product_fits:
  assumes "n \<le> RetentionMax div retentionUnit u"
  shows "n * retentionUnit u \<le> RetentionMax"
proof -
  have u: "0 < retentionUnit u" using retentionUnit_pos [of u] by (simp add: retention_constants)
  have "n * retentionUnit u \<le> RetentionMax div retentionUnit u * retentionUnit u" using assms u by (intro mult_right_mono) auto
  also have "\<dots> \<le> RetentionMax" using u pos_mod_sign [of "retentionUnit u" RetentionMax] by (simp add: minus_mod_eq_div_mult [symmetric])
  finally show ?thesis .
qed

lemma product_over: "n > RetentionMax div retentionUnit u \<Longrightarrow> n * retentionUnit u > RetentionMax"
proof -
  assume n: "n > RetentionMax div retentionUnit u"
  have u: "0 < retentionUnit u" using retentionUnit_pos [of u] by (simp add: retention_constants)
  show ?thesis
  proof (rule ccontr)
    assume "\<not> n * retentionUnit u > RetentionMax"
    then have "n * retentionUnit u div retentionUnit u \<le> RetentionMax div retentionUnit u" using u by (intro zdiv_mono1) auto
    with n u show False by simp
  qed
qed

lemma Atoi_positive: "ds \<noteq> [] \<Longrightarrow> list_all isDigit ds \<Longrightarrow> hd ds \<noteq> CHR ''0'' \<Longrightarrow> 1 \<le> Atoi ds"
proof -
  assume d: "ds \<noteq> []" "list_all isDigit ds" "hd ds \<noteq> CHR ''0''"
  have grow: "n \<le> foldl (\<lambda>n c. 10 * n + digitValue c) n cs" for n cs
  proof (induction cs arbitrary: n)
    case (Cons c cs)
    have "n \<le> 10 * n + digitValue c" by simp
    also have "\<dots> \<le> foldl (\<lambda>n c. 10 * n + digitValue c) (10 * n + digitValue c) cs" by (rule Cons.IH)
    finally show ?case by simp
  qed simp
  obtain c cs where c: "ds = c # cs" using d(1) by (cases ds) auto
  have "1 \<le> digitValue c" using d(2,3) by (auto simp: c isDigit_def digitValue_def)
  with grow [of "digitValue c" cs] show ?thesis by (simp add: c Atoi_def)
qed

lemma retentionForm_Some:
  "retentionForm s = Some (ds, u) \<longleftrightarrow>
     s = ds @ [u] \<and> ds \<noteq> [] \<and> list_all isDigit ds \<and> hd ds \<noteq> CHR ''0'' \<and> (u = CHR ''d'' \<or> u = CHR ''y'')"
  by (auto simp: retentionForm_def Let_def) (metis append_butlast_last_id)+

lemma ParseRetention_accepts:
  "ParseRetention s = Inr d \<longleftrightarrow>
     (\<exists>ds u. retentionForm s = Some (ds, u) \<and> d = int (Atoi ds) * retentionUnit u \<and> d \<le> RetentionMax)"
proof (cases "retentionForm s")
  case None
  then show ?thesis by (simp add: ParseRetention_def)
next
  case (Some p)
  obtain ds u where p: "retentionForm s = Some (ds, u)" using Some by (cases p) auto
  have s: "s \<noteq> []" using p by (auto simp: retentionForm_Some)
  let ?n = "int (Atoi ds)"
  have n: "1 \<le> ?n" using p Atoi_positive [of ds] by (auto simp: retentionForm_Some)
  have u: "RetentionDay \<le> retentionUnit u" by (rule retentionUnit_pos)
  have lo: "RetentionDay \<le> ?n * retentionUnit u"
    using mult_mono [of 1 ?n RetentionDay "retentionUnit u"] n u by (simp add: retention_constants)
  have big: "?n * retentionUnit u > RetentionMax" if "\<not> ?n < 2 ^ 63"
  proof -
    have "(2 ^ 63 :: int) * RetentionDay \<le> ?n * retentionUnit u" using that u by (intro mult_mono) (auto simp: retention_constants)
    then show ?thesis by (simp add: retention_constants)
  qed
  have fits: "goInt (?n * retentionUnit u) = ?n * retentionUnit u" if "?n * retentionUnit u \<le> RetentionMax"
    using that lo by (intro goInt_id) (simp_all add: retention_constants)
  show ?thesis
    using s p big product_fits [of ?n u] product_over [of u ?n] lo fits
    by (auto simp: ParseRetention_def Let_def parseInt64_def retentionUnit_def [symmetric] retention_constants(3) retention_constants(1) [symmetric])
qed

text \<open>The postures the program implements: the floor, a compliance-locked sink, a transparency log, and no other.\<close>

definition honouredSink :: "(bytes \<Rightarrow> parsedURL option) \<Rightarrow> Integrity \<Rightarrow> bool" where
  "honouredSink parse i \<longleftrightarrow>
     (inSink i \<in> {'''', ''local''} \<and> inSinkBackend i = noBackend)
     \<or> (inSink i = ''worm'' \<and> ibKind (inSinkBackend i) = ''s3-object-lock'' \<and> sinkURLOK parse (ibURL (inSinkBackend i))
        \<and> ibMode (inSinkBackend i) = ''compliance''
        \<and> (\<exists>d. ParseRetention (ibRetention (inSinkBackend i)) = Inr d \<and> RetentionMin \<le> d \<and> d \<le> RetentionMax)
        \<and> bcClientAuth (ibCredential (inSinkBackend i)) = ''sigv4'' \<and> bcGrantType (ibCredential (inSinkBackend i)) = ''''
        \<and> bcClientIDEnv (ibCredential (inSinkBackend i)) \<noteq> '''' \<and> bcClientSecretEnv (ibCredential (inSinkBackend i)) \<noteq> '''')"

definition honouredAnchor :: "(bytes \<Rightarrow> parsedURL option) \<Rightarrow> Integrity \<Rightarrow> bool" where
  "honouredAnchor parse i \<longleftrightarrow>
     (inAnchor i \<in> {'''', ''none''} \<and> inAnchorBackend i = noBackend \<and> inAnchorRuns i \<in> {'''', ''none''})
     \<or> (inAnchor i = ''tlog'' \<and> ibKind (inAnchorBackend i) = ''transparency-log'' \<and> isBackendURL parse (ibURL (inAnchorBackend i))
        \<and> ibMode (inAnchorBackend i) = '''' \<and> ibRetention (inAnchorBackend i) = '''' \<and> ibRegion (inAnchorBackend i) = ''''
        \<and> inAnchorRuns i \<in> {'''', ''none'', ''on-demand''})"

lemma retention_bounds: "ParseRetention s = Inr d \<Longrightarrow> RetentionMin \<le> d \<and> d \<le> RetentionMax"
proof -
  assume p: "ParseRetention s = Inr d"
  then have "d \<le> RetentionMax" by (auto simp: ParseRetention_accepts)
  moreover have "RetentionMin \<le> d" using p by (auto simp: ParseRetention_def Let_def split: if_splits option.splits prod.splits)
  ultimately show ?thesis by simp
qed

lemma sinkURL_split: "isBackendURL parse u \<Longrightarrow> \<not> (case parse u of None \<Rightarrow> True | Some p \<Rightarrow> trimSlashes (puPath p) = []) \<Longrightarrow> sinkURLOK parse u"
  by (auto simp: isBackendURL_def sinkURLOK_def split: option.splits)

lemma validateSinkBackend_ok:
  assumes "validateSinkBackend parse b = None"
  shows "ibKind b = ''s3-object-lock'' \<and> sinkURLOK parse (ibURL b) \<and> ibMode b = ''compliance'' \<and> (\<exists>d. ParseRetention (ibRetention b) = Inr d)
    \<and> bcClientAuth (ibCredential b) = ''sigv4'' \<and> bcGrantType (ibCredential b) = ''''
    \<and> bcClientIDEnv (ibCredential b) \<noteq> '''' \<and> bcClientSecretEnv (ibCredential b) \<noteq> ''''"
  using assms sinkURL_split [of parse "ibURL b"]
  by (simp add: validateSinkBackend_def Let_def split: if_splits sum.splits)

lemma validateAnchorBackend_ok:
  assumes "validateAnchorBackend parse b = None"
  shows "ibKind b \<in> {'''', ''transparency-log''} \<and> isBackendURL parse (ibURL b) \<and> ibMode b = '''' \<and> ibRetention b = '''' \<and> ibRegion b = ''''"
  using assms by (simp add: validateAnchorBackend_def Let_def split: if_splits)

lemma Validate_parts:
  "Integrity_Validate parse i = None \<longleftrightarrow> sinkFault parse i = None \<and> anchorFault parse i = None \<and> runsFault i = None \<and> inDuplicate i = []
     \<and> (inSink i = ''worm'' \<or> inSinkBackend i = noBackend) \<and> (inAnchor i = ''tlog'' \<or> inAnchorBackend i = noBackend)"
  by (auto simp: Integrity_Validate_def IsSet_def split: option.splits)

lemma Validate_sink: "Integrity_Validate parse i = None \<Longrightarrow> honouredSink parse i"
  using validateSinkBackend_ok [of parse "inSinkBackend i"] retention_bounds
  unfolding Validate_parts honouredSink_def sinkFault_def by (auto split: if_splits)

lemma withKind_same [simp]:
  "inSink (withKind i) = inSink i" "inSinkBackend (withKind i) = inSinkBackend i" "inAnchor (withKind i) = inAnchor i"
  "inAnchorRuns (withKind i) = inAnchorRuns i" "inDuplicate (withKind i) = inDuplicate i"
  by (simp_all add: withKind_def)

lemma Validate_anchor: "Integrity_Validate parse i = None \<Longrightarrow> honouredAnchor parse (withKind i)"
  using validateAnchorBackend_ok [of parse "inAnchorBackend i"]
  unfolding Validate_parts anchorFault_def runsFault_def honouredAnchor_def withKind_same
  by (auto simp: withKind_def split: if_splits)

lemma firstFault_None: "firstFault f xs = None \<longleftrightarrow> (\<forall>x \<in> set xs. f x = None)"
  by (induction xs) (auto split: option.splits)

definition knownKeys :: "bytes list \<Rightarrow> ynode \<Rightarrow> bool" where
  "knownKeys keys n \<longleftrightarrow> ynKind n = YMapping \<and> (\<forall>(k, v) \<in> set (entries (ynContent n)). ynKind k = YScalar \<and> ynValue k \<in> set keys)"

definition closedBackend :: "ynode \<Rightarrow> bool" where
  "closedBackend n \<longleftrightarrow> knownKeys backendKeys n
     \<and> (\<forall>(k, v) \<in> set (entries (ynContent n)). ynValue k = ''credential'' \<longrightarrow> isNull v \<or> knownKeys credentialKeys v)"

definition closedDocument :: "ynode \<Rightarrow> bool" where
  "closedDocument n \<longleftrightarrow> knownKeys integrityKeys n
     \<and> (\<forall>(k, v) \<in> set (entries (ynContent n)).
          (ynValue k = ''sink_backend'' \<or> ynValue k = ''anchor_backend'' \<longrightarrow> isNull v \<or> closedBackend v)
          \<and> (ynValue k = ''duplicate'' \<longrightarrow> isNull v \<or> (ynKind v = YSequence \<and> (\<forall>b \<in> set (ynContent v). closedBackend b))))"

lemma keyFault_None:
  "keyFault place keys inner e = None \<longleftrightarrow> ynKind (fst e) = YScalar \<and> ynValue (fst e) \<in> set keys \<and> inner (ynValue (fst e)) (snd e) = None"
  by (simp add: keyFault_def)

lemma checkCredentialNode_ok: "checkCredentialNode n place = None \<Longrightarrow> knownKeys credentialKeys n"
  by (auto simp: checkCredentialNode_def knownKeys_def firstFault_None keyFault_None split: if_splits)

lemma checkBackendNode_ok:
  assumes "checkBackendNode n place = None"
  shows "closedBackend n"
proof -
  have m: "ynKind n = YMapping" using assms by (simp add: checkBackendNode_def split: if_splits)
  have k: "ynKind k = YScalar \<and> ynValue k \<in> set backendKeys
      \<and> (ynValue k = ''credential'' \<and> \<not> isNull v \<longrightarrow> checkCredentialNode v (place @ ''.credential'') = None)"
    if "(k, v) \<in> set (entries (ynContent n))" for k v
  proof -
    from assms m have "\<forall>e \<in> set (entries (ynContent n)). keyFault place backendKeys
        (\<lambda>key val. if key = ''credential'' \<and> \<not> isNull val then checkCredentialNode val (place @ ''.credential'') else None) e = None"
      by (simp add: checkBackendNode_def firstFault_None)
    from bspec [OF this that] show ?thesis unfolding keyFault_None by (auto split: if_splits)
  qed
  then show ?thesis unfolding closedBackend_def knownKeys_def [of backendKeys] using m checkCredentialNode_ok by blast
qed

lemma duplicateFault_ok: "duplicateFault k ns = None \<Longrightarrow> \<forall>b \<in> set ns. closedBackend b"
  by (induction ns arbitrary: k) (auto split: option.splits dest: checkBackendNode_ok)

lemma valueFault_ok:
  "valueFault key v = None \<Longrightarrow>
     (key = ''sink_backend'' \<or> key = ''anchor_backend'' \<longrightarrow> isNull v \<or> closedBackend v)
     \<and> (key = ''duplicate'' \<longrightarrow> isNull v \<or> (ynKind v = YSequence \<and> (\<forall>b \<in> set (ynContent v). closedBackend b)))"
  by (auto simp: valueFault_def split: if_splits dest: checkBackendNode_ok duplicateFault_ok)

lemma Unmarshal_ok:
  assumes "Integrity_UnmarshalYAML decode n = Inr i"
  shows "closedDocument n \<and> decode n = Inr i"
proof -
  from assms have m: "ynKind n = YMapping" "firstFault (keyFault ''integrity.yaml'' integrityKeys valueFault) (entries (ynContent n)) = None"
    and d: "decode n = Inr i"
    by (auto simp: Integrity_UnmarshalYAML_def split: if_splits option.splits sum.splits)
  have k: "ynKind k = YScalar \<and> ynValue k \<in> set integrityKeys \<and> valueFault (ynValue k) v = None" if "(k, v) \<in> set (entries (ynContent n))" for k v
    using m(2) that unfolding firstFault_None keyFault_None by fastforce
  then show ?thesis unfolding closedDocument_def knownKeys_def using m(1) d valueFault_ok by blast
qed

section \<open>Properties\<close>

text \<open>
  C35: an accepted posture is one the program honours. Whatever the file and whatever yaml.v3 reads of it,
  a posture that \<open>ParseIntegrity\<close> returns is the floor or a compliance-locked write-once sink whose URL the
  seal's permit accepts, with a retention of at least a day and at most a hundred years and a key pair named;
  and it has no anchor or a transparency log with an absolute URL, run anchoring only with the log,
  and no duplicates. No reserved or unknown value passes, and no backend that nothing consumes.
\<close>

theorem accepted_posture_is_honoured:
  assumes "ParseIntegrity parse decode doc another = Inr i"
  shows "honouredSink parse i \<and> honouredAnchor parse i \<and> inDuplicate i = []"
proof -
  have floor: "Integrity_Validate parse floorPosture = None" "withKind floorPosture = floorPosture"
    by (simp_all add: Validate_parts floorPosture_def sinkFault_def anchorFault_def runsFault_def withKind_def)
  obtain j where j: "Integrity_Validate parse j = None" "i = withKind j"
    using assms floor by (auto simp: ParseIntegrity_def split: ydoc.splits if_splits sum.splits option.splits)
  with Validate_sink [OF j(1)] Validate_anchor [OF j(1)] show ?thesis by (simp add: honouredSink_def Validate_parts)
qed

text \<open>
  C36: nothing in the file is dropped. When \<open>ParseIntegrity\<close> accepts a document that is not null, it is the only
  one of the file, every key of it, of every backend and of every credential is a plain scalar among the
  allowed ones, and the posture is what yaml.v3 decodes from it, up to the one default.
\<close>

theorem no_posture_key_is_dropped:
  assumes "ParseIntegrity parse decode (Document n) another = Inr i" "\<not> isNull n"
  shows "\<not> another \<and> closedDocument n \<and> (\<exists>j. decode n = Inr j \<and> i = withKind j)"
  using assms Unmarshal_ok [of decode n]
  by (auto simp: ParseIntegrity_def split: if_splits sum.splits option.splits)

text \<open>
  A retention is read exactly. \<open>ParseRetention\<close> accepts a text exactly when it is digits without a
  leading zero and a unit whose product is at most a hundred years, and returns that product: a number
  too large for 64 bits, or one whose product would wrap, is refused, never wrapped into a short retention.
\<close>

theorem retention_is_exact:
  "ParseRetention s = Inr d \<longleftrightarrow>
     (\<exists>ds u. s = ds @ [u] \<and> ds \<noteq> [] \<and> list_all isDigit ds \<and> hd ds \<noteq> CHR ''0'' \<and> (u = CHR ''d'' \<or> u = CHR ''y'')
        \<and> d = int (Atoi ds) * retentionUnit u \<and> d \<le> RetentionMax)"
  unfolding ParseRetention_accepts retentionForm_Some by blast

section \<open>A concrete posture\<close>

definition demoURL :: parsedURL where
  "demoURL = \<lparr>puScheme = ''https'', puHost = ''h'', puUser = False, puRawQuery = '''', puForceQuery = False, puFragment = '''', puPath = ''/b''\<rparr>"

definition demoPosture :: Integrity where
  "demoPosture = floorPosture\<lparr>inSink := ''worm'',
     inSinkBackend := \<lparr>ibKind = ''s3-object-lock'', ibURL = ''u'', ibRegion = '''', ibMode = ''compliance'', ibRetention = ''7y'',
       ibCredential = noCredential\<lparr>bcClientAuth := ''sigv4'', bcClientIDEnv := ''ID'', bcClientSecretEnv := ''SECRET''\<rparr>\<rparr>\<rparr>"

definition demoDocument :: ynode where
  "demoDocument = YNode YMapping '''' False 1 [YNode YScalar ''sink'' False 1 [], YNode YScalar ''worm'' False 1 [],
     YNode YScalar ''sink_backend'' False 2 [], YNode YMapping '''' False 3 [YNode YScalar ''mode'' False 3 [], YNode YScalar ''compliance'' False 3 []]]"

lemma demo_parse: "ParseIntegrity (\<lambda>_. Some demoURL) (\<lambda>_. Inr demoPosture) (Document demoDocument) False = Inr demoPosture"
  by code_simp

theorem accepted_posture_is_honoured_witness: "honouredSink (\<lambda>_. Some demoURL) demoPosture \<and> inDuplicate demoPosture = []"
  using accepted_posture_is_honoured [OF demo_parse] by blast

theorem no_posture_key_is_dropped_witness: "closedDocument demoDocument"
proof -
  have "\<not> isNull demoDocument" by (simp add: isNull_def demoDocument_def)
  with no_posture_key_is_dropped [OF demo_parse] show ?thesis by blast
qed

end
