(* ===== verification/Config_Signing.thy ===== *)
theory Config_Signing
  imports Config_Install Config_Integrity Control_Accept
begin

text \<open>
  Package \<^verbatim>\<open>internal/config\<close>, what an operator signs: the signed statement about an install and its file
  (\<^verbatim>\<open>signature.go\<close>, \<^verbatim>\<open>signaturefile.go\<close>), the key files (\<^verbatim>\<open>signingkey.go\<close>) and the staleness floor of an
  execution point (\<^verbatim>\<open>verifyfloor.go\<close>).

  What \<^verbatim>\<open>crypto/ed25519\<close>, \<^verbatim>\<open>crypto/sha256\<close>, \<^verbatim>\<open>crypto/x509\<close>, \<^verbatim>\<open>encoding/base64\<close>, \<^verbatim>\<open>encoding/pem\<close> and the
  RFC 3339 rendering of an instant compute are arguments. An instant carries whether its zone is UTC. An
  error keeps the rule that failed and the values it names, not its fixed text.
\<close>

section \<open>Results\<close>

definition checked :: "'e + 'a \<Rightarrow> ('a \<Rightarrow> 'e + 'b) \<Rightarrow> 'e + 'b" where
  "checked x f = (case x of Inl e \<Rightarrow> Inl e | Inr a \<Rightarrow> f a)"

definition demand :: "bool \<Rightarrow> 'e \<Rightarrow> 'e + unit" where
  "demand ok e = (if ok then Inr () else Inl e)"

lemma checked_Inr [simp]: "checked x f = Inr y \<longleftrightarrow> (\<exists>a. x = Inr a \<and> f a = Inr y)"
  by (cases x) (simp_all add: checked_def)

lemma demand_Inr [simp]: "demand ok e = Inr u \<longleftrightarrow> ok"
  by (simp add: demand_def)

section \<open>The shortest decimal\<close>

declare showDigits.simps [simp del]

lemma showDigits_shortest: "0 < n \<Longrightarrow> hd (showDigits n) \<noteq> CHR ''0''"
proof (induction n rule: showDigits.induct)
  case (1 n)
  show ?case
  proof (cases "n < 10")
    case True
    with "1.prems" show ?thesis by (subst showDigits.simps) (auto simp: nth_Cons' less_Suc_eq numeral_eq_Suc)
  next
    case False
    then have "showDigits n = showDigits (n div 10) @ [''0123456789'' ! (n mod 10)]" by (subst showDigits.simps) simp
    moreover have "showDigits (n div 10) \<noteq> []" by (subst showDigits.simps) auto
    ultimately show ?thesis using 1 False by (simp add: div_greater_zero_iff)
  qed
qed

lemma showDigits_not_Nil [simp]: "showDigits n \<noteq> []"
  by (subst showDigits.simps) auto

lemma leading_digit: "list_all isDigit (c # cs) \<Longrightarrow> c \<noteq> CHR ''0'' \<Longrightarrow> 10 ^ length cs \<le> Atoi (c # cs)"
proof (induction cs rule: rev_induct)
  case Nil
  then show ?case using Atoi_positive [of "[c]"] by simp
next
  case (snoc e cs)
  then have "10 ^ length cs \<le> Atoi (c # cs)" by simp
  then show ?case using Atoi_snoc [of "c # cs" e] by simp
qed

lemma shortest_length:
  assumes "ds \<noteq> []" "list_all isDigit ds" "hd ds \<noteq> CHR ''0''"
    and "es \<noteq> []" "list_all isDigit es" "hd es \<noteq> CHR ''0''" "Atoi ds = Atoi es"
  shows "length ds \<le> length es"
proof (rule ccontr)
  assume "\<not> length ds \<le> length es"
  then have "10 ^ length es \<le> (10 :: nat) ^ (length ds - 1)" by (intro power_increasing) auto
  also have "\<dots> \<le> Atoi ds" using leading_digit [of "hd ds" "tl ds"] assms(1-3) by simp
  finally show False using Atoi_bound [OF assms(5)] assms(7) by simp
qed

lemma showDigits_Atoi:
  assumes "ds \<noteq> []" "list_all isDigit ds" "hd ds \<noteq> CHR ''0''"
  shows "showDigits (Atoi ds) = ds"
proof (rule Atoi_inj)
  let ?es = "showDigits (Atoi ds)"
  have "0 < Atoi ds" using Atoi_positive [OF assms] by simp
  note es = showDigits_not_Nil [of "Atoi ds"] showDigits_digits [of "Atoi ds"] showDigits_shortest [OF this]
  show "length ?es = length ds"
    using shortest_length [OF assms es] shortest_length [OF es assms] by (simp add: Atoi_showDigits)
qed (use assms(2) in \<open>simp_all add: showDigits_digits Atoi_showDigits\<close>)

section \<open>The signed statement\<close>

record signer =
  edSha :: "bytes \<Rightarrow> bytes"
  edEncode64 :: "bytes \<Rightarrow> bytes"
  edDecode64 :: "bytes \<Rightarrow> bytes option"
  edSign :: "bytes \<Rightarrow> bytes \<Rightarrow> bytes"
  edVerify :: "bytes \<Rightarrow> bytes \<Rightarrow> bytes \<Rightarrow> bool"
  edPublic :: "bytes \<Rightarrow> bytes"
  edTime :: "int \<Rightarrow> bytes"

datatype zonedTime = UTC int | Zoned int

datatype signing_error =
    PayloadHash bytes
  | PayloadLogID bytes
  | PayloadVersion int
  | PayloadZone
  | PayloadKeyID bytes
  | CarriageReturn
  | UnsupportedFormat bytes
  | NoTrailingNewline
  | LineCount nat
  | WantField nat bytes
  | MalformedField nat
  | OutOfRange nat
  | UnwritableHash bytes
  | FileFault
  | ManyLines
  | FieldCount nat
  | BadFloorLogID
  | BadFloorVersion
  | NoPEMBlock
  | PEMType bytes
  | TrailingData
  | KeyUnparsed
  | KeyNotEd25519 bytes

definition SignatureFormatV1 :: bytes where
  "SignatureFormatV1 = ''agenthof-config-signature/v1''"

definition logIDRE :: "bytes \<Rightarrow> bool" where
  "logIDRE s = lower_hex_string 32 s"

definition keyIDRE :: "bytes \<Rightarrow> bool" where
  "keyIDRE s = lower_hex_string 64 s"

definition KeyID :: "signer \<Rightarrow> bytes \<Rightarrow> bytes" where
  "KeyID S pub = hexBytes (edSha S pub)"

definition textLine :: "bytes \<Rightarrow> bytes" where
  "textLine s = s @ [newline]"

definition payloadText :: "bytes \<Rightarrow> bytes \<Rightarrow> int \<Rightarrow> bytes \<Rightarrow> bytes \<Rightarrow> bytes" where
  "payloadText hash logID version ts keyID =
     textLine SignatureFormatV1 @ textLine (''hash: '' @ hash) @ textLine (''log_id: '' @ logID)
     @ textLine (''version: '' @ showInt version) @ textLine (''installed_at: '' @ ts) @ textLine (''key_id: '' @ keyID)"

definition SignaturePayload :: "signer \<Rightarrow> bytes \<Rightarrow> bytes \<Rightarrow> int \<Rightarrow> zonedTime \<Rightarrow> bytes \<Rightarrow> signing_error + bytes" where
  "SignaturePayload S hash logID version ts keyID =
     (if \<not> installedHashOK hash then Inl (PayloadHash hash)
      else if \<not> logIDRE logID then Inl (PayloadLogID logID)
      else if version < 1 then Inl (PayloadVersion version)
      else (case ts of
              Zoned _ \<Rightarrow> Inl PayloadZone
            | UTC t \<Rightarrow>
                if \<not> keyIDRE keyID then Inl (PayloadKeyID keyID)
                else Inr (payloadText hash logID version (edTime S t) keyID)))"

definition Sign :: "signer \<Rightarrow> bytes \<Rightarrow> bytes \<Rightarrow> bytes" where
  "Sign S priv payload = edEncode64 S (edSign S priv payload)"

definition SignatureSize :: nat where
  "SignatureSize = 64"

definition Verify :: "signer \<Rightarrow> bytes \<Rightarrow> bytes \<Rightarrow> bytes \<Rightarrow> bool" where
  "Verify S pub payload sig =
     (case edDecode64 S sig of
        None \<Rightarrow> False
      | Some r \<Rightarrow> if length r \<noteq> SignatureSize then False else edVerify S pub payload r)"

section \<open>The signature file\<close>

definition SignaturePath :: "bytes \<Rightarrow> bytes" where
  "SignaturePath hash = snapshotName hash @ ''.sig''"

record SignatureFile =
  sfPayload :: bytes
  sfHash :: bytes
  sfLogID :: bytes
  sfVersion :: int
  sfInstalledAt :: bytes
  sfKeyID :: bytes
  sfSig :: bytes

definition versionRE :: "bytes \<Rightarrow> bool" where
  "versionRE v \<longleftrightarrow> v \<noteq> [] \<and> list_all isDigit v \<and> hd v \<noteq> CHR ''0''"

definition SignatureFileBytes :: "bytes \<Rightarrow> bytes \<Rightarrow> bytes" where
  "SignatureFileBytes payload sig = payload @ ''signature: '' @ sig @ [newline]"

text \<open>The value of line \<open>n\<close>, counted from 0; an error names it counted from 1.\<close>

definition fieldOf :: "bytes list \<Rightarrow> nat \<Rightarrow> bytes \<Rightarrow> signing_error + bytes" where
  "fieldOf ls n name =
     (let p = name @ '': ''
      in if has_prefix (ls ! n) p then Inr (drop (length p) (ls ! n)) else Inl (WantField (n + 1) name))"

definition clip :: "bytes \<Rightarrow> bytes" where
  "clip b = take 64 b"

definition carriageReturn :: char where
  "carriageReturn = CHR 0x0D"

definition signature64 :: "signer \<Rightarrow> bytes \<Rightarrow> bool" where
  "signature64 S sig = (case edDecode64 S sig of None \<Rightarrow> False | Some r \<Rightarrow> length r = SignatureSize)"

text \<open>\<open>strconv.Atoi\<close> of digits, on a 64-bit machine.\<close>

definition decimalInt :: "bytes \<Rightarrow> int option" where
  "decimalInt v = parseInt64 v"

definition signatureFields :: "signer \<Rightarrow> bytes list \<Rightarrow> signing_error + SignatureFile" where
  "signatureFields S ls =
     checked (fieldOf ls 1 ''hash'') (\<lambda>hash.
     checked (demand (installedHashOK hash) (MalformedField 2)) (\<lambda>_.
     checked (fieldOf ls 2 ''log_id'') (\<lambda>logID.
     checked (demand (logIDRE logID) (MalformedField 3)) (\<lambda>_.
     checked (fieldOf ls 3 ''version'') (\<lambda>v.
     checked (demand (versionRE v) (MalformedField 4)) (\<lambda>_.
     checked (case decimalInt v of None \<Rightarrow> Inl (OutOfRange 4) | Some n \<Rightarrow> Inr n) (\<lambda>version.
     checked (fieldOf ls 4 ''installed_at'') (\<lambda>ts.
     checked (demand (ts \<noteq> [] \<and> CHR '' '' \<notin> set ts \<and> CHR 0x09 \<notin> set ts) (MalformedField 5)) (\<lambda>_.
     checked (fieldOf ls 5 ''key_id'') (\<lambda>keyID.
     checked (demand (keyIDRE keyID) (MalformedField 6)) (\<lambda>_.
     checked (fieldOf ls 6 ''signature'') (\<lambda>sig.
     checked (demand (signature64 S sig) (MalformedField 7)) (\<lambda>_.
     Inr \<lparr>sfPayload = textLine (joinWith newline (take 6 ls)), sfHash = hash, sfLogID = logID, sfVersion = version,
          sfInstalledAt = ts, sfKeyID = keyID, sfSig = sig\<rparr>)))))))))))))"

definition ParseSignatureFile :: "signer \<Rightarrow> bytes \<Rightarrow> signing_error + SignatureFile" where
  "ParseSignatureFile S data =
     (if carriageReturn \<in> set data then Inl CarriageReturn
      else let first = takeWhile (\<lambda>c. c \<noteq> newline) data
           in if first \<noteq> SignatureFormatV1 then Inl (UnsupportedFormat (clip first))
              else if data = [] \<or> last data \<noteq> newline then Inl NoTrailingNewline
              else let ls = splitOn newline (butlast data)
                   in if length ls \<noteq> 7 then Inl (LineCount (length ls)) else signatureFields S ls)"

text \<open>The file of the store is replaced as a whole, or, when any step fails, left as it was.\<close>

definition WriteSignatureFile ::
  "bool \<Rightarrow> (bytes \<times> node) list \<Rightarrow> bytes \<Rightarrow> bytes \<Rightarrow> bytes \<Rightarrow> (bytes \<times> node) list \<times> signing_error option" where
  "WriteSignatureFile fails sigs hash payload sig =
     (if \<not> installedHashOK hash then (sigs, Some (UnwritableHash hash))
      else if fails then (sigs, Some FileFault)
      else ((SignaturePath hash, File (SignatureFileBytes payload sig)) # sigs, None))"

section \<open>The key files\<close>

datatype anyKey = Ed25519Key bytes | OtherKey bytes

record keyFormats =
  kfDecodePEM :: "bytes \<Rightarrow> (bytes \<times> bytes \<times> bytes) option"
  kfEncodePEM :: "bytes \<Rightarrow> bytes \<Rightarrow> bytes"
  kfParsePKCS8 :: "bytes \<Rightarrow> anyKey option"
  kfMarshalPKCS8 :: "bytes \<Rightarrow> bytes option"
  kfParsePKIX :: "bytes \<Rightarrow> anyKey option"
  kfMarshalPKIX :: "bytes \<Rightarrow> bytes option"

definition pemTypeSigningKey :: bytes where
  "pemTypeSigningKey = ''PRIVATE KEY''"

definition pemTypeSigningPub :: bytes where
  "pemTypeSigningPub = ''PUBLIC KEY''"

definition onePEMBlock :: "keyFormats \<Rightarrow> bytes \<Rightarrow> bytes \<Rightarrow> signing_error + bytes" where
  "onePEMBlock F data wantType =
     (case kfDecodePEM F data of
        None \<Rightarrow> Inl NoPEMBlock
      | Some (ty, der, rest) \<Rightarrow>
          if ty \<noteq> wantType then Inl (PEMType ty)
          else if trimSpace rest \<noteq> [] then Inl TrailingData
          else Inr der)"

definition onlyEd25519 :: "anyKey option \<Rightarrow> signing_error + bytes" where
  "onlyEd25519 k =
     (case k of None \<Rightarrow> Inl KeyUnparsed | Some (OtherKey ty) \<Rightarrow> Inl (KeyNotEd25519 ty) | Some (Ed25519Key b) \<Rightarrow> Inr b)"

definition EncodeSigningKey :: "keyFormats \<Rightarrow> bytes \<Rightarrow> signing_error + bytes" where
  "EncodeSigningKey F priv =
     (case kfMarshalPKCS8 F priv of None \<Rightarrow> Inl KeyUnparsed | Some der \<Rightarrow> Inr (kfEncodePEM F pemTypeSigningKey der))"

definition ParseSigningKey :: "keyFormats \<Rightarrow> bytes \<Rightarrow> signing_error + bytes" where
  "ParseSigningKey F data = checked (onePEMBlock F data pemTypeSigningKey) (\<lambda>der. onlyEd25519 (kfParsePKCS8 F der))"

definition EncodeSigningPub :: "keyFormats \<Rightarrow> bytes \<Rightarrow> signing_error + bytes" where
  "EncodeSigningPub F pub =
     (case kfMarshalPKIX F pub of None \<Rightarrow> Inl KeyUnparsed | Some der \<Rightarrow> Inr (kfEncodePEM F pemTypeSigningPub der))"

definition ParseSigningPub :: "keyFormats \<Rightarrow> bytes \<Rightarrow> signing_error + bytes" where
  "ParseSigningPub F data = checked (onePEMBlock F data pemTypeSigningPub) (\<lambda>der. onlyEd25519 (kfParsePKIX F der))"

section \<open>The staleness floor\<close>

definition VerifyFloorBytes :: "bytes \<Rightarrow> int \<Rightarrow> bytes" where
  "VerifyFloorBytes logID version = logID @ '' '' @ showInt version @ [newline]"

definition ParseVerifyFloor :: "bytes \<Rightarrow> signing_error + bytes \<times> int" where
  "ParseVerifyFloor data =
     (if carriageReturn \<in> set data then Inl CarriageReturn
      else if data = [] \<or> last data \<noteq> newline then Inl NoTrailingNewline
      else let l = butlast data
           in if newline \<in> set l then Inl ManyLines
              else let fs = splitOn (CHR '' '') l
                   in if length fs \<noteq> 2 then Inl (FieldCount (length fs))
                      else if \<not> logIDRE (fs ! 0) then Inl BadFloorLogID
                      else if \<not> versionRE (fs ! 1) then Inl BadFloorVersion
                      else (case decimalInt (fs ! 1) of None \<Rightarrow> Inl (OutOfRange 1) | Some n \<Rightarrow> Inr (fs ! 0, n)))"

section \<open>What is accepted\<close>

lemma version_text: "versionRE v \<and> decimalInt v = Some n \<longleftrightarrow> 1 \<le> n \<and> n < 2 ^ 63 \<and> v = showInt n"
proof
  assume a: "versionRE v \<and> decimalInt v = Some n"
  then have v: "v \<noteq> []" "list_all isDigit v" "hd v \<noteq> CHR ''0''" by (simp_all add: versionRE_def)
  from a have n: "n = int (Atoi v)" "n < 2 ^ 63" by (auto simp: decimalInt_def parseInt64_def Let_def split: if_splits)
  with Atoi_positive [OF v] showDigits_Atoi [OF v] show "1 \<le> n \<and> n < 2 ^ 63 \<and> v = showInt n" by (simp add: showInt_def)
next
  assume n: "1 \<le> n \<and> n < 2 ^ 63 \<and> v = showInt n"
  then have v: "v = showDigits (nat n)" and le: "1 \<le> n" "n < 2 ^ 63" by (simp_all add: showInt_def)
  show "versionRE v \<and> decimalInt v = Some n"
    unfolding v using le showDigits_shortest [of "nat n"] showDigits_digits [of "nat n"]
    by (simp add: versionRE_def decimalInt_def parseInt64_def Atoi_showDigits)
qed

lemma digits_miss: "list_all isDigit s \<Longrightarrow> \<not> isDigit c \<Longrightarrow> c \<notin> set s"
  by (auto simp: list_all_iff)

lemma hex_miss: "lower_hex_string n s \<Longrightarrow> \<not> lower_hex c \<Longrightarrow> c \<notin> set s"
  by (auto simp: lower_hex_string_def list_all_iff)

lemma separators_miss [simp]:
  "\<not> isDigit newline" "\<not> isDigit carriageReturn" "\<not> isDigit (CHR '' '')"
  "\<not> lower_hex newline" "\<not> lower_hex carriageReturn" "\<not> lower_hex (CHR '' '')"
  by (simp_all add: isDigit_def carriageReturn_def lower_hex_def)

lemma showInt_digits: "0 \<le> n \<Longrightarrow> list_all isDigit (showInt n)"
  by (simp add: showInt_def showDigits_digits)

lemma list_of_two: "length xs = 2 \<longleftrightarrow> (\<exists>a b. xs = [a, b])"
  by (auto simp: numeral_2_eq_2 length_Suc_conv)

lemma floor_line: "splitOn (CHR '' '') l = [a, b] \<longleftrightarrow> l = a @ '' '' @ b \<and> CHR '' '' \<notin> set a \<and> CHR '' '' \<notin> set b"
proof
  assume "splitOn (CHR '' '') l = [a, b]"
  with joinWith_splitOn [of "CHR '' ''" l] splitOn_parts [of _ "CHR '' ''" l]
  show "l = a @ '' '' @ b \<and> CHR '' '' \<notin> set a \<and> CHR '' '' \<notin> set b" by simp
qed (auto simp: splitOn_part splitOn_plain)

lemma ParseVerifyFloor_ok:
  "ParseVerifyFloor data = Inr (l, n) \<longleftrightarrow>
     carriageReturn \<notin> set data \<and> (\<exists>line. data = line @ [newline] \<and> newline \<notin> set line
       \<and> (\<exists>v. splitOn (CHR '' '') line = [l, v] \<and> logIDRE l \<and> versionRE v \<and> decimalInt v = Some n))"
proof -
  have "data \<noteq> [] \<and> last data = newline \<longleftrightarrow> (\<exists>line. data = line @ [newline])" by (metis last_snoc snoc_eq_iff_butlast)
  then show ?thesis
    by (auto simp: ParseVerifyFloor_def Let_def list_of_two split: if_splits option.splits)
qed

text \<open>The parts of the statement's file: seven lines.\<close>

lemma fieldOf_Inr: "fieldOf ls n name = Inr v \<longleftrightarrow> ls ! n = name @ '': '' @ v"
  by (auto simp: fieldOf_def Let_def has_prefix_iff)

lemma list_of_seven: "length xs = 7 \<longleftrightarrow> (\<exists>a b c d e f g. xs = [a, b, c, d, e, f, g])"
  by (auto simp: eval_nat_numeral length_Suc_conv)

definition payloadLines :: "bytes \<Rightarrow> bytes \<Rightarrow> int \<Rightarrow> bytes \<Rightarrow> bytes \<Rightarrow> bytes list" where
  "payloadLines hash logID version ts keyID = [SignatureFormatV1, ''hash: '' @ hash, ''log_id: '' @ logID,
     ''version: '' @ showInt version, ''installed_at: '' @ ts, ''key_id: '' @ keyID]"

lemma payloadText_lines: "payloadText hash logID version ts keyID = textLine (joinWith newline (payloadLines hash logID version ts keyID))"
  by (simp add: payloadLines_def payloadText_def textLine_def)

lemma payloadLines_miss:
  assumes "installedHashOK hash" "logIDRE logID" "1 \<le> version" "set ts \<inter> {newline, carriageReturn} = {}" "keyIDRE keyID"
  shows "\<forall>p \<in> set (payloadLines hash logID version ts keyID). newline \<notin> set p \<and> carriageReturn \<notin> set p"
proof -
  have h: "newline \<notin> set hash \<and> carriageReturn \<notin> set hash"
  proof -
    obtain t where t: "hash = hashPrefix @ t" using assms(1) by (auto simp: installedHashOK_def has_prefix_iff)
    then have "drop 7 hash = t" by (simp add: hashPrefix_def)
    with assms(1) have "lower_hex_string 64 t" by (simp add: installedHashOK_def)
    from hex_miss [OF this] show ?thesis by (simp add: t hashPrefix_def carriageReturn_def lower_hex_def)
  qed
  have "list_all isDigit (showInt version)" using assms(3) by (simp add: showInt_digits)
  from digits_miss [OF this] have v: "newline \<notin> set (showInt version) \<and> carriageReturn \<notin> set (showInt version)" by simp
  have l: "newline \<notin> set logID \<and> carriageReturn \<notin> set logID" using hex_miss [OF assms(2) [unfolded logIDRE_def]] by simp
  have k: "newline \<notin> set keyID \<and> carriageReturn \<notin> set keyID" using hex_miss [OF assms(5) [unfolded keyIDRE_def]] by simp
  have t: "newline \<notin> set ts \<and> carriageReturn \<notin> set ts" using assms(4) by blast
  show ?thesis using h l k v t by (simp add: payloadLines_def SignatureFormatV1_def carriageReturn_def)
qed

definition statement :: "SignatureFile \<Rightarrow> bytes" where
  "statement f = payloadText (sfHash f) (sfLogID f) (sfVersion f) (sfInstalledAt f) (sfKeyID f)"

definition statementLines :: "SignatureFile \<Rightarrow> bytes list" where
  "statementLines f = payloadLines (sfHash f) (sfLogID f) (sfVersion f) (sfInstalledAt f) (sfKeyID f)"

lemma statement_joined: "statement f = textLine (joinWith newline (statementLines f))"
  by (simp add: statement_def statementLines_def payloadText_lines)

definition wellFormed :: "signer \<Rightarrow> SignatureFile \<Rightarrow> bool" where
  "wellFormed S f \<longleftrightarrow>
     installedHashOK (sfHash f) \<and> logIDRE (sfLogID f) \<and> 1 \<le> sfVersion f \<and> sfVersion f < 2 ^ 63
     \<and> sfInstalledAt f \<noteq> [] \<and> set (sfInstalledAt f) \<inter> {CHR '' '', CHR 0x09, newline, carriageReturn} = {}
     \<and> keyIDRE (sfKeyID f) \<and> signature64 S (sfSig f) \<and> set (sfSig f) \<inter> {newline, carriageReturn} = {}"

lemma signatureFields_ok:
  "signatureFields S ls = Inr f \<longleftrightarrow>
     ls ! 1 = ''hash: '' @ sfHash f \<and> installedHashOK (sfHash f) \<and> ls ! 2 = ''log_id: '' @ sfLogID f \<and> logIDRE (sfLogID f)
     \<and> ls ! 3 = ''version: '' @ showInt (sfVersion f) \<and> 1 \<le> sfVersion f \<and> sfVersion f < 2 ^ 63
     \<and> ls ! 4 = ''installed_at: '' @ sfInstalledAt f \<and> sfInstalledAt f \<noteq> []
     \<and> CHR '' '' \<notin> set (sfInstalledAt f) \<and> CHR 0x09 \<notin> set (sfInstalledAt f)
     \<and> ls ! 5 = ''key_id: '' @ sfKeyID f \<and> keyIDRE (sfKeyID f) \<and> ls ! 6 = ''signature: '' @ sfSig f \<and> signature64 S (sfSig f)
     \<and> sfPayload f = textLine (joinWith newline (take 6 ls))"
proof -
  have n: "(case decimalInt v of None \<Rightarrow> Inl (e :: signing_error) | Some n \<Rightarrow> Inr n) = Inr k \<longleftrightarrow> decimalInt v = Some k" for v e k
    by (simp split: option.splits)
  have "signatureFields S ls = Inr f \<longleftrightarrow>
     (\<exists>v. ls ! 1 = ''hash: '' @ sfHash f \<and> installedHashOK (sfHash f) \<and> ls ! 2 = ''log_id: '' @ sfLogID f \<and> logIDRE (sfLogID f)
     \<and> ls ! 3 = ''version: '' @ v \<and> (versionRE v \<and> decimalInt v = Some (sfVersion f))
     \<and> ls ! 4 = ''installed_at: '' @ sfInstalledAt f \<and> sfInstalledAt f \<noteq> []
     \<and> CHR '' '' \<notin> set (sfInstalledAt f) \<and> CHR 0x09 \<notin> set (sfInstalledAt f)
     \<and> ls ! 5 = ''key_id: '' @ sfKeyID f \<and> keyIDRE (sfKeyID f) \<and> ls ! 6 = ''signature: '' @ sfSig f \<and> signature64 S (sfSig f)
     \<and> sfPayload f = textLine (joinWith newline (take 6 ls)))"
    by (cases f) (auto simp: signatureFields_def fieldOf_Inr n)
  then show ?thesis unfolding version_text by auto
qed

lemma takeWhile_splitOn: "takeWhile (\<lambda>c. c \<noteq> sep) (s @ sep # t) = hd (splitOn sep s)"
  by (induction s) (auto split: list.splits)

lemma signature_lines:
  assumes "length ls = 7" "ls ! 0 = SignatureFormatV1" "signatureFields S ls = Inr f"
  shows "ls = statementLines f @ [''signature: '' @ sfSig f]" "sfPayload f = statement f"
proof -
  obtain a b c d e g h where ls: "ls = [a, b, c, d, e, g, h]" using assms(1) unfolding list_of_seven by blast
  note k = assms(3) [unfolded signatureFields_ok]
  show l: "ls = statementLines f @ [''signature: '' @ sfSig f]" using k assms(2) unfolding ls by (simp add: statementLines_def payloadLines_def eval_nat_numeral)
  have "take 6 ls = statementLines f" unfolding l by (simp add: statementLines_def payloadLines_def)
  with k show "sfPayload f = statement f" by (simp add: statement_joined)
qed

lemma wellFormed_lines:
  assumes "wellFormed S f"
  shows "\<forall>p \<in> set (statementLines f @ [''signature: '' @ sfSig f]). newline \<notin> set p \<and> carriageReturn \<notin> set p"
proof -
  note w = assms [unfolded wellFormed_def]
  have "set (sfInstalledAt f) \<inter> {newline, carriageReturn} = {}" using w by blast
  note l = payloadLines_miss [OF _ _ _ this, of "sfHash f" "sfLogID f" "sfVersion f" "sfKeyID f"]
  have "newline \<notin> set (sfSig f) \<and> carriageReturn \<notin> set (sfSig f)" using w by blast
  then show ?thesis using w l by (simp add: statementLines_def carriageReturn_def)
qed

lemma ParseSignatureFile_data:
  "ParseSignatureFile S data = Inr f \<longleftrightarrow>
     carriageReturn \<notin> set data \<and> (\<exists>body. data = body @ [newline] \<and> length (splitOn newline body) = 7
       \<and> splitOn newline body ! 0 = SignatureFormatV1 \<and> signatureFields S (splitOn newline body) = Inr f)"
proof -
  have "data \<noteq> [] \<and> last data = newline \<longleftrightarrow> (\<exists>body. data = body @ [newline])" by (metis last_snoc snoc_eq_iff_butlast)
  moreover have "splitOn newline body ! 0 = takeWhile (\<lambda>c. c \<noteq> newline) (body @ [newline])" for body
    using takeWhile_splitOn [of newline body "[]"] by (simp add: hd_conv_nth)
  ultimately show ?thesis by (auto simp: ParseSignatureFile_def Let_def split: if_splits)
qed

lemma ParseSignatureFile_exact:
  "ParseSignatureFile S data = Inr f \<longleftrightarrow>
     data = SignatureFileBytes (sfPayload f) (sfSig f) \<and> sfPayload f = statement f \<and> wellFormed S f"
proof
  assume "ParseSignatureFile S data = Inr f"
  then obtain body where b: "carriageReturn \<notin> set data" "data = body @ [newline]" "length (splitOn newline body) = 7"
    "splitOn newline body ! 0 = SignatureFormatV1" "signatureFields S (splitOn newline body) = Inr f"
    unfolding ParseSignatureFile_data by blast
  note l = signature_lines [OF b(3-5)]
  have body: "body = joinWith newline (statementLines f @ [''signature: '' @ sfSig f])"
    using joinWith_splitOn [of newline body] unfolding l(1) by simp
  have "newline \<notin> set (sfInstalledAt f)" "newline \<notin> set (sfSig f)"
    using splitOn_parts [of "''installed_at: '' @ sfInstalledAt f" newline body]
      splitOn_parts [of "''signature: '' @ sfSig f" newline body] unfolding l(1) by (auto simp: statementLines_def payloadLines_def)
  moreover have "carriageReturn \<notin> set (sfInstalledAt f)" "carriageReturn \<notin> set (sfSig f)"
    using b(1,2) set_joinWith_part [of "''installed_at: '' @ sfInstalledAt f" "statementLines f @ [''signature: '' @ sfSig f]" newline]
      set_joinWith_part [of "''signature: '' @ sfSig f" "statementLines f @ [''signature: '' @ sfSig f]" newline]
    unfolding body by (auto simp: statementLines_def payloadLines_def)
  ultimately have "wellFormed S f" using b(5) [unfolded signatureFields_ok] by (auto simp: wellFormed_def)
  moreover have "data = SignatureFileBytes (statement f) (sfSig f)"
    unfolding b(2) body by (subst joinWith_snoc) (simp_all add: statement_joined SignatureFileBytes_def textLine_def statementLines_def payloadLines_def)
  ultimately show "data = SignatureFileBytes (sfPayload f) (sfSig f) \<and> sfPayload f = statement f \<and> wellFormed S f" using l(2) by simp
next
  assume d: "data = SignatureFileBytes (sfPayload f) (sfSig f) \<and> sfPayload f = statement f \<and> wellFormed S f"
  let ?ls = "statementLines f @ [''signature: '' @ sfSig f]"
  have miss: "newline \<notin> set p" "carriageReturn \<notin> set p" if "p \<in> set ?ls" for p using wellFormed_lines d that by blast+
  have data: "data = joinWith newline ?ls @ [newline]"
    using d joinWith_snoc [of "statementLines f" newline "''signature: '' @ sfSig f"]
    by (simp add: statement_joined SignatureFileBytes_def textLine_def statementLines_def payloadLines_def)
  have split: "splitOn newline (joinWith newline ?ls) = ?ls" by (rule splitOn_joinWith) (use miss(1) in auto)
  have "carriageReturn \<noteq> newline" by (simp add: carriageReturn_def)
  then have "carriageReturn \<notin> set (joinWith newline ?ls)" using set_joinWith [of newline ?ls] miss(2) by blast
  then have "carriageReturn \<notin> set data" unfolding data by (simp add: carriageReturn_def)
  moreover have "signatureFields S ?ls = Inr f"
    using d unfolding signatureFields_ok by (auto simp: wellFormed_def statementLines_def payloadLines_def statement_joined)
  ultimately show "ParseSignatureFile S data = Inr f"
    unfolding ParseSignatureFile_data data using split by (auto simp: statementLines_def payloadLines_def)
qed

lemma ParseVerifyFloor_exact:
  "ParseVerifyFloor data = Inr (logID, version) \<longleftrightarrow>
     data = VerifyFloorBytes logID version \<and> logIDRE logID \<and> 1 \<le> version \<and> version < 2 ^ 63"
proof
  assume "ParseVerifyFloor data = Inr (logID, version)"
  then show "data = VerifyFloorBytes logID version \<and> logIDRE logID \<and> 1 \<le> version \<and> version < 2 ^ 63"
    unfolding ParseVerifyFloor_ok using version_text by (auto simp: floor_line VerifyFloorBytes_def)
next
  assume a: "data = VerifyFloorBytes logID version \<and> logIDRE logID \<and> 1 \<le> version \<and> version < 2 ^ 63"
  then have l: "lower_hex_string 32 logID" and d: "list_all isDigit (showInt version)"
    by (simp_all add: logIDRE_def showInt_digits)
  have v: "versionRE (showInt version) \<and> decimalInt (showInt version) = Some version" using a version_text by simp
  note m = hex_miss [OF l] digits_miss [OF d]
  have "splitOn (CHR '' '') (logID @ '' '' @ showInt version) = [logID, showInt version]"
    unfolding floor_line using m separators_miss by blast
  moreover have "carriageReturn \<notin> set (VerifyFloorBytes logID version)" "newline \<notin> set (logID @ '' '' @ showInt version)"
    using m [of newline] m [of carriageReturn] separators_miss by (auto simp: VerifyFloorBytes_def carriageReturn_def)
  moreover have "VerifyFloorBytes logID version = (logID @ '' '' @ showInt version) @ [newline]" by (simp add: VerifyFloorBytes_def)
  ultimately show "ParseVerifyFloor data = Inr (logID, version)" unfolding ParseVerifyFloor_ok using a v by blast
qed

section \<open>Signing\<close>

text \<open>
  What the development relies on of the libraries behind a signer: base64 reads back and has no line break,
  a signature has 64 bytes and verifies under the key's public half, a digest has 32 bytes, and the
  rendering of an instant has no white space and tells instants apart.
\<close>

definition goodSigner :: "signer \<Rightarrow> bool" where
  "goodSigner S \<longleftrightarrow>
     (\<forall>x. edDecode64 S (edEncode64 S x) = Some x \<and> set (edEncode64 S x) \<inter> {newline, carriageReturn} = {})
     \<and> (\<forall>priv m. length (edSign S priv m) = SignatureSize \<and> edVerify S (edPublic S priv) m (edSign S priv m))
     \<and> (\<forall>x. length (edSha S x) = 32)
     \<and> (\<forall>t. edTime S t \<noteq> [] \<and> set (edTime S t) \<inter> {CHR '' '', CHR 0x09, newline, carriageReturn} = {})
     \<and> inj (edTime S)"

lemma goodSigner_KeyID: "goodSigner S \<Longrightarrow> keyIDRE (KeyID S pub)"
  using hexBytes_hex [of "edSha S pub"] by (simp add: goodSigner_def KeyID_def keyIDRE_def)

lemma inj_showInt: "showInt m = showInt n \<Longrightarrow> m = n"
proof -
  assume e: "showInt m = showInt n"
  have d: "hd (showDigits k) \<noteq> CHR ''-''" for k
    using showDigits_digits [of k] by (cases "showDigits k") (auto simp: isDigit_def)
  have s: "m < 0 \<longleftrightarrow> n < 0" using e d [of "nat m"] d [of "nat n"] by (auto simp: showInt_def split: if_splits) (metis list.sel(1))+
  have i: "showDigits a = showDigits b \<Longrightarrow> a = b" for a b by (metis Atoi_showDigits)
  from e s show ?thesis by (auto simp: showInt_def split: if_splits dest!: i)
qed

lemma SignaturePayload_Inr:
  "SignaturePayload S hash logID version ts keyID = Inr p \<longleftrightarrow>
     installedHashOK hash \<and> logIDRE logID \<and> 1 \<le> version \<and> keyIDRE keyID
     \<and> (\<exists>t. ts = UTC t \<and> p = payloadText hash logID version (edTime S t) keyID)"
  by (auto simp: SignaturePayload_def split: zonedTime.splits if_splits)

text \<open>A statement of the ledger's facts with its signature is a well-formed file.\<close>

lemma signed_file:
  assumes g: "goodSigner S" and p: "SignaturePayload S hash logID version (UTC t) keyID = Inr p" and v: "version < 2 ^ 63"
  shows "ParseSignatureFile S (SignatureFileBytes p (Sign S priv m)) =
    Inr \<lparr>sfPayload = p, sfHash = hash, sfLogID = logID, sfVersion = version, sfInstalledAt = edTime S t, sfKeyID = keyID,
        sfSig = Sign S priv m\<rparr>"
proof -
  note q = p [unfolded SignaturePayload_Inr]
  have "signature64 S (Sign S priv m)" "set (Sign S priv m) \<inter> {newline, carriageReturn} = {}"
    using g by (simp_all add: signature64_def Sign_def goodSigner_def)
  moreover have "edTime S t \<noteq> []" "set (edTime S t) \<inter> {CHR '' '', CHR 0x09, newline, carriageReturn} = {}"
    using g by (simp_all add: goodSigner_def)
  ultimately show ?thesis
    using q v by (subst ParseSignatureFile_exact) (simp add: statement_def wellFormed_def)
qed

lemma Sign_verifies: "goodSigner S \<Longrightarrow> Verify S (edPublic S priv) m (Sign S priv m)"
  by (simp add: goodSigner_def Verify_def Sign_def)

lemma payloadText_inj:
  assumes "payloadText h l v t k = payloadText h' l' v' t' k'" "installedHashOK h" "logIDRE l" "1 \<le> v" "keyIDRE k"
    and "installedHashOK h'" "logIDRE l'" "1 \<le> v'" "keyIDRE k'"
    and "set t \<inter> {newline, carriageReturn} = {}" "set t' \<inter> {newline, carriageReturn} = {}"
  shows "h = h' \<and> l = l' \<and> v = v' \<and> t = t' \<and> k = k'"
proof -
  let ?ls = "payloadLines h l v t k" and ?ls' = "payloadLines h' l' v' t' k'"
  have j: "joinWith newline ?ls = joinWith newline ?ls'" using assms(1) by (simp add: payloadText_lines textLine_def)
  have s1: "splitOn newline (joinWith newline ?ls) = ?ls"
    by (rule splitOn_joinWith) (simp add: payloadLines_def, use payloadLines_miss [OF assms(2-4,10,5)] in blast)
  have s2: "splitOn newline (joinWith newline ?ls') = ?ls'"
    by (rule splitOn_joinWith) (simp add: payloadLines_def, use payloadLines_miss [OF assms(6-8,11,9)] in blast)
  have "?ls = ?ls'" using arg_cong [OF j, of "splitOn newline"] unfolding s1 s2 .
  then have "h = h' \<and> l = l' \<and> showInt v = showInt v' \<and> t = t' \<and> k = k'"
    by (simp only: payloadLines_def list.inject same_append_eq simp_thms)
  then show ?thesis using inj_showInt by metis
qed

section \<open>Properties\<close>

text \<open>
  C39: the signature file is read exactly. \<open>ParseSignatureFile\<close> accepts exactly the files \<open>SignatureFileBytes\<close>
  writes for a well-formed statement: the payload it returns, which is compared byte for byte and never
  rendered again, is the statement of the returned fields, and no other byte is in the file. A carriage
  return, a missing or an additional line, a version that is not the shortest decimal or does not fit 64 bits
  are refused.
\<close>

theorem signature_file_is_exact:
  "ParseSignatureFile S data = Inr f \<longleftrightarrow>
     data = SignatureFileBytes (sfPayload f) (sfSig f) \<and> sfPayload f = statement f \<and> wellFormed S f"
  by (rule ParseSignatureFile_exact)

text \<open>
  The floor file is read exactly. \<open>ParseVerifyFloor\<close> accepts exactly what \<open>VerifyFloorBytes\<close> writes for a
  ledger id and a version from 1 on that fits 64 bits; every other content, an empty or truncated file
  among them, is an error and never the answer that there is no floor.
\<close>

theorem floor_file_is_exact:
  "ParseVerifyFloor data = Inr (logID, version) \<longleftrightarrow>
     data = VerifyFloorBytes logID version \<and> logIDRE logID \<and> 1 \<le> version \<and> version < 2 ^ 63"
  by (rule ParseVerifyFloor_exact)

text \<open>
  C40: the signed statement is unambiguous. Two installs whose statements are the same bytes are the same:
  the same configuration hash, the same ledger, the same version, the same instant and the same key; a
  signature made for one install is never a signature for another.
\<close>

theorem signed_statement_is_unambiguous:
  assumes "goodSigner S"
    and "SignaturePayload S hash logID version ts keyID = Inr p" "SignaturePayload S hash' logID' version' ts' keyID' = Inr p"
  shows "hash = hash' \<and> logID = logID' \<and> version = version' \<and> ts = ts' \<and> keyID = keyID'"
proof -
  obtain t t' where t: "ts = UTC t" "ts' = UTC t'"
    and p: "payloadText hash logID version (edTime S t) keyID = payloadText hash' logID' version' (edTime S t') keyID'"
    using assms(2,3) unfolding SignaturePayload_Inr by blast
  have g: "set (edTime S x) \<inter> {newline, carriageReturn} = {}" "edTime S x = edTime S y \<Longrightarrow> x = y" for x y
    using assms(1) by (auto simp: goodSigner_def inj_def)
  have "hash = hash' \<and> logID = logID' \<and> version = version' \<and> edTime S t = edTime S t' \<and> keyID = keyID'"
    by (rule payloadText_inj [OF p]) (use assms(2,3) g(1) in \<open>auto simp: SignaturePayload_Inr\<close>)
  with g(2) t show ?thesis by blast
qed

text \<open>
  A key file reads back: what \<open>EncodeSigningPub\<close> and \<open>EncodeSigningKey\<close> write, \<open>ParseSigningPub\<close> and
  \<open>ParseSigningKey\<close> return, when the formats read back and the encoder leaves only white space after its block.
\<close>

theorem key_files_read_back:
  assumes "\<And>ty der. \<exists>rest. kfDecodePEM F (kfEncodePEM F ty der) = Some (ty, der, rest) \<and> trimSpace rest = []"
    and "\<And>k der. kfMarshalPKIX F k = Some der \<Longrightarrow> kfParsePKIX F der = Some (Ed25519Key k)"
    and "\<And>k der. kfMarshalPKCS8 F k = Some der \<Longrightarrow> kfParsePKCS8 F der = Some (Ed25519Key k)"
  shows "(EncodeSigningPub F k = Inr data \<longrightarrow> ParseSigningPub F data = Inr k)
    \<and> (EncodeSigningKey F k = Inr data \<longrightarrow> ParseSigningKey F data = Inr k)"
proof -
  have "onePEMBlock F (kfEncodePEM F ty der) ty = Inr der" for ty der
    using assms(1) [of ty der] by (auto simp: onePEMBlock_def)
  then show ?thesis
    using assms(2,3)
    by (auto simp: EncodeSigningPub_def EncodeSigningKey_def ParseSigningPub_def ParseSigningKey_def onlyEd25519_def checked_def
        simp del: checked_Inr split: option.splits)
qed

section \<open>A concrete signer\<close>

definition unhexDigit :: "char \<Rightarrow> nat" where
  "unhexDigit c = length (takeWhile (\<lambda>d. d \<noteq> c) ''0123456789abcdef'')"

fun unhex :: "bytes \<Rightarrow> bytes" where
  "unhex (a # b # s) = char_of (16 * unhexDigit a + unhexDigit b) # unhex s"
| "unhex _ = []"

lemma unhexDigit_hexDigit: "unhexDigit (hexDigit n) = n mod 16"
proof -
  have "\<forall>k < 16. unhexDigit (hexDigit k) = k" by code_simp
  moreover have "hexDigit n = hexDigit (n mod 16)" by (simp add: hexDigit_def)
  ultimately show ?thesis by simp
qed

definition demoSigner :: signer where
  "demoSigner = \<lparr>edSha = (\<lambda>x. take 32 (x @ replicate 32 nul)), edEncode64 = hexBytes, edDecode64 = (\<lambda>s. Some (unhex s)),
     edSign = (\<lambda>k m. take 64 (k @ m @ replicate 64 nul)), edVerify = (\<lambda>k m s. s = take 64 (k @ m @ replicate 64 nul)),
     edPublic = (\<lambda>k. k), edTime = showInt\<rparr>"

definition demoInstall :: bytes where
  "demoInstall = ''sha256:'' @ replicate 64 CHR ''a''"

lemma unhex_hexBytes: "unhex (hexBytes x) = x"
proof (induction x)
  case (Cons c cs)
  have "(of_char c :: nat) div 16 < 16" by (rule less_mult_imp_div_less) simp
  then have "16 * (of_char c div 16 mod 16) + of_char c mod 16 = (of_char c :: nat)" by (simp add: mult_div_mod_eq)
  with Cons show ?case by (simp add: hexBytes_def unhexDigit_hexDigit)
qed (simp add: hexBytes_def)

lemma goodSigner_demo: "goodSigner demoSigner"
proof -
  have e: "set (hexBytes x) \<inter> {newline, carriageReturn} = {}" for x
    using hex_miss [OF hexBytes_hex [of x]] separators_miss by blast
  have t: "showInt t \<noteq> [] \<and> set (showInt t) \<inter> {CHR '' '', CHR 0x09, newline, carriageReturn} = {}" for t
    using digits_miss [OF showDigits_digits] by (auto simp: showInt_def isDigit_def carriageReturn_def)
  have l: "length (take 64 (k @ m @ replicate 64 nul)) = 64" "length (take 32 (x @ replicate 32 nul)) = 32" for k m x by simp_all
  show ?thesis
    unfolding goodSigner_def demoSigner_def using e t l inj_showInt by (simp add: unhex_hexBytes SignatureSize_def inj_def del: length_take)
qed

definition demoPayload :: bytes where
  "demoPayload = payloadText demoInstall (replicate 32 CHR ''0'') 7 (showInt 5) (KeyID demoSigner ''k'')"

theorem signed_statement_is_unambiguous_witness:
  "{v. SignaturePayload demoSigner demoInstall (replicate 32 CHR ''0'') v (UTC 5) (KeyID demoSigner ''k'') = Inr demoPayload} = {7}"
proof -
  let ?p = "\<lambda>v. SignaturePayload demoSigner demoInstall (replicate 32 CHR ''0'') v (UTC 5) (KeyID demoSigner ''k'')"
  have h: "installedHashOK demoInstall" "logIDRE (replicate 32 CHR ''0'')" by code_simp+
  have p: "?p 7 = Inr demoPayload"
    unfolding SignaturePayload_Inr demoPayload_def using h goodSigner_KeyID [OF goodSigner_demo] by (auto simp: demoSigner_def)
  have "v = 7" if "?p v = Inr demoPayload" for v
    using signed_statement_is_unambiguous [OF goodSigner_demo that p] by blast
  with p show ?thesis by blast
qed

end
