(* ===== verification/Exec_Verify.thy ===== *)
theory Exec_Verify
  imports Config_Signing Control_Rebuild Registry
begin

text \<open>
  The execution point (\<^verbatim>\<open>cmd/agenthof/verify.go\<close>, \<open>resolveRunConfig\<close> of \<^verbatim>\<open>main.go\<close>) and the signing host
  (\<^verbatim>\<open>cmd/agenthof/signing.go\<close>): which installed configuration may run, and what the operator's key signs.

  A control root is the files beside the control ledger: the ledger's directory, the store of snapshots with its
  pointer and signature files, the pinned key, the staleness floor and the signing pair. Which call of the
  operating system fails, whether a lock is held and what another process does to the ledger's directory
  while it is opened are arguments. The ledger is named without a directory, so a file beside it has its bare name.
  The text of a refusal is written out where the code builds it from values; an error of another package it
  quotes is kept as that error.
\<close>

section \<open>Data\<close>

datatype fileAt = NoFile | Holding bytes | NotReadable | NotStatable

record controlRoot =
  rtStore :: configStore
  rtSigs :: "(bytes \<times> node) list"
  rtDir :: directory
  rtFloor :: fileAt
  rtVerifyPub :: fileAt
  rtSigningKey :: fileAt
  rtSigningPub :: fileAt

record execEnv =
  xeCodec :: codec
  xeDecode :: "bytes \<Rightarrow> DecodedEvent option"
  xeYaml :: decoders
  xeSigner :: signer
  xeKeys :: keyFormats
  xeURL :: url_parser
  xeLog :: bytes

record execIO =
  xiSet :: setIO
  xiRace :: "nat \<Rightarrow> directory \<Rightarrow> directory"
  xiLock :: "ledger_error option"
  xiWriteFails :: bool

datatype detail =
    NoDetail
  | Text bytes
  | Unread bytes
  | SigningFault signing_error
  | ControlFault control_error
  | NoGenesisID
  | LockFault ledger_error

datatype sigKind = SigAbsent | SigMalformed | SigUnknownKey | SigForeign | SigNewer | SigOlder | SigBad

record signatureVerdict =
  svKind :: sigKind
  svDetail :: detail
  svFile :: "SignatureFile option"

datatype verifyKind =
    VerifyUnsigned | VerifyUnknownKey | VerifyBadSignature | VerifyStale | VerifyForeignLedger | VerifyNotOnRecord
  | VerifyNotVerifiable | VerifyBusy

record verifyRefusal =
  vrKind :: verifyKind
  vrDetail :: detail

datatype verifyMode = VerifyAndAdvance | VerifyOnly

record installFacts =
  ifLogID :: bytes
  ifVersion :: int
  ifAt :: zonedTime

definition msgLockBusy :: bytes where
  "msgLockBusy = ''another agenthof process holds the installed-configuration lock; retry''"

definition notVerifiable :: "detail \<Rightarrow> verifyRefusal" where
  "notVerifiable detail = \<lparr>vrKind = VerifyNotVerifiable, vrDetail = detail\<rparr>"

definition Transient :: "verifyRefusal \<Rightarrow> bool" where
  "Transient r \<longleftrightarrow> vrKind r = VerifyBusy"

definition Headline :: "verifyRefusal \<Rightarrow> bytes" where
  "Headline r =
     (case vrKind r of
        VerifyUnsigned \<Rightarrow> ''configuration not verified: unsigned''
      | VerifyUnknownKey \<Rightarrow> ''configuration not verified: unknown key''
      | VerifyBadSignature \<Rightarrow> ''configuration not verified: bad signature''
      | VerifyStale \<Rightarrow> ''configuration not verified: stale''
      | VerifyForeignLedger \<Rightarrow> ''configuration not verified: foreign ledger''
      | VerifyNotOnRecord \<Rightarrow> ''configuration not on record''
      | VerifyNotVerifiable \<Rightarrow> ''configuration not verifiable''
      | VerifyBusy \<Rightarrow> msgLockBusy)"

section \<open>The signature of an install\<close>

text \<open>Which line of a payload that is not the expected one differs, in the order of the code.\<close>

definition payloadVerdict :: "signer \<Rightarrow> SignatureFile \<Rightarrow> bytes \<Rightarrow> bytes \<Rightarrow> int \<Rightarrow> int \<Rightarrow> signatureVerdict" where
  "payloadVerdict S f hash logID version t =
     (if sfHash f \<noteq> hash
      then \<lparr>svKind = SigForeign, svDetail = Text (''signature is for hash '' @ sfHash f @ '', installed is '' @ hash), svFile = Some f\<rparr>
      else if sfLogID f \<noteq> logID
      then \<lparr>svKind = SigForeign, svDetail = Text (''signature is for log_id '' @ sfLogID f @ '', installed is '' @ logID), svFile = Some f\<rparr>
      else if sfVersion f > version
      then \<lparr>svKind = SigNewer, svDetail = Text ''signature is newer than the vouched install; retry'', svFile = Some f\<rparr>
      else if sfVersion f < version
      then \<lparr>svKind = SigOlder, svDetail = Text (''signature is for version '' @ showInt (sfVersion f) @ '', installed is '' @ showInt version),
            svFile = Some f\<rparr>
      else \<lparr>svKind = SigOlder, svDetail = Text (''signature is for installed_at '' @ sfInstalledAt f @ '', installed is '' @ edTime S t),
            svFile = Some f\<rparr>)"

definition instant :: "zonedTime \<Rightarrow> int" where
  "instant ts = (case ts of UTC t \<Rightarrow> t | Zoned t \<Rightarrow> t)"

text \<open>The left side holds a verdict, or an error that is none: a store fault.\<close>

definition verifySignatureFile ::
  "signer \<Rightarrow> (bytes \<times> node) list \<Rightarrow> bytes \<Rightarrow> bytes \<Rightarrow> int \<Rightarrow> zonedTime \<Rightarrow> bytes \<Rightarrow> (detail + signatureVerdict) + SignatureFile" where
  "verifySignatureFile S sigs hash logID version ts pub =
     (case map_of sigs (SignaturePath hash) of
        None \<Rightarrow> Inl (Inr \<lparr>svKind = SigAbsent, svDetail = Text (''no signature file for '' @ hash), svFile = None\<rparr>)
      | Some (File data) \<Rightarrow>
          (case ParseSignatureFile S data of
             Inl e \<Rightarrow> Inl (Inr \<lparr>svKind = SigMalformed, svDetail = SigningFault e, svFile = None\<rparr>)
           | Inr f \<Rightarrow>
               if sfKeyID f \<noteq> KeyID S pub
               then Inl (Inr \<lparr>svKind = SigUnknownKey,
                      svDetail = Text (''signature is by key '' @ sfKeyID f @ ''; configured key is '' @ KeyID S pub), svFile = Some f\<rparr>)
               else (case SignaturePayload S hash logID version ts (KeyID S pub) of
                       Inl e \<Rightarrow> Inl (Inl (SigningFault e))
                     | Inr expected \<Rightarrow>
                         if sfPayload f \<noteq> expected then Inl (Inr (payloadVerdict S f hash logID version (instant ts)))
                         else if \<not> Verify S pub (sfPayload f) (sfSig f)
                         then Inl (Inr \<lparr>svKind = SigBad, svDetail = Text ''signature does not verify'', svFile = Some f\<rparr>)
                         else Inr f))
      | Some _ \<Rightarrow> Inl (Inl (Unread (SignaturePath hash))))"

section \<open>The ledger's account of the install\<close>

definition errCause :: "control_error \<Rightarrow> ledger_error option" where
  "errCause e =
     (case e of
        LedgerFault l \<Rightarrow> Some l
      | SetFault s \<Rightarrow> (case Unwrap s of LedgerCause l \<Rightarrow> Some l | _ \<Rightarrow> None)
      | _ \<Rightarrow> None)"

definition damaged :: "control_error \<Rightarrow> bool" where
  "damaged e = (case errCause e of Some (TornError _) \<Rightarrow> True | Some (ChainBrokenError _) \<Rightarrow> True | _ \<Rightarrow> False)"

definition installLabel :: "DecodedEvent \<Rightarrow> bytes" where
  "installLabel d = (if deAction d = ''apply'' \<or> deAction d = ''vouch'' then deAction d else deAction d @ '' agent '' @ deAgent d)"

definition remedyNotOnRecord :: bytes where
  "remedyNotOnRecord = ''if this install is legitimate, run: agenthof config vouch''"

text \<open>The judgement on records already read, and the same after reading the ledger under its lock.\<close>

definition vouchRecords :: "execEnv \<Rightarrow> bytes list \<Rightarrow> bytes \<Rightarrow> bytes list \<times> DecodedEvent option \<times> verifyRefusal option" where
  "vouchRecords E records hash =
     (case LastInstalling (xeDecode E) records of
        None \<Rightarrow> (records, None, Some \<lparr>vrKind = VerifyNotOnRecord, vrDetail = Text (''no install on record; '' @ remedyNotOnRecord)\<rparr>)
      | Some l \<Rightarrow>
          if deConfigHash l \<noteq> hash
          then (records, Some l, Some \<lparr>vrKind = VerifyNotOnRecord,
                  vrDetail = Text (''last recorded install is '' @ deConfigHash l @ '' ('' @ installLabel l @ ''); '' @ remedyNotOnRecord)\<rparr>)
          else (records, Some l, None))"

definition vouchInstalled ::
  "execEnv \<Rightarrow> execIO \<Rightarrow> directory \<Rightarrow> bytes \<Rightarrow> directory \<times> bytes list \<times> DecodedEvent option \<times> verifyRefusal option" where
  "vouchInstalled E io d hash =
     (case Read (xeCodec E) (xiSet io) Locked (xiRace io) d (xeLog E) of
        (d', v, None) \<Rightarrow> (d', vouchRecords E (vRecords v) hash)
      | (d', v, Some e) \<Rightarrow>
          if errCause e = Some ErrLockHeld then (d', [], None, Some \<lparr>vrKind = VerifyBusy, vrDetail = NoDetail\<rparr>)
          else if e = NotExist then (d', vouchRecords E [] hash)
          else if damaged e
          then (d', [], None, Some (notVerifiable (Text (''control ledger damaged; run: agenthof audit repair control --control-log '' @ xeLog E))))
          else (d', [], None, Some (notVerifiable (ControlFault e))))"

definition recordedInstall :: "execEnv \<Rightarrow> execIO \<Rightarrow> directory \<Rightarrow> bytes \<Rightarrow> directory \<times> (verifyRefusal + installFacts)" where
  "recordedInstall E io d hash =
     (case vouchInstalled E io d hash of
        (d', records, l, Some r) \<Rightarrow> (d', Inl r)
      | (d', records, None, None) \<Rightarrow> (d', Inl (notVerifiable NoDetail))
      | (d', records, Some l, None) \<Rightarrow>
          (case GenesisLogID (kLogIDOf (xeCodec E)) records of
             None \<Rightarrow> (d', Inl (notVerifiable NoGenesisID))
           | Some i \<Rightarrow> (d', Inr \<lparr>ifLogID = i, ifVersion = deSeq l, ifAt = UTC (deTime l)\<rparr>)))"

section \<open>The floor\<close>

definition readVerifyFloor :: "fileAt \<Rightarrow> detail + (bytes \<times> int) option" where
  "readVerifyFloor f =
     (case f of
        NoFile \<Rightarrow> Inr None
      | Holding data \<Rightarrow> (case ParseVerifyFloor data of Inl e \<Rightarrow> Inl (SigningFault e) | Inr p \<Rightarrow> Inr (Some p))
      | _ \<Rightarrow> Inl (Unread ''verify.floor''))"

text \<open>Written aside and renamed over the old one: it is the old or the new floor.\<close>

definition writeVerifyFloor :: "execIO \<Rightarrow> bytes \<Rightarrow> int \<Rightarrow> fileAt \<Rightarrow> fileAt \<times> bool" where
  "writeVerifyFloor io logID version f = (if xiWriteFails io then (f, False) else (Holding (VerifyFloorBytes logID version), True))"

definition judgeFloor :: "execIO \<Rightarrow> verifyMode \<Rightarrow> bytes \<Rightarrow> int \<Rightarrow> fileAt \<Rightarrow> fileAt \<times> verifyRefusal option" where
  "judgeFloor io mode logID version f =
     (let advance = (if mode = VerifyOnly then (f, None)
                     else case writeVerifyFloor io logID version f of
                            (f', ok) \<Rightarrow> (f', if ok then None else Some (notVerifiable (Unread ''verify.floor''))))
      in case readVerifyFloor f of
           Inl e \<Rightarrow> (f, Some (notVerifiable e))
         | Inr None \<Rightarrow> advance
         | Inr (Some (floorLogID, floorVersion)) \<Rightarrow>
             if floorLogID \<noteq> logID
             then (f, Some \<lparr>vrKind = VerifyForeignLedger, vrDetail = Text (''install is of ledger '' @ logID @ ''; this root last verified ledger ''
                     @ floorLogID @ '' (version '' @ showInt floorVersion @ ''); remove verify.floor to accept the new ledger'')\<rparr>)
             else if version < floorVersion
             then (f, Some \<lparr>vrKind = VerifyStale, vrDetail = Text (''version '' @ showInt version @ '' is below this root's verified floor ''
                     @ showInt floorVersion @ '' (ledger '' @ logID @ '')'')\<rparr>)
             else if version = floorVersion then (f, None)
             else advance)"

section \<open>What may run\<close>

definition pinnedKeyPath :: "controlRoot \<Rightarrow> fileAt option \<Rightarrow> detail + fileAt option" where
  "pinnedKeyPath rt verifyKey =
     (case verifyKey of
        Some f \<Rightarrow> Inr (Some f)
      | None \<Rightarrow> (case rtVerifyPub rt of
                   NotStatable \<Rightarrow> Inl (Unread ''verify.pub'')
                 | NoFile \<Rightarrow> Inr None
                 | f \<Rightarrow> Inr (Some f)))"

definition loadVerifyPub :: "keyFormats \<Rightarrow> fileAt \<Rightarrow> detail + bytes" where
  "loadVerifyPub F f =
     (case f of
        Holding data \<Rightarrow> (case ParseSigningPub F data of Inl e \<Rightarrow> Inl (SigningFault e) | Inr pub \<Rightarrow> Inr pub)
      | _ \<Rightarrow> Inl (Unread ''verify.pub''))"

text \<open>The refusal a verdict on the signature becomes.\<close>

definition sigRefusal :: "installFacts \<Rightarrow> signatureVerdict \<Rightarrow> verifyRefusal" where
  "sigRefusal inst v =
     (case svKind v of
        SigUnknownKey \<Rightarrow> \<lparr>vrKind = VerifyUnknownKey, vrDetail = svDetail v\<rparr>
      | SigBad \<Rightarrow> \<lparr>vrKind = VerifyBadSignature, vrDetail = NoDetail\<rparr>
      | SigNewer \<Rightarrow> \<lparr>vrKind = VerifyUnsigned, vrDetail = Text (''signature is for version ''
                       @ showInt (case svFile v of Some f \<Rightarrow> sfVersion f | None \<Rightarrow> 0) @ '', installed is '' @ showInt (ifVersion inst))\<rparr>
      | _ \<Rightarrow> \<lparr>vrKind = VerifyUnsigned, vrDetail = svDetail v\<rparr>)"

definition pinnedVerify ::
  "execEnv \<Rightarrow> execIO \<Rightarrow> verifyMode \<Rightarrow> bytes \<Rightarrow> bytes \<Rightarrow> controlRoot \<Rightarrow> controlRoot \<times> (detail + verifyRefusal option)" where
  "pinnedVerify E io mode pub hash rt =
     (case recordedInstall E io (rtDir rt) hash of
        (d', Inl r) \<Rightarrow> (rt\<lparr>rtDir := d'\<rparr>, Inr (Some r))
      | (d', Inr inst) \<Rightarrow>
          (case verifySignatureFile (xeSigner E) (rtSigs rt) hash (ifLogID inst) (ifVersion inst) (ifAt inst) pub of
             Inl (Inl e) \<Rightarrow> (rt\<lparr>rtDir := d'\<rparr>, Inl e)
           | Inl (Inr v) \<Rightarrow> (rt\<lparr>rtDir := d'\<rparr>, Inr (Some (sigRefusal inst v)))
           | Inr f \<Rightarrow>
               (case judgeFloor io mode (sfLogID f) (sfVersion f) (rtFloor rt) of
                  (floor', r) \<Rightarrow> (rt\<lparr>rtDir := d', rtFloor := floor'\<rparr>, Inr r))))"

datatype resolve_error = LoadError config_error | SignatureUnread bytes detail | BuildError ValidationError

record resolved =
  rvCfg :: Config
  rvReg :: "Registry option"
  rvHash :: bytes
  rvInstalled :: bool
  rvErrs :: "resolve_error list"
  rvUnverified :: "verifyRefusal option"

definition buildResolved :: "execEnv \<Rightarrow> Config \<Rightarrow> bytes \<Rightarrow> bool \<Rightarrow> resolve_error list \<Rightarrow> resolved" where
  "buildResolved E cfg hash installed loadErrs =
     (if \<not> installed
      then \<lparr>rvCfg = cfg, rvReg = None, rvHash = '''', rvInstalled = False, rvErrs = loadErrs, rvUnverified = None\<rparr>
      else let built = Build (xeURL E) cfg;
               errs = loadErrs @ (case built of Inl es \<Rightarrow> map BuildError es | Inr _ \<Rightarrow> [])
           in \<lparr>rvCfg = cfg, rvReg = (if errs = [] then (case built of Inr r \<Rightarrow> Some r | Inl _ \<Rightarrow> None) else None),
               rvHash = hash, rvInstalled = True, rvErrs = errs, rvUnverified = None\<rparr>)"

definition unresolved :: "execEnv \<Rightarrow> verifyRefusal \<Rightarrow> resolved" where
  "unresolved E r = \<lparr>rvCfg = emptyConfig (xeYaml E), rvReg = None, rvHash = '''', rvInstalled = False, rvErrs = [], rvUnverified = Some r\<rparr>"

text \<open>The reads under the shared lock: the snapshot, then the vouch, then with a pin the signature and the floor.\<close>

definition verifyUnderLock ::
  "execEnv \<Rightarrow> execIO \<Rightarrow> verifyMode \<Rightarrow> bytes option \<Rightarrow> bytes \<Rightarrow> controlRoot \<Rightarrow> controlRoot \<times> (detail + verifyRefusal option)" where
  "verifyUnderLock E io mode pin hash rt =
     (case pin of
        Some pub \<Rightarrow> pinnedVerify E io mode pub hash rt
      | None \<Rightarrow> (case vouchInstalled E io (rtDir rt) hash of
                   (d', records, l, r) \<Rightarrow> (rt\<lparr>rtDir := d'\<rparr>, Inr r)))"

definition resolveLocked :: "execEnv \<Rightarrow> execIO \<Rightarrow> verifyMode \<Rightarrow> bytes option \<Rightarrow> controlRoot \<Rightarrow> controlRoot \<times> resolved" where
  "resolveLocked E io mode pin rt =
     (case xiLock io of
        Some e \<Rightarrow> (rt, unresolved E (if e = ErrLockHeld then \<lparr>vrKind = VerifyBusy, vrDetail = NoDetail\<rparr> else notVerifiable (LockFault e)))
      | None \<Rightarrow>
          (case LoadInstalled (xeYaml E) (edSha (xeSigner E)) (rtStore rt) of
             (cfg, hash, installed, loadErrs) \<Rightarrow>
               if \<not> installed \<or> loadErrs \<noteq> [] then (rt, buildResolved E cfg hash installed (map LoadError loadErrs))
               else (case verifyUnderLock E io mode pin hash rt of
                       (rt', Inl e) \<Rightarrow> (rt', buildResolved E cfg hash True [SignatureUnread hash e])
                     | (rt', Inr (Some r)) \<Rightarrow>
                         (rt', if Transient r then unresolved E r
                                 else \<lparr>rvCfg = cfg, rvReg = None, rvHash = hash, rvInstalled = True, rvErrs = [], rvUnverified = Some r\<rparr>)
                     | (rt', Inr None) \<Rightarrow> (rt', buildResolved E cfg hash True []))))"

definition resolveRunConfig :: "execEnv \<Rightarrow> execIO \<Rightarrow> fileAt option \<Rightarrow> verifyMode \<Rightarrow> controlRoot \<Rightarrow> controlRoot \<times> resolved" where
  "resolveRunConfig E io verifyKey mode rt =
     (case pinnedKeyPath rt verifyKey of
        Inl e \<Rightarrow> (rt, unresolved E (notVerifiable e))
      | Inr None \<Rightarrow> resolveLocked E io mode None rt
      | Inr (Some f) \<Rightarrow>
          (case loadVerifyPub (xeKeys E) f of
             Inl e \<Rightarrow> (rt, unresolved E (notVerifiable e))
           | Inr pub \<Rightarrow> resolveLocked E io mode (Some pub) rt))"

section \<open>What an accepted install satisfies\<close>

declare showDigits.simps [simp del]

definition notBelow :: "fileAt \<Rightarrow> bytes \<Rightarrow> int \<Rightarrow> bool" where
  "notBelow f logID version =
     (case readVerifyFloor f of Inl _ \<Rightarrow> False | Inr None \<Rightarrow> True | Inr (Some (i, n)) \<Rightarrow> i = logID \<and> n \<le> version)"

lemma judgeFloor_accepts:
  assumes "judgeFloor io mode logID version f = (f', None)"
  shows "notBelow f logID version" "f' = f \<or> f' = Holding (VerifyFloorBytes logID version)"
    "mode = VerifyAndAdvance \<Longrightarrow> f' = Holding (VerifyFloorBytes logID version) \<or> f' = f \<and> readVerifyFloor f = Inr (Some (logID, version))"
  using assms
  by (auto simp: judgeFloor_def notBelow_def writeVerifyFloor_def Let_def split: sum.splits option.splits prod.splits if_splits verifyMode.splits)

lemma judgeFloor_refuses: "judgeFloor io mode logID version f = (f', Some r) \<Longrightarrow> f' = f"
  by (auto simp: judgeFloor_def writeVerifyFloor_def Let_def split: sum.splits option.splits prod.splits if_splits)

lemma floor_reads_back:
  "logIDRE logID \<Longrightarrow> 1 \<le> version \<Longrightarrow> version < 2 ^ 63 \<Longrightarrow> readVerifyFloor (Holding (VerifyFloorBytes logID version)) = Inr (Some (logID, version))"
  using ParseVerifyFloor_exact [of "VerifyFloorBytes logID version" logID version] by (simp add: readVerifyFloor_def)

text \<open>The signature file of an install: the file of the store holds the statement of the ledger's facts and a signature over it.\<close>

lemma verifySignatureFile_Inr:
  assumes "goodSigner S" "verifySignatureFile S sigs hash logID version (UTC t) pub = Inr f"
  shows "\<exists>p. SignaturePayload S hash logID version (UTC t) (KeyID S pub) = Inr p
    \<and> map_of sigs (SignaturePath hash) = Some (File (SignatureFileBytes p (sfSig f))) \<and> Verify S pub p (sfSig f)
    \<and> sfLogID f = logID \<and> sfVersion f = version \<and> logIDRE logID \<and> 1 \<le> version \<and> version < 2 ^ 63"
proof -
  from assms(2) obtain data p where d: "map_of sigs (SignaturePath hash) = Some (File data)" "ParseSignatureFile S data = Inr f"
    and p: "SignaturePayload S hash logID version (UTC t) (KeyID S pub) = Inr p" "sfPayload f = p" "Verify S pub p (sfSig f)"
    by (auto simp: verifySignatureFile_def split: option.splits node.splits sum.splits if_splits)
  note x = d(2) [unfolded ParseSignatureFile_exact wellFormed_def]
  note q = p(1) [unfolded SignaturePayload_Inr]
  have e: "payloadText (sfHash f) (sfLogID f) (sfVersion f) (sfInstalledAt f) (sfKeyID f)
      = payloadText hash logID version (edTime S t) (KeyID S pub)"
    using x q p(2) by (simp add: statement_def)
  have t: "set (edTime S t) \<inter> {newline, carriageReturn} = {}" using assms(1) by (auto simp: goodSigner_def)
  have a: "set (sfInstalledAt f) \<inter> {newline, carriageReturn} = {}" using x by blast
  from payloadText_inj [OF e _ _ _ _ _ _ _ _ a t] x q have "sfLogID f = logID" "sfVersion f = version" by auto
  with x q d p show ?thesis by auto
qed

definition vouchedBy :: "execEnv \<Rightarrow> execIO \<Rightarrow> directory \<Rightarrow> bytes \<Rightarrow> View \<Rightarrow> DecodedEvent \<Rightarrow> bool" where
  "vouchedBy E io d hash v l \<longleftrightarrow>
     (\<exists>d'. Read (xeCodec E) (xiSet io) Locked (xiRace io) d (xeLog E) = (d', v, None))
     \<and> LastInstalling (xeDecode E) (vRecords v) = Some l \<and> deConfigHash l = hash"

lemma vouchInstalled_accepts:
  assumes "vouchInstalled E io d hash = (d', records, l, None)"
  shows "\<exists>v k. l = Some k \<and> records = vRecords v \<and> vouchedBy E io d hash v k"
  using assms unfolding vouchInstalled_def vouchRecords_def vouchedBy_def
  by (auto simp: LastInstalling_def split: prod.splits option.splits if_splits)

definition signedInstall :: "execEnv \<Rightarrow> controlRoot \<Rightarrow> bytes \<Rightarrow> bytes \<Rightarrow> View \<Rightarrow> DecodedEvent \<Rightarrow> bytes \<Rightarrow> bool" where
  "signedInstall E rt pub hash v l logID \<longleftrightarrow>
     GenesisLogID (kLogIDOf (xeCodec E)) (vRecords v) = Some logID
     \<and> (\<exists>p sig. SignaturePayload (xeSigner E) hash logID (deSeq l) (UTC (deTime l)) (KeyID (xeSigner E) pub) = Inr p
          \<and> map_of (rtSigs rt) (SignaturePath hash) = Some (File (SignatureFileBytes p sig))
          \<and> Verify (xeSigner E) pub p sig)
     \<and> notBelow (rtFloor rt) logID (deSeq l)"

lemma pinnedVerify_accepts:
  assumes g: "goodSigner (xeSigner E)" and v: "pinnedVerify E io mode pub hash rt = (rt', Inr None)"
  shows "\<exists>v l logID. vouchedBy E io (rtDir rt) hash v l \<and> signedInstall E rt pub hash v l logID
    \<and> judgeFloor io mode logID (deSeq l) (rtFloor rt) = (rtFloor rt', None) \<and> logIDRE logID \<and> 1 \<le> deSeq l \<and> deSeq l < 2 ^ 63
    \<and> snd (recordedInstall E io (rtDir rt) hash) = Inr \<lparr>ifLogID = logID, ifVersion = deSeq l, ifAt = UTC (deTime l)\<rparr>"
proof -
  from v obtain d' inst f where r: "recordedInstall E io (rtDir rt) hash = (d', Inr inst)"
    and f: "verifySignatureFile (xeSigner E) (rtSigs rt) hash (ifLogID inst) (ifVersion inst) (ifAt inst) pub = Inr f"
    and j: "judgeFloor io mode (sfLogID f) (sfVersion f) (rtFloor rt) = (rtFloor rt', None)"
    by (auto simp: pinnedVerify_def split: prod.splits sum.splits)
  from r obtain records l where l: "vouchInstalled E io (rtDir rt) hash = (d', records, Some l, None)"
    and i: "GenesisLogID (kLogIDOf (xeCodec E)) records = Some (ifLogID inst)" "inst = \<lparr>ifLogID = ifLogID inst, ifVersion = deSeq l, ifAt = UTC (deTime l)\<rparr>"
    by (auto simp: recordedInstall_def split: prod.splits option.splits)
  from vouchInstalled_accepts [OF l] obtain v where w: "records = vRecords v" "vouchedBy E io (rtDir rt) hash v l" by auto
  have n: "ifVersion inst = deSeq l" "ifAt inst = UTC (deTime l)" using i(2) by (metis installFacts.select_convs(2), metis installFacts.select_convs(3))
  from verifySignatureFile_Inr [OF g f [unfolded n]] obtain p where p:
    "SignaturePayload (xeSigner E) hash (ifLogID inst) (deSeq l) (UTC (deTime l)) (KeyID (xeSigner E) pub) = Inr p"
    "map_of (rtSigs rt) (SignaturePath hash) = Some (File (SignatureFileBytes p (sfSig f)))" "Verify (xeSigner E) pub p (sfSig f)"
    "sfLogID f = ifLogID inst" "sfVersion f = deSeq l" "logIDRE (ifLogID inst)" "1 \<le> deSeq l" "deSeq l < 2 ^ 63" by blast
  have "signedInstall E rt pub hash v l (ifLogID inst)"
    unfolding signedInstall_def using i(1) w(1) p judgeFloor_accepts(1) [OF j] by auto
  moreover have "snd (recordedInstall E io (rtDir rt) hash) = Inr \<lparr>ifLogID = ifLogID inst, ifVersion = deSeq l, ifAt = UTC (deTime l)\<rparr>"
    using r i(2) by simp
  ultimately show ?thesis using w(2) j p by auto
qed

section \<open>Resolving\<close>

definition pinOf :: "execEnv \<Rightarrow> controlRoot \<Rightarrow> fileAt option \<Rightarrow> (detail + bytes option)" where
  "pinOf E rt verifyKey =
     (case pinnedKeyPath rt verifyKey of
        Inl e \<Rightarrow> Inl e
      | Inr None \<Rightarrow> Inr None
      | Inr (Some f) \<Rightarrow> (case loadVerifyPub (xeKeys E) f of Inl e \<Rightarrow> Inl e | Inr pub \<Rightarrow> Inr (Some pub)))"

lemma resolveRunConfig_pin:
  "resolveRunConfig E io verifyKey mode rt =
     (case pinOf E rt verifyKey of Inl e \<Rightarrow> (rt, unresolved E (notVerifiable e)) | Inr pin \<Rightarrow> resolveLocked E io mode pin rt)"
  by (simp add: resolveRunConfig_def pinOf_def split: sum.splits option.splits)

lemma buildResolved_reg: "rvReg (buildResolved E cfg hash installed errs) = Some reg \<Longrightarrow>
    installed \<and> errs = [] \<and> Build (xeURL E) cfg = Inr reg \<and> rvCfg (buildResolved E cfg hash installed errs) = cfg
    \<and> rvHash (buildResolved E cfg hash installed errs) = hash"
  by (auto simp: buildResolved_def Let_def split: if_splits sum.splits)

lemma resolveLocked_runs:
  assumes "resolveLocked E io mode pin rt = (rt', v)" "rvReg v = Some reg"
  shows "LoadInstalled (xeYaml E) (edSha (xeSigner E)) (rtStore rt) = (rvCfg v, rvHash v, True, [])"
    "verifyUnderLock E io mode pin (rvHash v) rt = (rt', Inr None)" "Build (xeURL E) (rvCfg v) = Inr reg"
proof -
  obtain cfg hash installed loadErrs where L: "LoadInstalled (xeYaml E) (edSha (xeSigner E)) (rtStore rt) = (cfg, hash, installed, loadErrs)"
    by (metis prod_cases4)
  obtain rt1 r where V: "verifyUnderLock E io mode pin hash rt = (rt1, r)" by fastforce
  from assms L V have "installed \<and> loadErrs = [] \<and> r = Inr None \<and> rt' = rt1 \<and> v = buildResolved E cfg hash True []"
    by (auto simp: resolveLocked_def unresolved_def dest!: buildResolved_reg split: option.splits if_splits sum.splits)
  with buildResolved_reg [of E cfg hash True "[]" reg] assms(2) L V
  show "LoadInstalled (xeYaml E) (edSha (xeSigner E)) (rtStore rt) = (rvCfg v, rvHash v, True, [])"
    "verifyUnderLock E io mode pin (rvHash v) rt = (rt', Inr None)" "Build (xeURL E) (rvCfg v) = Inr reg" by auto
qed

lemma LoadInstalled_clean:
  assumes "LoadInstalled Y sha st = (cfg, hash, True, [])"
  shows "InstalledHash st = Inr (Some hash) \<and> HashDir sha (SnapshotDir st hash) = Inr hash
    \<and> LoadDir Y (SnapshotDir st hash) = (cfg, []) \<and> cfgRoles cfg \<noteq> []"
proof -
  have "VerifyInstalled sha st h = None \<Longrightarrow> HashDir sha (SnapshotDir st h) = Inr h" for h
    by (auto simp: VerifyInstalled_def split: sum.splits if_splits)
  with assms show ?thesis
    by (auto simp: LoadInstalled_def LoadDir_def split: sum.splits option.splits prod.splits if_splits)
qed

lemma verifyUnderLock_accepts:
  assumes "goodSigner (xeSigner E)" "verifyUnderLock E io mode pin hash rt = (rt', Inr None)"
  shows "\<exists>v l. vouchedBy E io (rtDir rt) hash v l \<and> (\<forall>pub. pin = Some pub \<longrightarrow> (\<exists>logID. signedInstall E rt pub hash v l logID))"
proof (cases pin)
  case None
  with assms(2) obtain d' records l where "vouchInstalled E io (rtDir rt) hash = (d', records, l, None)"
    by (auto simp: verifyUnderLock_def split: prod.splits)
  from vouchInstalled_accepts [OF this] None show ?thesis by auto
next
  case (Some pub)
  with assms(2) have "pinnedVerify E io mode pub hash rt = (rt', Inr None)" by (simp add: verifyUnderLock_def)
  from pinnedVerify_accepts [OF assms(1) this] Some show ?thesis by blast
qed

section \<open>No rollback\<close>

text \<open>
  The history of an execution point that pins a key: its floor and the installs it accepted to run. Between two
  resolutions everything else of the root, the ledger, the store, the signatures and the pinned key file,
  may have been replaced by anything; only the floor is what the last resolution left.
\<close>

inductive verifyStep :: "execEnv \<Rightarrow> fileAt \<times> (bytes \<times> int) list \<Rightarrow> fileAt \<times> (bytes \<times> int) list \<Rightarrow> bool" for E where
  runs: "rtFloor rt = f \<Longrightarrow> pinOf E rt key = Inr (Some pub) \<Longrightarrow> resolveRunConfig E io key VerifyAndAdvance rt = (rt', v) \<Longrightarrow>
    rvReg v = Some reg \<Longrightarrow> snd (recordedInstall E io (rtDir rt) (rvHash v)) = Inr inst \<Longrightarrow>
    verifyStep E (f, acc) (rtFloor rt', acc @ [(ifLogID inst, ifVersion inst)])"
| refuses: "rtFloor rt = f \<Longrightarrow> resolveRunConfig E io key mode rt = (rt', v) \<Longrightarrow> rvReg v = None \<Longrightarrow>
    verifyStep E (f, acc) (rtFloor rt', acc)"
| looks: "rtFloor rt = f \<Longrightarrow> resolveRunConfig E io key VerifyOnly rt = (rt', v) \<Longrightarrow> verifyStep E (f, acc) (rtFloor rt', acc)"

definition floorInv :: "fileAt \<times> (bytes \<times> int) list \<Rightarrow> bool" where
  "floorInv s \<longleftrightarrow>
     (snd s = [] \<or> (\<exists>logID n. readVerifyFloor (fst s) = Inr (Some (logID, n)) \<and> (\<forall>(i, k) \<in> set (snd s). i = logID \<and> k \<le> n)))
     \<and> sorted (map snd (snd s))"

text \<open>What a resolution may do to the floor: nothing, or raise it within the same ledger.\<close>

definition raises :: "fileAt \<Rightarrow> fileAt \<Rightarrow> bool" where
  "raises f f' \<longleftrightarrow> f' = f \<or> (\<exists>logID n. readVerifyFloor f' = Inr (Some (logID, n)) \<and> notBelow f logID n)"

lemma raises_refl [simp]: "raises f f"
  by (simp add: raises_def)

lemma floorInv_raises: "floorInv (f, acc) \<Longrightarrow> raises f f' \<Longrightarrow> floorInv (f', acc)"
  by (fastforce simp: floorInv_def raises_def notBelow_def)

lemma pinnedVerify_raises:
  assumes g: "goodSigner (xeSigner E)" and v: "pinnedVerify E io mode pub hash rt = (rt', r)"
  shows "raises (rtFloor rt) (rtFloor rt')"
proof (cases "rtFloor rt' = rtFloor rt")
  case False
  from v False obtain logID version r' where j: "judgeFloor io mode logID version (rtFloor rt) = (rtFloor rt', r')" "r = Inr r'"
    by (auto simp: pinnedVerify_def split: prod.splits sum.splits)
  with False judgeFloor_refuses have "r' = None" by (cases r') auto
  with v j(2) have "pinnedVerify E io mode pub hash rt = (rt', Inr None)" by simp
  from pinnedVerify_accepts [OF g this] obtain l :: DecodedEvent and logID where
    a: "judgeFloor io mode logID (deSeq l) (rtFloor rt) = (rtFloor rt', None)" "logIDRE logID" "1 \<le> deSeq l" "deSeq l < 2 ^ 63" by blast
  from judgeFloor_accepts [OF a(1)] False floor_reads_back [OF a(2-4)] show ?thesis by (auto simp: raises_def)
qed (simp add: raises_def)

lemma resolve_raises:
  assumes g: "goodSigner (xeSigner E)" and r: "resolveRunConfig E io key mode rt = (rt', v)"
  shows "raises (rtFloor rt) (rtFloor rt')"
proof -
  have u: "raises (rtFloor rt) (rtFloor rt1)" if "verifyUnderLock E io mode pin hash rt = (rt1, x)" for pin hash rt1 x
    using that pinnedVerify_raises [OF g] by (auto simp: verifyUnderLock_def raises_def split: option.splits prod.splits)
  have "raises (rtFloor rt) (rtFloor rt1)" if "resolveLocked E io mode pin rt = (rt1, x)" for pin rt1 x
    using that by (auto simp: resolveLocked_def dest!: u split: option.splits prod.splits if_splits sum.splits)
  with r show ?thesis by (auto simp: resolveRunConfig_pin split: sum.splits)
qed

lemma runs_floor:
  assumes g: "goodSigner (xeSigner E)" and p: "pinOf E rt key = Inr (Some pub)"
    and r: "resolveRunConfig E io key VerifyAndAdvance rt = (rt', v)" "rvReg v = Some reg"
    and i: "snd (recordedInstall E io (rtDir rt) (rvHash v)) = Inr inst"
  shows "notBelow (rtFloor rt) (ifLogID inst) (ifVersion inst)" "readVerifyFloor (rtFloor rt') = Inr (Some (ifLogID inst, ifVersion inst))"
proof -
  from r(1) p have "resolveLocked E io VerifyAndAdvance (Some pub) rt = (rt', v)" by (simp add: resolveRunConfig_pin)
  from resolveLocked_runs(2) [OF this r(2)] have "pinnedVerify E io VerifyAndAdvance pub (rvHash v) rt = (rt', Inr None)"
    by (simp add: verifyUnderLock_def)
  from pinnedVerify_accepts [OF g this] i obtain l :: DecodedEvent and logID where
    a: "judgeFloor io VerifyAndAdvance logID (deSeq l) (rtFloor rt) = (rtFloor rt', None)" "logIDRE logID" "1 \<le> deSeq l" "deSeq l < 2 ^ 63"
    and n: "inst = \<lparr>ifLogID = logID, ifVersion = deSeq l, ifAt = UTC (deTime l)\<rparr>" by auto
  show "notBelow (rtFloor rt) (ifLogID inst) (ifVersion inst)" using judgeFloor_accepts(1) [OF a(1)] by (simp add: n)
  show "readVerifyFloor (rtFloor rt') = Inr (Some (ifLogID inst, ifVersion inst))"
    using judgeFloor_accepts(3) [OF a(1)] floor_reads_back [OF a(2-4)] by (auto simp: n)
qed

lemma floorInv_runs:
  assumes "floorInv (f, acc)" "notBelow f i n" "readVerifyFloor f' = Inr (Some (i, n))"
  shows "floorInv (f', acc @ [(i, n)])"
proof (cases "acc = []")
  case True
  with assms(3) show ?thesis by (simp add: floorInv_def)
next
  case False
  then obtain m where m: "readVerifyFloor f = Inr (Some (i, m))" "\<forall>(j, k) \<in> set acc. j = i \<and> k \<le> m" "m \<le> n" "sorted (map snd acc)"
    using assms(1,2) by (auto simp: floorInv_def notBelow_def)
  then have "\<forall>(j, k) \<in> set acc. j = i \<and> k \<le> n" by fastforce
  with m(4) assms(3) show ?thesis by (auto simp: floorInv_def sorted_append)
qed

lemma floorInv_step: "goodSigner (xeSigner E) \<Longrightarrow> floorInv s \<Longrightarrow> verifyStep E s t \<Longrightarrow> floorInv t"
  by (erule verifyStep.cases) (auto intro: floorInv_runs [OF _ runs_floor] floorInv_raises resolve_raises)

interpretation execFloor: step_system "\<lambda>s. snd s = []" "verifyStep E" "\<lambda>s. goodSigner (xeSigner E) \<longrightarrow> floorInv s" for E
  by unfold_locales (auto simp: floorInv_def [of "(_, [])"] intro: floorInv_step)

section \<open>The signing host\<close>

datatype signingState = SigningOff | SigningPubOnly | SigningKeyOnly | SigningOn

definition configured :: "signingState \<Rightarrow> bool" where
  "configured s \<longleftrightarrow> s \<noteq> SigningOff"

definition fileExists :: "fileAt \<Rightarrow> detail + bool" where
  "fileExists f = (case f of NotStatable \<Rightarrow> Inl (Unread ''signing'') | NoFile \<Rightarrow> Inr False | _ \<Rightarrow> Inr True)"

definition signingStateOf :: "controlRoot \<Rightarrow> detail + signingState" where
  "signingStateOf rt =
     checked (fileExists (rtSigningKey rt)) (\<lambda>key.
     checked (fileExists (rtSigningPub rt)) (\<lambda>pub.
     Inr (if key \<and> pub then SigningOn else if key then SigningKeyOnly else if pub then SigningPubOnly else SigningOff)))"

definition loadSigningPub :: "keyFormats \<Rightarrow> controlRoot \<Rightarrow> detail + bytes" where
  "loadSigningPub F rt =
     (case rtSigningPub rt of
        Holding data \<Rightarrow> (case ParseSigningPub F data of Inl e \<Rightarrow> Inl (SigningFault e) | Inr pub \<Rightarrow> Inr pub)
      | _ \<Rightarrow> Inl (Unread ''signing.pub''))"

definition loadSigningKey :: "keyFormats \<Rightarrow> controlRoot \<Rightarrow> detail + bytes" where
  "loadSigningKey F rt =
     (case rtSigningKey rt of
        Holding data \<Rightarrow> (case ParseSigningKey F data of Inl e \<Rightarrow> Inl (SigningFault e) | Inr priv \<Rightarrow> Inr priv)
      | _ \<Rightarrow> Inl (Unread ''signing.key''))"

datatype sign_error =
    ErrSigningOff
  | ErrSigningKeyMissing
  | ErrSigningPubMissing
  | ErrNothingInstalled
  | ErrNotOnRecord
  | ErrLedgerBusy
  | ErrLedgerDamaged control_error
  | PointerFault config_error
  | KeyMismatch bytes bytes
  | NoLogIDOnRecord
  | SignDetail detail
  | SignFault signing_error

record signatureInfo =
  siHash :: bytes
  siVersion :: int
  siKeyID :: bytes
  siPayload :: bytes
  siSig :: bytes

text \<open>What the ledger vouches for, signed with the pair; the ledger has been read already.\<close>

definition signRecorded :: "execEnv \<Rightarrow> controlRoot \<Rightarrow> bytes \<Rightarrow> bytes list \<Rightarrow> sign_error + signatureInfo" where
  "signRecorded E rt hash records =
     (case LastInstalling (xeDecode E) records of
        None \<Rightarrow> Inl ErrNotOnRecord
      | Some l \<Rightarrow>
          if deConfigHash l \<noteq> hash then Inl ErrNotOnRecord
          else (case GenesisLogID (kLogIDOf (xeCodec E)) records of
                  None \<Rightarrow> Inl NoLogIDOnRecord
                | Some logID \<Rightarrow>
                    (case loadSigningKey (xeKeys E) rt of
                       Inl e \<Rightarrow> Inl (SignDetail e)
                     | Inr priv \<Rightarrow>
                         (case loadSigningPub (xeKeys E) rt of
                            Inl e \<Rightarrow> Inl (SignDetail e)
                          | Inr pub \<Rightarrow>
                              let keyID = KeyID (xeSigner E) pub; derived = KeyID (xeSigner E) (edPublic (xeSigner E) priv)
                              in if derived \<noteq> keyID then Inl (KeyMismatch derived keyID)
                                 else (case SignaturePayload (xeSigner E) hash logID (deSeq l) (UTC (deTime l)) keyID of
                                         Inl e \<Rightarrow> Inl (SignFault e)
                                       | Inr p \<Rightarrow> Inr \<lparr>siHash = hash, siVersion = deSeq l, siKeyID = keyID, siPayload = p,
                                                       siSig = Sign (xeSigner E) priv p\<rparr>)))))"

definition buildSignature :: "execEnv \<Rightarrow> execIO \<Rightarrow> controlRoot \<Rightarrow> directory \<times> (sign_error + signatureInfo)" where
  "buildSignature E io rt =
     (case signingStateOf rt of
        Inl e \<Rightarrow> (rtDir rt, Inl (SignDetail e))
      | Inr SigningOff \<Rightarrow> (rtDir rt, Inl ErrSigningOff)
      | Inr SigningPubOnly \<Rightarrow> (rtDir rt, Inl ErrSigningKeyMissing)
      | Inr SigningKeyOnly \<Rightarrow> (rtDir rt, Inl ErrSigningPubMissing)
      | Inr SigningOn \<Rightarrow>
          (case InstalledHash (rtStore rt) of
             Inl e \<Rightarrow> (rtDir rt, Inl (PointerFault e))
           | Inr None \<Rightarrow> (rtDir rt, Inl ErrNothingInstalled)
           | Inr (Some hash) \<Rightarrow>
               (case Read (xeCodec E) (xiSet io) Locked (xiRace io) (rtDir rt) (xeLog E) of
                  (d', v, None) \<Rightarrow> (d', signRecorded E rt hash (vRecords v))
                | (d', v, Some e) \<Rightarrow>
                    if errCause e = Some ErrLockHeld then (d', Inl ErrLedgerBusy)
                    else if e = NotExist then (d', signRecorded E rt hash [])
                    else (d', Inl (ErrLedgerDamaged e)))))"

definition signInstalled :: "execEnv \<Rightarrow> execIO \<Rightarrow> controlRoot \<Rightarrow> controlRoot \<times> (sign_error + signatureInfo)" where
  "signInstalled E io rt =
     (case buildSignature E io rt of
        (d', Inl e) \<Rightarrow> (rt\<lparr>rtDir := d'\<rparr>, Inl e)
      | (d', Inr info) \<Rightarrow>
          (case WriteSignatureFile (xiWriteFails io) (rtSigs rt) (siHash info) (siPayload info) (siSig info) of
             (sigs', Some e) \<Rightarrow> (rt\<lparr>rtDir := d', rtSigs := sigs'\<rparr>, Inl (SignFault e))
           | (sigs', None) \<Rightarrow> (rt\<lparr>rtDir := d', rtSigs := sigs'\<rparr>, Inr info)))"

definition signIfConfigured :: "execEnv \<Rightarrow> execIO \<Rightarrow> controlRoot \<Rightarrow> controlRoot \<times> (sign_error + signatureInfo option)" where
  "signIfConfigured E io rt =
     (case signingStateOf rt of
        Inl e \<Rightarrow> (rt, Inl (SignDetail e))
      | Inr s \<Rightarrow>
          if \<not> configured s then (rt, Inr None)
          else (case signInstalled E io rt of (rt', Inl e) \<Rightarrow> (rt', Inl e) | (rt', Inr info) \<Rightarrow> (rt', Inr (Some info))))"

text \<open>\<open>config sign\<close>: the exit code and the root; a file that is the signature already is not touched.\<close>

definition cmdConfigSign :: "execEnv \<Rightarrow> execIO \<Rightarrow> controlRoot \<Rightarrow> controlRoot \<times> int" where
  "cmdConfigSign E io rt =
     (case xiLock io of
        Some _ \<Rightarrow> (rt, 1)
      | None \<Rightarrow>
          (case buildSignature E io rt of
             (d', Inl e) \<Rightarrow> (rt\<lparr>rtDir := d'\<rparr>, 1)
           | (d', Inr info) \<Rightarrow>
               if map_of (rtSigs rt) (SignaturePath (siHash info)) = Some (File (SignatureFileBytes (siPayload info) (siSig info)))
               then (rt\<lparr>rtDir := d'\<rparr>, 0)
               else (case WriteSignatureFile (xiWriteFails io) (rtSigs rt) (siHash info) (siPayload info) (siSig info) of
                       (sigs', e) \<Rightarrow> (rt\<lparr>rtDir := d', rtSigs := sigs'\<rparr>, if e = None then 0 else 1))))"

subsection \<open>The pair\<close>

datatype exclusive = Created | NotCreated | Stopped nat

definition writeExclusive :: "exclusive \<Rightarrow> bytes \<Rightarrow> fileAt \<Rightarrow> fileAt \<times> bool" where
  "writeExclusive how data f =
     (if f \<noteq> NoFile then (f, False)
      else case how of
             Created \<Rightarrow> (Holding data, True)
           | NotCreated \<Rightarrow> (f, False)
           | Stopped n \<Rightarrow> (Holding (take n data), False))"

record keygenIO =
  kgDirFails :: bool
  kgPair :: "(bytes \<times> bytes) option"
  kgKeyWrite :: exclusive
  kgPubWrite :: exclusive
  kgRemoveFails :: bool

text \<open>\<open>config keygen\<close>: the root and the exit code; \<open>kgPair\<close> is the public and private key drawn.\<close>

definition keygenPair :: "execEnv \<Rightarrow> keygenIO \<Rightarrow> controlRoot \<Rightarrow> controlRoot \<times> int" where
  "keygenPair E kg rt =
     (case kgPair kg of
        None \<Rightarrow> (rt, 1)
      | Some (pub, priv) \<Rightarrow>
          (case EncodeSigningKey (xeKeys E) priv of
             Inl _ \<Rightarrow> (rt, 1)
           | Inr keyPEM \<Rightarrow>
               (case EncodeSigningPub (xeKeys E) pub of
                  Inl _ \<Rightarrow> (rt, 1)
                | Inr pubPEM \<Rightarrow>
                    (case writeExclusive (kgKeyWrite kg) keyPEM (rtSigningKey rt) of
                       (k, False) \<Rightarrow> (rt\<lparr>rtSigningKey := k\<rparr>, 1)
                     | (k, True) \<Rightarrow>
                         (case writeExclusive (kgPubWrite kg) pubPEM (rtSigningPub rt) of
                            (p, False) \<Rightarrow> (rt\<lparr>rtSigningKey := if kgRemoveFails kg then k else NoFile, rtSigningPub := p\<rparr>, 1)
                          | (p, True) \<Rightarrow> (rt\<lparr>rtSigningKey := k, rtSigningPub := p\<rparr>, 0))))))"

definition keygenPub :: "execEnv \<Rightarrow> keygenIO \<Rightarrow> controlRoot \<Rightarrow> controlRoot \<times> int" where
  "keygenPub E kg rt =
     (case loadSigningKey (xeKeys E) rt of
        Inl _ \<Rightarrow> (rt, 1)
      | Inr priv \<Rightarrow>
          (case EncodeSigningPub (xeKeys E) (edPublic (xeSigner E) priv) of
             Inl _ \<Rightarrow> (rt, 1)
           | Inr pubPEM \<Rightarrow>
               (case writeExclusive (kgPubWrite kg) pubPEM (rtSigningPub rt) of
                  (p, ok) \<Rightarrow> (rt\<lparr>rtSigningPub := p\<rparr>, if ok then 0 else 1))))"

definition cmdConfigKeygen :: "execEnv \<Rightarrow> keygenIO \<Rightarrow> controlRoot \<Rightarrow> controlRoot \<times> int" where
  "cmdConfigKeygen E kg rt =
     (if kgDirFails kg then (rt, 1)
      else case signingStateOf rt of
             Inl _ \<Rightarrow> (rt, 1)
           | Inr SigningOn \<Rightarrow> (rt, 1)
           | Inr SigningPubOnly \<Rightarrow> (rt, 1)
           | Inr SigningKeyOnly \<Rightarrow> keygenPub E kg rt
           | Inr SigningOff \<Rightarrow> keygenPair E kg rt)"

section \<open>The audit reader's verdict on the pointer\<close>

definition applyFloorOK :: "RoleDef list \<Rightarrow> bool" where
  "applyFloorOK roles =
     list_ex (\<lambda>r. List.member (case rdControl r of None \<Rightarrow> [] | Some ops \<Rightarrow> ops) ''apply'' \<and> list_ex (\<lambda>g. g \<noteq> ''*'') (rdAllowedGroups r)) roles"

text \<open>Whether the line reports a mismatch; \<open>None\<close> is no line.\<close>

definition installedPointerLine :: "execEnv \<Rightarrow> configStore \<Rightarrow> bytes list \<Rightarrow> bool option" where
  "installedPointerLine E st records =
     (case InstalledHash st of
        Inl _ \<Rightarrow> Some True
      | Inr None \<Rightarrow> None
      | Inr (Some hash) \<Rightarrow>
          (case LastInstalling (xeDecode E) records of
             None \<Rightarrow> Some True
           | Some l \<Rightarrow> Some (deConfigHash l \<noteq> hash)))"

lemma judgeFloor_accepting: "notBelow f logID version \<Longrightarrow> \<not> xiWriteFails io \<Longrightarrow> \<exists>f'. judgeFloor io mode logID version f = (f', None)"
  by (auto simp: judgeFloor_def notBelow_def writeVerifyFloor_def Let_def split: sum.splits option.splits)

lemma LastInstalling_Nil [simp]: "LastInstalling decode [] = None"
  by (simp add: LastInstalling_def)

lemma signRecorded_Inr:
  assumes "signRecorded E rt hash records = Inr info" "loadSigningKey (xeKeys E) rt = Inr priv"
    "loadSigningPub (xeKeys E) rt = Inr (edPublic (xeSigner E) priv)"
  shows "\<exists>l logID. LastInstalling (xeDecode E) records = Some l \<and> deConfigHash l = hash \<and> siHash info = hash \<and> siVersion info = deSeq l
    \<and> GenesisLogID (kLogIDOf (xeCodec E)) records = Some logID \<and> siSig info = Sign (xeSigner E) priv (siPayload info)
    \<and> SignaturePayload (xeSigner E) hash logID (deSeq l) (UTC (deTime l)) (KeyID (xeSigner E) (edPublic (xeSigner E) priv)) = Inr (siPayload info)"
  using assms by (auto simp: signRecorded_def Let_def split: option.splits if_splits sum.splits)

lemma signInstalled_Inr:
  assumes race: "xiRace io = idle" and s: "signInstalled E io rt = (rt1, Inr info)" and k: "loadSigningKey (xeKeys E) rt = Inr priv"
    and p: "loadSigningPub (xeKeys E) rt = Inr (edPublic (xeSigner E) priv)"
  shows "\<exists>t logID. recordedInstall E io (rtDir rt) (siHash info) = (rtDir rt, Inr \<lparr>ifLogID = logID, ifVersion = siVersion info, ifAt = UTC t\<rparr>)
    \<and> SignaturePayload (xeSigner E) (siHash info) logID (siVersion info) (UTC t) (KeyID (xeSigner E) (edPublic (xeSigner E) priv)) = Inr (siPayload info)
    \<and> rtDir rt1 = rtDir rt \<and> rtFloor rt1 = rtFloor rt \<and> siSig info = Sign (xeSigner E) priv (siPayload info)
    \<and> map_of (rtSigs rt1) (SignaturePath (siHash info)) = Some (File (SignatureFileBytes (siPayload info) (siSig info)))"
proof -
  obtain d' v err where R: "Read (xeCodec E) (xiSet io) Locked (xiRace io) (rtDir rt) (xeLog E) = (d', v, err)" by (metis prod_cases3)
  have d': "d' = rtDir rt" using R Read_idle [of "xeCodec E" "xiSet io" Locked "rtDir rt" "xeLog E"] by (simp add: race)
  from s obtain d'' where b: "buildSignature E io rt = (d'', Inr info)"
    and w: "rtDir rt1 = d''" "rtFloor rt1 = rtFloor rt" "rtSigs rt1 = (SignaturePath (siHash info), File (SignatureFileBytes (siPayload info) (siSig info))) # rtSigs rt"
    by (auto simp: signInstalled_def WriteSignatureFile_def split: prod.splits sum.splits if_splits)
  from b R d' obtain hash where h: "err = None" "signRecorded E rt hash (vRecords v) = Inr info" "d'' = rtDir rt"
    by (auto simp: buildSignature_def signRecorded_def [of _ _ _ "[]"] split: sum.splits signingState.splits option.splits if_splits)
  from signRecorded_Inr [OF h(2) k p] obtain l logID where l: "LastInstalling (xeDecode E) (vRecords v) = Some l" "deConfigHash l = siHash info"
    "siVersion info = deSeq l" "GenesisLogID (kLogIDOf (xeCodec E)) (vRecords v) = Some logID" "siSig info = Sign (xeSigner E) priv (siPayload info)"
    "SignaturePayload (xeSigner E) (siHash info) logID (deSeq l) (UTC (deTime l)) (KeyID (xeSigner E) (edPublic (xeSigner E) priv)) = Inr (siPayload info)"
    by auto
  have "vouchInstalled E io (rtDir rt) (siHash info) = (rtDir rt, vRecords v, Some l, None)"
    using R d' h(1) l(1,2) by (simp add: vouchInstalled_def vouchRecords_def)
  then have "recordedInstall E io (rtDir rt) (siHash info) = (rtDir rt, Inr \<lparr>ifLogID = logID, ifVersion = siVersion info, ifAt = UTC (deTime l)\<rparr>)"
    using l(3,4) by (simp add: recordedInstall_def)
  with w h(3) l(3,5,6) show ?thesis by auto
qed

section \<open>Properties\<close>

text \<open>
  C15: what runs is what the operator installed. When \<open>resolveRunConfig\<close> hands out a registry, the pointer names the
  hash reported, the snapshot's files hash as that, the configuration is what they load as and it builds; the
  control ledger was read without a fault and its last install is that hash; and when a key is pinned, the store
  holds, for exactly this install of this ledger, a signature that verifies under the pinned key, at or above the
  floor of the execution point.
\<close>

theorem executed_configuration_is_authentic:
  assumes "goodSigner (xeSigner E)" "resolveRunConfig E io verifyKey mode rt = (rt', v)" "rvReg v = Some reg"
  shows "InstalledHash (rtStore rt) = Inr (Some (rvHash v))
    \<and> HashDir (edSha (xeSigner E)) (SnapshotDir (rtStore rt) (rvHash v)) = Inr (rvHash v)
    \<and> LoadDir (xeYaml E) (SnapshotDir (rtStore rt) (rvHash v)) = (rvCfg v, []) \<and> Build (xeURL E) (rvCfg v) = Inr reg
    \<and> (\<exists>view l. vouchedBy E io (rtDir rt) (rvHash v) view l
         \<and> (\<forall>pub. pinOf E rt verifyKey = Inr (Some pub) \<longrightarrow> (\<exists>logID. signedInstall E rt pub (rvHash v) view l logID)))"
proof -
  from assms(2,3) obtain pin where p: "pinOf E rt verifyKey = Inr pin" "resolveLocked E io mode pin rt = (rt', v)"
    by (auto simp: resolveRunConfig_pin unresolved_def split: sum.splits)
  note r = resolveLocked_runs [OF p(2) assms(3)]
  show ?thesis using LoadInstalled_clean [OF r(1)] r(3) verifyUnderLock_accepts [OF assms(1) r(2)] p(1) by auto
qed

text \<open>
  C16: no rollback. Whatever happens to the ledger, the store, the signatures and the pinned key of an execution point
  between its runs, as long as its floor file is left alone, the installs it accepts to run under a pin are all
  of one ledger and their versions never go down.
\<close>

theorem no_rollback:
  assumes "goodSigner (xeSigner E)" "reachableFrom (\<lambda>s. snd s = []) (verifyStep E) (f, accepted)"
  shows "sorted (map snd accepted) \<and> (\<forall>(i, m) \<in> set accepted. \<forall>(j, n) \<in> set accepted. i = j)"
proof -
  have "floorInv (f, accepted)" using execFloor.reachable_inv [OF assms(2)] assms(1) by blast
  then have s: "sorted (map snd accepted)"
    and one: "accepted = [] \<or> (\<exists>logID n. \<forall>(i, k) \<in> set accepted. i = logID \<and> k \<le> n)" by (auto simp: floorInv_def)
  have "i = j" if "(i, m) \<in> set accepted" "(j, n) \<in> set accepted" for i m j n
  proof -
    from that(1) one obtain logID k where a: "\<forall>(i, k') \<in> set accepted. i = logID \<and> k' \<le> k" by (cases accepted) auto
    from bspec [OF a that(1)] bspec [OF a that(2)] show ?thesis by simp
  qed
  with s show ?thesis by blast
qed

text \<open>
  C17: what the host signs, an execution point accepts. When the sign step of an install succeeds, with no other
  process at the ledger, a verification of the same root under the host's public key, by a point whose floor is not above,
  passes; so a signature never locks out the install it was made for.
\<close>

theorem signed_install_is_accepted:
  assumes "goodSigner (xeSigner E)" "xiRace io = idle" "\<not> xiWriteFails io"
    and "signInstalled E io rt = (rt1, Inr info)" "siVersion info < 2 ^ 63"
    and "loadSigningKey (xeKeys E) rt = Inr priv" "loadSigningPub (xeKeys E) rt = Inr (edPublic (xeSigner E) priv)"
    and "\<And>inst. snd (recordedInstall E io (rtDir rt) (siHash info)) = Inr inst \<Longrightarrow> notBelow (rtFloor rt) (ifLogID inst) (ifVersion inst)"
  shows "\<exists>rt2. pinnedVerify E io mode (edPublic (xeSigner E) priv) (siHash info) rt1 = (rt2, Inr None)"
proof -
  note s = signInstalled_Inr [OF assms(2,4,6,7)]
  from s obtain t logID where l: "recordedInstall E io (rtDir rt) (siHash info) = (rtDir rt, Inr \<lparr>ifLogID = logID, ifVersion = siVersion info, ifAt = UTC t\<rparr>)"
    and p: "SignaturePayload (xeSigner E) (siHash info) logID (siVersion info) (UTC t) (KeyID (xeSigner E) (edPublic (xeSigner E) priv)) = Inr (siPayload info)"
    and rt1: "rtDir rt1 = rtDir rt" "rtFloor rt1 = rtFloor rt" "siSig info = Sign (xeSigner E) priv (siPayload info)"
      "map_of (rtSigs rt1) (SignaturePath (siHash info)) = Some (File (SignatureFileBytes (siPayload info) (siSig info)))" by blast
  obtain f' where "judgeFloor io mode logID (siVersion info) (rtFloor rt) = (f', None)"
    using judgeFloor_accepting [OF _ assms(3)] assms(8) l by force
  moreover have "verifySignatureFile (xeSigner E) (rtSigs rt1) (siHash info) logID (siVersion info) (UTC t) (edPublic (xeSigner E) priv)
      = Inr \<lparr>sfPayload = siPayload info, sfHash = siHash info, sfLogID = logID, sfVersion = siVersion info, sfInstalledAt = edTime (xeSigner E) t,
          sfKeyID = KeyID (xeSigner E) (edPublic (xeSigner E) priv), sfSig = siSig info\<rparr>"
    unfolding verifySignatureFile_def rt1(4)
    using signed_file [OF assms(1) p assms(5), of priv "siPayload info"] p Sign_verifies [OF assms(1), of priv "siPayload info"] by (simp add: rt1(3))
  ultimately show ?thesis using l rt1 by (simp add: pinnedVerify_def)
qed

text \<open>
  A run is refused for one reason. The load and validation errors and the verification's refusal are
  never both reported; whenever either is, no registry is handed out; and a busy lock, the one outcome that is not
  recorded, comes with nothing else.
\<close>

theorem resolve_reports_one_reason:
  "case resolveRunConfig E io verifyKey mode rt of
     (rt', v) \<Rightarrow> (rvErrs v = [] \<or> rvUnverified v = None) \<and> (rvErrs v = [] \<and> rvUnverified v = None \<or> rvReg v = None)
       \<and> (case rvUnverified v of None \<Rightarrow> True
          | Some r \<Rightarrow> (if Transient r then rvHash v = [] \<and> \<not> rvInstalled v \<and> rvErrs v = [] else Headline r \<noteq> msgLockBusy))"
proof -
  have head: "\<not> Transient r \<Longrightarrow> Headline r \<noteq> msgLockBusy" for r
    by (cases "vrKind r") (simp_all add: Transient_def Headline_def msgLockBusy_def)
  have n: "\<not> Transient (notVerifiable e)" for e by (simp add: Transient_def notVerifiable_def)
  have u: "rvReg (unresolved E r) = None" "rvErrs (unresolved E r) = []" "rvUnverified (unresolved E r) = Some r" "rvHash (unresolved E r) = []"
    "\<not> rvInstalled (unresolved E r)" for r by (simp_all add: unresolved_def)
  have b: "rvUnverified (buildResolved E cfg hash i es) = None" "rvReg (buildResolved E cfg hash i es) = Some r \<Longrightarrow> rvErrs (buildResolved E cfg hash i es) = []"
    for cfg hash i es r by (auto simp: buildResolved_def Let_def split: if_splits)
  show ?thesis
    by (auto simp: resolveRunConfig_pin resolveLocked_def u b n head split: sum.splits prod.splits option.splits)
qed

text \<open>
  The auditor and the execution point agree: on the same records, the line of \<open>audit verify control\<close> reports no
  mismatch for an installed pointer exactly when the vouch accepts it.
\<close>

theorem vouch_agrees_with_the_audit:
  assumes "InstalledHash st = Inr (Some hash)"
  shows "installedPointerLine E st records = Some False \<longleftrightarrow> snd (snd (vouchRecords E records hash)) = None"
  using assms by (simp add: installedPointerLine_def vouchRecords_def split: option.splits)

text \<open>
  Key generation never replaces a private key, and what it reports as done is a working pair: with key formats that
  read back, the private file holds the drawn key or the one that was there, and the public file its public half.
\<close>

theorem keygen_leaves_a_working_pair:
  assumes "\<And>ty der. \<exists>rest. kfDecodePEM (xeKeys E) (kfEncodePEM (xeKeys E) ty der) = Some (ty, der, rest) \<and> trimSpace rest = []"
    and "\<And>k der. kfMarshalPKIX (xeKeys E) k = Some der \<Longrightarrow> kfParsePKIX (xeKeys E) der = Some (Ed25519Key k)"
    and "\<And>k der. kfMarshalPKCS8 (xeKeys E) k = Some der \<Longrightarrow> kfParsePKCS8 (xeKeys E) der = Some (Ed25519Key k)"
    and "\<And>pub priv. kgPair kg = Some (pub, priv) \<Longrightarrow> pub = edPublic (xeSigner E) priv"
    and "cmdConfigKeygen E kg rt = (rt', c)"
  shows "(rtSigningKey rt \<noteq> NoFile \<longrightarrow> rtSigningKey rt' = rtSigningKey rt)
    \<and> (c = 0 \<longrightarrow> (\<exists>priv. loadSigningKey (xeKeys E) rt' = Inr priv \<and> loadSigningPub (xeKeys E) rt' = Inr (edPublic (xeSigner E) priv)))"
proof -
  note r = key_files_read_back [of "xeKeys E", OF assms(1-3)]
  have w: "writeExclusive how data f = (f', True) \<Longrightarrow> f = NoFile \<and> f' = Holding data" "f \<noteq> NoFile \<Longrightarrow> writeExclusive how data f = (f, False)"
    for how data f f' by (auto simp: writeExclusive_def split: if_splits exclusive.splits)
  show ?thesis
  proof (cases "signingStateOf rt = Inr SigningOff")
    case True
    then have "rtSigningKey rt = NoFile" by (auto simp: signingStateOf_def fileExists_def checked_def split: fileAt.splits if_splits)
    with assms(5) True show ?thesis
      using r assms(4)
      by (auto simp: cmdConfigKeygen_def keygenPair_def loadSigningKey_def loadSigningPub_def dest!: w(1) split: if_splits option.splits prod.splits sum.splits bool.splits)
  next
    case False
    with assms(5) show ?thesis
      using r
      by (auto simp: cmdConfigKeygen_def keygenPub_def loadSigningKey_def loadSigningPub_def dest!: w(1) split: if_splits option.splits prod.splits sum.splits signingState.splits fileAt.splits)
  qed
qed

text \<open>
  A public file can be left behind. When the write of the public file stops after it was created, key generation removes
  the private file only: the truncated public file stays, the host counts as one that signs, and the next key
  generation refuses.
\<close>

theorem stopped_keygen_leaves_a_public_file:
  assumes "\<not> kgDirFails kg" "rtSigningKey rt = NoFile" "rtSigningPub rt = NoFile" "kgPair kg = Some (pub, priv)"
    and "EncodeSigningKey (xeKeys E) priv = Inr keyPEM" "EncodeSigningPub (xeKeys E) pub = Inr pubPEM"
    and "kgKeyWrite kg = Created" "kgPubWrite kg = Stopped n" "\<not> kgRemoveFails kg"
  shows "\<exists>rt'. cmdConfigKeygen E kg rt = (rt', 1) \<and> signingStateOf rt' = Inr SigningPubOnly
    \<and> (\<forall>kg'. cmdConfigKeygen E kg' rt' = (rt', 1))"
  using assms by (simp add: cmdConfigKeygen_def signingStateOf_def fileExists_def checked_def keygenPair_def writeExclusive_def)


section \<open>A root that runs\<close>

definition opsRole :: RoleDef where
  "opsRole = \<lparr>rdName = ''ops'', rdDescription = '''', rdWorkflows = [], rdAllowedGroups = [''ops''], rdControl = Some [''apply''],
     rdBudgetUSDMonth = 0, rdSourceFile = ''''\<rparr>"

definition opsYaml :: decoders where
  "opsYaml = \<lparr>yAgent = (\<lambda>_. None), yWorkflow = (\<lambda>_. None), yRole = (\<lambda>_. Some opsRole), yGateway = (\<lambda>_. (cfgGateway demoCfg, True)),
     yNoGateway = (cfgGateway demoCfg)\<lparr>gwTools := []\<rparr>\<rparr>"

definition opsDir :: configDir where
  "opsDir = \<lparr>cdNodes = [(''roles/o.yaml'', File ''r'')], cdUnlisted = []\<rparr>"

definition opsHash :: bytes where
  "opsHash = canonHash (edSha demoSigner) [(''roles/o.yaml'', ''r'')]"

definition opsEvent :: DecodedEvent where
  "opsEvent = \<lparr>deV = '''', deSeq = 1, deTime = 5, deAction = ''apply'', deAgent = '''', deOutcome = ''success'', deReason = None,
     deInvoker = \<lparr>invSubject = ''s'', invIssuer = '''', invMethod = '''', invGroups = []\<rparr>, deAssertedAs = '''', deWitness = \<lparr>wtOSUser = '''', wtHostname = ''''\<rparr>, deConfigHash = opsHash,
     deBootstrap = False, deFragmentLen = 0, deFragmentSHA = '''', deOrigin = None, deDetail = [], deAnchor = None, deSeal = None\<rparr>"

text \<open>A key block is its type's length in unary, the type and the bytes.\<close>

definition opsKeys :: keyFormats where
  "opsKeys = \<lparr>kfDecodePEM = (\<lambda>b. let n = length (takeWhile (\<lambda>c. c = CHR ''x'') b); r = drop (n + 1) b in Some (take n r, drop n r, [])),
     kfEncodePEM = (\<lambda>ty der. replicate (length ty) (CHR ''x'') @ ''|'' @ ty @ der),
     kfParsePKCS8 = (\<lambda>der. Some (Ed25519Key der)), kfMarshalPKCS8 = Some,
     kfParsePKIX = (\<lambda>der. Some (Ed25519Key der)), kfMarshalPKIX = Some\<rparr>"

definition opsEnv :: execEnv where
  "opsEnv = \<lparr>xeCodec = demoCodec, xeDecode = (\<lambda>l. if l = ''A'' then Some opsEvent else None), xeYaml = opsYaml, xeSigner = demoSigner,
     xeKeys = opsKeys, xeURL = Registry.demoURL, xeLog = ''c''\<rparr>"

definition opsIO :: execIO where
  "opsIO = \<lparr>xiSet = quietIO, xiRace = idle, xiLock = None, xiWriteFails = False\<rparr>"

definition opsPub :: bytes where
  "opsPub = kfEncodePEM opsKeys pemTypeSigningPub ''k''"

definition opsRoot :: controlRoot where
  "opsRoot = \<lparr>rtStore = \<lparr>csPointer = PointerFile (opsHash @ [newline]), csDirs = [(snapshotName opsHash, opsDir)]\<rparr>,
     rtSigs = [], rtDir = demoD1, rtFloor = NoFile, rtVerifyPub = Holding opsPub,
     rtSigningKey = Holding (kfEncodePEM opsKeys pemTypeSigningKey ''k''), rtSigningPub = Holding opsPub\<rparr>"

definition opsSigned :: controlRoot where
  "opsSigned = fst (signInstalled opsEnv opsIO opsRoot)"

lemma ops_env [simp]:
  "xeCodec opsEnv = demoCodec" "xeDecode opsEnv l = (if l = ''A'' then Some opsEvent else None)" "xeYaml opsEnv = opsYaml" "xeSigner opsEnv = demoSigner"
  "xeKeys opsEnv = opsKeys" "xeURL opsEnv = Registry.demoURL" "xeLog opsEnv = ''c''"
  "xiSet opsIO = quietIO" "xiRace opsIO = idle" "xiLock opsIO = None" "\<not> xiWriteFails opsIO"
  by (simp_all add: opsEnv_def opsIO_def)

lemma ops_hash: "installedHashOK opsHash" "HashDir (edSha demoSigner) (Some opsDir) = Inr opsHash" "opsHash \<noteq> []"
proof -
  show "installedHashOK opsHash" unfolding opsHash_def by (rule canonHash_ok) (use goodSigner_demo in \<open>simp add: demoSigner_def\<close>)
  have "configFiles (Some opsDir) = Inr [''roles/o.yaml'']" "readAll (Some opsDir) [''roles/o.yaml''] = Inr [(''roles/o.yaml'', ''r'')]" by code_simp+
  then show "HashDir (edSha demoSigner) (Some opsDir) = Inr opsHash" by (simp add: HashDir_def opsHash_def)
  show "opsHash \<noteq> []" by (simp add: opsHash_def canonHash_def)
qed

lemma ops_read: obtains v where "Read demoCodec quietIO Locked idle demoD1 ''c'' = (demoD1, v, None)" "vRecords v = [''A'']"
proof -
  have "snd (snd (Read demoCodec quietIO Locked idle demoD1 ''c'')) = None" "vRecords (fst (snd (Read demoCodec quietIO Locked idle demoD1 ''c''))) = [''A'']"
    by code_simp+
  with Read_idle [of demoCodec quietIO Locked demoD1 "''c''"] that show thesis by (metis prod.collapse)
qed

lemma ops_genesis: "GenesisLogID (kLogIDOf demoCodec) [''A''] = Some demoLogID" "logIDRE demoLogID"
  by code_simp+

lemma ops_event: "LastInstalling (xeDecode opsEnv) [''A''] = Some opsEvent" "deConfigHash opsEvent = opsHash" "deSeq opsEvent = 1" "deTime opsEvent = 5"
  using ops_hash(3) by (simp_all add: LastInstalling_def opsEvent_def Installing_def)

lemma ops_recorded: "recordedInstall opsEnv opsIO demoD1 opsHash = (demoD1, Inr \<lparr>ifLogID = demoLogID, ifVersion = 1, ifAt = UTC 5\<rparr>)"
proof -
  obtain v where "Read demoCodec quietIO Locked idle demoD1 ''c'' = (demoD1, v, None)" "vRecords v = [''A'']" by (rule ops_read)
  then show ?thesis by (simp add: recordedInstall_def vouchInstalled_def vouchRecords_def ops_event ops_genesis del: ops_env(2))
qed

lemma ops_keys: "ParseSigningPub opsKeys opsPub = Inr ''k''" "ParseSigningKey opsKeys (kfEncodePEM opsKeys pemTypeSigningKey ''k'') = Inr ''k''"
  by code_simp+

lemma ops_loads: "loadSigningKey opsKeys opsRoot = Inr ''k''" "loadSigningPub opsKeys opsRoot = Inr ''k''" "edPublic demoSigner k = k"
  by (simp_all add: loadSigningKey_def loadSigningPub_def opsRoot_def ops_keys demoSigner_def)

definition opsPayload :: bytes where
  "opsPayload = payloadText opsHash demoLogID 1 (showInt 5) (KeyID demoSigner ''k'')"

lemma ops_payload: "SignaturePayload demoSigner opsHash demoLogID 1 (UTC 5) (KeyID demoSigner ''k'') = Inr opsPayload"
  unfolding SignaturePayload_Inr opsPayload_def using ops_hash(1) ops_genesis(2) goodSigner_KeyID [OF goodSigner_demo]
  by (auto simp: demoSigner_def)

lemma ops_signs: "signInstalled opsEnv opsIO opsRoot = (opsSigned, Inr \<lparr>siHash = opsHash, siVersion = 1, siKeyID = KeyID demoSigner ''k'',
    siPayload = opsPayload, siSig = Sign demoSigner ''k'' opsPayload\<rparr>)"
proof -
  obtain v where v: "Read demoCodec quietIO Locked idle demoD1 ''c'' = (demoD1, v, None)" "vRecords v = [''A'']" by (rule ops_read)
  have i: "InstalledHash (rtStore opsRoot) = Inr (Some opsHash)"
    by (rule InstalledHash_committed [OF ops_hash(1)]) (simp add: opsRoot_def)
  have "signingStateOf opsRoot = Inr SigningOn" "rtDir opsRoot = demoD1" by (simp_all add: signingStateOf_def fileExists_def checked_def opsRoot_def)
  then have "buildSignature opsEnv opsIO opsRoot = (demoD1, Inr \<lparr>siHash = opsHash, siVersion = 1, siKeyID = KeyID demoSigner ''k'',
    siPayload = opsPayload, siSig = Sign demoSigner ''k'' opsPayload\<rparr>)"
    by (simp add: buildSignature_def i v signRecorded_def ops_event ops_genesis ops_loads ops_payload Let_def del: ops_env(2))
  then show ?thesis by (simp add: opsSigned_def signInstalled_def WriteSignatureFile_def ops_hash(1))
qed

lemma ops_signed: "rtStore opsSigned = rtStore opsRoot" "rtDir opsSigned = demoD1" "rtFloor opsSigned = NoFile" "rtVerifyPub opsSigned = Holding opsPub"
  "map_of (rtSigs opsSigned) (SignaturePath opsHash) = Some (File (SignatureFileBytes opsPayload (Sign demoSigner ''k'' opsPayload)))"
proof -
  have l: "loadSigningKey (xeKeys opsEnv) opsRoot = Inr ''k''" "loadSigningPub (xeKeys opsEnv) opsRoot = Inr (edPublic (xeSigner opsEnv) ''k'')" by (simp_all add: ops_loads)
  from signInstalled_Inr [OF ops_env(9) ops_signs l]
  show "rtDir opsSigned = demoD1" "rtFloor opsSigned = NoFile"
    "map_of (rtSigs opsSigned) (SignaturePath opsHash) = Some (File (SignatureFileBytes opsPayload (Sign demoSigner ''k'' opsPayload)))"
    by (auto simp: opsRoot_def)
  show "rtStore opsSigned = rtStore opsRoot" "rtVerifyPub opsSigned = Holding opsPub"
    by (auto simp: opsSigned_def signInstalled_def opsRoot_def split: prod.splits sum.splits option.splits)
qed

lemma ops_verifies: "\<exists>rt'. pinnedVerify opsEnv opsIO VerifyAndAdvance ''k'' opsHash opsSigned = (rt', Inr None)"
proof -
  have "verifySignatureFile demoSigner (rtSigs opsSigned) opsHash demoLogID 1 (UTC 5) ''k'' =
      Inr \<lparr>sfPayload = opsPayload, sfHash = opsHash, sfLogID = demoLogID, sfVersion = 1, sfInstalledAt = edTime demoSigner 5,
          sfKeyID = KeyID demoSigner ''k'', sfSig = Sign demoSigner ''k'' opsPayload\<rparr>"
    unfolding verifySignatureFile_def ops_signed(5)
    using signed_file [OF goodSigner_demo ops_payload, of "''k''" opsPayload] ops_payload Sign_verifies [OF goodSigner_demo, of "''k''" opsPayload]
    by (simp add: ops_loads)
  then show ?thesis by (simp add: pinnedVerify_def ops_signed ops_recorded judgeFloor_def readVerifyFloor_def writeVerifyFloor_def)
qed

definition opsCfg :: Config where
  "opsCfg = \<lparr>cfgAgents = [], cfgWorkflows = [], cfgRoles = [opsRole\<lparr>rdSourceFile := ''roles/o.yaml''\<rparr>], cfgGateway = yNoGateway opsYaml\<rparr>"

lemma ops_build: "Build Registry.demoURL opsCfg = Inr (registryOf Registry.demoURL opsCfg)"
  by (rule Build_Validate) code_simp

lemma ops_load: "LoadInstalled opsYaml (edSha demoSigner) (rtStore opsRoot) = (opsCfg, opsHash, True, [])"
proof -
  have s: "SnapshotDir (rtStore opsRoot) opsHash = Some opsDir" by (simp add: SnapshotDir_def opsRoot_def)
  have i: "InstalledHash (rtStore opsRoot) = Inr (Some opsHash)"
    by (rule InstalledHash_committed [OF ops_hash(1)]) (simp add: opsRoot_def)
  have f: "configFiles (Some opsDir) = Inr [''roles/o.yaml'']" "readNode (Some opsDir) ''roles/o.yaml'' = Some ''r''"
    "groupOf ''roles/o.yaml'' = ''roles''" by code_simp+
  show ?thesis by (simp add: LoadInstalled_def i VerifyInstalled_def s ops_hash loadFiles_def f loadFile_def opsYaml_def emptyConfig_def opsCfg_def)
qed

lemma ops_pin: "pinOf opsEnv opsSigned None = Inr (Some ''k'')"
  by (simp add: pinOf_def pinnedKeyPath_def ops_signed loadVerifyPub_def ops_keys)

lemma ops_runs:
  obtains rt' v where "resolveRunConfig opsEnv opsIO None VerifyAndAdvance opsSigned = (rt', v)"
    "rvReg v = Some (registryOf Registry.demoURL opsCfg)" "rvHash v = opsHash"
proof -
  obtain rt' where "pinnedVerify opsEnv opsIO VerifyAndAdvance ''k'' opsHash opsSigned = (rt', Inr None)" using ops_verifies ..
  then have "resolveRunConfig opsEnv opsIO None VerifyAndAdvance opsSigned = (rt', buildResolved opsEnv opsCfg opsHash True [])"
    by (simp add: resolveRunConfig_pin ops_pin resolveLocked_def ops_signed ops_load verifyUnderLock_def)
  then show thesis by (rule that) (simp_all add: buildResolved_def ops_build)
qed

theorem executed_configuration_is_authentic_witness:
  "\<exists>view l logID. vouchedBy opsEnv opsIO demoD1 opsHash view l \<and> signedInstall opsEnv opsSigned ''k'' opsHash view l logID"
proof -
  obtain rt' v where r: "resolveRunConfig opsEnv opsIO None VerifyAndAdvance opsSigned = (rt', v)"
    "rvReg v = Some (registryOf Registry.demoURL opsCfg)" "rvHash v = opsHash" by (rule ops_runs)
  have "goodSigner (xeSigner opsEnv)" by (simp add: goodSigner_demo)
  from executed_configuration_is_authentic [OF this r(1,2)] show ?thesis by (auto simp: r(3) ops_signed ops_pin)
qed

theorem no_rollback_witness:
  "\<exists>f. reachableFrom (\<lambda>s. snd s = []) (verifyStep opsEnv) (f, [(demoLogID, 1)]) \<and> sorted (map snd [(demoLogID, 1::int)])"
proof -
  obtain rt' v where r: "resolveRunConfig opsEnv opsIO None VerifyAndAdvance opsSigned = (rt', v)"
    "rvReg v = Some (registryOf Registry.demoURL opsCfg)" "rvHash v = opsHash" by (rule ops_runs)
  have i: "snd (recordedInstall opsEnv opsIO (rtDir opsSigned) (rvHash v)) = Inr \<lparr>ifLogID = demoLogID, ifVersion = 1, ifAt = UTC 5\<rparr>"
    by (simp add: r(3) ops_signed ops_recorded)
  have "reachableFrom (\<lambda>s. snd s = []) (verifyStep opsEnv) (NoFile, [])" by (rule reach_init) simp
  from reach_step [OF this verifyStep.runs [OF ops_signed(3) ops_pin r(1,2) i]]
  have p: "reachableFrom (\<lambda>s. snd s = []) (verifyStep opsEnv) (rtFloor rt', [(demoLogID, 1)])" by simp
  have "goodSigner (xeSigner opsEnv)" by (simp add: goodSigner_demo)
  from no_rollback [OF this p] p show ?thesis by blast
qed

theorem signed_install_is_accepted_witness:
  "\<exists>rt2. pinnedVerify opsEnv opsIO VerifyOnly ''k'' opsHash opsSigned = (rt2, Inr None)"
proof -
  have g: "goodSigner (xeSigner opsEnv)" by (simp add: goodSigner_demo)
  have l: "loadSigningKey (xeKeys opsEnv) opsRoot = Inr ''k''" "loadSigningPub (xeKeys opsEnv) opsRoot = Inr (edPublic (xeSigner opsEnv) ''k'')" by (simp_all add: ops_loads)
  have n: "notBelow (rtFloor opsRoot) i n" for i n by (simp add: notBelow_def readVerifyFloor_def opsRoot_def)
  from signed_install_is_accepted [OF g ops_env(9,11) ops_signs _ l n, of VerifyOnly] show ?thesis by (simp add: ops_loads)
qed

definition opsDraw :: keygenIO where
  "opsDraw = \<lparr>kgDirFails = False, kgPair = Some (''k'', ''k''), kgKeyWrite = Created, kgPubWrite = Created, kgRemoveFails = False\<rparr>"

definition opsBare :: controlRoot where
  "opsBare = opsRoot\<lparr>rtSigningKey := NoFile, rtSigningPub := NoFile\<rparr>"

theorem keygen_leaves_a_working_pair_witness:
  "\<exists>priv. loadSigningKey opsKeys (fst (cmdConfigKeygen opsEnv opsDraw opsBare)) = Inr priv
     \<and> loadSigningPub opsKeys (fst (cmdConfigKeygen opsEnv opsDraw opsBare)) = Inr priv"
proof -
  have pem: "\<exists>rest. kfDecodePEM (xeKeys opsEnv) (kfEncodePEM (xeKeys opsEnv) ty der) = Some (ty, der, rest) \<and> trimSpace rest = []" for ty der
  proof -
    have "takeWhile (\<lambda>c. c = CHR ''x'') (replicate n (CHR ''x'') @ CHR ''|'' # r) = replicate n (CHR ''x'')" for n r by (induction n) auto
    moreover have "trimSpace [] = []" by code_simp
    ultimately show ?thesis by (simp add: opsKeys_def Let_def)
  qed
  have k: "kfMarshalPKIX (xeKeys opsEnv) k = Some der \<Longrightarrow> kfParsePKIX (xeKeys opsEnv) der = Some (Ed25519Key k)"
    "kfMarshalPKCS8 (xeKeys opsEnv) k = Some der \<Longrightarrow> kfParsePKCS8 (xeKeys opsEnv) der = Some (Ed25519Key k)" for k der by (simp_all add: opsKeys_def)
  have d: "kgPair opsDraw = Some (pub, priv) \<Longrightarrow> pub = edPublic (xeSigner opsEnv) priv" for pub priv by (auto simp: opsDraw_def ops_loads)
  have "snd (cmdConfigKeygen opsEnv opsDraw opsBare) = 0" 
    by (simp add: cmdConfigKeygen_def opsDraw_def opsBare_def signingStateOf_def fileExists_def checked_def keygenPair_def EncodeSigningKey_def
        EncodeSigningPub_def opsKeys_def writeExclusive_def)
  then have c: "cmdConfigKeygen opsEnv opsDraw opsBare = (fst (cmdConfigKeygen opsEnv opsDraw opsBare), 0)" by (simp add: prod_eq_iff)
  from keygen_leaves_a_working_pair [OF pem k d c] show ?thesis by (simp add: ops_loads)
qed

end
