(* ===== verification/Spec2Isabelle.thy ===== *)
theory Spec2Isabelle
  imports Prelude Utf8 Interfaces Ledger Config_Types Authz Paths Spawn_Graph Registry Origin Artifact
    Engine Engine_Run Completeness Run_Complete Run_Tree Run_Log Control_Event
    Control_Set Control_Write Control_Names Control_Rep Control_Append Control_Rotate Control_Torn Control_Root
    Control_Repair Control_Restore Control_Accept Control_Rebuild Control_Mend Gateway_Tools Gateway_Doors Gateway_Run
    Sink Seal_Copy Sink_Copy Sink_Wire Config_Store Config_Install Config_Integrity Config_Signing
    Exec_Verify
begin

text \<open>
  \<^bold>\<open>Agenthof, a verification development.\<close> Agenthof runs workflows of agents for people who may run them, and
  keeps a record of everything that happened. The Go program lives under \<^verbatim>\<open>src/internal\<close> and \<^verbatim>\<open>src/cmd\<close>; this
  development translates its core into HOL and proves what that core promises.

  \<^bold>\<open>The parts and how they meet.\<close> A configuration directory (agents, workflows, roles, gateway) is loaded,
  validated into a registry, hashed, signed and installed. An invoker asks for a workflow; authorization decides from
  the roles; the engine runs the steps one after the other, calls the agents, and appends one event per
  occurrence to the run's hash-chained ledger. A running step reaches the outside only through the run
  gateway's doors (tools, exec, model, spawn), each of which records what it did and is counted, so that
  the completeness check can later tell whether the ledger accounts for itself. Every change of the control
  plane is a record of the control ledger, a chain that is rotated into sealed segments under a manifest;
  a sealed segment is copied to a write-once sink, from which single segments or the whole set can be restored.

  \<^bold>\<open>The theories.\<close>
  \<^item> \<open>Prelude\<close>, \<open>Utf8\<close>, \<open>Interfaces\<close>: byte strings, decimal and hex text, the runes of UTF-8 with Go's handling of
    bytes that are not; the locales of an append-only log (\<open>append_log\<close>) and of a step system with an
    invariant (\<open>step_system\<close>), interpreted in \<open>Ledger\<close>, \<open>Control_Root\<close>, \<open>Gateway_Run\<close>
    and \<open>Exec_Verify\<close>.
  \<^item> \<open>Ledger\<close> (\<^verbatim>\<open>ledger/ledger.go\<close>): reading, opening, appending to and resuming the chained file. A chain is
    accepted exactly when its lines obey the \<open>prev\<close> and \<open>seq\<close> rules; appends read back; a torn append is
    reported as such; equal heads mean equal files.
  \<^item> \<open>Config_Types\<close> (\<^verbatim>\<open>config/types.go\<close>), \<open>Authz\<close> (\<^verbatim>\<open>identity\<close>, \<^verbatim>\<open>authz\<close>), \<open>Paths\<close>, \<open>Spawn_Graph\<close>, \<open>Registry\<close>
    (\<^verbatim>\<open>registry/validate.go\<close>, \<^verbatim>\<open>registry.go\<close>), \<open>Origin\<close> (\<^verbatim>\<open>origin\<close>): the configuration's data and decisions, who may
    run and who may control, what an accepted configuration satisfies, the exact search for spawn cycles,
    the sanitizing of request provenance.
  \<^item> \<open>Config_Store\<close>, \<open>Config_Install\<close> (\<^verbatim>\<open>config/load.go\<close>, \<^verbatim>\<open>bundle.go\<close>, \<^verbatim>\<open>hash.go\<close>, \<^verbatim>\<open>installed.go\<close>): the
    enumeration of a configuration, its canonical hash, staging and committing a snapshot and the verified
    reads. What is committed is what is read back, a failed commit moves no pointer, only bytes that hash as
    the pointer says decide, and one hash is one configuration.
  \<^item> \<open>Config_Integrity\<close> (\<^verbatim>\<open>config/integrity.go\<close>) and \<open>Config_Signing\<close> (\<^verbatim>\<open>signature.go\<close>, \<^verbatim>\<open>signaturefile.go\<close>,
    \<^verbatim>\<open>signingkey.go\<close>, \<^verbatim>\<open>verifyfloor.go\<close>): the integrity posture of a control root, which is never accepted unless the
    program honours it; the operator's signed statement, which is read exactly and means one install only.
  \<^item> \<open>Exec_Verify\<close> (\<^verbatim>\<open>cmd/agenthof/verify.go\<close>, \<^verbatim>\<open>signing.go\<close>, \<open>resolveRunConfig\<close> of \<^verbatim>\<open>main.go\<close>, parts of \<^verbatim>\<open>installed.go\<close>): the
    execution point, which joins the store, the control ledger, the pinned key and the staleness floor, and the signing
    host. What runs is the install the ledger vouches for and, under a pin, the operator signed; it is never rolled
    back; what the host signs is accepted.
  \<^item> \<open>Artifact\<close> (\<^verbatim>\<open>artifact/store.go\<close>): the store of artifact bodies.
  \<^item> \<open>Engine\<close>, \<open>Engine_Run\<close> (\<^verbatim>\<open>engine\<close>), \<open>Completeness\<close>, \<open>Run_Complete\<close>, \<open>Run_Tree\<close>, \<open>Run_Log\<close> (\<^verbatim>\<open>completeness\<close>): the
    run with every exit, that it ends, that a failed ledger write is never success, that the ledger of a
    run is judged complete and that one with an event removed is not, and the check over a delegation tree.
  \<^item> \<open>Gateway_Tools\<close>, \<open>Gateway_Doors\<close>, \<open>Gateway_Run\<close> (\<^verbatim>\<open>rungateway/proxy.go\<close>, \<^verbatim>\<open>exec.go\<close>, \<^verbatim>\<open>spawn.go\<close>, \<^verbatim>\<open>attestation.go\<close>,
    \<^verbatim>\<open>gateway/resolve.go\<close>): the tool set derived from the grants, the four doors, and admission, spawn caps and
    Stop (which closes the doors, cancels the step's context, cuts the connections and waits) as a state machine over
    interleaved calls; Stop returns although a party outside never answers; the composition with the engine gives
    the complete ledger.
  \<^item> \<open>Control_Event\<close>, \<open>Control_Set\<close>, \<open>Control_Write\<close> (\<^verbatim>\<open>control/event.go\<close>, \<^verbatim>\<open>segments.go\<close>, \<^verbatim>\<open>manifest.go\<close>, \<^verbatim>\<open>log.go\<close>,
    \<^verbatim>\<open>seal.go\<close>, \<^verbatim>\<open>sink.go\<close>): the records and their permits, reading the segment set, and the writers.
    \<open>Control_Names\<close>, \<open>Control_Rep\<close>, \<open>Control_Append\<close>, \<open>Control_Rotate\<close>, \<open>Control_Torn\<close>, \<open>Control_Root\<close> relate a
    directory to the abstract root it represents, whole or with the torn tail of a write cut short, and show that
    every append, seal, completion and repair keeps one verified chain, wherever it stops and however its write ends.
    \<open>Control_Repair\<close> is the repair of a torn tail; \<open>Control_Accept\<close> shows the converse of the representation:
    what a reading accepts without a fault is a root.
  \<^item> \<open>Control_Restore\<close>, \<open>Control_Rebuild\<close>, \<open>Control_Mend\<close> (\<^verbatim>\<open>control/restore.go\<close>): judging a fetched copy, putting
    segments back, rebuilding the sealed set from the protected copies.
  \<^item> \<open>Sink\<close>, \<open>Seal_Copy\<close>, \<open>Sink_Copy\<close>, \<open>Sink_Wire\<close> (\<^verbatim>\<open>sink/sink.go\<close>, \<^verbatim>\<open>store.go\<close>, \<^verbatim>\<open>s3.go\<close>, \<^verbatim>\<open>sigv4.go\<close>, \<^verbatim>\<open>xml.go\<close>): the write-once copy. A
    confirmed copy is a protected one and stays so; a seal that reports one left the same bytes in its file and in
    the bucket; confirmed copies are what a rebuild needs; a signed request is pinned
    by its signature; a listing is whole or refused.

  \<^bold>\<open>How the code corresponds.\<close> A struct is a record with the fields of the source under a prefix, an enum a
  datatype, a function one definition under its Go name, with the type in front where two methods share
  it (\<open>Integrity_Validate\<close>, \<open>S3Put\<close>). State is passed and returned; an early return or an error is a branch that
  yields a value of an error datatype, which keeps the cause and the values an error names and not its fixed text.
  Loops are structural recursion, or recursion on a bound the code has. A Go \<open>int\<close> or a duration is an \<^typ>\<open>int\<close>
  wrapped by \<open>goInt\<close> where the code computes; a sequence number of the ledger is a 64-bit word. Two files of a directory
  are names for inodes where hard links matter (\<open>Control_Set\<close>), otherwise an association list by path. What
  the operating system decides (which call fails, how far a write gets, what another process does between
  two calls) is an argument, and the theorems hold for all of it unless a hypothesis says otherwise.

  \<^bold>\<open>What is assumed.\<close> Libraries outside the repository are arguments: JSON, YAML, URLs, SHA-256, HMAC, Ed25519,
  base64, PEM, HTTP and the object store. What is relied on is stated where it is used: \<open>goodCodec\<close> (a marshalled
  record is one line that reads back), \<open>keepsVersions\<close> (a versioned bucket under compliance locks keeps a
  locked version to its date), \<open>goodSigner\<close> (base64 and signatures read back), the absence of a hash collision
  among the strings at hand, and that a client call or a child run whose context has ended returns (\<open>settleStep\<close>).
  The steps of \<open>controlStep\<close> run one at a time with their reads answered; their writes may fail or be cut anywhere. Each such hypothesis is met by a concrete instance in a witness.

  \<^bold>\<open>Bounds and fuel.\<close> A ledger lock is tried until its deadline and the active segment is opened by name twice,
  as in the code; a fragment or replaced file looks for a free name 1000 times; a segment ordinal has six digits
  and a seq is an \<open>int\<close>, hence the hypothesis \<open>roomy\<close> of the progress theorems; a listing stops at the page bound of the code.
  The loop of \<open>Restore\<close> runs on fuel, the length of the manifest and one, and is proved to end within it.
  The engine's loop ends by the bound on bounces per step. After Stop has closed the doors the gateway takes at most
  five steps per held call and three of Stop's own.

  \<^bold>\<open>What is not modelled.\<close> The command line apart from the execution read and signing, its printing, the HTTP
  server and its clients, rendering for the terminal, the transparency-log client and its sidecars, credential brokers, OIDC tokens, the reference runtimes and confiners,
  which are calls of the operating system, containers and networks; inside the modelled packages, descriptors and their
  closing, log lines, time limits of network calls, symbolic links and the fixed text of messages; a
  temporary file that a failed atomic replacement could not remove again.
\<close>

end
